(* ===== verification/Prelude.thy ===== *)
theory Prelude
  imports Main "HOL-Library.Word" "HOL-Library.Monad_Syntax"
begin

text \<open>
  Shared material of the development: the machine types of the AArch64 build, bounds-checked access
  to C objects, and the generic lemmas on lists, options and words the components use.

  A C object (an array, a buffer, the memory a pointer points into up to the end of its object) is
  the list of its elements. A pointer into it is an index, or the rest of the list from the pointer
  on. An access outside the object is undefined behaviour in C; the models return \<open>None\<close> for it,
  as for every other point where the C code leaves its defined behaviour (a null dereference, an
  endless loop, a kernel panic where a component says so). Error codes are ordinary values.
\<close>

unbundle bit_operations_syntax

type_synonym u8 = "8 word"
type_synonym u16 = "16 word"
type_synonym u32 = "32 word"
type_synonym u64 = "64 word"
type_synonym bytes = "8 word list"

text \<open>Collections the component theories add to.\<close>

named_theorems layout_simps \<open>constants of the memory layout and of the protocol\<close>
named_theorems access_simps \<open>bounds-checked accesses that succeed\<close>
named_theorems loop_simps \<open>closed forms of the loops of the code\<close>

subsection \<open>Bounds-checked access\<close>

definition rd_at :: "'a list \<Rightarrow> nat \<Rightarrow> 'a option" where
  "rd_at xs i = (if i < length xs then Some (xs ! i) else None)"

definition wr_at :: "'a list \<Rightarrow> nat \<Rightarrow> 'a \<Rightarrow> 'a list option" where
  "wr_at xs i v = (if i < length xs then Some (xs[i := v]) else None)"

definition rd_bytes :: "'a list \<Rightarrow> nat \<Rightarrow> nat \<Rightarrow> 'a list option" where
  "rd_bytes xs p n = (if p + n \<le> length xs then Some (take n (drop p xs)) else None)"

definition wr_bytes :: "'a list \<Rightarrow> nat \<Rightarrow> 'a list \<Rightarrow> 'a list option" where
  "wr_bytes xs p bs =
     (if p + length bs \<le> length xs then Some (take p xs @ bs @ drop (p + length bs) xs) else None)"

text \<open>With a signed index.\<close>

definition rd_int :: "'a list \<Rightarrow> int \<Rightarrow> 'a option" where
  "rd_int xs i = (if i < 0 then None else rd_at xs (nat i))"

definition wr_int :: "'a list \<Rightarrow> int \<Rightarrow> 'a \<Rightarrow> 'a list option" where
  "wr_int xs i v = (if i < 0 then None else wr_at xs (nat i) v)"

text \<open>\<open>for (i = 0; i < N; i++) if (P(a[i])) return i;\<close>\<close>

fun first_index :: "('a \<Rightarrow> bool) \<Rightarrow> 'a list \<Rightarrow> nat option" where
  "first_index P [] = None"
| "first_index P (x # xs) = (if P x then Some 0 else map_option Suc (first_index P xs))"

lemma first_index_Some:
  "first_index P xs = Some i \<Longrightarrow> i < length xs \<and> P (xs ! i) \<and> (\<forall>j<i. \<not> P (xs ! j))"
  by (induction xs arbitrary: i) (auto simp: nth_Cons' gr0_conv_Suc split: if_splits)

lemma first_index_None: "first_index P xs = None \<longleftrightarrow> (\<forall>x\<in>set xs. \<not> P x)"
  by (induction xs) auto

lemma first_index_eqI:
  "i < length xs \<Longrightarrow> P (xs ! i) \<Longrightarrow> (\<And>j. j < i \<Longrightarrow> \<not> P (xs ! j)) \<Longrightarrow> first_index P xs = Some i"
  by (metis first_index_None first_index_Some linorder_neqE_nat nth_mem option.exhaust)

lemma rd_at_in [access_simps, simp]: "i < length xs \<Longrightarrow> rd_at xs i = Some (xs ! i)"
  by (simp add: rd_at_def)

lemma rd_at_out [access_simps, simp]: "length xs \<le> i \<Longrightarrow> rd_at xs i = None"
  by (simp add: rd_at_def)

lemma wr_at_in [access_simps, simp]: "i < length xs \<Longrightarrow> wr_at xs i v = Some (xs[i := v])"
  by (simp add: wr_at_def)

lemma wr_at_out [access_simps, simp]: "length xs \<le> i \<Longrightarrow> wr_at xs i v = None"
  by (simp add: wr_at_def)

lemma rd_at_Some: "rd_at xs i = Some v \<longleftrightarrow> i < length xs \<and> v = xs ! i"
  by (auto simp: rd_at_def)

lemma wr_at_Some: "wr_at xs i v = Some ys \<longleftrightarrow> i < length xs \<and> ys = xs[i := v]"
  by (auto simp: wr_at_def)

lemma rd_bytes_Some:
  "rd_bytes xs p n = Some ys \<longleftrightarrow> p + n \<le> length xs \<and> ys = take n (drop p xs)"
  by (auto simp: rd_bytes_def)

lemma wr_bytes_Some:
  "wr_bytes xs p bs = Some ys \<longleftrightarrow>
     p + length bs \<le> length xs \<and> ys = take p xs @ bs @ drop (p + length bs) xs"
  by (auto simp: wr_bytes_def)

lemma wr_bytes_length: "wr_bytes xs p bs = Some ys \<Longrightarrow> length ys = length xs"
  by (auto simp: wr_bytes_def split: if_splits)

lemma wr_bytes_nil [simp]: "p \<le> length xs \<Longrightarrow> wr_bytes xs p [] = Some xs"
  by (simp add: wr_bytes_def)

text \<open>Writing behind a prefix that is already written: how a cursor moves through a buffer.\<close>

lemma wr_bytes_append:
  assumes "length bs \<le> length ys"
  shows "wr_bytes (xs @ ys) (length xs) bs = Some ((xs @ bs) @ drop (length bs) ys)"
  using assms by (simp add: wr_bytes_def)

lemma rd_bytes_append [access_simps]:
  "rd_bytes (xs @ ys @ zs) (length xs) (length ys) = Some ys"
  by (simp add: rd_bytes_def)

lemma rd_at_append [access_simps]: "rd_at (xs @ y # zs) (length xs) = Some y"
  by (simp add: rd_at_def nth_append)

lemma wr_at_append [access_simps, simp]: "wr_at (xs @ y # zs) (length xs) v = Some (xs @ v # zs)"
  by (simp add: wr_at_def)

subsection \<open>C strings\<close>

text \<open>
  \<open>c_str s\<close> is the string a \<open>char *\<close> stands for (the bytes before the first NUL),
  \<open>terminated s\<close> says that there is a NUL inside the object. \<open>ascii\<close> writes a literal.
\<close>

definition c_str :: "bytes \<Rightarrow> bytes" where
  "c_str s = takeWhile (\<lambda>c. c \<noteq> 0) s"

definition terminated :: "bytes \<Rightarrow> bool" where
  "terminated s \<longleftrightarrow> 0 \<in> set s"

definition ascii :: "string \<Rightarrow> bytes" where
  "ascii s = map of_char s"

definition zstr :: "string \<Rightarrow> bytes" where
  "zstr s = ascii s @ [0]"

lemma c_str_Nil [simp]: "c_str [] = []"
  by (simp add: c_str_def)

lemma c_str_Cons [simp]: "c_str (c # s) = (if c = 0 then [] else c # c_str s)"
  by (simp add: c_str_def)

lemma terminated_Nil [simp]: "\<not> terminated []"
  by (simp add: terminated_def)

lemma terminated_Cons [simp]: "terminated (c # s) \<longleftrightarrow> c = 0 \<or> terminated s"
  by (auto simp: terminated_def)

lemma c_str_nonzero: "c \<in> set (c_str s) \<Longrightarrow> c \<noteq> 0"
  by (auto simp: c_str_def dest: set_takeWhileD)

lemma c_str_append_nul:
  "0 \<notin> set s \<Longrightarrow> c_str (s @ 0 # t) = s"
  by (induction s) auto

lemma c_str_id: "0 \<notin> set s \<Longrightarrow> c_str s = s"
  by (induction s) auto

lemma c_str_length_less: "terminated s \<Longrightarrow> length (c_str s) < length s"
  by (induction s) auto

lemma terminated_split: "terminated s \<Longrightarrow> \<exists>t. s = c_str s @ 0 # t"
proof (induction s)
  case (Cons c s)
  show ?case
  proof (cases "c = 0")
    case False
    with Cons obtain t where "s = c_str s @ 0 # t" by auto
    with False show ?thesis by auto
  qed simp
qed simp

lemma nth_c_str_end: "terminated s \<Longrightarrow> s ! length (c_str s) = 0"
  by (induction s) auto

text \<open>The value of \<open>*l - *r\<close>: both characters are promoted to \<open>int\<close>.\<close>

definition char_diff :: "u8 \<Rightarrow> u8 \<Rightarrow> int" where
  "char_diff l r = int (unat l) - int (unat r)"

lemma char_diff_zero [simp]: "char_diff l r = 0 \<longleftrightarrow> l = r"
  by (auto simp: char_diff_def word_uint_eq_iff)

lemma char_diff_neg: "char_diff l r < 0 \<longleftrightarrow> l < r"
  by (simp add: char_diff_def word_less_def)

subsection \<open>Lists, options and words\<close>

lemma map_option_Some: "map_option f x = Some y \<longleftrightarrow> (\<exists>z. x = Some z \<and> y = f z)"
  by (cases x) auto

lemma bind_Some: "Option.bind x f = Some y \<longleftrightarrow> (\<exists>z. x = Some z \<and> f z = Some y)"
  by (cases x) auto

lemma nth_eq_iff_index_less:
  "i < length xs \<Longrightarrow> xs[i := v] ! j = (if i = j then v else xs ! j)"
  by simp

lemma filter_update_length:
  assumes "i < length xs" "P (xs ! i)" "\<not> P v"
  shows "Suc (length (filter P (xs[i := v]))) = length (filter P xs)"
proof -
  have xs: "xs = take i xs @ xs ! i # drop (Suc i) xs"
    using assms(1) by (rule id_take_nth_drop)
  have upd: "xs[i := v] = take i xs @ v # drop (Suc i) xs"
    using assms(1) by (rule upd_conv_take_nth_drop)
  show ?thesis
    unfolding upd by (subst (2) xs) (simp add: assms)
qed

lemma u64_bound: "unat (w :: u64) < 2 ^ 64"
  using unsigned_less [of w, where ?'a = nat] by simp

lemma u32_bound: "unat (w :: u32) < 2 ^ 32"
  using unsigned_less [of w, where ?'a = nat] by simp

lemma u16_bound: "unat (w :: u16) < 2 ^ 16"
  using unsigned_less [of w, where ?'a = nat] by simp

lemma u8_bound: "unat (w :: u8) < 256"
  using unsigned_less [of w, where ?'a = nat] by simp

lemma of_nat_unat_word [simp]: "of_nat (unat w) = (w :: 'a::len word)"
  by (simp add: word_unat_eq_iff unat_of_nat)

lemma unat_mult_no_overflow:
  fixes a b :: "'a::len word"
  assumes "unat a * unat b < 2 ^ LENGTH('a)"
  shows "unat (a * b) = unat a * unat b"
  using assms by (simp add: unat_word_ariths)

lemma unat_add_no_overflow:
  fixes a b :: "'a::len word"
  assumes "unat a + unat b < 2 ^ LENGTH('a)"
  shows "unat (a + b) = unat a + unat b"
  using assms by (simp add: unat_word_ariths)

lemma sint_nonneg_unat:
  fixes w :: "'a::len word"
  assumes "\<not> sint w < 0"
  shows "nat (sint w) = unat w"
proof -
  have "(2::int) ^ (LENGTH('a) - 1) \<le> 2 ^ LENGTH('a)" by (intro power_increasing) auto
  then have "sint w < 2 ^ LENGTH('a)" using sint_lt [of w] by linarith
  then have "uint w = sint w"
    using assms by (subst uint_sint) (simp add: take_bit_int_eq_self_iff)
  then show ?thesis by (simp flip: nat_uint_eq)
qed

lemma sint_neg_unat:
  fixes w :: "'a::len word"
  assumes "sint w < 0"
  shows "nat (- sint w) = unat (- w)"
proof -
  have "(2::int) ^ (LENGTH('a) - 1) < 2 ^ LENGTH('a)" by (intro power_strict_increasing) auto
  then have bound: "- sint w < 2 ^ LENGTH('a)" using sint_ge [of w] by linarith
  have "- w = of_int (- sint w)" by simp
  then have "uint (- w) = take_bit LENGTH('a) (- sint w)"
    by (simp only: uint_word_of_int_eq)
  then have "uint (- w) = - sint w"
    using assms bound by (simp add: take_bit_int_eq_self_iff)
  then show ?thesis by (simp flip: nat_uint_eq)
qed

lemma sint_small_u32:
  assumes "unat (w :: u32) < 2 ^ 31"
  shows "sint w = int (unat w)"
proof -
  have lt: "uint w < 2 ^ 31" using assms by (simp add: nat_less_iff flip: nat_uint_eq)
  have "sint w = signed_take_bit 31 (uint w)" by (simp add: sint_uint)
  also have "\<dots> = uint w"
  proof (rule signed_take_bit_int_eq_self)
    have "0 \<le> uint w" by simp
    then show "- (2 ^ 31) \<le> uint w" by (rule order_trans [rotated]) simp
  qed (rule lt)
  finally show ?thesis by simp
qed

lemma sint_small_u64:
  assumes "unat (w :: u64) < 2 ^ 63"
  shows "sint w = int (unat w)"
proof -
  have lt: "uint w < 2 ^ 63" using assms by (simp add: nat_less_iff flip: nat_uint_eq)
  have "sint w = signed_take_bit 63 (uint w)" by (simp add: sint_uint)
  also have "\<dots> = uint w"
  proof (rule signed_take_bit_int_eq_self)
    have "0 \<le> uint w" by simp
    then show "- (2 ^ 63) \<le> uint w" by (rule order_trans [rotated]) simp
  qed (rule lt)
  finally show ?thesis by simp
qed

end
