(* ===== verification/Kernel_Defs.thy ===== *)
theory Kernel_Defs
  imports Prelude
begin

text \<open>
  Kernel-wide definitions: the error codes of \<^verbatim>\<open>kernel/error.h\<close>, the errno values of
  \<^verbatim>\<open>kernel/errno.h\<close> and the address-space constants and conversions of
  \<^verbatim>\<open>kernel/arch/mem.h\<close>. A \<open>void *\<close> or \<open>uintptr_t\<close> is a 64-bit word.
\<close>

subsection \<open>Error codes\<close>

datatype kern_err =
    ERR_OK | ERR_ELF_INV | ERR_ELF_MAC | ERR_ELF_UNS | ERR_MEM_EXS | ERR_MEM_FLG | ERR_MEM_OOM
  | ERR_MEM_UNM | ERR_MSB_COD | ERR_MSB_COE | ERR_MSB_COF | ERR_MSB_EXS | ERR_MSB_FND
  | ERR_MSB_NAM | ERR_MSB_SIZ

datatype errno =
    EEXIST | EACCES | ENFILE | ENOSPC | EINVAL | ENOENT | EBADF | EMSGSIZE | EAGAIN | ENOMEM
  | ERANGE | EMFILE | EIO | ENOEXEC | EOVERFLOW | ENOTSUP | ENAMETOOLONG

fun errno_val :: "errno \<Rightarrow> int" where
  "errno_val EEXIST = 1" | "errno_val EACCES = 2" | "errno_val ENFILE = 3"
| "errno_val ENOSPC = 4" | "errno_val EINVAL = 5" | "errno_val ENOENT = 6"
| "errno_val EBADF = 7" | "errno_val EMSGSIZE = 8" | "errno_val EAGAIN = 9"
| "errno_val ENOMEM = 10" | "errno_val ERANGE = 11" | "errno_val EMFILE = 12"
| "errno_val EIO = 13" | "errno_val ENOEXEC = 14" | "errno_val EOVERFLOW = 15"
| "errno_val ENOTSUP = 16" | "errno_val ENAMETOOLONG = 17"

definition ERRNO_TOTAL :: int where
  "ERRNO_TOTAL = 18"

lemma errno_val_bounds: "0 < errno_val e \<and> errno_val e < ERRNO_TOTAL"
  by (cases e) (auto simp: ERRNO_TOTAL_def)

lemma errno_val_inj: "errno_val e = errno_val e' \<longleftrightarrow> e = e'"
  by (cases e; cases e') auto

subsection \<open>Address space\<close>

definition MEM_LOW :: u64 where [layout_simps]: "MEM_LOW = 0x80000"
definition MEM_HIGH :: u64 where [layout_simps]: "MEM_HIGH = 0x3e000000"
definition MEM_VA_KERNEL_START :: u64 where
  [layout_simps]: "MEM_VA_KERNEL_START = 0xffff000000000000"
definition PAGESIZE :: u64 where [layout_simps]: "PAGESIZE = 0x1000"
definition MEM_RD :: u64 where [layout_simps]: "MEM_RD = MEM_VA_KERNEL_START + 0x3e000000"
definition MEM_MMIO :: u64 where [layout_simps]: "MEM_MMIO = MEM_VA_KERNEL_START + 0x3f000000"
definition MEM_VA_KERNEL_STACK :: u64 where
  [layout_simps]: "MEM_VA_KERNEL_STACK = MEM_VA_KERNEL_START + MEM_LOW - PAGESIZE"

definition MEM_VIRT_TO_PHYS :: "u64 \<Rightarrow> u64" where
  "MEM_VIRT_TO_PHYS x = x - MEM_VA_KERNEL_START"

definition MEM_PHYS_TO_VIRT :: "u64 \<Rightarrow> u64" where
  "MEM_PHYS_TO_VIRT x = x + MEM_VA_KERNEL_START"

text \<open>\<open>~(PAGESIZE - 1)\<close> is an \<open>int\<close> in C and sign-extends to the 64-bit mask below.\<close>

definition PAGE_MASK :: u64 where [layout_simps]: "PAGE_MASK = NOT (PAGESIZE - 1)"

definition MEM_SIZE_TO_PAGES :: "u64 \<Rightarrow> u64" where
  "MEM_SIZE_TO_PAGES s = ((s + PAGESIZE - 1) AND PAGE_MASK) div PAGESIZE"

text \<open>\<open>MEM_PERM_OTHER\<close> stands for a value of the enum type that is none of its constants.\<close>

datatype mem_perm = MEM_RO | MEM_RW | MEM_EX | MEM_PERM_OTHER
datatype mem_attr = MEM_NORM | MEM_DEVC

lemma virt_phys [simp]: "MEM_PHYS_TO_VIRT (MEM_VIRT_TO_PHYS x) = x"
  by (simp add: MEM_PHYS_TO_VIRT_def MEM_VIRT_TO_PHYS_def)

lemma phys_virt [simp]: "MEM_VIRT_TO_PHYS (MEM_PHYS_TO_VIRT x) = x"
  by (simp add: MEM_PHYS_TO_VIRT_def MEM_VIRT_TO_PHYS_def)

lemma phys_to_virt_inj [simp]: "MEM_PHYS_TO_VIRT x = MEM_PHYS_TO_VIRT y \<longleftrightarrow> x = y"
  by (simp add: MEM_PHYS_TO_VIRT_def)

text \<open>The flags of queues and files (\<^verbatim>\<open>kernel/mqueue.h\<close>, \<^verbatim>\<open>lib/c/include/fcntl.h\<close>).\<close>

definition O_RDONLY :: u32 where [layout_simps]: "O_RDONLY = 1"
definition O_WRONLY :: u32 where [layout_simps]: "O_WRONLY = 2"
definition O_RDWR :: u32 where [layout_simps]: "O_RDWR = 4"
definition O_CREAT :: u32 where [layout_simps]: "O_CREAT = 8"
definition O_EXCL :: u32 where [layout_simps]: "O_EXCL = 16"
definition O_NONBLOCK :: u32 where [layout_simps]: "O_NONBLOCK = 32"

end
