(* ===== verification/Pmm.thy ===== *)
theory Pmm
  imports Kernel_Defs
begin

text \<open>
  The physical page allocator (\<^verbatim>\<open>kernel/arch/aarch64/pmm.c\<close>): a bitmap of \<open>MEM_MAP_SIZE\<close> 64-bit
  words over the pages from \<open>MEM_LOW\<close> on. The state is \<open>memory_map\<close> as a list of words; an index
  outside the array is \<open>None\<close>. The abstract state is the set of free page addresses,
  \<open>pmm_avail\<close>; the locale \<open>frame_allocator\<close> is the contract the memory manager relies on, and the
  bitmap is its interpretation.
\<close>

definition TOTAL_PAGES :: u64 where
  [layout_simps]: "TOTAL_PAGES = (MEM_HIGH - MEM_LOW) div PAGESIZE"

definition MEM_MAP_SIZE :: nat where
  "MEM_MAP_SIZE = unat (TOTAL_PAGES div 64 - 1)"

definition pmm_page :: "u64 \<Rightarrow> u64" where
  "pmm_page addr = (addr - MEM_LOW) div PAGESIZE"

definition pmm_free :: "u64 \<Rightarrow> u64 list \<Rightarrow> u64 list option" where
  "pmm_free addr memory_map =
     (let page = pmm_page addr; index = unat (page div 64); offset = unat (page mod 64) in do {
        w \<leftarrow> rd_at memory_map index;
        wr_at memory_map index (w AND NOT (push_bit offset 1)) })"

definition pmm_mark :: "u64 \<Rightarrow> u64 list \<Rightarrow> u64 list option" where
  "pmm_mark addr memory_map =
     (let page = pmm_page addr; index = unat (page div 64); offset = unat (page mod 64) in do {
        w \<leftarrow> rd_at memory_map index;
        wr_at memory_map index (w OR push_bit offset 1) })"

text \<open>The two loops of \<open>pmm_get\<close>: the first clear bit of a word, the first word with one.\<close>

function pmm_get_off :: "u64 \<Rightarrow> nat \<Rightarrow> nat option" where
  "pmm_get_off w off =
     (if off < 64 then
        if w AND push_bit off 1 = 0 then Some off else pmm_get_off w (off + 1)
      else None)"
  by pat_completeness auto
termination
  by (relation "measure (\<lambda>(w, off). 64 - off)") auto

function pmm_get_from :: "u64 list \<Rightarrow> nat \<Rightarrow> (u64 \<times> u64 list) option" where
  "pmm_get_from memory_map i =
     (if i < MEM_MAP_SIZE then do {
        w \<leftarrow> rd_at memory_map i;
        if w = -1 then pmm_get_from memory_map (i + 1)
        else (case pmm_get_off w 0 of
            Some off \<Rightarrow> do {
              memory_map' \<leftarrow> wr_at memory_map i (w OR push_bit off 1);
              Some (MEM_LOW + (of_nat i * 64 + of_nat off) * PAGESIZE, memory_map') }
          | None \<Rightarrow> pmm_get_from memory_map (i + 1)) }
      else Some (0, memory_map))"
  by pat_completeness auto
termination
  by (relation "measure (\<lambda>(m, i). MEM_MAP_SIZE - i)") auto

declare pmm_get_off.simps [simp del] pmm_get_from.simps [simp del]

definition pmm_get :: "u64 list \<Rightarrow> (u64 \<times> u64 list) option" where
  "pmm_get memory_map = pmm_get_from memory_map 0"

subsection \<open>Pages and bits\<close>

lemma MEM_MAP_SIZE_eq: "MEM_MAP_SIZE = 3965"
  by (simp add: MEM_MAP_SIZE_def layout_simps)

text \<open>Page number \<open>p\<close> of the map, and its address.\<close>

definition page_addr :: "nat \<Rightarrow> u64" where
  "page_addr p = MEM_LOW + of_nat p * PAGESIZE"

definition page_free :: "u64 list \<Rightarrow> nat \<Rightarrow> bool" where
  "page_free m p \<longleftrightarrow> p < 64 * MEM_MAP_SIZE \<and> \<not> bit (m ! (p div 64)) (p mod 64)"

definition pmm_avail :: "u64 list \<Rightarrow> u64 set" where
  "pmm_avail m = page_addr ` {p. page_free m p}"

definition pmm_pages :: "u64 set" where
  "pmm_pages = page_addr ` {p. p < 64 * MEM_MAP_SIZE}"

definition pmm_wf :: "u64 list \<Rightarrow> bool" where
  "pmm_wf m \<longleftrightarrow> length m = MEM_MAP_SIZE"

lemma unat_page_addr:
  assumes "p < 64 * MEM_MAP_SIZE"
  shows "unat (page_addr p) = 0x80000 + p * 0x1000"
proof -
  have p: "p < 253760" using assms by (simp add: MEM_MAP_SIZE_eq)
  then have "unat (of_nat p :: u64) = p" by (simp add: unat_of_nat)
  then have "unat (of_nat p * (0x1000 :: u64)) = p * 0x1000"
    using p by (subst unat_mult_no_overflow) simp_all
  then show ?thesis
    using p by (simp add: page_addr_def layout_simps unat_add_no_overflow)
qed

lemma page_addr_inj:
  assumes "p < 64 * MEM_MAP_SIZE" "q < 64 * MEM_MAP_SIZE"
  shows "page_addr p = page_addr q \<longleftrightarrow> p = q"
  using unat_page_addr [OF assms(1)] unat_page_addr [OF assms(2)] by (metis add_left_cancel
      mult_cancel2 zero_neq_numeral)

lemma page_addr_nonzero: "p < 64 * MEM_MAP_SIZE \<Longrightarrow> page_addr p \<noteq> 0"
  using unat_page_addr [of p] by auto

lemma pmm_page_addr:
  assumes "p < 64 * MEM_MAP_SIZE"
  shows "unat (pmm_page (page_addr p)) = p"
proof -
  have p: "p < 253760" using assms by (simp add: MEM_MAP_SIZE_eq)
  then have "unat (of_nat p :: u64) = p" by (simp add: unat_of_nat)
  then have "unat (of_nat p * (0x1000 :: u64)) = p * 0x1000"
    using p by (subst unat_mult_no_overflow) simp_all
  then show ?thesis
    by (simp add: pmm_page_def page_addr_def layout_simps unat_div_distrib)
qed

lemma page_index:
  assumes "p < 64 * MEM_MAP_SIZE"
  shows "unat (pmm_page (page_addr p) div 64) = p div 64"
    and "unat (pmm_page (page_addr p) mod 64) = p mod 64"
    and "p div 64 < MEM_MAP_SIZE"
  using assms by (simp_all add: unat_div_distrib unat_mod_distrib pmm_page_addr)

lemma bit_test [simp]: "(w :: u64) AND 2 ^ off = 0 \<longleftrightarrow> \<not> bit w off"
  by (simp add: and_exp_eq_0_iff_not_bit)

lemma all_ones: "(w :: u64) = -1 \<longleftrightarrow> (\<forall>off<64. bit w off)"
  by (auto simp: bit_eq_iff bit_simps dest: bit_imp_le_length)

lemma bit_mark: "bit (w OR push_bit off (1 :: u64)) n \<longleftrightarrow> bit w n \<or> n = off \<and> off < 64"
  by (auto simp: bit_simps)

lemma bit_clear: "bit (w AND NOT (push_bit off (1 :: u64))) n \<longleftrightarrow> bit w n \<and> n \<noteq> off"
  by (auto simp: bit_simps dest: bit_imp_le_length)

subsection \<open>The loops\<close>

lemma pmm_get_off_step:
  "i < 64 \<Longrightarrow> pmm_get_off w i = (if bit w i then pmm_get_off w (i + 1) else Some i)"
  "64 \<le> i \<Longrightarrow> pmm_get_off w i = None"
  by (subst pmm_get_off.simps, simp)+

lemma pmm_get_off_Some:
  "pmm_get_off w i = Some off \<Longrightarrow>
   i \<le> off \<and> off < 64 \<and> \<not> bit w off \<and> (\<forall>j. i \<le> j \<and> j < off \<longrightarrow> bit w j)"
proof (induction w i rule: pmm_get_off.induct)
  case (1 w i)
  show ?case
  proof (cases "i < 64 \<and> bit w i")
    case True
    with 1(2) have "pmm_get_off w (i + 1) = Some off" by (simp add: pmm_get_off_step)
    with 1(1) True have rest: "i + 1 \<le> off" "off < 64" "\<not> bit w off"
        "\<forall>j. i + 1 \<le> j \<and> j < off \<longrightarrow> bit w j"
      by auto
    have "bit w j" if "i \<le> j" "j < off" for j
      using that rest(4) True by (cases "j = i") auto
    with rest show ?thesis by auto
  next
    case False
    with 1(2) show ?thesis by (cases "i < 64") (auto simp: pmm_get_off_step)
  qed
qed

lemma pmm_get_off_None: "pmm_get_off w i = None \<Longrightarrow> i \<le> j \<Longrightarrow> j < 64 \<Longrightarrow> bit w j"
proof (induction w i rule: pmm_get_off.induct)
  case (1 w i)
  then have "i < 64" by simp
  with 1(2) have "bit w i" "pmm_get_off w (i + 1) = None"
    by (auto simp: pmm_get_off_step split: if_splits)
  with 1(1) [OF \<open>i < 64\<close>] 1(3,4) \<open>i < 64\<close> show ?case
    by (cases "j = i") auto
qed

text \<open>What the search does: it marks and returns the first free page, or says there is none.\<close>

definition search_spec :: "u64 list \<Rightarrow> nat \<Rightarrow> (u64 \<times> u64 list) option \<Rightarrow> bool" where
  "search_spec m i r \<longleftrightarrow>
     (\<exists>p. i \<le> p \<and> page_free m p \<and> (\<forall>q. i \<le> q \<and> q < p \<longrightarrow> \<not> page_free m q) \<and>
        r = Some (page_addr p, m[p div 64 := m ! (p div 64) OR push_bit (p mod 64) 1])) \<or>
     (\<forall>q. i \<le> q \<longrightarrow> \<not> page_free m q) \<and> r = Some (0, m)"

lemma search_skip:
  assumes "search_spec m j r" "i \<le> j" "\<And>q. i \<le> q \<Longrightarrow> q < j \<Longrightarrow> \<not> page_free m q"
  shows "search_spec m i r"
proof -
  have "\<not> page_free m q" if "i \<le> q" "q < p" "\<forall>q. j \<le> q \<and> q < p \<longrightarrow> \<not> page_free m q" for p q
    using that assms(3) [of q] by (cases "j \<le> q") auto
  moreover have "\<not> page_free m q" if "i \<le> q" "\<forall>q. j \<le> q \<longrightarrow> \<not> page_free m q" for q
    using that assms(3) [of q] by (cases "j \<le> q") auto
  moreover have "i \<le> p" if "j \<le> p" for p
    using that assms(2) by simp
  ultimately show ?thesis
    using assms(1) unfolding search_spec_def by (elim disjE exE conjE) blast+
qed

lemma full_word_skip:
  assumes "\<forall>off<64. bit (m ! i) off" "64 * i \<le> q" "q < 64 * (i + 1)"
  shows "\<not> page_free m q"
proof -
  have "q div 64 = i" using assms(2,3) by (intro div_nat_eqI) auto
  then show ?thesis using assms(1) by (simp add: page_free_def)
qed

lemma search_found:
  assumes "i < MEM_MAP_SIZE" "off < 64" "\<not> bit (m ! i) off" "\<forall>j<off. bit (m ! i) j"
  shows "search_spec m (64 * i) (Some (page_addr (64 * i + off), m[i := m ! i OR push_bit off 1]))"
proof -
  define p where "p = 64 * i + off"
  have idx: "p div 64 = i" "p mod 64 = off" using assms(2) by (auto simp: p_def)
  have "p < 64 * MEM_MAP_SIZE" using assms(1,2) by (simp add: p_def)
  then have "page_free m p" using assms(3) idx by (simp add: page_free_def)
  moreover have "\<not> page_free m q" if lo: "64 * i \<le> q" and hi: "q < p" for q
  proof -
    obtain r where "q = 64 * i + r" using le_Suc_ex [OF lo] by blast
    with hi have "q = 64 * i + r" "r < off" by (simp_all add: p_def)
    then have "q div 64 = i" "q mod 64 < off" using assms(2) by auto
    then show ?thesis using assms(4) by (simp add: page_free_def)
  qed
  moreover have "64 * i \<le> p" by (simp add: p_def)
  ultimately show ?thesis
    unfolding search_spec_def p_def [symmetric] using idx by blast
qed

lemma pmm_get_from_result: "pmm_wf m \<Longrightarrow> search_spec m (64 * i) (pmm_get_from m i)"
proof (induction m i rule: pmm_get_from.induct)
  case (1 m i)
  show ?case
  proof (cases "i < MEM_MAP_SIZE")
    case False
    then show ?thesis
      by (subst pmm_get_from.simps) (auto simp: search_spec_def page_free_def)
  next
    case True
    with 1(3) have rd: "rd_at m i = Some (m ! i)" and i: "i < length m"
      by (simp_all add: pmm_wf_def)
    show ?thesis
    proof (cases "m ! i = -1")
      case minus: True
      then have "pmm_get_from m i = pmm_get_from m (i + 1)"
        using True rd by (subst pmm_get_from.simps) simp
      moreover have "search_spec m (64 * (i + 1)) (pmm_get_from m (i + 1))"
        using 1(1) [OF True rd minus 1(3)] .
      ultimately show ?thesis
        using search_skip full_word_skip minus all_ones by fastforce
    next
      case notfull: False
      then obtain off where off: "pmm_get_off (m ! i) 0 = Some off"
        using pmm_get_off_None [of "m ! i" 0] all_ones by (cases "pmm_get_off (m ! i) 0") auto
      then have "pmm_get_from m i = Some (page_addr (64 * i + off), m[i := m ! i OR push_bit off 1])"
        using True rd notfull i
        by (subst pmm_get_from.simps) (simp add: page_addr_def mult.commute)
      then show ?thesis
        using search_found [OF True, of off m] pmm_get_off_Some [OF off] by simp
    qed
  qed
qed

lemma pmm_get_result: "pmm_wf m \<Longrightarrow> search_spec m 0 (pmm_get m)"
  using pmm_get_from_result [of m 0] by (simp add: pmm_get_def)

lemma page_free_upd:
  assumes "pmm_wf m" "p < 64 * MEM_MAP_SIZE"
    and "\<And>n. bit v n \<longleftrightarrow> (if n = p mod 64 then b else bit (m ! (p div 64)) n)"
  shows "page_free (m[p div 64 := v]) q \<longleftrightarrow> (if q = p then \<not> b else page_free m q)"
proof (cases "q div 64 = p div 64")
  case True
  then have "q = p \<longleftrightarrow> q mod 64 = p mod 64"
    by (metis div_mult_mod_eq)
  with True assms show ?thesis by (auto simp: page_free_def pmm_wf_def)
next
  case False
  then show ?thesis by (auto simp: page_free_def)
qed

lemma page_free_range: "page_free m p \<Longrightarrow> p < 64 * MEM_MAP_SIZE"
  by (simp add: page_free_def)

lemma page_addr_avail:
  "p < 64 * MEM_MAP_SIZE \<Longrightarrow> page_addr p \<in> pmm_avail m \<longleftrightarrow> page_free m p"
  by (auto simp: pmm_avail_def page_addr_inj page_free_def)

lemma avail_pages: "pmm_avail m \<subseteq> pmm_pages"
  by (auto simp: pmm_avail_def pmm_pages_def page_free_def)

lemma avail_eqI:
  assumes "A \<subseteq> pmm_pages" "B \<subseteq> pmm_pages"
    and "\<And>p. p < 64 * MEM_MAP_SIZE \<Longrightarrow> page_addr p \<in> A \<longleftrightarrow> page_addr p \<in> B"
  shows "A = B"
  using assms by (auto simp: pmm_pages_def)

lemma avail_upd:
  assumes "pmm_wf m" "p < 64 * MEM_MAP_SIZE"
    and "\<And>n. bit v n \<longleftrightarrow> (if n = p mod 64 then b else bit (m ! (p div 64)) n)"
  shows "pmm_avail (m[p div 64 := v]) =
    (if b then pmm_avail m - {page_addr p} else insert (page_addr p) (pmm_avail m))"
proof (rule avail_eqI)
  show "(if b then pmm_avail m - {page_addr p} else insert (page_addr p) (pmm_avail m)) \<subseteq> pmm_pages"
    using avail_pages [of m] assms(2) by (auto simp: pmm_pages_def)
  fix q assume q: "q < 64 * MEM_MAP_SIZE"
  show "page_addr q \<in> pmm_avail (m[p div 64 := v]) \<longleftrightarrow>
      page_addr q \<in> (if b then pmm_avail m - {page_addr p} else insert (page_addr p) (pmm_avail m))"
    using page_free_upd [OF assms, of q] q assms(2)
    by (auto simp: page_addr_avail page_addr_inj)
qed (rule avail_pages)

lemma pmm_mark_spec:
  assumes "pmm_wf m" "p < 64 * MEM_MAP_SIZE"
  shows "\<exists>m'. pmm_mark (page_addr p) m = Some m' \<and> pmm_wf m' \<and>
    pmm_avail m' = pmm_avail m - {page_addr p}"
proof -
  let ?v = "m ! (p div 64) OR push_bit (p mod 64) 1"
  have "pmm_mark (page_addr p) m = Some (m[p div 64 := ?v])"
    using assms page_index [OF assms(2)] by (simp add: pmm_mark_def Let_def pmm_wf_def)
  moreover have "pmm_avail (m[p div 64 := ?v]) = pmm_avail m - {page_addr p}"
    using avail_upd [OF assms, of ?v True] bit_mark [of "m ! (p div 64)" "p mod 64"] by simp
  ultimately show ?thesis using assms(1) by (simp add: pmm_wf_def)
qed

lemma pmm_free_spec:
  assumes "pmm_wf m" "p < 64 * MEM_MAP_SIZE"
  shows "\<exists>m'. pmm_free (page_addr p) m = Some m' \<and> pmm_wf m' \<and>
    pmm_avail m' = insert (page_addr p) (pmm_avail m)"
proof -
  let ?v = "m ! (p div 64) AND NOT (push_bit (p mod 64) 1)"
  have "pmm_free (page_addr p) m = Some (m[p div 64 := ?v])"
    using assms page_index [OF assms(2)] by (simp add: pmm_free_def Let_def pmm_wf_def)
  moreover have "pmm_avail (m[p div 64 := ?v]) = insert (page_addr p) (pmm_avail m)"
    using avail_upd [OF assms, of ?v False] bit_clear [of "m ! (p div 64)" "p mod 64"] by simp
  ultimately show ?thesis using assms(1) by (simp add: pmm_wf_def)
qed

subsection \<open>The contract\<close>

text \<open>
  A frame allocator hands out an available frame, or \<open>NULL\<close> exactly when none is left; freeing and
  marking change the availability of that frame only.
\<close>

locale frame_allocator =
  fixes get :: "'s \<Rightarrow> (u64 \<times> 's) option"
    and free mark :: "u64 \<Rightarrow> 's \<Rightarrow> 's option"
    and avail :: "'s \<Rightarrow> u64 set"
    and frames :: "u64 set"
    and wf :: "'s \<Rightarrow> bool"
  assumes avail_frames: "wf s \<Longrightarrow> avail s \<subseteq> frames"
    and null_no_frame: "0 \<notin> frames"
    and get_spec: "wf s \<Longrightarrow> \<exists>a s'. get s = Some (a, s') \<and> wf s' \<and>
      (if avail s = {} then a = 0 \<and> s' = s else a \<in> avail s \<and> avail s' = avail s - {a})"
    and free_spec: "wf s \<Longrightarrow> a \<in> frames \<Longrightarrow>
      \<exists>s'. free a s = Some s' \<and> wf s' \<and> avail s' = insert a (avail s)"
    and mark_spec: "wf s \<Longrightarrow> a \<in> frames \<Longrightarrow>
      \<exists>s'. mark a s = Some s' \<and> wf s' \<and> avail s' = avail s - {a}"
begin

lemma get_total: "wf s \<Longrightarrow> get s \<noteq> None"
  using get_spec by fastforce

lemma get_frame:
  assumes "wf s" "get s = Some (a, s')"
  shows "wf s' \<and> (a = 0 \<longleftrightarrow> avail s = {}) \<and> (a = 0 \<longrightarrow> s' = s) \<and>
    (a \<noteq> 0 \<longrightarrow> a \<in> avail s \<and> a \<in> frames \<and> avail s' = avail s - {a})"
  using get_spec [OF assms(1)] assms(2) avail_frames [OF assms(1)] null_no_frame
  by (auto split: if_splits)

lemma get_wf: "wf s \<Longrightarrow> get s = Some (a, s') \<Longrightarrow> wf s'"
  using get_frame by blast

text \<open>Two frames held at the same time are different.\<close>

lemma get_distinct:
  assumes "wf s" "get s = Some (a, s')" "get s' = Some (b, s'')" "b \<noteq> 0"
  shows "a \<noteq> b"
proof -
  have "wf s'" using get_wf [OF assms(1,2)] .
  with get_frame [OF this assms(3)] get_frame [OF assms(1,2)] assms(4)
  show ?thesis by auto
qed

lemma get_free_id:
  assumes "wf s" "get s = Some (a, s')" "a \<noteq> 0"
  shows "\<exists>s''. free a s' = Some s'' \<and> wf s'' \<and> avail s'' = avail s"
  using get_frame [OF assms(1,2)] assms(3) free_spec [of s' a] by (auto simp: insert_absorb)

text \<open>A marked frame is not handed out until it is freed.\<close>

lemma marked_not_got:
  assumes "wf s" "a \<in> frames" "mark a s = Some s'" "get s' = Some (b, s'')"
  shows "b \<noteq> a"
proof -
  from mark_spec [OF assms(1,2)] assms(3) have "wf s'" "avail s' = avail s - {a}" by auto
  with get_frame [OF this(1) assms(4)] assms(2) null_no_frame show ?thesis by auto
qed

end

lemma zero_no_page: "0 \<notin> pmm_pages"
  using page_addr_nonzero by (auto simp: pmm_pages_def)

lemma pmm_get_spec:
  assumes "pmm_wf m"
  shows "\<exists>a m'. pmm_get m = Some (a, m') \<and> pmm_wf m' \<and>
      (if pmm_avail m = {} then a = 0 \<and> m' = m
       else a \<in> pmm_avail m \<and> pmm_avail m' = pmm_avail m - {a})"
proof -
  consider (got) p where "page_free m p"
      "pmm_get m = Some (page_addr p, m[p div 64 := m ! (p div 64) OR push_bit (p mod 64) 1])"
    | (none) "\<forall>q. \<not> page_free m q" "pmm_get m = Some (0, m)"
    using pmm_get_result [OF assms] unfolding search_spec_def by blast
  then show ?thesis
  proof cases
    case got
    have range: "p < 64 * MEM_MAP_SIZE" using got(1) by (rule page_free_range)
    have "pmm_avail (m[p div 64 := m ! (p div 64) OR push_bit (p mod 64) 1]) =
        pmm_avail m - {page_addr p}"
      using avail_upd [OF assms range, of _ True] bit_mark [of "m ! (p div 64)" "p mod 64"] by simp
    moreover have "page_addr p \<in> pmm_avail m"
      using got(1) range by (simp add: page_addr_avail)
    ultimately show ?thesis
      using got(2) assms by (auto simp: pmm_wf_def)
  next
    case none
    with assms show ?thesis by (simp add: pmm_avail_def)
  qed
qed

interpretation pmm: frame_allocator pmm_get pmm_free pmm_mark pmm_avail pmm_pages pmm_wf
proof
  fix m a
  assume m: "pmm_wf m"
  show "pmm_avail m \<subseteq> pmm_pages" by (rule avail_pages)
  show "\<exists>a m'. pmm_get m = Some (a, m') \<and> pmm_wf m' \<and>
      (if pmm_avail m = {} then a = 0 \<and> m' = m
       else a \<in> pmm_avail m \<and> pmm_avail m' = pmm_avail m - {a})"
    using m by (rule pmm_get_spec)
  assume "a \<in> pmm_pages"
  then obtain p where p: "p < 64 * MEM_MAP_SIZE" "a = page_addr p" by (auto simp: pmm_pages_def)
  show "\<exists>m'. pmm_free a m = Some m' \<and> pmm_wf m' \<and> pmm_avail m' = insert a (pmm_avail m)"
    using pmm_free_spec [OF m p(1)] p(2) by simp
  show "\<exists>m'. pmm_mark a m = Some m' \<and> pmm_wf m' \<and> pmm_avail m' = pmm_avail m - {a}"
    using pmm_mark_spec [OF m p(1)] p(2) by simp
qed (rule zero_no_page)

subsection \<open>Properties\<close>

text \<open>
  C2. The bitmap implements a set of free frames: \<open>pmm_get\<close> always returns, gives the lowest free
  frame and takes exactly that frame from the set (or returns \<open>NULL\<close> and changes nothing when the
  set is empty), and freeing the frame again restores the set.
\<close>
theorem pmm_get_refines:
  assumes "pmm_wf m"
  shows "\<exists>a m'. pmm_get m = Some (a, m') \<and> pmm_wf m' \<and>
    (a = 0 \<longleftrightarrow> pmm_avail m = {}) \<and> (a = 0 \<longrightarrow> m' = m) \<and>
    (a \<noteq> 0 \<longrightarrow> a \<in> pmm_avail m \<and> (\<forall>b\<in>pmm_avail m. a \<le> b) \<and>
       pmm_avail m' = pmm_avail m - {a} \<and>
       (\<exists>m''. pmm_free a m' = Some m'' \<and> pmm_wf m'' \<and> pmm_avail m'' = pmm_avail m))"
proof -
  obtain a m' where got: "pmm_get m = Some (a, m')"
    using pmm.get_total [OF assms] by auto
  have low: "a \<le> b" if "a \<noteq> 0" "b \<in> pmm_avail m" for b
  proof -
    from that got pmm_get_result [OF assms] obtain p where
        p: "page_free m p" "\<forall>q<p. \<not> page_free m q" "a = page_addr p"
      by (auto simp: search_spec_def)
    from that(2) obtain q where q: "page_free m q" "b = page_addr q"
      by (auto simp: pmm_avail_def)
    with p(2) have "p \<le> q" by (meson linorder_not_le)
    with p q show ?thesis
      by (simp add: word_le_nat_alt unat_page_addr page_free_range)
  qed
  show ?thesis
    using got pmm.get_frame [OF assms got] pmm.get_free_id [OF assms got] low by auto
qed

theorem pmm_get_refines_witness:
  "\<exists>a m'. pmm_get (replicate MEM_MAP_SIZE 0) = Some (a, m') \<and> a \<noteq> 0"
proof -
  have "pmm_wf (replicate MEM_MAP_SIZE 0)" by (simp add: pmm_wf_def)
  moreover have "page_free (replicate MEM_MAP_SIZE 0) 0"
    by (simp add: page_free_def MEM_MAP_SIZE_eq)
  then have "pmm_avail (replicate MEM_MAP_SIZE 0) \<noteq> {}" by (auto simp: pmm_avail_def)
  ultimately show ?thesis
    using pmm_get_refines [of "replicate MEM_MAP_SIZE 0"] by auto
qed

text \<open>
  The map leaves out the last word's worth of pages: for every page of the managed range
  \<open>MEM_LOW\<close> to \<open>MEM_HIGH\<close> with one of the last 64 page numbers, and for everything up to the end of
  the peripherals, \<open>pmm_mark\<close> and \<open>pmm_free\<close> index behind \<open>memory_map\<close>. The ramdisk and the
  peripherals, which \<open>mmu_setup\<close> marks, lie there.
\<close>
lemma pmm_mark_out_of_bounds:
  assumes "pmm_wf m" "0x3dfc0000 \<le> addr"
  shows "pmm_mark addr m = None \<and> pmm_free addr m = None"
proof -
  have le: "MEM_LOW \<le> addr" using assms(2) by (simp add: layout_simps word_le_nat_alt)
  have "0x3dfc0000 \<le> unat addr" using assms(2) by (simp add: word_le_nat_alt)
  then have "0x3df40000 \<le> unat (addr - MEM_LOW)"
    using unat_sub [OF le] by (simp add: layout_simps)
  then have "3965 \<le> unat (pmm_page addr div 64)"
    by (simp add: pmm_page_def unat_div_distrib layout_simps)
  with assms(1) show ?thesis
    by (simp add: pmm_mark_def pmm_free_def Let_def pmm_wf_def MEM_MAP_SIZE_eq)
qed

lemma pmm_mark_out_of_bounds_witness:
  "pmm_mark (MEM_VIRT_TO_PHYS MEM_RD) (replicate MEM_MAP_SIZE 0) = None \<and>
   pmm_mark (MEM_HIGH - PAGESIZE) (replicate MEM_MAP_SIZE 0) = None"
  using pmm_mark_out_of_bounds [of "replicate MEM_MAP_SIZE 0" "MEM_VIRT_TO_PHYS MEM_RD"]
    pmm_mark_out_of_bounds [of "replicate MEM_MAP_SIZE 0" "MEM_HIGH - PAGESIZE"]
  by (simp add: pmm_wf_def layout_simps MEM_VIRT_TO_PHYS_def word_le_nat_alt)

end
