(* ===== verification/Mmu.thy ===== *)
theory Mmu
  imports Kernel_Defs
begin

text \<open>
  Translation table entries (\<^verbatim>\<open>kernel/arch/aarch64/mmu.h\<close> and the entry functions of \<^verbatim>\<open>mmu.c\<close>).
  An entry is a 64-bit word: bit 0 valid, bit 1 table or page, bits 6 and 7 the access
  permissions, bits 12 to 47 the address, bits 55 to 58 the reference counter.
\<close>

definition ATT_VALID_OFF :: nat where [layout_simps]: "ATT_VALID_OFF = 0"
definition ATT_VALID :: u64 where [layout_simps]: "ATT_VALID = push_bit ATT_VALID_OFF 1"
definition ATT_BLOCK_OFF :: nat where [layout_simps]: "ATT_BLOCK_OFF = 1"
definition ATT_BLOCK :: u64 where [layout_simps]: "ATT_BLOCK = push_bit ATT_BLOCK_OFF 0"
definition ATT_PAGE_OFF :: nat where [layout_simps]: "ATT_PAGE_OFF = 1"
definition ATT_PAGE :: u64 where [layout_simps]: "ATT_PAGE = push_bit ATT_PAGE_OFF 1"
definition MAIR_DEVICE_IDX :: u64 where [layout_simps]: "MAIR_DEVICE_IDX = 0"
definition MAIR_NORMAL_IDX :: u64 where [layout_simps]: "MAIR_NORMAL_IDX = 8"
definition ATT_DEVICE :: u64 where [layout_simps]: "ATT_DEVICE = push_bit 2 MAIR_DEVICE_IDX"
definition ATT_NORMAL :: u64 where [layout_simps]: "ATT_NORMAL = push_bit 2 MAIR_NORMAL_IDX"
definition ATT_AP_OFF :: nat where [layout_simps]: "ATT_AP_OFF = 6"
definition ATT_AP_NA_RW :: u64 where [layout_simps]: "ATT_AP_NA_RW = push_bit ATT_AP_OFF 0"
definition ATT_AP_RW_RW :: u64 where [layout_simps]: "ATT_AP_RW_RW = push_bit ATT_AP_OFF 1"
definition ATT_AP_NA_RO :: u64 where [layout_simps]: "ATT_AP_NA_RO = push_bit ATT_AP_OFF 2"
definition ATT_AP_RO_RO :: u64 where [layout_simps]: "ATT_AP_RO_RO = push_bit ATT_AP_OFF 3"
definition ATT_AF_SET :: u64 where [layout_simps]: "ATT_AF_SET = push_bit 10 1"
definition ATT_AF_UNSET :: u64 where [layout_simps]: "ATT_AF_UNSET = push_bit 10 0"
definition ATT_PXN_EXEC :: u64 where [layout_simps]: "ATT_PXN_EXEC = push_bit 53 0"
definition ATT_PXN_NOEXEC :: u64 where [layout_simps]: "ATT_PXN_NOEXEC = push_bit 53 1"
definition ATT_UXN_EXEC :: u64 where [layout_simps]: "ATT_UXN_EXEC = push_bit 54 0"
definition ATT_UXN_NOEXEC :: u64 where [layout_simps]: "ATT_UXN_NOEXEC = push_bit 54 1"
definition ATT_REF_OFF :: nat where [layout_simps]: "ATT_REF_OFF = 55"
definition ATT_REF_LIMIT :: u64 where [layout_simps]: "ATT_REF_LIMIT = 0xf"
definition VADDR_MASK :: u64 where [layout_simps]: "VADDR_MASK = 0x0000fffffffff000"

definition mmu_get_table_idx :: "u64 \<Rightarrow> u64 list" where
  "mmu_get_table_idx vaddr =
     [drop_bit 39 vaddr AND 0x1ff, drop_bit 30 vaddr AND 0x1ff,
      drop_bit 21 vaddr AND 0x1ff, drop_bit 12 vaddr AND 0x1ff]"

definition mmu_get_next_kernel_level :: "u64 \<Rightarrow> u64 \<Rightarrow> u64" where
  "mmu_get_next_kernel_level table idx = push_bit 9 table OR push_bit 12 idx"

definition mmu_get_vaddr :: "u64 \<Rightarrow> u64" where
  "mmu_get_vaddr entry = MEM_PHYS_TO_VIRT (entry AND VADDR_MASK)"

definition mmu_is_block :: "u64 \<Rightarrow> bool" where
  "mmu_is_block entry \<longleftrightarrow> entry AND push_bit ATT_BLOCK_OFF 1 = 0"

definition mmu_is_valid :: "u64 \<Rightarrow> bool" where
  "mmu_is_valid entry \<longleftrightarrow> entry AND push_bit ATT_VALID_OFF 1 \<noteq> 0"

definition mmu_mark_copied :: "u64 \<Rightarrow> u64" where
  "mmu_mark_copied entry =
     (let ref = drop_bit ATT_REF_OFF entry AND 0xf;
          entry1 = (if ref < ATT_REF_LIMIT
            then entry AND NOT (push_bit ATT_REF_OFF 0xf) OR push_bit ATT_REF_OFF (ref + 1)
            else entry)
      in if entry1 AND push_bit ATT_AP_OFF 3 = ATT_AP_RW_RW
         then entry1 AND NOT (push_bit ATT_AP_OFF 3) OR ATT_AP_NA_RO
         else entry1)"

definition mmu_mark_freed :: "u64 \<Rightarrow> u8 \<times> u64" where
  "mmu_mark_freed entry =
     (let ref = drop_bit ATT_REF_OFF entry AND 0xf
      in (ucast ref,
          if 0 < ref
          then entry AND NOT (push_bit ATT_REF_OFF 0xf) OR push_bit ATT_REF_OFF (ref - 1)
          else entry))"

subsection \<open>The fields of an entry\<close>

text \<open>Reading and replacing the \<open>k\<close> bits from bit \<open>p\<close> on; the other bits stay.\<close>

definition get_field :: "nat \<Rightarrow> nat \<Rightarrow> u64 \<Rightarrow> nat" where
  "get_field p k e = unat (drop_bit p e AND mask k)"

definition set_field :: "nat \<Rightarrow> nat \<Rightarrow> u64 \<Rightarrow> u64 \<Rightarrow> u64" where
  "set_field p k v e = e AND NOT (push_bit p (mask k)) OR push_bit p v"

lemma small_bits:
  assumes "unat (r :: u64) < 2 ^ k" "bit r n"
  shows "n < k"
proof (rule ccontr)
  assume "\<not> n < k"
  have "take_bit k (unat r) = unat r" using assms(1) by (simp add: take_bit_nat_eq_self_iff)
  then have "take_bit k r = r" by (simp add: word_unat_eq_iff unsigned_take_bit_eq)
  with assms(2) \<open>\<not> n < k\<close> show False by (metis bit_take_bit_iff)
qed

lemma bit_set_field:
  assumes "unat v < 2 ^ k"
  shows "bit (set_field p k v e) n \<longleftrightarrow>
    n < 64 \<and> (if p \<le> n \<and> n < p + k then bit v (n - p) else bit e n)"
  using small_bits [OF assms, of "n - p"]
  by (auto simp: set_field_def bit_simps dest: bit_imp_le_length)

lemma get_field_cong:
  assumes "\<And>n. p \<le> n \<Longrightarrow> n < p + k \<Longrightarrow> bit e n = bit e' n"
  shows "get_field p k e = get_field p k e'"
proof -
  have "drop_bit p e AND mask k = drop_bit p e' AND mask k"
    using assms by (intro bit_word_eqI) (auto simp: bit_simps)
  then show ?thesis by (simp add: get_field_def)
qed

lemma get_set_field:
  assumes "unat v < 2 ^ k" "p + k \<le> 64"
  shows "get_field p k (set_field p k v e) = unat v"
proof -
  have "drop_bit p (set_field p k v e) AND mask k = v"
    using small_bits [OF assms(1)] assms(2)
    by (intro bit_word_eqI) (auto simp: bit_set_field [OF assms(1)] bit_drop_bit_eq bit_and_iff
        bit_mask_iff)
  then show ?thesis by (simp add: get_field_def)
qed

lemma get_set_field_other:
  assumes "unat v < 2 ^ k" "p' + k' \<le> p \<or> p + k \<le> p'" "p' + k' \<le> 64"
  shows "get_field p' k' (set_field p k v e) = get_field p' k' e"
  using assms by (intro get_field_cong) (auto simp: bit_set_field)

lemma get_field_bound: "get_field p k e < 2 ^ k"
proof -
  have "drop_bit p e AND mask k = take_bit k (drop_bit p e)" by (rule bit_word_eqI) (auto simp: bit_simps)
  then show ?thesis by (simp add: get_field_def unsigned_take_bit_eq)
qed

lemma get_field_test:
  assumes "unat v < 2 ^ k" "p + k \<le> 64"
  shows "e AND push_bit p (mask k) = push_bit p v \<longleftrightarrow> get_field p k e = unat v"
proof
  assume *: "e AND push_bit p (mask k) = push_bit p v"
  have "bit (drop_bit p e AND mask k) n = bit v n" if "n < 64" for n
  proof (cases "n < k")
    case True
    with assms(2) have "bit (e AND push_bit p (mask k)) (p + n) = bit e (p + n)"
      by (simp add: bit_simps)
    with * True assms(2) show ?thesis by (simp add: bit_simps add.commute)
  next
    case False
    with small_bits [OF assms(1), of n] show ?thesis by (auto simp: bit_simps)
  qed
  then have "drop_bit p e AND mask k = v" by (intro bit_word_eqI) simp
  then show "get_field p k e = unat v" by (simp add: get_field_def)
next
  assume "get_field p k e = unat v"
  then have "drop_bit p e AND mask k = v" by (simp add: get_field_def word_unat_eq_iff)
  then show "e AND push_bit p (mask k) = push_bit p v"
    by (intro bit_word_eqI) (auto simp: bit_simps)
qed

abbreviation entry_ref :: "u64 \<Rightarrow> nat" where
  "entry_ref \<equiv> get_field 55 4"

abbreviation entry_ap :: "u64 \<Rightarrow> nat" where
  "entry_ap \<equiv> get_field 6 2"

definition set_ref :: "nat \<Rightarrow> u64 \<Rightarrow> u64" where
  "set_ref n e = set_field 55 4 (of_nat n) e"

lemma set_ref_fields:
  assumes "n < 16"
  shows "entry_ref (set_ref n e) = n" "entry_ap (set_ref n e) = entry_ap e"
    and "i < 55 \<or> 59 \<le> i \<Longrightarrow> bit (set_ref n e) i = bit e i"
proof -
  have v: "unat (of_nat n :: u64) = n" using assms by (simp add: unat_of_nat)
  show "entry_ref (set_ref n e) = n"
    using assms by (simp add: set_ref_def get_set_field v)
  show "entry_ap (set_ref n e) = entry_ap e"
    using assms by (simp add: set_ref_def get_set_field_other v)
  show "bit (set_ref n e) i = bit e i" if "i < 55 \<or> 59 \<le> i"
    using assms that by (auto simp: set_ref_def bit_set_field v dest: bit_imp_le_length)
qed

lemma set_ap_fields:
  "entry_ap (set_field 6 2 2 e) = 2" "entry_ref (set_field 6 2 2 e) = entry_ref e"
  "i < 6 \<or> 8 \<le> i \<Longrightarrow> bit (set_field 6 2 2 e) i = bit e i"
  by (auto simp: get_set_field get_set_field_other bit_set_field dest: bit_imp_le_length)

text \<open>The two marking functions on the fields.\<close>

lemma masks: "(0xf :: u64) = mask 4" "(3 :: u64) = mask 2"
  by (simp_all add: mask_eq_exp_minus_1)

lemma ref_word: "drop_bit 55 (e :: u64) AND mask 4 = of_nat (entry_ref e)"
  by (simp add: get_field_def)

lemma entry_ref_small: "entry_ref e < 16"
  using get_field_bound [of 55 4 e] by simp

lemma unat_ref: "n \<le> 16 \<Longrightarrow> unat (of_nat n :: u64) = n"
  by (simp add: unat_of_nat)

lemma mmu_mark_freed_eq:
  "mmu_mark_freed e = (of_nat (entry_ref e),
     if 0 < entry_ref e then set_ref (entry_ref e - 1) e else e)"
proof -
  define n where "n = entry_ref e"
  have n: "n < 16" unfolding n_def by (rule entry_ref_small)
  have ref: "drop_bit 55 e AND mask 4 = of_nat n" by (simp only: ref_word n_def)
  have pos: "(0 :: u64) < of_nat n \<longleftrightarrow> 0 < n"
    using n by (simp add: word_less_nat_alt unat_ref)
  have cast: "ucast (of_nat n :: u64) = (of_nat n :: u8)"
    using n by (simp add: word_unat_eq_iff unsigned_ucast_eq unsigned_of_nat take_bit_nat_eq_self_iff)
  have pred: "of_nat n - (1 :: u64) = of_nat (n - 1)" if "0 < n"
    using that by (simp add: of_nat_diff)
  show ?thesis
    unfolding mmu_mark_freed_def Let_def ATT_REF_OFF_def masks ref n_def [symmetric]
    by (simp only: pos cast pred set_ref_def set_field_def split: if_split) simp
qed

lemma mmu_mark_copied_eq:
  "mmu_mark_copied e =
     (let e1 = (if entry_ref e < 15 then set_ref (entry_ref e + 1) e else e)
      in if entry_ap e1 = 1 then set_field 6 2 2 e1 else e1)"
proof -
  define n where "n = entry_ref e"
  have n: "n < 16" unfolding n_def by (rule entry_ref_small)
  have ref: "drop_bit 55 e AND mask 4 = of_nat n" by (simp only: ref_word n_def)
  have lim: "(of_nat n :: u64) < mask 4 \<longleftrightarrow> n < 15"
    using n by (simp add: word_less_nat_alt unat_ref mask_eq_exp_minus_1)
  have ap: "x AND push_bit 6 (mask 2) = push_bit 6 1 \<longleftrightarrow> entry_ap x = 1" for x
    using get_field_test [of 1 2 6 x] by simp
  have succ: "of_nat n + (1 :: u64) = of_nat (n + 1)" by simp
  show ?thesis
    unfolding mmu_mark_copied_def Let_def ATT_REF_OFF_def ATT_REF_LIMIT_def ATT_AP_OFF_def
      ATT_AP_RW_RW_def ATT_AP_NA_RO_def masks ref n_def [symmetric]
    by (simp only: lim ap succ set_ref_def set_field_def)
qed

lemma mark_copied_ref: "entry_ref (mmu_mark_copied e) = min 15 (entry_ref e + 1)"
  using entry_ref_small [of e] by (auto simp: mmu_mark_copied_eq Let_def set_ref_fields set_ap_fields)

lemma mark_copied_ap:
  "entry_ap (mmu_mark_copied e) = (if entry_ap e = 1 then 2 else entry_ap e)"
  by (auto simp: mmu_mark_copied_eq Let_def set_ref_fields set_ap_fields)

lemma bit_mark_copied:
  assumes "n < 6 \<or> 8 \<le> n" "n < 55 \<or> 59 \<le> n"
  shows "bit (mmu_mark_copied e) n \<longleftrightarrow> bit e n"
  using assms by (auto simp: mmu_mark_copied_eq Let_def set_ref_fields set_ap_fields)

lemma mark_freed_ref:
  "fst (mmu_mark_freed e) = of_nat (entry_ref e)"
  "entry_ref (snd (mmu_mark_freed e)) = entry_ref e - 1"
proof -
  have "entry_ref e - 1 < 16" using entry_ref_small [of e] by simp
  from set_ref_fields(1) [OF this, of e]
  show "entry_ref (snd (mmu_mark_freed e)) = entry_ref e - 1"
    by (auto simp only: mmu_mark_freed_eq snd_conv split: if_split) 
qed (simp add: mmu_mark_freed_eq)

lemma bit_mark_freed:
  assumes "n < 55 \<or> 59 \<le> n"
  shows "bit (snd (mmu_mark_freed e)) n \<longleftrightarrow> bit e n"
proof -
  have "entry_ref e - 1 < 16" using entry_ref_small [of e] by simp
  from set_ref_fields(3) [OF this assms, of e] show ?thesis
    by (simp only: mmu_mark_freed_eq snd_conv split: if_split) blast
qed

lemma mark_freed_ap: "entry_ap (snd (mmu_mark_freed e)) = entry_ap e"
  by (intro get_field_cong) (simp add: bit_mark_freed)

lemma valid_bit: "mmu_is_valid e \<longleftrightarrow> bit e 0"
  using and_exp_eq_0_iff_not_bit [of e 0] by (simp add: mmu_is_valid_def ATT_VALID_OFF_def)

lemma block_bit: "mmu_is_block e \<longleftrightarrow> \<not> bit e 1"
  using and_exp_eq_0_iff_not_bit [of e 1] by (simp add: mmu_is_block_def ATT_BLOCK_OFF_def)

text \<open>The address part of an entry.\<close>

lemma vaddr_mask: "VADDR_MASK = push_bit 12 (mask 36)"
  by (simp add: VADDR_MASK_def mask_eq_exp_minus_1)

lemma vaddr_cong:
  assumes "\<And>n. 12 \<le> n \<Longrightarrow> n < 48 \<Longrightarrow> bit e n = bit e' n"
  shows "mmu_get_vaddr e = mmu_get_vaddr e'"
proof -
  have "e AND VADDR_MASK = e' AND VADDR_MASK"
    unfolding vaddr_mask using assms by (intro bit_word_eqI) (auto simp: bit_simps)
  then show ?thesis by (simp add: mmu_get_vaddr_def)
qed

lemma mark_copied_kind [simp]:
  "mmu_is_valid (mmu_mark_copied e) = mmu_is_valid e"
  "mmu_is_block (mmu_mark_copied e) = mmu_is_block e"
  "mmu_get_vaddr (mmu_mark_copied e) = mmu_get_vaddr e"
  by (simp_all add: valid_bit block_bit bit_mark_copied cong: vaddr_cong)

lemma mark_freed_kind [simp]:
  "mmu_is_valid (snd (mmu_mark_freed e)) = mmu_is_valid e"
  "mmu_is_block (snd (mmu_mark_freed e)) = mmu_is_block e"
  "mmu_get_vaddr (snd (mmu_mark_freed e)) = mmu_get_vaddr e"
  by (simp_all add: valid_bit block_bit bit_mark_freed cong: vaddr_cong)

subsection \<open>Properties\<close>

text \<open>
  \<open>mmu_mark_copied\<close> raises the reference counter by one up to its limit of 15, turns a page
  that user space may write into one it cannot access, and changes no other bit; \<open>mmu_mark_freed\<close>
  returns the counter and lowers it, changing no other bit. Below the limit the two cancel out on
  the counter.
\<close>
lemma mark_copied_freed:
  "entry_ref (mmu_mark_copied e) = min 15 (entry_ref e + 1) \<and>
   entry_ap (mmu_mark_copied e) = (if entry_ap e = 1 then 2 else entry_ap e) \<and>
   {n. bit (mmu_mark_copied e) n \<noteq> bit e n} \<subseteq> {6, 7, 55, 56, 57, 58} \<and>
   fst (mmu_mark_freed e) = of_nat (entry_ref e) \<and>
   entry_ref (snd (mmu_mark_freed e)) = entry_ref e - 1 \<and>
   {n. bit (snd (mmu_mark_freed e)) n \<noteq> bit e n} \<subseteq> {55, 56, 57, 58}"
proof -
  have "{n. bit (mmu_mark_copied e) n \<noteq> bit e n} \<subseteq> {n. 6 \<le> n \<and> n < 8} \<union> {n. 55 \<le> n \<and> n < 59}"
    using bit_mark_copied [of _ e] by fastforce
  also have "\<dots> = {6, 7, 55, 56, 57, 58}" by auto
  finally have copied: "{n. bit (mmu_mark_copied e) n \<noteq> bit e n} \<subseteq> {6, 7, 55, 56, 57, 58}" .
  have "{n. bit (snd (mmu_mark_freed e)) n \<noteq> bit e n} \<subseteq> {n. 55 \<le> n \<and> n < 59}"
    using bit_mark_freed [of _ e] by fastforce
  also have "\<dots> = {55, 56, 57, 58}" by auto
  finally show ?thesis
    using copied by (simp only: mark_copied_ref mark_copied_ap mark_freed_ref simp_thms)
qed

lemma mark_copied_iter:
  "entry_ref ((mmu_mark_copied ^^ n) e) = min 15 (entry_ref e + n)"
proof (induction n)
  case 0
  show ?case using entry_ref_small [of e] by simp
qed (simp add: mark_copied_ref)

lemma mark_freed_iter:
  "entry_ref (((snd \<circ> mmu_mark_freed) ^^ n) e) = entry_ref e - n"
  by (induction n) (auto simp: mark_freed_ref)

text \<open>
  The counter saturates: an entry that was private and has been copied more than 15 times is
  reported as solely owned (counter 0, which makes the callers free the page) by the 16th release,
  although it still has other owners.
\<close>
lemma mark_copied_saturates:
  assumes "entry_ref e = 0" "15 < n"
  shows "fst (mmu_mark_freed (((snd \<circ> mmu_mark_freed) ^^ 15) ((mmu_mark_copied ^^ n) e))) = 0"
  using assms by (simp add: mark_freed_ref mark_freed_iter mark_copied_iter)

lemma mark_copied_saturates_witness:
  "entry_ref 0x40 = 0 \<and>
   fst (mmu_mark_freed (((snd \<circ> mmu_mark_freed) ^^ 15) ((mmu_mark_copied ^^ 20) 0x40))) = 0"
  using mark_copied_saturates [of "0x40" 20] by (simp add: get_field_def)

end
