(* ===== verification/Mem.thy ===== *)
theory Mem
  imports Pmm Mmu
begin

text \<open>
  Kernel and user mappings (\<^verbatim>\<open>kernel/arch/aarch64/mem.c\<close>, \<open>mmu_handle_data_abort\<close> of \<^verbatim>\<open>mmu.c\<close>).

  The state is the content of kernel memory and the physical page map. Memory is a function from the
  kernel virtual address of a 64-bit cell to its content; entry \<open>i\<close> of the table at \<open>t\<close> is the cell
  \<open>t + 8 * i\<close>. The kernel reaches its own tables only through the recursive window from
  \<open>0xffffff8000000000\<close> on, and every other page only through its address in the linear map, so that
  the two views never address one cell in two ways. A panic is \<open>None\<close>; error codes are values.
\<close>

record mem_state =
  cells :: "u64 \<Rightarrow> u64"
  pmap :: "u64 list"

record mem_r_addr =
  r_addr :: u64
  r_err :: kern_err

definition entry_at :: "u64 \<Rightarrow> u64 \<Rightarrow> u64" where
  "entry_at table i = table + 8 * i"

definition in_page :: "u64 \<Rightarrow> u64 \<Rightarrow> bool" where
  "in_page page a \<longleftrightarrow> a - page < PAGESIZE"

definition set_cell :: "u64 \<Rightarrow> u64 \<Rightarrow> mem_state \<Rightarrow> mem_state" where
  "set_cell a v s = s\<lparr>cells := (cells s)(a := v)\<rparr>"

text \<open>\<open>memset(page, 0, PAGESIZE)\<close> and \<open>memcpy(dst, src, PAGESIZE)\<close> on page-aligned addresses.\<close>

definition zero_page :: "u64 \<Rightarrow> mem_state \<Rightarrow> mem_state" where
  "zero_page page s = s\<lparr>cells := \<lambda>a. if in_page page a then 0 else cells s a\<rparr>"

definition copy_page :: "u64 \<Rightarrow> u64 \<Rightarrow> mem_state \<Rightarrow> mem_state" where
  "copy_page dst src s =
     s\<lparr>cells := \<lambda>a. if in_page dst a then cells s (src + (a - dst)) else cells s a\<rparr>"

subsection \<open>Kernel pages\<close>

definition kernel_attr :: "mem_perm \<Rightarrow> u64 option" where
  "kernel_attr perm = (case perm of
     MEM_RO \<Rightarrow> Some (ATT_AP_NA_RO OR ATT_PXN_NOEXEC OR ATT_UXN_NOEXEC)
   | MEM_RW \<Rightarrow> Some (ATT_AP_NA_RW OR ATT_PXN_NOEXEC OR ATT_UXN_NOEXEC)
   | MEM_EX \<Rightarrow> Some (ATT_AP_NA_RO OR ATT_PXN_EXEC OR ATT_UXN_NOEXEC)
   | MEM_PERM_OTHER \<Rightarrow> None)"

text \<open>The tables of the four levels for a kernel address, in the recursive window.\<close>

definition kernel_levels :: "u64 list \<Rightarrow> u64 list" where
  "kernel_levels idx =
     (let l0 = 0xfffffffffffff000;
          l1 = mmu_get_next_kernel_level l0 (idx ! 0);
          l2 = mmu_get_next_kernel_level l1 (idx ! 1);
          l3 = mmu_get_next_kernel_level l2 (idx ! 2)
      in [l0, l1, l2, l3])"

text \<open>\<open>if (phys_pages[p]) pmm_free(phys_pages[p]);\<close> for each page.\<close>

fun pmm_free_all :: "u64 list \<Rightarrow> u64 list \<Rightarrow> u64 list option" where
  "pmm_free_all [] m = Some m"
| "pmm_free_all (p # ps) m =
     (if p \<noteq> 0 then do { m' \<leftarrow> pmm_free p m; pmm_free_all ps m' } else pmm_free_all ps m)"

fun alloc_levels ::
    "u64 list \<Rightarrow> u64 list \<Rightarrow> nat list \<Rightarrow> u64 list \<Rightarrow> mem_state \<Rightarrow>
     (kern_err \<times> u64 list \<times> mem_state) option" where
  "alloc_levels levels idx [] phys_pages s = Some (ERR_OK, phys_pages, s)"
| "alloc_levels levels idx (i # is) phys_pages s =
     (let a = entry_at (levels ! i) (idx ! i) in
      if mmu_is_valid (cells s a) then alloc_levels levels idx is phys_pages s
      else do {
        (p, m) \<leftarrow> pmm_get (pmap s);
        if p = 0 then do {
          m' \<leftarrow> pmm_free_all phys_pages m;
          Some (ERR_MEM_OOM, phys_pages, s\<lparr>pmap := m'\<rparr>) }
        else
          (let s1 = set_cell a (p OR ATT_VALID OR ATT_PAGE OR ATT_AF_SET) (s\<lparr>pmap := m\<rparr>) in
           alloc_levels levels idx is (phys_pages[i := p]) (zero_page (levels ! (i + 1)) s1)) })"

text \<open>
  When the page turns out to be mapped already, the loop that should free the pages returns in its
  first round, after looking at \<open>phys_pages[0]\<close> only.
\<close>

definition mem_kernel_alloc_page :: "mem_perm \<Rightarrow> mem_state \<Rightarrow> (mem_r_addr \<times> mem_state) option" where
  "mem_kernel_alloc_page perm s =
     (case kernel_attr perm of None \<Rightarrow> Some (\<lparr>r_addr = 0, r_err = ERR_MEM_FLG\<rparr>, s)
      | Some attr \<Rightarrow> do {
          (p3, m) \<leftarrow> pmm_get (pmap s);
          if p3 = 0 then Some (\<lparr>r_addr = 0, r_err = ERR_MEM_OOM\<rparr>, s\<lparr>pmap := m\<rparr>)
          else do {
            let vaddr = MEM_PHYS_TO_VIRT p3;
            let idx = mmu_get_table_idx vaddr;
            let levels = kernel_levels idx;
            (e, phys_pages, s1) \<leftarrow> alloc_levels levels idx [0, 1, 2] [0, 0, 0, p3] (s\<lparr>pmap := m\<rparr>);
            if e \<noteq> ERR_OK then Some (\<lparr>r_addr = 0, r_err = e\<rparr>, s1)
            else do {
              let a = entry_at (levels ! 3) (idx ! 3);
              if mmu_is_valid (cells s1 a) then do {
                m1 \<leftarrow> (if phys_pages ! 0 \<noteq> 0 then pmm_free (phys_pages ! 0) (pmap s1)
                      else Some (pmap s1));
                Some (\<lparr>r_addr = 0, r_err = ERR_MEM_EXS\<rparr>, s1\<lparr>pmap := m1\<rparr>) }
              else do {
                let v = p3 OR attr OR ATT_VALID OR ATT_PAGE OR ATT_NORMAL OR ATT_AF_SET;
                Some (\<lparr>r_addr = vaddr, r_err = ERR_OK\<rparr>, set_cell a v s1) } } } })"

text \<open>\<open>for (; paddr < paddr_end; paddr += PAGESIZE) pmm_free(paddr);\<close>\<close>

partial_function (option) pmm_free_range :: "u64 \<Rightarrow> u64 \<Rightarrow> u64 list \<Rightarrow> u64 list option" where
  "pmm_free_range paddr paddr_end m =
     (if paddr < paddr_end then
        Option.bind (pmm_free paddr m) (\<lambda>m'. pmm_free_range (paddr + PAGESIZE) paddr_end m')
      else Some m)"

text \<open>The block or page found at level \<open>i\<close>; \<open>assert(i != 0)\<close> panics.\<close>

definition kernel_free_leaf :: "u64 \<Rightarrow> u64 \<Rightarrow> nat \<Rightarrow> mem_state \<Rightarrow> (kern_err \<times> mem_state) option" where
  "kernel_free_leaf vaddr a i s =
     (if i = 0 then None
      else do {
        let paddr = MEM_VIRT_TO_PHYS vaddr;
        let shift = (if i = 1 then push_bit 18 PAGESIZE
                     else if i = 2 then push_bit 9 PAGESIZE else PAGESIZE);
        m \<leftarrow> pmm_free_range paddr (paddr + shift) (pmap s);
        Some (ERR_OK, (set_cell a 0 s)\<lparr>pmap := m\<rparr>) })"

fun kernel_free_levels ::
    "u64 \<Rightarrow> u64 list \<Rightarrow> u64 list \<Rightarrow> nat list \<Rightarrow> mem_state \<Rightarrow> (kern_err \<times> mem_state) option" where
  "kernel_free_levels vaddr levels idx [] s = Some (ERR_OK, s)"
| "kernel_free_levels vaddr levels idx (i # is) s =
     (let a = entry_at (levels ! i) (idx ! i); e = cells s a in
      if \<not> mmu_is_valid e then Some (ERR_MEM_UNM, s)
      else if i = 3 \<or> mmu_is_block e then kernel_free_leaf vaddr a i s
      else kernel_free_levels vaddr levels idx is s)"

definition mem_kernel_free_page :: "u64 \<Rightarrow> mem_state \<Rightarrow> (kern_err \<times> mem_state) option" where
  "mem_kernel_free_page vaddr s =
     (let idx = mmu_get_table_idx vaddr
      in kernel_free_levels vaddr (kernel_levels idx) idx [0, 1, 2, 3] s)"

subsection \<open>Copying and tearing down a table\<close>

definition entries :: "u64 list" where
  "entries = map of_nat [0..<512]"

definition soft_copy_3 :: "u64 \<Rightarrow> mem_state \<Rightarrow> mem_state" where
  "soft_copy_3 table s = fold (\<lambda>i3 s.
     let a = entry_at table i3 in
     if \<not> mmu_is_valid (cells s a) then s
     else set_cell a (mmu_mark_copied (cells s a)) s) entries s"

definition soft_copy_2 :: "u64 \<Rightarrow> mem_state \<Rightarrow> mem_state" where
  "soft_copy_2 table s = fold (\<lambda>i2 s.
     let a = entry_at table i2 in
     if \<not> mmu_is_valid (cells s a) then s
     else let s1 = set_cell a (mmu_mark_copied (cells s a)) s in
       if mmu_is_block (cells s1 a) then s1
       else soft_copy_3 (mmu_get_vaddr (cells s1 a)) s1) entries s"

text \<open>Level 1 tests the validity of the level 0 entry \<open>a0\<close> once more, not of its own entry.\<close>

definition soft_copy_1 :: "u64 \<Rightarrow> u64 \<Rightarrow> mem_state \<Rightarrow> mem_state" where
  "soft_copy_1 a0 table s = fold (\<lambda>i1 s.
     let a = entry_at table i1 in
     if \<not> mmu_is_valid (cells s a0) then s
     else let s1 = set_cell a (mmu_mark_copied (cells s a)) s in
       if mmu_is_block (cells s1 a) then s1
       else soft_copy_2 (mmu_get_vaddr (cells s1 a)) s1) entries s"

definition mem_table_soft_copy :: "u64 \<Rightarrow> mem_state \<Rightarrow> mem_state" where
  "mem_table_soft_copy table s = fold (\<lambda>i0 s.
     let a = entry_at table i0 in
     if \<not> mmu_is_valid (cells s a) then s
     else soft_copy_1 a (mmu_get_vaddr (cells s a)) s) entries s"

text \<open>A loop over the entries that a returned error ends.\<close>

fun for_entries ::
    "u64 list \<Rightarrow> (u64 \<Rightarrow> mem_state \<Rightarrow> (kern_err \<times> mem_state) option) \<Rightarrow> mem_state \<Rightarrow>
     (kern_err \<times> mem_state) option" where
  "for_entries [] f s = Some (ERR_OK, s)"
| "for_entries (i # is) f s = do {
     (e, s') \<leftarrow> f i s;
     if e \<noteq> ERR_OK then Some (e, s') else for_entries is f s' }"

text \<open>
  What the code does with every entry it leaves: drop one reference and, when there was none, free
  the page and clear the entry.
\<close>

definition teardown_entry :: "u64 \<Rightarrow> mem_state \<Rightarrow> (kern_err \<times> mem_state) option" where
  "teardown_entry a s =
     (let (ref, e') = mmu_mark_freed (cells s a); s1 = set_cell a e' s in
      if ref = 0 then do {
        (err, s2) \<leftarrow> mem_kernel_free_page (mmu_get_vaddr (cells s1 a)) s1;
        if err \<noteq> ERR_OK then Some (err, s2) else Some (ERR_OK, set_cell a 0 s2) }
      else Some (ERR_OK, s1))"

definition teardown_3 :: "u64 \<Rightarrow> mem_state \<Rightarrow> (kern_err \<times> mem_state) option" where
  "teardown_3 table = for_entries entries (\<lambda>i3 s.
     let a = entry_at table i3 in
     if \<not> mmu_is_valid (cells s a) then Some (ERR_OK, s) else teardown_entry a s)"

definition teardown_2 :: "u64 \<Rightarrow> mem_state \<Rightarrow> (kern_err \<times> mem_state) option" where
  "teardown_2 table = for_entries entries (\<lambda>i2 s.
     let a = entry_at table i2 in
     if \<not> mmu_is_valid (cells s a) then Some (ERR_OK, s)
     else if mmu_is_block (cells s a) then teardown_entry a s
     else do {
       (e, s1) \<leftarrow> teardown_3 (mmu_get_vaddr (cells s a)) s;
       if e \<noteq> ERR_OK then Some (e, s1) else teardown_entry a s1 })"

definition teardown_1 :: "u64 \<Rightarrow> mem_state \<Rightarrow> (kern_err \<times> mem_state) option" where
  "teardown_1 table = for_entries entries (\<lambda>i1 s.
     let a = entry_at table i1 in
     if \<not> mmu_is_valid (cells s a) then Some (ERR_OK, s)
     else if mmu_is_block (cells s a) then teardown_entry a s
     else do {
       (e, s1) \<leftarrow> teardown_2 (mmu_get_vaddr (cells s a)) s;
       if e \<noteq> ERR_OK then Some (e, s1) else teardown_entry a s1 })"

definition mem_table_teardown :: "u64 \<Rightarrow> mem_state \<Rightarrow> (kern_err \<times> mem_state) option" where
  "mem_table_teardown table = for_entries entries (\<lambda>i0 s.
     let a = entry_at table i0 in
     if \<not> mmu_is_valid (cells s a) then Some (ERR_OK, s)
     else do {
       (e, s1) \<leftarrow> teardown_1 (mmu_get_vaddr (cells s a)) s;
       if e \<noteq> ERR_OK then Some (e, s1) else teardown_entry a s1 })"

subsection \<open>User mappings\<close>

text \<open>
  The body of the inner loop of \<open>mem_user_find_empty\<close>: whether it leaves the loop with \<open>empty\<close> set
  to false for the page at \<open>addr\<close>.
\<close>

definition user_page_used :: "u64 \<Rightarrow> u64 \<Rightarrow> mem_state \<Rightarrow> bool" where
  "user_page_used tran_table addr s =
     (let idx = mmu_get_table_idx addr;
          e0 = cells s (entry_at tran_table (idx ! 0)) in
      if \<not> mmu_is_valid e0 then False
      else let e1 = cells s (entry_at (mmu_get_vaddr e0) (idx ! 1)) in
        if \<not> mmu_is_valid e1 then False
        else if mmu_is_block e1 then True
        else let e2 = cells s (entry_at (mmu_get_vaddr e1) (idx ! 2)) in
          if \<not> mmu_is_valid e2 then False
          else if mmu_is_block e2 then True
          else mmu_is_valid (cells s (entry_at (mmu_get_vaddr e2) (idx ! 3))))"

text \<open>The index of the first used page of the range, or \<open>page_cnt\<close> with \<open>empty\<close> true.\<close>

function find_used :: "u64 \<Rightarrow> u64 \<Rightarrow> nat \<Rightarrow> nat \<Rightarrow> mem_state \<Rightarrow> bool \<times> nat" where
  "find_used tran_table addr page_cnt p s =
     (if p < page_cnt then
        if user_page_used tran_table (addr + of_nat p * PAGESIZE) s then (False, p)
        else find_used tran_table addr page_cnt (p + 1) s
      else (True, p))"
  by pat_completeness auto
termination
  by (relation "measure (\<lambda>(t, a, n, p, s). n - p)") auto

declare find_used.simps [simp del]

partial_function (option) mem_user_find_empty ::
    "u64 \<Rightarrow> u64 \<Rightarrow> nat \<Rightarrow> mem_state \<Rightarrow> u64 option" where
  "mem_user_find_empty tran_table addr page_cnt s =
     (let (none_used, p) = find_used tran_table addr page_cnt 0 s in
      if none_used then Some addr
      else mem_user_find_empty tran_table (addr + (of_nat p + 1) * PAGESIZE) page_cnt s)"

definition mem_user_get_kaddr :: "u64 \<Rightarrow> u64 \<Rightarrow> mem_state \<Rightarrow> u64" where
  "mem_user_get_kaddr tran_table vaddr s =
     (let idx = mmu_get_table_idx vaddr;
          e0 = cells s (entry_at tran_table (idx ! 0)) in
      if \<not> mmu_is_valid e0 then 0
      else let e1 = cells s (entry_at (mmu_get_vaddr e0) (idx ! 1)) in
        if \<not> mmu_is_valid e1 then 0
        else if mmu_is_block e1 then mmu_get_vaddr e1
        else let e2 = cells s (entry_at (mmu_get_vaddr e1) (idx ! 2)) in
          if \<not> mmu_is_valid e2 then 0
          else if mmu_is_block e2 then mmu_get_vaddr e2
          else let e3 = cells s (entry_at (mmu_get_vaddr e2) (idx ! 3)) in
            if \<not> mmu_is_valid e3 then 0 else mmu_get_vaddr e3)"

definition user_attr :: "mem_perm \<Rightarrow> mem_attr \<Rightarrow> u64 option" where
  "user_attr perm attr =
     map_option (\<lambda>pattr. pattr OR (case attr of MEM_NORM \<Rightarrow> ATT_NORMAL | MEM_DEVC \<Rightarrow> ATT_DEVICE))
       (case perm of
          MEM_RO \<Rightarrow> Some (ATT_AP_RO_RO OR ATT_PXN_NOEXEC OR ATT_UXN_NOEXEC)
        | MEM_RW \<Rightarrow> Some (ATT_AP_RW_RW OR ATT_PXN_NOEXEC OR ATT_UXN_NOEXEC)
        | MEM_EX \<Rightarrow> Some (ATT_AP_RO_RO OR ATT_PXN_NOEXEC OR ATT_UXN_EXEC)
        | MEM_PERM_OTHER \<Rightarrow> None)"

text \<open>\<open>if (kernel_pages[p]) if (mem_kernel_free_page(kernel_pages[p]) != ERR_OK) panic(...);\<close>\<close>

fun kernel_free_all :: "u64 list \<Rightarrow> mem_state \<Rightarrow> mem_state option" where
  "kernel_free_all [] s = Some s"
| "kernel_free_all (p # ps) s =
     (if p \<noteq> 0 then do {
        (e, s') \<leftarrow> mem_kernel_free_page p s;
        if e \<noteq> ERR_OK then None else kernel_free_all ps s' }
      else kernel_free_all ps s)"

text \<open>Levels 0 to 2 of \<open>mem_user_map_page\<close>; \<open>table\<close> is \<open>levels[i]\<close>.\<close>

fun user_map_levels ::
    "u64 list \<Rightarrow> nat list \<Rightarrow> u64 \<Rightarrow> u64 list \<Rightarrow> mem_state \<Rightarrow>
     (kern_err \<times> u64 \<times> u64 list \<times> mem_state) option" where
  "user_map_levels idx [] table kernel_pages s = Some (ERR_OK, table, kernel_pages, s)"
| "user_map_levels idx (i # is) table kernel_pages s =
     (let a = entry_at table (idx ! i) in
      if \<not> mmu_is_valid (cells s a) then do {
        (page_r, s1) \<leftarrow> mem_kernel_alloc_page MEM_RW s;
        if r_err page_r \<noteq> ERR_OK then do {
          s2 \<leftarrow> kernel_free_all kernel_pages s1;
          Some (r_err page_r, table, kernel_pages, s2) }
        else
          (let s2 = zero_page (r_addr page_r) s1;
               s3 = set_cell a (MEM_VIRT_TO_PHYS (r_addr page_r) OR ATT_VALID OR ATT_PAGE OR ATT_AF_SET) s2
           in user_map_levels idx is (mmu_get_vaddr (cells s3 a)) (kernel_pages[i := r_addr page_r]) s3) }
      else user_map_levels idx is (mmu_get_vaddr (cells s a)) kernel_pages s)"

definition mem_user_map_page ::
    "u64 \<Rightarrow> u64 \<Rightarrow> u64 \<Rightarrow> mem_perm \<Rightarrow> mem_attr \<Rightarrow> mem_state \<Rightarrow> (kern_err \<times> mem_state) option" where
  "mem_user_map_page tran_table vaddr paddr perm attr s =
     (case user_attr perm attr of None \<Rightarrow> Some (ERR_MEM_FLG, s)
      | Some pattr \<Rightarrow> do {
          let idx = mmu_get_table_idx vaddr;
          (e, level_3, kernel_pages, s1) \<leftarrow> user_map_levels idx [0, 1, 2] tran_table [0, 0, 0, 0] s;
          if e \<noteq> ERR_OK then Some (e, s1)
          else do {
            let a = entry_at level_3 (idx ! 3);
            if mmu_is_valid (cells s1 a) then do {
              s2 \<leftarrow> kernel_free_all kernel_pages s1;
              Some (ERR_MEM_EXS, s2) }
            else Some (ERR_OK,
              set_cell a (paddr OR pattr OR ATT_VALID OR ATT_PAGE OR ATT_AF_SET) s1) } })"

text \<open>
  The end of \<open>mem_user_unmap_page\<close> at the level where the mapping is: the entry is cleared only when
  other owners remain.
\<close>

definition unmap_entry :: "u64 \<Rightarrow> mem_state \<Rightarrow> mem_r_addr \<times> mem_state" where
  "unmap_entry a s =
     (let (ref, e') = mmu_mark_freed (cells s a); s1 = set_cell a e' s in
      if ref = 0 then (\<lparr>r_addr = mmu_get_vaddr (cells s1 a), r_err = ERR_OK\<rparr>, s1)
      else (\<lparr>r_addr = 0, r_err = ERR_OK\<rparr>, set_cell a 0 s1))"

definition mem_user_unmap_page :: "u64 \<Rightarrow> u64 \<Rightarrow> mem_state \<Rightarrow> mem_r_addr \<times> mem_state" where
  "mem_user_unmap_page tran_table vaddr s =
     (let idx = mmu_get_table_idx vaddr;
          unmapped = (\<lparr>r_addr = 0, r_err = ERR_MEM_UNM\<rparr>, s);
          e0 = cells s (entry_at tran_table (idx ! 0)) in
      if \<not> mmu_is_valid e0 then unmapped
      else let a1 = entry_at (mmu_get_vaddr e0) (idx ! 1); e1 = cells s a1 in
        if \<not> mmu_is_valid e1 then unmapped
        else if mmu_is_block e1 then unmap_entry a1 s
        else let a2 = entry_at (mmu_get_vaddr e1) (idx ! 2); e2 = cells s a2 in
          if \<not> mmu_is_valid e2 then unmapped
          else if mmu_is_block e2 then unmap_entry a2 s
          else let a3 = entry_at (mmu_get_vaddr e2) (idx ! 3) in
            if \<not> mmu_is_valid (cells s a3) then unmapped else unmap_entry a3 s)"

subsection \<open>Data aborts\<close>

text \<open>
  One level of \<open>mmu_handle_data_abort\<close>: drop a reference of the entry at \<open>table + 8 * i\<close> and, when
  there was one, move the table to a fresh page and hang it in at \<open>parent\<close>. The new address of the
  table is returned, \<open>None\<close> inside for a failed allocation.
\<close>

definition abort_level :: "u64 \<Rightarrow> u64 \<Rightarrow> u64 \<Rightarrow> mem_state \<Rightarrow> (u64 option \<times> mem_state) option" where
  "abort_level parent table i s =
     (let a = entry_at table i; (ref, e') = mmu_mark_freed (cells s a); s1 = set_cell a e' s in
      if 0 < ref then do {
        (page_r, s2) \<leftarrow> mem_kernel_alloc_page MEM_RW s1;
        if r_err page_r \<noteq> ERR_OK then Some (None, s2)
        else Some (Some (r_addr page_r),
          set_cell parent (MEM_VIRT_TO_PHYS (r_addr page_r) OR ATT_VALID OR ATT_PAGE OR ATT_AF_SET)
            (copy_page (r_addr page_r) table s2)) }
      else Some (Some table, s1))"

text \<open>The page itself: always copied, and made readable and writable in user space.\<close>

definition abort_page :: "u64 \<Rightarrow> u64 \<Rightarrow> mem_state \<Rightarrow> (u64 \<times> mem_state) option" where
  "abort_page a vaddr s = do {
     (page_r, s1) \<leftarrow> mem_kernel_alloc_page MEM_RW s;
     if r_err page_r \<noteq> ERR_OK then Some (0, s1)
     else do {
       let s2 = copy_page (r_addr page_r) (MEM_PHYS_TO_VIRT (cells s1 a AND VADDR_MASK)) s1;
       let e = cells s2 a AND NOT VADDR_MASK AND NOT (push_bit ATT_AP_OFF 3);
       Some (vaddr AND VADDR_MASK,
         set_cell a (e OR MEM_VIRT_TO_PHYS (r_addr page_r) OR ATT_AP_RW_RW) s2) } }"

definition mmu_handle_data_abort :: "u64 \<Rightarrow> u64 \<Rightarrow> mem_state \<Rightarrow> (u64 \<times> mem_state) option" where
  "mmu_handle_data_abort table vaddr s =
     (let idx = mmu_get_table_idx vaddr;
          level_0 = MEM_PHYS_TO_VIRT table;
          a0 = entry_at level_0 (idx ! 0) in
      if \<not> mmu_is_valid (cells s a0) then Some (0, s)
      else
        let level_1 = mmu_get_vaddr (cells s a0) in
        if \<not> mmu_is_valid (cells s (entry_at level_1 (idx ! 1))) then Some (0, s)
        else do {
          (t1, s1) \<leftarrow> abort_level a0 level_1 (idx ! 1) s;
          case t1 of None \<Rightarrow> Some (0, s1) | Some level_1' \<Rightarrow>
            let a1 = entry_at level_1' (idx ! 1); level_2 = mmu_get_vaddr (cells s1 a1) in
            if \<not> mmu_is_valid (cells s1 (entry_at level_2 (idx ! 2))) then Some (0, s1)
            else do {
              (t2, s2) \<leftarrow> abort_level a1 level_2 (idx ! 2) s1;
              case t2 of None \<Rightarrow> Some (0, s2) | Some level_2' \<Rightarrow>
                let a2 = entry_at level_2' (idx ! 2); level_3 = mmu_get_vaddr (cells s2 a2) in
                if \<not> mmu_is_valid (cells s2 (entry_at level_3 (idx ! 3))) then Some (0, s2)
                else do {
                  (t3, s3) \<leftarrow> abort_level a2 level_3 (idx ! 3) s2;
                  case t3 of None \<Rightarrow> Some (0, s3)
                  | Some level_3' \<Rightarrow> abort_page (entry_at level_3' (idx ! 3)) vaddr s3 } } })"

end
