(* ===== verification/Mmu_Setup.thy ===== *)
theory Mmu_Setup
  imports Mem
begin

text \<open>
  The translation tables the kernel starts with (\<open>mmu_setup\<close> of \<^verbatim>\<open>kernel/arch/aarch64/mmu.c\<close>).

  The function runs before the MMU is on, so the cells of the memory state stand for physical
  addresses here. \<open>data_start\<close> and \<open>data_end\<close> are the linker's symbols. The result holds the two
  tables that are handed to \<open>mmu_init\<close>, which only loads system registers; the second one is the
  value returned. A mark behind the page map is \<open>None\<close>, as in \<^theory_text>\<open>Pmm\<close>: to follow the
  function past such a mark, the list has to hold the words that lie behind the array as well.
\<close>

subsection \<open>The code\<close>

text \<open>The pages \<open>&_data_end + 512 * table_cnt++\<close>: 0 to 3 for the kernel, 4 to 7 for the user.\<close>

definition setup_table :: "u64 \<Rightarrow> nat \<Rightarrow> u64" where
  "setup_table data_end table_cnt = data_end + 8 * (512 * of_nat table_cnt)"

definition setup_mark :: "u64 \<Rightarrow> mem_state \<Rightarrow> mem_state option" where
  "setup_mark addr s = map_option (\<lambda>m. s\<lparr>pmap := m\<rparr>) (pmm_mark addr (pmap s))"

fun setup_mark_all :: "u64 list \<Rightarrow> mem_state \<Rightarrow> mem_state option" where
  "setup_mark_all [] s = Some s"
| "setup_mark_all (a # as) s = Option.bind (setup_mark a s) (setup_mark_all as)"

definition zero_pages :: "u64 list \<Rightarrow> mem_state \<Rightarrow> mem_state" where
  "zero_pages ps s = fold zero_page ps s"

definition mmu_setup_kernel_tables :: "u64 \<Rightarrow> mem_state \<Rightarrow> mem_state option" where
  "mmu_setup_kernel_tables data_end s =
     (let l0 = setup_table data_end 0; l1 = setup_table data_end 1;
          l2 = setup_table data_end 2; l3 = setup_table data_end 3 in do {
        s1 \<leftarrow> setup_mark_all [l0, l1, l2, l3] s;
        let s2 = zero_pages [l0, l1, l2, l3] s1;
        let s3 = set_cell (entry_at l0 511) (l0 OR ATT_VALID OR ATT_PAGE OR ATT_AF_SET) s2;
        let s4 = set_cell (entry_at l0 0) (l1 OR ATT_VALID OR ATT_PAGE OR ATT_AF_SET) s3;
        let s5 = set_cell (entry_at l1 0) (l2 OR ATT_VALID OR ATT_PAGE OR ATT_AF_SET) s4;
        Some (set_cell (entry_at l2 0) (l3 OR ATT_VALID OR ATT_PAGE OR ATT_AF_SET) s5) })"

definition mmu_setup_user_tables :: "u64 \<Rightarrow> mem_state \<Rightarrow> mem_state option" where
  "mmu_setup_user_tables data_end s =
     (let l0 = setup_table data_end 4; l1 = setup_table data_end 5;
          l2 = setup_table data_end 6; l3 = setup_table data_end 7 in do {
        s1 \<leftarrow> setup_mark_all [l0, l1, l2, l3] s;
        let s2 = zero_pages [l0, l1, l2, l3] s1;
        let s3 = set_cell (entry_at l0 0) (l1 OR ATT_VALID OR ATT_PAGE) s2;
        let s4 = set_cell (entry_at l1 0) (l2 OR ATT_VALID OR ATT_PAGE) s3;
        Some (set_cell (entry_at l2 0) (l3 OR ATT_VALID OR ATT_PAGE) s4) })"

definition ATTR_RW :: u64 where
  [layout_simps]: "ATTR_RW = ATT_VALID OR ATT_PAGE OR ATT_NORMAL OR ATT_AP_NA_RW OR ATT_AF_SET OR
     ATT_PXN_NOEXEC OR ATT_UXN_NOEXEC"

definition ATTR_TEXT :: u64 where
  [layout_simps]: "ATTR_TEXT = ATT_VALID OR ATT_PAGE OR ATT_NORMAL OR ATT_AP_NA_RO OR ATT_AF_SET OR
     ATT_PXN_EXEC OR ATT_UXN_NOEXEC"

definition ATTR_RD :: u64 where
  [layout_simps]: "ATTR_RD = ATT_VALID OR ATT_BLOCK OR ATT_NORMAL OR ATT_AP_NA_RW OR ATT_AF_SET OR
     ATT_PXN_NOEXEC OR ATT_UXN_NOEXEC"

definition ATTR_MMIO :: u64 where
  [layout_simps]: "ATTR_MMIO = ATT_VALID OR ATT_BLOCK OR ATT_DEVICE OR ATT_AP_NA_RW OR ATT_AF_SET OR
     ATT_PXN_NOEXEC OR ATT_UXN_NOEXEC"

text \<open>Entry \<open>mapped\<close> of both level 3 tables.\<close>

definition map_both :: "u64 \<Rightarrow> nat \<Rightarrow> u64 \<Rightarrow> mem_state \<Rightarrow> mem_state" where
  "map_both data_end mapped entry s =
     set_cell (entry_at (setup_table data_end 7) (of_nat mapped)) entry
       (set_cell (entry_at (setup_table data_end 3) (of_nat mapped)) entry s)"

text \<open>
  The loops over the pages of the text and of the data segment. There is no bound on \<open>mapped\<close>: a
  kernel of more than 2 MiB runs behind the level 3 tables.
\<close>

function map_segment :: "u64 \<Rightarrow> u64 \<Rightarrow> u64 \<Rightarrow> nat \<Rightarrow> nat \<Rightarrow> nat \<Rightarrow> mem_state \<Rightarrow>
    (nat \<times> mem_state) option" where
  "map_segment data_end base attr pages i mapped s =
     (if i < pages then do {
        let addr = base + of_nat i * PAGESIZE;
        s' \<leftarrow> setup_mark addr (map_both data_end mapped (addr OR attr) s);
        map_segment data_end base attr pages (i + 1) (mapped + 1) s' }
      else Some (mapped, s))"
  by pat_completeness auto
termination
  by (relation "measure (\<lambda>(e, b, a, pages, i, m, s). pages - i)") auto

text \<open>
  The two loops over the 2 MiB blocks of the RAM disk and of the peripherals. The inner loop means
  to mark the pages of the block; it marks \<open>phys + block * p\<close>, a few bytes further on each round.
\<close>

function mark_block :: "u64 \<Rightarrow> nat \<Rightarrow> nat \<Rightarrow> mem_state \<Rightarrow> mem_state option" where
  "mark_block phys block p s =
     (if p < unat (push_bit 9 PAGESIZE div PAGESIZE)
      then Option.bind (setup_mark (phys + of_nat block * of_nat p) s) (mark_block phys block (p + 1))
      else Some s)"
  by pat_completeness auto
termination
  by (relation "measure (\<lambda>(a, b, p, s). unat (push_bit 9 PAGESIZE div PAGESIZE) - p)") auto

function map_blocks :: "u64 \<Rightarrow> u64 \<Rightarrow> u64 \<Rightarrow> nat \<Rightarrow> nat \<Rightarrow> nat \<Rightarrow> mem_state \<Rightarrow>
    mem_state option" where
  "map_blocks data_end base attr last_i i block s =
     (if i < last_i then do {
        let s1 = set_cell (entry_at (setup_table data_end 2) (of_nat i))
          ((base - MEM_VA_KERNEL_START + of_nat block * push_bit 9 PAGESIZE) OR attr) s;
        s2 \<leftarrow> mark_block (MEM_VIRT_TO_PHYS base) block 0 s1;
        map_blocks data_end base attr last_i (i + 1) (block + 1) s2 }
      else Some s)"
  by pat_completeness auto
termination
  by (relation "measure (\<lambda>(e, b, a, last_i, i, k, s). last_i - i)") auto

text \<open>The tables themselves, in the level 3 table of the kernel.\<close>

function map_tables :: "u64 \<Rightarrow> nat \<Rightarrow> nat \<Rightarrow> nat \<Rightarrow> mem_state \<Rightarrow> mem_state" where
  "map_tables data_end table_cnt i mapped s =
     (if i < table_cnt
      then map_tables data_end table_cnt (i + 1) (mapped + 1)
        (set_cell (entry_at (setup_table data_end 3) (of_nat mapped))
          ((data_end + of_nat i * PAGESIZE) OR ATTR_RW) s)
      else s)"
  by pat_completeness auto
termination
  by (relation "measure (\<lambda>(e, n, i, m, s). n - i)") auto

declare map_segment.simps [simp del] mark_block.simps [simp del] map_blocks.simps [simp del]
  map_tables.simps [simp del]

text \<open>The stack page below \<open>MEM_LOW\<close> and the two segments; the number of the next free entry.\<close>

definition mmu_setup_kernel_pages :: "u64 \<Rightarrow> u64 \<Rightarrow> mem_state \<Rightarrow> (nat \<times> mem_state) option" where
  "mmu_setup_kernel_pages data_start data_end s = do {
     let mapped = unat (MEM_LOW div PAGESIZE - 1);
     let s1 = map_both data_end mapped ((MEM_LOW - PAGESIZE) OR ATTR_RW) s;
     let text_pages = unat ((data_start - MEM_LOW) div PAGESIZE);
     (mapped, s2) \<leftarrow> map_segment data_end MEM_LOW ATTR_TEXT text_pages 0 (mapped + 1) s1;
     let data_pages = unat ((data_end - data_start) div PAGESIZE);
     map_segment data_end data_start ATTR_RW data_pages 0 mapped s2 }"

definition mmu_setup :: "u64 \<Rightarrow> u64 \<Rightarrow> mem_state \<Rightarrow> (u64 \<times> u64 \<times> mem_state) option" where
  "mmu_setup data_start data_end s = do {
     s1 \<leftarrow> mmu_setup_kernel_tables data_end s;
     s2 \<leftarrow> mmu_setup_user_tables data_end s1;
     (mapped, s3) \<leftarrow> mmu_setup_kernel_pages data_start data_end s2;
     s4 \<leftarrow> map_blocks data_end MEM_RD ATTR_RD 504 496 0 s3;
     s5 \<leftarrow> map_blocks data_end MEM_MMIO ATTR_MMIO 512 504 0 s4;
     let s6 = map_tables data_end 8 0 mapped s5;
     Some (setup_table data_end 0, setup_table data_end 4, s6) }"

subsection \<open>Cells of the eight tables\<close>

text \<open>Byte \<open>8 * i\<close> of table \<open>n\<close>, as a distance from \<open>data_end\<close>.\<close>

definition slot :: "nat \<Rightarrow> nat \<Rightarrow> nat" where
  "slot n i = 4096 * n + 8 * i"

lemma entry_slot: "entry_at (setup_table e n) (of_nat i) = e + of_nat (slot n i)"
  by (simp add: entry_at_def setup_table_def slot_def algebra_simps)

lemma table_slot: "setup_table e n = e + of_nat (slot n 0)"
  by (simp add: setup_table_def slot_def)

lemma offset_inj:
  assumes "x < 2 ^ 64" "y < 2 ^ 64"
  shows "(e :: u64) + of_nat x = e + of_nat y \<longleftrightarrow> x = y"
  using assms by (simp add: word_of_nat_eq_iff take_bit_nat_eq_self_iff[THEN iffD2])

lemma unat_word: "x < 2 ^ 64 \<Longrightarrow> unat (of_nat x :: u64) = x"
  by (simp add: unat_of_nat)

lemma slot_parts:
  assumes "i < 512"
  shows "slot n i div 4096 = n" and "slot n i mod 4096 = 8 * i"
  using assms by (simp_all add: slot_def)

lemma slot_eq: "i < 512 \<Longrightarrow> j < 512 \<Longrightarrow> slot n i = slot m j \<longleftrightarrow> n = m \<and> i = j"
  using slot_parts [of i n] slot_parts [of j m] by auto

lemma slot_bound: "n < 8 \<Longrightarrow> i < 512 \<Longrightarrow> slot n i < 32768"
  by (simp add: slot_def)

definition tcell :: "u64 \<Rightarrow> mem_state \<Rightarrow> nat \<Rightarrow> nat \<Rightarrow> u64" where
  "tcell e s n i = cells s (e + of_nat (slot n i))"

lemma tcell_set:
  assumes "n < 8" "i < 512" "m < 8" "j < 512"
  shows "tcell e (set_cell (entry_at (setup_table e n) (of_nat i)) v s) m j =
    (if m = n \<and> j = i then v else tcell e s m j)"
proof -
  have "e + of_nat (slot m j) = e + of_nat (slot n i) \<longleftrightarrow> m = n \<and> j = i"
    using slot_bound [OF assms(1,2)] slot_bound [OF assms(3,4)] slot_eq [OF assms(4,2)]
    by (subst offset_inj) simp_all
  then show ?thesis by (simp add: tcell_def set_cell_def entry_slot)
qed

lemma in_page_slot:
  assumes "n < 8" "m < 8" "j < 512"
  shows "in_page (setup_table e n) (e + of_nat (slot m j)) \<longleftrightarrow> m = n"
proof (cases "4096 * n \<le> slot m j")
  case True
  then have "(of_nat (slot m j) - of_nat (4096 * n) :: u64) = of_nat (slot m j - 4096 * n)"
    by (simp add: of_nat_diff)
  moreover have "slot m j - 4096 * n < 2 ^ 64" using slot_bound [OF assms(2,3)] by simp
  ultimately have "in_page (setup_table e n) (e + of_nat (slot m j)) \<longleftrightarrow> slot m j - 4096 * n < 4096"
    by (simp add: in_page_def table_slot slot_def [of n] layout_simps word_less_nat_alt unat_word)
  also have "\<dots> \<longleftrightarrow> m = n" using True assms(3) by (auto simp: slot_def)
  finally show ?thesis .
next
  case False
  define d where "d = 4096 * n - slot m j"
  have d: "0 < d" "d < 32768" using False assms(1) by (simp_all add: d_def)
  have "(of_nat (4096 * n) - of_nat (slot m j) :: u64) = of_nat d"
    using False by (simp add: d_def of_nat_diff)
  then have *: "e + of_nat (slot m j) - setup_table e n = - (of_nat d)"
    by (simp add: table_slot slot_def [of n] algebra_simps)
  have "(of_nat (2 ^ 64 - d) :: u64) = of_nat (2 ^ 64) - of_nat d" using d by (intro of_nat_diff) simp
  then have "- (of_nat d :: u64) = of_nat (2 ^ 64 - d)" by simp
  then have "unat (- (of_nat d :: u64)) = unat (of_nat (2 ^ 64 - d) :: u64)" by (rule arg_cong)
  also have "\<dots> = 2 ^ 64 - d" using d by (intro unat_word) simp
  finally have "unat (- (of_nat d :: u64)) = 2 ^ 64 - d" .
  then have "\<not> in_page (setup_table e n) (e + of_nat (slot m j))"
    using * d by (simp add: in_page_def layout_simps word_less_nat_alt)
  with False show ?thesis by (auto simp: slot_def)
qed

lemma tcell_zero:
  assumes "n < 8" "m < 8" "j < 512"
  shows "tcell e (zero_page (setup_table e n) s) m j = (if m = n then 0 else tcell e s m j)"
  using in_page_slot [OF assms] by (simp add: tcell_def zero_page_def)

lemma tcell_cells: "cells s' = cells s \<Longrightarrow> tcell e s' = tcell e s"
  by (simp add: tcell_def fun_eq_iff)

subsection \<open>Marks\<close>

text \<open>Page \<open>q\<close> is marked, in a list of words that may be longer than the array.\<close>

definition marked :: "u64 list \<Rightarrow> nat \<Rightarrow> bool" where
  "marked m q \<longleftrightarrow> q div 64 < length m \<and> bit (m ! (q div 64)) (q mod 64)"

definition adds_marks :: "nat set \<Rightarrow> mem_state \<Rightarrow> mem_state \<Rightarrow> bool" where
  "adds_marks P s s' \<longleftrightarrow> length (pmap s') = length (pmap s) \<and>
     (\<forall>q. marked (pmap s') q \<longleftrightarrow> marked (pmap s) q \<or> q \<in> P)"

lemma adds_marks_refl: "pmap s' = pmap s \<Longrightarrow> adds_marks {} s s'"
  by (simp add: adds_marks_def)

lemma adds_marks_trans: "adds_marks P s s' \<Longrightarrow> adds_marks Q s' s'' \<Longrightarrow> adds_marks (P \<union> Q) s s''"
  by (auto simp: adds_marks_def)

lemma adds_marks_length: "adds_marks P s s' \<Longrightarrow> length (pmap s') = length (pmap s)"
  by (simp add: adds_marks_def)

lemma setup_mark_ok:
  assumes "unat (pmm_page a) = p" "p div 64 < length (pmap s)"
  shows "\<exists>s'. setup_mark a s = Some s' \<and> cells s' = cells s \<and> adds_marks {p} s s'"
proof -
  let ?m = "(pmap s)[p div 64 := pmap s ! (p div 64) OR push_bit (p mod 64) 1]"
  have "unat (pmm_page a div 64) = p div 64" "unat (pmm_page a mod 64) = p mod 64"
    using assms(1) by (simp_all add: unat_div_distrib unat_mod_distrib)
  then have "pmm_mark a (pmap s) = Some ?m"
    using assms(2) by (simp add: pmm_mark_def Let_def)
  moreover have "marked ?m q \<longleftrightarrow> marked (pmap s) q \<or> q = p" for q
  proof (cases "q div 64 = p div 64")
    case True
    then have "q = p \<longleftrightarrow> q mod 64 = p mod 64" by (metis div_mult_mod_eq)
    with True assms(2) show ?thesis by (auto simp: marked_def bit_simps)
  next
    case False
    then show ?thesis by (auto simp: marked_def)
  qed
  ultimately show ?thesis by (simp add: setup_mark_def adds_marks_def)
qed

lemma setup_mark_page:
  assumes "p < 512" "4031 \<le> length (pmap s)"
  shows "\<exists>s'. setup_mark (page_addr p) s = Some s' \<and> cells s' = cells s \<and> adds_marks {p} s s'"
  using assms pmm_page_addr [of p] by (intro setup_mark_ok) (simp_all add: MEM_MAP_SIZE_eq)

lemma setup_mark_all_ok:
  assumes "\<forall>p\<in>set ps. p < 512" "4031 \<le> length (pmap s)"
  shows "\<exists>s'. setup_mark_all (map page_addr ps) s = Some s' \<and> cells s' = cells s \<and>
    adds_marks (set ps) s s'"
  using assms
proof (induction ps arbitrary: s)
  case Nil
  then show ?case by (simp add: adds_marks_refl)
next
  case (Cons p ps)
  from setup_mark_page [of p s] Cons.prems obtain s1 where
      1: "setup_mark (page_addr p) s = Some s1" "cells s1 = cells s" "adds_marks {p} s s1" by auto
  from Cons.IH [of s1] Cons.prems adds_marks_length [OF 1(3)] obtain s2 where
      "setup_mark_all (map page_addr ps) s1 = Some s2" "cells s2 = cells s1" "adds_marks (set ps) s1 s2"
    by auto
  with 1 adds_marks_trans [OF 1(3)] show ?case by fastforce
qed

lemma setup_table_page: "setup_table (page_addr k) n = page_addr (k + n)"
  by (simp add: setup_table_def page_addr_def layout_simps algebra_simps)

subsection \<open>The phases\<close>

definition table_entry :: "u64 \<Rightarrow> u64" where
  "table_entry p = p OR ATT_VALID OR ATT_PAGE OR ATT_AF_SET"

definition utable_entry :: "u64 \<Rightarrow> u64" where
  "utable_entry p = p OR ATT_VALID OR ATT_PAGE"

lemma pmap_set_cell [simp]: "pmap (set_cell a v s) = pmap s"
  by (simp add: set_cell_def)

lemma pmap_zero_page [simp]: "pmap (zero_page p s) = pmap s"
  by (simp add: zero_page_def)

lemma tcell_set0:
  assumes "n < 8" "m < 8" "j < 512"
  shows "tcell e (set_cell (entry_at (setup_table e n) 0) v s) m j =
    (if m = n \<and> j = 0 then v else tcell e s m j)"
    and "tcell e (set_cell (entry_at (setup_table e n) 511) v s) m j =
    (if m = n \<and> j = 511 then v else tcell e s m j)"
  using tcell_set [of n 0 m j e v s] tcell_set [of n 511 m j e v s] assms by simp_all

definition kernel_cell :: "u64 \<Rightarrow> nat \<Rightarrow> nat \<Rightarrow> u64" where
  "kernel_cell e n j =
     (if n = 0 \<and> j = 511 then table_entry (setup_table e 0)
      else if n < 3 \<and> j = 0 then table_entry (setup_table e (n + 1)) else 0)"

definition user_cell :: "u64 \<Rightarrow> nat \<Rightarrow> nat \<Rightarrow> u64" where
  "user_cell e n j = (if n < 7 \<and> j = 0 then utable_entry (setup_table e (n + 1)) else 0)"

lemma less_8: "n < (8 :: nat) \<longleftrightarrow> n \<in> {0, 1, 2, 3, 4, 5, 6, 7}"
  by auto

lemma kernel_tables_cells:
  assumes "setup_mark_all [setup_table e 0, setup_table e 1, setup_table e 2, setup_table e 3] s =
    Some s1"
  shows "\<exists>s'. mmu_setup_kernel_tables e s = Some s' \<and> pmap s' = pmap s1 \<and>
    (\<forall>n<8. \<forall>j<512. tcell e s' n j = (if n < 4 then kernel_cell e n j else tcell e s1 n j))"
proof (intro exI conjI allI impI)
  let ?l = "\<lambda>n. setup_table e n"
  let ?s = "set_cell (entry_at (?l 2) 0) (table_entry (?l 3))
     (set_cell (entry_at (?l 1) 0) (table_entry (?l 2))
       (set_cell (entry_at (?l 0) 0) (table_entry (?l 1))
         (set_cell (entry_at (?l 0) 511) (table_entry (?l 0))
           (zero_pages [?l 0, ?l 1, ?l 2, ?l 3] s1))))"
  show "mmu_setup_kernel_tables e s = Some ?s"
    using assms by (simp add: mmu_setup_kernel_tables_def Let_def table_entry_def
        del: setup_mark_all.simps)
  show "pmap ?s = pmap s1" by (simp add: zero_pages_def)
  fix n j assume "n < (8 :: nat)" "j < (512 :: nat)"
  then show "tcell e ?s n j = (if n < 4 then kernel_cell e n j else tcell e s1 n j)"
    by (simp add: zero_pages_def tcell_set0 tcell_zero kernel_cell_def)
      (auto simp: less_8 numeral_2_eq_2)
qed

lemma user_tables_cells:
  assumes "setup_mark_all [setup_table e 4, setup_table e 5, setup_table e 6, setup_table e 7] s =
    Some s1"
  shows "\<exists>s'. mmu_setup_user_tables e s = Some s' \<and> pmap s' = pmap s1 \<and>
    (\<forall>n<8. \<forall>j<512. tcell e s' n j = (if n < 4 then tcell e s1 n j else user_cell e n j))"
proof (intro exI conjI allI impI)
  let ?l = "\<lambda>n. setup_table e n"
  let ?s = "set_cell (entry_at (?l 6) 0) (utable_entry (?l 7))
     (set_cell (entry_at (?l 5) 0) (utable_entry (?l 6))
       (set_cell (entry_at (?l 4) 0) (utable_entry (?l 5))
         (zero_pages [?l 4, ?l 5, ?l 6, ?l 7] s1)))"
  show "mmu_setup_user_tables e s = Some ?s"
    using assms by (simp add: mmu_setup_user_tables_def Let_def utable_entry_def
        del: setup_mark_all.simps)
  show "pmap ?s = pmap s1" by (simp add: zero_pages_def)
  fix n j assume "n < (8 :: nat)" "j < (512 :: nat)"
  then show "tcell e ?s n j = (if n < 4 then tcell e s1 n j else user_cell e n j)"
    by (simp add: zero_pages_def tcell_set0 tcell_zero user_cell_def) (auto simp: less_8)
qed

lemma kernel_tables_ok:
  assumes "k + 8 \<le> 512" "4031 \<le> length (pmap s)" "e = page_addr k"
  shows "\<exists>s'. mmu_setup_kernel_tables e s = Some s' \<and> adds_marks {k..<k + 4} s s' \<and>
    (\<forall>n<8. \<forall>j<512. tcell e s' n j = (if n < 4 then kernel_cell e n j else tcell e s n j))"
proof -
  from setup_mark_all_ok [of "[k, k + 1, k + 2, k + 3]" s] assms obtain s1 where
      1: "setup_mark_all (map page_addr [k, k + 1, k + 2, k + 3]) s = Some s1" "cells s1 = cells s"
        "adds_marks (set [k, k + 1, k + 2, k + 3]) s s1" by auto
  then have "setup_mark_all [setup_table e 0, setup_table e 1, setup_table e 2, setup_table e 3] s =
      Some s1"
    by (simp add: setup_table_page assms(3))
  moreover have "set [k, k + 1, k + 2, k + 3] = {k..<k + 4}" by auto
  ultimately show ?thesis
    using 1 tcell_cells [OF 1(2), of e] kernel_tables_cells [of e s s1]
    by (fastforce simp: adds_marks_def)
qed

lemma user_tables_ok:
  assumes "k + 8 \<le> 512" "4031 \<le> length (pmap s)" "e = page_addr k"
  shows "\<exists>s'. mmu_setup_user_tables e s = Some s' \<and> adds_marks {k + 4..<k + 8} s s' \<and>
    (\<forall>n<8. \<forall>j<512. tcell e s' n j = (if n < 4 then tcell e s n j else user_cell e n j))"
proof -
  from setup_mark_all_ok [of "[k + 4, k + 5, k + 6, k + 7]" s] assms obtain s1 where
      1: "setup_mark_all (map page_addr [k + 4, k + 5, k + 6, k + 7]) s = Some s1"
        "cells s1 = cells s" "adds_marks (set [k + 4, k + 5, k + 6, k + 7]) s s1" by auto
  then have "setup_mark_all [setup_table e 4, setup_table e 5, setup_table e 6, setup_table e 7] s =
      Some s1"
    by (simp add: setup_table_page assms(3))
  moreover have "set [k + 4, k + 5, k + 6, k + 7] = {k + 4..<k + 8}" by auto
  ultimately show ?thesis
    using 1 tcell_cells [OF 1(2), of e] user_tables_cells [of e s s1]
    by (fastforce simp: adds_marks_def)
qed

subsection \<open>The loops\<close>

lemma page_addr_plus: "page_addr b + of_nat i * PAGESIZE = page_addr (b + i)"
  by (simp add: page_addr_def algebra_simps)

lemma tcell_both:
  assumes "mapped < 512" "n < 8" "j < 512"
  shows "tcell e (map_both e mapped v s) n j =
    (if (n = 3 \<or> n = 7) \<and> j = mapped then v else tcell e s n j)"
  using assms by (auto simp: map_both_def tcell_set)

lemma map_segment_ok:
  assumes "b + pages \<le> 512" "mapped + (pages - i) \<le> 512" "i \<le> pages" "4031 \<le> length (pmap s)"
  shows "\<exists>s'. map_segment e (page_addr b) attr pages i mapped s = Some (mapped + (pages - i), s') \<and>
    adds_marks {b + i..<b + pages} s s' \<and>
    (\<forall>n<8. \<forall>j<512. tcell e s' n j =
       (if (n = 3 \<or> n = 7) \<and> mapped \<le> j \<and> j < mapped + (pages - i)
        then page_addr (b + i + (j - mapped)) OR attr else tcell e s n j))"
  using assms
proof (induction "pages - i" arbitrary: i mapped s)
  case 0
  then show ?case by (subst map_segment.simps) (auto simp: adds_marks_refl)
next
  case (Suc r)
  then have i: "i < pages" by simp
  let ?v = "page_addr (b + i) OR attr"
  from setup_mark_page [of "b + i" "map_both e mapped ?v s"] Suc.prems i obtain s1 where
      1: "setup_mark (page_addr (b + i)) (map_both e mapped ?v s) = Some s1"
        "cells s1 = cells (map_both e mapped ?v s)" "adds_marks {b + i} (map_both e mapped ?v s) s1"
    by (auto simp: map_both_def)
  then have m1: "adds_marks {b + i} s s1" by (simp add: adds_marks_def map_both_def)
  have r: "r = pages - (i + 1)" and le: "mapped + 1 + (pages - (i + 1)) \<le> 512" "i + 1 \<le> pages"
    using Suc.hyps(2) Suc.prems(2) i by simp_all
  have len: "4031 \<le> length (pmap s1)" using Suc.prems(4) adds_marks_length [OF m1] by simp
  from Suc.hyps(1) [OF r Suc.prems(1) le len] obtain s2 where
      2: "map_segment e (page_addr b) attr pages (i + 1) (mapped + 1) s1 =
          Some (mapped + 1 + (pages - (i + 1)), s2)"
        "adds_marks {b + (i + 1)..<b + pages} s1 s2"
      and t2: "\<And>n j. n < 8 \<Longrightarrow> j < 512 \<Longrightarrow> tcell e s2 n j =
        (if (n = 3 \<or> n = 7) \<and> mapped + 1 \<le> j \<and> j < mapped + 1 + (pages - (i + 1))
         then page_addr (b + (i + 1) + (j - (mapped + 1))) OR attr else tcell e s1 n j)"
    by blast
  have "map_segment e (page_addr b) attr pages i mapped s = Some (mapped + (pages - i), s2)"
    using 1(1) 2(1) i by (subst map_segment.simps) (simp add: page_addr_plus)
  moreover have "adds_marks {b + i..<b + pages} s s2"
  proof -
    have "{b + i} \<union> {b + (i + 1)..<b + pages} = {b + i..<b + pages}" using i by auto
    with adds_marks_trans [OF m1 2(2)] show ?thesis by simp
  qed
  moreover have "tcell e s2 n j =
       (if (n = 3 \<or> n = 7) \<and> mapped \<le> j \<and> j < mapped + (pages - i)
        then page_addr (b + i + (j - mapped)) OR attr else tcell e s n j)" if "n < 8" "j < 512" for n j
  proof -
    have "tcell e s1 n j = (if (n = 3 \<or> n = 7) \<and> j = mapped then ?v else tcell e s n j)"
      using tcell_cells [OF 1(2)] tcell_both [of mapped n j e ?v s] that Suc.prems(2) i by simp
    moreover have "b + (i + 1) + (j - (mapped + 1)) = b + i + (j - mapped)" if "mapped + 1 \<le> j"
      using that by simp
    ultimately show ?thesis using t2 [OF that] i by (auto simp: not_le less_Suc_eq_le)
  qed
  ultimately show ?case by blast
qed

lemma mark_block_ok:
  assumes "\<And>p. p < 512 \<Longrightarrow> unat (pmm_page (phys + of_nat block * of_nat p)) = q"
    and "q div 64 < length (pmap s)"
  shows "\<exists>s'. mark_block phys block p s = Some s' \<and> cells s' = cells s \<and>
    adds_marks (if p < 512 then {q} else {}) s s'"
  using assms(2)
proof (induction "512 - p" arbitrary: p s)
  case 0
  then show ?case by (subst mark_block.simps) (simp add: adds_marks_refl layout_simps)
next
  case (Suc r)
  then have p: "p < 512" and r: "r = 512 - (p + 1)" by simp_all
  from setup_mark_ok [OF assms(1) [OF p] Suc.prems] obtain s1 where
      1: "setup_mark (phys + of_nat block * of_nat p) s = Some s1" "cells s1 = cells s"
        "adds_marks {q} s s1" by blast
  from Suc.hyps(1) [OF r, of s1] Suc.prems adds_marks_length [OF 1(3)] obtain s2 where
      2: "mark_block phys block (p + 1) s1 = Some s2" "cells s2 = cells s1"
        "adds_marks (if p + 1 < 512 then {q} else {}) s1 s2"
    by auto
  have "mark_block phys block p s = Some s2"
    using 1(1) 2(1) p by (subst mark_block.simps) (simp add: layout_simps)
  moreover have "adds_marks {q} s s2"
    using adds_marks_trans [OF 1(3) 2(3)] by (auto split: if_splits)
  ultimately show ?case using 1(2) 2(2) p by auto
qed

lemma map_blocks_ok:
  assumes "\<And>k p. k < 8 \<Longrightarrow> p < 512 \<Longrightarrow>
      unat (pmm_page (MEM_VIRT_TO_PHYS base + of_nat k * of_nat p)) = q"
    and "q div 64 < length (pmap s)" "last_i \<le> 512" "block + (last_i - i) \<le> 8"
  shows "\<exists>s'. map_blocks e base attr last_i i block s = Some s' \<and>
    adds_marks (if i < last_i then {q} else {}) s s' \<and>
    (\<forall>n<8. \<forall>j<512. tcell e s' n j =
       (if n = 2 \<and> i \<le> j \<and> j < last_i
        then (MEM_VIRT_TO_PHYS base + of_nat (block + (j - i)) * 0x200000) OR attr
        else tcell e s n j))"
  using assms(2,4)
proof (induction "last_i - i" arbitrary: i block s)
  case 0
  then show ?case by (subst map_blocks.simps) (auto simp: adds_marks_refl)
next
  case (Suc r)
  then have i: "i < last_i" by simp
  let ?v = "(MEM_VIRT_TO_PHYS base + of_nat block * 0x200000) OR attr"
  let ?s1 = "set_cell (entry_at (setup_table e 2) (of_nat i)) ?v s"
  from mark_block_ok [of "MEM_VIRT_TO_PHYS base" block q ?s1 0] assms(1) Suc.prems i obtain s2 where
      2: "mark_block (MEM_VIRT_TO_PHYS base) block 0 ?s1 = Some s2" "cells s2 = cells ?s1"
        "adds_marks {q} ?s1 s2" by auto
  then have m2: "adds_marks {q} s s2" by (simp add: adds_marks_def)
  have r: "r = last_i - (i + 1)" and le: "block + 1 + (last_i - (i + 1)) \<le> 8"
    using Suc.hyps(2) Suc.prems(2) i by simp_all
  have len: "q div 64 < length (pmap s2)" using Suc.prems(1) adds_marks_length [OF m2] by simp
  from Suc.hyps(1) [OF r len le] obtain s3 where
      3: "map_blocks e base attr last_i (i + 1) (block + 1) s2 = Some s3"
        "adds_marks (if i + 1 < last_i then {q} else {}) s2 s3"
      and t3: "\<And>n j. n < 8 \<Longrightarrow> j < 512 \<Longrightarrow> tcell e s3 n j =
        (if n = 2 \<and> i + 1 \<le> j \<and> j < last_i
         then (MEM_VIRT_TO_PHYS base + of_nat (block + 1 + (j - (i + 1))) * 0x200000) OR attr
         else tcell e s2 n j)"
    by blast
  have "map_blocks e base attr last_i i block s = Some s3"
    using 2(1) 3(1) i
    by (subst map_blocks.simps) (simp add: MEM_VIRT_TO_PHYS_def layout_simps algebra_simps)
  moreover have "adds_marks {q} s s3"
    using adds_marks_trans [OF m2 3(2)] by (auto split: if_splits)
  moreover have "tcell e s3 n j =
       (if n = 2 \<and> i \<le> j \<and> j < last_i
        then (MEM_VIRT_TO_PHYS base + of_nat (block + (j - i)) * 0x200000) OR attr
        else tcell e s n j)" if "n < 8" "j < 512" for n j
  proof -
    have "tcell e s2 n j = (if n = 2 \<and> j = i then ?v else tcell e s n j)"
      using tcell_cells [OF 2(2)] tcell_set [of 2 i n j e ?v s] that assms(3) i by simp
    moreover have "block + 1 + (j - (i + 1)) = block + (j - i)" if "i + 1 \<le> j"
      using that by simp
    ultimately show ?thesis using t3 [OF that] i by (auto simp: not_le less_Suc_eq_le)
  qed
  ultimately show ?case using i by auto
qed

lemma map_tables_ok:
  assumes "mapped + (table_cnt - i) \<le> 512"
  shows "pmap (map_tables (page_addr k) table_cnt i mapped s) = pmap s \<and>
    (\<forall>n<8. \<forall>j<512. tcell (page_addr k) (map_tables (page_addr k) table_cnt i mapped s) n j =
       (if n = 3 \<and> mapped \<le> j \<and> j < mapped + (table_cnt - i)
        then page_addr (k + i + (j - mapped)) OR ATTR_RW else tcell (page_addr k) s n j))"
  using assms
proof (induction "table_cnt - i" arbitrary: i mapped s)
  case 0
  then show ?case by (subst (1 2) map_tables.simps) auto
next
  case (Suc r)
  then have i: "i < table_cnt" by simp
  let ?e = "page_addr k" and ?v = "page_addr (k + i) OR ATTR_RW"
  let ?s1 = "set_cell (entry_at (setup_table ?e 3) (of_nat mapped)) ?v s"
  have step: "map_tables ?e table_cnt i mapped s = map_tables ?e table_cnt (i + 1) (mapped + 1) ?s1"
    using i by (subst map_tables.simps) (simp add: page_addr_plus)
  note IH = Suc.hyps(1) [of "i + 1" "mapped + 1" ?s1]
  have "tcell ?e (map_tables ?e table_cnt i mapped s) n j =
       (if n = 3 \<and> mapped \<le> j \<and> j < mapped + (table_cnt - i)
        then page_addr (k + i + (j - mapped)) OR ATTR_RW else tcell ?e s n j)"
    if "n < 8" "j < 512" for n j
  proof -
    have "tcell ?e ?s1 n j = (if n = 3 \<and> j = mapped then ?v else tcell ?e s n j)"
      using tcell_set [of 3 mapped n j ?e ?v s] that Suc.prems i by simp
    moreover have "k + (i + 1) + (j - (mapped + 1)) = k + i + (j - mapped)" if "mapped + 1 \<le> j"
      using that by simp
    ultimately show ?thesis using IH that Suc.hyps(2) Suc.prems i
      unfolding step by (auto simp: not_le less_Suc_eq_le)
  qed
  moreover have "pmap (map_tables ?e table_cnt i mapped s) = pmap s"
    using IH Suc.hyps(2) Suc.prems i unfolding step by simp
  ultimately show ?case by blast
qed

subsection \<open>The whole function\<close>

lemma page_addr_0: "MEM_LOW = page_addr 0"
  by (simp add: page_addr_def)

lemma page_addr_low: "128 \<le> j \<Longrightarrow> page_addr (j - 128) = of_nat j * 0x1000"
  by (simp add: page_addr_def layout_simps of_nat_diff algebra_simps)

text \<open>
  What every cell of the eight tables holds at the end. \<open>t\<close> and \<open>k\<close> are the page numbers of the two
  linker symbols.
\<close>

definition boot_cell :: "nat \<Rightarrow> nat \<Rightarrow> nat \<Rightarrow> nat \<Rightarrow> u64" where
  "boot_cell t k n j =
     (if n = 2 \<and> 504 \<le> j then (0x3f000000 + of_nat (j - 504) * 0x200000) OR ATTR_MMIO
      else if n = 2 \<and> 496 \<le> j then (0x3e000000 + of_nat (j - 496) * 0x200000) OR ATTR_RD
      else if n = 3 \<and> 127 \<le> j \<and> j < k + 136 \<or> n = 7 \<and> 127 \<le> j \<and> j < k + 128
      then (of_nat j * 0x1000) OR (if 128 \<le> j \<and> j < t + 128 then ATTR_TEXT else ATTR_RW)
      else if n < 4 then kernel_cell (page_addr k) n j else user_cell (page_addr k) n j)"

lemma text_segment_ok:
  assumes "t \<le> 376" "4031 \<le> length (pmap s)"
  shows "\<exists>s'. map_segment e MEM_LOW ATTR_TEXT t 0 128 s = Some (128 + t, s') \<and>
    adds_marks {0..<t} s s' \<and>
    (\<forall>n<8. \<forall>j<512. tcell e s' n j =
       (if (n = 3 \<or> n = 7) \<and> 128 \<le> j \<and> j < 128 + t then page_addr (j - 128) OR ATTR_TEXT
        else tcell e s n j))"
  using map_segment_ok [of 0 t 128 0 s e ATTR_TEXT] assms
  by (simp add: page_addr_0 cong: if_cong)

lemma data_segment_ok:
  assumes "t \<le> k" "k \<le> 376" "4031 \<le> length (pmap s)"
  shows "\<exists>s'. map_segment e (page_addr t) ATTR_RW (k - t) 0 (128 + t) s = Some (k + 128, s') \<and>
    adds_marks {t..<k} s s' \<and>
    (\<forall>n<8. \<forall>j<512. tcell e s' n j =
       (if (n = 3 \<or> n = 7) \<and> 128 + t \<le> j \<and> j < k + 128
        then page_addr (t + (j - (128 + t))) OR ATTR_RW else tcell e s n j))"
  using map_segment_ok [of t "k - t" "128 + t" 0 s e ATTR_RW] assms
  by (simp add: add.commute cong: if_cong)

lemma kernel_pages_ok:
  assumes "t \<le> k" "k + 136 \<le> 512" "4031 \<le> length (pmap s)"
  shows "\<exists>s'. mmu_setup_kernel_pages (page_addr t) (page_addr k) s = Some (k + 128, s') \<and>
    adds_marks {0..<k} s s' \<and>
    (\<forall>n<8. \<forall>j<512. tcell (page_addr k) s' n j =
       (if (n = 3 \<or> n = 7) \<and> 127 \<le> j \<and> j < k + 128
        then (of_nat j * 0x1000) OR (if 128 \<le> j \<and> j < t + 128 then ATTR_TEXT else ATTR_RW)
        else tcell (page_addr k) s n j))"
proof -
  let ?e = "page_addr k" and ?stack = "(MEM_LOW - PAGESIZE) OR ATTR_RW"
  let ?s1 = "map_both ?e 127 ?stack s"
  have m: "unat (MEM_LOW div PAGESIZE - 1) = 127" by (simp add: layout_simps)
  have txt_pages: "unat ((page_addr t - MEM_LOW) div PAGESIZE) = t"
    using pmm_page_addr [of t] assms by (simp add: pmm_page_def MEM_MAP_SIZE_eq)
  have "page_addr k - page_addr t = page_addr (k - t) - MEM_LOW"
    using assms(1) by (simp add: page_addr_def layout_simps of_nat_diff algebra_simps)
  then have data: "unat ((page_addr k - page_addr t) div PAGESIZE) = k - t"
    using pmm_page_addr [of "k - t"] assms by (simp add: pmm_page_def MEM_MAP_SIZE_eq)
  have s1: "pmap ?s1 = pmap s" by (simp add: map_both_def)
  from text_segment_ok [of t ?s1 ?e] assms s1 obtain s2 where
      2: "map_segment ?e MEM_LOW ATTR_TEXT t 0 128 ?s1 = Some (128 + t, s2)" "adds_marks {0..<t} ?s1 s2"
      and t2: "\<And>n j. n < 8 \<Longrightarrow> j < 512 \<Longrightarrow> tcell ?e s2 n j =
        (if (n = 3 \<or> n = 7) \<and> 128 \<le> j \<and> j < 128 + t then page_addr (j - 128) OR ATTR_TEXT
         else tcell ?e ?s1 n j)"
    by auto
  from data_segment_ok [of t k s2 ?e] assms s1 adds_marks_length [OF 2(2)]
  obtain s3 where
      3: "map_segment ?e (page_addr t) ATTR_RW (k - t) 0 (128 + t) s2 = Some (k + 128, s3)"
        "adds_marks {t..<k} s2 s3"
      and t3: "\<And>n j. n < 8 \<Longrightarrow> j < 512 \<Longrightarrow> tcell ?e s3 n j =
        (if (n = 3 \<or> n = 7) \<and> 128 + t \<le> j \<and> j < k + 128
         then page_addr (t + (j - (128 + t))) OR ATTR_RW else tcell ?e s2 n j)"
    by auto
  have "mmu_setup_kernel_pages (page_addr t) ?e s = Some (k + 128, s3)"
    using 2(1) 3(1) by (simp add: mmu_setup_kernel_pages_def m txt_pages data)
  moreover have "adds_marks {0..<k} s s3"
  proof -
    have "{0..<t} \<union> {t..<k} = {0..<k}" using assms(1) by auto
    moreover have "adds_marks {0..<t} s s2" using 2(2) s1 by (simp add: adds_marks_def)
    ultimately show ?thesis using adds_marks_trans [OF _ 3(2)] by metis
  qed
  moreover have "tcell ?e s3 n j =
       (if (n = 3 \<or> n = 7) \<and> 127 \<le> j \<and> j < k + 128
        then (of_nat j * 0x1000) OR (if 128 \<le> j \<and> j < t + 128 then ATTR_TEXT else ATTR_RW)
        else tcell ?e s n j)" if "n < 8" "j < 512" for n j
  proof -
    have "tcell ?e ?s1 n j = (if (n = 3 \<or> n = 7) \<and> j = 127 then of_nat j * 0x1000 OR ATTR_RW
        else tcell ?e s n j)"
      using tcell_both [of 127 n j ?e ?stack s] that by (simp add: layout_simps)
    moreover have "t + (j - (128 + t)) = j - 128" if "128 + t \<le> j" using that by simp
    ultimately show ?thesis
      using t3 [OF that] t2 [OF that] page_addr_low [of j] assms(1)
      by (auto simp: not_le not_less)
  qed
  ultimately show ?thesis by blast
qed

lemma block_page:
  assumes "base = MEM_VA_KERNEL_START + of_nat (0x80000 + 0x1000 * q)" "q < 0x40000"
    and "b < 8" "p < (512 :: nat)"
  shows "unat (pmm_page (MEM_VIRT_TO_PHYS base + of_nat b * of_nat p)) = q"
proof -
  have "b * p < 4096" using mult_le_mono [of b 7 p 511] assms(3,4) by simp
  then have "unat (of_nat (0x1000 * q + b * p) :: u64) = 0x1000 * q + b * p"
    using assms(2) by (intro unat_word) simp
  moreover have "MEM_VIRT_TO_PHYS base + of_nat b * of_nat p - MEM_LOW = of_nat (0x1000 * q + b * p)"
    using assms(1) by (simp add: MEM_VIRT_TO_PHYS_def layout_simps)
  ultimately have "unat (pmm_page (MEM_VIRT_TO_PHYS base + of_nat b * of_nat p)) =
      (0x1000 * q + b * p) div 0x1000"
    by (simp only: pmm_page_def unat_div_distrib) (simp add: layout_simps)
  also have "\<dots> = q" using \<open>b * p < 4096\<close> by simp
  finally show ?thesis .
qed

lemma mmu_setup_closed:
  assumes "t \<le> k" "k + 136 \<le> 512" "4031 \<le> length (pmap s)"
  shows "\<exists>s'. mmu_setup (page_addr t) (page_addr k) s = Some (page_addr k, page_addr (k + 4), s') \<and>
    adds_marks ({0..<k + 8} \<union> {253824, 257920}) s s' \<and>
    (\<forall>n<8. \<forall>j<512. tcell (page_addr k) s' n j = boot_cell t k n j)"
proof -
  let ?e = "page_addr k"
  from kernel_tables_ok [of k s ?e] assms obtain s1 where
      1: "mmu_setup_kernel_tables ?e s = Some s1" "adds_marks {k..<k + 4} s s1"
      and t1: "\<And>n j. n < 8 \<Longrightarrow> j < 512 \<Longrightarrow>
        tcell ?e s1 n j = (if n < 4 then kernel_cell ?e n j else tcell ?e s n j)" by auto
  note l1 = adds_marks_length [OF 1(2)]
  from user_tables_ok [of k s1 ?e] assms l1 obtain s2 where
      2: "mmu_setup_user_tables ?e s1 = Some s2" "adds_marks {k + 4..<k + 8} s1 s2"
      and t2: "\<And>n j. n < 8 \<Longrightarrow> j < 512 \<Longrightarrow>
        tcell ?e s2 n j = (if n < 4 then tcell ?e s1 n j else user_cell ?e n j)" by auto
  note l2 = adds_marks_length [OF 2(2)]
  from kernel_pages_ok [of t k s2] assms l1 l2 obtain s3 where
      3: "mmu_setup_kernel_pages (page_addr t) ?e s2 = Some (k + 128, s3)" "adds_marks {0..<k} s2 s3"
      and t3: "\<And>n j. n < 8 \<Longrightarrow> j < 512 \<Longrightarrow> tcell ?e s3 n j =
       (if (n = 3 \<or> n = 7) \<and> 127 \<le> j \<and> j < k + 128
        then (of_nat j * 0x1000) OR (if 128 \<le> j \<and> j < t + 128 then ATTR_TEXT else ATTR_RW)
        else tcell ?e s2 n j)" by auto
  note l3 = adds_marks_length [OF 3(2)]
  have rd: "unat (pmm_page (MEM_VIRT_TO_PHYS MEM_RD + of_nat b * of_nat p)) = 253824"
    if "b < 8" "p < 512" for b p
    by (rule block_page [OF _ _ that]) (simp_all add: layout_simps)
  from map_blocks_ok [of MEM_RD 253824 s3 504 0 496 ?e ATTR_RD] rd assms l1 l2 l3
  obtain s4 where
      4: "map_blocks ?e MEM_RD ATTR_RD 504 496 0 s3 = Some s4" "adds_marks {253824} s3 s4"
      and t4: "\<And>n j. n < 8 \<Longrightarrow> j < 512 \<Longrightarrow> tcell ?e s4 n j =
        (if n = 2 \<and> 496 \<le> j \<and> j < 504
         then (MEM_VIRT_TO_PHYS MEM_RD + of_nat (j - 496) * 0x200000) OR ATTR_RD
         else tcell ?e s3 n j)" by auto
  note l4 = adds_marks_length [OF 4(2)]
  have mmio: "unat (pmm_page (MEM_VIRT_TO_PHYS MEM_MMIO + of_nat b * of_nat p)) = 257920"
    if "b < 8" "p < 512" for b p
    by (rule block_page [OF _ _ that]) (simp_all add: layout_simps)
  from map_blocks_ok [of MEM_MMIO 257920 s4 512 0 504 ?e ATTR_MMIO] mmio assms l1 l2 l3 l4
  obtain s5 where
      5: "map_blocks ?e MEM_MMIO ATTR_MMIO 512 504 0 s4 = Some s5" "adds_marks {257920} s4 s5"
      and t5: "\<And>n j. n < 8 \<Longrightarrow> j < 512 \<Longrightarrow> tcell ?e s5 n j =
        (if n = 2 \<and> 504 \<le> j \<and> j < 512
         then (MEM_VIRT_TO_PHYS MEM_MMIO + of_nat (j - 504) * 0x200000) OR ATTR_MMIO
         else tcell ?e s4 n j)" by auto
  let ?s6 = "map_tables ?e 8 0 (k + 128) s5"
  from map_tables_ok [of "k + 128" 8 0 k s5] assms(2) have
      6: "pmap ?s6 = pmap s5"
      and t6: "\<And>n j. n < 8 \<Longrightarrow> j < 512 \<Longrightarrow> tcell ?e ?s6 n j =
        (if n = 3 \<and> k + 128 \<le> j \<and> j < k + 136 then page_addr (k + (j - (k + 128))) OR ATTR_RW
         else tcell ?e s5 n j)" by auto
  have "mmu_setup (page_addr t) ?e s = Some (?e, page_addr (k + 4), ?s6)"
    using 1(1) 2(1) 3(1) 4(1) 5(1) by (simp add: mmu_setup_def setup_table_page)
  moreover have "adds_marks ({0..<k + 8} \<union> {253824, 257920}) s ?s6"
  proof -
    have "{k..<k + 4} \<union> {k + 4..<k + 8} \<union> {0..<k} \<union> {253824} \<union> {257920} =
        {0..<k + 8} \<union> {253824, 257920}" by auto
    moreover note adds_marks_trans [OF adds_marks_trans [OF adds_marks_trans [OF
      adds_marks_trans [OF 1(2) 2(2)] 3(2)] 4(2)] 5(2)]
    ultimately show ?thesis by (simp add: adds_marks_def 6)
  qed
  moreover have "tcell ?e ?s6 n j = boot_cell t k n j" if "n < 8" "j < 512" for n j
  proof -
    have rd0: "MEM_VIRT_TO_PHYS MEM_RD = 0x3e000000" and io0: "MEM_VIRT_TO_PHYS MEM_MMIO = 0x3f000000"
      by (simp_all add: MEM_VIRT_TO_PHYS_def layout_simps)
    note ts = t6 [OF that] t5 [OF that] t4 [OF that] t3 [OF that] t2 [OF that] t1 [OF that]
    consider "n = 2" | "n = 3" | "n = 7" | "n \<noteq> 2" "n \<noteq> 3" "n \<noteq> 7" by blast
    then show ?thesis
    proof cases
      case 1
      then show ?thesis using ts that(2) by (simp add: boot_cell_def rd0 io0)
    next
      case 2
      consider "k + 128 \<le> j" | "j < k + 128" by linarith
      then show ?thesis
      proof cases
        case 1
        then have "k + (j - (k + 128)) = j - 128" and "128 \<le> j" and "\<not> j < t + 128"
          using assms(1) by simp_all
        with 1 2 ts page_addr_low [of j] show ?thesis by (simp add: boot_cell_def)
      next
        case less: 2
        then show ?thesis using 2 ts by (simp add: boot_cell_def)
      qed
    next
      case 3
      then show ?thesis using ts by (simp add: boot_cell_def)
    next
      case 4
      then show ?thesis using ts by (simp add: boot_cell_def)
    qed
  qed
  ultimately show ?thesis by blast
qed

subsection \<open>The walk of the MMU\<close>

text \<open>
  The specification: how the hardware translates an address with the table at the physical address
  \<open>l0\<close>, to the physical address and the attributes of the entry; \<open>None\<close> is a fault.
\<close>

definition walk_leaf :: "u64 \<Rightarrow> u64 \<Rightarrow> u64 \<Rightarrow> (u64 \<times> u64) option" where
  "walk_leaf entry va m = Some ((entry AND VADDR_MASK) + (va AND m), entry AND NOT VADDR_MASK)"

definition pt_walk :: "(u64 \<Rightarrow> u64) \<Rightarrow> u64 \<Rightarrow> u64 \<Rightarrow> (u64 \<times> u64) option" where
  "pt_walk c l0 va =
     (let idx = mmu_get_table_idx va;
          e0 = c (entry_at l0 (idx ! 0));
          e1 = c (entry_at (e0 AND VADDR_MASK) (idx ! 1));
          e2 = c (entry_at (e1 AND VADDR_MASK) (idx ! 2));
          e3 = c (entry_at (e2 AND VADDR_MASK) (idx ! 3))
      in if \<not> mmu_is_valid e0 \<or> mmu_is_block e0 then None
         else if \<not> mmu_is_valid e1 then None
         else if mmu_is_block e1 then walk_leaf e1 va 0x3fffffff
         else if \<not> mmu_is_valid e2 then None
         else if mmu_is_block e2 then walk_leaf e2 va 0x1fffff
         else if \<not> mmu_is_valid e3 \<or> mmu_is_block e3 then None
         else walk_leaf e3 va 0xfff)"

lemma low_bits_cong:
  assumes "take_bit 48 (va :: u64) = take_bit 48 va'"
  shows "pt_walk c l0 va = pt_walk c l0 va'"
proof -
  have b: "bit va n \<longleftrightarrow> bit va' n" if "n < 48" for n
    using assms that by (metis bit_take_bit_iff)
  have "drop_bit k va AND mask 9 = drop_bit k va' AND mask 9" if "k \<le> 39" for k
    using b that by (intro bit_word_eqI) (auto simp: bit_simps)
  from this [of 39] this [of 30] this [of 21] this [of 12]
  have "mmu_get_table_idx va = mmu_get_table_idx va'"
    by (simp add: mmu_get_table_idx_def mask_eq_exp_minus_1)
  moreover have "va AND mask k = va' AND mask k" if "k \<le> 48" for k
    using b that by (intro bit_word_eqI) (auto simp: bit_simps)
  from this [of 30] this [of 21] this [of 12]
  have "walk_leaf e va 0x3fffffff = walk_leaf e va' 0x3fffffff"
    "walk_leaf e va 0x1fffff = walk_leaf e va' 0x1fffff"
    "walk_leaf e va 0xfff = walk_leaf e va' 0xfff" for e
    by (simp_all add: walk_leaf_def mask_eq_exp_minus_1)
  ultimately show ?thesis unfolding pt_walk_def Let_def by (simp only: cong: if_cong)
qed

lemma walk_linear: "pt_walk c l0 (MEM_PHYS_TO_VIRT a) = pt_walk c l0 a"
proof (rule low_bits_cong)
  have "unat (a + MEM_VA_KERNEL_START) = (unat a + 0xffff * 2 ^ 48) mod 2 ^ 64"
    by (simp add: unat_word_ariths layout_simps)
  then have "unat (a + MEM_VA_KERNEL_START) mod 2 ^ 48 = (unat a + 0xffff * 2 ^ 48) mod 2 ^ 48"
    using mod_mod_cancel [of "2 ^ 48" "2 ^ 64 :: nat"] by (simp only: le_imp_power_dvd)
  also have "\<dots> = unat a mod 2 ^ 48" by (rule mod_mult_self1)
  finally have "unat (a + MEM_VA_KERNEL_START) mod 2 ^ 48 = unat a mod 2 ^ 48" .
  then show "take_bit 48 (MEM_PHYS_TO_VIRT a) = take_bit 48 a"
    by (simp only: MEM_PHYS_TO_VIRT_def word_unat_eq_iff unsigned_take_bit_eq
        take_bit_eq_mod [where 'a = nat])
qed

lemma low_idx:
  assumes "x < 2 ^ 30"
  shows "mmu_get_table_idx (of_nat x) =
    [0, 0, of_nat (x div 0x200000), of_nat (x div 0x1000 mod 512)]"
proof -
  have x: "unat (of_nat x :: u64) = x" using assms by (intro unat_word) simp
  have d: "drop_bit n (of_nat x :: u64) = of_nat (x div 2 ^ n)" for n
  proof -
    have "unat (drop_bit n (of_nat x :: u64)) = x div 2 ^ n"
      by (simp only: unat_drop_bit_eq x drop_bit_eq_div [where 'a = nat])
    moreover have "unat (of_nat (x div 2 ^ n) :: u64) = x div 2 ^ n"
      using assms by (intro unat_word le_less_trans [OF div_le_dividend]) simp
    ultimately show ?thesis by (simp only: word_unat_eq_iff)
  qed
  have m: "(of_nat y :: u64) AND 0x1ff = of_nat (y mod 512)" for y
  proof -
    have "(of_nat y :: u64) AND 0x1ff = take_bit 9 (of_nat y)"
      by (simp add: take_bit_eq_mask mask_eq_exp_minus_1)
    also have "\<dots> = of_nat (take_bit 9 y)" by (rule take_bit_of_nat)
    also have "take_bit 9 y = y mod 512" by (simp only: take_bit_eq_mod) simp
    finally show ?thesis .
  qed
  have "x div 2 ^ 39 = 0" "x div 2 ^ 30 = 0" "x div 0x200000 mod 512 = x div 0x200000"
    using assms by auto
  then show ?thesis by (simp only: mmu_get_table_idx_def d m) simp
qed

lemma entry_facts:
  assumes "p = push_bit 12 (of_nat j)" "j < 2 ^ 36" "attr AND VADDR_MASK = 0" "bit attr 0"
  shows "mmu_is_valid (p OR attr)" and "(p OR attr) AND VADDR_MASK = p"
    and "mmu_is_block (p OR attr) \<longleftrightarrow> \<not> bit attr 1" and "(p OR attr) AND NOT VADDR_MASK = attr"
proof -
  have "unat (of_nat j :: u64) < 2 ^ 36" using assms(2) unat_word [of j] by simp
  then have j: "n < 36" if "bit (of_nat j :: u64) n" for n
    using small_bits that by blast
  have mask: "VADDR_MASK = push_bit 12 (mask 36)" by (simp add: layout_simps mask_eq_exp_minus_1)
  have p: "p AND VADDR_MASK = p"
    unfolding mask assms(1) using j by (intro bit_word_eqI) (auto simp: bit_simps)
  have "(p OR attr) AND VADDR_MASK = (p AND VADDR_MASK) OR (attr AND VADDR_MASK)"
    by (simp add: bit.conj_disj_distrib2)
  with p assms(3) show m: "(p OR attr) AND VADDR_MASK = p" by simp
  have "p AND NOT VADDR_MASK = 0" using p by (metis bit.conj_cancel_right and.assoc and_zero_eq)
  moreover have "attr = (attr AND VADDR_MASK) OR (attr AND NOT VADDR_MASK)"
    by (intro bit_word_eqI) (auto simp: bit_simps)
  then have "attr AND NOT VADDR_MASK = attr" using assms(3) by simp
  ultimately show "(p OR attr) AND NOT VADDR_MASK = attr"
    by (simp add: bit.conj_disj_distrib2)
  have "\<not> bit p 0" "\<not> bit p 1" by (simp_all add: assms(1) bit_simps)
  then have "bit (p OR attr) 0" "bit (p OR attr) 1 \<longleftrightarrow> bit attr 1"
    using assms(4) by (simp_all add: bit_or_iff)
  then show "mmu_is_valid (p OR attr)" "mmu_is_block (p OR attr) \<longleftrightarrow> \<not> bit attr 1"
    by (simp_all add: valid_bit block_bit)
qed

lemma attr_facts [simp]:
  "ATTR_RW AND VADDR_MASK = 0" "ATTR_TEXT AND VADDR_MASK = 0" "ATTR_RD AND VADDR_MASK = 0"
  "ATTR_MMIO AND VADDR_MASK = 0" "bit ATTR_RW 0" "bit ATTR_TEXT 0" "bit ATTR_RD 0" "bit ATTR_MMIO 0"
  "bit ATTR_RW (Suc 0)" "bit ATTR_TEXT (Suc 0)" "\<not> bit ATTR_RD (Suc 0)" "\<not> bit ATTR_MMIO (Suc 0)"
  by (simp_all add: layout_simps)

text \<open>The entries that point to the tables of the next level.\<close>

lemma table_ptr:
  assumes "q < 512"
  shows "table_entry (page_addr q) AND VADDR_MASK = page_addr q"
    and "mmu_is_valid (table_entry (page_addr q))" "\<not> mmu_is_block (table_entry (page_addr q))"
    and "utable_entry (page_addr q) AND VADDR_MASK = page_addr q"
    and "mmu_is_valid (utable_entry (page_addr q))" "\<not> mmu_is_block (utable_entry (page_addr q))"
proof -
  have p: "page_addr q = push_bit 12 (of_nat (q + 128))"
    by (simp add: page_addr_def push_bit_eq_mult layout_simps algebra_simps)
  have a: "(ATT_VALID OR ATT_PAGE OR ATT_AF_SET) AND VADDR_MASK = 0"
    "bit (ATT_VALID OR ATT_PAGE OR ATT_AF_SET) 0" "bit (ATT_VALID OR ATT_PAGE OR ATT_AF_SET) 1"
    "(ATT_VALID OR ATT_PAGE) AND VADDR_MASK = 0"
    "bit (ATT_VALID OR ATT_PAGE) 0" "bit (ATT_VALID OR ATT_PAGE) 1"
    by (simp_all add: layout_simps)
  have q: "q + 128 < 2 ^ 36" using assms by simp
  note k = entry_facts [OF p q a(1,2)] and u = entry_facts [OF p q a(4,5)]
  have t: "table_entry (page_addr q) = page_addr q OR (ATT_VALID OR ATT_PAGE OR ATT_AF_SET)"
    "utable_entry (page_addr q) = page_addr q OR (ATT_VALID OR ATT_PAGE)"
    by (simp_all add: table_entry_def utable_entry_def or.assoc)
  show "table_entry (page_addr q) AND VADDR_MASK = page_addr q"
    "mmu_is_valid (table_entry (page_addr q))" "\<not> mmu_is_block (table_entry (page_addr q))"
    "utable_entry (page_addr q) AND VADDR_MASK = page_addr q"
    "mmu_is_valid (utable_entry (page_addr q))" "\<not> mmu_is_block (utable_entry (page_addr q))"
    unfolding t using k u a by simp_all
qed

lemma page_leaf:
  assumes "j < 2 ^ 36" "attr AND VADDR_MASK = 0" "bit attr 0" "bit attr 1"
  shows "mmu_is_valid (of_nat j * 0x1000 OR attr)" "\<not> mmu_is_block (of_nat j * 0x1000 OR attr)"
    and "walk_leaf (of_nat j * 0x1000 OR attr) va m = Some (of_nat j * 0x1000 + (va AND m), attr)"
proof -
  have p: "of_nat j * 0x1000 = (push_bit 12 (of_nat j) :: u64)" by (simp add: push_bit_eq_mult)
  note e = entry_facts [OF p assms(1,2,3)]
  show "mmu_is_valid (of_nat j * 0x1000 OR attr)" "\<not> mmu_is_block (of_nat j * 0x1000 OR attr)"
    "walk_leaf (of_nat j * 0x1000 OR attr) va m = Some (of_nat j * 0x1000 + (va AND m), attr)"
    using e assms(4) by (simp_all add: walk_leaf_def)
qed

lemma block_leaf:
  assumes "j < 2 ^ 27" "attr AND VADDR_MASK = 0" "bit attr 0" "\<not> bit attr 1"
  shows "mmu_is_valid (of_nat j * 0x200000 OR attr)" "mmu_is_block (of_nat j * 0x200000 OR attr)"
    and "walk_leaf (of_nat j * 0x200000 OR attr) va m = Some (of_nat j * 0x200000 + (va AND m), attr)"
proof -
  have p: "of_nat j * 0x200000 = (push_bit 12 (of_nat (512 * j)) :: u64)"
    by (simp add: push_bit_eq_mult)
  have "512 * j < 2 ^ 36" using assms(1) by simp
  note e = entry_facts [OF p this assms(2,3)]
  show "mmu_is_valid (of_nat j * 0x200000 OR attr)" "mmu_is_block (of_nat j * 0x200000 OR attr)"
    "walk_leaf (of_nat j * 0x200000 OR attr) va m = Some (of_nat j * 0x200000 + (va AND m), attr)"
    using e assms(4) by (simp_all add: walk_leaf_def)
qed

lemma zero_entry [simp]: "\<not> mmu_is_valid 0"
  by (simp add: mmu_is_valid_def)

lemma offset_and:
  assumes "x < 2 ^ 30"
  shows "of_nat (x div 0x1000) * 0x1000 + ((of_nat x :: u64) AND 0xfff) = of_nat x"
    and "of_nat (x div 0x200000) * 0x200000 + ((of_nat x :: u64) AND 0x1fffff) = of_nat x"
proof -
  have m: "(of_nat x :: u64) AND mask n = of_nat (x mod 2 ^ n)" for n
  proof -
    have "(of_nat x :: u64) AND mask n = take_bit n (of_nat x)" by (simp add: take_bit_eq_mask)
    also have "\<dots> = of_nat (take_bit n x)" by (rule take_bit_of_nat)
    also have "take_bit n x = x mod 2 ^ n" by (rule take_bit_eq_mod)
    finally show ?thesis .
  qed
  have d: "of_nat (x div 2 ^ n) * 2 ^ n + (of_nat (x mod 2 ^ n) :: u64) = of_nat x" for n
    by (metis div_mult_mod_eq of_nat_add of_nat_mult of_nat_numeral of_nat_power)
  show "of_nat (x div 0x1000) * 0x1000 + ((of_nat x :: u64) AND 0xfff) = of_nat x"
    using m [of 12] d [of 12] by (simp add: mask_eq_exp_minus_1)
  show "of_nat (x div 0x200000) * 0x200000 + ((of_nat x :: u64) AND 0x1fffff) = of_nat x"
    using m [of 21] d [of 21] by (simp add: mask_eq_exp_minus_1)
qed

text \<open>
  What the two tables have to map below 1 GiB: the kernel sees the pages from its stack to the end of
  the tables, the RAM disk and the peripherals; the user table has the kernel's own pages only.
\<close>

definition boot_perm :: "nat \<Rightarrow> nat \<Rightarrow> u64" where
  "boot_perm t x = (if 0x80000 \<le> x \<and> x < 0x80000 + 0x1000 * t then ATTR_TEXT else ATTR_RW)"

definition boot_kernel_map :: "nat \<Rightarrow> nat \<Rightarrow> nat \<Rightarrow> (u64 \<times> u64) option" where
  "boot_kernel_map t k x =
     (if 0x7f000 \<le> x \<and> x < 0x80000 + 0x1000 * (k + 8) then Some (of_nat x, boot_perm t x)
      else if 0x3f000000 \<le> x then Some (of_nat x, ATTR_MMIO)
      else if 0x3e000000 \<le> x then Some (of_nat x, ATTR_RD) else None)"

definition boot_user_map :: "nat \<Rightarrow> nat \<Rightarrow> nat \<Rightarrow> (u64 \<times> u64) option" where
  "boot_user_map t k x =
     (if 0x7f000 \<le> x \<and> x < 0x80000 + 0x1000 * k then Some (of_nat x, boot_perm t x) else None)"

lemma cells_tcell:
  "cells s (entry_at (page_addr (k + n)) (of_nat j)) = tcell (page_addr k) s n j"
  by (simp add: tcell_def entry_slot flip: setup_table_page)

lemma walk_page:
  assumes "x < 0x200000" "x div 0x1000 = j"
  shows "j < 512 \<and> x div 0x1000 mod 512 = j \<and>
    walk_leaf (of_nat j * 0x1000 OR ATTR_RW) (of_nat x) 0xfff = Some (of_nat x, ATTR_RW) \<and>
    walk_leaf (of_nat j * 0x1000 OR ATTR_TEXT) (of_nat x) 0xfff = Some (of_nat x, ATTR_TEXT)"
proof -
  have j: "j < 512" using assms by auto
  then have "j < 2 ^ 36" by simp
  with page_leaf(3) [of j] offset_and(1) [of x] assms j show ?thesis by simp
qed

text \<open>An entry that points to the table at \<open>l\<close>.\<close>

definition points_on :: "u64 \<Rightarrow> u64 \<Rightarrow> bool" where
  "points_on e l \<longleftrightarrow> mmu_is_valid e \<and> \<not> mmu_is_block e \<and> e AND VADDR_MASK = l"

lemma table_leads:
  assumes "q < 512"
  shows "points_on (table_entry (page_addr q)) (page_addr q)"
    and "points_on (utable_entry (page_addr q)) (page_addr q)"
  using table_ptr [OF assms] by (simp_all add: points_on_def)

lemma walk_level2:
  assumes "mmu_get_table_idx va = [0, 0, j, i]" "points_on (c (entry_at l0 0)) l1"
    "points_on (c (entry_at l1 0)) l2" "c (entry_at l2 j) = e2"
  shows "\<not> mmu_is_valid e2 \<Longrightarrow> pt_walk c l0 va = None"
    and "mmu_is_valid e2 \<Longrightarrow> mmu_is_block e2 \<Longrightarrow> pt_walk c l0 va = walk_leaf e2 va 0x1fffff"
    and "points_on e2 l3 \<Longrightarrow> pt_walk c l0 va =
      (if mmu_is_valid (c (entry_at l3 i)) \<and> \<not> mmu_is_block (c (entry_at l3 i))
       then walk_leaf (c (entry_at l3 i)) va 0xfff else None)"
  using assms by (simp_all add: pt_walk_def points_on_def)

text \<open>A level 3 table whose entries from 127 up to \<open>hi\<close> map the pages of the same number.\<close>

lemma walk_level3:
  assumes "x < 0x200000" "t \<le> hi"
    and "e3 = (if 127 \<le> x div 0x1000 \<and> x div 0x1000 < hi + 128
      then of_nat (x div 0x1000) * 0x1000 OR
        (if 128 \<le> x div 0x1000 \<and> x div 0x1000 < t + 128 then ATTR_TEXT else ATTR_RW) else 0)"
  shows "(if mmu_is_valid e3 \<and> \<not> mmu_is_block e3 then walk_leaf e3 (of_nat x) 0xfff else None) =
    (if 0x7f000 \<le> x \<and> x < 0x80000 + 0x1000 * hi then Some (of_nat x, boot_perm t x) else None)"
proof -
  have range: "127 \<le> x div 0x1000 \<and> x div 0x1000 < hi + 128 \<longleftrightarrow>
      0x7f000 \<le> x \<and> x < 0x80000 + 0x1000 * hi"
    and tx: "128 \<le> x div 0x1000 \<and> x div 0x1000 < t + 128 \<longleftrightarrow>
      0x80000 \<le> x \<and> x < 0x80000 + 0x1000 * t"
    by (auto simp: less_eq_div_iff_mult_less_eq div_less_iff_less_mult)
  have "x div 0x1000 < 512" using walk_page [OF assms(1) refl] by simp
  then have small: "x div 0x1000 < 2 ^ 36" by simp
  show ?thesis
  proof (cases "127 \<le> x div 0x1000 \<and> x div 0x1000 < hi + 128")
    case True
    then have "e3 = of_nat (x div 0x1000) * 0x1000 OR boot_perm t x"
      unfolding assms(3) boot_perm_def tx by simp
    moreover have "boot_perm t x = ATTR_RW \<or> boot_perm t x = ATTR_TEXT" by (simp add: boot_perm_def)
    ultimately show ?thesis
      using True [unfolded range] walk_page [OF assms(1) refl]
        page_leaf(1,2) [OF small, of ATTR_RW] page_leaf(1,2) [OF small, of ATTR_TEXT]
      by auto
  next
    case False
    then have "e3 = 0" unfolding assms(3) by (rule if_not_P)
    with False [unfolded range] show ?thesis by auto
  qed
qed

lemma boot_kernel_walk:
  assumes tc: "\<And>n j. n < 8 \<Longrightarrow> j < 512 \<Longrightarrow> tcell (page_addr k) s n j = boot_cell t k n j"
    and k: "t \<le> k" "k + 136 \<le> 512" and x: "x < 0x40000000"
  shows "pt_walk (cells s) (page_addr k) (of_nat x) = boot_kernel_map t k x"
proof -
  let ?j = "x div 0x200000" and ?i = "x div 0x1000 mod 512"
  have x30: "x < 2 ^ 30" using x by simp
  have j: "?j < 512" using x by auto
  have c0: "points_on (cells s (entry_at (page_addr k) 0)) (page_addr (k + 1))"
    using cells_tcell [of s k 0 0] tc [of 0 0] table_leads [of "k + 1"] k
    by (simp add: boot_cell_def kernel_cell_def setup_table_page)
  have c1: "points_on (cells s (entry_at (page_addr (k + 1)) 0)) (page_addr (k + 2))"
    using cells_tcell [of s k 1 0] tc [of 1 0] table_leads [of "k + 2"] k
    by (simp add: boot_cell_def kernel_cell_def setup_table_page numeral_2_eq_2)
  have c2: "cells s (entry_at (page_addr (k + 2)) (of_nat ?j)) = boot_cell t k 2 ?j"
    using cells_tcell [of s k 2 ?j] tc [of 2 ?j] j by simp
  note walk = walk_level2 [OF low_idx [OF x30] c0 c1 c2]
  have blk: "boot_cell t k 2 ?j = of_nat ?j * 0x200000 OR (if 504 \<le> ?j then ATTR_MMIO else ATTR_RD)"
    if "496 \<le> ?j"
    using that by (simp add: boot_cell_def of_nat_diff algebra_simps)
  have j27: "?j < 2 ^ 27" using j by simp
  have high: "\<not> x < 0x80000 + 0x1000 * (k + 8)" if "0 < ?j"
  proof -
    from that have "0x200000 \<le> x" by (simp add: div_greater_zero_iff)
    with k show ?thesis by simp
  qed
  consider (dev) "504 \<le> ?j" | (rd) "496 \<le> ?j" "?j < 504" | (gap) "0 < ?j" "?j < 496" | (low) "?j = 0"
    by linarith
  then show ?thesis
  proof cases
    case dev
    then have "0x3f000000 \<le> x" by auto
    then show ?thesis
      using dev blk block_leaf [OF j27, of ATTR_MMIO] offset_and(2) [OF x30] walk(2) high
      by (simp add: boot_kernel_map_def)
  next
    case rd
    then have "0x3e000000 \<le> x" "x < 0x3f000000" by auto
    then show ?thesis
      using rd blk block_leaf [OF j27, of ATTR_RD] offset_and(2) [OF x30] walk(2) high
      by (simp add: boot_kernel_map_def)
  next
    case gap
    then have "x < 0x3e000000" by auto
    moreover have "boot_cell t k 2 ?j = 0" using gap by (simp add: boot_cell_def kernel_cell_def)
    ultimately show ?thesis using walk(1) high gap(1) by (simp add: boot_kernel_map_def)
  next
    case low
    then have x2: "x < 0x200000" by (simp add: div_eq_0_iff)
    then have i: "?i = x div 0x1000" "?i < 512" using walk_page [OF x2 refl] by simp_all
    have "boot_cell t k 2 ?j = table_entry (page_addr (k + 3))"
      using low by (simp add: boot_cell_def kernel_cell_def setup_table_page numeral_3_eq_3
          numeral_2_eq_2)
    then have "points_on (boot_cell t k 2 ?j) (page_addr (k + 3))"
      using table_leads(1) [of "k + 3"] k by simp
    note w = walk(3) [OF this]
    have e3: "cells s (entry_at (page_addr (k + 3)) (of_nat ?i)) =
        (if 127 \<le> x div 0x1000 \<and> x div 0x1000 < k + 8 + 128
         then of_nat (x div 0x1000) * 0x1000 OR
           (if 128 \<le> x div 0x1000 \<and> x div 0x1000 < t + 128 then ATTR_TEXT else ATTR_RW) else 0)"
      using cells_tcell [of s k 3 ?i] tc [of 3 ?i] i by (simp add: boot_cell_def kernel_cell_def)
    have "t \<le> k + 8" using k by simp
    then show ?thesis
      using w walk_level3 [OF x2 _ e3] x2 by (simp add: boot_kernel_map_def)
  qed
qed

lemma boot_user_walk:
  assumes tc: "\<And>n j. n < 8 \<Longrightarrow> j < 512 \<Longrightarrow> tcell (page_addr k) s n j = boot_cell t k n j"
    and k: "t \<le> k" "k + 136 \<le> 512" and x: "x < 0x40000000"
  shows "pt_walk (cells s) (page_addr (k + 4)) (of_nat x) = boot_user_map t k x"
proof -
  let ?j = "x div 0x200000" and ?i = "x div 0x1000 mod 512"
  have x30: "x < 2 ^ 30" using x by simp
  have j: "?j < 512" using x by auto
  have c0: "points_on (cells s (entry_at (page_addr (k + 4)) 0)) (page_addr (k + 5))"
    using cells_tcell [of s k 4 0] tc [of 4 0] table_leads [of "k + 5"] k
    by (simp add: boot_cell_def user_cell_def setup_table_page)
  have c1: "points_on (cells s (entry_at (page_addr (k + 5)) 0)) (page_addr (k + 6))"
    using cells_tcell [of s k 5 0] tc [of 5 0] table_leads [of "k + 6"] k
    by (simp add: boot_cell_def user_cell_def setup_table_page)
  have c2: "cells s (entry_at (page_addr (k + 6)) (of_nat ?j)) = boot_cell t k 6 ?j"
    using cells_tcell [of s k 6 ?j] tc [of 6 ?j] j by simp
  note walk = walk_level2 [OF low_idx [OF x30] c0 c1 c2]
  show ?thesis
  proof (cases "?j = 0")
    case False
    then have "0x200000 \<le> x" by (simp add: div_eq_0_iff)
    with k have "\<not> x < 0x80000 + 0x1000 * k" by simp
    moreover have "boot_cell t k 6 ?j = 0" using False by (simp add: boot_cell_def user_cell_def)
    ultimately show ?thesis using walk(1) by (simp add: boot_user_map_def)
  next
    case low: True
    then have x2: "x < 0x200000" by (simp add: div_eq_0_iff)
    then have i: "?i = x div 0x1000" "?i < 512" using walk_page [OF x2 refl] by simp_all
    have "boot_cell t k 6 ?j = utable_entry (page_addr (k + 7))"
      using low by (simp add: boot_cell_def user_cell_def setup_table_page)
    then have "points_on (boot_cell t k 6 ?j) (page_addr (k + 7))"
      using table_leads(2) [of "k + 7"] k by simp
    note w = walk(3) [OF this]
    have e3: "cells s (entry_at (page_addr (k + 7)) (of_nat ?i)) =
        (if 127 \<le> x div 0x1000 \<and> x div 0x1000 < k + 128
         then of_nat (x div 0x1000) * 0x1000 OR
           (if 128 \<le> x div 0x1000 \<and> x div 0x1000 < t + 128 then ATTR_TEXT else ATTR_RW) else 0)"
      using cells_tcell [of s k 7 ?i] tc [of 7 ?i] i by (simp add: boot_cell_def user_cell_def)
    show ?thesis using w walk_level3 [OF x2 k(1) e3] by (simp add: boot_user_map_def)
  qed
qed

subsection \<open>Marks behind the page map\<close>

lemma map_blocks_overrun:
  assumes "pmm_wf (pmap s)"
  shows "map_blocks e MEM_RD ATTR_RD 504 496 0 s = None"
proof -
  have "setup_mark (MEM_VIRT_TO_PHYS MEM_RD) s' = None" if "pmap s' = pmap s" for s'
    using pmm_mark_out_of_bounds [of "pmap s" "MEM_VIRT_TO_PHYS MEM_RD"] assms that
    by (simp add: setup_mark_def MEM_VIRT_TO_PHYS_def layout_simps)
  then show ?thesis
    by (subst map_blocks.simps, subst mark_block.simps) (simp add: layout_simps)
qed

lemma setup_mark_wf: "setup_mark a s = Some s' \<Longrightarrow> pmm_wf (pmap s) \<Longrightarrow> pmm_wf (pmap s')"
  by (auto simp: setup_mark_def pmm_mark_def pmm_wf_def Let_def wr_at_def split: bind_splits if_splits)

lemma setup_mark_all_wf:
  "setup_mark_all as s = Some s' \<Longrightarrow> pmm_wf (pmap s) \<Longrightarrow> pmm_wf (pmap s')"
  by (induction as arbitrary: s) (auto dest: setup_mark_wf split: bind_splits)

lemma map_segment_wf:
  "map_segment e b a n i m s = Some (m', s') \<Longrightarrow> pmm_wf (pmap s) \<Longrightarrow> pmm_wf (pmap s')"
proof (induction e b a n i m s rule: map_segment.induct)
  case (1 e b a n i m s)
  show ?case
  proof (cases "i < n")
    case True
    with 1(2) obtain s1 where s1: "setup_mark (b + of_nat i * PAGESIZE)
        (map_both e m ((b + of_nat i * PAGESIZE) OR a) s) = Some s1"
        "map_segment e b a n (i + 1) (m + 1) s1 = Some (m', s')"
      by (auto simp: map_segment.simps [of e b a n i m s] Let_def split: bind_splits)
    have "pmm_wf (pmap s1)" using setup_mark_wf [OF s1(1)] 1(3) by (simp add: map_both_def)
    with 1(1) [OF True refl s1(1)] s1(2) show ?thesis by simp
  next
    case False
    with 1(2,3) show ?thesis by (simp add: map_segment.simps [of e b a n i m s])
  qed
qed

text \<open>
  The first mark of the RAM disk lies behind the page map, whatever the size of the kernel:
  started with the array as it is declared, \<open>mmu_setup\<close> writes outside it.
\<close>
lemma mmu_setup_overruns:
  assumes "pmm_wf (pmap s)"
  shows "mmu_setup data_start data_end s = None"
proof (cases "do { s1 \<leftarrow> mmu_setup_kernel_tables data_end s;
    s2 \<leftarrow> mmu_setup_user_tables data_end s1;
    mmu_setup_kernel_pages data_start data_end s2 }")
  case None
  then show ?thesis by (auto simp: mmu_setup_def split: bind_splits)
next
  case (Some r)
  then obtain s1 s2 m s3 where
      1: "mmu_setup_kernel_tables data_end s = Some s1" "mmu_setup_user_tables data_end s1 = Some s2"
        "mmu_setup_kernel_pages data_start data_end s2 = Some (m, s3)"
    by (cases r) (auto split: bind_splits)
  have "pmm_wf (pmap s1)" using 1(1) assms
    by (auto simp: mmu_setup_kernel_tables_def zero_pages_def Let_def split: bind_splits
        simp del: setup_mark_all.simps dest: setup_mark_all_wf)
  then have "pmm_wf (pmap s2)" using 1(2)
    by (auto simp: mmu_setup_user_tables_def zero_pages_def Let_def split: bind_splits
        simp del: setup_mark_all.simps dest: setup_mark_all_wf)
  then have "pmm_wf (pmap s3)" using 1(3)
    by (auto simp: mmu_setup_kernel_pages_def Let_def map_both_def split: bind_splits
        dest!: map_segment_wf)
  with 1 map_blocks_overrun show ?thesis by (simp add: mmu_setup_def)
qed

subsection \<open>Properties\<close>

text \<open>
  C35. Let the kernel's text end at page \<open>t\<close> and its data at page \<open>k\<close> of the page map, and let it fit
  into the level 3 table with its own tables (\<open>k + 136 \<le> 512\<close>). With memory behind the page map
  \<open>mmu_setup\<close> returns, and both tables translate as they should: the kernel's part of the address
  space is the linear map of the kernel's pages, the tables, the RAM disk and the peripherals and of
  nothing else below 1 GiB, the text read only and executable, everything else writable and not
  executable; the user table maps the kernel's pages to themselves, out of reach of the user.
\<close>
theorem mmu_setup_translates:
  assumes "t \<le> k" "k + 136 \<le> 512" "4031 \<le> length (pmap s)"
    and "data_start = MEM_LOW + of_nat t * PAGESIZE" "data_end = MEM_LOW + of_nat k * PAGESIZE"
  shows "\<exists>k0 u0 s'. mmu_setup data_start data_end s = Some (k0, u0, s') \<and>
    (\<forall>x<0x40000000. pt_walk (cells s') k0 (MEM_PHYS_TO_VIRT (of_nat x)) = boot_kernel_map t k x \<and>
       pt_walk (cells s') u0 (of_nat x) = boot_user_map t k x)"
proof -
  have e: "data_start = page_addr t" "data_end = page_addr k"
    by (simp_all add: assms(4,5) page_addr_def)
  from mmu_setup_closed [OF assms(1,2,3)] obtain s' where
      s': "mmu_setup data_start data_end s = Some (page_addr k, page_addr (k + 4), s')"
      and tc: "\<And>n j. n < 8 \<Longrightarrow> j < 512 \<Longrightarrow> tcell (page_addr k) s' n j = boot_cell t k n j"
    unfolding e by blast
  show ?thesis
    using s' boot_kernel_walk [OF tc assms(1,2)] boot_user_walk [OF tc assms(1,2)]
    by (intro exI conjI allI impI) (assumption | simp add: walk_linear)+
qed

lemma mmu_setup_translates_witness:
  "\<exists>k0 u0 s'. mmu_setup 0x90000 0xa0000 \<lparr>cells = \<lambda>a. a, pmap = replicate 4031 0\<rparr> = Some (k0, u0, s') \<and>
     pt_walk (cells s') k0 0xffff000000080004 = Some (0x80004, ATTR_TEXT) \<and>
     pt_walk (cells s') k0 0xffff00003f201000 = Some (0x3f201000, ATTR_MMIO) \<and>
     pt_walk (cells s') u0 0xa0000 = None"
proof -
  from mmu_setup_translates [of 16 32 "\<lparr>cells = \<lambda>a. a, pmap = replicate 4031 0\<rparr>" "0x90000" "0xa0000"]
  obtain k0 u0 s' where
      r: "mmu_setup 0x90000 0xa0000 \<lparr>cells = \<lambda>a. a, pmap = replicate 4031 0\<rparr> = Some (k0, u0, s')"
      and w: "\<And>x. x < 0x40000000 \<Longrightarrow>
        pt_walk (cells s') k0 (MEM_PHYS_TO_VIRT (of_nat x)) = boot_kernel_map 16 32 x \<and>
        pt_walk (cells s') u0 (of_nat x) = boot_user_map 16 32 x"
    by (auto simp: layout_simps)
  from w [of "0x80004"] w [of "0x3f201000"] w [of "0xa0000"] r show ?thesis
    by (simp add: MEM_PHYS_TO_VIRT_def layout_simps boot_kernel_map_def boot_user_map_def
        boot_perm_def)
qed

text \<open>
  C36. What \<open>mmu_setup\<close> marks as taken: the kernel's pages and the eight tables, and of the RAM disk
  and the peripherals only the first page each. Those two pages are bits of the words 3966 and 4030,
  both behind the array of 3965 words.
\<close>
theorem mmu_setup_marks:
  assumes "t \<le> k" "k + 136 \<le> 512" "4031 \<le> length (pmap s)"
    and "data_start = MEM_LOW + of_nat t * PAGESIZE" "data_end = MEM_LOW + of_nat k * PAGESIZE"
  shows "\<exists>k0 u0 s'. mmu_setup data_start data_end s = Some (k0, u0, s') \<and>
    length (pmap s') = length (pmap s) \<and>
    (\<forall>q. marked (pmap s') q \<longleftrightarrow> marked (pmap s) q \<or> q < k + 8 \<or>
       q = 64 * 3966 \<or> q = 64 * 4030) \<and> MEM_MAP_SIZE < 3966"
proof -
  have e: "data_start = page_addr t" "data_end = page_addr k"
    by (simp_all add: assms(4,5) page_addr_def)
  from mmu_setup_closed [OF assms(1,2,3)] show ?thesis
    unfolding e by (auto simp: adds_marks_def MEM_MAP_SIZE_eq)
qed

lemma mmu_setup_marks_witness:
  "\<exists>k0 u0 s'. mmu_setup 0x90000 0xa0000 \<lparr>cells = \<lambda>a. a, pmap = replicate 4031 0\<rparr> = Some (k0, u0, s') \<and>
     marked (pmap s') 39 \<and> \<not> marked (pmap s') 40 \<and> marked (pmap s') (64 * 4030)"
proof -
  from mmu_setup_marks [of 16 32 "\<lparr>cells = \<lambda>a. a, pmap = replicate 4031 0\<rparr>" "0x90000" "0xa0000"]
  obtain k0 u0 s' where
      r: "mmu_setup 0x90000 0xa0000 \<lparr>cells = \<lambda>a. a, pmap = replicate 4031 0\<rparr> = Some (k0, u0, s')"
      and w: "\<And>q. marked (pmap s') q \<longleftrightarrow> marked (replicate 4031 0) q \<or> q < 40 \<or>
        q = 64 * 3966 \<or> q = 64 * 4030"
    by (auto simp: layout_simps)
  have "\<not> marked (replicate 4031 0) q" for q by (simp add: marked_def)
  with r w [of 39] w [of 40] w [of "64 * 4030"] show ?thesis by simp
qed

end
