(* ===== verification/Kernel_String.thy ===== *)
theory Kernel_String
  imports Kernel_Defs
begin

text \<open>
  \<^verbatim>\<open>kernel/string.c\<close>. A pointer argument is the list of bytes from the pointer to the end of
  its object; reading or writing past that end is \<open>None\<close>. \<open>char\<close> is unsigned on AArch64, so the
  difference of two characters is taken on \<open>unat\<close>. The names carry the suffix \<open>_k\<close> because the C
  library has its own versions of these functions.
\<close>

fun memcmp_k :: "bytes \<Rightarrow> bytes \<Rightarrow> nat \<Rightarrow> int option" where
  "memcmp_k (l # ls) (r # rs) n =
     (if l = r \<and> n \<noteq> 0 then memcmp_k ls rs (n - 1)
      else Some (if n \<noteq> 0 then char_diff l r else 0))"
| "memcmp_k _ _ _ = None"

fun memcpy_k :: "bytes \<Rightarrow> bytes \<Rightarrow> nat \<Rightarrow> bytes option" where
  "memcpy_k dest src 0 = Some dest"
| "memcpy_k (d # ds) (s # ss) (Suc n) = map_option ((#) s) (memcpy_k ds ss n)"
| "memcpy_k _ _ _ = None"

fun memset_k :: "bytes \<Rightarrow> u8 \<Rightarrow> nat \<Rightarrow> bytes option" where
  "memset_k s c 0 = Some s"
| "memset_k (x # s) c (Suc n) = map_option ((#) c) (memset_k s c n)"
| "memset_k [] c (Suc n) = None"

text \<open>\<open>while (--n && ...)\<close>: the count is a \<open>size_t\<close> and wraps when it starts at 0.\<close>

fun strncmp_k :: "bytes \<Rightarrow> bytes \<Rightarrow> u64 \<Rightarrow> int option" where
  "strncmp_k (l # ls) (r # rs) n =
     (let n' = n - 1 in
      if n' \<noteq> 0 \<and> l \<noteq> 0 \<and> r \<noteq> 0 \<and> l = r then strncmp_k ls rs n'
      else Some (char_diff l r))"
| "strncmp_k _ _ _ = None"

fun strlen_k :: "bytes \<Rightarrow> nat option" where
  "strlen_k [] = None"
| "strlen_k (c # s) = (if c = 0 then Some 0 else map_option Suc (strlen_k s))"

fun strlcpy_loop :: "bytes \<Rightarrow> bytes \<Rightarrow> nat \<Rightarrow> bytes option" where
  "strlcpy_loop [] s n = None"
| "strlcpy_loop (d # ds) s 0 = Some (0 # ds)"
| "strlcpy_loop (d # ds) [] (Suc n) = None"
| "strlcpy_loop (d # ds) (c # s) (Suc n) =
     (if c \<noteq> 0 then map_option ((#) c) (strlcpy_loop ds s n) else Some (0 # ds))"

definition strlcpy_k :: "bytes \<Rightarrow> bytes \<Rightarrow> nat \<Rightarrow> (nat \<times> bytes) option" where
  "strlcpy_k dst src sz = do {
     dst' \<leftarrow> strlcpy_loop dst src sz;
     len \<leftarrow> strlen_k src;
     Some (len, dst') }"

fun strhash_loop :: "u64 \<Rightarrow> bytes \<Rightarrow> u64 option" where
  "strhash_loop hash [] = None"
| "strhash_loop hash (c # s) =
     (if c = 0 then Some hash
      else strhash_loop ((hash XOR ucast c) * 0x00000100000001B3) s)"

definition strhash :: "bytes \<Rightarrow> u64 option" where
  "strhash s = strhash_loop 0xcbf29ce484222325 s"

subsection \<open>Closed forms\<close>

lemma strlen_k_eq [loop_simps]:
  "strlen_k s = (if terminated s then Some (length (c_str s)) else None)"
  by (induction s) auto

lemma memcpy_k_eq [loop_simps]:
  "memcpy_k d s n =
     (if n \<le> length d \<and> n \<le> length s then Some (take n s @ drop n d) else None)"
  by (induction d s n rule: memcpy_k.induct) (auto split: if_splits)

lemma memset_k_eq [loop_simps]:
  "memset_k s c n = (if n \<le> length s then Some (replicate n c @ drop n s) else None)"
  by (induction s c n rule: memset_k.induct) auto

lemma strlcpy_loop_eq:
  assumes "terminated s"
  shows "strlcpy_loop d s n =
     (let m = min n (length (c_str s)) in
      if m < length d then Some (take m (c_str s) @ 0 # drop (Suc m) d) else None)"
  using assms
proof (induction d s n rule: strlcpy_loop.induct)
  case (4 d ds c s n)
  then show ?case by (auto simp: Let_def)
qed (auto simp: Let_def)

lemma strhash_loop_eq:
  "terminated s \<Longrightarrow>
   strhash_loop h s = Some (foldl (\<lambda>h c. (h XOR ucast c) * 0x00000100000001B3) h (c_str s))"
  by (induction s arbitrary: h) auto

text \<open>The first position where two lists differ decides a comparison.\<close>

lemma memcmp_k_zero:
  assumes "n < length l" "n < length r"
  shows "\<exists>d. memcmp_k l r n = Some d \<and> (d = 0 \<longleftrightarrow> take n l = take n r)"
  using assms
proof (induction l r n rule: memcmp_k.induct)
  case (1 l ls r rs n)
  show ?case
  proof (cases "l = r \<and> n \<noteq> 0")
    case True
    then obtain m where "n = Suc m" by (cases n) auto
    with 1 True show ?thesis by simp
  next
    case False
    then show ?thesis by (cases n) auto
  qed
qed auto

lemma memcmp_k_differ:
  assumes "i < n" "i < length l" "i < length r" "take i l = take i r" "l ! i \<noteq> r ! i"
  shows "memcmp_k l r n = Some (char_diff (l ! i) (r ! i))"
  using assms
proof (induction l r n arbitrary: i rule: memcmp_k.induct)
  case (1 l ls r rs n)
  show ?case
  proof (cases i)
    case 0
    with 1 show ?thesis by auto
  next
    case (Suc j)
    then have "l = r" "n \<noteq> 0" using "1.prems" by auto
    moreover have "memcmp_k ls rs (n - 1) = Some (char_diff (ls ! j) (rs ! j))"
      using Suc "1.prems" calculation by (intro "1.IH") auto
    ultimately show ?thesis using Suc by simp
  qed
qed auto

lemma strncmp_k_cons:
  "l \<noteq> 0 \<Longrightarrow> n \<noteq> 1 \<Longrightarrow> strncmp_k (l # ls) (l # rs) n = strncmp_k ls rs (n - 1)"
  by simp

lemma strncmp_k_stop:
  "n = 1 \<or> l = 0 \<or> r = 0 \<or> l \<noteq> r \<Longrightarrow>
   strncmp_k (l # ls) (r # rs) n = Some (char_diff l r)"
  by auto

text \<open>With a positive count, \<open>strncmp_k\<close> compares the strings cut after \<open>n\<close> characters.\<close>

lemma strncmp_k_spec:
  assumes "terminated l" "terminated r" "n \<noteq> 0"
  shows "\<exists>d. strncmp_k l r n = Some d \<and>
             (d = 0 \<longleftrightarrow> take (unat n) (c_str l) = take (unat n) (c_str r))"
  using assms
proof (induction l r n rule: strncmp_k.induct)
  case (1 l ls r rs n)
  obtain m where m: "unat n = Suc m"
    using \<open>n \<noteq> 0\<close> by (cases "unat n") (auto simp: unat_eq_0)
  have m': "unat (n - 1) = m"
    using m \<open>n \<noteq> 0\<close> by (simp add: unat_minus_one)
  show ?case
  proof (cases "n - 1 \<noteq> 0 \<and> l \<noteq> 0 \<and> r \<noteq> 0 \<and> l = r")
    case True
    with 1 have "\<exists>d. strncmp_k ls rs (n - 1) = Some d \<and>
        (d = 0 \<longleftrightarrow> take (unat (n - 1)) (c_str ls) = take (unat (n - 1)) (c_str rs))"
      by auto
    with True m m' show ?thesis by simp
  next
    case False
    have "n - 1 = 0 \<Longrightarrow> m = 0"
      using m' by simp
    with False m show ?thesis by (auto simp: Let_def)
  qed
qed auto

lemma strncmp_k_total:
  "terminated l \<Longrightarrow> terminated r \<Longrightarrow> \<exists>d. strncmp_k l r n = Some d"
  by (induction l r n rule: strncmp_k.induct) (auto simp: Let_def)

end
