(* ===== verification/Format.thy ===== *)
theory Format
  imports Kernel_Defs
begin

text \<open>
  The number formatting shared by the two formatters of the repository: \<^verbatim>\<open>kernel/io.c\<close> and
  \<^verbatim>\<open>lib/c/internal/_formatter.c\<close> have the same static functions \<open>_string\<close>, \<open>_uint\<close> and \<open>_int\<close>
  over different versions of \<open>_char\<close>. They are modelled once, over the function \<open>putc\<close> that stands
  for the file's own \<open>_char\<close>. The locale \<open>char_sink\<close> is the interface: any \<open>putc\<close> that appends
  to the output gets the whole formatter's correctness; each formatter interprets it.

  The specification side is \<open>digits\<close> (the canonical representation of a number in a base) and
  \<open>render\<close> (the text a format string and its arguments stand for, with no buffer limit).
\<close>

subsection \<open>The code's loops\<close>

text \<open>\<open>while (val / div >= base) div *= base;\<close>\<close>

partial_function (option) radix_div :: "u64 \<Rightarrow> u64 \<Rightarrow> u64 \<Rightarrow> u64 option" where
  "radix_div val base dv =
     (if dv = 0 then None
      else if base \<le> val div dv then radix_div val base (dv * base)
      else Some dv)"

definition digit_char :: "u64 \<Rightarrow> u8" where
  "digit_char d = ucast (if 10 \<le> d then d + 87 else d + 48)"

text \<open>
  \<open>while (div != 0) { digit = val / div; val %= div; div /= base; ... }\<close>; a \<open>base\<close> of 0 would be a
  division by zero.
\<close>

partial_function (option) radix_loop ::
    "(u8 \<Rightarrow> 's \<Rightarrow> 's option) \<Rightarrow> u64 \<Rightarrow> u64 \<Rightarrow> u64 \<Rightarrow> 's \<Rightarrow> 's option" where
  "radix_loop putc val base dv st =
     (if dv = 0 then Some st
      else if base = 0 then None
      else Option.bind (putc (digit_char (val div dv)) st)
             (\<lambda>st'. radix_loop putc (val mod dv) base (dv div base) st'))"

definition fmt_uint :: "(u8 \<Rightarrow> 's \<Rightarrow> 's option) \<Rightarrow> u64 \<Rightarrow> u64 \<Rightarrow> 's \<Rightarrow> 's option" where
  "fmt_uint putc val base st = do {
     dv \<leftarrow> radix_div val base 1;
     radix_loop putc val base dv st }"

text \<open>\<open>val *= -1\<close> overflows for \<open>LONG_MIN\<close>.\<close>

definition fmt_int :: "(u8 \<Rightarrow> 's \<Rightarrow> 's option) \<Rightarrow> u64 \<Rightarrow> u64 \<Rightarrow> 's \<Rightarrow> 's option" where
  "fmt_int putc val base st =
     (if sint val < 0 then
        if sint val = - (2 ^ 63) then None
        else do {
          st' \<leftarrow> (if base = 10 then putc 0x2d st else Some st);
          fmt_uint putc (- val) base st' }
      else fmt_uint putc val base st)"

fun fmt_string :: "(u8 \<Rightarrow> 's \<Rightarrow> 's option) \<Rightarrow> bytes \<Rightarrow> 's \<Rightarrow> 's option" where
  "fmt_string putc [] st = None"
| "fmt_string putc (c # s) st =
     (if c = 0 then Some st else do { st' \<leftarrow> putc c st; fmt_string putc s st' })"

text \<open>
  The variable arguments: each has the type the caller passed it with, and reading it as another
  type is undefined (\<open>int\<close> and \<open>unsigned\<close> may be exchanged, as may \<open>long\<close> and \<open>unsigned long\<close>).
\<close>

datatype va = VInt u32 | VLong u64 | VStr bytes

fun va_int :: "va list \<Rightarrow> (u32 \<times> va list) option" where
  "va_int (VInt w # r) = Some (w, r)"
| "va_int _ = None"

fun va_long :: "va list \<Rightarrow> (u64 \<times> va list) option" where
  "va_long (VLong w # r) = Some (w, r)"
| "va_long _ = None"

fun va_str :: "va list \<Rightarrow> (bytes \<times> va list) option" where
  "va_str (VStr s # r) = Some (s, r)"
| "va_str _ = None"

subsection \<open>Canonical representation of a number\<close>

fun digits :: "nat \<Rightarrow> nat \<Rightarrow> nat list" where
  "digits b v = (if v < b \<or> b < 2 then [v] else digits b (v div b) @ [v mod b])"

declare digits.simps [simp del]

lemma digits_small: "v < b \<Longrightarrow> digits b v = [v]"
  by (simp add: digits.simps)

lemma digits_step: "2 \<le> b \<Longrightarrow> b \<le> v \<Longrightarrow> digits b v = digits b (v div b) @ [v mod b]"
  by (simp add: digits.simps [of b v])

lemma digits_bound: "2 \<le> b \<Longrightarrow> d \<in> set (digits b v) \<Longrightarrow> d < b"
proof (induction b v rule: digits.induct)
  case (1 b v)
  then show ?case
    by (cases "v < b") (auto simp: digits_small digits_step)
qed

text \<open>Reading the digits back gives the number, and no digit before the last is superfluous.\<close>

definition undigits :: "nat \<Rightarrow> nat list \<Rightarrow> nat" where
  "undigits b ds = foldl (\<lambda>a d. a * b + d) 0 ds"

lemma undigits_snoc: "undigits b (ds @ [d]) = undigits b ds * b + d"
  by (simp add: undigits_def)

lemma undigits_digits: "2 \<le> b \<Longrightarrow> undigits b (digits b v) = v"
proof (induction b v rule: digits.induct)
  case (1 b v)
  then show ?case
    by (cases "v < b") (auto simp: digits_small digits_step undigits_snoc, simp add: undigits_def)
qed

lemma digits_no_leading_zero: "2 \<le> b \<Longrightarrow> 0 < v \<Longrightarrow> hd (digits b v) \<noteq> 0"
proof (induction b v rule: digits.induct)
  case (1 b v)
  show ?case
  proof (cases "v < b")
    case False
    with "1.prems" have "0 < v div b" by (simp add: div_greater_zero_iff)
    moreover have "digits b (v div b) \<noteq> []" by (subst digits.simps) simp
    ultimately show ?thesis
      using False 1 by (simp add: digits_step hd_append)
  qed (use 1 in \<open>simp add: digits_small\<close>)
qed

text \<open>The digits from the most significant end, as the code produces them.\<close>

fun top_digits :: "nat \<Rightarrow> nat \<Rightarrow> nat \<Rightarrow> nat list" where
  "top_digits b 0 v = [v]"
| "top_digits b (Suc k) v = v div b ^ Suc k # top_digits b k (v mod b ^ Suc k)"

lemma top_digits_snoc:
  "2 \<le> b \<Longrightarrow> top_digits b (Suc k) v = top_digits b k (v div b) @ [v mod b]"
proof (induction k arbitrary: v)
  case (Suc k)
  have quot: "v div b ^ Suc (Suc k) = v div b div b ^ Suc k"
    by (simp add: div_mult2_eq [symmetric] mult.commute mult.left_commute)
  have rest: "v mod b ^ Suc (Suc k) div b = v div b mod b ^ Suc k"
    using Suc.prems by (simp add: mod_mult2_eq)
  have last: "v mod b ^ Suc (Suc k) mod b = v mod b"
    by (simp add: mod_mod_cancel)
  show ?case
    using Suc.IH [OF Suc.prems, of "v mod b ^ Suc (Suc k)"]
    by (simp only: top_digits.simps quot rest last append_Cons)
qed simp

lemma top_digits_eq:
  assumes "2 \<le> b" "v < b ^ Suc k" "k = 0 \<or> b ^ k \<le> v"
  shows "top_digits b k v = digits b v"
  using assms(2,3)
proof (induction k arbitrary: v)
  case (Suc k)
  have "b \<le> b ^ Suc k"
    using assms(1) by (simp add: Suc_leI)
  then have "b \<le> v"
    using Suc.prems(2) by linarith
  moreover have "v div b < b ^ Suc k"
    using Suc.prems(1) assms(1) by (simp add: div_less_iff_less_mult mult.commute)
  moreover have "k = 0 \<or> b ^ k \<le> v div b"
    using Suc.prems(2) assms(1) by (auto simp: less_eq_div_iff_mult_less_eq mult.commute)
  ultimately show ?case
    using Suc.IH assms(1) by (simp only: top_digits_snoc digits_step)
qed (simp add: digits_small)

subsection \<open>The loops compute the digits\<close>

lemma radix_div_result:
  assumes "2 \<le> unat base" "unat dv = unat base ^ j" "j = 0 \<or> unat base ^ j \<le> unat val"
  shows "\<exists>dv' k. radix_div val base dv = Some dv' \<and> unat dv' = unat base ^ k \<and>
           unat val < unat base ^ Suc k \<and> (k = 0 \<or> unat base ^ k \<le> unat val)"
  using assms(2,3)
proof (induction "unat val - j" arbitrary: dv j rule: less_induct)
  case less
  have pos: "0 < unat dv"
    using less.prems(1) assms(1) by simp
  then have dv: "dv \<noteq> 0" by auto
  have step: "radix_div val base dv =
      (if base \<le> val div dv then radix_div val base (dv * base) else Some dv)"
    using dv by (subst radix_div.simps) simp
  have guard: "base \<le> val div dv \<longleftrightarrow> unat base ^ Suc j \<le> unat val"
    using pos less.prems(1)
    by (simp add: word_le_nat_alt unat_div_distrib less_eq_div_iff_mult_less_eq mult.commute)
  show ?case
  proof (cases "base \<le> val div dv")
    case True
    then have le: "unat base ^ Suc j \<le> unat val" by (simp only: guard)
    then have "unat dv * unat base < 2 ^ 64"
      using less.prems(1) u64_bound [of val] by (simp add: mult.commute)
    then have next_dv: "unat (dv * base) = unat base ^ Suc j"
      using less.prems(1) by (simp add: unat_mult_no_overflow mult.commute)
    have "j < unat base ^ j"
      using assms(1) by (intro power_gt_expt) simp
    moreover have "unat base ^ j \<le> unat base ^ Suc j"
      using assms(1) by simp
    ultimately have "j < unat val"
      using le by linarith
    then have "unat val - Suc j < unat val - j" by simp
    from less.hyps [OF this next_dv] le True step show ?thesis by simp
  next
    case False
    with guard step less.prems show ?thesis by auto
  qed
qed

text \<open>
  The interface between the formatting code and a file's \<open>_char\<close>: \<open>repr st out\<close> says that the
  state \<open>st\<close> stands for the output \<open>out\<close> so far; \<open>putc\<close> always succeeds and appends.
\<close>

locale char_sink =
  fixes putc :: "u8 \<Rightarrow> 's \<Rightarrow> 's option"
    and repr :: "'s \<Rightarrow> bytes \<Rightarrow> bool"
  assumes putc_repr: "repr st out \<Longrightarrow> \<exists>st'. putc c st = Some st' \<and> repr st' (out @ [c])"
begin

lemma fmt_string_repr:
  "repr st out \<Longrightarrow> terminated s \<Longrightarrow>
   \<exists>st'. fmt_string putc s st = Some st' \<and> repr st' (out @ c_str s)"
proof (induction s arbitrary: st out)
  case (Cons c s)
  show ?case
  proof (cases "c = 0")
    case False
    from putc_repr [OF Cons.prems(1), of c] obtain st1
      where "putc c st = Some st1" "repr st1 (out @ [c])" by blast
    with Cons False show ?thesis by fastforce
  qed (use Cons in simp)
qed simp

lemma fmt_string_unterminated:
  "repr st out \<Longrightarrow> \<not> terminated s \<Longrightarrow> fmt_string putc s st = None"
proof (induction s arbitrary: st out)
  case (Cons c s)
  from putc_repr [OF Cons.prems(1), of c] obtain st1
    where "putc c st = Some st1" "repr st1 (out @ [c])" by blast
  with Cons show ?case by auto
qed simp

lemma radix_loop_repr:
  assumes "2 \<le> unat base"
  shows "repr st out \<Longrightarrow> unat dv = unat base ^ k \<Longrightarrow>
    \<exists>st'. radix_loop putc val base dv st = Some st' \<and>
      repr st' (out @ map (digit_char \<circ> of_nat) (top_digits (unat base) k (unat val)))"
proof (induction k arbitrary: st out val dv)
  case 0
  then have dv: "dv = 1" by (simp add: word_unat_eq_iff)
  have stop: "1 div base = 0"
    using assms by (simp add: word_unat_eq_iff unat_div_distrib)
  from putc_repr [OF 0(1), of "digit_char val"] obtain st1
    where "putc (digit_char val) st = Some st1" "repr st1 (out @ [digit_char val])" by blast
  moreover have "base \<noteq> 0" using assms by auto
  ultimately show ?case
    using stop by (simp add: dv radix_loop.simps [of putc val] radix_loop.simps [of putc _ _ 0])
next
  case (Suc k)
  have nz: "base \<noteq> 0" "dv \<noteq> 0"
    using assms Suc.prems(2) by auto
  define c where "c = digit_char (val div dv)"
  from putc_repr [OF Suc.prems(1), of c] obtain st1
    where st1: "putc c st = Some st1" "repr st1 (out @ [c])" by blast
  have "unat (dv div base) = unat base ^ k"
    using Suc.prems(2) assms by (simp add: unat_div_distrib)
  note Suc.IH [OF st1(2) this, of "val mod dv"] st1(1) nz
  moreover have "of_nat (unat val div unat base ^ Suc k) = val div dv"
    by (simp only: Suc.prems(2) [symmetric] unat_div_distrib [symmetric] of_nat_unat_word)
  moreover have "unat val mod unat base ^ Suc k = unat (val mod dv)"
    by (simp only: Suc.prems(2) unat_mod_distrib)
  ultimately show ?case
    by (simp add: radix_loop.simps [of putc val base dv] c_def)
qed

lemma fmt_uint_repr:
  assumes "repr st out" "2 \<le> unat base"
  shows "\<exists>st'. fmt_uint putc val base st = Some st' \<and>
    repr st' (out @ map (digit_char \<circ> of_nat) (digits (unat base) (unat val)))"
proof -
  obtain dv k where dv: "radix_div val base 1 = Some dv" "unat dv = unat base ^ k"
      and bounds: "unat val < unat base ^ Suc k" "k = 0 \<or> unat base ^ k \<le> unat val"
    using radix_div_result [of base 1 0 val] assms(2) by auto
  from radix_loop_repr [OF assms(2,1) dv(2), of val] dv(1)
  show ?thesis
    by (simp add: fmt_uint_def top_digits_eq [OF assms(2) bounds])
qed

text \<open>A signed value is printed with its sign in base 10 only.\<close>

lemma fmt_int_repr:
  assumes "repr st out" "2 \<le> unat base" "sint val \<noteq> - (2 ^ 63)"
  shows "\<exists>st'. fmt_int putc val base st = Some st' \<and>
    repr st' (out @ (if sint val < 0 \<and> base = 10 then [0x2d] else []) @
      map (digit_char \<circ> of_nat) (digits (unat base) (nat \<bar>sint val\<bar>)))"
proof (cases "sint val < 0")
  case False
  then have "nat \<bar>sint val\<bar> = unat val"
    using sint_nonneg_unat [of val] by simp
  with False fmt_uint_repr [OF assms(1,2), of val] show ?thesis
    by (simp add: fmt_int_def)
next
  case True
  then have mag: "nat \<bar>sint val\<bar> = unat (- val)"
    using sint_neg_unat [of val] by simp
  show ?thesis
  proof (cases "base = 10")
    case ten: True
    obtain st1 where st1: "putc 0x2d st = Some st1" "repr st1 (out @ [0x2d])"
      using putc_repr [OF assms(1)] by blast
    from fmt_uint_repr [OF st1(2) assms(2), of "- val"] st1(1) ten True mag assms(3)
    show ?thesis by (simp add: fmt_int_def)
  next
    case False
    with fmt_uint_repr [OF assms(1,2), of "- val"] True mag assms(3)
    show ?thesis by (simp add: fmt_int_def)
  qed
qed

end

subsection \<open>The text a format string stands for\<close>

definition render_uint :: "u64 \<Rightarrow> nat \<Rightarrow> bytes" where
  "render_uint v b = map (digit_char \<circ> of_nat) (digits b (unat v))"

definition render_int :: "u64 \<Rightarrow> bytes option" where
  "render_int v =
     (if sint v = - (2 ^ 63) then None
      else Some ((if sint v < 0 then [0x2d] else []) @
                 map (digit_char \<circ> of_nat) (digits 10 (nat \<bar>sint v\<bar>))))"

text \<open>One conversion: the character after the per cent sign, with the \<open>l\<close> modifier or not.\<close>

definition render_conv :: "u8 \<Rightarrow> bool \<Rightarrow> va list \<Rightarrow> (bytes \<times> va list) option" where
  "render_conv c is_long args =
     (if c = 0x63 then do { (w, r) \<leftarrow> va_int args; Some ([ucast w], r) }
      else if c = 0x69 \<or> c = 0x64 then
        (if is_long then do { (w, r) \<leftarrow> va_long args; t \<leftarrow> render_int w; Some (t, r) }
         else do { (w, r) \<leftarrow> va_int args; t \<leftarrow> render_int (scast w); Some (t, r) })
      else if c = 0x73 then
        do { (s, r) \<leftarrow> va_str args; if terminated s then Some (c_str s, r) else None }
      else if c = 0x75 then
        (if is_long then do { (w, r) \<leftarrow> va_long args; Some (render_uint w 10, r) }
         else do { (w, r) \<leftarrow> va_int args; Some (render_uint (ucast w) 10, r) })
      else if c = 0x78 then
        (if is_long then do { (w, r) \<leftarrow> va_long args; Some (render_uint w 16, r) }
         else do { (w, r) \<leftarrow> va_int args; Some (render_uint (ucast w) 16, r) })
      else Some ([], args))"

fun render :: "bytes \<Rightarrow> va list \<Rightarrow> bytes option" where
  "render [] args = None"
| "render (c # f) args =
     (if c = 0 then Some []
      else if c \<noteq> 0x25 then map_option ((#) c) (render f args)
      else (case f of [] \<Rightarrow> None | c1 # f1 \<Rightarrow>
        if c1 = 0x25 then map_option ((#) c1) (render f1 args)
        else if c1 = 0x6c then
          (case f1 of [] \<Rightarrow> None | c2 # f2 \<Rightarrow>
             do { (t, args') \<leftarrow> render_conv c2 True args; map_option ((@) t) (render f2 args') })
        else do { (t, args') \<leftarrow> render_conv c1 False args; map_option ((@) t) (render f1 args') }))"

lemma sint_scast_u32 [simp]: "sint (scast (w :: u32) :: u64) = sint w"
  by (rule sint_up_scast) (simp add: is_up)

lemma render_int_short: "render_int (scast (w :: u32)) \<noteq> None"
  using sint_ge [of w] by (auto simp: render_int_def)

lemma render_uint_undigits:
  assumes "2 \<le> b" "b \<le> 10"
  shows "undigits b (map (\<lambda>c. unat c - 48) (render_uint v b)) = unat v"
proof -
  have "unat (digit_char (of_nat d)) - 48 = d" if "d \<in> set (digits b (unat v))" for d
  proof -
    have "d < 10" using digits_bound [OF assms(1) that] assms(2) by simp
    then have "d \<in> {0,1,2,3,4,5,6,7,8,9}" by auto
    then show ?thesis by (auto simp: digit_char_def word_le_nat_alt)
  qed
  then have "map (\<lambda>c. unat c - 48) (render_uint v b) = digits b (unat v)"
    by (simp add: render_uint_def map_idI)
  then show ?thesis by (simp add: undigits_digits assms(1))
qed

text \<open>The induction both formatters use: one case per way through the loop body.\<close>

lemma render_induct [consumes 1, case_names stop plain percent long short]:
  assumes "render f args = Some t"
    and stop: "\<And>f args. P (0 # f) args []"
    and plain: "\<And>c f args t. c \<noteq> 0 \<Longrightarrow> c \<noteq> 0x25 \<Longrightarrow> P f args t \<Longrightarrow> P (c # f) args (c # t)"
    and percent: "\<And>f args t. P f args t \<Longrightarrow> P (0x25 # 0x25 # f) args (0x25 # t)"
    and long: "\<And>c f args u args' t. render_conv c True args = Some (u, args') \<Longrightarrow>
      P f args' t \<Longrightarrow> P (0x25 # 0x6c # c # f) args (u @ t)"
    and short: "\<And>c f args u args' t. c \<noteq> 0x25 \<Longrightarrow> c \<noteq> 0x6c \<Longrightarrow>
      render_conv c False args = Some (u, args') \<Longrightarrow> P f args' t \<Longrightarrow> P (0x25 # c # f) args (u @ t)"
  shows "P f args t"
  using assms(1)
proof (induction "length f" arbitrary: f args t rule: less_induct)
  case less
  then obtain c f1 where f: "f = c # f1" by (cases f) auto
  consider "c = 0" | "c \<noteq> 0" "c \<noteq> 0x25" | "c = 0x25" by blast
  then show ?case
  proof cases
    case 1
    with less f show ?thesis by (simp add: stop)
  next
    case 2
    with less f show ?thesis by (auto simp: map_option_Some intro!: plain)
  next
    case 3
    with less.prems f obtain c1 f2 where f1: "f1 = c1 # f2" by (cases f1) auto
    consider "c1 = 0x25" | "c1 = 0x6c" | "c1 \<noteq> 0x25" "c1 \<noteq> 0x6c" by blast
    then show ?thesis
    proof cases
      case 1
      with less 3 f f1 show ?thesis by (auto simp: map_option_Some intro!: percent)
    next
      case 2
      with less.prems 3 f f1 obtain c2 f3 where "f2 = c2 # f3" by (cases f2) auto
      with less 3 f f1 2 show ?thesis
        by (auto simp: map_option_Some bind_Some intro!: long)
    next
      case other: 3
      with less 3 f f1 show ?thesis
        by (auto simp: map_option_Some bind_Some intro!: short)
    qed
  qed
qed

subsection \<open>One conversion of the code\<close>

text \<open>The \<open>switch\<close> on the conversion character, the same in the two formatters.\<close>

definition fmt_conv ::
    "(u8 \<Rightarrow> 's \<Rightarrow> 's option) \<Rightarrow> u8 \<Rightarrow> bool \<Rightarrow> va list \<Rightarrow> 's \<Rightarrow> ('s \<times> va list) option" where
  "fmt_conv putc c is_long args st =
     (if c = 0x63 then do {
        (w, r) \<leftarrow> va_int args; st' \<leftarrow> putc (ucast w) st; Some (st', r) }
      else if c = 0x69 \<or> c = 0x64 then
        (if is_long then do {
           (w, r) \<leftarrow> va_long args; st' \<leftarrow> fmt_int putc w 10 st; Some (st', r) }
         else do {
           (w, r) \<leftarrow> va_int args; st' \<leftarrow> fmt_int putc (scast w) 10 st; Some (st', r) })
      else if c = 0x73 then do {
        (s, r) \<leftarrow> va_str args; st' \<leftarrow> fmt_string putc s st; Some (st', r) }
      else if c = 0x75 then
        (if is_long then do {
           (w, r) \<leftarrow> va_long args; st' \<leftarrow> fmt_uint putc w 10 st; Some (st', r) }
         else do {
           (w, r) \<leftarrow> va_int args; st' \<leftarrow> fmt_uint putc (ucast w) 10 st; Some (st', r) })
      else if c = 0x78 then
        (if is_long then do {
           (w, r) \<leftarrow> va_long args; st' \<leftarrow> fmt_uint putc w 16 st; Some (st', r) }
         else do {
           (w, r) \<leftarrow> va_int args; st' \<leftarrow> fmt_uint putc (ucast w) 16 st; Some (st', r) })
      else Some (st, args))"

context char_sink
begin

lemma fmt_uint_render:
  assumes "repr st out" "2 \<le> unat base"
  shows "\<exists>st'. fmt_uint putc val base st = Some st' \<and> repr st' (out @ render_uint val (unat base))"
  using fmt_uint_repr [OF assms, of val] by (simp add: render_uint_def)

lemma fmt_int_render:
  assumes "repr st out" "render_int val = Some t"
  shows "\<exists>st'. fmt_int putc val 10 st = Some st' \<and> repr st' (out @ t)"
  using fmt_int_repr [OF assms(1), of 10 val] assms(2)
  by (auto simp: render_int_def split: if_splits)

lemma fmt_conv_repr:
  assumes "repr st out" "render_conv c is_long args = Some (t, r)"
  shows "\<exists>st'. fmt_conv putc c is_long args st = Some (st', r) \<and> repr st' (out @ t)"
  using assms(2) fmt_uint_render [OF assms(1), of 10] fmt_uint_render [OF assms(1), of 16]
    fmt_int_render [OF assms(1)] fmt_string_repr [OF assms(1)] putc_repr [OF assms(1)] assms(1)
  unfolding render_conv_def fmt_conv_def
  by (fastforce split: if_splits prod.splits simp: bind_Some)

end

end
