(* ===== verification/Kernel_Io.thy ===== *)
theory Kernel_Io
  imports Format
begin

text \<open>
  Formatted kernel output (\<^verbatim>\<open>kernel/io.c\<close> and \<^verbatim>\<open>kernel/arch/aarch64/io.c\<close>). The state of the
  formatter is the position (the functions' \<open>pos + written\<close>, which never passes the end of the
  buffer) and the static buffer. What \<open>uart_write_char\<close> sends is a list of bytes.
  \<open>io_fmt_prints\<close> states that \<open>io_fmt\<close> sends the first 1024 bytes of the rendered text.
\<close>

definition IO_BUFFER_SIZE :: nat where
  "IO_BUFFER_SIZE = 1024"

definition io_char :: "u8 \<Rightarrow> nat \<times> bytes \<Rightarrow> (nat \<times> bytes) option" where
  "io_char c = (\<lambda>(pos, buf).
     if IO_BUFFER_SIZE \<le> pos then Some (pos, buf)
     else do { buf' \<leftarrow> wr_at buf pos c; Some (pos + 1, buf') })"

fun io_fmt_loop :: "bytes \<Rightarrow> va list \<Rightarrow> nat \<times> bytes \<Rightarrow> (nat \<times> bytes) option" where
  "io_fmt_loop [] args st = None"
| "io_fmt_loop (c # f) args st =
     (if c = 0 then Some st
      else if c \<noteq> 0x25 then do { st' \<leftarrow> io_char c st; io_fmt_loop f args st' }
      else (case f of [] \<Rightarrow> None | c1 # f1 \<Rightarrow>
        if c1 = 0x25 then do { st' \<leftarrow> io_char c1 st; io_fmt_loop f1 args st' }
        else if c1 = 0x6c then
          (case f1 of [] \<Rightarrow> None | c2 # f2 \<Rightarrow>
             do { (st', args') \<leftarrow> fmt_conv io_char c2 True args st; io_fmt_loop f2 args' st' })
        else do { (st', args') \<leftarrow> fmt_conv io_char c1 False args st; io_fmt_loop f1 args' st' }))"

text \<open>\<open>for (; i < n; i++) uart_write_char(data[i]);\<close>\<close>

function io_write_loop :: "bytes \<Rightarrow> int \<Rightarrow> nat \<Rightarrow> bytes \<Rightarrow> (nat \<times> bytes) option" where
  "io_write_loop data n i uart =
     (if int i < n then do { b \<leftarrow> rd_at data i; io_write_loop data n (i + 1) (uart @ [b]) }
      else Some (i, uart))"
  by pat_completeness auto
termination
  by (relation "measure (\<lambda>(data, n, i, uart). nat (n - int i))") auto

declare io_write_loop.simps [simp del]

definition io_write :: "bytes \<Rightarrow> int \<Rightarrow> bytes \<Rightarrow> (int \<times> bytes) option" where
  "io_write data n uart = do {
     (i, uart') \<leftarrow> io_write_loop data n 0 uart;
     Some (int i + 1, uart') }"

definition io_fmt :: "bytes \<Rightarrow> va list \<Rightarrow> bytes \<Rightarrow> bytes \<Rightarrow> (int \<times> bytes \<times> bytes) option" where
  "io_fmt format args io_buffer uart = do {
     (size, io_buffer') \<leftarrow> io_fmt_loop format args (0, io_buffer);
     (res, uart') \<leftarrow> io_write io_buffer' (int size) uart;
     Some (res, io_buffer', uart') }"

subsection \<open>Correctness\<close>

definition io_repr :: "nat \<times> bytes \<Rightarrow> bytes \<Rightarrow> bool" where
  "io_repr st out \<longleftrightarrow>
     (case st of (pos, buf) \<Rightarrow> length buf = IO_BUFFER_SIZE \<and>
        pos = min IO_BUFFER_SIZE (length out) \<and> take pos buf = take IO_BUFFER_SIZE out)"

lemma io_char_repr:
  assumes "io_repr st out"
  shows "\<exists>st'. io_char c st = Some st' \<and> io_repr st' (out @ [c])"
proof (cases st)
  case (Pair pos buf)
  with assms show ?thesis
    by (cases "pos < IO_BUFFER_SIZE")
      (auto simp: io_repr_def io_char_def take_Suc_conv_app_nth)
qed

interpretation io: char_sink io_char io_repr
  by unfold_locales (rule io_char_repr)

lemma io_fmt_loop_repr:
  "render f args = Some t \<Longrightarrow> io_repr st out \<Longrightarrow>
   \<exists>st'. io_fmt_loop f args st = Some st' \<and> io_repr st' (out @ t)"
proof (induction arbitrary: st out rule: render_induct)
  case (plain c f args t)
  with io.putc_repr [OF plain.prems, of c] show ?case by fastforce
next
  case (percent f args t)
  with io.putc_repr [OF percent.prems, of "0x25"] show ?case by fastforce
next
  case (long c f args u args' t)
  with io.fmt_conv_repr [OF long.prems long.hyps(1)] show ?case by fastforce
next
  case (short c f args u args' t)
  with io.fmt_conv_repr [OF short.prems short.hyps(3)] show ?case by fastforce
qed simp

lemma io_write_loop_eq:
  "n \<le> int (length data) \<Longrightarrow> int i \<le> n \<Longrightarrow>
   io_write_loop data n i uart = Some (nat n, uart @ drop i (take (nat n) data))"
proof (induction data n i uart rule: io_write_loop.induct)
  case (1 data n i uart)
  show ?case
  proof (cases "int i < n")
    case True
    with 1(2) have i: "i < length (take (nat n) data)" "i < length data" by auto
    with 1 True Cons_nth_drop_Suc [OF i(1), symmetric] show ?thesis
      by (subst io_write_loop.simps) simp
  next
    case False
    with 1(3) have "int i = n" by simp
    with 1(2) show ?thesis by (subst io_write_loop.simps) auto
  qed
qed

lemma io_write_eq:
  "0 \<le> n \<Longrightarrow> n \<le> int (length data) \<Longrightarrow>
   io_write data n uart = Some (n + 1, uart @ take (nat n) data)"
  by (simp add: io_write_def io_write_loop_eq)

text \<open>
  \<open>io_fmt\<close> sends exactly the first \<open>IO_BUFFER_SIZE\<close> bytes of the text the format string and
  its arguments stand for, whatever the buffer held before, and never leaves the buffer; the value
  it returns is one more than the number of bytes sent.
\<close>
lemma io_fmt_prints:
  assumes "render format args = Some out" "length io_buffer = IO_BUFFER_SIZE"
  shows "\<exists>io_buffer'. length io_buffer' = IO_BUFFER_SIZE \<and>
    io_fmt format args io_buffer uart =
      Some (int (min IO_BUFFER_SIZE (length out)) + 1, io_buffer', uart @ take IO_BUFFER_SIZE out)"
proof -
  have "io_repr (0, io_buffer) []" using assms(2) by (simp add: io_repr_def)
  from io_fmt_loop_repr [OF assms(1) this] obtain pos buf where
    "io_fmt_loop format args (0, io_buffer) = Some (pos, buf)" "io_repr (pos, buf) out"
    by auto
  then show ?thesis by (auto simp: io_fmt_def io_write_eq io_repr_def)
qed

lemma io_fmt_prints_witness:
  "\<exists>io_buffer'. length io_buffer' = IO_BUFFER_SIZE \<and>
    io_fmt (zstr ''n=%d %s'') [VInt (- 42), VStr (zstr ''ok'')] (replicate IO_BUFFER_SIZE 0) [] =
      Some (9, io_buffer', ascii ''n=-42 ok'')"
proof -
  have d: "digits 10 42 = [4, 2]" by (simp add: digits.simps)
  have "render (zstr ''n=%d %s'') [VInt (- 42), VStr (zstr ''ok'')] = Some (ascii ''n=-42 ok'')"
    by (simp add: zstr_def ascii_def render_conv_def render_int_def d digit_char_def word_le_nat_alt)
  from io_fmt_prints [OF this, of "replicate IO_BUFFER_SIZE 0" "[]"]
  show ?thesis by (simp add: IO_BUFFER_SIZE_def ascii_def)
qed

end
