(* ===== verification/Libc_Formatter.thy ===== *)
theory Libc_Formatter
  imports Format
begin

text \<open>
  Formatted output of the C library (\<^verbatim>\<open>lib/c/internal/_formatter.c\<close>, \<^verbatim>\<open>lib/c/stdio/vsnprintf.c\<close>).
  The state is the count \<open>loc\<close> of the characters produced and the destination; characters beyond
  \<open>n\<close> are counted and dropped. A count of 2 to the 31 characters or more is not modelled.
\<close>

definition formatter_char :: "int \<Rightarrow> u8 \<Rightarrow> nat \<times> bytes \<Rightarrow> (nat \<times> bytes) option" where
  "formatter_char n c = (\<lambda>(loc, buffer).
     if int loc < n then do { buffer' \<leftarrow> wr_at buffer loc c; Some (loc + 1, buffer') }
     else Some (loc + 1, buffer))"

text \<open>
  The loop of \<open>formatter\<close>. The second per cent sign of a pair is put out and then falls into the
  \<open>switch\<close>, which has no case for it.
\<close>

fun formatter_loop :: "int \<Rightarrow> bytes \<Rightarrow> va list \<Rightarrow> nat \<times> bytes \<Rightarrow> (nat \<times> bytes) option" where
  "formatter_loop n [] args st = None"
| "formatter_loop n (c # f) args st =
     (if c = 0 then Some st
      else if c \<noteq> 0x25 then do { st' \<leftarrow> formatter_char n c st; formatter_loop n f args st' }
      else (case f of [] \<Rightarrow> None | c1 # f1 \<Rightarrow>
        if c1 = 0x25 then do {
          st' \<leftarrow> formatter_char n c1 st;
          (st'', args') \<leftarrow> fmt_conv (formatter_char n) c1 False args st';
          formatter_loop n f1 args' st'' }
        else if c1 = 0x6c then
          (case f1 of [] \<Rightarrow> None | c2 # f2 \<Rightarrow> do {
             (st', args') \<leftarrow> fmt_conv (formatter_char n) c2 True args st;
             formatter_loop n f2 args' st' })
        else do {
          (st', args') \<leftarrow> fmt_conv (formatter_char n) c1 False args st;
          formatter_loop n f1 args' st' }))"

text \<open>\<open>const int n = (int) max_size;\<close>\<close>

definition formatter :: "bytes \<Rightarrow> bytes \<Rightarrow> va list \<Rightarrow> u64 \<Rightarrow> (nat \<times> bytes) option" where
  "formatter buffer format args max_size =
     formatter_loop (sint (ucast max_size :: u32)) format args (0, buffer)"

definition vsnprintf :: "bytes \<Rightarrow> u64 \<Rightarrow> bytes \<Rightarrow> va list \<Rightarrow> (nat \<times> bytes) option" where
  "vsnprintf s n format ap = do {
     (written, s') \<leftarrow> formatter s format ap n;
     s'' \<leftarrow> wr_at s' written 0;
     Some (written, s'') }"

subsection \<open>Correctness\<close>

definition formatter_repr :: "int \<Rightarrow> bytes \<Rightarrow> nat \<times> bytes \<Rightarrow> bytes \<Rightarrow> bool" where
  "formatter_repr n buf0 st out \<longleftrightarrow>
     nat n \<le> length buf0 \<and>
     st = (length out, take (nat n) out @ drop (min (nat n) (length out)) buf0)"

lemma formatter_char_repr:
  assumes "formatter_repr n buf0 st out"
  shows "\<exists>st'. formatter_char n c st = Some st' \<and> formatter_repr n buf0 st' (out @ [c])"
proof (cases "int (length out) < n")
  case True
  then have lt: "length out < nat n" by simp
  with assms have "length out < length buf0" by (simp add: formatter_repr_def)
  from Cons_nth_drop_Suc [OF this, symmetric] lt True assms show ?thesis
    by (simp add: formatter_repr_def formatter_char_def)
next
  case False
  then show ?thesis
    using assms by (simp add: formatter_repr_def formatter_char_def)
qed

interpretation lf: char_sink "formatter_char n" "formatter_repr n buf0" for n buf0
  by unfold_locales (rule formatter_char_repr)

lemma formatter_loop_repr:
  "render f args = Some t \<Longrightarrow> formatter_repr n buf0 st out \<Longrightarrow>
   \<exists>st'. formatter_loop n f args st = Some st' \<and> formatter_repr n buf0 st' (out @ t)"
proof (induction arbitrary: st out rule: render_induct)
  case (plain c f args t)
  with lf.putc_repr [OF plain.prems, of c] show ?case by fastforce
next
  case (percent f args t)
  with lf.putc_repr [OF percent.prems, of "0x25"] show ?case
    by (fastforce simp: fmt_conv_def)
next
  case (long c f args u args' t)
  with lf.fmt_conv_repr [OF long.prems long.hyps(1)] show ?case by fastforce
next
  case (short c f args u args' t)
  with lf.fmt_conv_repr [OF short.prems short.hyps(3)] show ?case by fastforce
qed simp

lemma sint_ucast_small:
  assumes "unat (w :: u64) < 2 ^ 31"
  shows "sint (ucast w :: u32) = int (unat w)"
proof -
  have "unat (ucast w :: u32) = unat w"
    using assms by (simp add: unsigned_ucast_eq take_bit_nat_eq_self_iff)
  with assms show ?thesis by (simp add: sint_small_u32)
qed

text \<open>
  C1. For a bound within the destination \<open>formatter\<close> leaves the first \<open>max_size\<close> bytes of the
  rendered text at its start, touches nothing behind them, and returns the length of the whole
  text.
\<close>
theorem formatter_renders:
  assumes "render format args = Some out" "unat max_size \<le> length buffer" "unat max_size < 2 ^ 31"
  shows "formatter buffer format args max_size =
    Some (length out,
      take (unat max_size) out @ drop (min (unat max_size) (length out)) buffer)"
proof -
  have "formatter_repr (int (unat max_size)) buffer (0, buffer) []"
    using assms(2) by (simp add: formatter_repr_def)
  from formatter_loop_repr [OF assms(1) this] show ?thesis
    using assms(3) by (auto simp: formatter_def sint_ucast_small formatter_repr_def)
qed

theorem formatter_renders_witness:
  "formatter [7, 7, 7, 7, 7, 7, 7, 7] (zstr ''%x-%s'') [VInt 255, VStr (zstr ''abc'')] 4 =
     Some (6, ascii ''ff-a'' @ [7, 7, 7, 7])"
proof -
  have d: "digits 16 255 = [15, 15]" by (simp add: digits.simps)
  have "render (zstr ''%x-%s'') [VInt 255, VStr (zstr ''abc'')] = Some (ascii ''ff-abc'')"
    by (simp add: zstr_def ascii_def render_conv_def render_uint_def d digit_char_def
        word_le_nat_alt)
  from formatter_renders [OF this, of 4 "[7, 7, 7, 7, 7, 7, 7, 7]"] show ?thesis
    by (simp add: ascii_def min_def)
qed

lemma formatter_renders':
  assumes "render format args = Some out" "unat max_size \<le> length buffer" "unat max_size < 2 ^ 31"
  shows "\<exists>buffer'. formatter buffer format args max_size = Some (length out, buffer') \<and>
    length buffer' = length buffer \<and>
    (length out \<le> unat max_size \<longrightarrow> buffer' = out @ drop (length out) buffer)"
proof -
  have "formatter_repr (int (unat max_size)) buffer (0, buffer) []"
    using assms(2) by (simp add: formatter_repr_def)
  from formatter_loop_repr [OF assms(1) this] show ?thesis
    using assms by (auto simp: formatter_def sint_ucast_small formatter_repr_def)
qed

text \<open>
  \<open>vsnprintf\<close> terminates the text at the position of its full length, not at the bound: a text
  that fits is stored with its NUL, and a text at least as long as the destination makes it write
  behind the destination, whatever \<open>n\<close> is.
\<close>
lemma vsnprintf_terminates_at_length:
  assumes "render format ap = Some out" "unat n \<le> length s" "unat n < 2 ^ 31"
  shows "(length out < unat n \<longrightarrow>
           vsnprintf s n format ap = Some (length out, out @ 0 # drop (length out + 1) s)) \<and>
         (length s \<le> length out \<longrightarrow> vsnprintf s n format ap = None)"
proof -
  obtain s' where f: "formatter s format ap n = Some (length out, s')" "length s' = length s"
    and fits: "length out \<le> unat n \<longrightarrow> s' = out @ drop (length out) s"
    using formatter_renders' [OF assms] by blast
  show ?thesis
  proof (intro conjI impI)
    assume "length out < unat n"
    with f fits assms(2) Cons_nth_drop_Suc [of "length out" s, symmetric]
    show "vsnprintf s n format ap = Some (length out, out @ 0 # drop (length out + 1) s)"
      by (simp add: vsnprintf_def)
  next
    assume "length s \<le> length out"
    with f show "vsnprintf s n format ap = None" by (simp add: vsnprintf_def)
  qed
qed

lemma vsnprintf_terminates_at_length_witness:
  "vsnprintf [7, 7, 7, 7] 4 (zstr ''abcd'') [] = None \<and>
   vsnprintf [7, 7, 7, 7] 4 (zstr ''ab'') [] = Some (2, ascii ''ab'' @ [0, 7])"
proof -
  have r: "render (zstr ''abcd'') [] = Some (ascii ''abcd'')"
      "render (zstr ''ab'') [] = Some (ascii ''ab'')"
    by (simp_all add: zstr_def ascii_def)
  from vsnprintf_terminates_at_length [OF r(1), of 4 "[7, 7, 7, 7]"]
    vsnprintf_terminates_at_length [OF r(2), of 4 "[7, 7, 7, 7]"]
  show ?thesis by (simp add: ascii_def min_def)
qed

end
