(* ===== verification/Mem_Kernel.thy ===== *)
theory Mem_Kernel
  imports Mem
begin

text \<open>
  The kernel page allocator of \<^verbatim>\<open>kernel/arch/aarch64/mem.c\<close>: what it does to the set of free frames,
  where it writes, and when it fails. The frames taken on the way are tracked by \<open>owns\<close>; the frame
  allocator is used through its contract only.
\<close>

subsection \<open>The page map through the kernel allocator\<close>

lemma set_cell_simps [simp]:
  "pmap (set_cell a v s) = pmap s"
  "cells (set_cell a v s) = (cells s)(a := v)"
  by (simp_all add: set_cell_def)

lemma zero_page_simps [simp]:
  "pmap (zero_page p s) = pmap s"
  "cells (zero_page p s) b = (if in_page p b then 0 else cells s b)"
  by (simp_all add: zero_page_def)

lemma copy_page_simps [simp]:
  "pmap (copy_page d p s) = pmap s"
  "cells (copy_page d p s) b = (if in_page d b then cells s (p + (b - d)) else cells s b)"
  by (simp_all add: copy_page_def)

text \<open>The frames an operation holds besides those that are available.\<close>

definition held :: "u64 list \<Rightarrow> u64 set" where
  "held ps = set ps - {0}"

definition owns :: "u64 set \<Rightarrow> u64 list \<Rightarrow> u64 list \<Rightarrow> bool" where
  "owns A ps m \<longleftrightarrow> pmm_wf m \<and> held ps \<subseteq> pmm_pages \<and> held ps \<inter> pmm_avail m = {} \<and>
     pmm_avail m \<union> held ps = A"

lemma pmm_free_all_spec:
  "pmm_wf m \<Longrightarrow> held ps \<subseteq> pmm_pages \<Longrightarrow>
   \<exists>m'. pmm_free_all ps m = Some m' \<and> pmm_wf m' \<and> pmm_avail m' = pmm_avail m \<union> held ps"
proof (induction ps arbitrary: m)
  case Nil
  then show ?case by (simp add: held_def)
next
  case (Cons p ps)
  show ?case
  proof (cases "p = 0")
    case True
    with Cons show ?thesis by (simp add: held_def)
  next
    case False
    with Cons.prems have "p \<in> pmm_pages" "held ps \<subseteq> pmm_pages" by (auto simp: held_def)
    from pmm.free_spec [OF Cons.prems(1) this(1)] obtain m1
      where "pmm_free p m = Some m1" "pmm_wf m1" "pmm_avail m1 = insert p (pmm_avail m)" by blast
    with Cons.IH [OF this(2) \<open>held ps \<subseteq> pmm_pages\<close>] False show ?thesis
      by (auto simp: held_def)
  qed
qed

lemma held_update:
  "i < length ps \<Longrightarrow> ps ! i = 0 \<Longrightarrow> p \<noteq> 0 \<Longrightarrow> held (ps[i := p]) = insert p (held ps)"
  by (force simp: held_def set_conv_nth nth_list_update split: if_splits)

lemma owns_get:
  assumes "owns A ps m" "pmm_get m = Some (p, m')" "i < length ps" "ps ! i = 0" "p \<noteq> 0"
  shows "owns A (ps[i := p]) m'"
proof -
  have wf: "pmm_wf m" using assms(1) by (simp add: owns_def)
  from pmm.get_frame [OF wf assms(2)] assms(1,3-) show ?thesis
    by (auto simp: owns_def held_update)
qed

lemma alloc_levels_owns:
  assumes "owns A ps (pmap s)" "distinct is" "\<forall>i\<in>set is. i < length ps \<and> ps ! i = 0"
  shows "\<exists>e ps' s'. alloc_levels levels idx is ps s = Some (e, ps', s') \<and>
    (e = ERR_OK \<and> owns A ps' (pmap s') \<and> (\<forall>j. j \<notin> set is \<longrightarrow> ps' ! j = ps ! j) \<and> length ps' = length ps \<or>
     e = ERR_MEM_OOM \<and> pmm_wf (pmap s') \<and> pmm_avail (pmap s') = A)"
  using assms
proof (induction "is" arbitrary: ps s)
  case (Cons i "is")
  let ?a = "entry_at (levels ! i) (idx ! i)"
  show ?case
  proof (cases "mmu_is_valid (cells s ?a)")
    case True
    have "\<forall>i\<in>set is. i < length ps \<and> ps ! i = 0" "distinct is" using Cons.prems by auto
    from Cons.IH [OF Cons.prems(1) this(2,1)] True Cons.prems(2) show ?thesis by fastforce
  next
    case False
    have wf: "pmm_wf (pmap s)" using Cons.prems(1) by (simp add: owns_def)
    obtain p m where got: "pmm_get (pmap s) = Some (p, m)"
      using pmm.get_total [OF wf] by auto
    show ?thesis
    proof (cases "p = 0")
      case True
      with pmm.get_frame [OF wf got] have "m = pmap s" by simp
      with pmm_free_all_spec [OF wf, of ps] got True False Cons.prems(1) show ?thesis
        by (auto simp: owns_def)
    next
      case nz: False
      let ?s = "zero_page (levels ! (i + 1))
        (set_cell ?a (p OR ATT_VALID OR ATT_PAGE OR ATT_AF_SET) (s\<lparr>pmap := m\<rparr>))"
      have "owns A (ps[i := p]) (pmap ?s)"
        using owns_get [OF Cons.prems(1) got] Cons.prems(3) nz by simp
      moreover have "distinct is" "\<forall>j\<in>set is. j < length (ps[i := p]) \<and> ps[i := p] ! j = 0"
        using Cons.prems(2,3) by (auto simp: nth_list_update)
      ultimately show ?thesis
        using Cons.IH [of "ps[i := p]" ?s] got nz False Cons.prems(2)
        by (fastforce simp: Let_def)
    qed
  qed
qed (simp add: owns_def)

declare alloc_levels.simps [simp del]

text \<open>The allocator after its first frame, with the tables resolved.\<close>

lemma alloc_page_eq:
  assumes "kernel_attr perm = Some attr" "pmm_get (pmap s) = Some (p3, m)" "p3 \<noteq> 0"
    and "idx = mmu_get_table_idx (MEM_PHYS_TO_VIRT p3)" "levels = kernel_levels idx"
    and "a = entry_at (levels ! 3) (idx ! 3)"
    and "alloc_levels levels idx [0, 1, 2] [0, 0, 0, p3] (s\<lparr>pmap := m\<rparr>) = Some (e, ps, s1)"
  shows "mem_kernel_alloc_page perm s =
    (if e \<noteq> ERR_OK then Some (\<lparr>r_addr = 0, r_err = e\<rparr>, s1)
     else if mmu_is_valid (cells s1 a) then
       Option.bind (if ps ! 0 \<noteq> 0 then pmm_free (ps ! 0) (pmap s1) else Some (pmap s1))
         (\<lambda>m1. Some (\<lparr>r_addr = 0, r_err = ERR_MEM_EXS\<rparr>, s1\<lparr>pmap := m1\<rparr>))
     else Some (\<lparr>r_addr = MEM_PHYS_TO_VIRT p3, r_err = ERR_OK\<rparr>,
       set_cell a (p3 OR attr OR ATT_VALID OR ATT_PAGE OR ATT_NORMAL OR ATT_AF_SET) s1))"
  using assms(1-3,7) unfolding assms(4-6) by (simp add: mem_kernel_alloc_page_def Let_def)

lemma alloc_levels_result:
  assumes "pmm_wf (pmap s)" "pmm_get (pmap s) = Some (p3, m)" "p3 \<noteq> 0"
  obtains e ps s1 where
    "alloc_levels levels idx [0, 1, 2] [0, 0, 0, p3] (s\<lparr>pmap := m\<rparr>) = Some (e, ps, s1)"
    "e = ERR_OK \<and> owns (pmm_avail (pmap s)) ps (pmap s1) \<and> ps ! 3 = p3 \<and> length ps = 4 \<or>
     e = ERR_MEM_OOM \<and> pmm_wf (pmap s1) \<and> pmm_avail (pmap s1) = pmm_avail (pmap s)"
proof -
  have "owns (pmm_avail (pmap s)) [0, 0, 0, p3] (pmap (s\<lparr>pmap := m\<rparr>))"
    using pmm.get_frame [OF assms(1,2)] assms(3) by (auto simp: owns_def held_def)
  from alloc_levels_owns [OF this, of "[0, 1, 2]" levels idx] show ?thesis
    using that by auto
qed

lemma mem_kernel_alloc_page_spec:
  assumes "pmm_wf (pmap s)"
  shows "\<exists>r s'. mem_kernel_alloc_page perm s = Some (r, s') \<and> pmm_wf (pmap s') \<and>
    pmm_avail (pmap s') \<subseteq> pmm_avail (pmap s) \<and>
    (r_err r = ERR_OK \<longrightarrow>
       MEM_VIRT_TO_PHYS (r_addr r) \<in> pmm_avail (pmap s) - pmm_avail (pmap s')) \<and>
    (r_err r = ERR_MEM_OOM \<longrightarrow> pmm_avail (pmap s') = pmm_avail (pmap s)) \<and>
    (r_err r \<noteq> ERR_OK \<longrightarrow> r_addr r = 0) \<and>
    r_err r \<in> {ERR_OK, ERR_MEM_FLG, ERR_MEM_OOM, ERR_MEM_EXS}"
proof (cases "kernel_attr perm")
  case None
  with assms show ?thesis by (simp add: mem_kernel_alloc_page_def)
next
  case (Some attr)
  obtain p3 m where got: "pmm_get (pmap s) = Some (p3, m)"
    using pmm.get_total [OF assms] by auto
  note frame = pmm.get_frame [OF assms got]
  show ?thesis
  proof (cases "p3 = 0")
    case True
    with frame Some got assms show ?thesis by (simp add: mem_kernel_alloc_page_def)
  next
    case nz: False
    define idx where "idx = mmu_get_table_idx (MEM_PHYS_TO_VIRT p3)"
    define levels where "levels = kernel_levels idx"
    define a where "a = entry_at (levels ! 3) (idx ! 3)"
    obtain e ps s1 where
      al: "alloc_levels levels idx [0, 1, 2] [0, 0, 0, p3] (s\<lparr>pmap := m\<rparr>) = Some (e, ps, s1)"
      and res: "e = ERR_OK \<and> owns (pmm_avail (pmap s)) ps (pmap s1) \<and> ps ! 3 = p3 \<and> length ps = 4 \<or>
        e = ERR_MEM_OOM \<and> pmm_wf (pmap s1) \<and> pmm_avail (pmap s1) = pmm_avail (pmap s)"
      using alloc_levels_result [OF assms got nz] by blast
    note eq = alloc_page_eq [OF Some got nz idx_def levels_def a_def al]
    have held: "ps ! j \<in> held ps" if "e = ERR_OK" "j < 4" "ps ! j \<noteq> 0" for j
      using that res by (auto simp: held_def)
    consider "e = ERR_MEM_OOM" | "e = ERR_OK" "\<not> mmu_is_valid (cells s1 a)"
      | "e = ERR_OK" "mmu_is_valid (cells s1 a)" using res by blast
    then show ?thesis
    proof cases
      case 1
      with res eq show ?thesis by simp
    next
      case 2
      with res nz held [of 3] have "p3 \<in> held ps" "owns (pmm_avail (pmap s)) ps (pmap s1)" by auto
      with 2 eq frame nz show ?thesis by (auto simp: owns_def)
    next
      case 3
      with res have own: "owns (pmm_avail (pmap s)) ps (pmap s1)" by auto
      show ?thesis
      proof (cases "ps ! 0 = 0")
        case True
        with 3 eq own show ?thesis by (auto simp: owns_def)
      next
        case False
        with held [of 0] 3 have "ps ! 0 \<in> held ps" by simp
        with own have "ps ! 0 \<in> pmm_pages" "pmm_wf (pmap s1)" by (auto simp: owns_def)
        from pmm.free_spec [OF this(2,1)] obtain m1 where "pmm_free (ps ! 0) (pmap s1) = Some m1"
          "pmm_wf m1" "pmm_avail m1 = insert (ps ! 0) (pmm_avail (pmap s1))" by blast
        with own \<open>ps ! 0 \<in> held ps\<close> False 3 eq show ?thesis
          by (auto simp: owns_def)
      qed
    qed
  qed
qed

subsection \<open>The recursive window\<close>

text \<open>
  The kernel's own tables are in the window from \<open>0xffffff8000000000\<close> on; allocating and freeing
  kernel pages writes there only.
\<close>

definition table_window :: "u64 \<Rightarrow> bool" where
  "table_window a \<longleftrightarrow> 0xffffff8000000000 \<le> a"

lemma page_aligned_no_wrap:
  assumes "take_bit 12 (l :: u64) = 0" "d < 4096"
  shows "l \<le> l + d"
proof -
  have "unat l mod 4096 = 0"
    using assms(1) by (simp add: word_unat_eq_iff unsigned_take_bit_eq take_bit_eq_mod unat_mod_distrib)
  then obtain q where q: "unat l = 4096 * q" by auto
  with u64_bound [of l] have "q < 4503599627370496" by simp
  with q have "unat l \<le> 18446744073709547520" by simp
  moreover have "unat d < 4096" using assms(2) by (simp add: word_less_nat_alt)
  ultimately show ?thesis by (simp add: word_le_nat_alt unat_add_no_overflow)
qed

lemma kernel_level_window:
  assumes "l \<in> set (kernel_levels idx)"
  shows "table_window l" "take_bit 12 l = 0"
proof -
  have le: "(0xffffff8000000000 :: u64) \<le> c OR x" if "0xffffff8000000000 \<le> c" for c x :: u64
    using that le_word_or2 [of c x] by (rule order_trans)
  show "table_window l"
    using assms
    by (auto simp: kernel_levels_def Let_def table_window_def mmu_get_next_kernel_level_def
        push_bit_or or.assoc intro!: le)
  show "take_bit 12 l = 0"
    using assms
    by (auto simp: kernel_levels_def Let_def mmu_get_next_kernel_level_def take_bit_push_bit)
qed

lemma table_idx_bound: "i \<in> set (mmu_get_table_idx v) \<Longrightarrow> i < 512"
proof -
  have "x AND 511 < 512" for x :: u64
    using word_and_le1 [of x 511] by (rule order_le_less_trans) simp
  then show "i \<in> set (mmu_get_table_idx v) \<Longrightarrow> i < 512"
    by (auto simp: mmu_get_table_idx_def)
qed

lemma entry_at_window:
  assumes "l \<in> set (kernel_levels idx)" "i < 512"
  shows "table_window (entry_at l i)"
proof -
  have "unat i < 512" using assms(2) by (simp add: word_less_nat_alt)
  then have "unat (8 * i) = 8 * unat i" by (subst unat_mult_no_overflow) simp_all
  with \<open>unat i < 512\<close> have "8 * i < 4096" by (simp add: word_less_nat_alt)
  from page_aligned_no_wrap [OF kernel_level_window(2) [OF assms(1)] this]
    kernel_level_window(1) [OF assms(1)]
  show ?thesis by (auto simp: table_window_def entry_at_def)
qed

lemma in_page_window:
  assumes "l \<in> set (kernel_levels idx)" "in_page l b"
  shows "table_window b"
proof -
  have "b - l < 4096" using assms(2) by (simp add: in_page_def PAGESIZE_def)
  from page_aligned_no_wrap [OF kernel_level_window(2) [OF assms(1)] this]
    kernel_level_window(1) [OF assms(1)]
  show ?thesis by (auto simp: table_window_def)
qed

lemma kernel_levels_length [simp]: "length (kernel_levels idx) = 4"
  by (simp add: kernel_levels_def Let_def)

lemma table_idx_length [simp]: "length (mmu_get_table_idx v) = 4"
  by (simp add: mmu_get_table_idx_def)

lemma alloc_levels_frame:
  assumes "alloc_levels (kernel_levels idx) (mmu_get_table_idx v) is ps s = Some (e, ps', s')"
    and "\<forall>i\<in>set is. i < 3" "\<not> table_window b"
  shows "cells s' b = cells s b"
  using assms(1,2)
proof (induction "is" arbitrary: ps s)
  case Nil
  then show ?case by (simp add: alloc_levels.simps)
next
  case (Cons i "is")
  let ?l = "kernel_levels idx ! i"
  let ?a = "entry_at ?l (mmu_get_table_idx v ! i)"
  have "i < 3" using Cons.prems(2) by simp
  then have "?l \<in> set (kernel_levels idx)" "mmu_get_table_idx v ! i < 512"
      "kernel_levels idx ! (i + 1) \<in> set (kernel_levels idx)"
    using table_idx_bound [OF nth_mem, of i v] by auto
  then have out: "b \<noteq> ?a" "\<not> in_page (kernel_levels idx ! (i + 1)) b"
    using entry_at_window in_page_window assms(3) by blast+
  show ?case
  proof (cases "mmu_is_valid (cells s ?a)")
    case True
    with Cons show ?thesis by (simp add: alloc_levels.simps)
  next
    case False
    with Cons.prems(1) obtain p m where got: "pmm_get (pmap s) = Some (p, m)"
      by (auto simp: alloc_levels.simps Let_def bind_Some)
    show ?thesis
    proof (cases "p = 0")
      case True
      with Cons.prems(1) False got show ?thesis
        by (auto simp: alloc_levels.simps Let_def bind_Some)
    next
      case nz: False
      let ?s = "zero_page (kernel_levels idx ! (i + 1))
        (set_cell ?a (p OR ATT_VALID OR ATT_PAGE OR ATT_AF_SET) (s\<lparr>pmap := m\<rparr>))"
      have "alloc_levels (kernel_levels idx) (mmu_get_table_idx v) is (ps[i := p]) ?s =
          Some (e, ps', s')"
        using Cons.prems(1) False got nz by (simp add: alloc_levels.simps Let_def)
      from Cons.IH [OF this] Cons.prems(2) out show ?thesis by simp
    qed
  qed
qed

lemma nth_level_window:
  assumes "i < 4"
  shows "table_window (entry_at (kernel_levels idx ! i) (mmu_get_table_idx v ! i))"
proof -
  have "kernel_levels idx ! i \<in> set (kernel_levels idx)"
    "mmu_get_table_idx v ! i \<in> set (mmu_get_table_idx v)"
    using assms by simp_all
  from entry_at_window [OF this(1) table_idx_bound [OF this(2)]] show ?thesis .
qed

lemma alloc_page_frame:
  assumes "mem_kernel_alloc_page perm s = Some (r, s')" "\<not> table_window b"
  shows "cells s' b = cells s b"
proof (cases "kernel_attr perm")
  case None
  with assms(1) show ?thesis by (simp add: mem_kernel_alloc_page_def)
next
  case (Some attr)
  then obtain p3 m where got: "pmm_get (pmap s) = Some (p3, m)"
    using assms(1) by (auto simp: mem_kernel_alloc_page_def bind_Some)
  show ?thesis
  proof (cases "p3 = 0")
    case True
    with assms(1) Some got show ?thesis by (auto simp: mem_kernel_alloc_page_def)
  next
    case nz: False
    define idx where "idx = mmu_get_table_idx (MEM_PHYS_TO_VIRT p3)"
    define a where "a = entry_at (kernel_levels idx ! 3) (idx ! 3)"
    obtain e ps s1 where
      al: "alloc_levels (kernel_levels idx) idx [0, 1, 2] [0, 0, 0, p3] (s\<lparr>pmap := m\<rparr>) =
        Some (e, ps, s1)"
      using assms(1) Some got nz
      by (auto simp: mem_kernel_alloc_page_def Let_def bind_Some idx_def)
    have "cells s1 b = cells s b"
      using alloc_levels_frame [OF al [unfolded idx_def] _ assms(2)] by simp
    moreover have "b \<noteq> a"
      using nth_level_window [of 3 idx] assms(2) unfolding a_def idx_def by auto
    ultimately show ?thesis
      using assms(1) alloc_page_eq [OF Some got nz idx_def refl a_def al]
      by (auto simp: bind_Some split: if_splits)
  qed
qed

lemma kernel_free_frame:
  assumes "kernel_free_levels v (kernel_levels idx) (mmu_get_table_idx v') is s = Some (e, s')"
    and "\<forall>i\<in>set is. i < 4" "\<not> table_window b"
  shows "cells s' b = cells s b"
  using assms(1,2)
proof (induction "is")
  case (Cons i "is")
  let ?a = "entry_at (kernel_levels idx ! i) (mmu_get_table_idx v' ! i)"
  from Cons.prems(2) have "table_window ?a" by (intro nth_level_window) simp
  with assms(3) have "cells s' b = cells s b" if "kernel_free_leaf v ?a i s = Some (e, s')"
    using that by (auto simp: kernel_free_leaf_def bind_Some Let_def split: if_splits)
  with Cons show ?case by (auto simp: Let_def split: if_splits)
qed simp

lemma free_page_frame:
  assumes "mem_kernel_free_page v s = Some (e, s')" "\<not> table_window b"
  shows "cells s' b = cells s b"
  using kernel_free_frame [OF assms(1) [unfolded mem_kernel_free_page_def Let_def] _ assms(2)]
  by simp

subsection \<open>Freeing kernel pages\<close>

lemma pmm_free_mono:
  assumes "pmm_free addr m = Some m'" "pmm_wf m"
  shows "pmm_wf m' \<and> pmm_avail m \<subseteq> pmm_avail m'"
proof -
  obtain j k where m': "m' = m[j := m ! j AND NOT (push_bit k 1)]" "j < length m"
    using assms(1) by (auto simp: pmm_free_def Let_def rd_at_Some wr_at_Some bind_Some)
  have "page_free m' q" if "page_free m q" for q
    using that m'(2) bit_clear [of "m ! j" k] unfolding m'(1)
    by (auto simp: page_free_def nth_list_update)
  then show ?thesis using assms(2) m' by (auto simp: pmm_avail_def pmm_wf_def)
qed

lemma pmm_free_range_mono:
  assumes "pmm_free_range a b m = Some m'" "pmm_wf m"
  shows "pmm_wf m' \<and> pmm_avail m \<subseteq> pmm_avail m'"
proof -
  have "pmm_wf m \<longrightarrow> pmm_wf m' \<and> pmm_avail m \<subseteq> pmm_avail m'"
  proof (rule pmm_free_range.raw_induct
      [where P = "\<lambda>a b m r. pmm_wf m \<longrightarrow> pmm_wf r \<and> pmm_avail m \<subseteq> pmm_avail r", OF _ assms(1)])
    fix f a b m r
    assume IH: "\<And>a b m r. f a b m = Some r \<Longrightarrow> pmm_wf m \<longrightarrow> pmm_wf r \<and> pmm_avail m \<subseteq> pmm_avail r"
      and body: "(if a < b then Option.bind (pmm_free a m) (f (a + PAGESIZE) b) else Some m) = Some r"
    show "pmm_wf m \<longrightarrow> pmm_wf r \<and> pmm_avail m \<subseteq> pmm_avail r"
    proof
      assume wf: "pmm_wf m"
      show "pmm_wf r \<and> pmm_avail m \<subseteq> pmm_avail r"
      proof (cases "a < b")
        case True
        with body obtain m1 where m1: "pmm_free a m = Some m1" "f (a + PAGESIZE) b m1 = Some r"
          by (auto simp: bind_Some)
        with pmm_free_mono [OF m1(1) wf] IH [OF m1(2)] show ?thesis by blast
      next
        case False
        with body wf show ?thesis by simp
      qed
    qed
  qed
  with assms(2) show ?thesis by simp
qed

lemma pmm_free_range_first:
  assumes "pmm_free_range a b m = Some m'" "pmm_wf m" "a < b" "a \<in> pmm_pages"
  shows "a \<in> pmm_avail m'"
proof -
  from assms(1,3) obtain m1 where m1: "pmm_free a m = Some m1"
      "pmm_free_range (a + PAGESIZE) b m1 = Some m'"
    by (subst (asm) pmm_free_range.simps) (auto simp: bind_Some)
  with pmm.free_spec [OF assms(2,4)] have "pmm_wf m1" "a \<in> pmm_avail m1" by auto
  with pmm_free_range_mono [OF m1(2)] show ?thesis by auto
qed

lemma page_room:
  assumes "a \<in> pmm_pages" "k \<le> 18"
  shows "a < a + push_bit k PAGESIZE"
proof -
  from assms(1) obtain p where p: "a = page_addr p" "p < 64 * MEM_MAP_SIZE"
    by (auto simp: pmm_pages_def)
  then have a: "unat a < 2 ^ 32" by (simp add: unat_page_addr MEM_MAP_SIZE_eq)
  have "push_bit k PAGESIZE = 2 ^ (k + 12)"
    by (simp add: PAGESIZE_def push_bit_eq_mult power_add)
  moreover have le: "(2 :: nat) ^ (k + 12) \<le> 2 ^ 30"
    using assms(2) by (intro power_increasing) auto
  moreover have "unat (2 ^ (k + 12) :: u64) = 2 ^ (k + 12)"
  proof -
    have "(2 ^ (k + 12) :: u64) = of_nat (2 ^ (k + 12))" by simp
    then show ?thesis using le by (simp only: unat_of_nat) simp
  qed
  ultimately show ?thesis
    using a by (simp add: word_less_nat_alt unat_add_no_overflow)
qed

lemma kernel_free_leaf_avail:
  assumes "kernel_free_leaf v a i s = Some (e, s')" "pmm_wf (pmap s)"
    and "MEM_VIRT_TO_PHYS v \<in> pmm_pages"
  shows "e = ERR_OK \<and> pmm_wf (pmap s') \<and> MEM_VIRT_TO_PHYS v \<in> pmm_avail (pmap s')"
proof -
  obtain k m where "k \<le> 18" and m: "pmm_free_range (MEM_VIRT_TO_PHYS v)
      (MEM_VIRT_TO_PHYS v + push_bit k PAGESIZE) (pmap s) = Some m"
      and res: "e = ERR_OK" "pmap s' = m"
    using assms(1) unfolding kernel_free_leaf_def Let_def
    by (auto simp: bind_Some split: if_splits intro: that [of 18] that [of 9] that [of 0, simplified])
  from pmm_free_range_first [OF m assms(2) page_room [OF assms(3) \<open>k \<le> 18\<close>] assms(3)]
    pmm_free_range_mono [OF m assms(2)] res
  show ?thesis by simp
qed

lemma kernel_free_levels_avail:
  assumes "kernel_free_levels v levels idx is s = Some (ERR_OK, s')" "pmm_wf (pmap s)" 
    and "MEM_VIRT_TO_PHYS v \<in> pmm_pages" "3 \<in> set is"
  shows "pmm_wf (pmap s') \<and> MEM_VIRT_TO_PHYS v \<in> pmm_avail (pmap s')"
  using assms
proof (induction "is")
  case (Cons i "is")
  then show ?case
    using kernel_free_leaf_avail [of v "entry_at (levels ! i) (idx ! i)" i s ERR_OK s']
    by (auto simp: Let_def split: if_splits)
qed simp

lemma free_page_avail:
  assumes "mem_kernel_free_page v s = Some (ERR_OK, s')" "pmm_wf (pmap s)"
    and "MEM_VIRT_TO_PHYS v \<in> pmm_pages"
  shows "pmm_wf (pmap s') \<and> MEM_VIRT_TO_PHYS v \<in> pmm_avail (pmap s')"
  using kernel_free_levels_avail [OF assms(1) [unfolded mem_kernel_free_page_def Let_def] assms(2,3)]
  by simp

subsection \<open>Table entries of frames\<close>

lemma frame_bits:
  assumes "p \<in> pmm_pages"
  shows "p AND VADDR_MASK = p" "take_bit 12 p = 0"
proof -
  from assms obtain n where n: "p = page_addr n" "n < 64 * MEM_MAP_SIZE"
    by (auto simp: pmm_pages_def)
  then have u: "unat p = 0x1000 * (0x80 + n)" by (simp add: unat_page_addr)
  then show al: "take_bit 12 p = 0"
    by (simp add: word_unat_eq_iff unsigned_take_bit_eq take_bit_eq_mod unat_mod_distrib)
  from u n(2) have "unat p < 2 ^ 48" by (simp add: MEM_MAP_SIZE_eq)
  have range: "bit p i \<Longrightarrow> 12 \<le> i \<and> i - 12 < 36" for i
  proof -
    assume i: "bit p i"
    have "\<not> bit (take_bit 12 p) i" using al by simp
    with i have "12 \<le> i" by (simp add: bit_take_bit_iff)
    with small_bits [OF \<open>unat p < 2 ^ 48\<close> i] show ?thesis by arith
  qed
  then show "p AND VADDR_MASK = p"
    unfolding vaddr_mask by (intro bit_word_eqI) (auto simp: bit_simps dest: range)
qed

lemma table_entry:
  assumes "p \<in> pmm_pages"
  shows "mmu_is_valid (p OR ATT_VALID OR ATT_PAGE OR ATT_AF_SET)"
    and "\<not> mmu_is_block (p OR ATT_VALID OR ATT_PAGE OR ATT_AF_SET)"
    and "mmu_get_vaddr (p OR ATT_VALID OR ATT_PAGE OR ATT_AF_SET) = MEM_PHYS_TO_VIRT p"
proof -
  have flags: "\<not> bit (1027 :: u64) n" if "12 \<le> n" for n
  proof
    assume "bit (1027 :: u64) n"
    from small_bits [OF _ this, of 11] that show False by simp
  qed
  have "(p OR ATT_VALID OR ATT_PAGE OR ATT_AF_SET) AND VADDR_MASK = p AND VADDR_MASK"
    using flags by (intro bit_word_eqI) (auto simp: bit_simps vaddr_mask layout_simps bit_1_iff)
  then show "mmu_get_vaddr (p OR ATT_VALID OR ATT_PAGE OR ATT_AF_SET) = MEM_PHYS_TO_VIRT p"
    using frame_bits [OF assms] by (simp add: mmu_get_vaddr_def)
qed (simp_all add: valid_bit block_bit layout_simps bit_simps)

end
