(* ===== verification/Mem_User.thy ===== *)
theory Mem_User
  imports Mem_Kernel
begin

text \<open>
  User mappings: mapping, looking up, unmapping and searching in a user table, and data aborts. The
  predicates \<open>leads_to\<close> and \<open>path_ok\<close> describe the way through the four levels to an entry.
\<close>

lemma idx_scaled:
  assumes "(i :: u64) < 512"
  shows "8 * i < PAGESIZE"
proof -
  have "unat i < 512" using assms by (simp add: word_less_nat_alt)
  moreover from this have "unat (8 * i) = 8 * unat i" by (subst unat_mult_no_overflow) simp_all
  ultimately show ?thesis by (simp add: word_less_nat_alt PAGESIZE_def)
qed

lemma entry_in_page: "i \<in> set (mmu_get_table_idx v) \<Longrightarrow> in_page t (entry_at t i)"
  using idx_scaled [OF table_idx_bound] by (simp add: in_page_def entry_at_def)

lemma phys_to_virt_nonzero:
  assumes "p \<in> pmm_pages"
  shows "MEM_PHYS_TO_VIRT p \<noteq> 0"
proof
  assume "MEM_PHYS_TO_VIRT p = 0"
  then have "p = - MEM_VA_KERNEL_START" by (simp add: MEM_PHYS_TO_VIRT_def eq_neg_iff_add_eq_0)
  then have "unat p = 2 ^ 48" by (simp add: layout_simps)
  moreover have "unat p < 2 ^ 32"
    using assms by (auto simp: pmm_pages_def unat_page_addr MEM_MAP_SIZE_eq)
  ultimately show False by simp
qed

lemma zero_invalid [simp]: "\<not> mmu_is_valid 0"
  by (simp add: valid_bit)

lemma alloc_page_empty:
  assumes "pmm_wf (pmap s)" "pmm_avail (pmap s) = {}" "kernel_attr perm \<noteq> None"
  shows "mem_kernel_alloc_page perm s = Some (\<lparr>r_addr = 0, r_err = ERR_MEM_OOM\<rparr>, s)"
proof -
  obtain p m where got: "pmm_get (pmap s) = Some (p, m)"
    using pmm.get_total [OF assms(1)] by auto
  with pmm.get_frame [OF assms(1) got] assms(2) have "p = 0" "m = pmap s" by auto
  with got assms(3) show ?thesis by (auto simp: mem_kernel_alloc_page_def)
qed

declare user_map_levels.simps [simp del]

lemma user_map_step:
  assumes "a = entry_at t (idx ! i)"
  shows "mmu_is_valid (cells s a) \<Longrightarrow>
      user_map_levels idx (i # is) t kp s = user_map_levels idx is (mmu_get_vaddr (cells s a)) kp s"
    and "\<not> mmu_is_valid (cells s a) \<Longrightarrow> mem_kernel_alloc_page MEM_RW s = Some (r, s1) \<Longrightarrow>
      r_err r = ERR_OK \<Longrightarrow>
      s3 = set_cell a (MEM_VIRT_TO_PHYS (r_addr r) OR ATT_VALID OR ATT_PAGE OR ATT_AF_SET)
        (zero_page (r_addr r) s1) \<Longrightarrow>
      user_map_levels idx (i # is) t kp s =
        user_map_levels idx is (mmu_get_vaddr (cells s3 a)) (kp[i := r_addr r]) s3"
    and "\<not> mmu_is_valid (cells s a) \<Longrightarrow> mem_kernel_alloc_page MEM_RW s = Some (r, s1) \<Longrightarrow>
      r_err r \<noteq> ERR_OK \<Longrightarrow>
      user_map_levels idx (i # is) t kp s =
        Option.bind (kernel_free_all kp s1) (\<lambda>s2. Some (r_err r, t, kp, s2))"
  unfolding assms by (simp_all add: user_map_levels.simps Let_def)

text \<open>
  C3. Allocating a kernel page always returns. On success the page was free and is not any more, so
  that no page is handed out twice; when memory runs out every frame taken on the way is given
  back; a frame is never made free by it.
\<close>
theorem kernel_alloc_page_frames:
  assumes "pmm_wf (pmap s)"
  shows "\<exists>r s'. mem_kernel_alloc_page perm s = Some (r, s') \<and> pmm_wf (pmap s') \<and>
    pmm_avail (pmap s') \<subseteq> pmm_avail (pmap s) \<and>
    (r_err r = ERR_OK \<longrightarrow>
       MEM_VIRT_TO_PHYS (r_addr r) \<in> pmm_avail (pmap s) - pmm_avail (pmap s')) \<and>
    (r_err r = ERR_MEM_OOM \<longrightarrow> pmm_avail (pmap s') = pmm_avail (pmap s)) \<and>
    (\<forall>b. \<not> table_window b \<longrightarrow> cells s' b = cells s b)"
proof -
  obtain r s' where "mem_kernel_alloc_page perm s = Some (r, s')"
    using mem_kernel_alloc_page_spec [OF assms] by blast
  with mem_kernel_alloc_page_spec [OF assms, of perm] alloc_page_frame [OF this]
  show ?thesis by auto
qed

text \<open>
  C4. When the page for the first missing table can be allocated and memory is exhausted afterwards,
  \<open>mem_user_map_page\<close> reports \<open>ERR_MEM_OOM\<close> and frees the page, but leaves the entry that points to
  it: the user table is left with a valid level 0 entry whose table is a free frame.
\<close>
theorem user_map_oom_dangling:
  assumes "pmm_wf (pmap s)" "user_attr perm attr \<noteq> None"
    and "a0 = entry_at tran_table (mmu_get_table_idx vaddr ! 0)"
    and "\<not> table_window a0" "\<not> mmu_is_valid (cells s a0)"
    and "\<forall>f\<in>pmm_avail (pmap s). \<not> in_page (MEM_PHYS_TO_VIRT f) a0"
    and "mem_kernel_alloc_page MEM_RW s = Some (r, s1)" "r_err r = ERR_OK"
    and "pmm_avail (pmap s1) = {}"
    and "mem_user_map_page tran_table vaddr paddr perm attr s = Some (e, s')"
  shows "e = ERR_MEM_OOM \<and> mmu_is_valid (cells s' a0) \<and>
    MEM_VIRT_TO_PHYS (mmu_get_vaddr (cells s' a0)) \<in> pmm_avail (pmap s')"
proof -
  define p where "p = MEM_VIRT_TO_PHYS (r_addr r)"
  have r: "r_addr r = MEM_PHYS_TO_VIRT p" by (simp add: p_def)
  have wf1: "pmm_wf (pmap s1)" and p: "p \<in> pmm_avail (pmap s)"
    using mem_kernel_alloc_page_spec [OF assms(1), of MEM_RW] assms(7,8) by (auto simp: p_def)
  have page: "p \<in> pmm_pages" using p pmm.avail_frames [OF assms(1)] by blast
  have nz: "r_addr r \<noteq> 0" using phys_to_virt_nonzero [OF page] by (simp add: r)
  define s3 where "s3 = set_cell a0 (p OR ATT_VALID OR ATT_PAGE OR ATT_AF_SET)
    (zero_page (r_addr r) s1)"
  define a1 where "a1 = entry_at (r_addr r) (mmu_get_table_idx vaddr ! 1)"
  have "\<not> in_page (r_addr r) a0" using assms(6) p by (auto simp: r)
  moreover have "in_page (r_addr r) a1"
    unfolding a1_def by (rule entry_in_page [OF nth_mem]) simp
  ultimately have a1: "cells s3 a1 = 0" by (auto simp: s3_def)
  have va: "mmu_get_vaddr (cells s3 a0) = r_addr r"
    using table_entry(3) [OF page] by (simp add: s3_def r)
  have oom: "mem_kernel_alloc_page MEM_RW s3 = Some (\<lparr>r_addr = 0, r_err = ERR_MEM_OOM\<rparr>, s3)"
    using wf1 assms(9) by (intro alloc_page_empty) (simp_all add: s3_def kernel_attr_def)
  have "user_map_levels (mmu_get_table_idx vaddr) [0, 1, 2] tran_table [0, 0, 0, 0] s =
      user_map_levels (mmu_get_table_idx vaddr) [1, 2] (r_addr r) [r_addr r, 0, 0, 0] s3"
    using user_map_step(2) [OF assms(3,5,7,8) s3_def [unfolded p_def]] va by simp
  also have "\<dots> = Option.bind (kernel_free_all [r_addr r, 0, 0, 0] s3)
      (\<lambda>s2. Some (ERR_MEM_OOM, r_addr r, [r_addr r, 0, 0, 0], s2))"
    using user_map_step(3) [OF a1_def _ oom] a1 by simp
  finally obtain s4 where s4: "kernel_free_all [r_addr r, 0, 0, 0] s3 = Some s4"
      and res: "e = ERR_MEM_OOM" "s' = s4"
    using assms(2,10) by (auto simp: mem_user_map_page_def Let_def bind_Some)
  from s4 nz have free: "mem_kernel_free_page (r_addr r) s3 = Some (ERR_OK, s4)"
    by (auto simp: bind_Some split: if_splits)
  have "cells s4 a0 = cells s3 a0" using free_page_frame [OF free assms(4)] .
  moreover have "p \<in> pmm_avail (pmap s4)"
    using free_page_avail [OF free] wf1 page by (simp add: s3_def p_def)
  moreover have "mmu_is_valid (cells s3 a0)"
    using table_entry(1) [OF page] by (simp add: s3_def)
  ultimately show ?thesis using res va by (simp add: p_def)
qed

text \<open>A machine with one free frame: kernel tables of the first levels are there, the rest is empty.\<close>

definition one_frame :: mem_state where
  "one_frame = \<lparr>cells = \<lambda>a. if 0xffffffffc0000000 \<le> a then 3 else 0,
     pmap = (NOT 1) # replicate 3964 (-1)\<rparr>"

lemma one_frame_wf: "pmm_wf (pmap one_frame)" "pmm_avail (pmap one_frame) = {0x80000}"
proof -
  show "pmm_wf (pmap one_frame)" by (simp add: one_frame_def pmm_wf_def MEM_MAP_SIZE_eq)
  have "page_free (pmap one_frame) p \<longleftrightarrow> p = 0" for p
  proof (cases "p div 64")
    case 0
    then show ?thesis
      by (auto simp: page_free_def one_frame_def MEM_MAP_SIZE_eq bit_simps)
  next
    case (Suc n)
    then have "p < 253760 \<longrightarrow> n < 3964" by auto
    with Suc show ?thesis
      by (auto simp: page_free_def one_frame_def MEM_MAP_SIZE_eq)
  qed
  then show "pmm_avail (pmap one_frame) = {0x80000}"
    by (simp add: pmm_avail_def page_addr_def layout_simps)
qed

lemma one_frame_get:
  "pmm_get (pmap one_frame) = Some (0x80000, (-1) # replicate 3964 (-1))"
proof -
  have "pmm_get_off (-2) 0 = Some 0" by (simp add: pmm_get_off_step bit_simps)
  then show ?thesis
    by (simp add: pmm_get_def pmm_get_from.simps one_frame_def MEM_MAP_SIZE_eq layout_simps)
qed

definition one_frame_used :: mem_state where
  "one_frame_used = set_cell 0xffffff8000000400 0x60000000080423
     (one_frame\<lparr>pmap := (-1) # replicate 3964 (-1)\<rparr>)"

lemma one_frame_idx:
  "mmu_get_table_idx 0xffff000000080000 = [0, 0, 0, 0x80]" "mmu_get_table_idx 0 = [0, 0, 0, 0]"
  by (simp_all add: mmu_get_table_idx_def drop_bit_eq_div)

lemma one_frame_levels:
  "kernel_levels [0, 0, 0, 0x80] =
     [0xfffffffffffff000, 0xffffffffffe00000, 0xffffffffc0000000, 0xffffff8000000000]"
  by (simp add: kernel_levels_def mmu_get_next_kernel_level_def)

lemma first_frame_alloc:
  assumes "pmap s = pmap one_frame"
    and "\<forall>l\<in>{0xfffffffffffff000, 0xffffffffffe00000, 0xffffffffc0000000}. cells s l = 3"
    and "cells s 0xffffff8000000400 = 0"
  shows "mem_kernel_alloc_page MEM_RW s =
     Some (\<lparr>r_addr = 0xffff000000080000, r_err = ERR_OK\<rparr>,
       set_cell 0xffffff8000000400 0x60000000080423 (s\<lparr>pmap := (-1) # replicate 3964 (-1)\<rparr>))"
proof -
  have get: "pmm_get (pmap s) = Some (0x80000, (-1) # replicate 3964 (-1))"
    using one_frame_get assms(1) by simp
  have idx: "[0, 0, 0, 0x80] = mmu_get_table_idx (MEM_PHYS_TO_VIRT 0x80000)"
    by (simp add: MEM_PHYS_TO_VIRT_def layout_simps one_frame_idx)
  have al: "alloc_levels (kernel_levels [0, 0, 0, 0x80]) [0, 0, 0, 0x80] [0, 1, 2]
      [0, 0, 0, 0x80000] (s\<lparr>pmap := (-1) # replicate 3964 (-1)\<rparr>) =
    Some (ERR_OK, [0, 0, 0, 0x80000], s\<lparr>pmap := (-1) # replicate 3964 (-1)\<rparr>)"
    using assms(2)
    by (simp add: alloc_levels.simps one_frame_levels entry_at_def valid_bit bit_simps)
  have attr: "kernel_attr MEM_RW = Some 0x60000000000000"
    by (simp add: kernel_attr_def layout_simps)
  show ?thesis
    using alloc_page_eq [OF attr get _ idx refl refl al] assms(3)
    by (simp add: one_frame_levels entry_at_def MEM_PHYS_TO_VIRT_def layout_simps)
qed

lemma one_frame_alloc:
  "mem_kernel_alloc_page MEM_RW one_frame =
     Some (\<lparr>r_addr = 0xffff000000080000, r_err = ERR_OK\<rparr>, one_frame_used)"
  using first_frame_alloc [of one_frame]
  by (simp add: one_frame_used_def) (simp add: one_frame_def word_le_nat_alt)

theorem kernel_alloc_page_frames_witness:
  "\<exists>r s'. mem_kernel_alloc_page MEM_RW one_frame = Some (r, s') \<and> r_err r = ERR_OK \<and>
     MEM_VIRT_TO_PHYS (r_addr r) \<in> {0x80000} - pmm_avail (pmap s')"
  using kernel_alloc_page_frames [OF one_frame_wf(1), of MEM_RW] one_frame_alloc one_frame_wf(2)
  by auto

lemma one_frame_used: "pmm_wf (pmap one_frame_used)" "pmm_avail (pmap one_frame_used) = {}"
  using pmm.get_frame [OF one_frame_wf(1) one_frame_get] one_frame_wf(2)
  by (simp_all add: one_frame_used_def)

lemma one_frame_free:
  assumes "pmap s = pmap one_frame_used"
    and "\<forall>l\<in>{0xfffffffffffff000, 0xffffffffffe00000, 0xffffffffc0000000}. cells s l = 3"
    and "cells s 0xffffff8000000400 = 0x60000000080423"
  shows "\<exists>s'. mem_kernel_free_page 0xffff000000080000 s = Some (ERR_OK, s')"
proof -
  have "0x80000 \<in> pmm_pages"
    using avail_pages [of "pmap one_frame"] one_frame_wf(2) by simp
  then obtain m where "pmm_free 0x80000 (pmap s) = Some m"
    using pmm.free_spec one_frame_used(1) assms(1) by metis
  then have "pmm_free_range 0x80000 0x81000 (pmap s) = Some m"
    by (simp add: pmm_free_range.simps [of "0x80000"] pmm_free_range.simps [of "0x81000"] PAGESIZE_def)
  then show ?thesis
    using assms(2,3)
    by (simp add: mem_kernel_free_page_def one_frame_idx one_frame_levels entry_at_def valid_bit
        block_bit bit_simps kernel_free_leaf_def MEM_VIRT_TO_PHYS_def layout_simps)
qed

lemma one_frame_map:
  "\<exists>e s'. mem_user_map_page 0xffff000000200000 0 0 MEM_RW MEM_NORM one_frame = Some (e, s')"
proof -
  define T :: u64 where "T = 0xffff000000200000"
  define P :: u64 where "P = 0xffff000000080000"
  define s3 where "s3 = set_cell T (MEM_VIRT_TO_PHYS P OR ATT_VALID OR ATT_PAGE OR ATT_AF_SET)
    (zero_page P one_frame_used)"
  have a0: "T = entry_at T ([0, 0, 0, 0] ! 0)" by (simp add: entry_at_def)
  have inv: "\<not> mmu_is_valid (cells one_frame T)"
    by (simp add: one_frame_def T_def word_le_nat_alt)
  have "user_map_levels [0, 0, 0, 0] [0, 1, 2] T [0, 0, 0, 0] one_frame =
      user_map_levels [0, 0, 0, 0] [1, 2] (mmu_get_vaddr (cells s3 T)) [P, 0, 0, 0] s3"
    using user_map_step(2) [OF a0 inv one_frame_alloc, of s3] by (simp add: s3_def P_def)
  also have "mmu_get_vaddr (cells s3 T) = P"
    by (simp add: s3_def mmu_get_vaddr_def P_def MEM_VIRT_TO_PHYS_def MEM_PHYS_TO_VIRT_def layout_simps)
  also have "user_map_levels [0, 0, 0, 0] [1, 2] P [P, 0, 0, 0] s3 =
      Option.bind (kernel_free_all [P, 0, 0, 0] s3) (\<lambda>s2. Some (ERR_MEM_OOM, P, [P, 0, 0, 0], s2))"
  proof -
    have oom: "mem_kernel_alloc_page MEM_RW s3 = Some (\<lparr>r_addr = 0, r_err = ERR_MEM_OOM\<rparr>, s3)"
      using one_frame_used by (intro alloc_page_empty) (simp_all add: s3_def kernel_attr_def)
    have "P = entry_at P ([0, 0, 0, 0] ! 1)" by (simp add: entry_at_def)
    from user_map_step(3) [OF this _ oom] show ?thesis
      by (simp add: s3_def T_def P_def in_page_def PAGESIZE_def)
  qed
  finally have levels: "user_map_levels [0, 0, 0, 0] [0, 1, 2] T [0, 0, 0, 0] one_frame = \<dots>" .
  have "\<exists>s4. kernel_free_all [P, 0, 0, 0] s3 = Some s4"
    using one_frame_free [of s3]
    by (auto simp: s3_def T_def P_def in_page_def PAGESIZE_def one_frame_used_def one_frame_def
        word_le_nat_alt word_less_nat_alt)
  then obtain s4 where s4: "kernel_free_all [P, 0, 0, 0] s3 = Some s4" by blast
  have "user_map_levels [0, 0, 0, 0] [0, 1, 2] T [0, 0, 0, 0] one_frame =
      Some (ERR_MEM_OOM, P, [P, 0, 0, 0], s4)"
    using levels unfolding s4 by simp
  then show ?thesis
    by (simp add: mem_user_map_page_def user_attr_def one_frame_idx Let_def flip: T_def)
qed

theorem user_map_oom_dangling_witness:
  "\<exists>s'. mem_user_map_page 0xffff000000200000 0 0 MEM_RW MEM_NORM one_frame = Some (ERR_MEM_OOM, s') \<and>
    mmu_is_valid (cells s' 0xffff000000200000) \<and>
    MEM_VIRT_TO_PHYS (mmu_get_vaddr (cells s' 0xffff000000200000)) \<in> pmm_avail (pmap s')"
proof -
  define T :: u64 where "T = 0xffff000000200000"
  have a0: "T = entry_at T (mmu_get_table_idx 0 ! 0)"
    by (simp add: one_frame_idx entry_at_def)
  note used = one_frame_used(2)
  obtain e s' where map: "mem_user_map_page T 0 0 MEM_RW MEM_NORM one_frame = Some (e, s')"
    using one_frame_map by (auto simp: T_def)
  have "e = ERR_MEM_OOM \<and> mmu_is_valid (cells s' T) \<and>
      MEM_VIRT_TO_PHYS (mmu_get_vaddr (cells s' T)) \<in> pmm_avail (pmap s')"
  proof (rule user_map_oom_dangling [OF one_frame_wf(1) _ a0 _ _ _ one_frame_alloc _ used map])
    show "\<not> table_window T" by (simp add: T_def table_window_def word_le_nat_alt)
    show "\<not> mmu_is_valid (cells one_frame T)" by (simp add: T_def one_frame_def word_le_nat_alt)
    show "\<forall>f\<in>pmm_avail (pmap one_frame). \<not> in_page (MEM_PHYS_TO_VIRT f) T"
      by (simp add: one_frame_wf(2) in_page_def T_def MEM_PHYS_TO_VIRT_def layout_simps word_less_nat_alt)
  qed (simp_all add: user_attr_def)
  with map show ?thesis by (auto simp: T_def)
qed

subsection \<open>Mapping a user page\<close>

lemma frame_vaddr:
  assumes "p \<in> pmm_pages"
  shows "unat (MEM_PHYS_TO_VIRT p) = 0xffff000000000000 + unat p" "unat p < 2 ^ 32"
    "unat p mod 4096 = 0"
proof -
  from assms obtain n where n: "p = page_addr n" "n < 64 * MEM_MAP_SIZE"
    by (auto simp: pmm_pages_def)
  then have u: "unat p = 4096 * (128 + n)" by (simp add: unat_page_addr)
  then show lt: "unat p < 2 ^ 32" and "unat p mod 4096 = 0"
    using n(2) by (simp_all add: MEM_MAP_SIZE_eq)
  from lt show "unat (MEM_PHYS_TO_VIRT p) = 0xffff000000000000 + unat p"
    by (simp add: MEM_PHYS_TO_VIRT_def layout_simps unat_add_no_overflow)
qed

lemma page_sum:
  assumes "a = P + (x :: u64)" "unat P = 0xffff000000000000 + n" "n < 2 ^ 32" "unat x < 4096"
  shows "unat a = unat P + unat x"
  unfolding assms(1) by (rule unat_add_no_overflow) (use assms(2-4) in simp)

lemma in_frame:
  assumes "p \<in> pmm_pages" "in_page (MEM_PHYS_TO_VIRT p) a"
  shows "unat a div 4096 * 4096 = unat (MEM_PHYS_TO_VIRT p)" "\<not> table_window a"
proof -
  note P = frame_vaddr [OF assms(1)]
  define d where "d = unat (a - MEM_PHYS_TO_VIRT p)"
  have d: "d < 4096" using assms(2) by (simp add: d_def in_page_def PAGESIZE_def word_less_nat_alt)
  have "a = MEM_PHYS_TO_VIRT p + (a - MEM_PHYS_TO_VIRT p)" by simp
  then have a: "unat a = unat (MEM_PHYS_TO_VIRT p) + d"
    using page_sum [of a "MEM_PHYS_TO_VIRT p" "a - MEM_PHYS_TO_VIRT p", OF _ P(1,2)] d
    by (simp add: d_def)
  obtain q where q: "unat p = 4096 * q" using P(3) by auto
  have N: "unat a = 4096 * (0xffff000000000 + q) + d" using a P(1) q by simp
  have "(4096 * (0xffff000000000 + q) + d) div 4096 = 0xffff000000000 + q"
    using d by (subst div_mult_self4) simp_all
  then show "unat a div 4096 * 4096 = unat (MEM_PHYS_TO_VIRT p)"
    using N P(1) q by simp
  have "unat a < 0xffffff8000000000" using N P(2) q d by simp
  then show "\<not> table_window a" by (simp add: table_window_def word_le_nat_alt)
qed

lemma frames_disjoint:
  assumes "p \<in> pmm_pages" "q \<in> pmm_pages" "in_page (MEM_PHYS_TO_VIRT p) a" "in_page (MEM_PHYS_TO_VIRT q) a"
  shows "p = q"
proof -
  have "unat (MEM_PHYS_TO_VIRT p) = unat (MEM_PHYS_TO_VIRT q)"
    using in_frame(1) [OF assms(1,3)] in_frame(1) [OF assms(2,4)] by simp
  then show ?thesis by (simp add: word_unat_eq_iff [symmetric])
qed

text \<open>A cell the operations on kernel pages do not touch: no table of the kernel, no free frame.\<close>

definition safe_cell :: "mem_state \<Rightarrow> u64 \<Rightarrow> bool" where
  "safe_cell s a \<longleftrightarrow> \<not> table_window a \<and> (\<forall>f\<in>pmm_avail (pmap s). \<not> in_page (MEM_PHYS_TO_VIRT f) a)"

text \<open>
  The entries on the way to an address, as far as there are tables, are safe and pairwise different
  cells, and the tables are no blocks; \<open>B\<close> are the cells above.
\<close>

fun path_ok :: "mem_state \<Rightarrow> u64 list \<Rightarrow> u64 \<Rightarrow> u64 set \<Rightarrow> bool" where
  "path_ok s [] t B = True"
| "path_ok s (i # is) t B =
     (let a = entry_at t i in a \<notin> B \<and> safe_cell s a \<and>
        (is \<noteq> [] \<and> mmu_is_valid (cells s a) \<longrightarrow>
           \<not> mmu_is_block (cells s a) \<and> path_ok s is (mmu_get_vaddr (cells s a)) (insert a B)))"

text \<open>The tables lead to the entry at \<open>a\<close>.\<close>

fun leads_to :: "mem_state \<Rightarrow> u64 list \<Rightarrow> u64 \<Rightarrow> u64 \<Rightarrow> bool" where
  "leads_to s [] t a = False"
| "leads_to s (i # is) t a =
     (let e = cells s (entry_at t i) in
      if is = [] then a = entry_at t i
      else mmu_is_valid e \<and> \<not> mmu_is_block e \<and> leads_to s is (mmu_get_vaddr e) a)"

lemma get_kaddr_leads_to:
  assumes "leads_to s (mmu_get_table_idx vaddr) t a" "mmu_is_valid (cells s a)"
  shows "mem_user_get_kaddr t vaddr s = mmu_get_vaddr (cells s a)"
  using assms by (auto simp: mmu_get_table_idx_def mem_user_get_kaddr_def Let_def)

lemma user_map_levels_leads:
  assumes "user_map_levels idx is t kp s = Some (ERR_OK, t', kp', s')" "pmm_wf (pmap s)"
    and "path_ok s (map ((!) idx) is @ [j]) t B" "\<forall>b\<in>B. safe_cell s b"
    and "\<forall>i\<in>set is. idx ! i < 512" "j < 512"
    and "s'' = set_cell (entry_at t' j) v s'"
  shows "leads_to s'' (map ((!) idx) is @ [j]) t (entry_at t' j) \<and> entry_at t' j \<notin> B \<and>
    (\<forall>b\<in>B. cells s'' b = cells s b)"
  using assms(1-5)
proof (induction "is" arbitrary: t kp s B)
  case Nil
  with assms(7) show ?case by (auto simp: user_map_levels.simps Let_def)
next
  case (Cons i "is")
  define a where "a = entry_at t (idx ! i)"
  have a: "a \<notin> B" "safe_cell s a" and ne: "map ((!) idx) is @ [j] \<noteq> []"
    using Cons.prems(3) by (simp_all add: a_def Let_def)
  show ?case
  proof (cases "mmu_is_valid (cells s a)")
    case True
    have path: "\<not> mmu_is_block (cells s a)"
        "path_ok s (map ((!) idx) is @ [j]) (mmu_get_vaddr (cells s a)) (insert a B)"
      using Cons.prems(3) True by (simp_all add: a_def Let_def)
    have "user_map_levels idx is (mmu_get_vaddr (cells s a)) kp s = Some (ERR_OK, t', kp', s')"
      using Cons.prems(1) user_map_step(1) [OF a_def True] by simp
    from Cons.IH [OF this Cons.prems(2) path(2)] Cons.prems(4,5) a path(1) True
    show ?thesis by (auto simp: Let_def simp flip: a_def)
  next
    case False
    obtain r s1 where al: "mem_kernel_alloc_page MEM_RW s = Some (r, s1)"
      using mem_kernel_alloc_page_spec [OF Cons.prems(2)] by blast
    have ok: "r_err r = ERR_OK"
    proof (rule ccontr)
      assume err: "r_err r \<noteq> ERR_OK"
      from user_map_step(3) [OF a_def False al err, of "is" kp] Cons.prems(1) err
      show False by (cases "kernel_free_all kp s1") auto
    qed
    define p where "p = MEM_VIRT_TO_PHYS (r_addr r)"
    have r: "r_addr r = MEM_PHYS_TO_VIRT p" by (simp add: p_def)
    define s3 where "s3 = set_cell a (p OR ATT_VALID OR ATT_PAGE OR ATT_AF_SET)
      (zero_page (MEM_PHYS_TO_VIRT p) s1)"
    have wf1: "pmm_wf (pmap s1)" and p: "p \<in> pmm_avail (pmap s)" "p \<notin> pmm_avail (pmap s1)"
      and sub: "pmm_avail (pmap s1) \<subseteq> pmm_avail (pmap s)"
      using mem_kernel_alloc_page_spec [OF Cons.prems(2), of MEM_RW] al ok by (auto simp: p_def)
    have page: "p \<in> pmm_pages" using p(1) pmm.avail_frames [OF Cons.prems(2)] by blast
    note entry = table_entry [OF page]
    have e: "cells s3 a = p OR ATT_VALID OR ATT_PAGE OR ATT_AF_SET" by (simp add: s3_def)
    have step: "user_map_levels idx is (MEM_PHYS_TO_VIRT p) (kp[i := r_addr r]) s3 =
        Some (ERR_OK, t', kp', s')"
      using Cons.prems(1) user_map_step(2) [OF a_def False al ok s3_def [folded r, unfolded p_def], of "is" kp]
        e entry(3) by (simp add: r)
    have safe3: "safe_cell s3 b" if "safe_cell s b" for b
      using that sub by (auto simp: safe_cell_def s3_def)
    have keep: "cells s3 b = cells s b" if "b \<in> B" for b
      using that Cons.prems(4) p(1) a(1) alloc_page_frame [OF al, of b]
      by (auto simp: s3_def safe_cell_def)
    have path: "path_ok s3 (map ((!) idx) is @ [j]) (MEM_PHYS_TO_VIRT p) (insert a B)"
    proof -
      obtain j1 js where js: "map ((!) idx) is @ [j] = j1 # js" by (cases "map ((!) idx) is @ [j]") auto
      have "j1 \<in> insert j ((!) idx ` set is)"
        using js by (cases "is") auto
      then have "j1 < 512" using Cons.prems(5) assms(6) by auto
      define a1 where "a1 = entry_at (MEM_PHYS_TO_VIRT p) j1"
      have in1: "in_page (MEM_PHYS_TO_VIRT p) a1"
        using idx_scaled [OF \<open>j1 < 512\<close>] by (simp add: a1_def in_page_def entry_at_def)
      then have "a1 \<noteq> a" "a1 \<notin> B"
        using a(2) Cons.prems(4) p(1) by (auto simp: safe_cell_def)
      moreover have "safe_cell s3 a1"
        using in_frame(2) [OF page in1] p(2) frames_disjoint [OF page _ in1] pmm.avail_frames [OF wf1]
        by (auto simp: safe_cell_def s3_def)
      moreover have "cells s3 a1 = 0" using in1 \<open>a1 \<noteq> a\<close> by (simp add: s3_def)
      ultimately show ?thesis by (simp add: js flip: a1_def)
    qed
    from Cons.IH [OF step _ path] wf1 Cons.prems(4,5) a safe3 keep e entry
    show ?thesis by (auto simp: Let_def s3_def simp flip: a_def)
  qed
qed

text \<open>
  C5. A page that \<open>mem_user_map_page\<close> maps successfully is found: \<open>mem_user_get_kaddr\<close> gives the
  kernel address of the physical page it was mapped to.
\<close>
theorem user_map_get_kaddr:
  assumes "pmm_wf (pmap s)" "path_ok s (mmu_get_table_idx vaddr) tran_table {}"
    and "mem_user_map_page tran_table vaddr paddr perm attr s = Some (ERR_OK, s')"
  shows "mem_user_get_kaddr tran_table vaddr s' = mmu_get_vaddr paddr"
proof -
  define idx where "idx = mmu_get_table_idx vaddr"
  obtain pattr where pattr: "user_attr perm attr = Some pattr"
    using assms(3) by (cases "user_attr perm attr") (auto simp: mem_user_map_page_def)
  obtain t' kp s1 where levels: "user_map_levels idx [0, 1, 2] tran_table [0, 0, 0, 0] s = Some (ERR_OK, t', kp, s1)"
      and res: "s' = set_cell (entry_at t' (idx ! 3)) (paddr OR pattr OR ATT_VALID OR ATT_PAGE OR ATT_AF_SET) s1"
    using assms(3) pattr
    by (auto simp: mem_user_map_page_def Let_def bind_Some idx_def split: if_splits)
  have idx: "map ((!) idx) [0, 1, 2] @ [idx ! 3] = mmu_get_table_idx vaddr"
    by (simp add: idx_def mmu_get_table_idx_def)
  have bound: "idx ! i < 512" if "i < 4" for i
    using that table_idx_bound [of "idx ! i" vaddr] by (simp add: idx_def)
  have "leads_to s' (mmu_get_table_idx vaddr) tran_table (entry_at t' (idx ! 3))"
    using user_map_levels_leads [OF levels assms(1) _ _ _ _ res, of "{}"] assms(2) bound
    by (simp only: idx) simp
  moreover have "cells s' (entry_at t' (idx ! 3)) =
      paddr OR pattr OR ATT_VALID OR ATT_PAGE OR ATT_AF_SET"
    by (simp add: res)
  moreover have "mmu_get_vaddr (paddr OR pattr OR ATT_VALID OR ATT_PAGE OR ATT_AF_SET) = mmu_get_vaddr paddr"
  proof -
    have "(x OR y) AND VADDR_MASK = x AND VADDR_MASK" if "y AND VADDR_MASK = 0" for x y
      by (simp add: bit.conj_disj_distrib2 that)
    moreover have "pattr AND VADDR_MASK = 0"
      using pattr by (cases perm; cases attr) (auto simp: user_attr_def layout_simps)
    ultimately show ?thesis
      by (simp add: mmu_get_vaddr_def layout_simps)
  qed
  moreover have "mmu_is_valid (paddr OR pattr OR ATT_VALID OR ATT_PAGE OR ATT_AF_SET)"
    by (simp add: valid_bit layout_simps bit_simps)
  ultimately show ?thesis
    using get_kaddr_leads_to by simp
qed

subsection \<open>Unmapping, searching and data aborts\<close>

lemma mark_freed_zero: "entry_ref e = 0 \<Longrightarrow> mmu_mark_freed e = (0, e)"
  by (simp add: mmu_mark_freed_eq)

lemma set_cell_same: "set_cell a (cells s a) s = s"
  by (simp add: set_cell_def)

lemma find_used_result:
  "p \<le> n \<Longrightarrow> \<forall>q<p. \<not> user_page_used t (addr + of_nat q * PAGESIZE) s \<Longrightarrow>
   (case find_used t addr n p s of (none_used, k) \<Rightarrow>
      if none_used then \<forall>q<n. \<not> user_page_used t (addr + of_nat q * PAGESIZE) s
      else k < n \<and> user_page_used t (addr + of_nat k * PAGESIZE) s)"
proof (induction t addr n p s rule: find_used.induct)
  case (1 t addr n p s)
  show ?case
  proof (cases "p < n \<and> \<not> user_page_used t (addr + of_nat p * PAGESIZE) s")
    case True
    have "\<forall>q<p + 1. \<not> user_page_used t (addr + of_nat q * PAGESIZE) s"
      using 1(3) True less_Suc_eq by auto
    with 1(1) True have "case find_used t addr n (p + 1) s of (none_used, k) \<Rightarrow>
      if none_used then \<forall>q<n. \<not> user_page_used t (addr + of_nat q * PAGESIZE) s
      else k < n \<and> user_page_used t (addr + of_nat k * PAGESIZE) s" by auto
    with True show ?thesis by (subst find_used.simps) simp
  next
    case False
    with 1(2,3) show ?thesis by (subst find_used.simps) auto
  qed
qed

definition run_empty :: "u64 \<Rightarrow> u64 \<Rightarrow> nat \<Rightarrow> mem_state \<Rightarrow> bool" where
  "run_empty t addr n s \<longleftrightarrow> (\<forall>q<n. \<not> user_page_used t (addr + of_nat q * PAGESIZE) s)"

text \<open>
  When some run of \<open>n\<close> unused pages starts \<open>k\<close> pages above \<open>addr\<close>, the search returns, and it
  returns the start of the first such run.
\<close>
lemma user_find_empty_first:
  assumes "run_empty t (addr + of_nat k * PAGESIZE) n s"
    and "\<forall>j<k. \<not> run_empty t (addr + of_nat j * PAGESIZE) n s"
  shows "mem_user_find_empty t addr n s = Some (addr + of_nat k * PAGESIZE)"
  using assms
proof (induction k arbitrary: addr rule: less_induct)
  case (less k)
  obtain none_used p where fu: "find_used t addr n 0 s = (none_used, p)" by fastforce
  with find_used_result [of 0 n t addr s] have res:
      "if none_used then run_empty t addr n s
       else p < n \<and> user_page_used t (addr + of_nat p * PAGESIZE) s"
    by (simp add: run_empty_def)
  show ?case
  proof (cases none_used)
    case True
    with res less.prems(2) have "k = 0" by (cases k) auto
    with True fu show ?thesis by (subst mem_user_find_empty.simps) simp
  next
    case False
    with res have used: "p < n" "user_page_used t (addr + of_nat p * PAGESIZE) s" by auto
    have shift: "addr + of_nat (p + 1) * PAGESIZE + of_nat j * PAGESIZE =
        addr + of_nat (p + 1 + j) * PAGESIZE" for j
      by (simp add: algebra_simps)
    have "p < k"
    proof (rule ccontr)
      assume "\<not> p < k"
      then have "addr + of_nat p * PAGESIZE = addr + of_nat k * PAGESIZE + of_nat (p - k) * PAGESIZE"
        by (simp add: of_nat_diff algebra_simps)
      with used(2) have "user_page_used t (addr + of_nat k * PAGESIZE + of_nat (p - k) * PAGESIZE) s"
        by metis
      moreover have "p - k < n" using used(1) by simp
      ultimately show False using less.prems(1) unfolding run_empty_def by blast
    qed
    then have k: "k = p + 1 + (k - p - 1)" by simp
    have "mem_user_find_empty t (addr + of_nat (p + 1) * PAGESIZE) n s =
        Some (addr + of_nat (p + 1) * PAGESIZE + of_nat (k - p - 1) * PAGESIZE)"
    proof (rule less.IH)
      show "k - p - 1 < k" using \<open>p < k\<close> by simp
      show "run_empty t (addr + of_nat (p + 1) * PAGESIZE + of_nat (k - p - 1) * PAGESIZE) n s"
        unfolding shift using less.prems(1) k by simp
      show "\<forall>j<k - p - 1. \<not> run_empty t (addr + of_nat (p + 1) * PAGESIZE + of_nat j * PAGESIZE) n s"
        unfolding shift
      proof (intro allI impI)
        fix j assume "j < k - p - 1"
        then have "p + 1 + j < k" by simp
        with less.prems(2) show "\<not> run_empty t (addr + of_nat (p + 1 + j) * PAGESIZE) n s" by blast
      qed
    qed
    with False fu show ?thesis
      unfolding shift k [symmetric]
      by (subst mem_user_find_empty.simps) (simp add: add.commute)
  qed
qed

text \<open>No entry from level 1 on has another owner.\<close>

fun sole_owner :: "mem_state \<Rightarrow> u64 list \<Rightarrow> u64 \<Rightarrow> bool" where
  "sole_owner s [] t = True"
| "sole_owner s (i # is) t =
     (let e = cells s (entry_at t i) in entry_ref e = 0 \<and> sole_owner s is (mmu_get_vaddr e))"

lemma abort_level_sole:
  "entry_ref (cells s (entry_at t i)) = 0 \<Longrightarrow> abort_level parent t i s = Some (Some t, s)"
  by (simp add: abort_level_def Let_def mark_freed_zero set_cell_same)

lemma data_abort_sole:
  assumes "leads_to s (mmu_get_table_idx vaddr) (MEM_PHYS_TO_VIRT table) a"
    and "mmu_is_valid (cells s a)"
    and "sole_owner s (tl (mmu_get_table_idx vaddr))
      (mmu_get_vaddr (cells s (entry_at (MEM_PHYS_TO_VIRT table) (hd (mmu_get_table_idx vaddr)))))"
  shows "mmu_handle_data_abort table vaddr s = abort_page a vaddr s"
  using assms
  by (auto simp: mmu_handle_data_abort_def mmu_get_table_idx_def Let_def abort_level_sole)

lemma writable_entry:
  fixes c :: u64
  assumes "p \<in> pmm_pages"
  defines "v \<equiv> c AND NOT VADDR_MASK AND NOT (push_bit ATT_AP_OFF 3) OR p OR ATT_AP_RW_RW"
  shows "entry_ap v = 1" "mmu_get_vaddr v = MEM_PHYS_TO_VIRT p"
proof -
  have low: "\<not> bit p n" if "n < 12" for n
  proof -
    have "\<not> bit (take_bit 12 p) n" using frame_bits(2) [OF assms(1)] by simp
    with that show ?thesis by (simp add: bit_take_bit_iff)
  qed
  have b64: "bit (64 :: nat) n \<longleftrightarrow> n = 6" "bit (64 :: int) n \<longleftrightarrow> n = 6" for n
    using bit_exp_iff [of 6 n, where ?'a = nat] bit_exp_iff [of 6 n, where ?'a = int] by auto
  have "v AND push_bit 6 (mask 2) = push_bit 6 1"
    unfolding v_def ATT_AP_OFF_def ATT_AP_RW_RW_def vaddr_mask masks
    using low by (intro bit_word_eqI) (auto simp: bit_simps b64)
  then show "entry_ap v = 1" using get_field_test [of 1 2 6 v] by simp
  have "v AND VADDR_MASK = p AND VADDR_MASK"
    unfolding v_def ATT_AP_OFF_def ATT_AP_RW_RW_def vaddr_mask masks
    by (intro bit_word_eqI) (auto simp: bit_simps b64)
  then show "mmu_get_vaddr v = MEM_PHYS_TO_VIRT p"
    using frame_bits(1) [OF assms(1)] by (simp add: mmu_get_vaddr_def)
qed

text \<open>
  C7. A data abort on a page nobody else owns, whatever its permissions and whatever the cause,
  replaces the page by a copy that user space may write: a read-only or executable page becomes
  writable. The page it replaces is not given back to the allocator.
\<close>
theorem data_abort_makes_writable:
  assumes "pmm_wf (pmap s)"
    and "leads_to s (mmu_get_table_idx vaddr) (MEM_PHYS_TO_VIRT table) a" "mmu_is_valid (cells s a)"
    and "sole_owner s (tl (mmu_get_table_idx vaddr))
      (mmu_get_vaddr (cells s (entry_at (MEM_PHYS_TO_VIRT table) (hd (mmu_get_table_idx vaddr)))))"
    and "mem_kernel_alloc_page MEM_RW s = Some (r, s1)" "r_err r = ERR_OK"
  shows "\<exists>s'. mmu_handle_data_abort table vaddr s = Some (vaddr AND VADDR_MASK, s') \<and>
    entry_ap (cells s' a) = 1 \<and> mmu_get_vaddr (cells s' a) = r_addr r \<and>
    pmm_avail (pmap s') \<subseteq> pmm_avail (pmap s) - {MEM_VIRT_TO_PHYS (r_addr r)}"
proof -
  define p where "p = MEM_VIRT_TO_PHYS (r_addr r)"
  have r: "r_addr r = MEM_PHYS_TO_VIRT p" by (simp add: p_def)
  have p: "p \<in> pmm_avail (pmap s)" "pmm_avail (pmap s1) \<subseteq> pmm_avail (pmap s) - {p}"
    using mem_kernel_alloc_page_spec [OF assms(1), of MEM_RW] assms(5,6) by (auto simp: p_def)
  then have page: "p \<in> pmm_pages" using pmm.avail_frames [OF assms(1)] by blast
  show ?thesis
    unfolding data_abort_sole [OF assms(2-4)]
    using writable_entry [OF page] p(2) assms(5,6)
    by (simp add: abort_page_def Let_def r)
qed

subsection \<open>Witnesses\<close>

text \<open>
  A user table at \<open>user_root\<close> with the tables of the first three levels in the three pages behind
  it; page 1 is mapped read-only, page 0 is not mapped. Nothing else in memory is set but the
  kernel's own tables, and one frame is free.
\<close>

definition user_root :: u64 where
  "user_root = 0xffff000000200000"

definition user_machine :: mem_state where
  "user_machine = one_frame\<lparr>cells := (cells one_frame)
     (0xffff000000200000 := 0x201003, 0xffff000000201000 := 0x202003,
      0xffff000000202000 := 0x203003, 0xffff000000203008 := 0x3004c3)\<rparr>"

lemma user_cells:
  "cells user_machine 0xffff000000200000 = 0x201003"
  "cells user_machine 0xffff000000201000 = 0x202003"
  "cells user_machine 0xffff000000202000 = 0x203003"
  "cells user_machine 0xffff000000203008 = 0x3004c3"
  "cells user_machine 0xffff000000203000 = 0"
  by (simp_all add: user_machine_def one_frame_def word_le_nat_alt)

lemma user_pmap: "pmap user_machine = pmap one_frame"
  by (simp add: user_machine_def)

lemma user_idx: "mmu_get_table_idx 0x1000 = [0, 0, 0, 1]"
  by (simp add: mmu_get_table_idx_def drop_bit_eq_div)

lemma user_tables:
  "mmu_get_vaddr 0x201003 = 0xffff000000201000" "mmu_get_vaddr 0x202003 = 0xffff000000202000"
  "mmu_get_vaddr 0x203003 = 0xffff000000203000" "mmu_get_vaddr 0x3004c3 = 0xffff000000300000"
  by (simp_all add: mmu_get_vaddr_def layout_simps MEM_PHYS_TO_VIRT_def)

lemma user_valid:
  "mmu_is_valid 0x201003" "mmu_is_valid 0x202003" "mmu_is_valid 0x203003" "mmu_is_valid 0x3004c3"
  "\<not> mmu_is_block 0x201003" "\<not> mmu_is_block 0x202003" "\<not> mmu_is_block 0x203003"
  by (simp_all add: mmu_is_valid_def mmu_is_block_def layout_simps)

lemma user_leads: "leads_to user_machine (mmu_get_table_idx 0x1000) user_root 0xffff000000203008"
  by (simp add: user_idx user_root_def entry_at_def user_cells user_tables user_valid)

lemma user_alloc:
  "\<exists>s1. mem_kernel_alloc_page MEM_RW user_machine =
     Some (\<lparr>r_addr = 0xffff000000080000, r_err = ERR_OK\<rparr>, s1)"
  using first_frame_alloc [OF user_pmap]
  by (simp add: user_machine_def one_frame_def word_le_nat_alt)

lemma user_find_empty_first_witness:
  "mem_user_find_empty user_root 0x1000 1 user_machine = Some 0x2000"
proof -
  have used: "user_page_used user_root 0x1000 user_machine"
    by (simp add: user_page_used_def user_idx user_root_def entry_at_def user_cells user_tables user_valid)
  have "mmu_get_table_idx 0x2000 = [0, 0, 0, 2]"
    by (simp add: mmu_get_table_idx_def drop_bit_eq_div)
  moreover have "cells user_machine 0xffff000000203010 = 0"
    by (simp add: user_machine_def one_frame_def word_le_nat_alt)
  ultimately have "\<not> user_page_used user_root 0x2000 user_machine"
    by (simp add: user_page_used_def user_root_def entry_at_def user_cells user_tables user_valid)
  with used show ?thesis
    using user_find_empty_first [of user_root "0x1000" 1 1 user_machine]
    by (simp add: run_empty_def PAGESIZE_def)
qed

theorem data_abort_makes_writable_witness:
  "\<exists>s'. mmu_handle_data_abort 0x200000 0x1000 user_machine = Some (0x1000, s') \<and>
    entry_ap (cells user_machine 0xffff000000203008) = 3 \<and>
    entry_ap (cells s' 0xffff000000203008) = 1"
proof -
  obtain s1 where al: "mem_kernel_alloc_page MEM_RW user_machine =
     Some (\<lparr>r_addr = 0xffff000000080000, r_err = ERR_OK\<rparr>, s1)"
    using user_alloc by blast
  have root: "MEM_PHYS_TO_VIRT 0x200000 = user_root"
    by (simp add: MEM_PHYS_TO_VIRT_def layout_simps user_root_def)
  have wf: "pmm_wf (pmap user_machine)" by (simp add: user_pmap one_frame_wf)
  from data_abort_makes_writable [OF wf, of "0x1000" "0x200000", unfolded root, OF user_leads _ _ al]
  show ?thesis
    by (simp add: user_cells user_valid user_tables user_idx user_root_def entry_at_def layout_simps
        get_field_def mask_eq_exp_minus_1 drop_bit_eq_div) blast
qed

theorem user_map_get_kaddr_witness:
  "\<exists>s'. mem_user_map_page user_root 0 0x400000 MEM_RW MEM_NORM user_machine = Some (ERR_OK, s') \<and>
    mem_user_get_kaddr user_root 0 s' = 0xffff000000400000"
proof -
  have wf: "pmm_wf (pmap user_machine)" by (simp add: user_pmap one_frame_wf)
  have avail: "pmm_avail (pmap user_machine) = {0x80000}" by (simp add: user_pmap one_frame_wf)
  have path: "path_ok user_machine (mmu_get_table_idx 0) user_root {}"
    by (simp add: one_frame_idx user_root_def entry_at_def user_cells user_tables user_valid
        safe_cell_def avail table_window_def in_page_def MEM_PHYS_TO_VIRT_def layout_simps
        word_le_nat_alt word_less_nat_alt)
  have "\<exists>s'. mem_user_map_page user_root 0 0x400000 MEM_RW MEM_NORM user_machine = Some (ERR_OK, s')"
    by (simp add: mem_user_map_page_def user_attr_def user_map_levels.simps one_frame_idx
        user_root_def entry_at_def user_cells user_tables user_valid)
  then obtain s' where map:
    "mem_user_map_page user_root 0 0x400000 MEM_RW MEM_NORM user_machine = Some (ERR_OK, s')" by blast
  from user_map_get_kaddr [OF wf path map] map show ?thesis
    by (simp add: mmu_get_vaddr_def layout_simps MEM_PHYS_TO_VIRT_def)
qed

end
