(* ===== verification/Fifo.thy ===== *)
theory Fifo
  imports Prelude
begin

text \<open>
  The contract of a bounded first-in first-out queue, which the message queues
  (\<^verbatim>\<open>kernel/mqueue.c\<close>) and the receive queues of the message buffers (\<^verbatim>\<open>kernel/msgbuf.c\<close>) both
  implement as rings. \<open>enq\<close> and \<open>deq\<close> return \<open>None\<close> when the queue is full or empty; \<open>ok\<close> are the
  messages the queue accepts. The lemmas on runs of operations are proved once, for every ring.
\<close>

datatype 'm fifo_op = Put 'm | Get

text \<open>A run of operations: the messages accepted, the messages returned, the final state.\<close>

fun fifo_run ::
    "('m \<Rightarrow> 's \<Rightarrow> 's option) \<Rightarrow> ('s \<Rightarrow> ('m \<times> 's) option) \<Rightarrow> 'm fifo_op list \<Rightarrow> 's \<Rightarrow>
     'm list \<times> 'm list \<times> 's" where
  "fifo_run enq deq [] s = ([], [], s)"
| "fifo_run enq deq (Put m # ops) s =
     (case enq m s of
        None \<Rightarrow> fifo_run enq deq ops s
      | Some s' \<Rightarrow> (case fifo_run enq deq ops s' of (ins, outs, t) \<Rightarrow> (m # ins, outs, t)))"
| "fifo_run enq deq (Get # ops) s =
     (case deq s of
        None \<Rightarrow> fifo_run enq deq ops s
      | Some (m, s') \<Rightarrow> (case fifo_run enq deq ops s' of (ins, outs, t) \<Rightarrow> (ins, m # outs, t)))"

fun put_items :: "'m fifo_op list \<Rightarrow> 'm set" where
  "put_items [] = {}"
| "put_items (Put m # ops) = insert m (put_items ops)"
| "put_items (Get # ops) = put_items ops"

locale bounded_fifo =
  fixes enq :: "'m \<Rightarrow> 's \<Rightarrow> 's option"
    and deq :: "'s \<Rightarrow> ('m \<times> 's) option"
    and contents :: "'s \<Rightarrow> 'm list"
    and cap :: "'s \<Rightarrow> nat"
    and wf :: "'s \<Rightarrow> bool"
    and ok :: "'m \<Rightarrow> 's \<Rightarrow> bool"
  assumes bounded: "wf s \<Longrightarrow> length (contents s) \<le> cap s"
    and enq_full: "wf s \<Longrightarrow> ok m s \<Longrightarrow> length (contents s) = cap s \<Longrightarrow> enq m s = None"
    and enq_room: "wf s \<Longrightarrow> ok m s \<Longrightarrow> length (contents s) < cap s \<Longrightarrow>
      \<exists>s'. enq m s = Some s' \<and> wf s' \<and> contents s' = contents s @ [m] \<and> cap s' = cap s"
    and deq_empty: "wf s \<Longrightarrow> contents s = [] \<Longrightarrow> deq s = None"
    and deq_some: "wf s \<Longrightarrow> contents s = m # ms \<Longrightarrow>
      \<exists>s'. deq s = Some (m, s') \<and> wf s' \<and> contents s' = ms \<and> cap s' = cap s"
    and ok_enq: "wf s \<Longrightarrow> ok m' s \<Longrightarrow> enq m' s = Some s' \<Longrightarrow> ok m s' = ok m s"
    and ok_deq: "wf s \<Longrightarrow> deq s = Some (m', s') \<Longrightarrow> ok m s' = ok m s"
begin

lemma enq_cases:
  assumes "wf s" "ok m s"
  obtains (full) "length (contents s) = cap s" "enq m s = None"
    | (room) s' where "length (contents s) < cap s" "enq m s = Some s'" "wf s'"
        "contents s' = contents s @ [m]" "cap s' = cap s"
  using bounded [OF assms(1)] enq_full [OF assms] enq_room [OF assms]
  by (metis order_le_less)

lemma deq_cases:
  assumes "wf s"
  obtains (empty) "contents s = []" "deq s = None"
    | (some) m s' where "deq s = Some (m, s')" "contents s = m # contents s'" "wf s'" "cap s' = cap s"
  using deq_empty [OF assms] deq_some [OF assms] by (metis list.exhaust)

text \<open>What comes out is what went in, in order, and nothing is lost.\<close>

lemma run_fifo:
  "wf s \<Longrightarrow> \<forall>m\<in>put_items ops. ok m s \<Longrightarrow> fifo_run enq deq ops s = (ins, outs, t) \<Longrightarrow>
   wf t \<and> cap t = cap s \<and> contents s @ ins = outs @ contents t"
proof (induction ops arbitrary: s ins outs t)
  case (Cons x ops)
  show ?case
  proof (cases x)
    case (Put m)
    with Cons.prems have "ok m s" by simp
    from Cons.prems(1) this show ?thesis
    proof (cases rule: enq_cases)
      case full
      with Cons.prems(3) Put have "fifo_run enq deq ops s = (ins, outs, t)" by simp
      with Cons.IH [OF Cons.prems(1)] Cons.prems(2) Put show ?thesis by simp
    next
      case (room s')
      obtain ins' where run: "fifo_run enq deq ops s' = (ins', outs, t)" "ins = m # ins'"
        using Cons.prems(3) Put room(2) by (auto split: prod.splits)
      have "\<forall>m\<in>put_items ops. ok m s'"
        using Cons.prems(1,2) Put room(2) ok_enq \<open>ok m s\<close> by auto
      from Cons.IH [OF room(3) this run(1)] run(2) room show ?thesis by simp
    qed
  next
    case Get
    from Cons.prems(1) show ?thesis
    proof (cases rule: deq_cases)
      case empty
      with Cons.prems(3) Get have "fifo_run enq deq ops s = (ins, outs, t)" by simp
      with Cons.IH [OF Cons.prems(1)] Cons.prems(2) Get show ?thesis by simp
    next
      case (some m s')
      obtain outs' where run: "fifo_run enq deq ops s' = (ins, outs', t)" "outs = m # outs'"
        using Cons.prems(3) Get some(1) by (auto split: prod.splits)
      have "\<forall>m\<in>put_items ops. ok m s'"
        using Cons.prems(1,2) Get some(1) ok_deq by auto
      from Cons.IH [OF some(3) this run(1)] run(2) some show ?thesis by simp
    qed
  qed
qed simp

end

subsection \<open>Rings\<close>

text \<open>The \<open>n\<close> elements from position \<open>p\<close> on of a ring over the first \<open>c\<close> cells of an array.\<close>

definition ring :: "nat \<Rightarrow> 'a list \<Rightarrow> nat \<Rightarrow> nat \<Rightarrow> 'a list" where
  "ring c xs p n = map (\<lambda>k. xs ! ((p + k) mod c)) [0..<n]"

lemma ring_length [simp]: "length (ring c xs p n) = n"
  by (simp add: ring_def)

lemma ring_0 [simp]: "ring c xs p 0 = []"
  by (simp add: ring_def)

lemma mod_offset_inj:
  fixes c :: nat
  assumes "j < c" "k < c" "(p + j) mod c = (p + k) mod c"
  shows "j = k"
proof -
  have le: "j = k" if "j \<le> k" "j < c" "k < c" "(p + j) mod c = (p + k) mod c" for j k
  proof -
    have "c dvd (p + k) - (p + j)"
      using that by (metis add_le_cancel_left mod_eq_dvd_iff_nat)
    then have "c dvd k - j" by simp
    moreover have "k - j < c" using that(3) by simp
    ultimately have "k - j = 0" using dvd_imp_le by (metis bot_nat_0.not_eq_extremum leD)
    with that(1) show ?thesis by simp
  qed
  show ?thesis using le [of j k] le [of k j] assms by (cases "j \<le> k") auto
qed

lemma ring_put:
  assumes "n < c" "c \<le> length xs"
  shows "ring c (xs[(p + n) mod c := v]) p (Suc n) = ring c xs p n @ [v]"
proof -
  have pos: "(p + n) mod c < length xs"
    using assms by (meson le_less_trans mod_less_divisor not_less order_less_le_trans zero_le)
  have "(p + n) mod c \<noteq> (p + k) mod c" if "k < n" for k
    using mod_offset_inj [of k c n p] assms(1) that by auto
  then have "map (\<lambda>k. xs[(p + n) mod c := v] ! ((p + k) mod c)) [0..<n] =
      map (\<lambda>k. xs ! ((p + k) mod c)) [0..<n]"
    by (intro map_cong) auto
  with pos show ?thesis by (simp add: ring_def)
qed

lemma ring_get:
  assumes "0 < n"
  shows "ring c xs p n = xs ! (p mod c) # ring c xs ((p + 1) mod c) (n - 1)"
proof -
  obtain m where n: "n = Suc m" using assms by (cases n) auto
  have "ring c xs p (Suc m) = xs ! (p mod c) # map (\<lambda>k. xs ! ((p + Suc k) mod c)) [0..<m]"
    by (simp only: ring_def upt_conv_Cons [of 0] list.map map_Suc_upt [symmetric] map_map) simp
  then show ?thesis
    by (simp add: n ring_def mod_add_left_eq)
qed

lemma ring_mod: "ring c xs (p mod c) n = ring c xs p n"
  by (simp add: ring_def mod_add_left_eq)

lemma set_ring: "set (ring c xs p n) = (\<lambda>k. xs ! ((p + k) mod c)) ` {..<n}"
  by (auto simp: ring_def)

lemma ring_nth: "k < n \<Longrightarrow> ring c xs p n ! k = xs ! ((p + k) mod c)"
  by (simp add: ring_def)

lemma ring_update:
  assumes "n < c" "c \<le> length xs"
  shows "ring c (xs[(p + n) mod c := v]) p c = (ring c xs p c)[n := v]"
proof (rule nth_equalityI)
  fix k assume "k < length (ring c (xs[(p + n) mod c := v]) p c)"
  then have k: "k < c" by simp
  have "0 < c" using assms(1) by simp
  then have pos: "(p + k) mod c < length xs"
    using assms(2) mod_less_divisor [of c "p + k"] by linarith
  show "ring c (xs[(p + n) mod c := v]) p c ! k = (ring c xs p c)[n := v] ! k"
  proof (cases "k = n")
    case False
    then have "(p + n) mod c \<noteq> (p + k) mod c" using mod_offset_inj [of n c k p] assms(1) k by auto
    with False k show ?thesis by (simp add: ring_nth)
  qed (use k pos in \<open>simp add: ring_nth\<close>)
qed simp

lemma ring_rotate:
  assumes "0 < c"
  shows "ring c xs (Suc p mod c) c = tl (ring c xs p c) @ [xs ! (p mod c)]"
proof (rule nth_equalityI)
  fix k assume "k < length (ring c xs (Suc p mod c) c)"
  then have k: "k < c" by simp
  have "ring c xs (Suc p mod c) c ! k = xs ! ((p + Suc k) mod c)"
    using k by (simp add: ring_nth mod_add_left_eq)
  moreover have "(p + Suc k) mod c = p mod c" if "Suc k = c" using that by simp
  ultimately show "ring c xs (Suc p mod c) c ! k = (tl (ring c xs p c) @ [xs ! (p mod c)]) ! k"
    using k by (cases "Suc k = c") (auto simp: nth_append nth_tl ring_nth)
qed (use assms in simp)

end
