(* ===== verification/Mqueue.thy ===== *)
theory Mqueue
  imports Fifo Kernel_String
begin

text \<open>
  POSIX-style message queues (\<^verbatim>\<open>kernel/mqueue.c\<close>). The state is the table \<open>open_queues\<close> and the
  counter \<open>mqueue_count\<close>; \<open>pid\<close> arguments are \<open>task_current()->pid\<close>. A \<open>long\<close> or \<open>int\<close> that holds a
  count or a position is an \<open>int\<close>, flags are 32-bit words.

  \<open>mqueue_send\<close> and \<open>mqueue_receive\<close> loop over an attempt and \<open>task_block\<close>. One attempt is a function
  with the outcome \<open>Ret\<close> or \<open>Blocked\<close>; a blocked task repeats the attempt, with the same pointers
  (indices here), on the state it finds when it runs again. The calls of \<open>task_unblock\<close> are returned
  as a list of pids.
\<close>

definition MQ_MAX_OPEN :: nat where [layout_simps]: "MQ_MAX_OPEN = 32"
definition MQ_MAX_SUBSCRIBERS :: nat where [layout_simps]: "MQ_MAX_SUBSCRIBERS = 8"
definition MQ_MAX_MSG_SIZE :: int where [layout_simps]: "MQ_MAX_MSG_SIZE = 128"
definition MQ_MAX_MSG :: int where [layout_simps]: "MQ_MAX_MSG = 8"

definition BLCK_RECV :: u32 where [layout_simps]: "BLCK_RECV = 64"
definition BLCK_SEND :: u32 where [layout_simps]: "BLCK_SEND = 128"

record mq_attr =
  mq_flags :: int
  mq_maxmsg :: int
  mq_msgsize :: int
  mq_curmsg :: int

record mq_message =
  msg_size :: u64
  msg_data :: bytes

record mq_task =
  sub_pid :: int
  sub_flags :: u32

record mqueue =
  q_id :: int
  q_open :: bool
  q_hash :: u64
  q_subs :: "mq_task list"
  q_attr :: mq_attr
  q_head :: int
  q_tail :: int
  q_messages :: "mq_message list"

record mq_state =
  open_queues :: "mqueue list"
  mqueue_count :: u64

datatype mq_outcome = Ret int | Blocked

subsection \<open>Queues and subscribers\<close>

definition mq_find :: "int \<Rightarrow> mq_state \<Rightarrow> nat option" where
  "mq_find i st = first_index (\<lambda>q. q_id q = i) (open_queues st)"

definition mq_find_hash :: "u64 \<Rightarrow> mq_state \<Rightarrow> nat option" where
  "mq_find_hash h st = first_index (\<lambda>q. q_id q \<noteq> 0 \<and> q_hash q = h) (open_queues st)"

definition mq_find_subscriber :: "mqueue \<Rightarrow> int \<Rightarrow> nat option" where
  "mq_find_subscriber q pid =
     first_index (\<lambda>t. pid \<noteq> 0 \<and> sub_pid t = pid \<or> pid = 0 \<and> 0 < sub_pid t) (q_subs q)"

fun unblock_subs :: "u32 \<Rightarrow> mq_task list \<Rightarrow> mq_task list \<times> int list" where
  "unblock_subs flag [] = ([], [])"
| "unblock_subs flag (t # ts) =
     (let (ts', pids) = unblock_subs flag ts in
      if sub_flags t AND flag \<noteq> 0
      then (t\<lparr>sub_flags := sub_flags t XOR flag\<rparr> # ts', sub_pid t # pids)
      else (t # ts', pids))"

definition mq_unblock_subscribers :: "mqueue \<Rightarrow> u32 \<Rightarrow> mqueue \<times> int list" where
  "mq_unblock_subscribers q flag =
     (let (ts, pids) = unblock_subs flag (q_subs q) in (q\<lparr>q_subs := ts\<rparr>, pids))"

definition mq_subscribe :: "mqueue \<Rightarrow> int \<Rightarrow> u32 \<Rightarrow> bool \<times> mqueue" where
  "mq_subscribe q pid flags =
     (case first_index (\<lambda>t. sub_pid t = 0) (q_subs q) of
        None \<Rightarrow> (False, q)
      | Some i \<Rightarrow> (True, q\<lparr>q_subs := (q_subs q)[i := \<lparr>sub_pid = pid, sub_flags = flags\<rparr>]\<rparr>))"

definition mq_unsubscribe :: "mqueue \<Rightarrow> int \<Rightarrow> bool \<times> mqueue" where
  "mq_unsubscribe q pid =
     (case mq_find_subscriber q pid of
        None \<Rightarrow> (False, q)
      | Some i \<Rightarrow> (True, q\<lparr>q_subs := (q_subs q)[i := \<lparr>sub_pid = -1, sub_flags = 0\<rparr>]\<rparr>))"

subsection \<open>The ring of messages\<close>

definition mq_enqueue :: "mqueue \<Rightarrow> bytes \<Rightarrow> u64 \<Rightarrow> (bool \<times> mqueue \<times> int list) option" where
  "mq_enqueue q msg_ptr msg_len =
     (let q1 = (if q_tail q = mq_maxmsg (q_attr q) - 1 then q\<lparr>q_tail := -1\<rparr> else q) in
      if mq_curmsg (q_attr q1) = mq_maxmsg (q_attr q1) then Some (False, q1, [])
      else do {
        let pos = q_tail q1 + 1;
        m \<leftarrow> rd_int (q_messages q1) pos;
        data \<leftarrow> memcpy_k (msg_data m) msg_ptr (unat msg_len);
        messages \<leftarrow> wr_int (q_messages q1) pos \<lparr>msg_size = msg_len, msg_data = data\<rparr>;
        let q2 = q1\<lparr>q_tail := pos, q_messages := messages\<rparr>;
        let (q3, pids) = (if mq_curmsg (q_attr q2) = 0 then mq_unblock_subscribers q2 BLCK_RECV
                          else (q2, []));
        Some (True, q3\<lparr>q_attr := (q_attr q3)\<lparr>mq_curmsg := mq_curmsg (q_attr q3) + 1\<rparr>\<rparr>, pids) })"

text \<open>The result, the receiver's buffer and the queue.\<close>

definition mq_dequeue :: "mqueue \<Rightarrow> bytes \<Rightarrow> u64 \<Rightarrow> (int \<times> bytes \<times> mqueue) option" where
  "mq_dequeue q msg_ptr msg_len =
     (if mq_curmsg (q_attr q) = 0 then Some (0, msg_ptr, q)
      else
        let q1 = (if q_head q = mq_maxmsg (q_attr q) - 1 then q\<lparr>q_head := -1\<rparr> else q) in do {
          m \<leftarrow> rd_int (q_messages q1) (q_head q1 + 1);
          if msg_len < msg_size m then Some (- errno_val EMSGSIZE, msg_ptr, q1)
          else do {
            buf \<leftarrow> memcpy_k msg_ptr (msg_data m) (unat (msg_size m));
            Some (sint (msg_size m), buf,
              q1\<lparr>q_head := q_head q1 + 1,
                 q_attr := (q_attr q1)\<lparr>mq_curmsg := mq_curmsg (q_attr q1) - 1\<rparr>\<rparr>) } })"

definition mq_destroy :: "mqueue \<Rightarrow> mqueue" where
  "mq_destroy q =
     (let q1 = q\<lparr>q_open := False\<rparr> in
      if mq_find_subscriber q1 0 \<noteq> None then q1 else q1\<lparr>q_id := 0, q_hash := 0\<rparr>)"

subsection \<open>The system calls\<close>

definition set_queue :: "nat \<Rightarrow> mqueue \<Rightarrow> mq_state \<Rightarrow> mq_state" where
  "set_queue i q st = st\<lparr>open_queues := (open_queues st)[i := q]\<rparr>"

text \<open>The attributes of a new queue: \<open>attr\<close> is \<open>None\<close> for a null pointer.\<close>

definition mq_open_attr :: "mq_attr option \<Rightarrow> errno + (int \<times> int)" where
  "mq_open_attr attr = (case attr of
     None \<Rightarrow> Inr (MQ_MAX_MSG, MQ_MAX_MSG_SIZE)
   | Some a \<Rightarrow>
       if mq_maxmsg a = 0 then Inl EINVAL
       else if MQ_MAX_MSG < mq_maxmsg a then Inl ENOSPC
       else if mq_msgsize a = 0 then Inl EINVAL
       else if MQ_MAX_MSG_SIZE < mq_msgsize a then Inl ENOSPC
       else Inr (mq_maxmsg a, mq_msgsize a))"

text \<open>Initialising the free slot \<open>i\<close>; the subscribers of its previous life stay.\<close>

definition mq_create :: "nat \<Rightarrow> u64 \<Rightarrow> int \<times> int \<Rightarrow> mq_state \<Rightarrow> mq_state" where
  "mq_create i h sizes st =
     (let count = mqueue_count st + 1;
          q = open_queues st ! i
      in (set_queue i (q\<lparr>q_id := sint (ucast count :: u32), q_open := True, q_hash := h,
            q_head := -1, q_tail := -1,
            q_attr := \<lparr>mq_flags = 0, mq_maxmsg = fst sizes, mq_msgsize = snd sizes, mq_curmsg = 0\<rparr>\<rparr>) st)
         \<lparr>mqueue_count := count\<rparr>)"

definition mq_open_found :: "nat option \<Rightarrow> int \<Rightarrow> u32 \<Rightarrow> mq_state \<Rightarrow> int \<times> mq_state" where
  "mq_open_found found pid oflag st =
     (case found of None \<Rightarrow> (- errno_val ENOENT, st)
      | Some i \<Rightarrow>
          let q = open_queues st ! i in
          if \<not> q_open q then (- errno_val ENOENT, st)
          else (case mq_subscribe q pid oflag of
              (False, _) \<Rightarrow> (- errno_val EACCES, st)
            | (True, q') \<Rightarrow> (q_id q', set_queue i q' st)))"

definition mqueue_open ::
    "bytes \<Rightarrow> u32 \<Rightarrow> mq_attr option \<Rightarrow> int \<Rightarrow> mq_state \<Rightarrow> (int \<times> mq_state) option" where
  "mqueue_open name oflag attr pid st = do {
     h \<leftarrow> strhash name;
     let found = mq_find_hash h st;
     if oflag AND O_CREAT \<noteq> 0 then
       if oflag AND O_EXCL \<noteq> 0 \<and> found \<noteq> None then Some (- errno_val EEXIST, st)
       else if found = None then
         (case first_index (\<lambda>q. q_id q = 0) (open_queues st) of
            None \<Rightarrow> Some (- errno_val ENFILE, st)
          | Some i \<Rightarrow> (case mq_open_attr attr of
              Inl e \<Rightarrow> Some (- errno_val e, st)
            | Inr sizes \<Rightarrow> Some (mq_open_found (Some i) pid oflag (mq_create i h sizes st))))
       else Some (mq_open_found found pid oflag st)
     else Some (mq_open_found found pid oflag st) }"

definition mqueue_close :: "int \<Rightarrow> int \<Rightarrow> mq_state \<Rightarrow> int \<times> mq_state" where
  "mqueue_close mqdes pid st =
     (case mq_find mqdes st of None \<Rightarrow> (- errno_val EBADF, st)
      | Some i \<Rightarrow>
          let q1 = snd (mq_unsubscribe (open_queues st ! i) pid);
              q2 = (if \<not> q_open q1 \<and> mq_find_subscriber q1 0 = None then mq_destroy q1 else q1)
          in (0, set_queue i q2 st))"

definition mqueue_unlink :: "bytes \<Rightarrow> mq_state \<Rightarrow> (int \<times> mq_state) option" where
  "mqueue_unlink name st = do {
     h \<leftarrow> strhash name;
     Some (case mq_find_hash h st of None \<Rightarrow> (- errno_val ENOENT, st)
           | Some i \<Rightarrow> (0, set_queue i (mq_destroy (open_queues st ! i)) st)) }"

text \<open>One attempt of \<open>mqueue_send\<close> on queue \<open>i\<close> for subscriber \<open>j\<close>.\<close>

definition mqueue_send_attempt ::
    "nat \<Rightarrow> nat \<Rightarrow> bytes \<Rightarrow> u64 \<Rightarrow> mq_state \<Rightarrow> (mq_outcome \<times> mq_state \<times> int list) option" where
  "mqueue_send_attempt i j msg_ptr msg_len st = do {
     (sent, q, pids) \<leftarrow> mq_enqueue (open_queues st ! i) msg_ptr msg_len;
     let st1 = set_queue i q st;
     if sent then Some (Ret 0, st1, pids)
     else do {
       t \<leftarrow> rd_at (q_subs q) j;
       if sub_flags t AND O_NONBLOCK \<noteq> 0 then Some (Ret (- errno_val EAGAIN), st1, pids)
       else Some (Blocked, set_queue i (q\<lparr>q_subs :=
         (q_subs q)[j := t\<lparr>sub_flags := sub_flags t OR BLCK_SEND\<rparr>]\<rparr>) st1, pids) } }"

definition mqueue_send ::
    "int \<Rightarrow> bytes \<Rightarrow> u64 \<Rightarrow> int \<Rightarrow> mq_state \<Rightarrow> (mq_outcome \<times> mq_state \<times> int list) option" where
  "mqueue_send mqdes msg_ptr msg_len pid st =
     (case mq_find mqdes st of None \<Rightarrow> Some (Ret (- errno_val EBADF), st, [])
      | Some i \<Rightarrow>
          let q = open_queues st ! i in
          if mq_msgsize (q_attr q) < sint msg_len then Some (Ret (- errno_val EMSGSIZE), st, [])
          else (case mq_find_subscriber q pid of
              None \<Rightarrow> Some (Ret (- errno_val EACCES), st, [])
            | Some j \<Rightarrow>
                if sub_flags (q_subs q ! j) AND O_RDONLY \<noteq> 0
                then Some (Ret (- errno_val EACCES), st, [])
                else mqueue_send_attempt i j msg_ptr msg_len st))"

definition mqueue_receive_attempt ::
    "nat \<Rightarrow> nat \<Rightarrow> bytes \<Rightarrow> u64 \<Rightarrow> mq_state \<Rightarrow> (mq_outcome \<times> bytes \<times> mq_state) option" where
  "mqueue_receive_attempt i j msg_ptr msg_len st = do {
     (result, buf, q) \<leftarrow> mq_dequeue (open_queues st ! i) msg_ptr msg_len;
     let st1 = set_queue i q st;
     if 0 < result then Some (Ret result, buf, st1)
     else do {
       t \<leftarrow> rd_at (q_subs q) j;
       if sub_flags t AND O_NONBLOCK \<noteq> 0 then Some (Ret (- errno_val EAGAIN), buf, st1)
       else Some (Blocked, buf, set_queue i (q\<lparr>q_subs :=
         (q_subs q)[j := t\<lparr>sub_flags := sub_flags t OR BLCK_RECV\<rparr>]\<rparr>) st1) } }"

definition mqueue_receive ::
    "int \<Rightarrow> bytes \<Rightarrow> u64 \<Rightarrow> int \<Rightarrow> mq_state \<Rightarrow> (mq_outcome \<times> bytes \<times> mq_state) option" where
  "mqueue_receive mqdes msg_ptr msg_len pid st =
     (case mq_find mqdes st of None \<Rightarrow> Some (Ret (- errno_val EBADF), msg_ptr, st)
      | Some i \<Rightarrow>
          let q = open_queues st ! i in
          (case mq_find_subscriber q pid of
             None \<Rightarrow> Some (Ret (- errno_val EACCES), msg_ptr, st)
           | Some j \<Rightarrow>
               if sub_flags (q_subs q ! j) AND O_WRONLY \<noteq> 0
               then Some (Ret (- errno_val EACCES), msg_ptr, st)
               else mqueue_receive_attempt i j msg_ptr msg_len st))"

subsection \<open>The ring as a bounded queue\<close>

definition mq_cap :: "mqueue \<Rightarrow> nat" where
  "mq_cap q = nat (mq_maxmsg (q_attr q))"

definition mq_count :: "mqueue \<Rightarrow> nat" where
  "mq_count q = nat (mq_curmsg (q_attr q))"

definition mq_first :: "mqueue \<Rightarrow> nat" where
  "mq_first q = nat (q_head q + 1) mod mq_cap q"

definition stored :: "mq_message \<Rightarrow> bytes" where
  "stored m = take (unat (msg_size m)) (msg_data m)"

definition mq_ring :: "mqueue \<Rightarrow> mq_message list" where
  "mq_ring q = ring (mq_cap q) (q_messages q) (mq_first q) (mq_count q)"

definition mq_contents :: "mqueue \<Rightarrow> bytes list" where
  "mq_contents q = map stored (mq_ring q)"

definition attr_wf :: "mq_attr \<Rightarrow> bool" where
  "attr_wf a \<longleftrightarrow> 0 < mq_maxmsg a \<and> mq_maxmsg a \<le> MQ_MAX_MSG \<and>
     0 < mq_msgsize a \<and> mq_msgsize a \<le> MQ_MAX_MSG_SIZE \<and> 0 \<le> mq_curmsg a \<and> mq_curmsg a \<le> mq_maxmsg a"

definition mq_wf :: "mqueue \<Rightarrow> bool" where
  "mq_wf q \<longleftrightarrow> attr_wf (q_attr q) \<and>
     -1 \<le> q_head q \<and> q_head q < mq_maxmsg (q_attr q) \<and>
     -1 \<le> q_tail q \<and> q_tail q < mq_maxmsg (q_attr q) \<and>
     nat (q_tail q + 1) mod mq_cap q = (mq_first q + mq_count q) mod mq_cap q \<and>
     length (q_messages q) = nat MQ_MAX_MSG \<and>
     (\<forall>m\<in>set (q_messages q). length (msg_data m) = nat MQ_MAX_MSG_SIZE) \<and>
     (\<forall>m\<in>set (mq_ring q). unat (msg_size m) \<le> nat (mq_msgsize (q_attr q)))"

definition mq_ok :: "bytes \<Rightarrow> mqueue \<Rightarrow> bool" where
  "mq_ok m q \<longleftrightarrow> length m \<le> nat (mq_msgsize (q_attr q))"

text \<open>The operations as the contract sees them: a whole message in, a whole message out.\<close>

definition mq_put :: "bytes \<Rightarrow> mqueue \<Rightarrow> mqueue option" where
  "mq_put m q = (case mq_enqueue q m (of_nat (length m)) of
     Some (True, q', _) \<Rightarrow> Some q' | _ \<Rightarrow> None)"

definition mq_get :: "mqueue \<Rightarrow> (bytes \<times> mqueue) option" where
  "mq_get q = (if mq_curmsg (q_attr q) = 0 then None
     else case mq_dequeue q (replicate (nat MQ_MAX_MSG_SIZE) 0) (of_int MQ_MAX_MSG_SIZE) of
       Some (n, buf, q') \<Rightarrow> (if n < 0 then None else Some (take (nat n) buf, q')) | None \<Rightarrow> None)"

lemma mq_wf_bounds:
  assumes "mq_wf q"
  shows "0 < mq_cap q" "mq_cap q \<le> 8" "length (q_messages q) = 8" "mq_count q \<le> mq_cap q"
    "mq_first q < mq_cap q"
  using assms by (auto simp: mq_wf_def attr_wf_def mq_cap_def mq_count_def mq_first_def layout_simps)

text \<open>Where the next message goes and where the next one comes from.\<close>

lemma mq_next_tail:
  assumes "mq_wf q"
  defines "q1 \<equiv> (if q_tail q = mq_maxmsg (q_attr q) - 1 then q\<lparr>q_tail := -1\<rparr> else q)"
  shows "q_tail q1 + 1 = int ((mq_first q + mq_count q) mod mq_cap q)"
proof -
  have "nat (q_tail q1 + 1) = nat (q_tail q + 1) mod mq_cap q"
    using assms(1) by (auto simp: q1_def mq_wf_def attr_wf_def mq_cap_def nat_mod_distrib)
  also have "\<dots> = (mq_first q + mq_count q) mod mq_cap q"
    using assms(1) by (simp add: mq_wf_def)
  finally have "nat (q_tail q1 + 1) = (mq_first q + mq_count q) mod mq_cap q" .
  moreover have "0 \<le> q_tail q1 + 1"
    using assms(1) by (auto simp: q1_def mq_wf_def)
  ultimately show ?thesis by simp
qed

lemma mq_next_head:
  assumes "mq_wf q"
  defines "q1 \<equiv> (if q_head q = mq_maxmsg (q_attr q) - 1 then q\<lparr>q_head := -1\<rparr> else q)"
  shows "q_head q1 + 1 = int (mq_first q)"
proof -
  have "nat (q_head q1 + 1) = mq_first q"
    using assms(1) by (auto simp: q1_def mq_wf_def attr_wf_def mq_cap_def mq_first_def)
  moreover have "0 \<le> q_head q1 + 1"
    using assms(1) by (auto simp: q1_def mq_wf_def)
  ultimately show ?thesis by simp
qed

lemma mq_wf_reset:
  assumes "mq_wf q"
  shows "mq_wf (if q_tail q = mq_maxmsg (q_attr q) - 1 then q\<lparr>q_tail := -1\<rparr> else q)"
    and "mq_wf (if q_head q = mq_maxmsg (q_attr q) - 1 then q\<lparr>q_head := -1\<rparr> else q)"
  using assms by (auto simp: mq_wf_def attr_wf_def mq_cap_def mq_count_def mq_first_def mq_ring_def)

lemma mq_enqueue_full:
  assumes "mq_curmsg (q_attr q) = mq_maxmsg (q_attr q)"
  shows "mq_enqueue q msg_ptr msg_len =
    Some (False, if q_tail q = mq_maxmsg (q_attr q) - 1 then q\<lparr>q_tail := -1\<rparr> else q, [])"
  using assms by (simp add: mq_enqueue_def Let_def)

text \<open>The message record a send writes over the record \<open>m\<close>.\<close>

definition written :: "mq_message \<Rightarrow> bytes \<Rightarrow> u64 \<Rightarrow> mq_message" where
  "written m msg_ptr msg_len = \<lparr>msg_size = msg_len,
     msg_data = take (unat msg_len) msg_ptr @ drop (unat msg_len) (msg_data m)\<rparr>"

text \<open>The subscribers after a send and the tasks it unblocks: receivers only, and only when the queue was empty.\<close>

definition woken :: "mqueue \<Rightarrow> mq_task list \<times> int list" where
  "woken q = (if mq_curmsg (q_attr q) = 0 then unblock_subs BLCK_RECV (q_subs q) else (q_subs q, []))"

lemma mq_enqueue_room:
  assumes "mq_wf q" "mq_count q < mq_cap q" "unat msg_len \<le> 128" "unat msg_len \<le> length msg_ptr"
  defines "pos \<equiv> (mq_first q + mq_count q) mod mq_cap q"
  shows "mq_enqueue q msg_ptr msg_len = Some (True,
    q\<lparr>q_subs := fst (woken q), q_tail := int pos,
      q_messages := (q_messages q)[pos := written (q_messages q ! pos) msg_ptr msg_len],
      q_attr := (q_attr q)\<lparr>mq_curmsg := mq_curmsg (q_attr q) + 1\<rparr>\<rparr>, snd (woken q))"
proof -
  define q1 where "q1 = (if q_tail q = mq_maxmsg (q_attr q) - 1 then q\<lparr>q_tail := -1\<rparr> else q)"
  have q1: "q_attr q1 = q_attr q" "q_messages q1 = q_messages q" "q1\<lparr>q_tail := t\<rparr> = q\<lparr>q_tail := t\<rparr>" for t
    by (simp_all add: q1_def)
  have next_pos: "q_tail q1 + 1 = int pos"
    unfolding q1_def pos_def by (rule mq_next_tail [OF assms(1)])
  have pos: "pos < 8" "pos < length (q_messages q)"
    using mq_wf_bounds [OF assms(1)] by (auto simp: pos_def intro: less_le_trans [OF mod_less_divisor])
  have data: "length (msg_data (q_messages q ! pos)) = 128"
    using assms(1) pos(2) by (simp add: mq_wf_def layout_simps)
  have copy: "memcpy_k (msg_data (q_messages q ! pos)) msg_ptr (unat msg_len) =
      Some (msg_data (written (q_messages q ! pos) msg_ptr msg_len))"
    using data assms(3,4) by (simp add: memcpy_k_eq written_def)
  have room: "mq_curmsg (q_attr q) \<noteq> mq_maxmsg (q_attr q)"
    using assms(1,2) by (auto simp: mq_count_def mq_cap_def)
  have w: "\<lparr>msg_size = msg_len, msg_data = msg_data (written m msg_ptr msg_len)\<rparr> =
      written m msg_ptr msg_len" for m
    by (simp add: written_def)
  show ?thesis
    unfolding mq_enqueue_def Let_def q1_def [symmetric] q1 next_pos
    using room pos copy
    by (cases q) (auto simp: rd_int_def wr_int_def w mq_unblock_subscribers_def woken_def Let_def
        split: prod.splits)
qed

lemma mq_enqueue_spec:
  assumes "mq_wf q" "unat msg_len \<le> nat (mq_msgsize (q_attr q))" "unat msg_len \<le> length msg_ptr"
  shows "if mq_count q < mq_cap q
    then \<exists>q' pids. mq_enqueue q msg_ptr msg_len = Some (True, q', pids) \<and> mq_wf q' \<and>
      mq_contents q' = mq_contents q @ [take (unat msg_len) msg_ptr] \<and>
      q_attr q' = (q_attr q)\<lparr>mq_curmsg := mq_curmsg (q_attr q) + 1\<rparr>
    else \<exists>q'. mq_enqueue q msg_ptr msg_len = Some (False, q', []) \<and> mq_wf q' \<and>
      mq_contents q' = mq_contents q \<and> q_attr q' = q_attr q"
proof (cases "mq_count q < mq_cap q")
  case False
  with assms(1) have full: "mq_curmsg (q_attr q) = mq_maxmsg (q_attr q)"
    using mq_wf_bounds(4) [OF assms(1)] by (auto simp: mq_wf_def attr_wf_def mq_count_def mq_cap_def)
  with False mq_wf_reset(1) [OF assms(1)] show ?thesis
    by (auto simp: mq_enqueue_full mq_contents_def mq_ring_def mq_cap_def mq_count_def mq_first_def)
next
  case True
  define pos where "pos = (mq_first q + mq_count q) mod mq_cap q"
  define m where "m = written (q_messages q ! pos) msg_ptr msg_len"
  have size: "unat msg_len \<le> 128"
    using assms(1,2) by (auto simp: mq_wf_def attr_wf_def layout_simps)
  define subs where "subs = fst (woken q)"
  define pids where "pids = snd (woken q)"
  have enq: "mq_enqueue q msg_ptr msg_len = Some (True,
      q\<lparr>q_subs := subs, q_tail := int pos, q_messages := (q_messages q)[pos := m],
        q_attr := (q_attr q)\<lparr>mq_curmsg := mq_curmsg (q_attr q) + 1\<rparr>\<rparr>, pids)"
    using mq_enqueue_room [OF assms(1) True size assms(3)] by (simp add: m_def pos_def subs_def pids_def)
  define q' where "q' = q\<lparr>q_subs := subs, q_tail := int pos, q_messages := (q_messages q)[pos := m],
        q_attr := (q_attr q)\<lparr>mq_curmsg := mq_curmsg (q_attr q) + 1\<rparr>\<rparr>"
  note b = mq_wf_bounds [OF assms(1)]
  have pos: "pos < mq_cap q" "pos < length (q_messages q)"
    using b by (auto simp: pos_def intro: less_le_trans [OF mod_less_divisor])
  have q': "mq_cap q' = mq_cap q" "mq_first q' = mq_first q" "mq_count q' = Suc (mq_count q)"
    using assms(1) by (auto simp: q'_def mq_cap_def mq_first_def mq_count_def mq_wf_def attr_wf_def)
  have ring: "mq_ring q' = mq_ring q @ [m]"
    unfolding mq_ring_def q' using ring_put [OF True, of "q_messages q" "mq_first q" m] b
    by (simp add: q'_def pos_def)
  have data: "length (msg_data (q_messages q ! pos)) = 128"
    using assms(1) pos(2) by (simp add: mq_wf_def layout_simps)
  have st: "stored m = take (unat msg_len) msg_ptr"
    using size assms(3) by (simp add: stored_def m_def written_def)
  have "length (msg_data m) = 128"
    using data size assms(3) by (simp add: m_def written_def)
  then have "\<forall>x\<in>set ((q_messages q)[pos := m]). length (msg_data x) = nat MQ_MAX_MSG_SIZE"
    using assms(1) set_update_subset_insert [of "q_messages q" pos m]
    by (auto simp: mq_wf_def MQ_MAX_MSG_SIZE_def)
  moreover have "\<forall>x\<in>set (mq_ring q'). unat (msg_size x) \<le> nat (mq_msgsize (q_attr q))"
    using assms(1,2) unfolding ring by (auto simp: mq_wf_def m_def written_def)
  moreover have "nat (q_tail q' + 1) mod mq_cap q' = (mq_first q' + mq_count q') mod mq_cap q'"
    unfolding q' by (simp add: q'_def pos_def nat_add_distrib mod_Suc_eq)
  moreover have "int pos < mq_maxmsg (q_attr q)"
    using pos(1) by (simp add: mq_cap_def)
  moreover have "mq_curmsg (q_attr q) < mq_maxmsg (q_attr q)"
    using True by (simp add: mq_count_def mq_cap_def)
  ultimately have "mq_wf q'"
    using assms(1) by (auto simp: mq_wf_def attr_wf_def q'_def)
  with True enq ring st show ?thesis
    by (auto simp: mq_contents_def q'_def)
qed

text \<open>The record at the head of a queue that is not empty, and the rest.\<close>

lemma mq_front:
  assumes "mq_wf q" "mq_contents q = m # ms"
  defines "x \<equiv> q_messages q ! mq_first q"
  shows "0 < mq_count q" "stored x = m" "unat (msg_size x) = length m" "length (msg_data x) = 128"
    "length m \<le> 128"
    "mq_ring q = x # ring (mq_cap q) (q_messages q) ((mq_first q + 1) mod mq_cap q) (mq_count q - 1)"
proof -
  note b = mq_wf_bounds [OF assms(1)]
  have "mq_count q = length (mq_contents q)" by (simp add: mq_contents_def mq_ring_def)
  then show n: "0 < mq_count q" using assms(2) by simp
  show ring: "mq_ring q = x # ring (mq_cap q) (q_messages q) ((mq_first q + 1) mod mq_cap q) (mq_count q - 1)"
    using ring_get [OF n, of "mq_cap q" "q_messages q" "mq_first q"] b(5)
    by (simp add: mq_ring_def x_def)
  then show x: "stored x = m"
    using assms(2) by (auto simp: mq_contents_def)
  have "x \<in> set (mq_ring q)" using ring by simp
  then have size: "unat (msg_size x) \<le> 128"
    using assms(1) by (fastforce simp: mq_wf_def attr_wf_def layout_simps)
  have "x \<in> set (q_messages q)" using b by (simp add: x_def)
  then show data: "length (msg_data x) = 128"
    using assms(1) by (simp add: mq_wf_def layout_simps)
  from size data x show "unat (msg_size x) = length m" by (auto simp: stored_def)
  with size show "length m \<le> 128" by simp
qed

lemma mq_dequeue_spec:
  assumes "mq_wf q" "mq_contents q = m # ms" "length m \<le> unat msg_len" "length m \<le> length msg_ptr"
  shows "\<exists>q'. mq_dequeue q msg_ptr msg_len =
      Some (int (length m), m @ drop (length m) msg_ptr, q') \<and> mq_wf q' \<and> mq_contents q' = ms \<and>
      q_attr q' = (q_attr q)\<lparr>mq_curmsg := mq_curmsg (q_attr q) - 1\<rparr>"
proof -
  note b = mq_wf_bounds [OF assms(1)]
  define x where "x = q_messages q ! mq_first q"
  note front = mq_front [OF assms(1,2), folded x_def]
  note n = front(1) and ring = front(6) and data = front(4)
  have ms: "ms = map stored (ring (mq_cap q) (q_messages q) ((mq_first q + 1) mod mq_cap q) (mq_count q - 1))"
    using assms(2) ring by (simp add: mq_contents_def)
  have size: "unat (msg_size x) \<le> 128" using front by simp
  have len: "unat (msg_size x) = length m" "take (length m) (msg_data x) = m"
    using front by (auto simp: stored_def)
  have "sint (msg_size x) = int (length m)"
    using size len by (simp add: sint_small_u64)
  moreover have "\<not> msg_len < msg_size x"
    using assms(3) len by (simp add: word_less_nat_alt)
  moreover have "memcpy_k msg_ptr (msg_data x) (unat (msg_size x)) = Some (m @ drop (length m) msg_ptr)"
    using assms(3,4) len data size by (simp add: memcpy_k_eq)
  moreover define q1 where "q1 = (if q_head q = mq_maxmsg (q_attr q) - 1 then q\<lparr>q_head := -1\<rparr> else q)"
  have head: "q_head q1 + 1 = int (mq_first q)"
    unfolding q1_def by (rule mq_next_head [OF assms(1)])
  have q1: "q_attr q1 = q_attr q" "q_messages q1 = q_messages q" "q1\<lparr>q_head := t\<rparr> = q\<lparr>q_head := t\<rparr>" for t
    by (simp_all add: q1_def)
  moreover define q' where "q' = q\<lparr>q_head := int (mq_first q),
      q_attr := (q_attr q)\<lparr>mq_curmsg := mq_curmsg (q_attr q) - 1\<rparr>\<rparr>"
  ultimately have deq: "mq_dequeue q msg_ptr msg_len = Some (int (length m), m @ drop (length m) msg_ptr, q')"
    using n b unfolding mq_dequeue_def Let_def q1_def [symmetric] head
    by (auto simp: rd_int_def mq_count_def x_def)
  have f: "mq_cap q' = mq_cap q" "mq_count q' = mq_count q - 1" "mq_first q' = (mq_first q + 1) mod mq_cap q"
    using n by (auto simp: q'_def mq_cap_def mq_count_def mq_first_def nat_add_distrib nat_diff_distrib)
  have ring': "mq_ring q' = ring (mq_cap q) (q_messages q) ((mq_first q + 1) mod mq_cap q) (mq_count q - 1)"
    unfolding mq_ring_def f by (simp add: q'_def)
  have "nat (q_tail q' + 1) mod mq_cap q' = (mq_first q' + mq_count q') mod mq_cap q'"
  proof -
    obtain c where "mq_count q = Suc c" using n by (cases "mq_count q") auto
    then show ?thesis
      using assms(1) unfolding f by (simp add: q'_def mq_wf_def mod_add_left_eq)
  qed
  moreover have "int (mq_first q) < mq_maxmsg (q_attr q)"
    using b(5) by (simp add: mq_cap_def)
  moreover have "1 \<le> mq_curmsg (q_attr q)" using n by (simp add: mq_count_def)
  ultimately have "mq_wf q'"
    using assms(1) ring ring' unfolding mq_wf_def [of q']
    by (auto simp: mq_wf_def attr_wf_def q'_def f)
  with deq ms ring' show ?thesis by (auto simp: mq_contents_def q'_def)
qed

lemma mq_contents_length: "length (mq_contents q) = mq_count q"
  by (simp add: mq_contents_def mq_ring_def)

lemma mq_empty_iff: "mq_wf q \<Longrightarrow> mq_curmsg (q_attr q) = 0 \<longleftrightarrow> mq_contents q = []"
  using mq_contents_length [of q] by (auto simp: mq_count_def mq_wf_def attr_wf_def)

lemma mq_stored_bound:
  assumes "mq_wf q" "m \<in> set (mq_contents q)"
  shows "length m \<le> nat (mq_msgsize (q_attr q))"
proof -
  from assms(2) obtain x where "x \<in> set (mq_ring q)" "m = stored x" by (auto simp: mq_contents_def)
  with assms(1) show ?thesis by (fastforce simp: mq_wf_def stored_def)
qed

lemma mq_put_spec:
  assumes "mq_wf q" "mq_ok m q"
  shows "if mq_count q < mq_cap q
    then \<exists>q'. mq_put m q = Some q' \<and> mq_wf q' \<and> mq_contents q' = mq_contents q @ [m] \<and>
      q_attr q' = (q_attr q)\<lparr>mq_curmsg := mq_curmsg (q_attr q) + 1\<rparr>
    else mq_put m q = None"
proof -
  have len: "unat (of_nat (length m) :: u64) = length m"
    using assms by (auto simp: mq_ok_def mq_wf_def attr_wf_def layout_simps unat_of_nat)
  have "unat (of_nat (length m) :: u64) \<le> nat (mq_msgsize (q_attr q))"
    "unat (of_nat (length m) :: u64) \<le> length m"
    using assms(2) len by (simp_all add: mq_ok_def)
  from mq_enqueue_spec [OF assms(1) this] len show ?thesis
    by (auto simp: mq_put_def)
qed

lemma mq_get_spec:
  assumes "mq_wf q" "mq_contents q = m # ms"
  shows "\<exists>q'. mq_get q = Some (m, q') \<and> mq_wf q' \<and> mq_contents q' = ms \<and>
    q_attr q' = (q_attr q)\<lparr>mq_curmsg := mq_curmsg (q_attr q) - 1\<rparr>"
proof -
  have "length m \<le> 128"
    using mq_stored_bound [OF assms(1), of m] assms by (auto simp: mq_wf_def attr_wf_def layout_simps)
  then have "length m \<le> unat (of_int MQ_MAX_MSG_SIZE :: u64)"
    "length m \<le> length (replicate (nat MQ_MAX_MSG_SIZE) (0 :: u8))"
    by (simp_all add: layout_simps)
  from mq_dequeue_spec [OF assms this] mq_empty_iff [OF assms(1)] assms(2)
  show ?thesis by (auto simp: mq_get_def)
qed

interpretation mq: bounded_fifo mq_put mq_get mq_contents mq_cap mq_wf mq_ok
proof
  fix q m m' q' ms
  assume wf: "mq_wf q"
  show "length (mq_contents q) \<le> mq_cap q"
    using mq_wf_bounds(4) [OF wf] by (simp add: mq_contents_length)
  show "mq_contents q = [] \<Longrightarrow> mq_get q = None"
    using mq_empty_iff [OF wf] by (simp add: mq_get_def)
  show "mq_contents q = m # ms \<Longrightarrow>
      \<exists>q'. mq_get q = Some (m, q') \<and> mq_wf q' \<and> mq_contents q' = ms \<and> mq_cap q' = mq_cap q"
    using mq_get_spec [OF wf] by (fastforce simp: mq_cap_def)
  show "mq_get q = Some (m', q') \<Longrightarrow> mq_ok m q' = mq_ok m q"
    using mq_get_spec [OF wf] mq_empty_iff [OF wf]
    by (cases "mq_contents q") (fastforce simp: mq_get_def mq_ok_def)+
  show "mq_ok m q \<Longrightarrow> length (mq_contents q) = mq_cap q \<Longrightarrow> mq_put m q = None"
    using mq_put_spec [OF wf] by (fastforce simp: mq_contents_length)
  show "mq_ok m q \<Longrightarrow> length (mq_contents q) < mq_cap q \<Longrightarrow>
      \<exists>q'. mq_put m q = Some q' \<and> mq_wf q' \<and> mq_contents q' = mq_contents q @ [m] \<and> mq_cap q' = mq_cap q"
    using mq_put_spec [OF wf] by (fastforce simp: mq_contents_length mq_cap_def)
  show "mq_ok m' q \<Longrightarrow> mq_put m' q = Some q' \<Longrightarrow> mq_ok m q' = mq_ok m q"
    using mq_put_spec [OF wf, of m'] by (auto simp: mq_ok_def split: if_splits)
qed

text \<open>
  C8. A message queue delivers what it accepted, in order, nothing lost, nothing twice, and never
  holds more than \<open>mq_maxmsg\<close> messages: for every sequence of sends and receives the messages that
  were there followed by those accepted are those delivered followed by those still there.
\<close>
theorem mqueue_fifo:
  assumes "mq_wf q" "\<forall>m\<in>put_items ops. length m \<le> nat (mq_msgsize (q_attr q))"
    and "fifo_run mq_put mq_get ops q = (ins, outs, q')"
  shows "mq_contents q @ ins = outs @ mq_contents q' \<and> mq_wf q' \<and>
    length (mq_contents q') \<le> nat (mq_maxmsg (q_attr q))"
  using mq.run_fifo [OF assms(1) _ assms(3)] assms(2) mq.bounded [of q']
  by (simp add: mq_ok_def mq_cap_def)

end
