(* ===== verification/Mqueue_System.thy ===== *)
theory Mqueue_System
  imports Mqueue
begin

text \<open>
  The table of message queues under the system calls: the step relation of all calls and resumed
  attempts, the invariant of every reachable state, the use of subscriber places, and what receiving
  and sending return.
\<close>

lemma unblock_subs_pids: "map sub_pid (fst (unblock_subs flag ts)) = map sub_pid ts"
  by (induction ts) (auto simp: Let_def split: prod.splits)

lemma unblock_subs_woken:
  "snd (unblock_subs flag ts) = map sub_pid (filter (\<lambda>t. sub_flags t AND flag \<noteq> 0) ts)"
  by (induction ts) (auto simp: Let_def split: prod.splits)

text \<open>What a queue keeps under every operation on its messages: identity and subscribed tasks.\<close>

definition same_queue :: "mqueue \<Rightarrow> mqueue \<Rightarrow> bool" where
  "same_queue q q' \<longleftrightarrow> q_id q' = q_id q \<and> q_open q' = q_open q \<and> q_hash q' = q_hash q \<and>
     map sub_pid (q_subs q') = map sub_pid (q_subs q)"

lemma same_queue_refl [simp]: "same_queue q q"
  by (simp add: same_queue_def)

lemma same_queue_trans [trans]: "same_queue q r \<Longrightarrow> same_queue r t \<Longrightarrow> same_queue q t"
  by (simp add: same_queue_def)

lemma mq_enqueue_same: "mq_enqueue q p l = Some (b, q', e) \<Longrightarrow> same_queue q q'"
  by (auto simp: mq_enqueue_def Let_def bind_Some mq_unblock_subscribers_def same_queue_def
      unblock_subs_pids split: if_splits prod.splits)
    (metis fst_conv unblock_subs_pids)+

lemma mq_dequeue_same: "mq_dequeue q p l = Some (r, b, q') \<Longrightarrow> same_queue q q' \<and> q_subs q' = q_subs q"
  by (auto simp: mq_dequeue_def Let_def bind_Some same_queue_def split: if_splits)

text \<open>The length check of \<open>mqueue_send\<close> is signed: what passes it fits the queue or is 2 to the 63 or more.\<close>

lemma length_check:
  assumes "\<not> n < sint (l :: u64)" "n \<le> 128"
  shows "unat l \<le> nat n \<or> 128 < unat l"
proof (cases "0 \<le> sint l")
  case True
  then have "nat (sint l) = unat l" by (intro sint_nonneg_unat) simp
  then show ?thesis using assms(1) True by linarith
next
  case False
  have "\<not> unat l < 2 ^ 63"
  proof
    assume "unat l < 2 ^ 63"
    then have "sint l = int (unat l)" by (rule sint_small_u64)
    then show False using False by simp
  qed
  then show ?thesis by simp
qed

text \<open>A message is only stored when both the caller's buffer and the record have room for it.\<close>

lemma mq_enqueue_stored:
  assumes "mq_enqueue q p l = Some (True, q', e)" "\<forall>m\<in>set (q_messages q). length (msg_data m) = nat MQ_MAX_MSG_SIZE"
  shows "unat l \<le> length p" "unat l \<le> 128"
proof -
  define q1 where "q1 = (if q_tail q = mq_maxmsg (q_attr q) - 1 then q\<lparr>q_tail := -1\<rparr> else q)"
  have same: "q_messages q1 = q_messages q" by (simp add: q1_def)
  obtain m dat where m: "rd_int (q_messages q1) (q_tail q1 + 1) = Some m" "memcpy_k (msg_data m) p (unat l) = Some dat"
    using assms(1) unfolding mq_enqueue_def Let_def q1_def [symmetric] by (auto split: if_splits bind_splits)
  have "m \<in> set (q_messages q)" using m(1) same by (auto simp: rd_int_def rd_at_Some split: if_splits)
  with assms(2) m(2) show "unat l \<le> length p" "unat l \<le> 128"
    by (auto simp: memcpy_k_eq layout_simps split: if_splits)
qed

lemma mq_enqueue_wf:
  assumes "mq_enqueue q p l = Some (b, q', e)" "mq_wf q" "\<not> mq_msgsize (q_attr q) < sint l"
  shows "mq_wf q'"
proof (cases "mq_count q < mq_cap q \<and> unat l \<le> length p \<and> unat l \<le> nat (mq_msgsize (q_attr q))")
  case True
  then have "unat l \<le> length p" "unat l \<le> nat (mq_msgsize (q_attr q))" by simp_all
  from mq_enqueue_spec [OF assms(2) this(2,1)] assms(1) True show ?thesis by auto
next
  case False
  have "\<not> mq_count q < mq_cap q"
  proof
    assume room: "mq_count q < mq_cap q"
    then have "b = True" using assms(1)
      by (auto simp: mq_enqueue_def Let_def mq_count_def mq_cap_def split: if_splits bind_splits prod.splits)
    moreover have "\<forall>m\<in>set (q_messages q). length (msg_data m) = nat MQ_MAX_MSG_SIZE" "mq_msgsize (q_attr q) \<le> 128"
      using assms(2) by (simp_all add: mq_wf_def attr_wf_def layout_simps)
    ultimately show False
      using mq_enqueue_stored [of q p l q' e] assms(1) False room length_check [OF assms(3)] by auto
  qed
  then have "mq_curmsg (q_attr q) = mq_maxmsg (q_attr q)"
    using assms(2) mq_wf_bounds(4) [OF assms(2)]
    by (auto simp: mq_wf_def attr_wf_def mq_count_def mq_cap_def)
  with mq_enqueue_full assms(1) mq_wf_reset(1) [OF assms(2)] show ?thesis by auto
qed

text \<open>The first message is too large for the buffer, or the buffer shorter than claimed.\<close>

lemma mq_dequeue_small:
  assumes "mq_wf q" "mq_contents q = m # ms" "unat l < length m"
  shows "\<exists>q'. mq_dequeue q p l = Some (- errno_val EMSGSIZE, p, q') \<and> mq_wf q' \<and>
    mq_contents q' = mq_contents q \<and> q_attr q' = q_attr q"
proof -
  define q1 where "q1 = (if q_head q = mq_maxmsg (q_attr q) - 1 then q\<lparr>q_head := -1\<rparr> else q)"
  note n = mq_front(1) [OF assms(1,2)]
  have big: "l < msg_size (q_messages q ! mq_first q)"
    using assms(3) mq_front(3) [OF assms(1,2)] by (simp add: word_less_nat_alt)
  have head: "q_head q1 + 1 = int (mq_first q)"
    unfolding q1_def by (rule mq_next_head [OF assms(1)])
  have "mq_dequeue q p l = Some (- errno_val EMSGSIZE, p, q1)"
    using n big mq_wf_bounds [OF assms(1)] head
    unfolding mq_dequeue_def Let_def q1_def [symmetric]
    by (simp add: rd_int_def mq_count_def) (simp add: q1_def)
  moreover have "mq_contents q1 = mq_contents q" "q_attr q1 = q_attr q"
    using assms(1)
    by (auto simp: q1_def mq_contents_def mq_ring_def mq_cap_def mq_count_def mq_first_def mq_wf_def attr_wf_def)
  ultimately show ?thesis using mq_wf_reset(2) [OF assms(1)] q1_def by auto
qed

lemma mq_dequeue_short:
  assumes "mq_wf q" "mq_contents q = m # ms" "length m \<le> unat l" "length p < length m"
  shows "mq_dequeue q p l = None"
proof -
  define x where "x = q_messages q ! mq_first q"
  define q1 where "q1 = (if q_head q = mq_maxmsg (q_attr q) - 1 then q\<lparr>q_head := -1\<rparr> else q)"
  note front = mq_front [OF assms(1,2), folded x_def]
  have head: "q_head q1 + 1 = int (mq_first q)"
    unfolding q1_def by (rule mq_next_head [OF assms(1)])
  have "q_messages q1 = q_messages q" by (simp add: q1_def)
  then have rd: "rd_int (q_messages q1) (q_head q1 + 1) = Some x"
    using head mq_wf_bounds [OF assms(1)] by (simp add: rd_int_def x_def)
  have "memcpy_k p (msg_data x) (unat (msg_size x)) = None"
    using assms(4) front(3) by (simp add: memcpy_k_eq)
  then show ?thesis
    using assms(3) front(1,3) rd unfolding mq_dequeue_def Let_def q1_def [symmetric]
    by (simp add: word_less_nat_alt mq_count_def)
qed

lemma mq_dequeue_wf:
  assumes "mq_dequeue q p l = Some (r, b, q')" "mq_wf q"
  shows "mq_wf q'"
proof (cases "mq_contents q")
  case Nil
  with assms mq_empty_iff [OF assms(2)] show ?thesis by (auto simp: mq_dequeue_def)
next
  case (Cons m ms)
  consider "unat l < length m" | "length m \<le> unat l" "length p < length m"
    | "length m \<le> unat l" "length m \<le> length p" by linarith
  then show ?thesis
  proof cases
    case 1
    with mq_dequeue_small [OF assms(2) Cons, of l p] assms(1) show ?thesis by auto
  next
    case 2
    with mq_dequeue_short [OF assms(2) Cons] assms(1) show ?thesis by auto
  next
    case 3
    from mq_dequeue_spec [OF assms(2) Cons this] assms(1) show ?thesis by auto
  qed
qed

subsection \<open>Queues with a negative attribute\<close>

text \<open>
  \<open>mqueue_open\<close> also accepts negative sizes. A queue with a negative \<open>mq_maxmsg\<close> is no ring: its positions are
  never set back, so its messages are a part of the array, each place of which is used once. A queue with a
  negative \<open>mq_msgsize\<close> stays empty.
\<close>

definition mq_line :: "mqueue \<Rightarrow> bool" where
  "mq_line q \<longleftrightarrow> (mq_maxmsg (q_attr q) < 0 \<or> mq_msgsize (q_attr q) < 0) \<and>
     mq_maxmsg (q_attr q) \<noteq> 0 \<and> mq_maxmsg (q_attr q) \<le> MQ_MAX_MSG \<and> mq_msgsize (q_attr q) \<le> MQ_MAX_MSG_SIZE \<and>
     -1 \<le> q_head q \<and> q_head q \<le> q_tail q \<and> q_tail q < MQ_MAX_MSG \<and> mq_curmsg (q_attr q) = q_tail q - q_head q \<and>
     (mq_msgsize (q_attr q) < 0 \<longrightarrow> q_tail q = -1) \<and> length (q_messages q) = nat MQ_MAX_MSG \<and>
     (\<forall>m\<in>set (q_messages q). length (msg_data m) = nat MQ_MAX_MSG_SIZE) \<and>
     (\<forall>i. q_head q < int i \<and> int i \<le> q_tail q \<longrightarrow> unat (msg_size (q_messages q ! i)) \<le> nat (mq_msgsize (q_attr q)))"

lemma mq_line_enqueue:
  assumes "mq_enqueue q p l = Some (b, q', e)" "mq_line q" "\<not> mq_msgsize (q_attr q) < sint l"
  shows "mq_line q'"
proof -
  note line = assms(2) [unfolded mq_line_def]
  have tail: "q_tail q \<noteq> mq_maxmsg (q_attr q) - 1" "mq_curmsg (q_attr q) \<noteq> mq_maxmsg (q_attr q)" using line by auto
  obtain m dat messages where enq: "rd_int (q_messages q) (q_tail q + 1) = Some m"
      "memcpy_k (msg_data m) p (unat l) = Some dat"
      "wr_int (q_messages q) (q_tail q + 1) \<lparr>msg_size = l, msg_data = dat\<rparr> = Some messages" "b = True"
      "q_head q' = q_head q" "q_tail q' = q_tail q + 1" "q_messages q' = messages"
      "q_attr q' = (q_attr q)\<lparr>mq_curmsg := mq_curmsg (q_attr q) + 1\<rparr>"
    using assms(1) tail
    by (auto simp: mq_enqueue_def Let_def mq_unblock_subscribers_def split: if_splits bind_splits prod.splits)
  have l: "unat l \<le> 128" using mq_enqueue_stored(2) [of q p l q' e] assms(1) enq(4) line by simp
  then have size: "unat l \<le> nat (mq_msgsize (q_attr q))"
    using length_check [OF assms(3)] line by (auto simp: layout_simps)
  have "sint l = int (unat l)" using l by (intro sint_small_u64) simp
  then have pos: "0 \<le> mq_msgsize (q_attr q)" using assms(3) of_nat_0_le_iff [of "unat l", where 'a = int] by linarith
  have k: "0 \<le> q_tail q + 1" "nat (q_tail q + 1) < 8" "messages = (q_messages q)[nat (q_tail q + 1) := \<lparr>msg_size = l, msg_data = dat\<rparr>]"
    using enq(3) line by (auto simp: wr_int_def wr_at_def layout_simps split: if_splits)
  have "m \<in> set (q_messages q)" using enq(1) by (auto simp: rd_int_def rd_at_Some split: if_splits)
  then have "length dat = nat MQ_MAX_MSG_SIZE" using enq(2) line by (auto simp: memcpy_k_eq split: if_splits)
  moreover have "\<forall>m\<in>set (q_messages q). length (msg_data m) = nat MQ_MAX_MSG_SIZE" using line by simp
  ultimately have dat: "\<forall>m\<in>set messages. length (msg_data m) = nat MQ_MAX_MSG_SIZE"
    using set_update_subset_insert [of "q_messages q" "nat (q_tail q + 1)" "\<lparr>msg_size = l, msg_data = dat\<rparr>"]
    unfolding k(3) by fastforce
  have "unat (msg_size (messages ! i)) \<le> nat (mq_msgsize (q_attr q))" if "q_head q < int i" "int i \<le> q_tail q + 1" for i
  proof (cases "i = nat (q_tail q + 1)")
    case True
    then show ?thesis using k(2) size line by (simp add: k(3) layout_simps)
  next
    case False
    then have "int i \<le> q_tail q" using that(2) by linarith
    then show ?thesis using that(1) line False by (simp add: k(3))
  qed
  then show ?thesis using line enq(5-8) dat k pos
    by (auto simp: mq_line_def layout_simps)
qed

lemma mq_line_dequeue:
  assumes "mq_dequeue q p l = Some (r, b, q')" "mq_line q"
  shows "mq_line q'"
proof (cases "mq_curmsg (q_attr q) = 0")
  case True
  then show ?thesis using assms by (simp add: mq_dequeue_def)
next
  case False
  note line = assms(2) [unfolded mq_line_def]
  have head: "q_head q \<noteq> mq_maxmsg (q_attr q) - 1" using line False by auto
  have "q_head q < q_tail q" using line False by simp
  then show ?thesis
    using assms(1) False head line by (auto simp: mq_dequeue_def mq_line_def Let_def split: if_splits bind_splits)
qed

text \<open>What holds of a queue, whatever its attributes.\<close>

definition mq_used :: "mqueue \<Rightarrow> bool" where
  "mq_used q \<longleftrightarrow> (if 0 < mq_maxmsg (q_attr q) \<and> 0 < mq_msgsize (q_attr q) then mq_wf q else mq_line q)"

lemma mq_used_cases: "mq_used q \<longleftrightarrow> mq_wf q \<or> mq_line q"
  by (auto simp: mq_used_def mq_wf_def attr_wf_def mq_line_def)

lemma mq_used_enqueue:
  "mq_enqueue q p l = Some (b, q', e) \<Longrightarrow> mq_used q \<Longrightarrow> \<not> mq_msgsize (q_attr q) < sint l \<Longrightarrow> mq_used q'"
  by (auto simp: mq_used_cases dest: mq_enqueue_wf mq_line_enqueue)

lemma mq_used_dequeue: "mq_dequeue q p l = Some (r, b, q') \<Longrightarrow> mq_used q \<Longrightarrow> mq_used q'"
  by (auto simp: mq_used_cases dest: mq_dequeue_wf mq_line_dequeue)

lemma mq_used_messages:
  "mq_used q \<Longrightarrow> length (q_messages q) = nat MQ_MAX_MSG \<and> (\<forall>m\<in>set (q_messages q). length (msg_data m) = nat MQ_MAX_MSG_SIZE)"
  by (auto simp: mq_used_cases mq_wf_def mq_line_def)

subsection \<open>The table of queues\<close>

text \<open>
  A slot is either untouched since boot or holds a queue; a queue that has been removed
  keeps its ring, so that a task blocked on it still finds one.
\<close>

definition slot_wf :: "mqueue \<Rightarrow> bool" where
  "slot_wf q \<longleftrightarrow> length (q_subs q) = MQ_MAX_SUBSCRIBERS \<and> length (q_messages q) = nat MQ_MAX_MSG \<and>
     (\<forall>m\<in>set (q_messages q). length (msg_data m) = nat MQ_MAX_MSG_SIZE) \<and>
     (mq_used q \<or> q_id q = 0 \<and> mq_maxmsg (q_attr q) = 0 \<and> (\<forall>t\<in>set (q_subs q). sub_pid t = 0))"

definition mq_state_wf :: "mq_state \<Rightarrow> bool" where
  "mq_state_wf st \<longleftrightarrow> length (open_queues st) = MQ_MAX_OPEN \<and> (\<forall>q\<in>set (open_queues st). slot_wf q)"

definition mq_boot_slot :: mqueue where
  "mq_boot_slot = \<lparr>q_id = 0, q_open = False, q_hash = 0,
     q_subs = replicate MQ_MAX_SUBSCRIBERS \<lparr>sub_pid = 0, sub_flags = 0\<rparr>,
     q_attr = \<lparr>mq_flags = 0, mq_maxmsg = 0, mq_msgsize = 0, mq_curmsg = 0\<rparr>,
     q_head = 0, q_tail = 0,
     q_messages = replicate (nat MQ_MAX_MSG)
       \<lparr>msg_size = 0, msg_data = replicate (nat MQ_MAX_MSG_SIZE) 0\<rparr>\<rparr>"

definition mq_boot :: mq_state where
  "mq_boot = \<lparr>open_queues = replicate MQ_MAX_OPEN mq_boot_slot, mqueue_count = 0\<rparr>"

text \<open>
  The steps of the system: every call, by any task with any arguments, and every repeated attempt of a task that was
  blocked, on any slot that has held a queue. A repeated attempt of \<open>mqueue_send\<close> has the length that the call
  has checked; the queue in the slot is still the same, because the blocked task is subscribed to it.
\<close>

inductive mq_step :: "mq_state \<Rightarrow> mq_state \<Rightarrow> bool" where
  opened: "mqueue_open name oflag attr pid st = Some (r, st') \<Longrightarrow> mq_step st st'"
| closed: "mqueue_close d pid st = (r, st') \<Longrightarrow> mq_step st st'"
| unlinked: "mqueue_unlink name st = Some (r, st') \<Longrightarrow> mq_step st st'"
| sent: "mqueue_send d p l pid st = Some (out, st', e) \<Longrightarrow> mq_step st st'"
| resent: "mqueue_send_attempt i j p l st = Some (out, st', e) \<Longrightarrow> i < MQ_MAX_OPEN \<Longrightarrow>
    mq_maxmsg (q_attr (open_queues st ! i)) \<noteq> 0 \<Longrightarrow>
    \<not> mq_msgsize (q_attr (open_queues st ! i)) < sint l \<Longrightarrow> mq_step st st'"
| received: "mqueue_receive d p l pid st = Some (out, b, st') \<Longrightarrow> mq_step st st'"
| rereceived: "mqueue_receive_attempt i j p l st = Some (out, b, st') \<Longrightarrow> i < MQ_MAX_OPEN \<Longrightarrow>
    mq_maxmsg (q_attr (open_queues st ! i)) \<noteq> 0 \<Longrightarrow> mq_step st st'"

lemma mq_used_cong:
  assumes "mq_used q" "q_attr q' = q_attr q" "q_head q' = q_head q" "q_tail q' = q_tail q"
    and "q_messages q' = q_messages q"
  shows "mq_used q'"
proof -
  have "mq_wf q' = mq_wf q" "mq_line q' = mq_line q"
    unfolding mq_wf_def mq_line_def mq_ring_def mq_cap_def mq_first_def mq_count_def assms(2-5) by (rule refl)+
  then show ?thesis using assms(1) by (simp add: mq_used_cases)
qed

lemma slot_wf_cong:
  assumes "slot_wf q" "q_attr q' = q_attr q" "q_head q' = q_head q" "q_tail q' = q_tail q"
    and "q_messages q' = q_messages q" "length (q_subs q') = length (q_subs q)" "q_id q' = q_id q \<or> q_id q' = 0"
    and "mq_used q \<or> q_subs q' = q_subs q"
  shows "slot_wf q'"
  using assms mq_used_cong [of q q'] by (auto simp: slot_wf_def)

lemma set_queue_wf:
  assumes "mq_state_wf st" "slot_wf q"
  shows "mq_state_wf (set_queue i q st)"
  using assms set_update_subset_insert [of "open_queues st" i q]
  by (auto simp: mq_state_wf_def set_queue_def)

lemma slot_nth: "mq_state_wf st \<Longrightarrow> i < MQ_MAX_OPEN \<Longrightarrow> slot_wf (open_queues st ! i)"
  by (simp add: mq_state_wf_def)

lemma untouched_no_subscriber:
  assumes "slot_wf q" "\<not> mq_used q"
  shows "mq_find_subscriber q pid = None"
  using assms by (auto simp: mq_find_subscriber_def slot_wf_def first_index_None)

lemma slot_wf_subscribe: "slot_wf q \<Longrightarrow> mq_used q \<Longrightarrow> slot_wf (snd (mq_subscribe q pid flags))"
  by (rule slot_wf_cong [of q]) (auto simp: mq_subscribe_def split: option.splits)

lemma slot_wf_unsubscribe:
  assumes "slot_wf q"
  shows "slot_wf (snd (mq_unsubscribe q pid))"
proof (rule slot_wf_cong [OF assms])
  show "mq_used q \<or> q_subs (snd (mq_unsubscribe q pid)) = q_subs q"
    using untouched_no_subscriber [OF assms, of pid]
    by (cases "mq_used q") (auto simp: mq_unsubscribe_def)
qed (auto simp: mq_unsubscribe_def split: option.splits)

lemma slot_wf_destroy: "slot_wf q \<Longrightarrow> slot_wf (mq_destroy q)"
  by (rule slot_wf_cong [of q]) (auto simp: mq_destroy_def Let_def)

lemma mq_find_bound: "mq_state_wf st \<Longrightarrow> mq_find d st = Some i \<Longrightarrow> i < MQ_MAX_OPEN"
  "mq_state_wf st \<Longrightarrow> mq_find_hash h st = Some i \<Longrightarrow> i < MQ_MAX_OPEN"
  by (auto simp: mq_find_def mq_find_hash_def mq_state_wf_def dest: first_index_Some)

lemma mq_find_hash_wf:
  assumes "mq_state_wf st" "mq_find_hash h st = Some i"
  shows "mq_used (open_queues st ! i)"
proof -
  have "q_id (open_queues st ! i) \<noteq> 0"
    using first_index_Some [OF assms(2) [unfolded mq_find_hash_def]] by simp
  then show ?thesis
    using slot_nth [OF assms(1) mq_find_bound(2) [OF assms]] by (simp add: slot_wf_def)
qed

lemma created_wf:
  assumes "slot_wf q" "fst sizes \<noteq> 0" "fst sizes \<le> MQ_MAX_MSG" "snd sizes \<noteq> 0"
    "snd sizes \<le> MQ_MAX_MSG_SIZE"
  shows "mq_used (q\<lparr>q_id := n, q_open := True, q_hash := h, q_head := -1, q_tail := -1,
    q_attr := \<lparr>mq_flags = 0, mq_maxmsg = fst sizes, mq_msgsize = snd sizes, mq_curmsg = 0\<rparr>\<rparr>)"
  using assms
  by (auto simp: mq_used_def mq_wf_def mq_line_def attr_wf_def mq_cap_def mq_first_def mq_count_def mq_ring_def slot_wf_def
      layout_simps)

lemma mq_create_wf:
  assumes "mq_state_wf st" "i < MQ_MAX_OPEN" "fst sizes \<noteq> 0" "fst sizes \<le> MQ_MAX_MSG"
    "snd sizes \<noteq> 0" "snd sizes \<le> MQ_MAX_MSG_SIZE"
  shows "mq_state_wf (mq_create i h sizes st)" "mq_used (open_queues (mq_create i h sizes st) ! i)"
proof -
  have slot: "slot_wf (open_queues st ! i)" and len: "i < length (open_queues st)"
    using assms(1,2) by (simp_all add: mq_state_wf_def)
  note wf = created_wf [OF slot assms(3-6), where n = "sint (ucast (mqueue_count st + 1) :: u32)" and h = h]
  with slot have "slot_wf ((open_queues st ! i)\<lparr>q_id := sint (ucast (mqueue_count st + 1) :: u32),
      q_open := True, q_hash := h, q_head := -1, q_tail := -1,
      q_attr := \<lparr>mq_flags = 0, mq_maxmsg = fst sizes, mq_msgsize = snd sizes, mq_curmsg = 0\<rparr>\<rparr>)"
    by (simp add: slot_wf_def)
  from set_queue_wf [OF assms(1) this, of i]
  show "mq_state_wf (mq_create i h sizes st)"
    by (simp add: mq_create_def Let_def mq_state_wf_def)
  show "mq_used (open_queues (mq_create i h sizes st) ! i)"
    using wf len by (simp add: mq_create_def Let_def set_queue_def)
qed

lemma mq_open_found_wf:
  assumes "mq_state_wf st" "\<And>i. found = Some i \<Longrightarrow> i < MQ_MAX_OPEN \<and> mq_used (open_queues st ! i)"
  shows "mq_state_wf (snd (mq_open_found found pid oflag st))"
  using assms(1) set_queue_wf [OF assms(1)] slot_nth [OF assms(1)] assms(2) slot_wf_subscribe
  by (auto simp: mq_open_found_def Let_def split: option.splits prod.splits bool.splits)
    (metis snd_conv)+

lemma mq_open_attr_wf:
  assumes "mq_open_attr attr = Inr sizes"
  shows "fst sizes \<noteq> 0 \<and> fst sizes \<le> MQ_MAX_MSG \<and> snd sizes \<noteq> 0 \<and> snd sizes \<le> MQ_MAX_MSG_SIZE"
  using assms by (auto simp: mq_open_attr_def layout_simps split: option.splits if_splits)

lemma mqueue_open_wf:
  assumes "mqueue_open name oflag attr pid st = Some (r, st')" "mq_state_wf st"
  shows "mq_state_wf st'"
proof -
  obtain h where h: "strhash name = Some h"
    using assms(1) by (cases "strhash name") (auto simp: mqueue_open_def)
  have found: "mq_state_wf (snd (mq_open_found (mq_find_hash h st) pid oflag st))"
    using mq_find_bound(2) [OF assms(2)] mq_find_hash_wf [OF assms(2)]
    by (intro mq_open_found_wf [OF assms(2)]) auto
  have new: "mq_state_wf (snd (mq_open_found (Some i) pid oflag (mq_create i h sizes st)))"
    if "first_index (\<lambda>q. q_id q = 0) (open_queues st) = Some i" "mq_open_attr attr = Inr sizes" for i sizes
  proof -
    have i: "i < MQ_MAX_OPEN"
      using first_index_Some [OF that(1)] assms(2) by (simp add: mq_state_wf_def)
    note s = mq_open_attr_wf [OF that(2)]
    show ?thesis
      using mq_create_wf [OF assms(2) i, of sizes h] s i by (intro mq_open_found_wf) auto
  qed
  show ?thesis
    using assms(1,2) found new h
    by (auto simp: mqueue_open_def Let_def split: if_splits option.splits sum.splits)
      (metis snd_conv)
qed

lemma send_attempt_wf:
  assumes "mqueue_send_attempt i j p l st = Some (out, st', e)" "mq_state_wf st" "i < MQ_MAX_OPEN"
    and "mq_used (open_queues st ! i)" "\<not> mq_msgsize (q_attr (open_queues st ! i)) < sint l"
  shows "mq_state_wf st'"
proof -
  let ?q = "open_queues st ! i"
  obtain b q e' where enq: "mq_enqueue ?q p l = Some (b, q, e')"
    using assms(1) by (auto simp: mqueue_send_attempt_def bind_Some)
  have q: "mq_used q" using mq_used_enqueue [OF enq assms(4,5)] .
  have "length (q_subs q) = length (q_subs ?q)"
    using mq_enqueue_same [OF enq] by (auto simp: same_queue_def dest: map_eq_imp_length_eq)
  then have slot: "slot_wf q"
    using q slot_nth [OF assms(2,3)] mq_used_messages [OF q] by (simp add: slot_wf_def)
  have "slot_wf (q\<lparr>q_subs := (q_subs q)[j := t]\<rparr>)" for t
    using q by (intro slot_wf_cong [OF slot]) auto
  with assms(1,2) enq slot show ?thesis
    by (auto simp: mqueue_send_attempt_def bind_Some Let_def intro!: set_queue_wf split: if_splits)
qed

lemma receive_attempt_wf:
  assumes "mqueue_receive_attempt i j p l st = Some (out, b, st')" "mq_state_wf st" "i < MQ_MAX_OPEN"
    and "mq_used (open_queues st ! i)"
  shows "mq_state_wf st'"
proof -
  let ?q = "open_queues st ! i"
  obtain r b' q where deq: "mq_dequeue ?q p l = Some (r, b', q)"
    using assms(1) by (auto simp: mqueue_receive_attempt_def bind_Some)
  have q: "mq_used q" using mq_used_dequeue [OF deq assms(4)] .
  then have slot: "slot_wf q"
    using mq_dequeue_same [OF deq] slot_nth [OF assms(2,3)] mq_used_messages [OF q] by (simp add: slot_wf_def)
  have "slot_wf (q\<lparr>q_subs := (q_subs q)[j := t]\<rparr>)" for t
    using q by (intro slot_wf_cong [OF slot]) auto
  with assms(1,2) deq slot show ?thesis
    by (auto simp: mqueue_receive_attempt_def bind_Some Let_def intro!: set_queue_wf split: if_splits)
qed

lemma mq_step_wf: "mq_step st st' \<Longrightarrow> mq_state_wf st \<Longrightarrow> mq_state_wf st'"
proof (induction rule: mq_step.induct)
  case opened
  then show ?case using mqueue_open_wf by blast
next
  case (closed d pid st r st')
  then show ?case
    using slot_wf_unsubscribe [OF slot_nth [OF closed.prems mq_find_bound(1) [OF closed.prems]]]
    by (auto simp: mqueue_close_def Let_def split: option.splits
        intro!: set_queue_wf slot_wf_destroy)
next
  case (unlinked name st r st')
  then show ?case
    using slot_nth [OF unlinked.prems mq_find_bound(2) [OF unlinked.prems]]
    by (auto simp: mqueue_unlink_def bind_Some split: option.splits
        intro!: set_queue_wf slot_wf_destroy)
next
  case (sent d p l pid st out st' e)
  show ?case
  proof (cases "mq_find d st")
    case None
    with sent show ?thesis by (auto simp: mqueue_send_def)
  next
    case (Some i)
    let ?q = "open_queues st ! i"
    note i = mq_find_bound(1) [OF sent.prems Some]
    show ?thesis
    proof (cases "mq_used ?q")
      case True
      show ?thesis
        using sent Some send_attempt_wf [of i _ p l st out st' e] i True
        by (auto simp: mqueue_send_def Let_def split: if_splits option.splits)
    next
      case False
      with sent Some untouched_no_subscriber [OF slot_nth [OF sent.prems i]] show ?thesis
        by (auto simp: mqueue_send_def Let_def split: if_splits)
    qed
  qed
next
  case (received d p l pid st out b st')
  show ?case
  proof (cases "mq_find d st")
    case None
    with received show ?thesis by (auto simp: mqueue_receive_def)
  next
    case (Some i)
    note i = mq_find_bound(1) [OF received.prems Some]
    show ?thesis
      using received Some receive_attempt_wf [of i _ p l st out b st'] i
        untouched_no_subscriber [OF slot_nth [OF received.prems i]]
      by (cases "mq_used (open_queues st ! i)")
        (auto simp: mqueue_receive_def Let_def split: if_splits option.splits)
  qed
next
  case (resent i j p l st out st' e)
  moreover have "mq_used (open_queues st ! i)"
    using slot_nth [OF resent.prems resent(2)] resent(3) by (auto simp: slot_wf_def)
  ultimately show ?case using send_attempt_wf by blast
next
  case (rereceived i j p l st out b st')
  moreover have "mq_used (open_queues st ! i)"
    using slot_nth [OF rereceived.prems rereceived(2)] rereceived(3) by (auto simp: slot_wf_def)
  ultimately show ?case using receive_attempt_wf by blast
qed

subsection \<open>Places for subscribers\<close>

definition free_places :: "mqueue \<Rightarrow> nat" where
  "free_places q = length (filter (\<lambda>p. p = 0) (map sub_pid (q_subs q)))"

definition total_places :: "mq_state \<Rightarrow> nat" where
  "total_places st = sum_list (map free_places (open_queues st))"

lemma free_places_cong: "map sub_pid (q_subs q') = map sub_pid (q_subs q) \<Longrightarrow> free_places q' = free_places q"
  by (simp add: free_places_def)

lemma total_places_update:
  assumes "i < length (open_queues st)"
  shows "total_places (set_queue i q st) + free_places (open_queues st ! i) = total_places st + free_places q"
proof -
  have "open_queues st = take i (open_queues st) @ open_queues st ! i # drop (Suc i) (open_queues st)"
    using assms by (rule id_take_nth_drop)
  then have "total_places st = sum_list (map free_places (take i (open_queues st))) +
      (free_places (open_queues st ! i) + sum_list (map free_places (drop (Suc i) (open_queues st))))"
    unfolding total_places_def by (metis list.simps(9) map_append sum_list.Cons sum_list.append)
  then show ?thesis
    using assms by (simp add: total_places_def set_queue_def upd_conv_take_nth_drop)
qed

lemma total_places_same:
  assumes "i < length (open_queues st)" "free_places q = free_places (open_queues st ! i)"
  shows "total_places (set_queue i q st) = total_places st"
  using total_places_update [OF assms(1), of q] assms(2) by simp

lemma free_places_subs_update:
  assumes "sub_pid t = 0 \<longleftrightarrow> sub_pid (q_subs q ! j) = 0" "j < length (q_subs q)"
  shows "free_places (q\<lparr>q_subs := (q_subs q)[j := t]\<rparr>) = free_places q"
proof -
  have "q_subs q = take j (q_subs q) @ q_subs q ! j # drop (Suc j) (q_subs q)"
    using assms(2) by (rule id_take_nth_drop)
  then have "free_places q = length (filter (\<lambda>t. sub_pid t = 0)
      (take j (q_subs q) @ q_subs q ! j # drop (Suc j) (q_subs q)))"
    by (simp add: free_places_def filter_map o_def)
  then show ?thesis
    using assms by (simp add: free_places_def filter_map o_def upd_conv_take_nth_drop)
qed

lemma free_places_unsubscribe: "free_places (snd (mq_unsubscribe q pid)) = free_places q"
proof (cases "mq_find_subscriber q pid")
  case (Some i)
  then have "i < length (q_subs q)" "sub_pid (q_subs q ! i) \<noteq> 0"
    by (auto simp: mq_find_subscriber_def dest: first_index_Some)
  with Some show ?thesis by (simp add: mq_unsubscribe_def free_places_subs_update)
qed (simp add: mq_unsubscribe_def)

lemma free_places_subscribe:
  assumes "mq_subscribe q pid flags = (True, q')" "pid \<noteq> 0"
  shows "Suc (free_places q') = free_places q"
proof -
  obtain i where i: "first_index (\<lambda>t. sub_pid t = 0) (q_subs q) = Some i"
      and q': "q' = q\<lparr>q_subs := (q_subs q)[i := \<lparr>sub_pid = pid, sub_flags = flags\<rparr>]\<rparr>"
    using assms(1) by (auto simp: mq_subscribe_def split: option.splits)
  from first_index_Some [OF i] filter_update_length [of i "q_subs q" "\<lambda>t. sub_pid t = 0"] assms(2)
  show ?thesis by (simp add: q' free_places_def filter_map o_def)
qed

lemma free_places_destroy: "free_places (mq_destroy q) = free_places q"
  by (auto simp: mq_destroy_def Let_def free_places_def)

lemma open_found_places:
  assumes "mq_open_found (Some i) pid oflag st = (r, st')" "i < length (open_queues st)" "pid \<noteq> 0"
  shows "if 0 < r then Suc (total_places st') = total_places st else total_places st' \<le> total_places st"
proof -
  obtain ok q where sub: "mq_subscribe (open_queues st ! i) pid oflag = (ok, q)" by fastforce
  show ?thesis
  proof (cases "q_open (open_queues st ! i) \<and> ok")
    case True
    with assms(1) sub have "r = q_id q" "st' = set_queue i q st"
      by (auto simp: mq_open_found_def Let_def)
    with total_places_update [OF assms(2), of q] free_places_subscribe [of _ pid oflag q] sub True assms(3)
    show ?thesis by fastforce
  next
    case False
    with assms(1) sub show ?thesis
      by (cases ok) (auto simp: mq_open_found_def Let_def split: if_splits)
  qed
qed

lemma mq_create_places:
  "i < length (open_queues st) \<Longrightarrow> total_places (mq_create i h sizes st) = total_places st"
  "length (open_queues (mq_create i h sizes st)) = length (open_queues st)"
proof -
  assume i: "i < length (open_queues st)"
  have "total_places (st'\<lparr>mqueue_count := c\<rparr>) = total_places st'" for st' c
    by (simp add: total_places_def)
  with total_places_same [OF i] show "total_places (mq_create i h sizes st) = total_places st"
    by (simp add: mq_create_def Let_def free_places_def)
qed (simp add: mq_create_def Let_def set_queue_def)

text \<open>The three ways \<open>mqueue_open\<close> ends: an error, a queue found, a queue created.\<close>

lemma mqueue_open_cases:
  assumes "mqueue_open name oflag attr pid st = Some (r, st')" "strhash name = Some h"
  obtains (error) "r \<le> 0" "st' = st"
    | (found) i where "mq_find_hash h st = Some i" "mq_open_found (Some i) pid oflag st = (r, st')"
    | (created) i sizes where "first_index (\<lambda>q. q_id q = 0) (open_queues st) = Some i"
        "mq_open_attr attr = Inr sizes"
        "mq_open_found (Some i) pid oflag (mq_create i h sizes st) = (r, st')"
proof (cases "mq_find_hash h st")
  case (Some i)
  with assms that(1,2) show ?thesis
    by (auto simp: mqueue_open_def Let_def split: if_splits)
next
  case None
  have err: "- errno_val e \<le> 0" for e using errno_val_bounds [of e] by simp
  from None assms that(1,3) err show ?thesis
    by (cases "oflag AND O_CREAT = 0")
      (auto simp: mqueue_open_def Let_def mq_open_found_def [of None]
        split: option.splits sum.splits)
qed

lemma mqueue_open_places:
  assumes "mqueue_open name oflag attr pid st = Some (r, st')" "pid \<noteq> 0"
  shows "if 0 < r then Suc (total_places st') = total_places st else total_places st' \<le> total_places st"
proof -
  obtain h where h: "strhash name = Some h"
    using assms(1) by (cases "strhash name") (auto simp: mqueue_open_def)
  from assms(1) h show ?thesis
  proof (cases rule: mqueue_open_cases)
    case error
    then show ?thesis by simp
  next
    case (found i)
    then have "i < length (open_queues st)"
      by (auto simp: mq_find_hash_def dest: first_index_Some)
    from open_found_places [OF found(2) this assms(2)] show ?thesis .
  next
    case (created i sizes)
    then have i: "i < length (open_queues st)" by (auto dest: first_index_Some)
    then have "i < length (open_queues (mq_create i h sizes st))" by (simp add: mq_create_places(2))
    from open_found_places [OF created(3) this assms(2)] show ?thesis
      unfolding mq_create_places(1) [OF i] .
  qed
qed

lemma send_attempt_places:
  assumes "mqueue_send_attempt i j p l st = Some (out, st', e)" "i < length (open_queues st)"
  shows "total_places st' = total_places st"
proof -
  obtain b q e' where enq: "mq_enqueue (open_queues st ! i) p l = Some (b, q, e')"
    using assms(1) by (auto simp: mqueue_send_attempt_def bind_Some)
  have q: "free_places q = free_places (open_queues st ! i)"
    using mq_enqueue_same [OF enq] by (intro free_places_cong) (simp add: same_queue_def)
  have twice: "set_queue i q' (set_queue i q st) = set_queue i q' st" for q'
    by (simp add: set_queue_def)
  from assms(1) enq show ?thesis
    by (auto simp: mqueue_send_attempt_def bind_Some Let_def rd_at_Some twice total_places_same assms(2) q
        free_places_subs_update split: if_splits)
qed

lemma receive_attempt_places:
  assumes "mqueue_receive_attempt i j p l st = Some (out, b, st')" "i < length (open_queues st)"
  shows "total_places st' = total_places st"
proof -
  obtain r b' q where deq: "mq_dequeue (open_queues st ! i) p l = Some (r, b', q)"
    using assms(1) by (auto simp: mqueue_receive_attempt_def bind_Some)
  have q: "free_places q = free_places (open_queues st ! i)"
    using mq_dequeue_same [OF deq] by (intro free_places_cong) (simp add: same_queue_def)
  have twice: "set_queue i q' (set_queue i q st) = set_queue i q' st" for q'
    by (simp add: set_queue_def)
  from assms(1) deq show ?thesis
    by (auto simp: mqueue_receive_attempt_def bind_Some Let_def rd_at_Some twice total_places_same assms(2) q
        free_places_subs_update split: if_splits)
qed

lemma open_found_places_le:
  assumes "mq_open_found (Some i) pid oflag st = (r, st')" "i < length (open_queues st)"
  shows "total_places st' \<le> total_places st"
proof (cases "pid = 0")
  case False
  then show ?thesis using open_found_places [OF assms] by (auto split: if_splits)
next
  case True
  have same: "free_places (snd (mq_subscribe q 0 oflag)) = free_places q" for q
  proof (cases "first_index (\<lambda>t. sub_pid t = 0) (q_subs q)")
    case (Some k)
    then have "(map sub_pid (q_subs q))[k := 0] = map sub_pid (q_subs q)"
      using first_index_Some [OF Some] by (intro list_update_same_conv [THEN iffD2]) auto
    then show ?thesis using Some by (simp add: mq_subscribe_def free_places_def map_update)
  qed (simp add: mq_subscribe_def)
  have "st' = st \<or> st' = set_queue i (snd (mq_subscribe (open_queues st ! i) 0 oflag)) st"
    using assms(1) True by (auto simp: mq_open_found_def Let_def split: if_splits prod.splits bool.splits)
  then show ?thesis using total_places_same [OF assms(2) same] by auto
qed

lemma mqueue_open_places_le:
  assumes "mqueue_open name oflag attr pid st = Some (r, st')"
  shows "total_places st' \<le> total_places st"
proof -
  obtain h where h: "strhash name = Some h"
    using assms(1) by (cases "strhash name") (auto simp: mqueue_open_def)
  from assms(1) h show ?thesis
  proof (cases rule: mqueue_open_cases)
    case (found i)
    then have "i < length (open_queues st)" by (auto simp: mq_find_hash_def dest: first_index_Some)
    from open_found_places_le [OF found(2) this] show ?thesis .
  next
    case (created i sizes)
    then have i: "i < length (open_queues st)" by (auto dest: first_index_Some)
    then have "i < length (open_queues (mq_create i h sizes st))" by (simp add: mq_create_places(2))
    from open_found_places_le [OF created(3) this] show ?thesis unfolding mq_create_places(1) [OF i] .
  qed simp
qed

lemma mq_find_length: "mq_find d st = Some i \<Longrightarrow> i < length (open_queues st)"
  "mq_find_hash h st = Some i \<Longrightarrow> i < length (open_queues st)"
  by (auto simp: mq_find_def mq_find_hash_def dest: first_index_Some)

lemma mq_step_places:
  "mq_step st st' \<Longrightarrow> length (open_queues st) = MQ_MAX_OPEN \<Longrightarrow> total_places st' \<le> total_places st"
proof (induction rule: mq_step.induct)
  case (opened name oflag attr pid st r st')
  then show ?case using mqueue_open_places_le by blast
next
  case (closed d pid st r st')
  then show ?case
  proof (cases "mq_find d st")
    case (Some i)
    note same = total_places_same [OF mq_find_length(1) [OF Some]]
    from closed Some show ?thesis
      by (auto simp: mqueue_close_def Let_def same free_places_destroy free_places_unsubscribe)
  qed (auto simp: mqueue_close_def)
next
  case (unlinked name st r st')
  then obtain h where h: "strhash name = Some h" by (auto simp: mqueue_unlink_def bind_Some)
  show ?case
  proof (cases "mq_find_hash h st")
    case (Some i)
    note same = total_places_same [OF mq_find_length(2) [OF Some]]
    from unlinked Some h show ?thesis
      by (auto simp: mqueue_unlink_def same free_places_destroy)
  qed (use unlinked h in \<open>auto simp: mqueue_unlink_def\<close>)
next
  case (sent d p l pid st out st' e)
  then show ?case
    by (auto simp: mqueue_send_def Let_def split: option.splits if_splits
        dest!: send_attempt_places [OF _ mq_find_length(1)])
next
  case (received d p l pid st out b st')
  then show ?case
    by (auto simp: mqueue_receive_def Let_def split: option.splits if_splits
        dest!: receive_attempt_places [OF _ mq_find_length(1)])
next
  case (resent i j p l st out st' e)
  then show ?case using send_attempt_places [OF resent(1)] by simp
next
  case (rereceived i j p l st out b st')
  then show ?case using receive_attempt_places [OF rereceived(1)] by simp
qed

subsection \<open>Properties of the system calls\<close>

lemma mq_boot_slot_wf: "slot_wf mq_boot_slot"
  by (simp add: slot_wf_def mq_boot_slot_def)

lemma mq_boot_wf: "mq_state_wf mq_boot"
  by (auto simp: mq_state_wf_def mq_boot_def mq_boot_slot_wf)

lemma mq_steps_wf: "mq_step\<^sup>*\<^sup>* st st' \<Longrightarrow> mq_state_wf st \<Longrightarrow> mq_state_wf st'"
  by (induction rule: rtranclp_induct) (auto intro: mq_step_wf)

lemma mq_steps_places:
  "mq_step\<^sup>*\<^sup>* st st' \<Longrightarrow> mq_state_wf st \<Longrightarrow> total_places st' \<le> total_places st"
proof (induction rule: rtranclp_induct)
  case (step y z)
  then have "length (open_queues y) = MQ_MAX_OPEN"
    using mq_steps_wf by (auto simp: mq_state_wf_def)
  with mq_step_places [OF step.hyps(2)] step show ?case by simp
qed simp

lemma mq_boot_places: "total_places mq_boot = 256"
  by (simp add: total_places_def mq_boot_def free_places_def mq_boot_slot_def layout_simps
      sum_list_replicate)

text \<open>
  C9. Whatever the tasks do, in whatever order, with blocked senders and receivers resuming at any
  time: the table keeps its 32 slots, and every queue in use whose sizes are positive is well-formed (positions
  inside the ring, count within the limit, head and tail consistent, messages within their size). \<open>mqueue_open\<close>
  accepts negative sizes as well: such a queue is not a ring, its messages are a part of the array between
  head and tail, and with a negative message size it stays empty.
\<close>
theorem mqueue_reachable_wf:
  assumes "mq_step\<^sup>*\<^sup>* mq_boot st"
  shows "length (open_queues st) = MQ_MAX_OPEN \<and>
    (\<forall>q\<in>set (open_queues st). q_id q \<noteq> 0 \<longrightarrow>
       (if 0 < mq_maxmsg (q_attr q) \<and> 0 < mq_msgsize (q_attr q) then mq_wf q else mq_line q))"
  using mq_steps_wf [OF assms mq_boot_wf] by (auto simp: mq_state_wf_def slot_wf_def mq_used_def)

text \<open>
  Every successful \<open>mqueue_open\<close> uses up one of the 256 places for subscribers for ever: no
  sequence of calls, closing and removing queues included, makes a place free again.
\<close>
lemma mqueue_open_places_lost:
  assumes "mq_step\<^sup>*\<^sup>* mq_boot st" "mqueue_open name oflag attr pid st = Some (r, st')" "0 < r" "0 < pid"
    and "mq_step\<^sup>*\<^sup>* st' st''"
  shows "Suc (total_places st') = total_places st \<and> total_places st'' \<le> total_places st' \<and>
    total_places st \<le> 256"
proof -
  have wf: "mq_state_wf st" using mq_steps_wf [OF assms(1) mq_boot_wf] .
  have "mq_state_wf st'" using mqueue_open_wf [OF assms(2) wf] .
  with mq_steps_places [OF assms(5)] mqueue_open_places [OF assms(2)] assms(3,4)
    mq_steps_places [OF assms(1) mq_boot_wf] mq_boot_places
  show ?thesis by simp
qed

text \<open>
  A receive on a queue that is not empty: the first message is delivered and removed when it
  fits; when it is larger than the buffer the call blocks (instead of failing with \<open>EMSGSIZE\<close>) and
  the message stays; an empty message is removed and the call blocks all the same.
\<close>
lemma mqueue_receive_outcome:
  assumes "mq_find d st = Some i" "q = open_queues st ! i" "mq_wf q"
    and "mq_find_subscriber q pid = Some j"
    and "sub_flags (q_subs q ! j) AND O_WRONLY = 0" "sub_flags (q_subs q ! j) AND O_NONBLOCK = 0"
    and "mq_contents q = m # ms" "length m \<le> length buf"
  shows "\<exists>out buf' st'. mqueue_receive d buf len pid st = Some (out, buf', st') \<and>
    (if unat len < length m then out = Blocked \<and> buf' = buf \<and> mq_contents (open_queues st' ! i) = m # ms
     else mq_contents (open_queues st' ! i) = ms \<and>
       (if m = [] then out = Blocked \<and> buf' = buf
        else out = Ret (int (length m)) \<and> buf' = m @ drop (length m) buf))"
proof -
  have i: "i < length (open_queues st)" using mq_find_length(1) [OF assms(1)] .
  have j: "j < length (q_subs q)"
    using assms(4) by (auto simp: mq_find_subscriber_def dest: first_index_Some)
  have call: "mqueue_receive d buf len pid st = mqueue_receive_attempt i j buf len st"
    using assms(1,2,4,5) by (simp add: mqueue_receive_def Let_def)
  have ring: "mq_contents (x\<lparr>q_subs := ts\<rparr>) = mq_contents x" for x ts
    by (simp add: mq_contents_def mq_ring_def mq_cap_def mq_first_def mq_count_def)
  show ?thesis
  proof (cases "unat len < length m")
    case True
    from mq_dequeue_small [OF assms(3,7) True, of buf] obtain q' where
        q': "mq_dequeue q buf len = Some (- errno_val EMSGSIZE, buf, q')" "mq_contents q' = m # ms"
      using assms(7) by auto
    with mq_dequeue_same [OF q'(1)] True j i assms(2,6) show ?thesis
      unfolding call by (simp add: mqueue_receive_attempt_def Let_def set_queue_def ring)
  next
    case False
    then have "length m \<le> unat len" by simp
    from mq_dequeue_spec [OF assms(3,7) this assms(8)] obtain q' where
        q': "mq_dequeue q buf len = Some (int (length m), m @ drop (length m) buf, q')"
          "mq_contents q' = ms" by blast
    with mq_dequeue_same [OF q'(1)] False j i assms(2,6) show ?thesis
      unfolding call by (simp add: mqueue_receive_attempt_def Let_def set_queue_def ring)
  qed
qed

text \<open>
  The length check of \<open>mqueue_send\<close> compares signed values: a length of 2 to the 63 or more is
  accepted for every queue the caller may write to, and when there is room the copy leaves the
  message record (and the caller's buffer).
\<close>
lemma mqueue_send_huge_length:
  assumes "mq_find d st = Some i" "q = open_queues st ! i" "mq_wf q" "mq_count q < mq_cap q"
    and "mq_find_subscriber q pid = Some j" "sub_flags (q_subs q ! j) AND O_RDONLY = 0"
    and "2 ^ 63 \<le> unat len"
  shows "mqueue_send d msg len pid st = None"
proof -
  have "sint len < 0"
  proof (rule ccontr)
    assume "\<not> sint len < 0"
    then have "nat (sint len) = unat len" by (rule sint_nonneg_unat)
    moreover have "sint len < 2 ^ 63" using sint_lt [of len] by simp
    then have "nat (sint len) < 2 ^ 63" by simp
    ultimately show False using assms(7) by linarith
  qed
  moreover have "0 < mq_msgsize (q_attr q)" using assms(3) by (simp add: mq_wf_def attr_wf_def)
  ultimately have "mqueue_send d msg len pid st = mqueue_send_attempt i j msg len st"
    using assms(1,2,5,6) by (simp add: mqueue_send_def Let_def)
  also have "mq_enqueue q msg len = None"
  proof -
    define q1 where "q1 = (if q_tail q = mq_maxmsg (q_attr q) - 1 then q\<lparr>q_tail := -1\<rparr> else q)"
    have room: "mq_curmsg (q_attr q1) \<noteq> mq_maxmsg (q_attr q1)"
      using assms(4) by (auto simp: q1_def mq_count_def mq_cap_def)
    have "memcpy_k (msg_data m) msg (unat len) = None" if "m \<in> set (q_messages q1)" for m
    proof -
      have "q_messages q1 = q_messages q" by (simp add: q1_def)
      then have "length (msg_data m) = 128"
        using assms(3) that by (simp add: mq_wf_def layout_simps)
      with assms(7) show ?thesis by (simp add: memcpy_k_eq)
    qed
    moreover have "m \<in> set (q_messages q1)" if "rd_int (q_messages q1) k = Some m" for m k
      using that by (auto simp: rd_int_def rd_at_Some split: if_splits)
    ultimately show ?thesis
      using room unfolding mq_enqueue_def Let_def q1_def [symmetric]
      by (cases "rd_int (q_messages q1) (q_tail q1 + 1)") auto
  qed
  ultimately show ?thesis
    using assms(2) by (simp add: mqueue_send_attempt_def)
qed

subsection \<open>Witnesses\<close>

text \<open>A table with one queue that holds one message, and what opening the first queue gives.\<close>

definition one_queue :: mqueue where
  "one_queue = mq_boot_slot\<lparr>q_id := 1, q_open := True,
     q_subs := [\<lparr>sub_pid = 1, sub_flags = O_RDWR\<rparr>],
     q_attr := \<lparr>mq_flags = 0, mq_maxmsg = 8, mq_msgsize = 128, mq_curmsg = 1\<rparr>,
     q_head := -1, q_tail := 0,
     q_messages := \<lparr>msg_size = 2, msg_data = 7 # 9 # replicate 126 0\<rparr> #
       replicate 7 \<lparr>msg_size = 0, msg_data = replicate 128 0\<rparr>\<rparr>"

definition one_queue_state :: mq_state where
  "one_queue_state = \<lparr>open_queues = [one_queue], mqueue_count = 1\<rparr>"

lemma one_queue_facts: "mq_contents one_queue = [[7, 9]]" "mq_wf one_queue"
  "mq_count one_queue = 1" "mq_cap one_queue = 8"
  by (simp_all add: one_queue_def mq_boot_slot_def mq_contents_def mq_ring_def mq_cap_def mq_count_def
      mq_first_def ring_def stored_def mq_wf_def attr_wf_def layout_simps)

lemma one_queue_find: "mq_find 1 one_queue_state = Some 0" "open_queues one_queue_state ! 0 = one_queue"
  "mq_find_subscriber one_queue 1 = Some 0"
  "q_subs one_queue ! 0 = \<lparr>sub_pid = 1, sub_flags = O_RDWR\<rparr>"
  by (simp_all add: one_queue_state_def one_queue_def mq_find_def mq_find_subscriber_def)

lemma boot_open:
  "\<exists>st'. mqueue_open (zstr ''q'') (O_CREAT OR O_RDWR) None 1 mq_boot = Some (1, st')"
proof -
  obtain h where h: "strhash (zstr ''q'') = Some h"
    by (simp add: strhash_def zstr_def ascii_def)
  have none: "mq_find_hash h mq_boot = None"
    by (simp add: mq_find_hash_def first_index_None mq_boot_def mq_boot_slot_def)
  have slot: "first_index (\<lambda>q. q_id q = 0) (open_queues mq_boot) = Some 0"
    by (rule first_index_eqI) (simp_all add: mq_boot_def mq_boot_slot_def MQ_MAX_OPEN_def)
  have place: "first_index (\<lambda>t. sub_pid t = 0) (replicate MQ_MAX_SUBSCRIBERS \<lparr>sub_pid = 0, sub_flags = 0\<rparr>) = Some 0"
    by (rule first_index_eqI) (simp_all add: MQ_MAX_SUBSCRIBERS_def)
  show ?thesis
    using h none slot place
    by (simp add: mqueue_open_def O_CREAT_def O_RDWR_def O_EXCL_def mq_open_attr_def mq_open_found_def
        mq_create_def set_queue_def Let_def mq_subscribe_def mq_boot_def mq_boot_slot_def MQ_MAX_OPEN_def)
qed

theorem mqueue_fifo_witness:
  "\<exists>ins outs q'. fifo_run mq_put mq_get [Put [3], Get, Put [4, 5], Get] one_queue = (ins, outs, q') \<and>
     [[7, 9]] @ ins = outs @ mq_contents q'"
proof -
  obtain ins outs q' where run:
      "fifo_run mq_put mq_get [Put [3], Get, Put [4, 5], Get] one_queue = (ins, outs, q')"
    by (metis prod_cases3)
  have "\<forall>m\<in>put_items [Put [3], Get, Put [4, 5], Get]. length m \<le> nat (mq_msgsize (q_attr one_queue))"
    by (simp add: one_queue_def)
  from mqueue_fifo [OF one_queue_facts(2) this run] run show ?thesis
    by (auto simp: one_queue_facts)
qed

theorem mqueue_reachable_wf_witness:
  "\<exists>st. mqueue_open (zstr ''q'') (O_CREAT OR O_RDWR) None 1 mq_boot = Some (1, st) \<and>
     (\<forall>q\<in>set (open_queues st). q_id q \<noteq> 0 \<longrightarrow>
       (if 0 < mq_maxmsg (q_attr q) \<and> 0 < mq_msgsize (q_attr q) then mq_wf q else mq_line q))"
proof -
  obtain st where o: "mqueue_open (zstr ''q'') (O_CREAT OR O_RDWR) None 1 mq_boot = Some (1, st)"
    using boot_open by blast
  have "mq_step mq_boot st" by (rule mq_step.opened [OF o])
  then have "mq_step\<^sup>*\<^sup>* mq_boot st" by (rule r_into_rtranclp)
  from mqueue_reachable_wf [OF this] o show ?thesis by blast
qed

lemma mqueue_open_places_lost_witness:
  "\<exists>st. mqueue_open (zstr ''q'') (O_CREAT OR O_RDWR) None 1 mq_boot = Some (1, st) \<and>
     Suc (total_places st) = total_places mq_boot"
proof -
  obtain st where o: "mqueue_open (zstr ''q'') (O_CREAT OR O_RDWR) None 1 mq_boot = Some (1, st)"
    using boot_open by blast
  from mqueue_open_places_lost [OF rtranclp.rtrancl_refl o _ _ rtranclp.rtrancl_refl] o
  show ?thesis by auto
qed

lemma mqueue_receive_outcome_witness:
  "(\<exists>st'. mqueue_receive 1 [0, 0] 2 1 one_queue_state = Some (Ret 2, [7, 9], st')) \<and>
   (\<exists>st'. mqueue_receive 1 [0, 0] 1 1 one_queue_state = Some (Blocked, [0, 0], st') \<and>
      mq_contents (open_queues st' ! 0) = [[7, 9]])"
  using mqueue_receive_outcome [OF one_queue_find(1) one_queue_find(2) [symmetric] one_queue_facts(2)
      one_queue_find(3) _ _ one_queue_facts(1), of "[0, 0]" 2]
    mqueue_receive_outcome [OF one_queue_find(1) one_queue_find(2) [symmetric] one_queue_facts(2)
      one_queue_find(3) _ _ one_queue_facts(1), of "[0, 0]" 1]
  by (auto simp: one_queue_find O_RDWR_def O_WRONLY_def O_NONBLOCK_def)

lemma mqueue_send_huge_length_witness:
  "mqueue_send 1 [1, 2, 3] 0x8000000000000000 1 one_queue_state = None"
  by (rule mqueue_send_huge_length [OF one_queue_find(1) one_queue_find(2) [symmetric] one_queue_facts(2)
      _ one_queue_find(3)])
    (simp_all add: one_queue_facts one_queue_find O_RDWR_def O_RDONLY_def)

end
