(* ===== verification/Task.thy ===== *)
theory Task
  imports Kernel_Defs
begin

text \<open>
  Tasks and the scheduler (\<^verbatim>\<open>kernel/task.c\<close>: the task array, blocking, \<open>task_schedule\<close>, \<open>task_tick\<close>).

  A \<open>struct task *\<close> is an address; the descriptors live in a heap of their own, since a task page is
  touched through its descriptor only. A dereference of a null or stale pointer is \<open>None\<close>. Of the
  saved context only the kernel stack pointer is kept: it is the one field C code reads. A \<open>long\<close> or
  \<open>int\<close> counter is an \<open>int\<close>.

  \<open>cpu_switch\<close> leaves the calling function in the middle and continues another task in the middle of
  its own call. A function that may switch returns the pair of tasks it switches between (\<open>None\<close>: no
  switch) and the state at that point; \<open>task_resume\<close> is the rest of \<open>task_schedule\<close> that the task
  switched to has still to run.
\<close>

datatype task_state = TASK_RUNNING | TASK_BLOCKED | TASK_WAITING

record task =
  t_ksp :: u64
  t_tran_table :: u64
  t_pid :: int
  t_kernel_stack :: u64
  t_parent :: u64
  t_children_no :: u64
  t_state :: task_state
  t_preempt_count :: int
  t_priority :: int
  t_counter :: int

definition TASK_TOTAL :: nat where [layout_simps]: "TASK_TOTAL = 64"

text \<open>The static variables; \<open>init_task\<close> is the address the linker gives the first descriptor.\<close>

record sched =
  heap :: "u64 \<Rightarrow> task option"
  tasks :: "u64 list"
  current_task :: u64
  task_count :: int
  init_task :: u64

definition deref :: "sched \<Rightarrow> u64 \<Rightarrow> task option" where
  "deref st a = (if a = 0 then None else heap st a)"

definition store_task :: "u64 \<Rightarrow> task \<Rightarrow> sched \<Rightarrow> sched" where
  "store_task a t st = st\<lparr>heap := (heap st)(a \<mapsto> t)\<rparr>"

definition sched_init :: "u64 \<Rightarrow> sched" where
  "sched_init a =
     \<lparr>heap = [a \<mapsto> \<lparr>t_ksp = 0, t_tran_table = 0, t_pid = 0, t_kernel_stack = MEM_VA_KERNEL_STACK,
                 t_parent = 0, t_children_no = 0, t_state = TASK_RUNNING, t_preempt_count = 0,
                 t_priority = 1, t_counter = 0\<rparr>],
      tasks = a # replicate (TASK_TOTAL - 1) 0, current_task = a, task_count = 1, init_task = a\<rparr>"

subsection \<open>The task array\<close>

definition task_add :: "u64 \<Rightarrow> sched \<Rightarrow> sched" where
  "task_add t st = (case first_index (\<lambda>a. a = 0) (tasks st) of
     None \<Rightarrow> st | Some i \<Rightarrow> st\<lparr>tasks := (tasks st)[i := t]\<rparr>)"

definition task_remove :: "u64 \<Rightarrow> sched \<Rightarrow> sched" where
  "task_remove t st = (case first_index (\<lambda>a. a = t) (tasks st) of
     None \<Rightarrow> st | Some i \<Rightarrow> st\<lparr>tasks := (tasks st)[i := 0]\<rparr>)"

text \<open>
  The loop of \<open>task_block\<close> and \<open>task_unblock\<close> reads \<open>tasks[i]->pid\<close> of every slot it passes, also of an
  empty one. The result inside is the task found, if any.
\<close>

fun find_pid :: "sched \<Rightarrow> int \<Rightarrow> u64 list \<Rightarrow> u64 option option" where
  "find_pid st pid [] = Some None"
| "find_pid st pid (a # as) = do {
     t \<leftarrow> deref st a;
     if t_pid t = pid then Some (Some a) else find_pid st pid as }"

subsection \<open>The scheduler\<close>

text \<open>The scan: credit every task with its priority and keep the first running one with most.\<close>

fun schedule_scan :: "u64 list \<Rightarrow> nat \<Rightarrow> int \<Rightarrow> nat \<Rightarrow> sched \<Rightarrow> (nat \<times> sched) option" where
  "schedule_scan [] i counter task_index st = Some (task_index, st)"
| "schedule_scan (a # as) i counter task_index st =
     (if a = 0 then schedule_scan as (i + 1) counter task_index st
      else do {
        t \<leftarrow> deref st a;
        let t' = t\<lparr>t_counter := t_counter t + t_priority t\<rparr>;
        if t_state t' = TASK_RUNNING \<and> t_counter t' > counter
        then schedule_scan as (i + 1) (t_counter t') i (store_task a t' st)
        else schedule_scan as (i + 1) counter task_index (store_task a t' st) })"

definition task_resume :: "sched \<Rightarrow> sched option" where
  "task_resume st = do {
     c \<leftarrow> deref st (current_task st);
     Some (store_task (current_task st) (c\<lparr>t_preempt_count := t_preempt_count c - 1\<rparr>) st) }"

definition task_schedule :: "sched \<Rightarrow> ((u64 \<times> u64) option \<times> sched) option" where
  "task_schedule st = do {
     c \<leftarrow> deref st (current_task st);
     let st1 = store_task (current_task st)
                 (c\<lparr>t_counter := 0, t_preempt_count := t_preempt_count c + 1\<rparr>) st;
     (task_index, st2) \<leftarrow> schedule_scan (tasks st1) 0 (-1) 0 st1;
     a \<leftarrow> rd_at (tasks st2) task_index;
     t \<leftarrow> deref st2 a;
     let st3 = store_task a (t\<lparr>t_counter := t_priority t\<rparr>) st2;
     if current_task st3 \<noteq> a
     then Some (Some (current_task st3, a), st3\<lparr>current_task := a\<rparr>)
     else map_option (Pair None) (task_resume st3) }"

definition block_mark :: "int \<Rightarrow> task_state \<Rightarrow> sched \<Rightarrow> sched option" where
  "block_mark pid state st = do {
     found \<leftarrow> find_pid st pid (tasks st);
     case found of None \<Rightarrow> Some st
     | Some a \<Rightarrow> do {
         t \<leftarrow> deref st a;
         Some (store_task a (t\<lparr>t_state := state, t_preempt_count := t_preempt_count t - 1\<rparr>) st) } }"

definition task_block :: "int \<Rightarrow> task_state \<Rightarrow> sched \<Rightarrow> ((u64 \<times> u64) option \<times> sched) option" where
  "task_block pid state st = Option.bind (block_mark pid state st) task_schedule"

definition task_unblock :: "int \<Rightarrow> task_state \<Rightarrow> sched \<Rightarrow> sched option" where
  "task_unblock pid state st = do {
     found \<leftarrow> find_pid st pid (tasks st);
     case found of None \<Rightarrow> Some st
     | Some a \<Rightarrow> do {
         t \<leftarrow> deref st a;
         Some (if t_state t = state then store_task a (t\<lparr>t_state := TASK_RUNNING\<rparr>) st else st) } }"

text \<open>The interrupt mask around the call of the scheduler is not modelled.\<close>

definition task_tick :: "sched \<Rightarrow> ((u64 \<times> u64) option \<times> sched) option" where
  "task_tick st = do {
     c \<leftarrow> deref st (current_task st);
     let c' = c\<lparr>t_counter := t_counter c - 1\<rparr>;
     let st' = store_task (current_task st) c' st;
     if t_counter c' > 0 \<or> t_preempt_count c' > 0 then Some (None, st') else task_schedule st' }"

subsection \<open>Well-formed states\<close>

definition live :: "sched \<Rightarrow> u64 set" where
  "live st = {a \<in> set (tasks st). a \<noteq> 0}"

text \<open>
  The array is full length and without duplicates, holds the current task and, in slot 0, the
  initial one; its entries point to descriptors with a positive priority. Every task that is not
  the current one has a counter of at least 0.
\<close>

definition sched_wf :: "sched \<Rightarrow> bool" where
  "sched_wf st \<longleftrightarrow>
     length (tasks st) = TASK_TOTAL \<and> distinct (filter (\<lambda>a. a \<noteq> 0) (tasks st)) \<and>
     tasks st ! 0 = init_task st \<and> init_task st \<noteq> 0 \<and> current_task st \<in> live st \<and>
     (\<forall>a\<in>live st. \<exists>t. heap st a = Some t \<and> 1 \<le> t_priority t \<and>
        (a \<noteq> current_task st \<longrightarrow> 0 \<le> t_counter t))"

lemma store_task_simps [simp]:
  "heap (store_task a t st) = (heap st)(a \<mapsto> t)"
  "tasks (store_task a t st) = tasks st"
  "current_task (store_task a t st) = current_task st"
  "task_count (store_task a t st) = task_count st"
  "init_task (store_task a t st) = init_task st"
  by (simp_all add: store_task_def)

lemma deref_store [simp]:
  "deref (store_task a t st) b = (if b \<noteq> 0 \<and> a = b then Some t else deref st b)"
  by (simp add: deref_def)

lemma live_store [simp]: "live (store_task a t st) = live st"
  by (simp add: live_def)

lemma live_finite [simp]: "finite (live st)"
  by (simp add: live_def)

lemma deref_live: "a \<in> live st \<Longrightarrow> deref st a = heap st a"
  by (simp add: live_def deref_def)

lemma sched_wf_live:
  assumes "sched_wf st" "a \<in> live st"
  obtains t where "heap st a = Some t" "deref st a = Some t" "1 \<le> t_priority t"
    "a \<noteq> current_task st \<Longrightarrow> 0 \<le> t_counter t"
  using assms by (auto simp: sched_wf_def deref_live)

lemma sched_wf_current:
  assumes "sched_wf st"
  obtains c where "deref st (current_task st) = Some c" "heap st (current_task st) = Some c"
    "current_task st \<in> live st" "current_task st \<noteq> 0" "1 \<le> t_priority c"
  using assms sched_wf_live [OF assms, of "current_task st"]
  by (auto simp: sched_wf_def live_def)

lemma sched_wf_init: "a \<noteq> 0 \<Longrightarrow> sched_wf (sched_init a)"
  by (auto simp: sched_wf_def sched_init_def live_def layout_simps filter_replicate)

lemma sched_wf_init_live:
  assumes "sched_wf st"
  shows "init_task st \<in> live st" "tasks st ! 0 = init_task st"
proof -
  have "tasks st ! 0 \<in> set (tasks st)"
    using assms by (intro nth_mem) (simp add: sched_wf_def layout_simps)
  then show "init_task st \<in> live st" "tasks st ! 0 = init_task st"
    using assms by (auto simp: sched_wf_def live_def)
qed

text \<open>Storing a descriptor of a live task keeps the invariant.\<close>

lemma sched_wf_store:
  assumes "sched_wf st" "a \<in> live st" "1 \<le> t_priority t"
    "a \<noteq> current_task st \<Longrightarrow> 0 \<le> t_counter t"
  shows "sched_wf (store_task a t st)"
  using assms by (auto simp: sched_wf_def)

subsection \<open>The scan in closed form\<close>

definition credit :: "task \<Rightarrow> task" where
  "credit t = t\<lparr>t_counter := t_counter t + t_priority t\<rparr>"

lemma credit_simps [simp]:
  "t_counter (credit t) = t_counter t + t_priority t" "t_state (credit t) = t_state t"
  "t_priority (credit t) = t_priority t" "t_preempt_count (credit t) = t_preempt_count t"
  "t_pid (credit t) = t_pid t" "t_parent (credit t) = t_parent t"
  "t_children_no (credit t) = t_children_no t" "t_tran_table (credit t) = t_tran_table t"
  "t_kernel_stack (credit t) = t_kernel_stack t" "t_ksp (credit t) = t_ksp t"
  by (simp_all add: credit_def)

definition credit_all :: "u64 list \<Rightarrow> (u64 \<Rightarrow> task option) \<Rightarrow> u64 \<Rightarrow> task option" where
  "credit_all as h = (\<lambda>a. if a \<noteq> 0 \<and> a \<in> set as then map_option credit (h a) else h a)"

text \<open>Entry \<open>k\<close> holds a running task; the credit it has after the scan.\<close>

definition runs_at :: "(u64 \<Rightarrow> task option) \<Rightarrow> u64 list \<Rightarrow> nat \<Rightarrow> bool" where
  "runs_at h as k \<longleftrightarrow> k < length as \<and> as ! k \<noteq> 0 \<and> t_state (the (h (as ! k))) = TASK_RUNNING"

definition credit_at :: "(u64 \<Rightarrow> task option) \<Rightarrow> u64 list \<Rightarrow> nat \<Rightarrow> int" where
  "credit_at h as k = t_counter (the (h (as ! k))) + t_priority (the (h (as ! k)))"

text \<open>What the scan answers: the first best candidate above \<open>c\<close>, or the default \<open>b\<close>.\<close>

definition picked ::
    "(u64 \<Rightarrow> task option) \<Rightarrow> u64 list \<Rightarrow> nat \<Rightarrow> int \<Rightarrow> nat \<Rightarrow> nat \<Rightarrow> bool" where
  "picked h as i c b j \<longleftrightarrow>
     j = b \<and> (\<forall>k. runs_at h as k \<longrightarrow> credit_at h as k \<le> c) \<or>
     (\<exists>k. j = i + k \<and> runs_at h as k \<and> c < credit_at h as k \<and>
        (\<forall>k'. runs_at h as k' \<longrightarrow> credit_at h as k' \<le> credit_at h as k) \<and>
        (\<forall>k'<k. runs_at h as k' \<longrightarrow> credit_at h as k' < credit_at h as k))"

lemma runs_at_Cons [simp]:
  "runs_at h (a # as) (Suc k) = runs_at h as k"
  "credit_at h (a # as) (Suc k) = credit_at h as k"
  by (simp_all add: runs_at_def credit_at_def)

lemma runs_at_frame:
  "a \<notin> set as \<Longrightarrow> runs_at (h(a := v)) as k = runs_at h as k"
  "a \<notin> set as \<Longrightarrow> runs_at h as k \<Longrightarrow> credit_at (h(a := v)) as k = credit_at h as k"
  by (auto simp: runs_at_def credit_at_def)

lemma picked_frame: "a \<notin> set as \<Longrightarrow> picked (h(a := v)) as i c b j = picked h as i c b j"
  unfolding picked_def by (auto simp: runs_at_frame cong: conj_cong)

lemma picked_skip:
  assumes "picked h as (Suc i) c b j" "runs_at h (a # as) 0 \<Longrightarrow> credit_at h (a # as) 0 \<le> c"
  shows "picked h (a # as) i c b j"
proof -
  have all: "(\<forall>k. runs_at h (a # as) k \<longrightarrow> credit_at h (a # as) k \<le> m)"
    if "\<forall>k. runs_at h as k \<longrightarrow> credit_at h as k \<le> m" "c \<le> m" for m
  proof (intro allI impI)
    fix k assume "runs_at h (a # as) k"
    with that assms(2) show "credit_at h (a # as) k \<le> m" by (cases k) fastforce+
  qed
  show ?thesis
  proof (cases "j = b \<and> (\<forall>k. runs_at h as k \<longrightarrow> credit_at h as k \<le> c)")
    case True
    with all show ?thesis unfolding picked_def by auto
  next
    case False
    then obtain k where k: "j = Suc i + k" "runs_at h as k" "c < credit_at h as k"
      "\<forall>k'. runs_at h as k' \<longrightarrow> credit_at h as k' \<le> credit_at h as k"
      "\<forall>k'<k. runs_at h as k' \<longrightarrow> credit_at h as k' < credit_at h as k"
      using assms(1) unfolding picked_def by blast
    have "\<forall>k'<Suc k. runs_at h (a # as) k' \<longrightarrow> credit_at h (a # as) k' < credit_at h as k"
    proof (intro allI impI)
      fix k' assume "k' < Suc k" "runs_at h (a # as) k'"
      with k assms(2) show "credit_at h (a # as) k' < credit_at h as k" by (cases k') fastforce+
    qed
    moreover have "\<forall>k'. runs_at h (a # as) k' \<longrightarrow> credit_at h (a # as) k' \<le> credit_at h as k"
      using all [OF k(4)] k(3) by simp
    ultimately show ?thesis
      unfolding picked_def using k by (intro disjI2 exI [of _ "Suc k"]) simp
  qed
qed

lemma picked_take:
  assumes "picked h as (Suc i) (credit_at h (a # as) 0) i j" "runs_at h (a # as) 0"
    "c < credit_at h (a # as) 0"
  shows "picked h (a # as) i c b j"
proof -
  let ?m = "credit_at h (a # as) 0"
  have all: "(\<forall>k. runs_at h (a # as) k \<longrightarrow> credit_at h (a # as) k \<le> m)"
    if "\<forall>k. runs_at h as k \<longrightarrow> credit_at h as k \<le> m" "?m \<le> m" for m
  proof (intro allI impI)
    fix k assume "runs_at h (a # as) k"
    with that show "credit_at h (a # as) k \<le> m" by (cases k) fastforce+
  qed
  show ?thesis
  proof (cases "j = i \<and> (\<forall>k. runs_at h as k \<longrightarrow> credit_at h as k \<le> ?m)")
    case True
    with all assms show ?thesis unfolding picked_def by (intro disjI2 exI [of _ 0]) auto
  next
    case False
    then obtain k where k: "j = Suc i + k" "runs_at h as k" "?m < credit_at h as k"
      "\<forall>k'. runs_at h as k' \<longrightarrow> credit_at h as k' \<le> credit_at h as k"
      "\<forall>k'<k. runs_at h as k' \<longrightarrow> credit_at h as k' < credit_at h as k"
      using assms(1) unfolding picked_def by blast
    have "\<forall>k'<Suc k. runs_at h (a # as) k' \<longrightarrow> credit_at h (a # as) k' < credit_at h as k"
    proof (intro allI impI)
      fix k' assume "k' < Suc k" "runs_at h (a # as) k'"
      with k show "credit_at h (a # as) k' < credit_at h as k" by (cases k') fastforce+
    qed
    moreover have "\<forall>k'. runs_at h (a # as) k' \<longrightarrow> credit_at h (a # as) k' \<le> credit_at h as k"
      using all [OF k(4)] k(3) by simp
    ultimately show ?thesis
      unfolding picked_def using k assms(3) by (intro disjI2 exI [of _ "Suc k"]) simp
  qed
qed

lemma credit_all_step:
  "a \<noteq> 0 \<Longrightarrow> a \<notin> set as \<Longrightarrow> h a = Some t \<Longrightarrow>
     credit_all as (h(a \<mapsto> credit t)) = credit_all (a # as) h"
  by (auto simp: credit_all_def fun_eq_iff)

lemma credit_all_skip: "credit_all (0 # as) h = credit_all as h"
  by (auto simp: credit_all_def fun_eq_iff)

lemma schedule_scan_spec:
  assumes "\<forall>a\<in>set as. a \<noteq> 0 \<longrightarrow> heap st a \<noteq> None" "distinct (filter (\<lambda>a. a \<noteq> 0) as)"
  shows "\<exists>j. schedule_scan as i c b st = Some (j, st\<lparr>heap := credit_all as (heap st)\<rparr>) \<and>
    picked (heap st) as i c b j"
  using assms
proof (induction as arbitrary: i c b st)
  case Nil
  show ?case by (simp add: picked_def runs_at_def credit_all_def)
next
  case (Cons a as)
  show ?case
  proof (cases "a = 0")
    case True
    have "\<not> runs_at (heap st) (a # as) 0" using True by (simp add: runs_at_def)
    then show ?thesis
      using Cons.IH [of st "Suc i" c b] Cons.prems True picked_skip [of "heap st" as i c b _ a]
      by (auto simp: credit_all_skip)
  next
    case False
    then have notin: "a \<notin> set as" using Cons.prems(2) by auto
    obtain t where t: "heap st a = Some t" using Cons.prems(1) False by auto
    then have d: "deref st a = Some t" using False by (simp add: deref_def)
    let ?st = "store_task a (credit t) st"
    have ok: "\<forall>b\<in>set as. b \<noteq> 0 \<longrightarrow> heap ?st b \<noteq> None" "distinct (filter (\<lambda>a. a \<noteq> 0) as)"
      using Cons.prems by (auto split: if_splits)
    have heap: "?st\<lparr>heap := credit_all as (heap ?st)\<rparr> = st\<lparr>heap := credit_all (a # as) (heap st)\<rparr>"
      using credit_all_step [of a as "heap st" t] False notin t by (simp add: store_task_def)
    have zero: "runs_at (heap st) (a # as) 0 \<longleftrightarrow> t_state t = TASK_RUNNING"
      "credit_at (heap st) (a # as) 0 = t_counter (credit t)"
      using False t by (simp_all add: runs_at_def credit_at_def)
    show ?thesis
    proof (cases "t_state t = TASK_RUNNING \<and> t_counter (credit t) > c")
      case True
      obtain j where j: "schedule_scan as (Suc i) (t_counter (credit t)) i ?st =
          Some (j, ?st\<lparr>heap := credit_all as (heap ?st)\<rparr>)"
        "picked (heap ?st) as (Suc i) (t_counter (credit t)) i j"
        using Cons.IH [OF ok, of "Suc i" "t_counter (credit t)" i] by blast
      have "picked (heap st) (a # as) i c b j"
        using j(2) True zero notin by (intro picked_take) (simp_all add: picked_frame)
      with j(1) True False d heap show ?thesis by (auto simp: credit_def)
    next
      case no: False
      obtain j where j: "schedule_scan as (Suc i) c b ?st =
          Some (j, ?st\<lparr>heap := credit_all as (heap ?st)\<rparr>)" "picked (heap ?st) as (Suc i) c b j"
        using Cons.IH [OF ok, of "Suc i" c b] by blast
      have "picked (heap st) (a # as) i c b j"
        using j(2) no zero notin by (intro picked_skip) (auto simp: picked_frame)
      with j(1) no False d heap show ?thesis by (auto simp: credit_def Let_def)
    qed
  qed
qed

subsection \<open>One run of the scheduler\<close>

text \<open>
  What a task is worth in the next run: the current task gives up what is left of its counter, and
  every task is credited with its priority.
\<close>

definition next_credit :: "sched \<Rightarrow> u64 \<Rightarrow> int" where
  "next_credit st a =
     (if a = current_task st then 0 else t_counter (the (heap st a))) + t_priority (the (heap st a))"

definition running :: "sched \<Rightarrow> u64 \<Rightarrow> bool" where
  "running st a \<longleftrightarrow> a \<in> live st \<and> t_state (the (heap st a)) = TASK_RUNNING"

text \<open>The descriptor of \<open>a\<close> after a run that chose \<open>new\<close>.\<close>

definition after_run :: "sched \<Rightarrow> u64 \<Rightarrow> u64 \<Rightarrow> task" where
  "after_run st new a = (the (heap st a))
     \<lparr>t_counter := if a = new then t_priority (the (heap st a)) else next_credit st a,
      t_preempt_count := t_preempt_count (the (heap st a)) +
        (if a = current_task st \<and> a \<noteq> new then 1 else 0)\<rparr>"

lemma task_resume_current:
  assumes "deref st (current_task st) = Some c"
  shows "task_resume st =
    Some (store_task (current_task st) (c\<lparr>t_preempt_count := t_preempt_count c - 1\<rparr>) st)"
  using assms by (simp add: task_resume_def)

lemma next_credit_pos:
  assumes "sched_wf st" "a \<in> live st"
  shows "1 \<le> next_credit st a"
  using assms by (auto simp: next_credit_def elim!: sched_wf_live [of st a])

lemma schedule_pick:
  assumes wf: "sched_wf st"
    and p: "picked ((heap st)(current_task st \<mapsto> c\<lparr>t_counter := 0, t_preempt_count := n\<rparr>))
              (tasks st) 0 (-1) 0 j"
    and c: "heap st (current_task st) = Some c"
  shows "j < length (tasks st) \<and> tasks st ! j \<in> live st \<and>
    (if \<exists>b. running st b
     then running st (tasks st ! j) \<and>
       (\<forall>b. running st b \<longrightarrow> next_credit st b \<le> next_credit st (tasks st ! j))
     else tasks st ! j = init_task st)"
proof -
  let ?h = "(heap st)(current_task st \<mapsto> c\<lparr>t_counter := 0, t_preempt_count := n\<rparr>)"
  have credit: "credit_at ?h (tasks st) k = next_credit st (tasks st ! k)" if "runs_at ?h (tasks st) k" for k
    using c by (simp add: credit_at_def next_credit_def)
  have runs: "runs_at ?h (tasks st) k \<longleftrightarrow> k < length (tasks st) \<and> running st (tasks st ! k)" for k
  proof (cases "k < length (tasks st)")
    case True
    then have "tasks st ! k \<in> set (tasks st)" by (rule nth_mem)
    with True c show ?thesis by (cases "tasks st ! k = current_task st") (auto simp: runs_at_def running_def live_def)
  qed (simp add: runs_at_def)
  have ex: "\<exists>k. tasks st ! k = b \<and> runs_at ?h (tasks st) k" if b: "running st b" for b
  proof -
    from b obtain k where "k < length (tasks st)" "tasks st ! k = b"
      by (auto simp: running_def live_def in_set_conv_nth)
    with b runs show ?thesis by auto
  qed
  show ?thesis
  proof (cases "\<exists>k. runs_at ?h (tasks st) k")
    case False
    then have none: "\<not> (\<exists>b. running st b)" using ex by blast
    have "j = 0" using p False by (auto simp: picked_def)
    then show ?thesis
      using wf none sched_wf_init_live [OF wf] by (simp add: sched_wf_def layout_simps)
  next
    case True
    then obtain k0 where k0: "runs_at ?h (tasks st) k0" by blast
    then have "1 \<le> credit_at ?h (tasks st) k0"
      using credit [OF k0] runs next_credit_pos [OF wf] by (simp add: running_def)
    then obtain k where k: "j = 0 + k" "runs_at ?h (tasks st) k"
      "\<forall>k'. runs_at ?h (tasks st) k' \<longrightarrow> credit_at ?h (tasks st) k' \<le> credit_at ?h (tasks st) k"
      using p k0 unfolding picked_def by fastforce
    have "next_credit st b \<le> next_credit st (tasks st ! j)" if b: "running st b" for b
    proof -
      obtain k' where k': "tasks st ! k' = b" "runs_at ?h (tasks st) k'" using ex [OF b] by blast
      with k credit [OF k'(2)] credit [OF k(2)] show ?thesis by auto
    qed
    then show ?thesis using k(1,2) runs by (auto simp: running_def)
  qed
qed

lemma task_schedule_spec:
  assumes wf: "sched_wf st"
  shows "\<exists>new st'. task_schedule st =
      Some (if new = current_task st then None else Some (current_task st, new), st') \<and>
    current_task st' = new \<and> tasks st' = tasks st \<and> init_task st' = init_task st \<and>
    task_count st' = task_count st \<and> new \<in> live st \<and>
    (if \<exists>b. running st b
     then running st new \<and> (\<forall>b. running st b \<longrightarrow> next_credit st b \<le> next_credit st new)
     else new = init_task st) \<and>
    heap st' = (\<lambda>a. if a \<in> live st then Some (after_run st new a) else heap st a)"
proof -
  obtain c where c: "deref st (current_task st) = Some c" "heap st (current_task st) = Some c"
    "current_task st \<in> live st" "current_task st \<noteq> 0" using wf by (rule sched_wf_current)
  let ?c1 = "c\<lparr>t_counter := 0, t_preempt_count := t_preempt_count c + 1\<rparr>"
  let ?st1 = "store_task (current_task st) ?c1 st"
  have total: "\<forall>a\<in>set (tasks ?st1). a \<noteq> 0 \<longrightarrow> heap ?st1 a \<noteq> None"
    "distinct (filter (\<lambda>a. a \<noteq> 0) (tasks ?st1))"
    using wf by (auto simp: sched_wf_def live_def)
  define st2 where "st2 = ?st1\<lparr>heap := credit_all (tasks st) (heap ?st1)\<rparr>"
  obtain j where j: "schedule_scan (tasks ?st1) 0 (-1) 0 ?st1 = Some (j, st2)"
    "picked (heap ?st1) (tasks st) 0 (-1) 0 j"
    using schedule_scan_spec [OF total, of 0 "-1" 0] unfolding st2_def by auto
  let ?new = "tasks st ! j"
  have st2: "tasks st2 = tasks st" "current_task st2 = current_task st" "init_task st2 = init_task st"
    "task_count st2 = task_count st" by (simp_all add: st2_def)
  have pick: "j < length (tasks st)" "?new \<in> live st"
    "if \<exists>b. running st b
     then running st ?new \<and> (\<forall>b. running st b \<longrightarrow> next_credit st b \<le> next_credit st ?new)
     else ?new = init_task st"
    using schedule_pick [OF wf _ c(2), of "t_preempt_count c + 1" j] j(2) by simp_all
  obtain t where t: "heap st ?new = Some t" using sched_wf_live [OF wf pick(2)] by metis
  let ?t2 = "credit (if ?new = current_task st then ?c1 else t)"
  have new0: "?new \<noteq> 0" "?new \<in> set (tasks st)" using pick(2) by (auto simp: live_def)
  have d2: "deref st2 ?new = Some ?t2"
    using t c(2) new0 by (simp add: deref_def credit_all_def st2_def)
  define st3 where "st3 = store_task ?new (?t2\<lparr>t_counter := t_priority ?t2\<rparr>) st2"
  have heap3: "heap st3 a = (if a \<in> live st
      then Some (if a = ?new \<and> a = current_task st
        then (after_run st ?new a)\<lparr>t_preempt_count := t_preempt_count c + 1\<rparr> else after_run st ?new a)
      else heap st a)" for a
  proof (cases "a \<in> live st")
    case True
    then obtain u where "heap st a = Some u" using sched_wf_live [OF wf] by metis
    with True c t new0 show ?thesis
      by (auto simp: credit_all_def after_run_def next_credit_def credit_def live_def st2_def st3_def)
  next
    case False
    with c pick(2) new0 show ?thesis by (auto simp: credit_all_def live_def st2_def st3_def)
  qed
  have st3: "tasks st3 = tasks st" "current_task st3 = current_task st" "init_task st3 = init_task st"
    "task_count st3 = task_count st" by (simp_all add: st2 st3_def)
  have run: "task_schedule st = (if current_task st3 \<noteq> ?new
      then Some (Some (current_task st3, ?new), st3\<lparr>current_task := ?new\<rparr>)
      else map_option (Pair None) (task_resume st3))"
    using c(1) j(1) pick(1) d2 by (simp add: task_schedule_def st2 st3_def)
  show ?thesis
  proof (cases "?new = current_task st")
    case True
    define t3 where "t3 = ?t2\<lparr>t_counter := t_priority ?t2\<rparr>"
    have d3: "deref st3 (current_task st3) = Some t3" using new0 True by (simp add: st3_def t3_def st2)
    have "heap (store_task ?new (t3\<lparr>t_preempt_count := t_preempt_count t3 - 1\<rparr>) st3) a =
        (if a \<in> live st then Some (after_run st ?new a) else heap st a)" for a
    proof (cases "a = ?new")
      case False
      with heap3 [of a] show ?thesis by auto
    next
      case eq: True
      with c t pick(2) show ?thesis using True
        by (auto simp: after_run_def next_credit_def credit_def t3_def)
    qed
    then have "heap (store_task ?new (t3\<lparr>t_preempt_count := t_preempt_count t3 - 1\<rparr>) st3) =
        (\<lambda>a. if a \<in> live st then Some (after_run st ?new a) else heap st a)" by (rule ext)
    then show ?thesis
      using run pick True task_resume_current [OF d3] st3
      by (intro exI [of _ ?new]
          exI [of _ "store_task ?new (t3\<lparr>t_preempt_count := t_preempt_count t3 - 1\<rparr>) st3"]) simp
  next
    case False
    then have "heap st3 = (\<lambda>a. if a \<in> live st then Some (after_run st ?new a) else heap st a)"
      using heap3 by (auto simp: fun_eq_iff)
    with False show ?thesis
      using run pick st3 by (intro exI [of _ ?new] exI [of _ "st3\<lparr>current_task := ?new\<rparr>"]) simp
  qed
qed

lemma task_schedule_running:
  assumes wf: "sched_wf st" and b: "running st b"
  obtains new st' where "task_schedule st =
      Some (if new = current_task st then None else Some (current_task st, new), st')"
    "current_task st' = new" "running st new"
    "\<And>b. running st b \<Longrightarrow> next_credit st b \<le> next_credit st new"
    "heap st' = (\<lambda>a. if a \<in> live st then Some (after_run st new a) else heap st a)"
proof -
  have ex: "\<exists>b. running st b" using b by blast
  obtain new st' where new: "task_schedule st =
      Some (if new = current_task st then None else Some (current_task st, new), st')"
    "current_task st' = new"
    "if \<exists>b. running st b
     then running st new \<and> (\<forall>b. running st b \<longrightarrow> next_credit st b \<le> next_credit st new)
     else new = init_task st"
    "heap st' = (\<lambda>a. if a \<in> live st then Some (after_run st new a) else heap st a)"
    using task_schedule_spec [OF wf] by blast
  have best: "running st new \<and> (\<forall>b. running st b \<longrightarrow> next_credit st b \<le> next_credit st new)"
    using new(3) unfolding if_P [OF ex] .
  show thesis
    by (rule that [OF new(1,2) _ _ new(4)]) (use best in blast)+
qed

end
