(* ===== verification/Task_Fair.thy ===== *)
theory Task_Fair
  imports Task
begin

text \<open>
  Properties of the scheduler of \<^verbatim>\<open>kernel/task.c\<close>: which task a run picks, that no running task is
  passed over for ever, and what blocking and unblocking do to the descriptor of a task.
\<close>

subsection \<open>Steps that leave the array alone\<close>

lemma find_pid_result:
  assumes "find_pid st pid as = Some r"
  shows "r = None \<and> (\<forall>a\<in>set as. \<exists>t. deref st a = Some t \<and> t_pid t \<noteq> pid) \<or>
    (\<exists>a t. r = Some a \<and> a \<in> set as \<and> deref st a = Some t \<and> t_pid t = pid)"
  using assms by (induction as) (auto simp: bind_Some split: if_splits)

lemma find_pid_live:
  assumes "find_pid st pid (tasks st) = Some (Some a)"
  shows "a \<in> live st" "t_pid (the (heap st a)) = pid"
  using find_pid_result [OF assms] by (auto simp: live_def deref_def split: if_splits)

text \<open>\<open>calm st st'\<close>: the array, the priorities and the counters are those of \<open>st\<close>.\<close>

definition calm :: "sched \<Rightarrow> sched \<Rightarrow> bool" where
  "calm st st' \<longleftrightarrow>
     tasks st' = tasks st \<and> current_task st' = current_task st \<and> init_task st' = init_task st \<and>
     (\<forall>a\<in>live st. heap st' a \<noteq> None \<and>
        t_priority (the (heap st' a)) = t_priority (the (heap st a)) \<and>
        (a \<noteq> current_task st \<longrightarrow> t_counter (the (heap st' a)) = t_counter (the (heap st a))))"

lemma calm_live: "calm st st' \<Longrightarrow> live st' = live st"
  by (simp add: calm_def live_def)

lemma sched_wf_heap: "sched_wf st \<Longrightarrow> a \<in> live st \<Longrightarrow> heap st a \<noteq> None"
  by (auto simp: sched_wf_def)

lemma calm_wf:
  assumes "sched_wf st" "calm st st'"
  shows "sched_wf st'"
proof -
  have cur: "current_task st' = current_task st" using assms(2) by (simp add: calm_def)
  have "\<exists>t. heap st' a = Some t \<and> 1 \<le> t_priority t \<and> (a \<noteq> current_task st' \<longrightarrow> 0 \<le> t_counter t)"
    if a: "a \<in> live st" for a
  proof -
    obtain t where t: "heap st a = Some t" "1 \<le> t_priority t"
      "a \<noteq> current_task st \<Longrightarrow> 0 \<le> t_counter t" using sched_wf_live [OF assms(1) a] by metis
    obtain t' where "heap st' a = Some t'" using a assms(2) by (auto simp: calm_def)
    with a t assms(2) cur show ?thesis by (auto simp: calm_def)
  qed
  with assms show ?thesis
    unfolding sched_wf_def calm_live [OF assms(2)] by (simp add: calm_def)
qed

lemma calm_refl: "sched_wf st \<Longrightarrow> calm st st"
  using sched_wf_heap by (auto simp: calm_def)

lemma calm_store:
  assumes "sched_wf st" "a \<in> live st" "t_priority t = t_priority (the (heap st a))"
    "a \<noteq> current_task st \<longrightarrow> t_counter t = t_counter (the (heap st a))"
  shows "calm st (store_task a t st)"
  using assms sched_wf_heap [OF assms(1)] by (auto simp: calm_def)

lemma block_mark_calm:
  assumes "sched_wf st" "block_mark pid state st = Some st'"
  shows "calm st st'"
  using assms find_pid_live [of st pid]
  by (auto simp: block_mark_def bind_Some deref_live split: option.splits
      intro!: calm_refl calm_store)

lemma task_unblock_calm:
  assumes "sched_wf st" "task_unblock pid state st = Some st'"
  shows "calm st st'"
  using assms find_pid_live [of st pid]
  by (auto simp: task_unblock_def bind_Some deref_live split: option.splits if_splits
      intro!: calm_refl calm_store)

lemma task_resume_calm:
  assumes "sched_wf st" "task_resume st = Some st'"
  shows "calm st st'"
proof -
  obtain c where "deref st (current_task st) = Some c" "heap st (current_task st) = Some c"
    "current_task st \<in> live st" using assms(1) by (rule sched_wf_current)
  with assms show ?thesis by (auto simp: task_resume_def intro!: calm_store)
qed

subsection \<open>Scheduling events\<close>

text \<open>What happens to the scheduler between two switches. The number counts runs of \<open>task_schedule\<close>.\<close>

datatype sched_event = Yield | Tick | Block int task_state | Unblock int task_state | Resume

fun run_event :: "sched_event \<Rightarrow> sched \<Rightarrow> (nat \<times> sched) option" where
  "run_event Yield st = map_option (\<lambda>(_, s). (1, s)) (task_schedule st)"
| "run_event Tick st = do {
     c \<leftarrow> deref st (current_task st);
     map_option (\<lambda>(_, s).
         (if t_counter c - 1 > 0 \<or> t_preempt_count c > 0 then 0 else 1, s)) (task_tick st) }"
| "run_event (Block pid state) st = map_option (\<lambda>(_, s). (1, s)) (task_block pid state st)"
| "run_event (Unblock pid state) st = map_option (Pair 0) (task_unblock pid state st)"
| "run_event Resume st = map_option (Pair 0) (task_resume st)"

text \<open>Every event is a calm step, followed by a run of the scheduler when it counts one.\<close>

lemma run_event_cases:
  assumes "sched_wf st" "run_event e st = Some (n, st')"
  shows "n = 0 \<and> calm st st' \<or> n = 1 \<and> (\<exists>st1 sw. calm st st1 \<and> task_schedule st1 = Some (sw, st'))"
proof (cases e)
  case Yield
  with assms calm_refl show ?thesis by auto
next
  case Tick
  obtain c where c: "deref st (current_task st) = Some c" "heap st (current_task st) = Some c"
    "current_task st \<in> live st" using assms(1) by (rule sched_wf_current)
  have "calm st (store_task (current_task st) (c\<lparr>t_counter := t_counter c - 1\<rparr>) st)"
    using assms(1) c by (intro calm_store) auto
  then show ?thesis
    using Tick assms(2) c by (auto simp: task_tick_def Let_def bind_Some split: if_splits)
next
  case (Block pid state)
  with assms block_mark_calm [OF assms(1)] show ?thesis by (auto simp: task_block_def bind_Some)
next
  case (Unblock pid state)
  with assms task_unblock_calm [OF assms(1)] show ?thesis by auto
next
  case Resume
  with assms task_resume_calm [OF assms(1)] show ?thesis by auto
qed

lemma after_run_simps [simp]:
  "t_priority (after_run st new a) = t_priority (the (heap st a))"
  "t_state (after_run st new a) = t_state (the (heap st a))"
  "t_counter (after_run st new a) =
     (if a = new then t_priority (the (heap st a)) else next_credit st a)"
  by (simp_all add: after_run_def)

lemma task_schedule_wf:
  assumes wf: "sched_wf st" and run: "task_schedule st = Some (sw, st')"
  shows "sched_wf st'" "live st' = live st"
proof -
  obtain new where new: "current_task st' = new" "tasks st' = tasks st" "init_task st' = init_task st"
    "new \<in> live st" "heap st' = (\<lambda>a. if a \<in> live st then Some (after_run st new a) else heap st a)"
    using task_schedule_spec [OF wf] run by auto
  have pos: "1 \<le> t_priority (the (heap st a))" "1 \<le> next_credit st a" if "a \<in> live st" for a
    using that next_credit_pos [OF wf] by (auto elim: sched_wf_live [OF wf])
  show live: "live st' = live st" using new(2) by (simp add: live_def)
  show "sched_wf st'"
    using wf new pos unfolding sched_wf_def live by (auto simp: order.trans [OF zero_le_one])
qed

text \<open>
  C10. A run of the scheduler always succeeds on a well-formed state, keeps it well formed, and picks
  a running task that has most credit after every task was credited with its priority, the
  interrupted one from 0; when nothing is running it picks the initial task. The task picked starts
  with its priority as its counter, every other one keeps what it was credited, and control is
  handed over exactly when the task picked is another one.
\<close>

theorem task_schedule_picks_best:
  assumes "sched_wf st"
  shows "\<exists>sw st'. task_schedule st = Some (sw, st') \<and> sched_wf st' \<and>
    sw = (if current_task st' = current_task st then None
          else Some (current_task st, current_task st')) \<and>
    (if \<exists>b. running st b
     then running st (current_task st') \<and>
       (\<forall>b. running st b \<longrightarrow> next_credit st b \<le> next_credit st (current_task st'))
     else current_task st' = init_task st) \<and>
    (\<forall>a\<in>live st. t_counter (the (heap st' a)) =
       (if a = current_task st' then t_priority (the (heap st a)) else next_credit st a))"
proof -
  obtain new st' where new: "task_schedule st =
      Some (if new = current_task st then None else Some (current_task st, new), st')"
    "current_task st' = new" "if \<exists>b. running st b
     then running st new \<and> (\<forall>b. running st b \<longrightarrow> next_credit st b \<le> next_credit st new)
     else new = init_task st"
    "heap st' = (\<lambda>a. if a \<in> live st then Some (after_run st new a) else heap st a)"
    using task_schedule_spec [OF assms] by blast
  show ?thesis
  proof (intro exI conjI)
    show "task_schedule st = Some (if current_task st' = current_task st then None
        else Some (current_task st, current_task st'), st')"
      using new(1) unfolding new(2) .
    show "sched_wf st'" by (rule task_schedule_wf(1) [OF assms new(1)])
    show "if \<exists>b. running st b
      then running st (current_task st') \<and>
        (\<forall>b. running st b \<longrightarrow> next_credit st b \<le> next_credit st (current_task st'))
      else current_task st' = init_task st" using new(3) unfolding new(2) .
    show "\<forall>a\<in>live st. t_counter (the (heap st' a)) =
        (if a = current_task st' then t_priority (the (heap st a)) else next_credit st a)"
      using new(2,4) by simp
  qed rule
qed

subsection \<open>No starvation\<close>

text \<open>
  \<open>waits a st n st'\<close>: from \<open>st\<close>, events with \<open>n\<close> runs of the scheduler lead to \<open>st'\<close>; after each event
  \<open>a\<close> is running and is not the current task.
\<close>

inductive waits :: "u64 \<Rightarrow> sched \<Rightarrow> nat \<Rightarrow> sched \<Rightarrow> bool" for a :: u64 and st :: sched where
  start: "running st a \<Longrightarrow> a \<noteq> current_task st \<Longrightarrow> waits a st 0 st"
| event: "waits a st n s \<Longrightarrow> run_event e s = Some (k, s') \<Longrightarrow> running s' a \<Longrightarrow>
    a \<noteq> current_task s' \<Longrightarrow> waits a st (n + k) s'"

text \<open>The credit all waiting tasks hold together, and what a run adds.\<close>

definition total_credit :: "sched \<Rightarrow> int" where
  "total_credit st = (\<Sum>a\<in>live st - {current_task st}. t_counter (the (heap st a)))"

definition total_priority :: "sched \<Rightarrow> int" where
  "total_priority st = (\<Sum>a\<in>live st. t_priority (the (heap st a)))"

lemma calm_potential:
  assumes "calm st st'"
  shows "total_credit st' = total_credit st" "total_priority st' = total_priority st"
    "a \<in> live st \<Longrightarrow> t_priority (the (heap st' a)) = t_priority (the (heap st a))"
    "a \<in> live st \<Longrightarrow> a \<noteq> current_task st \<Longrightarrow>
       t_counter (the (heap st' a)) = t_counter (the (heap st a))"
    "current_task st' = current_task st" "live st' = live st"
proof -
  have *: "\<And>b. b \<in> live st \<Longrightarrow> t_priority (the (heap st' b)) = t_priority (the (heap st b)) \<and>
      (b \<noteq> current_task st \<longrightarrow> t_counter (the (heap st' b)) = t_counter (the (heap st b)))"
    "current_task st' = current_task st" using assms by (auto simp: calm_def)
  then show "total_credit st' = total_credit st" "total_priority st' = total_priority st"
    "a \<in> live st \<Longrightarrow> t_priority (the (heap st' a)) = t_priority (the (heap st a))"
    "a \<in> live st \<Longrightarrow> a \<noteq> current_task st \<Longrightarrow>
       t_counter (the (heap st' a)) = t_counter (the (heap st a))"
    "current_task st' = current_task st" "live st' = live st"
    using calm_live [OF assms] by (auto simp: total_credit_def total_priority_def intro!: sum.cong)
qed

lemma run_potential:
  assumes wf: "sched_wf st" and run: "task_schedule st = Some (sw, st')"
    and a: "running st a" "a \<noteq> current_task st'"
  shows "total_credit st' + next_credit st a \<le> total_credit st + total_priority st"
    "total_priority st' = total_priority st"
    "t_priority (the (heap st' a)) = t_priority (the (heap st a))"
    "t_counter (the (heap st' a)) = next_credit st a"
proof -
  obtain new where new: "current_task st' = new" "tasks st' = tasks st" "new \<in> live st"
    "if \<exists>b. running st b
     then running st new \<and> (\<forall>b. running st b \<longrightarrow> next_credit st b \<le> next_credit st new)
     else new = init_task st"
    "heap st' = (\<lambda>a. if a \<in> live st then Some (after_run st new a) else heap st a)"
    using task_schedule_spec [OF wf] run by auto
  have live: "live st' = live st" using new(2) by (simp add: live_def)
  have best: "next_credit st a \<le> next_credit st new" using new(4) a(1) by metis
  have "total_credit st' = (\<Sum>b\<in>live st - {new}. next_credit st b)"
    unfolding total_credit_def live new(1) using new(5) by (intro sum.cong) auto
  also have "\<dots> = (\<Sum>b\<in>live st. next_credit st b) - next_credit st new"
    using new(3) by (simp add: sum_diff1)
  finally have credit: "total_credit st' = (\<Sum>b\<in>live st. next_credit st b) - next_credit st new" .
  have cur: "current_task st \<in> live st" using wf by (simp add: sched_wf_def)
  have "(\<Sum>b\<in>live st. next_credit st b) =
      (\<Sum>b\<in>live st. if b = current_task st then 0 else t_counter (the (heap st b))) + total_priority st"
    by (simp add: next_credit_def sum.distrib total_priority_def)
  also have "(\<Sum>b\<in>live st. if b = current_task st then 0 else t_counter (the (heap st b))) = total_credit st"
    unfolding total_credit_def using cur by (simp add: sum.If_cases Int_def Diff_eq Compl_eq)
  finally show "total_credit st' + next_credit st a \<le> total_credit st + total_priority st"
    using credit best by linarith
  show "total_priority st' = total_priority st"
    unfolding total_priority_def live using new(5) by (intro sum.cong) auto
  have "a \<in> live st" using a(1) by (simp add: running_def)
  then show "t_priority (the (heap st' a)) = t_priority (the (heap st a))"
    "t_counter (the (heap st' a)) = next_credit st a" using new a(2) by auto
qed

lemma run_running:
  assumes "sched_wf st" "task_schedule st = Some (sw, st')"
  shows "running st' a = running st a"
proof -
  obtain new where "tasks st' = tasks st"
    "heap st' = (\<lambda>a. if a \<in> live st then Some (after_run st new a) else heap st a)"
    using task_schedule_spec [OF assms(1)] assms(2) by auto
  moreover from this(1) have "live st' = live st" by (simp add: live_def)
  ultimately show ?thesis by (auto simp: running_def)
qed

lemma total_credit_nonneg: "sched_wf st \<Longrightarrow> 0 \<le> total_credit st"
  unfolding total_credit_def by (intro sum_nonneg) (auto elim: sched_wf_live)

text \<open>What a waiting task has been credited, and what that left of the potential.\<close>

lemma waits_potential:
  assumes "waits a st n s" "sched_wf st"
  defines "p \<equiv> t_priority (the (heap st a))"
  shows "sched_wf s \<and> a \<in> live s \<and> a \<noteq> current_task s \<and> t_priority (the (heap s a)) = p \<and>
    total_priority s = total_priority st \<and> int n * p \<le> t_counter (the (heap s a)) \<and>
    2 * total_credit s + p * int n * (int n + 1) \<le> 2 * total_credit st + 2 * int n * total_priority st"
  using assms(1)
proof induction
  case start
  then show ?case using assms(2) by (auto simp: running_def p_def elim: sched_wf_live)
next
  case (event n s e k s')
  then have wf: "sched_wf s" and a: "a \<in> live s" "a \<noteq> current_task s"
    and p: "t_priority (the (heap s a)) = p" by auto
  from run_event_cases [OF wf event.hyps(2)] show ?case
  proof (elim disjE exE conjE)
    assume "k = 0" "calm s s'"
    with event calm_wf [OF wf \<open>calm s s'\<close>] a calm_potential [OF \<open>calm s s'\<close>] show ?thesis
      by simp
  next
    fix s1 sw assume k: "k = 1" and calm: "calm s s1" and run: "task_schedule s1 = Some (sw, s')"
    note c = calm_potential [OF calm]
    have wf1: "sched_wf s1" by (rule calm_wf [OF wf calm])
    have r: "running s1 a" using run_running [OF wf1 run] event.hyps(3) by simp
    note q = run_potential [OF wf1 run r event.hyps(4)]
    have next_c: "next_credit s1 a = t_counter (the (heap s a)) + p"
      using a c p by (simp add: next_credit_def)
    have "int (n + 1) * p \<le> next_credit s1 a" using event.IH next_c by (simp add: distrib_right)
    moreover have "2 * total_credit s' + p * (int n + 1) * (int n + 2) \<le>
        2 * total_credit st + 2 * (int n + 1) * total_priority st"
      using q(1) c event.IH calculation by (simp add: algebra_simps)
    ultimately show ?thesis
      using k q c a p event.IH event.hyps(4) task_schedule_wf [OF wf1 run]
      by (simp add: algebra_simps)
  qed
qed

text \<open>
  C11. No starvation: a task that is running, and stays so, is passed over by at most
  \<open>2 * (priorities of all tasks + credit of the waiting tasks)\<close> runs of the scheduler before it is the
  current task, whatever ticks, yields, blocks and unblocks of other tasks come in between.
\<close>

theorem running_task_not_starved:
  assumes "sched_wf st" "waits a st n st'"
  shows "int n \<le> 2 * (total_priority st + total_credit st)"
proof (rule ccontr)
  let ?p = "t_priority (the (heap st a))" and ?P = "total_priority st" and ?C = "total_credit st"
  assume "\<not> int n \<le> 2 * (?P + ?C)"
  then have n: "2 * ?P + 2 * ?C + 1 \<le> int n" by simp
  note w = waits_potential [OF assms(2,1)]
  have "a \<in> live st" using assms(2) by (induction rule: waits.induct) (auto simp: running_def)
  then have p: "1 \<le> ?p" using assms(1) by (auto elim: sched_wf_live)
  have "0 \<le> ?P" unfolding total_priority_def
    using assms(1) by (intro sum_nonneg) (auto elim!: sched_wf_live)
  have "0 \<le> ?C" "0 \<le> total_credit st'" using w assms(1) by (auto intro: total_credit_nonneg)
  then have "?p * (int n * (int n + 1)) \<le> 2 * ?C + 2 * int n * ?P" using w by (simp add: mult.assoc)
  moreover have "1 * (int n * (int n + 1)) \<le> ?p * (int n * (int n + 1))"
    using p by (intro mult_right_mono) auto
  moreover have "int n * (2 * ?P + 2 * ?C + 1) \<le> int n * int n" using n by (intro mult_left_mono) auto
  moreover have "2 * ?C \<le> int n * (2 * ?C)" if "n \<noteq> 0"
    using that \<open>0 \<le> ?C\<close> mult_right_mono [of 1 "int n" "2 * ?C"] by simp
  ultimately show False using n \<open>0 \<le> ?C\<close> \<open>0 \<le> ?P\<close> by (cases "n = 0") (auto simp: algebra_simps)
qed

subsection \<open>Blocking and unblocking\<close>

lemma find_pid_stops:
  assumes "i < length as" "as ! i = 0"
    "\<forall>k<i. as ! k \<noteq> 0 \<longrightarrow> (\<exists>t. heap st (as ! k) = Some t \<and> t_pid t \<noteq> pid)"
  shows "find_pid st pid as = None"
  using assms
proof (induction as arbitrary: i)
  case (Cons a as)
  show ?case
  proof (cases "a = 0")
    case False
    with Cons.prems(2) obtain i' where i: "i = Suc i'" by (cases i) auto
    have "find_pid st pid as = None"
      using Cons.prems i by (intro Cons.IH [of i']) auto
    moreover obtain t where "heap st a = Some t" "t_pid t \<noteq> pid"
      using Cons.prems(3) i False by force
    ultimately show ?thesis using False by (simp add: deref_def)
  qed (simp add: deref_def)
qed simp

lemma find_pid_first:
  assumes "i < length as" "deref st (as ! i) = Some t" "t_pid t = pid"
    "\<forall>k<i. \<exists>t. deref st (as ! k) = Some t \<and> t_pid t \<noteq> pid"
  shows "find_pid st pid as = Some (Some (as ! i))"
  using assms
proof (induction as arbitrary: i)
  case (Cons a as)
  show ?case
  proof (cases i)
    case 0
    with Cons.prems show ?thesis by simp
  next
    case (Suc i')
    have "find_pid st pid as = Some (Some (as ! i'))"
      using Cons.prems Suc by (intro Cons.IH) auto
    moreover obtain t where "deref st a = Some t" "t_pid t \<noteq> pid" using Cons.prems(4) Suc by force
    ultimately show ?thesis using Suc by simp
  qed
qed simp

text \<open>
  \<open>task_block\<close> and \<open>task_unblock\<close> dereference a null pointer when the task array has an empty
  slot before the task they look for, or anywhere when there is no such task: the loop tests the pid
  of every slot without testing the slot.
\<close>

lemma block_unblock_null_slot:
  assumes "sched_wf st" "i < TASK_TOTAL" "tasks st ! i = 0"
    "\<forall>k<i. tasks st ! k \<noteq> 0 \<longrightarrow> t_pid (the (heap st (tasks st ! k))) \<noteq> pid"
  shows "task_block pid state st = None \<and> task_unblock pid state st = None"
proof -
  have len: "length (tasks st) = TASK_TOTAL" using assms(1) by (simp add: sched_wf_def)
  have "\<exists>t. heap st (tasks st ! k) = Some t \<and> t_pid t \<noteq> pid" if "k < i" "tasks st ! k \<noteq> 0" for k
  proof -
    have "tasks st ! k \<in> live st" using that assms(2) len by (simp add: live_def)
    then show ?thesis using sched_wf_live [OF assms(1)] assms(4) that by (metis option.sel)
  qed
  then have "find_pid st pid (tasks st) = None"
    using assms(2,3) len by (intro find_pid_stops [of i]) auto
  then show ?thesis by (simp add: task_block_def block_mark_def task_unblock_def)
qed

text \<open>
  Blocking the current task (with all slots before its own in use): it gets the given state,
  another task takes over if there is a running one, and when it is resumed after it was unblocked
  its preemption count is one lower than before the call: \<open>task_block\<close> decrements a count that none of
  its callers in the message queues or the message buffers has incremented.
\<close>

lemma task_block_current:
  assumes wf: "sched_wf st" and i: "i < TASK_TOTAL" "tasks st ! i = current_task st"
    and before: "\<forall>k<i. tasks st ! k \<noteq> 0 \<and> t_pid (the (heap st (tasks st ! k))) \<noteq> pid"
    and pid: "t_pid (the (heap st (current_task st))) = pid" and state: "state \<noteq> TASK_RUNNING"
    and other: "running st b" "b \<noteq> current_task st"
  shows "\<exists>new st'. task_block pid state st = Some (Some (current_task st, new), st') \<and>
    current_task st' = new \<and> running st new \<and> new \<noteq> current_task st \<and>
    t_state (the (heap st' (current_task st))) = state \<and>
    t_preempt_count (the (heap (the (task_resume (st'\<lparr>current_task := current_task st\<rparr>)))
      (current_task st))) = t_preempt_count (the (heap st (current_task st))) - 1"
proof -
  let ?me = "current_task st"
  have len: "length (tasks st) = TASK_TOTAL" using wf by (simp add: sched_wf_def)
  obtain c where c: "deref st ?me = Some c" "heap st ?me = Some c" "?me \<in> live st" "?me \<noteq> 0"
    using wf by (rule sched_wf_current)
  have "\<exists>t. deref st (tasks st ! k) = Some t \<and> t_pid t \<noteq> pid" if "k < i" for k
  proof -
    have "tasks st ! k \<in> live st" using that before i(1) len by (simp add: live_def)
    then show ?thesis using sched_wf_live [OF wf] before that by (metis option.sel)
  qed
  then have "find_pid st pid (tasks st) = Some (Some ?me)"
    using find_pid_first [of i "tasks st" st c pid] c pid i len by simp
  define st1 where
    "st1 = store_task ?me (c\<lparr>t_state := state, t_preempt_count := t_preempt_count c - 1\<rparr>) st"
  have mark: "block_mark pid state st = Some st1"
    using \<open>find_pid st pid (tasks st) = _\<close> c by (simp add: block_mark_def st1_def)
  have wf1: "sched_wf st1" by (rule calm_wf [OF wf block_mark_calm [OF wf mark]])
  have run1: "running st1 x \<longleftrightarrow> running st x \<and> x \<noteq> ?me" for x
    using c state by (auto simp: running_def st1_def)
  have st1: "current_task st1 = ?me" "live st1 = live st" by (simp_all add: st1_def)
  have "running st1 b" using run1 other by simp
  with wf1 obtain new st' where new: "task_schedule st1 =
      Some (if new = current_task st1 then None else Some (current_task st1, new), st')"
    "current_task st' = new" "running st1 new"
    "heap st' = (\<lambda>a. if a \<in> live st1 then Some (after_run st1 new a) else heap st1 a)"
    by (rule task_schedule_running)
  have ne: "new \<noteq> ?me" "running st new" using new(3) run1 by auto
  have heap: "heap st' ?me = Some (after_run st1 new ?me)" using new(4) c(3) st1 by simp
  have "t_state (after_run st1 new ?me) = state"
    "t_preempt_count (after_run st1 new ?me) = t_preempt_count c"
    using ne st1 by (simp_all add: after_run_def st1_def)
  then have resume: "t_preempt_count (the (heap (the (task_resume (st'\<lparr>current_task := ?me\<rparr>))) ?me)) =
      t_preempt_count (the (heap st ?me)) - 1"
    using heap c by (simp add: task_resume_def deref_def)
  show ?thesis
  proof (intro exI conjI)
    show "task_block pid state st = Some (Some (?me, new), st')"
      using mark new(1) ne(1) st1(1) by (simp add: task_block_def)
    show "t_state (the (heap st' ?me)) = state"
      using heap \<open>t_state (after_run st1 new ?me) = state\<close> by simp
  qed (use new(2) ne resume in auto)
qed

subsection \<open>Witnesses\<close>

text \<open>Two tasks: the initial one, and one of the given priority, counter and state; \<open>cur\<close> runs.\<close>

definition two_tasks :: "u64 \<Rightarrow> int \<Rightarrow> task_state \<Rightarrow> sched" where
  "two_tasks cur prio state =
     (let t = the (heap (sched_init 0x1000) 0x1000) in
      \<lparr>heap = [0x1000 \<mapsto> t,
               0x2000 \<mapsto> t\<lparr>t_pid := 2, t_priority := prio, t_state := state, t_parent := 0x1000\<rparr>],
       tasks = [0x1000, 0x2000] @ replicate 62 0, current_task = cur, task_count = 2,
       init_task = 0x1000\<rparr>)"

lemma two_tasks_simps:
  "tasks (two_tasks cur prio state) = [0x1000, 0x2000] @ replicate 62 0"
  "current_task (two_tasks cur prio state) = cur"
  "live (two_tasks cur prio state) = {0x1000, 0x2000}"
  by (auto simp: two_tasks_def live_def Let_def)

lemma two_tasks_wf: "cur \<in> {0x1000, 0x2000} \<Longrightarrow> 1 \<le> prio \<Longrightarrow> sched_wf (two_tasks cur prio state)"
  unfolding sched_wf_def two_tasks_simps
  by (auto simp: two_tasks_def sched_init_def Let_def layout_simps filter_replicate)

lemma two_tasks_running:
  "running (two_tasks cur prio state) 0x1000"
  "running (two_tasks cur prio state) 0x2000 \<longleftrightarrow> state = TASK_RUNNING"
  unfolding running_def two_tasks_simps by (simp_all add: two_tasks_def sched_init_def Let_def)

theorem task_schedule_picks_best_witness:
  "\<exists>sw st'. task_schedule (two_tasks 0x1000 3 TASK_BLOCKED) = Some (sw, st') \<and> sched_wf st'"
  using task_schedule_picks_best [OF two_tasks_wf [of "0x1000" 3 TASK_BLOCKED]] by auto

text \<open>With priority 3 and the processor, the second task is chosen again and the first one waits.\<close>

lemma two_tasks_credit:
  "next_credit (two_tasks 0x2000 3 TASK_RUNNING) 0x1000 = 1"
  "next_credit (two_tasks 0x2000 3 TASK_RUNNING) 0x2000 = 3"
  by (simp_all add: next_credit_def two_tasks_def sched_init_def Let_def)

lemma two_tasks_waits: "\<exists>st'. waits 0x1000 (two_tasks 0x2000 3 TASK_RUNNING) (0 + 1) st'"
proof -
  let ?st = "two_tasks 0x2000 3 TASK_RUNNING"
  have wf: "sched_wf ?st" by (rule two_tasks_wf) auto
  obtain new st' where new: "task_schedule ?st =
      Some (if new = current_task ?st then None else Some (current_task ?st, new), st')"
    "current_task st' = new" "running ?st new"
    "\<And>b. running ?st b \<Longrightarrow> next_credit ?st b \<le> next_credit ?st new"
    by (rule task_schedule_running [OF wf two_tasks_running(1)]) (rule that)
  have "next_credit ?st 0x2000 \<le> next_credit ?st new"
    by (rule new(4)) (simp only: two_tasks_running)
  then have ne: "0x1000 \<noteq> new" using two_tasks_credit by auto
  have "waits 0x1000 ?st 0 ?st"
    by (rule waits.start) (simp_all only: two_tasks_running two_tasks_simps, simp)
  then have "waits 0x1000 ?st (0 + 1) st'"
  proof (rule waits.event)
    show "run_event Yield ?st = Some (1, st')" using new(1) by simp
    show "running st' 0x1000" using run_running [OF wf new(1)] two_tasks_running(1) by simp
    show "0x1000 \<noteq> current_task st'" using ne new(2) by simp
  qed
  then show ?thesis ..
qed

theorem running_task_not_starved_witness:
  "int (0 + 1) \<le> 2 * (total_priority (two_tasks 0x2000 3 TASK_RUNNING) +
     total_credit (two_tasks 0x2000 3 TASK_RUNNING))"
proof -
  obtain st' where "waits 0x1000 (two_tasks 0x2000 3 TASK_RUNNING) (0 + 1) st'"
    using two_tasks_waits by blast
  from running_task_not_starved [OF two_tasks_wf this] show ?thesis by simp
qed

lemma block_unblock_null_slot_witness:
  "task_unblock 7 TASK_BLOCKED (two_tasks 0x1000 3 TASK_BLOCKED) = None"
proof -
  have "\<forall>k<2. t_pid (the (heap (two_tasks 0x1000 3 TASK_BLOCKED)
      (tasks (two_tasks 0x1000 3 TASK_BLOCKED) ! k))) \<noteq> 7"
    by (simp add: less_2_cases_iff two_tasks_def sched_init_def Let_def all_conj_distrib
        numeral_2_eq_2 less_Suc_eq)
  then show ?thesis
    using block_unblock_null_slot [OF two_tasks_wf [of "0x1000" 3 TASK_BLOCKED], of 2 7]
    by (simp add: two_tasks_simps layout_simps)
qed

lemma task_block_current_witness:
  "\<exists>new st'. task_block 2 TASK_BLOCKED (two_tasks 0x2000 3 TASK_RUNNING) =
     Some (Some (0x2000, new), st') \<and> new \<noteq> 0x2000"
proof -
  have "\<forall>k<1. t_pid (the (heap (two_tasks 0x2000 3 TASK_RUNNING)
      (tasks (two_tasks 0x2000 3 TASK_RUNNING) ! k))) \<noteq> 2"
    by (simp add: two_tasks_def sched_init_def Let_def)
  moreover have "t_pid (the (heap (two_tasks 0x2000 3 TASK_RUNNING) 0x2000)) = 2"
    by (simp add: two_tasks_def sched_init_def Let_def)
  ultimately show ?thesis
    using task_block_current [OF two_tasks_wf [of "0x2000" 3 TASK_RUNNING], of 1 2 TASK_BLOCKED "0x1000"]
      two_tasks_running
    by (auto simp: two_tasks_simps layout_simps)
qed

end
