(* ===== verification/Bytes.thy ===== *)
theory Bytes
  imports Prelude
begin

text \<open>
  Little-endian numbers in a byte buffer: what a load or a store of an integer object does on AArch64,
  and what \<open>memcpy\<close> between an integer and a buffer does.
\<close>

fun le_val :: "bytes \<Rightarrow> nat" where
  "le_val [] = 0"
| "le_val (b # bs) = unat b + 256 * le_val bs"

fun le_bytes :: "nat \<Rightarrow> nat \<Rightarrow> bytes" where
  "le_bytes 0 v = []"
| "le_bytes (Suc n) v = of_nat v # le_bytes n (v div 256)"

lemma length_le_bytes [simp]: "length (le_bytes n v) = n"
  by (induction n arbitrary: v) auto

lemma le_val_bytes: "le_val (le_bytes n v) = v mod 256 ^ n"
proof (induction n arbitrary: v)
  case (Suc n)
  have "v mod 256 ^ Suc n = v mod 256 + 256 * (v div 256 mod 256 ^ n)"
    by (simp add: mod_mult2_eq add.commute)
  then show ?case using Suc [of "v div 256"] by (simp add: unat_of_nat)
qed simp

lemma le_val_bound: "le_val bs < 256 ^ length bs"
proof (induction bs)
  case (Cons b bs)
  have "unat b < 256" by (rule u8_bound)
  then show ?case using Cons by simp
qed simp

lemma le_bytes_val: "le_bytes (length bs) (le_val bs) = bs"
proof (induction bs)
  case (Cons b bs)
  have "unat b < 256" by (rule u8_bound)
  moreover have "of_nat (unat b + 256 * le_val bs) = b"
    by (simp only: word_unat_eq_iff unat_of_nat) (simp add: \<open>unat b < 256\<close>)
  ultimately show ?case using Cons by simp
qed simp

lemma le_bytes_inject:
  "v < 256 ^ n \<Longrightarrow> w < 256 ^ n \<Longrightarrow> le_bytes n v = le_bytes n w \<longleftrightarrow> v = w"
  by (metis le_val_bytes mod_less)

text \<open>A load of an \<open>n\<close>-byte unsigned object at index \<open>i\<close>.\<close>

definition rd_le :: "nat \<Rightarrow> bytes \<Rightarrow> nat \<Rightarrow> nat option" where
  "rd_le n bs i = map_option le_val (rd_bytes bs i n)"

lemma rd_le_in [access_simps]: "i + n \<le> length bs \<Longrightarrow> rd_le n bs i = Some (le_val (take n (drop i bs)))"
  by (simp add: rd_le_def rd_bytes_def)

lemma rd_le_None: "rd_le n bs i = None \<longleftrightarrow> length bs < i + n"
  by (auto simp: rd_le_def rd_bytes_def)

lemma rd_le_append:
  assumes "v < 256 ^ n"
  shows "rd_le n (xs @ le_bytes n v @ ys) (length xs) = Some v"
  using assms rd_bytes_append [of xs "le_bytes n v" ys] by (simp add: rd_le_def le_val_bytes)

end
