(* ===== verification/Elf.thy ===== *)
theory Elf
  imports Mem Bytes Kernel_String
begin

text \<open>
  ELF images (\<^verbatim>\<open>kernel/elf.c\<close>). The file is the list of bytes from the header to the end of its
  object; a field is read where the code reads it. Loading a segment writes single bytes of kernel
  pages, which are bytes of the 64-bit cells of the memory state.
\<close>

subsection \<open>Bytes of memory\<close>

definition byte_shift :: "u64 \<Rightarrow> nat" where
  "byte_shift a = 8 * unat (a AND 7)"

definition get_byte :: "u64 \<Rightarrow> mem_state \<Rightarrow> u8" where
  "get_byte a s = ucast (drop_bit (byte_shift a) (cells s (a AND NOT 7)))"

definition put_byte :: "u64 \<Rightarrow> u8 \<Rightarrow> mem_state \<Rightarrow> mem_state" where
  "put_byte a b s =
     (let c = a AND NOT 7 in
      set_cell c ((cells s c AND NOT (push_bit (byte_shift a) 0xff)) OR
        push_bit (byte_shift a) (ucast b)) s)"

fun put_bytes :: "u64 \<Rightarrow> bytes \<Rightarrow> mem_state \<Rightarrow> mem_state" where
  "put_bytes a [] s = s"
| "put_bytes a (b # bs) s = put_bytes (a + 1) bs (put_byte a b s)"

subsection \<open>The headers\<close>

definition ET_EXEC :: nat where [layout_simps]: "ET_EXEC = 2"
definition PT_LOAD :: nat where [layout_simps]: "PT_LOAD = 1"
definition PF_X :: nat where [layout_simps]: "PF_X = 1"
definition PF_W :: nat where [layout_simps]: "PF_W = 2"
definition PF_R :: nat where [layout_simps]: "PF_R = 4"

text \<open>Offsets and widths of the fields of \<open>struct elf64_ehdr\<close> and \<open>struct elf64_phdr\<close> that are read.\<close>

definition e_type :: "bytes \<Rightarrow> nat option" where "e_type file = rd_le 2 file 16"
definition e_machine :: "bytes \<Rightarrow> nat option" where "e_machine file = rd_le 2 file 18"
definition e_entry :: "bytes \<Rightarrow> u64 option" where "e_entry file = map_option of_nat (rd_le 8 file 24)"
definition e_phoff :: "bytes \<Rightarrow> nat option" where "e_phoff file = rd_le 8 file 32"
definition e_phnum :: "bytes \<Rightarrow> nat option" where "e_phnum file = rd_le 2 file 56"

record elf64_phdr =
  p_type :: nat
  p_flags :: nat
  p_offset :: u64
  p_vaddr :: u64
  p_filesz :: u64
  p_memsz :: u64

definition SIZEOF_PHDR :: nat where [layout_simps]: "SIZEOF_PHDR = 56"

text \<open>The program header at index \<open>p\<close> of the file.\<close>

definition read_phdr :: "bytes \<Rightarrow> nat \<Rightarrow> elf64_phdr option" where
  "read_phdr file p = do {
     ty \<leftarrow> rd_le 4 file p;
     flags \<leftarrow> rd_le 4 file (p + 4);
     offset \<leftarrow> rd_le 8 file (p + 8);
     vaddr \<leftarrow> rd_le 8 file (p + 16);
     filesz \<leftarrow> rd_le 8 file (p + 32);
     memsz \<leftarrow> rd_le 8 file (p + 40);
     Some \<lparr>p_type = ty, p_flags = flags, p_offset = of_nat offset, p_vaddr = of_nat vaddr,
       p_filesz = of_nat filesz, p_memsz = of_nat memsz\<rparr> }"

definition elf_validate :: "bytes \<Rightarrow> kern_err option" where
  "elf_validate ehdr = do {
     d \<leftarrow> memcmp_k (take 16 ehdr) (0x7f # zstr ''ELF'') 4;
     if d \<noteq> 0 then Some ERR_ELF_INV
     else do {
       ty \<leftarrow> e_type ehdr;
       if ty \<noteq> ET_EXEC then Some ERR_ELF_UNS
       else do {
         machine \<leftarrow> e_machine ehdr;
         if machine \<noteq> 0xb7 then Some ERR_ELF_MAC else Some ERR_OK } } }"

subsection \<open>Loading\<close>

definition elf_perm :: "nat \<Rightarrow> mem_perm option" where
  "elf_perm flags =
     (if flags = PF_R then Some MEM_RO
      else if flags = PF_R + PF_X then Some MEM_EX
      else if flags = PF_R + PF_W then Some MEM_RW
      else None)"

text \<open>
  One round of the page loop: a page is allocated, mapped and filled with the part of the segment
  that lies in it. The rest of the page keeps the content the page had.
\<close>

definition elf_load_page ::
    "bytes \<Rightarrow> u64 \<Rightarrow> mem_perm \<Rightarrow> elf64_phdr \<Rightarrow> u64 \<Rightarrow> u64 \<Rightarrow> mem_state \<Rightarrow>
     (kern_err \<times> mem_state) option" where
  "elf_load_page file tran_table perm ph vaddr vaddr_end s = do {
     (page_r, s1) \<leftarrow> mem_kernel_alloc_page MEM_RW s;
     if r_err page_r \<noteq> ERR_OK then Some (r_err page_r, s1)
     else do {
       (err, s2) \<leftarrow> mem_user_map_page tran_table vaddr (MEM_VIRT_TO_PHYS (r_addr page_r)) perm
                    MEM_NORM s1;
       if err \<noteq> ERR_OK then Some (err, s2)
       else do {
         let data_start = (if vaddr > p_vaddr ph then vaddr else p_vaddr ph);
         let data_end = (if vaddr + PAGESIZE < vaddr_end then vaddr + PAGESIZE else vaddr_end);
         let file_offset = p_offset ph + data_start - p_vaddr ph;
         let page_offset = data_start AND (PAGESIZE - 1);
         data \<leftarrow> rd_bytes file (unat file_offset) (unat (data_end - data_start));
         Some (ERR_OK, put_bytes (r_addr page_r + page_offset) data s2) } } }"

partial_function (option) elf_load_pages ::
    "bytes \<Rightarrow> u64 \<Rightarrow> mem_perm \<Rightarrow> elf64_phdr \<Rightarrow> u64 \<Rightarrow> u64 \<Rightarrow> mem_state \<Rightarrow>
     (kern_err \<times> mem_state) option" where
  "elf_load_pages file tran_table perm ph vaddr vaddr_end s =
     (if vaddr < vaddr_end then
        Option.bind (elf_load_page file tran_table perm ph vaddr vaddr_end s)
          (\<lambda>r. if fst r \<noteq> ERR_OK then Some r
               else elf_load_pages file tran_table perm ph (vaddr + PAGESIZE) vaddr_end (snd r))
      else Some (ERR_OK, s))"

definition elf_load_segment ::
    "bytes \<Rightarrow> u64 \<Rightarrow> elf64_phdr \<Rightarrow> mem_state \<Rightarrow> (kern_err \<times> mem_state) option" where
  "elf_load_segment file tran_table ph s =
     (if p_type ph \<noteq> PT_LOAD then Some (ERR_OK, s)
      else case elf_perm (p_flags ph) of
        None \<Rightarrow> Some (ERR_ELF_INV, s)
      | Some perm \<Rightarrow>
          elf_load_pages file tran_table perm ph (p_vaddr ph AND PAGE_MASK)
            (p_vaddr ph + p_filesz ph) s)"

fun elf_load_segments ::
    "bytes \<Rightarrow> u64 \<Rightarrow> nat \<Rightarrow> nat \<Rightarrow> mem_state \<Rightarrow> (kern_err \<times> mem_state) option" where
  "elf_load_segments file tran_table p 0 s = Some (ERR_OK, s)"
| "elf_load_segments file tran_table p (Suc n) s = do {
     ph \<leftarrow> read_phdr file p;
     (err, s1) \<leftarrow> elf_load_segment file tran_table ph s;
     if err \<noteq> ERR_OK then Some (err, s1)
     else elf_load_segments file tran_table (p + SIZEOF_PHDR) n s1 }"

text \<open>The stack page is put below the file image of the first program header.\<close>

definition elf_create_proc_image :: "bytes \<Rightarrow> u64 \<Rightarrow> mem_state \<Rightarrow> (mem_r_addr \<times> mem_state) option" where
  "elf_create_proc_image file tran_table s = do {
     phoff \<leftarrow> e_phoff file;
     phdr \<leftarrow> read_phdr file phoff;
     let stack_addr = p_vaddr phdr - p_offset phdr - PAGESIZE;
     (stack_r, s1) \<leftarrow> mem_kernel_alloc_page MEM_RW s;
     if r_err stack_r \<noteq> ERR_OK then Some (\<lparr>r_addr = 0, r_err = r_err stack_r\<rparr>, s1)
     else do {
       (err, s2) \<leftarrow> mem_user_map_page tran_table stack_addr (MEM_VIRT_TO_PHYS (r_addr stack_r)) MEM_RW
                    MEM_NORM s1;
       if err \<noteq> ERR_OK then Some (\<lparr>r_addr = 0, r_err = err\<rparr>, s2)
       else do {
         phnum \<leftarrow> e_phnum file;
         (err', s3) \<leftarrow> elf_load_segments file tran_table phoff phnum s2;
         if err' \<noteq> ERR_OK then Some (\<lparr>r_addr = 0, r_err = err'\<rparr>, s3)
         else Some (\<lparr>r_addr = stack_addr, r_err = ERR_OK\<rparr>, s3) } } }"

subsection \<open>Byte access\<close>

lemma byte_shift_bound: "byte_shift a + 8 \<le> 64"
proof -
  have "unat (a AND 7) \<le> unat (7 :: u64)" by (intro word_le_nat_alt [THEN iffD1] word_and_le1)
  then show ?thesis by (simp add: byte_shift_def)
qed

lemma byte_addr_eq:
  "a AND NOT 7 = b AND NOT 7 \<Longrightarrow> byte_shift a = byte_shift b \<Longrightarrow> a = (b :: u64)"
proof -
  assume "a AND NOT 7 = b AND NOT 7" "byte_shift a = byte_shift b"
  then have "a AND NOT 7 = b AND NOT 7" "a AND 7 = b AND 7"
    by (simp_all add: byte_shift_def word_unat_eq_iff)
  then have "(a AND 7) OR (a AND NOT 7) = (b AND 7) OR (b AND NOT 7)" by simp
  then show "a = b" by (simp flip: bit.conj_disj_distrib)
qed

lemma byte_shift_apart:
  "byte_shift a \<noteq> byte_shift b \<Longrightarrow> byte_shift a + 8 \<le> byte_shift b \<or> byte_shift b + 8 \<le> byte_shift a"
  unfolding byte_shift_def by presburger

lemma bit_byte_mask:
  "bit (0xff :: nat) n \<longleftrightarrow> n < 8" "bit (0xff :: int) n \<longleftrightarrow> n < 8" "bit (0xff :: u64) n \<longleftrightarrow> n < 8"
proof -
  have "(0xff :: nat) = mask 8" by (simp add: mask_eq_exp_minus_1)
  then show "bit (0xff :: nat) n \<longleftrightarrow> n < 8" by (simp only: bit_mask_iff) simp
  have "(0xff :: int) = mask 8" by (simp add: mask_eq_exp_minus_1)
  then show "bit (0xff :: int) n \<longleftrightarrow> n < 8" by (simp only: bit_mask_iff) simp
  have "(0xff :: u64) = mask 8" by (simp add: mask_eq_exp_minus_1)
  then show "bit (0xff :: u64) n \<longleftrightarrow> n < 8" by (simp only: bit_mask_iff) auto
qed

lemma get_put_byte: "get_byte x (put_byte a b s) = (if x = a then b else get_byte x s)"
proof (cases "x AND NOT 7 = a AND NOT 7")
  case False
  then show ?thesis by (auto simp: get_byte_def put_byte_def Let_def set_cell_def)
next
  case cell: True
  show ?thesis
  proof (rule bit_word_eqI)
    fix n assume "n < LENGTH(8)"
    then have n: "n < 8" by simp
    have bound: "byte_shift x + n < 64" using byte_shift_bound [of x] n by linarith
    have val: "bit (get_byte x (put_byte a b s)) n =
        (if byte_shift a \<le> byte_shift x + n \<and> byte_shift x + n - byte_shift a < 8
         then bit b (byte_shift x + n - byte_shift a)
         else bit (cells s (a AND NOT 7)) (byte_shift x + n))"
      using cell n bound
      by (auto simp: get_byte_def put_byte_def Let_def set_cell_def bit_simps bit_byte_mask
          dest: bit_imp_le_length)
    show "bit (get_byte x (put_byte a b s)) n = bit (if x = a then b else get_byte x s) n"
    proof (cases "x = a")
      case True
      with val n show ?thesis by simp
    next
      case False
      then have "byte_shift x \<noteq> byte_shift a" using byte_addr_eq cell by blast
      then have "\<not> (byte_shift a \<le> byte_shift x + n \<and> byte_shift x + n - byte_shift a < 8)"
        using byte_shift_apart [of x a] n by auto
      with val False cell n bound show ?thesis by (auto simp: get_byte_def bit_simps)
    qed
  qed
qed

lemma get_put_bytes:
  assumes "length bs \<le> 2 ^ 64"
  shows "get_byte x (put_bytes a bs s) =
    (if unat (x - a) < length bs then bs ! unat (x - a) else get_byte x s)"
  using assms
proof (induction bs arbitrary: a s)
  case (Cons b bs)
  have len: "length bs \<le> 2 ^ 64" by (rule order.trans [OF _ Cons.prems]) simp
  show ?case
  proof (cases "x = a")
    case True
    have "x - (a + 1) = - 1" using True by simp
    then have "unat (x - (a + 1)) = 2 ^ 64 - 1" by (simp add: unsigned_minus_1_eq_mask mask_eq_exp_minus_1)
    moreover have "length bs \<le> 2 ^ 64 - 1" using Cons.prems by (simp add: Suc_le_eq)
    ultimately have "\<not> unat (x - (a + 1)) < length bs" by (simp only: not_less)
    then have "get_byte x (put_bytes (a + 1) bs (put_byte a b s)) = get_byte x (put_byte a b s)"
      unfolding Cons.IH [OF len] by (simp only: if_False)
    then show ?thesis using True by (simp add: get_put_byte)
  next
    case False
    define m where "m = unat (x - (a + 1))"
    have "1 + (x - (a + 1)) = x - a" by simp
    moreover have "x - a \<noteq> 0" using False by simp
    ultimately have suc: "unat (x - a) = Suc m"
      using unatSuc [of "x - (a + 1)"] unfolding m_def by (simp only: not_False_eq_True)
    have "get_byte x (put_bytes (a + 1) bs (put_byte a b s)) =
        (if m < length bs then bs ! m else get_byte x (put_byte a b s))"
      unfolding m_def by (rule Cons.IH [OF len])
    then show ?thesis using False suc by (simp add: get_put_byte)
  qed
qed simp

end
