(* ===== verification/Task_Life.thy ===== *)
theory Task_Life
  imports Task_Fair Elf
begin

text \<open>
  The life of a task (\<^verbatim>\<open>kernel/task.c\<close>: \<open>task_exec\<close>, \<open>task_fork\<close>, \<open>task_exit\<close>): the operations that
  need both the scheduler state and the memory state. A panic is \<open>None\<close>.

  \<open>task_exec\<close> leaves the kernel through \<open>cpu_start_user\<close>; its result is then the entry point and the
  stack pointer. \<open>task_fork\<close> returns twice, in the parent and, when it is first scheduled, in the
  child, which runs \<open>task_fork_child\<close>; the kernel stack pointer that \<open>cpu_switch\<close> stores is an argument.
  \<open>task_exit\<close> waits for its children in a loop; one round is \<open>task_exit_attempt\<close>, and a task that
  waited runs \<open>task_resume\<close> and another attempt.
\<close>

record kernel =
  k_mem :: mem_state
  k_sched :: sched

definition change_current :: "(task \<Rightarrow> task) \<Rightarrow> kernel \<Rightarrow> kernel option" where
  "change_current f k = do {
     c \<leftarrow> deref (k_sched k) (current_task (k_sched k));
     Some (k\<lparr>k_sched := store_task (current_task (k_sched k)) (f c) (k_sched k)\<rparr>) }"

definition preempt_add :: "int \<Rightarrow> task \<Rightarrow> task" where
  "preempt_add n t = t\<lparr>t_preempt_count := t_preempt_count t + n\<rparr>"

subsection \<open>Arguments of a new image\<close>

text \<open>
  The strings are given without their terminators. The result is the stack pointer and the stores in
  the order they are made: the number of arguments, each string with its terminator and the pointer
  to it, and the final null pointer.
\<close>

fun exec_copy_args :: "u64 \<Rightarrow> u64 \<Rightarrow> bytes list \<Rightarrow> (u64 \<times> bytes) list" where
  "exec_copy_args arg_pos argv [] = [(argv, le_bytes 8 0)]"
| "exec_copy_args arg_pos argv (a # as) =
     (arg_pos, a @ [0]) # (argv, le_bytes 8 (unat arg_pos)) #
     exec_copy_args (arg_pos + of_nat (length a + 1)) (argv + 8) as"

definition exec_arg_size :: "bytes list \<Rightarrow> nat" where
  "exec_arg_size args =
     (let arg_size = sum_list (map (\<lambda>a. length a + 1) args) in
      if arg_size mod 8 \<noteq> 0 then arg_size + (8 - arg_size mod 8) else arg_size)"

definition exec_args :: "u64 \<Rightarrow> bytes list \<Rightarrow> u64 \<times> (u64 \<times> bytes) list" where
  "exec_args sp0 args =
     (let argc = length args;
          arg_pos = sp0 - of_nat (exec_arg_size args);
          argv = arg_pos - 8 * of_nat (argc + 1);
          sp = argv - 8
      in (sp, (sp, le_bytes 8 argc) # exec_copy_args arg_pos argv args))"

text \<open>A store to user memory through the current translation table; without a mapping it faults.\<close>

fun store_user :: "u64 \<Rightarrow> u64 \<Rightarrow> bytes \<Rightarrow> mem_state \<Rightarrow> mem_state option" where
  "store_user table a [] s = Some s"
| "store_user table a (b # bs) s =
     (let page = mem_user_get_kaddr table a s in
      if page = 0 then None
      else store_user table (a + 1) bs (put_byte (page + (a AND (PAGESIZE - 1))) b s))"

fun store_user_all :: "u64 \<Rightarrow> (u64 \<times> bytes) list \<Rightarrow> mem_state \<Rightarrow> mem_state option" where
  "store_user_all table [] s = Some s"
| "store_user_all table ((a, bs) # ws) s = Option.bind (store_user table a bs s) (store_user_all table ws)"

datatype exec_result = Exec_error kern_err | Exec_start u64 u64

text \<open>
  \<open>ehdr\<close> is the file and \<open>args\<close> the argument strings, as they are found in memory when they are read:
  that is after the address space of the caller was torn down.
\<close>

definition task_exec :: "bytes \<Rightarrow> bytes list option \<Rightarrow> kernel \<Rightarrow> (exec_result \<times> kernel) option" where
  "task_exec ehdr args k = do {
     k1 \<leftarrow> change_current (preempt_add 1) k;
     err \<leftarrow> elf_validate ehdr;
     if err \<noteq> ERR_OK then Some (Exec_error err, k1)
     else do {
       c \<leftarrow> deref (k_sched k1) (current_task (k_sched k1));
       let tran_table = MEM_PHYS_TO_VIRT (t_tran_table c);
       (e, m1) \<leftarrow> mem_table_teardown tran_table (k_mem k1);
       if e \<noteq> ERR_OK then None
       else do {
         (stack_r, m2) \<leftarrow> elf_create_proc_image ehdr tran_table m1;
         if r_err stack_r \<noteq> ERR_OK then Some (Exec_error (r_err stack_r), k1\<lparr>k_mem := m2\<rparr>)
         else do {
           let sp0 = r_addr stack_r + PAGESIZE;
           (sp, m3) \<leftarrow> (case args of None \<Rightarrow> Some (sp0, m2)
             | Some as \<Rightarrow> (let (sp, stores) = exec_args sp0 as in
                 map_option (Pair sp) (store_user_all tran_table stores m2)));
           entry \<leftarrow> e_entry ehdr;
           k2 \<leftarrow> change_current (preempt_add (-1)) (k1\<lparr>k_mem := m3\<rparr>);
           Some (Exec_start entry sp, k2) } } } }"

subsection \<open>Fork\<close>

definition task_fork :: "u64 \<Rightarrow> kernel \<Rightarrow> ((int \<times> kern_err) \<times> kernel) option" where
  "task_fork ksp k = do {
     k1 \<leftarrow> change_current (preempt_add 1) k;
     (task_r, m1) \<leftarrow> mem_kernel_alloc_page MEM_RW (k_mem k1);
     if r_err task_r \<noteq> ERR_OK then Some ((-1, r_err task_r), k1\<lparr>k_mem := m1\<rparr>)
     else do {
       (tran_table_r, m2) \<leftarrow> mem_kernel_alloc_page MEM_RW m1;
       if r_err tran_table_r \<noteq> ERR_OK then Some ((-1, r_err tran_table_r), k1\<lparr>k_mem := m2\<rparr>)
       else do {
         (kernel_stack_r, m3) \<leftarrow> mem_kernel_alloc_page MEM_RW m2;
         if r_err kernel_stack_r \<noteq> ERR_OK
         then Some ((-1, r_err kernel_stack_r), k1\<lparr>k_mem := m3\<rparr>)
         else do {
           let cur = current_task (k_sched k1);
           c \<leftarrow> deref (k_sched k1) cur;
           let m4 = copy_page (r_addr kernel_stack_r) (t_kernel_stack c) m3;
           let a = r_addr task_r;
           let child = \<lparr>t_ksp = 0, t_tran_table = MEM_VIRT_TO_PHYS (r_addr tran_table_r),
             t_pid = task_count (k_sched k1) + 1, t_kernel_stack = r_addr kernel_stack_r,
             t_parent = cur, t_children_no = 0, t_state = t_state c,
             t_preempt_count = t_preempt_count c, t_priority = t_priority c,
             t_counter = t_priority c\<rparr>;
           let s1 = store_task a child ((k_sched k1)\<lparr>task_count := task_count (k_sched k1) + 1\<rparr>);
           let s2 = store_task cur (c\<lparr>t_children_no := t_children_no c + 1\<rparr>) s1;
           let s3 = task_add a s2;
           let m5 = mem_table_soft_copy (MEM_PHYS_TO_VIRT (t_tran_table c)) m4;
           let m6 = copy_page (r_addr tran_table_r) (MEM_PHYS_TO_VIRT (t_tran_table c)) m5;
           let ksp_offset = ksp - t_kernel_stack c;
           let s4 = store_task a (child\<lparr>t_ksp := t_kernel_stack child + ksp_offset\<rparr>) s3;
           let s5 = store_task cur (c\<lparr>t_children_no := t_children_no c + 1, t_ksp := ksp,
             t_preempt_count := t_preempt_count c - 1\<rparr>) s4;
           Some ((t_pid child, ERR_OK), \<lparr>k_mem = m6, k_sched = s5\<rparr>) } } } }"

definition task_fork_child :: "kernel \<Rightarrow> ((int \<times> kern_err) \<times> kernel) option" where
  "task_fork_child k = do {
     k1 \<leftarrow> change_current (preempt_add (-1)) k;
     Some ((0, ERR_OK), k1) }"

subsection \<open>Exit\<close>

datatype exit_result = Exit_wait "(u64 \<times> u64) option" | Exited

text \<open>\<open>if (mem_kernel_free_page(page) != ERR_OK) panic(...);\<close>\<close>

definition free_or_panic :: "u64 \<Rightarrow> mem_state \<Rightarrow> mem_state option" where
  "free_or_panic page m = do {
     (e, m') \<leftarrow> mem_kernel_free_page page m;
     if e \<noteq> ERR_OK then None else Some m' }"

definition task_exit_finish :: "kernel \<Rightarrow> kernel option" where
  "task_exit_finish k = do {
     let st = k_sched k;
     let cur = current_task st;
     c \<leftarrow> deref st cur;
     p \<leftarrow> deref st (t_parent c);
     let st1 = store_task (t_parent c) (p\<lparr>t_children_no := t_children_no p - 1\<rparr>) st;
     st2 \<leftarrow> task_unblock (t_pid p) TASK_WAITING st1;
     (e, m1) \<leftarrow> mem_table_teardown (MEM_PHYS_TO_VIRT (t_tran_table c)) (k_mem k);
     if e \<noteq> ERR_OK then None
     else do {
       m2 \<leftarrow> free_or_panic (MEM_PHYS_TO_VIRT (t_tran_table c)) m1;
       m3 \<leftarrow> free_or_panic (t_kernel_stack c) m2;
       let st3 = task_remove cur st2;
       m4 \<leftarrow> free_or_panic cur m3;
       let st4 = st3\<lparr>heap := (heap st3)(cur := None), current_task := init_task st3\<rparr>;
       Some \<lparr>k_mem = m4, k_sched = st4\<rparr> } }"

definition task_exit_attempt :: "kernel \<Rightarrow> (exit_result \<times> kernel) option" where
  "task_exit_attempt k = do {
     c \<leftarrow> deref (k_sched k) (current_task (k_sched k));
     if 0 < t_children_no c then
       map_option (\<lambda>(sw, s). (Exit_wait sw, k\<lparr>k_sched := s\<rparr>))
         (task_block (t_pid c) TASK_WAITING (k_sched k))
     else map_option (Pair Exited) (task_exit_finish k) }"

definition task_exit :: "kernel \<Rightarrow> (exit_result \<times> kernel) option" where
  "task_exit k = Option.bind (change_current (preempt_add 1) k) task_exit_attempt"

subsection \<open>The arguments on the stack\<close>

text \<open>The stores applied to a plain byte memory.\<close>

definition put_chunk :: "u64 \<Rightarrow> bytes \<Rightarrow> (u64 \<Rightarrow> u8) \<Rightarrow> u64 \<Rightarrow> u8" where
  "put_chunk a bs m = (\<lambda>x. if unat (x - a) < length bs then bs ! unat (x - a) else m x)"

fun put_chunks :: "(u64 \<times> bytes) list \<Rightarrow> (u64 \<Rightarrow> u8) \<Rightarrow> u64 \<Rightarrow> u8" where
  "put_chunks [] m = m"
| "put_chunks ((a, bs) # ws) m = put_chunks ws (put_chunk a bs m)"

definition get_chunk :: "u64 \<Rightarrow> nat \<Rightarrow> (u64 \<Rightarrow> u8) \<Rightarrow> bytes" where
  "get_chunk a n m = map (\<lambda>k. m (a + of_nat k)) [0..<n]"

end
