(* ===== verification/Task_Args.thy ===== *)
theory Task_Args
  imports Task_Life
begin

text \<open>
  What a new program finds on its stack (\<^verbatim>\<open>kernel/task.c\<close>, the argument block of \<open>task_exec\<close>), and what
  a failing \<open>task_exec\<close> leaves behind.
\<close>

subsection \<open>Reading back stores\<close>

lemma offset_diff:
  assumes "a < 2 ^ 64" "b < 2 ^ 64"
  shows "unat ((sp + of_nat a) - (sp + of_nat b) :: u64) = (if b \<le> a then a - b else a + 2 ^ 64 - b)"
proof -
  have "(sp + of_nat a) - (sp + of_nat b) = (of_nat a - of_nat b :: u64)" by simp
  moreover have "unat (of_nat a :: u64) = a" "unat (of_nat b :: u64) = b"
    using assms by (simp_all add: unat_of_nat)
  ultimately show ?thesis by (simp add: unat_sub_if_size word_size)
qed

lemma get_chunk_apart:
  assumes "off + n \<le> off' \<or> off' + length bs \<le> off" "off + n \<le> 2 ^ 64" "off' + length bs \<le> 2 ^ 64"
  shows "get_chunk (sp + of_nat off) n (put_chunk (sp + of_nat off') bs m) = get_chunk (sp + of_nat off) n m"
proof -
  have "put_chunk (sp + of_nat off') bs m (sp + of_nat off + of_nat k) = m (sp + of_nat off + of_nat k)"
    if k: "k < n" for k
  proof (cases "length bs = 0")
    case False
    then have "0 < length bs" by simp
    then have "off' < 2 ^ 64" "off + k < 2 ^ 64" using assms k by linarith+
    then have "\<not> unat (sp + of_nat (off + k) - (sp + of_nat off')) < length bs"
      using assms k by (subst offset_diff) (auto split: if_splits)
    then show ?thesis by (simp add: put_chunk_def add.assoc)
  qed (simp add: put_chunk_def)
  then show ?thesis by (simp add: get_chunk_def)
qed

lemma get_chunk_same:
  assumes "off + length bs \<le> 2 ^ 64"
  shows "get_chunk (sp + of_nat off) (length bs) (put_chunk (sp + of_nat off) bs m) = bs"
proof -
  have "put_chunk (sp + of_nat off) bs m (sp + of_nat off + of_nat k) = bs ! k" if "k < length bs" for k
  proof -
    have "unat (sp + of_nat off + of_nat k - (sp + of_nat off)) = k"
      using that assms by (simp add: unat_of_nat)
    then show ?thesis using that by (simp add: put_chunk_def)
  qed
  then show ?thesis by (intro nth_equalityI) (simp_all add: get_chunk_def)
qed

definition args_total :: "bytes list \<Rightarrow> nat" where
  "args_total as = sum_list (map (\<lambda>a. length a + 1) as)"

lemma args_total_simps [simp]:
  "args_total [] = 0" "args_total (a # as) = length a + 1 + args_total as"
  by (simp_all add: args_total_def)

text \<open>The stores of the argument loop, at offsets \<open>p\<close> (strings) and \<open>q\<close> (pointers) from \<open>sp\<close>.\<close>

lemma copy_args_frame:
  assumes "q + 8 * (length as + 1) \<le> p" "p + args_total as \<le> 2 ^ 64" "off + n \<le> 2 ^ 64"
    "off + n \<le> q \<or> q + 8 * (length as + 1) \<le> off" "off + n \<le> p \<or> p + args_total as \<le> off"
  shows "get_chunk (sp + of_nat off) n
      (put_chunks (exec_copy_args (sp + of_nat p) (sp + of_nat q) as) m) = get_chunk (sp + of_nat off) n m"
  using assms
proof (induction as arbitrary: p q m)
  case Nil
  then show ?case by (auto intro!: get_chunk_apart)
next
  case (Cons a as)
  let ?m1 = "put_chunk (sp + of_nat p) (a @ [0]) m"
  let ?m2 = "put_chunk (sp + of_nat q) (le_bytes 8 (unat (sp + of_nat p))) ?m1"
  have "get_chunk (sp + of_nat off) n
      (put_chunks (exec_copy_args (sp + of_nat (p + (length a + 1))) (sp + of_nat (q + 8)) as) ?m2) =
      get_chunk (sp + of_nat off) n ?m2"
    using Cons.prems by (intro Cons.IH) auto
  also have "\<dots> = get_chunk (sp + of_nat off) n ?m1"
    using Cons.prems by (intro get_chunk_apart) auto
  also have "\<dots> = get_chunk (sp + of_nat off) n m"
    using Cons.prems by (intro get_chunk_apart) auto
  finally show ?case by (simp add: ac_simps)
qed

lemma copy_args_content:
  fixes sp :: u64 and m :: "u64 \<Rightarrow> u8"
  assumes "q + 8 * (length as + 1) \<le> p" "p + args_total as \<le> 2 ^ 64"
  defines "m' \<equiv> put_chunks (exec_copy_args (sp + of_nat p) (sp + of_nat q) as) m"
  shows "(\<forall>i<length as. \<exists>ptr. get_chunk (sp + of_nat (q + 8 * i)) 8 m' = le_bytes 8 (unat ptr) \<and>
      get_chunk ptr (length (as ! i) + 1) m' = as ! i @ [0]) \<and>
    get_chunk (sp + of_nat (q + 8 * length as)) 8 m' = le_bytes 8 0"
  using assms(1,2) unfolding m'_def
proof (induction as arbitrary: p q m)
  case Nil
  then show ?case using get_chunk_same [of q "le_bytes 8 0" sp m] by simp
next
  case (Cons a as)
  define m1 where "m1 = put_chunk (sp + of_nat p) (a @ [0]) m"
  define m2 where "m2 = put_chunk (sp + of_nat q) (le_bytes 8 (unat (sp + of_nat p))) m1"
  let ?rest = "exec_copy_args (sp + of_nat (p + (length a + 1))) (sp + of_nat (q + 8)) as"
  have all: "put_chunks (exec_copy_args (sp + of_nat p) (sp + of_nat q) (a # as)) m = put_chunks ?rest m2"
    by (simp add: m1_def m2_def ac_simps)
  have rest: "q + 8 + 8 * (length as + 1) \<le> p + (length a + 1)"
    "p + (length a + 1) + args_total as \<le> 2 ^ 64" using Cons.prems by auto
  note IH = Cons.IH [OF rest, of m2]
  have ptr: "get_chunk (sp + of_nat q) 8 (put_chunks ?rest m2) = le_bytes 8 (unat (sp + of_nat p))"
    using copy_args_frame [OF rest, of q 8 sp m2] Cons.prems
      get_chunk_same [of q "le_bytes 8 (unat (sp + of_nat p))" sp m1]
    by (simp add: m2_def)
  have "get_chunk (sp + of_nat p) (length (a @ [0])) m2 = get_chunk (sp + of_nat p) (length (a @ [0])) m1"
    unfolding m2_def using Cons.prems by (intro get_chunk_apart) auto
  then have str: "get_chunk (sp + of_nat p) (length a + 1) (put_chunks ?rest m2) = a @ [0]"
    using copy_args_frame [OF rest, of p "length a + 1" sp m2] Cons.prems
      get_chunk_same [of p "a @ [0]" sp m]
    by (simp add: m1_def)
  show ?case
    unfolding all
  proof (intro conjI allI impI)
    fix i assume i: "i < length (a # as)"
    show "\<exists>ptr. get_chunk (sp + of_nat (q + 8 * i)) 8 (put_chunks ?rest m2) = le_bytes 8 (unat ptr) \<and>
        get_chunk ptr (length ((a # as) ! i) + 1) (put_chunks ?rest m2) = (a # as) ! i @ [0]"
    proof (cases i)
      case 0
      with ptr str show ?thesis by (intro exI [of _ "sp + of_nat p"]) simp
    next
      case (Suc j)
      then have "j < length as" "q + 8 * i = q + 8 + 8 * j" using i by auto
      with IH Suc show ?thesis by (metis nth_Cons_Suc)
    qed
  next
    have "q + 8 * length (a # as) = q + 8 + 8 * length as" by simp
    with IH show "get_chunk (sp + of_nat (q + 8 * length (a # as))) 8 (put_chunks ?rest m2) = le_bytes 8 0"
      by metis
  qed
qed

lemma exec_arg_size_bounds: "args_total as \<le> exec_arg_size as" "8 dvd exec_arg_size as"
proof -
  have "(n + (8 - n mod 8)) mod 8 = 0" if "n mod 8 \<noteq> 0" for n :: nat using that by presburger
  then show "args_total as \<le> exec_arg_size as" "8 dvd exec_arg_size as"
    by (auto simp: exec_arg_size_def args_total_def Let_def dvd_eq_mod_eq_0)
qed

text \<open>
  C13. The argument block of a new program: at the stack pointer is the number of arguments, behind it
  one pointer for each to a copy of the string with its terminator, then a null pointer; the block
  ends at the top of the stack.
\<close>

theorem exec_args_layout:
  assumes "8 + 8 * (length args + 1) + exec_arg_size args \<le> 2 ^ 64"
    and "exec_args sp0 args = (sp, stores)"
  shows "le_val (get_chunk sp 8 (put_chunks stores m)) = length args \<and>
    (\<forall>i<length args. \<exists>ptr.
       get_chunk (sp + of_nat (8 + 8 * i)) 8 (put_chunks stores m) = le_bytes 8 (unat ptr) \<and>
       get_chunk ptr (length (args ! i) + 1) (put_chunks stores m) = args ! i @ [0]) \<and>
    get_chunk (sp + of_nat (8 + 8 * length args)) 8 (put_chunks stores m) = le_bytes 8 0 \<and>
    sp + of_nat (8 + 8 * (length args + 1) + exec_arg_size args) = sp0"
proof -
  let ?p = "8 + 8 * (length args + 1)"
  have sp: "sp = sp0 - of_nat (exec_arg_size args) - 8 * of_nat (length args + 1) - 8"
    and stores: "stores = (sp, le_bytes 8 (length args)) #
      exec_copy_args (sp0 - of_nat (exec_arg_size args))
        (sp0 - of_nat (exec_arg_size args) - 8 * of_nat (length args + 1)) args"
    using assms(2) by (auto simp: exec_args_def Let_def)
  have pos: "sp0 - of_nat (exec_arg_size args) = sp + of_nat ?p"
    "sp0 - of_nat (exec_arg_size args) - 8 * of_nat (length args + 1) = sp + of_nat 8"
    by (simp_all add: sp)
  define m1 where "m1 = put_chunk (sp + of_nat 0) (le_bytes 8 (length args)) m"
  have m': "put_chunks stores m = put_chunks (exec_copy_args (sp + of_nat ?p) (sp + of_nat 8) args) m1"
    unfolding stores pos by (simp add: m1_def ac_simps)
  have fits: "8 + 8 * (length args + 1) \<le> ?p" "?p + args_total args \<le> 2 ^ 64"
    using assms(1) exec_arg_size_bounds(1) [of args] by linarith+
  note content = copy_args_content [OF fits, of sp m1]
  have "get_chunk (sp + of_nat 0) 8 (put_chunks stores m) = get_chunk (sp + of_nat 0) 8 m1"
    unfolding m' using fits by (intro copy_args_frame) auto
  also have "\<dots> = le_bytes 8 (length args)"
    using get_chunk_same [of 0 "le_bytes 8 (length args)" sp m] by (simp add: m1_def)
  finally have "get_chunk sp 8 (put_chunks stores m) = le_bytes 8 (length args)" by simp
  moreover have "length args < 256 ^ 8" using assms(1) by simp
  moreover have "sp + of_nat (?p + exec_arg_size args) = sp0" by (simp add: sp)
  ultimately show ?thesis using content unfolding m' [symmetric] by (simp add: le_val_bytes)
qed

theorem exec_args_layout_witness:
  "\<exists>ptr. get_chunk (fst (exec_args 0x10000 [[108, 115]]) + 8) 8
      (put_chunks (snd (exec_args 0x10000 [[108, 115]])) (\<lambda>_. 7)) = le_bytes 8 (unat ptr) \<and>
    get_chunk ptr 3 (put_chunks (snd (exec_args 0x10000 [[108, 115]])) (\<lambda>_. 7)) = [108, 115, 0]"
proof -
  have "8 + 8 * (length [[108, 115] :: bytes] + 1) + exec_arg_size [[108, 115]] \<le> 2 ^ 64"
    by (simp add: exec_arg_size_def)
  from exec_args_layout [OF this prod.collapse [symmetric], of "0x10000" "\<lambda>_. 7"]
  show ?thesis by (simp add: numeral_3_eq_3)
qed

subsection \<open>A failing exec\<close>

fun ticks :: "nat \<Rightarrow> sched \<Rightarrow> sched option" where
  "ticks 0 st = Some st"
| "ticks (Suc n) st = Option.bind (task_tick st) (\<lambda>r. ticks n (snd r))"

lemma ticks_without_switch:
  assumes "deref st (current_task st) = Some c" "0 < t_preempt_count c"
  shows "\<exists>st'. ticks n st = Some st' \<and> current_task st' = current_task st"
  using assms
proof (induction n arbitrary: st c)
  case (Suc n)
  let ?st = "store_task (current_task st) (c\<lparr>t_counter := t_counter c - 1\<rparr>) st"
  have cur: "current_task st \<noteq> 0" using Suc.prems(1) by (auto simp: deref_def)
  then have "deref ?st (current_task ?st) = Some (c\<lparr>t_counter := t_counter c - 1\<rparr>)" by simp
  from Suc.IH [OF this] Suc.prems(2) obtain st' where
    "ticks n ?st = Some st'" "current_task st' = current_task st" by auto
  with Suc.prems show ?case by (simp add: task_tick_def)
qed simp

text \<open>
  A \<open>task_exec\<close> that rejects its file returns with the preemption count raised: from then on no
  number of timer ticks takes the processor from the task.
\<close>

lemma failed_exec_stops_preemption:
  assumes "sched_wf (k_sched k)" "elf_validate ehdr = Some err" "err \<noteq> ERR_OK"
    "0 \<le> t_preempt_count (the (heap (k_sched k) (current_task (k_sched k))))"
  shows "\<exists>k'. task_exec ehdr args k = Some (Exec_error err, k') \<and> k_mem k' = k_mem k \<and>
    (\<forall>n. \<exists>st'. ticks n (k_sched k') = Some st' \<and> current_task st' = current_task (k_sched k))"
proof -
  let ?st = "k_sched k"
  obtain c where c: "deref ?st (current_task ?st) = Some c" "heap ?st (current_task ?st) = Some c"
    "current_task ?st \<noteq> 0" using assms(1) by (rule sched_wf_current)
  let ?k' = "k\<lparr>k_sched := store_task (current_task ?st) (preempt_add 1 c) ?st\<rparr>"
  have "task_exec ehdr args k = Some (Exec_error err, ?k')"
    using assms(2,3) c by (simp add: task_exec_def change_current_def)
  moreover have "\<exists>st'. ticks n (k_sched ?k') = Some st' \<and> current_task st' = current_task ?st" for n
    using ticks_without_switch [of "k_sched ?k'" "preempt_add 1 c" n] c assms(4)
    by (simp add: preempt_add_def)
  ultimately show ?thesis by auto
qed

lemma failed_exec_stops_preemption_witness:
  "\<exists>k'. task_exec (0 # replicate 19 0) None \<lparr>k_mem = \<lparr>cells = \<lambda>_. 0, pmap = []\<rparr>, k_sched = sched_init 0x1000\<rparr> =
      Some (Exec_error ERR_ELF_INV, k') \<and>
    (\<exists>st'. ticks 100 (k_sched k') = Some st' \<and> current_task st' = 0x1000)"
proof -
  have "elf_validate (0 # replicate 19 0) = Some ERR_ELF_INV"
    by (simp add: elf_validate_def char_diff_def)
  from failed_exec_stops_preemption [of "\<lparr>k_mem = \<lparr>cells = \<lambda>_. 0, pmap = []\<rparr>, k_sched = sched_init 0x1000\<rparr>",
      OF _ this, of None] sched_wf_init [of "0x1000"]
  show ?thesis by (auto simp: sched_init_def)
qed

end
