(* ===== verification/Task_Family.thy ===== *)
theory Task_Family
  imports Task_Life
begin

text \<open>
  Parents and children (\<^verbatim>\<open>kernel/task.c\<close>): \<open>task_fork\<close> and \<open>task_exit\<close> keep the scheduler state well
  formed and the children counters right, as long as the task array has room.
\<close>

subsection \<open>Changing one slot\<close>

lemma distinct_filter_nth:
  "distinct (filter P xs) \<longleftrightarrow>
     (\<forall>i j. i < j \<longrightarrow> j < length xs \<longrightarrow> P (xs ! i) \<longrightarrow> xs ! i \<noteq> xs ! j)"
proof (induction xs)
  case (Cons x xs)
  have "(\<forall>i j. i < j \<longrightarrow> j < length (x # xs) \<longrightarrow> P ((x # xs) ! i) \<longrightarrow> (x # xs) ! i \<noteq> (x # xs) ! j) \<longleftrightarrow>
      (P x \<longrightarrow> x \<notin> set xs) \<and>
      (\<forall>i j. i < j \<longrightarrow> j < length xs \<longrightarrow> P (xs ! i) \<longrightarrow> xs ! i \<noteq> xs ! j)" (is "?l \<longleftrightarrow> ?r")
  proof
    assume l: ?l
    have "x \<noteq> xs ! j" if "P x" "j < length xs" for j
      using l [rule_format, of 0 "Suc j"] that by simp
    moreover have "xs ! i \<noteq> xs ! j" if "i < j" "j < length xs" "P (xs ! i)" for i j
      using l [rule_format, of "Suc i" "Suc j"] that by simp
    ultimately show ?r by (auto simp: in_set_conv_nth)
  next
    assume ?r
    then show ?l by (auto simp: nth_Cons' in_set_conv_nth less_Suc_eq_0_disj gr0_conv_Suc split: if_splits)
  qed
  then show ?case using Cons by auto
qed simp

lemma slot_insert:
  assumes "distinct (filter (\<lambda>a. a \<noteq> 0) xs)" "i < length xs" "xs ! i = 0" "a \<noteq> 0" "a \<notin> set xs"
  shows "distinct (filter (\<lambda>a. a \<noteq> 0) (xs[i := a]))"
    "x \<noteq> 0 \<Longrightarrow> x \<in> set (xs[i := a]) \<longleftrightarrow> x = a \<or> x \<in> set xs"
proof -
  have ne: "xs ! j \<noteq> a" if "j < length xs" for j using that assms(5) nth_mem by metis
  show "distinct (filter (\<lambda>a. a \<noteq> 0) (xs[i := a]))"
    using assms ne unfolding distinct_filter_nth by (auto simp: nth_list_update)
  show "x \<in> set (xs[i := a]) \<longleftrightarrow> x = a \<or> x \<in> set xs" if "x \<noteq> 0"
  proof
    assume "x \<in> set (xs[i := a])"
    then show "x = a \<or> x \<in> set xs" using set_update_subset_insert by fastforce
  next
    assume "x = a \<or> x \<in> set xs"
    then show "x \<in> set (xs[i := a])"
    proof
      assume "x \<in> set xs"
      then obtain j where "j < length xs" "xs ! j = x" by (auto simp: in_set_conv_nth)
      with that assms(3) have "j \<noteq> i" by auto
      with \<open>j < length xs\<close> \<open>xs ! j = x\<close> have "xs[i := a] ! j = x" "j < length (xs[i := a])" by simp_all
      then show ?thesis using nth_mem by metis
    qed (use assms(2) in \<open>simp add: set_update_memI\<close>)
  qed
qed

lemma slot_remove:
  assumes "distinct (filter (\<lambda>a. a \<noteq> 0) xs)" "i < length xs" "xs ! i = a" "a \<noteq> 0"
  shows "distinct (filter (\<lambda>a. a \<noteq> 0) (xs[i := 0]))"
    "x \<noteq> 0 \<Longrightarrow> x \<in> set (xs[i := 0]) \<longleftrightarrow> x \<noteq> a \<and> x \<in> set xs"
proof -
  note d = assms(1) [unfolded distinct_filter_nth, rule_format]
  show "distinct (filter (\<lambda>a. a \<noteq> 0) (xs[i := 0]))"
    unfolding distinct_filter_nth
  proof (intro allI impI)
    fix k j assume "k < j" "j < length (xs[i := 0])" "xs[i := 0] ! k \<noteq> 0"
    then show "xs[i := 0] ! k \<noteq> xs[i := 0] ! j" using d [of k j] by (cases "k = i"; cases "j = i") auto
  qed
  show "x \<in> set (xs[i := 0]) \<longleftrightarrow> x \<noteq> a \<and> x \<in> set xs" if "x \<noteq> 0"
  proof
    assume "x \<in> set (xs[i := 0])"
    then obtain j where j: "j < length xs" "xs[i := 0] ! j = x" by (auto simp: in_set_conv_nth)
    with that assms(2) have "j \<noteq> i" by auto
    with j have "xs ! j = x" by simp
    moreover have "x \<noteq> a"
      using d [of i j] d [of j i] assms(2-4) j(1) \<open>j \<noteq> i\<close> \<open>xs ! j = x\<close> by (cases "i < j") auto
    ultimately show "x \<noteq> a \<and> x \<in> set xs" using j(1) by auto
  next
    assume x: "x \<noteq> a \<and> x \<in> set xs"
    then obtain j where "j < length xs" "xs ! j = x" by (auto simp: in_set_conv_nth)
    with x assms(3) have "j \<noteq> i" by auto
    with \<open>j < length xs\<close> \<open>xs ! j = x\<close> have "xs[i := 0] ! j = x" "j < length (xs[i := 0])" by simp_all
    then show "x \<in> set (xs[i := 0])" using nth_mem by metis
  qed
qed

subsection \<open>The family invariant\<close>

text \<open>
  Every task but the initial one has a live parent, and \<open>children_no\<close> is the number of live tasks
  that name the task as their parent.
\<close>

definition children :: "sched \<Rightarrow> u64 \<Rightarrow> u64 set" where
  "children st a = {b \<in> live st. b \<noteq> init_task st \<and> t_parent (the (heap st b)) = a}"

definition family_wf :: "sched \<Rightarrow> bool" where
  "family_wf st \<longleftrightarrow>
     (\<forall>a\<in>live st. unat (t_children_no (the (heap st a))) = card (children st a)) \<and>
     (\<forall>a\<in>live st. a \<noteq> init_task st \<longrightarrow> t_parent (the (heap st a)) \<in> live st)"

lemma children_finite [simp]: "finite (children st a)"
  by (simp add: children_def)

lemma live_card: "sched_wf st \<Longrightarrow> card (live st) \<le> 64"
proof -
  assume "sched_wf st"
  have "live st = set (filter (\<lambda>a. a \<noteq> 0) (tasks st))" by (auto simp: live_def)
  then have "card (live st) \<le> length (filter (\<lambda>a. a \<noteq> 0) (tasks st))" by (metis card_length)
  also have "\<dots> \<le> length (tasks st)" by (rule length_filter_le)
  finally show ?thesis using \<open>sched_wf st\<close> by (simp add: sched_wf_def layout_simps)
qed

lemma children_card: "sched_wf st \<Longrightarrow> card (children st a) \<le> 64"
  using live_card [of st] card_mono [of "live st" "children st a"] by (auto simp: children_def)

text \<open>Adding a task in a free slot, and taking one away.\<close>

lemma fork_sched:
  assumes wf: "sched_wf st" and fam: "family_wf st"
    and i: "i < length (tasks st)" "tasks st ! i = 0" and a: "a \<noteq> 0" "a \<notin> set (tasks st)"
    and st': "tasks st' = (tasks st)[i := a]" "current_task st' = current_task st"
      "init_task st' = init_task st" "heap st' = (heap st)(a \<mapsto> child, current_task st \<mapsto> c')"
    and c: "heap st (current_task st) = Some c" and c': "t_children_no c' = t_children_no c + 1"
      "t_parent c' = t_parent c" "t_priority c' = t_priority c"
    and child: "t_parent child = current_task st" "t_children_no child = 0" "1 \<le> t_priority child"
      "0 \<le> t_counter child"
  shows "sched_wf st'" "family_wf st'" "live st' = insert a (live st)"
proof -
  note slot = slot_insert [OF _ i a]
  have dist: "distinct (filter (\<lambda>a. a \<noteq> 0) (tasks st))" using wf by (simp add: sched_wf_def)
  show live: "live st' = insert a (live st)"
    using slot(2) [OF dist] a(1) by (auto simp: live_def st'(1))
  have cur: "current_task st \<in> live st" and init: "init_task st \<in> live st"
    using wf sched_wf_init_live by (auto simp: sched_wf_def)
  have a_new: "a \<notin> live st" "a \<noteq> current_task st" "a \<noteq> init_task st"
    using a cur init by (auto simp: live_def)
  have heap: "heap st' b = heap st b" if "b \<in> live st" "b \<noteq> current_task st" for b
    using that a_new st'(4) by auto
  have i0: "i \<noteq> 0" using i(2) wf unfolding sched_wf_def by metis
  have "\<exists>t. heap st' b = Some t \<and> 1 \<le> t_priority t \<and> (b \<noteq> current_task st' \<longrightarrow> 0 \<le> t_counter t)"
    if b: "b \<in> live st'" for b
  proof (cases "b = a \<or> b = current_task st")
    case True
    then show ?thesis
      using child c' sched_wf_live [OF wf cur] c a_new by (auto simp: st')
  next
    case False
    with b live have "b \<in> live st" by auto
    with False show ?thesis using heap sched_wf_live [OF wf] by (metis st'(2))
  qed
  then show "sched_wf st'"
    using wf cur slot(1) [OF dist] i0 live unfolding sched_wf_def by (simp add: st')
  have par: "t_parent (the (heap st' b)) = (if b = a then current_task st else t_parent (the (heap st b)))"
    if "b \<in> live st'" for b
    using that child(1) c'(2) c a_new by (auto simp: st'(4))
  have kids: "children st' b = (if b = current_task st then insert a (children st b) else children st b)" for b
  proof -
    have "x \<in> children st' b \<longleftrightarrow> x = a \<and> b = current_task st \<or> x \<in> children st b" for x
    proof (cases "x \<in> live st'")
      case True
      with par [OF True] a_new live show ?thesis
        by (cases "x = a") (simp_all add: children_def st'(3) eq_commute)
    qed (use live in \<open>auto simp: children_def\<close>)
    then show ?thesis by (intro set_eqI) (simp split: if_split)
  qed
  have fresh: "a \<notin> children st b" for b using a_new by (simp add: children_def)
  have "unat (t_children_no (the (heap st' b))) = card (children st' b)" if b: "b \<in> live st'" for b
  proof (cases "b = current_task st")
    case True
    have "unat (t_children_no c) = card (children st (current_task st))"
      using fam cur c by (auto simp: family_wf_def)
    moreover have "card (children st (current_task st)) \<le> 64" by (rule children_card [OF wf])
    ultimately have "unat (t_children_no c + 1) = Suc (card (children st (current_task st)))"
      by (simp add: unat_add_no_overflow)
    then show ?thesis using True kids fresh c' by (simp add: st'(4))
  next
    case False
    show ?thesis
    proof (cases "b = a")
      case True
      have "children st a = {}" using fam a_new by (auto simp: children_def family_wf_def)
      then show ?thesis using True False kids child(2) by (simp add: st'(4))
    next
      case ne: False
      then have "b \<in> live st" using b live by simp
      then show ?thesis using False heap kids fam by (simp add: family_wf_def)
    qed
  qed
  moreover have "t_parent (the (heap st' b)) \<in> live st'" if "b \<in> live st'" "b \<noteq> init_task st'" for b
    using that par fam cur live by (auto simp: family_wf_def st'(3))
  ultimately show "family_wf st'" by (simp add: family_wf_def)
qed

lemma exit_sched:
  assumes wf: "sched_wf st" and fam: "family_wf st"
    and cur: "cur \<in> live st" "cur \<noteq> init_task st"
    and c: "heap st cur = Some c" "t_children_no c = 0" and p: "heap st (t_parent c) = Some p"
    and i: "i < length (tasks st)" "tasks st ! i = cur"
    and st': "tasks st' = (tasks st)[i := 0]" "current_task st' = init_task st"
      "init_task st' = init_task st"
    and heap: "\<And>b. b \<in> live st \<Longrightarrow> b \<noteq> cur \<Longrightarrow> \<exists>t. heap st' b = Some t \<and>
        t_parent t = t_parent (the (heap st b)) \<and> t_priority t = t_priority (the (heap st b)) \<and>
        (b \<noteq> init_task st \<longrightarrow> 0 \<le> t_counter t) \<and>
        t_children_no t = t_children_no (the (heap st b)) - (if b = t_parent c then 1 else 0)"
  shows "sched_wf st'" "family_wf st'" "live st' = live st - {cur}"
proof -
  have cur0: "cur \<noteq> 0" using cur by (simp add: live_def)
  have dist: "distinct (filter (\<lambda>a. a \<noteq> 0) (tasks st))" using wf by (simp add: sched_wf_def)
  note slot = slot_remove [OF dist i cur0]
  show live: "live st' = live st - {cur}"
    using slot(2) by (auto simp: live_def st'(1))
  have init: "init_task st \<in> live st" "tasks st ! 0 = init_task st"
    using wf sched_wf_init_live by auto
  have i0: "i \<noteq> 0" using i(2) init(2) cur(2) by metis
  have "\<exists>t. heap st' b = Some t \<and> 1 \<le> t_priority t \<and> (b \<noteq> current_task st' \<longrightarrow> 0 \<le> t_counter t)"
    if "b \<in> live st'" for b
  proof -
    have b: "b \<in> live st" "b \<noteq> cur" using that live by auto
    obtain u where u: "heap st b = Some u" "1 \<le> t_priority u" using sched_wf_live [OF wf b(1)] by metis
    obtain t where "heap st' b = Some t" "t_priority t = t_priority (the (heap st b))"
      "b \<noteq> init_task st \<longrightarrow> 0 \<le> t_counter t" using heap [OF b] by auto
    with u show ?thesis by (simp add: st'(2))
  qed
  then show "sched_wf st'"
    using wf init cur(2) slot(1) i0 live unfolding sched_wf_def by (simp add: st')
  have par: "t_parent (the (heap st' b)) = t_parent (the (heap st b))" if "b \<in> live st'" for b
  proof -
    have "b \<in> live st" "b \<noteq> cur" using that live by auto
    from heap [OF this] obtain t where "heap st' b = Some t" "t_parent t = t_parent (the (heap st b))"
      by blast
    then show ?thesis by simp
  qed
  have parent: "t_parent c \<in> live st" using fam cur c by (auto simp: family_wf_def)
  have none: "children st cur = {}"
    using fam cur(1) c children_finite [of st cur] by (auto simp: family_wf_def)
  then have not_cur: "t_parent (the (heap st b)) \<noteq> cur" if "b \<in> live st" "b \<noteq> init_task st" for b
    using that by (auto simp: children_def)
  have kids: "children st' b = children st b - {cur}" for b
  proof (intro set_eqI)
    fix x
    show "x \<in> children st' b \<longleftrightarrow> x \<in> children st b - {cur}"
      using par [of x] live by (cases "x \<in> live st'") (auto simp: children_def st'(3))
  qed
  have mine: "cur \<in> children st b \<longleftrightarrow> b = t_parent c" for b
    using cur c by (auto simp: children_def)
  have "unat (t_children_no (the (heap st' b))) = card (children st' b)" if b: "b \<in> live st'" for b
  proof -
    have b': "b \<in> live st" "b \<noteq> cur" using b live by auto
    then have num: "unat (t_children_no (the (heap st b))) = card (children st b)"
      using fam by (simp add: family_wf_def)
    obtain t where t: "heap st' b = Some t"
      "t_children_no t = t_children_no (the (heap st b)) - (if b = t_parent c then 1 else 0)"
      using heap [OF b'] by auto
    show ?thesis
    proof (cases "b = t_parent c")
      case True
      then have "0 < card (children st b)" using mine children_finite card_gt_0_iff by blast
      then have "unat (t_children_no (the (heap st b)) - 1) = card (children st b) - 1"
        using num by (simp add: unat_sub word_le_nat_alt)
      then show ?thesis using t True kids mine by simp
    next
      case False
      then show ?thesis using t num kids mine by simp
    qed
  qed
  moreover have "t_parent (the (heap st' b)) \<in> live st'" if "b \<in> live st'" "b \<noteq> init_task st'" for b
    using that par not_cur fam live by (auto simp: family_wf_def st'(3))
  ultimately show "family_wf st'" by (simp add: family_wf_def)
qed

subsection \<open>Fork\<close>

lemma task_add_simps [simp]:
  "heap (task_add a st) = heap st" "current_task (task_add a st) = current_task st"
  "init_task (task_add a st) = init_task st"
  by (simp_all add: task_add_def split: option.split)

definition add_slot :: "u64 \<Rightarrow> u64 list \<Rightarrow> u64 list" where
  "add_slot a xs = (case first_index (\<lambda>b. b = 0) xs of None \<Rightarrow> xs | Some i \<Rightarrow> xs[i := a])"

lemma tasks_task_add [simp]: "tasks (task_add a st) = add_slot a (tasks st)"
  by (simp add: task_add_def add_slot_def split: option.split)

text \<open>The descriptors of child and parent after a fork.\<close>

definition forked_child :: "u64 \<Rightarrow> u64 \<Rightarrow> u64 \<Rightarrow> sched \<Rightarrow> task \<Rightarrow> task" where
  "forked_child ksp tt ks st c = \<lparr>t_ksp = ks + (ksp - t_kernel_stack c),
     t_tran_table = MEM_VIRT_TO_PHYS tt, t_pid = task_count st + 1, t_kernel_stack = ks,
     t_parent = current_task st, t_children_no = 0, t_state = t_state c,
     t_preempt_count = t_preempt_count c + 1, t_priority = t_priority c, t_counter = t_priority c\<rparr>"

definition forked_parent :: "u64 \<Rightarrow> task \<Rightarrow> task" where
  "forked_parent ksp c = c\<lparr>t_children_no := t_children_no c + 1, t_ksp := ksp\<rparr>"

lemma task_fork_run:
  assumes alloc: "mem_kernel_alloc_page MEM_RW (k_mem k) = Some (\<lparr>r_addr = a, r_err = ERR_OK\<rparr>, m1)"
      "mem_kernel_alloc_page MEM_RW m1 = Some (\<lparr>r_addr = tt, r_err = ERR_OK\<rparr>, m2)"
      "mem_kernel_alloc_page MEM_RW m2 = Some (\<lparr>r_addr = ks, r_err = ERR_OK\<rparr>, m3)"
    and c: "deref (k_sched k) (current_task (k_sched k)) = Some c" "current_task (k_sched k) \<noteq> 0"
    and ne: "current_task (k_sched k) \<noteq> a"
  obtains k' where "task_fork ksp k = Some ((task_count (k_sched k) + 1, ERR_OK), k')"
    "tasks (k_sched k') = add_slot a (tasks (k_sched k))"
    "current_task (k_sched k') = current_task (k_sched k)" "init_task (k_sched k') = init_task (k_sched k)"
    "heap (k_sched k') = (heap (k_sched k))(a \<mapsto> forked_child ksp tt ks (k_sched k) c,
       current_task (k_sched k) \<mapsto> forked_parent ksp c)"
proof -
  obtain k' where k': "task_fork ksp k = Some ((task_count (k_sched k) + 1, ERR_OK), k')"
    and parts: "tasks (k_sched k') = add_slot a (tasks (k_sched k)) \<and>
      current_task (k_sched k') = current_task (k_sched k) \<and> init_task (k_sched k') = init_task (k_sched k)"
    and heap: "heap (k_sched k') x = ((heap (k_sched k))(a \<mapsto> forked_child ksp tt ks (k_sched k) c,
       current_task (k_sched k) \<mapsto> forked_parent ksp c)) x" for x
    using alloc c ne
    by (simp add: task_fork_def change_current_def preempt_add_def Let_def forked_child_def forked_parent_def)
  show thesis by (rule that [OF k']) (use parts heap in \<open>auto simp: fun_eq_iff\<close>)
qed

text \<open>
  C14. A successful fork (three pages allocated, a free slot): the child is live and running with a new
  process id, the given parent and no children, it holds its own kernel stack and table, and the
  caller gets the new id back with its preemption count unchanged. The scheduler state stays well
  formed and the children counters stay right.
\<close>

theorem task_fork_success:
  assumes wf: "sched_wf (k_sched k)" and fam: "family_wf (k_sched k)"
    and slot: "0 \<in> set (tasks (k_sched k))"
    and alloc: "mem_kernel_alloc_page MEM_RW (k_mem k) = Some (\<lparr>r_addr = a, r_err = ERR_OK\<rparr>, m1)"
      "mem_kernel_alloc_page MEM_RW m1 = Some (\<lparr>r_addr = tt, r_err = ERR_OK\<rparr>, m2)"
      "mem_kernel_alloc_page MEM_RW m2 = Some (\<lparr>r_addr = ks, r_err = ERR_OK\<rparr>, m3)"
    and new: "a \<noteq> 0" "a \<notin> set (tasks (k_sched k))"
  shows "\<exists>k'. task_fork ksp k = Some ((task_count (k_sched k) + 1, ERR_OK), k') \<and>
    sched_wf (k_sched k') \<and> family_wf (k_sched k') \<and>
    live (k_sched k') = insert a (live (k_sched k)) \<and>
    current_task (k_sched k') = current_task (k_sched k) \<and>
    t_preempt_count (the (heap (k_sched k') (current_task (k_sched k)))) =
      t_preempt_count (the (heap (k_sched k) (current_task (k_sched k)))) \<and>
    (\<exists>child. heap (k_sched k') a = Some child \<and> t_parent child = current_task (k_sched k) \<and>
      t_pid child = task_count (k_sched k) + 1 \<and> t_children_no child = 0 \<and>
      t_kernel_stack child = ks \<and> MEM_PHYS_TO_VIRT (t_tran_table child) = tt \<and>
      t_state child = t_state (the (heap (k_sched k) (current_task (k_sched k)))))"
proof -
  define st where "st = k_sched k"
  define cur where "cur = current_task st"
  obtain c where c: "deref st cur = Some c" "heap st cur = Some c" "cur \<in> live st" "cur \<noteq> 0"
    "1 \<le> t_priority c" using wf unfolding st_def cur_def by (rule sched_wf_current)
  obtain i where first: "first_index (\<lambda>a. a = 0) (tasks st) = Some i"
    using slot first_index_None [of "\<lambda>a. a = 0" "tasks st"] by (auto simp: st_def)
  then have i: "i < length (tasks st)" "tasks st ! i = 0" using first_index_Some by force+
  have ne: "cur \<noteq> a" using new(2) c(3) by (auto simp: live_def st_def)
  obtain k' where run: "task_fork ksp k = Some ((task_count st + 1, ERR_OK), k')"
    and sched: "tasks (k_sched k') = (tasks st)[i := a]" "current_task (k_sched k') = cur"
      "init_task (k_sched k') = init_task st"
      "heap (k_sched k') = (heap st)(a \<mapsto> forked_child ksp tt ks st c, cur \<mapsto> forked_parent ksp c)"
    using task_fork_run [OF alloc, folded st_def, folded cur_def, OF c(1,4) ne, of ksp] first
    by (auto simp: add_slot_def)
  have "sched_wf (k_sched k')" "family_wf (k_sched k')" "live (k_sched k') = insert a (live st)"
    using fork_sched [OF wf fam, folded st_def, OF i new [folded st_def], folded cur_def, OF sched c(2)]
      c(5) by (simp_all add: forked_child_def forked_parent_def cur_def)
  then show ?thesis
    using run sched c ne
    by (intro exI [of _ k']) (auto simp: st_def cur_def forked_child_def forked_parent_def)
qed

text \<open>
  A fork with a full task array still reports success: the child is in no slot, so it never runs,
  and the caller counts a child that does not exist.
\<close>

lemma task_fork_full_array:
  assumes wf: "sched_wf (k_sched k)" and fam: "family_wf (k_sched k)"
    and full: "0 \<notin> set (tasks (k_sched k))"
    and alloc: "mem_kernel_alloc_page MEM_RW (k_mem k) = Some (\<lparr>r_addr = a, r_err = ERR_OK\<rparr>, m1)"
      "mem_kernel_alloc_page MEM_RW m1 = Some (\<lparr>r_addr = tt, r_err = ERR_OK\<rparr>, m2)"
      "mem_kernel_alloc_page MEM_RW m2 = Some (\<lparr>r_addr = ks, r_err = ERR_OK\<rparr>, m3)"
    and new: "a \<noteq> 0" "a \<notin> set (tasks (k_sched k))"
  shows "\<exists>k'. task_fork ksp k = Some ((task_count (k_sched k) + 1, ERR_OK), k') \<and>
    tasks (k_sched k') = tasks (k_sched k) \<and> a \<notin> live (k_sched k') \<and>
    unat (t_children_no (the (heap (k_sched k') (current_task (k_sched k))))) =
      Suc (card (children (k_sched k') (current_task (k_sched k))))"
proof -
  define st where "st = k_sched k"
  define cur where "cur = current_task st"
  obtain c where c: "deref st cur = Some c" "heap st cur = Some c" "cur \<in> live st" "cur \<noteq> 0"
    using wf unfolding st_def cur_def by (rule sched_wf_current)
  have first: "first_index (\<lambda>a. a = 0) (tasks st) = None"
    using full first_index_None [of "\<lambda>a. a = 0" "tasks st"] by (auto simp: st_def)
  have ne: "cur \<noteq> a" using new(2) c(3) by (auto simp: live_def st_def)
  obtain k' where run: "task_fork ksp k = Some ((task_count st + 1, ERR_OK), k')"
    and sched: "tasks (k_sched k') = tasks st" "init_task (k_sched k') = init_task st"
      "heap (k_sched k') = (heap st)(a \<mapsto> forked_child ksp tt ks st c, cur \<mapsto> forked_parent ksp c)"
    using task_fork_run [OF alloc, folded st_def, folded cur_def, OF c(1,4) ne, of ksp] first
    by (auto simp: add_slot_def)
  have live: "live (k_sched k') = live st" by (simp add: live_def sched(1))
  have a: "a \<notin> live st" using new by (simp add: live_def st_def)
  have "children (k_sched k') cur = children st cur"
  proof (intro set_eqI)
    fix x
    show "x \<in> children (k_sched k') cur \<longleftrightarrow> x \<in> children st cur"
      using a c sched
      by (cases "x = a"; cases "x = cur") (simp_all add: children_def live forked_parent_def)
  qed
  moreover have "unat (t_children_no c) = card (children st cur)"
    using fam c by (auto simp: family_wf_def st_def)
  moreover have "card (children st cur) \<le> 64" using children_card [OF wf] by (simp add: st_def)
  ultimately have "unat (t_children_no c + 1) = Suc (card (children (k_sched k') cur))"
    by (simp add: unat_add_no_overflow)
  then show ?thesis
    using run sched live a by (intro exI [of _ k']) (simp add: st_def cur_def forked_parent_def)
qed

subsection \<open>Exit\<close>

lemma task_unblock_frame:
  assumes "task_unblock pid state st = Some st'"
  shows "tasks st' = tasks st \<and> current_task st' = current_task st \<and> init_task st' = init_task st"
    "heap st b = Some t \<Longrightarrow> \<exists>x. heap st' b = Some (t\<lparr>t_state := x\<rparr>)"
proof -
  obtain found where found: "find_pid st pid (tasks st) = Some found" using assms
    by (auto simp: task_unblock_def bind_Some)
  have "st' = st \<or> (\<exists>a u. heap st a = Some u \<and> st' = store_task a (u\<lparr>t_state := TASK_RUNNING\<rparr>) st)"
  proof (cases found)
    case None
    with assms found show ?thesis by (simp add: task_unblock_def)
  next
    case (Some a)
    then obtain u where "deref st a = Some u" using assms found by (auto simp: task_unblock_def bind_Some)
    with assms found Some show ?thesis
      by (auto simp: task_unblock_def deref_def split: if_splits)
  qed
  then consider "st' = st" | a u where "heap st a = Some u" "st' = store_task a (u\<lparr>t_state := TASK_RUNNING\<rparr>) st"
    by blast
  note cases = this
  from cases show "tasks st' = tasks st \<and> current_task st' = current_task st \<and> init_task st' = init_task st"
    by cases simp_all
  show "\<exists>x. heap st' b = Some (t\<lparr>t_state := x\<rparr>)" if "heap st b = Some t"
    using cases
  proof cases
    case 1
    with that show ?thesis by (intro exI [of _ "t_state t"]) simp
  next
    case (2 a u)
    with that show ?thesis
      by (cases "a = b") (auto intro: exI [of _ "t_state t"] exI [of _ TASK_RUNNING])
  qed
qed

text \<open>
  C15. A task that gets to the end of \<open>task_exit\<close> has no children left; it is taken out of the array, its
  parent counts one child less, control goes to the initial task, and both invariants hold again: no
  task is left with a parent that is gone.
\<close>

theorem task_exit_success:
  assumes wf: "sched_wf (k_sched k)" and fam: "family_wf (k_sched k)"
    and ne: "current_task (k_sched k) \<noteq> init_task (k_sched k)"
    and run: "task_exit_attempt k = Some (Exited, k')"
  shows "children (k_sched k) (current_task (k_sched k)) = {} \<and>
    live (k_sched k') = live (k_sched k) - {current_task (k_sched k)} \<and>
    current_task (k_sched k') = init_task (k_sched k) \<and> sched_wf (k_sched k') \<and> family_wf (k_sched k')"
proof -
  define st where "st = k_sched k"
  define cur where "cur = current_task st"
  obtain c where c: "deref st cur = Some c" "heap st cur = Some c" "cur \<in> live st" "cur \<noteq> 0"
    using wf unfolding st_def cur_def by (rule sched_wf_current)
  have none: "t_children_no c = 0" and fin: "task_exit_finish k = Some k'"
    using run c by (auto simp: task_exit_attempt_def st_def cur_def bind_Some
        word_gt_0 split: if_splits)
  obtain p st1 st2 m where p: "deref st (t_parent c) = Some p"
    and st1: "st1 = store_task (t_parent c) (p\<lparr>t_children_no := t_children_no p - 1\<rparr>) st"
    and st2: "task_unblock (t_pid p) TASK_WAITING st1 = Some st2"
    and k': "k_sched k' = (task_remove cur st2)
      \<lparr>heap := (heap (task_remove cur st2))(cur := None), current_task := init_task (task_remove cur st2)\<rparr>"
    using fin c unfolding task_exit_finish_def
    by (auto simp: st_def cur_def bind_Some Let_def split: if_splits)
  note frame = task_unblock_frame [OF st2]
  obtain i where first: "first_index (\<lambda>a. a = cur) (tasks st) = Some i"
    using c(3) first_index_None [of "\<lambda>a. a = cur" "tasks st"] by (auto simp: live_def)
  then have i: "i < length (tasks st)" "tasks st ! i = cur" using first_index_Some by force+
  have rem: "task_remove cur st2 = st2\<lparr>tasks := (tasks st)[i := 0]\<rparr>"
    using first frame(1) st1 by (simp add: task_remove_def)
  have st': "tasks (k_sched k') = (tasks st)[i := 0]" "current_task (k_sched k') = init_task st"
    "init_task (k_sched k') = init_task st" using frame(1) by (simp_all add: k' rem st1)
  have pheap: "heap st (t_parent c) = Some p" using p by (simp add: deref_def split: if_splits)
  have heap: "\<exists>t. heap (k_sched k') b = Some t \<and>
        t_parent t = t_parent (the (heap st b)) \<and> t_priority t = t_priority (the (heap st b)) \<and>
        (b \<noteq> init_task st \<longrightarrow> 0 \<le> t_counter t) \<and>
        t_children_no t = t_children_no (the (heap st b)) - (if b = t_parent c then 1 else 0)"
    if b: "b \<in> live st" "b \<noteq> cur" for b
  proof -
    obtain u where u: "heap st b = Some u" "0 \<le> t_counter u"
      using sched_wf_live [OF wf, folded st_def, OF b(1)] b(2) by (auto simp: cur_def)
    let ?t = "if b = t_parent c then u\<lparr>t_children_no := t_children_no u - 1\<rparr> else u"
    have "heap st1 b = Some ?t" using u pheap by (auto simp: st1)
    from frame(2) [OF this] obtain x where "heap st2 b = Some (?t\<lparr>t_state := x\<rparr>)" by blast
    then show ?thesis using u b(2) by (auto simp: k' rem)
  qed
  note res = exit_sched [OF wf fam, folded st_def, OF c(3) _ c(2) none pheap i st' heap]
  have "children st cur = {}"
    using fam c none children_finite [of st cur] by (auto simp: family_wf_def st_def)
  then show ?thesis
    using res ne st' by (simp add: st_def cur_def)
qed

end
