(* ===== verification/Task_Witness.thy ===== *)
theory Task_Witness
  imports Task_Family Mem_User
begin

text \<open>
  Concrete machines for the theorems on \<open>task_fork\<close> and \<open>task_exit\<close> (\<^verbatim>\<open>kernel/task.c\<close>): a kernel table that
  is in place, some free frames, and a small or a full task array.
\<close>

subsection \<open>Three free frames\<close>

definition frames_left :: "u64 \<Rightarrow> u64 list" where
  "frames_left w = w # replicate 3964 (-1)"

lemma frames_get:
  "pmm_get (frames_left (-8)) = Some (0x80000, frames_left (-7))"
  "pmm_get (frames_left (-7)) = Some (0x81000, frames_left (-5))"
  "pmm_get (frames_left (-5)) = Some (0x82000, frames_left (-1))"
proof -
  have "pmm_get_off (-8) 0 = Some 0" "pmm_get_off (-7) 0 = Some 1" "pmm_get_off (-5) 0 = Some 2"
    by (simp_all add: pmm_get_off_step bit_simps)
  then show "pmm_get (frames_left (-8)) = Some (0x80000, frames_left (-7))"
    "pmm_get (frames_left (-7)) = Some (0x81000, frames_left (-5))"
    "pmm_get (frames_left (-5)) = Some (0x82000, frames_left (-1))"
    by (simp_all add: pmm_get_def pmm_get_from.simps frames_left_def MEM_MAP_SIZE_eq layout_simps)
qed

definition tables_in_place :: "mem_state \<Rightarrow> bool" where
  "tables_in_place s \<longleftrightarrow>
     (\<forall>l\<in>{0xfffffffffffff000, 0xffffffffffe00000, 0xffffffffc0000000}. cells s l = 3)"

lemma frame_levels:
  "kernel_levels [0, 0, 0, i] =
     [0xfffffffffffff000, 0xffffffffffe00000, 0xffffffffc0000000, 0xffffff8000000000]"
  by (simp add: kernel_levels_def mmu_get_next_kernel_level_def)

lemma frame_alloc:
  assumes get: "pmm_get (pmap s) = Some (p, m)" "p \<noteq> 0"
    and idx: "mmu_get_table_idx (MEM_PHYS_TO_VIRT p) = [0, 0, 0, i]"
    and tables: "tables_in_place s" and free: "cells s (0xffffff8000000000 + 8 * i) = 0"
  shows "\<exists>v. mem_kernel_alloc_page MEM_RW s =
     Some (\<lparr>r_addr = MEM_PHYS_TO_VIRT p, r_err = ERR_OK\<rparr>,
       set_cell (0xffffff8000000000 + 8 * i) v (s\<lparr>pmap := m\<rparr>))"
proof -
  have al: "alloc_levels (kernel_levels [0, 0, 0, i]) [0, 0, 0, i] [0, 1, 2] [0, 0, 0, p] (s\<lparr>pmap := m\<rparr>) =
      Some (ERR_OK, [0, 0, 0, p], s\<lparr>pmap := m\<rparr>)"
    using tables by (simp add: alloc_levels.simps frame_levels entry_at_def valid_bit bit_simps tables_in_place_def)
  have attr: "kernel_attr MEM_RW = Some 0x60000000000000"
    by (simp add: kernel_attr_def layout_simps)
  show ?thesis
    using alloc_page_eq [OF attr get idx [symmetric] refl refl al] free
    by (auto simp: frame_levels entry_at_def)
qed

lemma frame_idx:
  "mmu_get_table_idx 0xffff000000080000 = [0, 0, 0, 0x80]"
  "mmu_get_table_idx 0xffff000000081000 = [0, 0, 0, 0x81]"
  "mmu_get_table_idx 0xffff000000082000 = [0, 0, 0, 0x82]"
  by (simp_all add: mmu_get_table_idx_def drop_bit_eq_div)

definition three_frames :: mem_state where
  "three_frames = \<lparr>cells = \<lambda>a. if 0xffffffffc0000000 \<le> a then 3 else 0, pmap = frames_left (-8)\<rparr>"

lemma three_frames_cells:
  "tables_in_place three_frames" "cells three_frames 0xffffff8000000400 = 0"
  "cells three_frames 0xffffff8000000408 = 0" "cells three_frames 0xffffff8000000410 = 0"
  "pmap three_frames = frames_left (-8)"
  by (simp_all add: tables_in_place_def three_frames_def word_le_nat_alt)

lemma tables_in_place_frame [simp]:
  "tables_in_place (s\<lparr>pmap := m\<rparr>) = tables_in_place s"
  "a \<notin> {0xfffffffffffff000, 0xffffffffffe00000, 0xffffffffc0000000} \<Longrightarrow>
     tables_in_place (set_cell a v s) = tables_in_place s"
  by (auto simp: tables_in_place_def)

lemma three_frames_alloc:
  obtains m1 m2 m3 where
    "mem_kernel_alloc_page MEM_RW three_frames = Some (\<lparr>r_addr = 0xffff000000080000, r_err = ERR_OK\<rparr>, m1)"
    "mem_kernel_alloc_page MEM_RW m1 = Some (\<lparr>r_addr = 0xffff000000081000, r_err = ERR_OK\<rparr>, m2)"
    "mem_kernel_alloc_page MEM_RW m2 = Some (\<lparr>r_addr = 0xffff000000082000, r_err = ERR_OK\<rparr>, m3)"
proof -
  have virt: "MEM_PHYS_TO_VIRT 0x80000 = 0xffff000000080000"
    "MEM_PHYS_TO_VIRT 0x81000 = 0xffff000000081000" "MEM_PHYS_TO_VIRT 0x82000 = 0xffff000000082000"
    by (simp_all add: MEM_PHYS_TO_VIRT_def layout_simps)
  have "pmm_get (pmap three_frames) = Some (0x80000, frames_left (-7))"
    using frames_get three_frames_cells by simp
  then obtain v1 where 1: "mem_kernel_alloc_page MEM_RW three_frames =
      Some (\<lparr>r_addr = 0xffff000000080000, r_err = ERR_OK\<rparr>,
        set_cell 0xffffff8000000400 v1 (three_frames\<lparr>pmap := frames_left (-7)\<rparr>))"
    using frame_alloc [of three_frames "0x80000" _ "0x80", unfolded virt, OF _ _ frame_idx(1)]
    by (auto simp: three_frames_cells)
  let ?m1 = "set_cell 0xffffff8000000400 v1 (three_frames\<lparr>pmap := frames_left (-7)\<rparr>)"
  have "pmm_get (pmap ?m1) = Some (0x81000, frames_left (-5))" using frames_get by simp
  then obtain v2 where 2: "mem_kernel_alloc_page MEM_RW ?m1 =
      Some (\<lparr>r_addr = 0xffff000000081000, r_err = ERR_OK\<rparr>,
        set_cell 0xffffff8000000408 v2 (?m1\<lparr>pmap := frames_left (-5)\<rparr>))"
    using frame_alloc [of ?m1 "0x81000" _ "0x81", unfolded virt, OF _ _ frame_idx(2)]
    by (auto simp: three_frames_cells)
  let ?m2 = "set_cell 0xffffff8000000408 v2 (?m1\<lparr>pmap := frames_left (-5)\<rparr>)"
  have "pmm_get (pmap ?m2) = Some (0x82000, frames_left (-1))" using frames_get by simp
  then obtain v3 where 3: "mem_kernel_alloc_page MEM_RW ?m2 =
      Some (\<lparr>r_addr = 0xffff000000082000, r_err = ERR_OK\<rparr>,
        set_cell 0xffffff8000000410 v3 (?m2\<lparr>pmap := frames_left (-1)\<rparr>))"
    using frame_alloc [of ?m2 "0x82000" _ "0x82", unfolded virt, OF _ _ frame_idx(3)]
    by (auto simp: three_frames_cells)
  from that [OF 1 2 3] show thesis .
qed

subsection \<open>Forking\<close>

lemma init_family: "a \<noteq> 0 \<Longrightarrow> family_wf (sched_init a)"
  by (auto simp: family_wf_def children_def live_def sched_init_def)

theorem task_fork_success_witness:
  "\<exists>k'. task_fork 0 \<lparr>k_mem = three_frames, k_sched = sched_init 0x1000\<rparr> = Some ((2, ERR_OK), k') \<and>
    live (k_sched k') = {0xffff000000080000, 0x1000}"
proof -
  obtain m1 m2 m3 where m: "mem_kernel_alloc_page MEM_RW three_frames = Some (\<lparr>r_addr = 0xffff000000080000, r_err = ERR_OK\<rparr>, m1)"
    "mem_kernel_alloc_page MEM_RW m1 = Some (\<lparr>r_addr = 0xffff000000081000, r_err = ERR_OK\<rparr>, m2)"
    "mem_kernel_alloc_page MEM_RW m2 = Some (\<lparr>r_addr = 0xffff000000082000, r_err = ERR_OK\<rparr>, m3)"
    by (rule three_frames_alloc)
  let ?k = "\<lparr>k_mem = three_frames, k_sched = sched_init 0x1000\<rparr>"
  have "sched_wf (k_sched ?k)" "family_wf (k_sched ?k)" using sched_wf_init init_family by simp_all
  moreover have "0 \<in> set (tasks (k_sched ?k))" "0xffff000000080000 \<notin> set (tasks (k_sched ?k))"
    "live (sched_init 0x1000) = {0x1000}" "task_count (sched_init 0x1000) = 1"
    by (auto simp: sched_init_def layout_simps live_def)
  ultimately show ?thesis
    using task_fork_success [of ?k "0xffff000000080000" m1 "0xffff000000081000" m2 "0xffff000000082000" m3 0] m
    by auto
qed

definition full_slots :: "u64 list" where
  "full_slots = map (\<lambda>i. of_nat (4096 * (i + 1))) [0..<64]"

definition full_tasks :: sched where
  "full_tasks = \<lparr>heap = \<lambda>a. if a \<in> set full_slots then
       Some ((the (heap (sched_init 0x1000) 0x1000))
         \<lparr>t_parent := (if a = 0x1000 then 0 else 0x1000), t_children_no := (if a = 0x1000 then 63 else 0)\<rparr>)
     else None,
     tasks = full_slots, current_task = 0x1000, task_count = 64, init_task = 0x1000\<rparr>"

lemma full_slots_facts:
  "length full_slots = 64" "distinct full_slots" "0 \<notin> set full_slots" "full_slots ! 0 = 0x1000"
  "0x1000 \<in> set full_slots" "0xffff000000080000 \<notin> set full_slots"
proof -
  show len: "length full_slots = 64" by (simp add: full_slots_def)
  show "distinct full_slots"
    unfolding full_slots_def distinct_map
    by (auto intro!: inj_onI simp: word_unat_eq_iff unat_of_nat unat_word_ariths)
  show "0 \<notin> set full_slots" "0xffff000000080000 \<notin> set full_slots"
    by (auto simp: full_slots_def word_unat_eq_iff unat_of_nat unat_word_ariths)
  show first: "full_slots ! 0 = 0x1000" by (simp add: full_slots_def)
  show "0x1000 \<in> set full_slots" using nth_mem [of 0 full_slots] len first by simp
qed

lemma full_live: "live full_tasks = set full_slots"
  using full_slots_facts(3) by (auto simp: live_def full_tasks_def)

lemma full_wf: "sched_wf full_tasks" "family_wf full_tasks"
proof -
  note f = full_slots_facts
  have "filter (\<lambda>a. a \<noteq> 0) full_slots = full_slots"
    using f(3) by (auto intro!: filter_True)
  then show "sched_wf full_tasks"
    unfolding sched_wf_def full_live
    using f by (simp add: full_tasks_def layout_simps sched_init_def)
  have kids: "children full_tasks 0x1000 = set full_slots - {0x1000}"
    unfolding children_def full_live by (auto simp: full_tasks_def)
  have "children full_tasks a = {}" if "a \<noteq> 0x1000" for a
    unfolding children_def full_live using that by (auto simp: full_tasks_def)
  moreover have "card (set full_slots - {0x1000}) = 63"
    using f distinct_card [of full_slots] by simp
  ultimately show "family_wf full_tasks"
    unfolding family_wf_def full_live using kids f by (auto simp: full_tasks_def)
qed

lemma task_fork_full_array_witness:
  "\<exists>k'. task_fork 0 \<lparr>k_mem = three_frames, k_sched = full_tasks\<rparr> = Some ((65, ERR_OK), k') \<and>
    0xffff000000080000 \<notin> live (k_sched k')"
proof -
  obtain m1 m2 m3 where m: "mem_kernel_alloc_page MEM_RW three_frames = Some (\<lparr>r_addr = 0xffff000000080000, r_err = ERR_OK\<rparr>, m1)"
    "mem_kernel_alloc_page MEM_RW m1 = Some (\<lparr>r_addr = 0xffff000000081000, r_err = ERR_OK\<rparr>, m2)"
    "mem_kernel_alloc_page MEM_RW m2 = Some (\<lparr>r_addr = 0xffff000000082000, r_err = ERR_OK\<rparr>, m3)"
    by (rule three_frames_alloc)
  let ?k = "\<lparr>k_mem = three_frames, k_sched = full_tasks\<rparr>"
  have "0 \<notin> set (tasks (k_sched ?k))" "0xffff000000080000 \<notin> set (tasks (k_sched ?k))"
    "task_count full_tasks = 64"
    using full_slots_facts by (simp_all add: full_tasks_def)
  then show ?thesis
    using task_fork_full_array [of ?k "0xffff000000080000" m1 "0xffff000000081000" m2 "0xffff000000082000" m3 0]
      m full_wf by auto
qed

subsection \<open>Exiting\<close>

lemma for_entries_skip:
  "(\<And>i. i \<in> set is \<Longrightarrow> f i s = Some (ERR_OK, s)) \<Longrightarrow> for_entries is f s = Some (ERR_OK, s)"
  by (induction "is") auto

definition exit_kernel :: kernel where
  "exit_kernel =
     (let t = the (heap (sched_init 0x1000) 0x1000) in
      \<lparr>k_mem = \<lparr>cells = \<lambda>a. if 0xffffff8000000000 \<le> a then 3 else 0, pmap = frames_left (-1)\<rparr>,
       k_sched = \<lparr>heap = [0x1000 \<mapsto> t\<lparr>t_children_no := 1, t_state := TASK_WAITING\<rparr>,
           0xffff000000082000 \<mapsto> t\<lparr>t_pid := 2, t_parent := 0x1000, t_tran_table := 0x80000,
             t_kernel_stack := 0xffff000000081000\<rparr>],
         tasks = [0x1000, 0xffff000000082000] @ replicate 62 0, current_task = 0xffff000000082000,
         task_count = 2, init_task = 0x1000\<rparr>\<rparr>)"

lemma exit_sched_simps:
  "tasks (k_sched exit_kernel) = [0x1000, 0xffff000000082000] @ replicate 62 0"
  "current_task (k_sched exit_kernel) = 0xffff000000082000" "init_task (k_sched exit_kernel) = 0x1000"
  "live (k_sched exit_kernel) = {0x1000, 0xffff000000082000}"
  by (auto simp: exit_kernel_def live_def Let_def)

lemma exit_wf: "sched_wf (k_sched exit_kernel)" "family_wf (k_sched exit_kernel)"
proof -
  show "sched_wf (k_sched exit_kernel)"
    unfolding sched_wf_def exit_sched_simps
    by (auto simp: exit_kernel_def sched_init_def Let_def layout_simps filter_replicate)
  have "children (k_sched exit_kernel) a = (if a = 0x1000 then {0xffff000000082000} else {})" for a
    unfolding children_def exit_sched_simps by (auto simp: exit_kernel_def Let_def)
  then show "family_wf (k_sched exit_kernel)"
    unfolding family_wf_def exit_sched_simps by (auto simp: exit_kernel_def sched_init_def Let_def)
qed

lemma frame_free:
  assumes "pmm_wf (pmap s)" "tables_in_place s" "cells s (0xffffff8000000000 + 8 * i) = 3"
    and v: "mmu_get_table_idx v = [0, 0, 0, i]" "MEM_VIRT_TO_PHYS v = p" "p \<in> pmm_pages"
      "p < p + PAGESIZE"
  shows "\<exists>m. free_or_panic v s = Some ((set_cell (0xffffff8000000000 + 8 * i) 0 s)\<lparr>pmap := m\<rparr>) \<and> pmm_wf m"
proof -
  obtain m where m: "pmm_free p (pmap s) = Some m" "pmm_wf m" using pmm.free_spec assms(1) v(3) by blast
  have "pmm_free_range p (p + PAGESIZE) (pmap s) = Some m"
    using m v(4) by (simp add: pmm_free_range.simps [of p] pmm_free_range.simps [of "p + PAGESIZE"])
  then show ?thesis
    using assms(2,3) v m(2)
    by (auto simp: free_or_panic_def mem_kernel_free_page_def frame_levels entry_at_def valid_bit
        block_bit bit_simps kernel_free_leaf_def tables_in_place_def)
qed

lemma low_pages: "0x80000 \<in> pmm_pages" "0x81000 \<in> pmm_pages" "0x82000 \<in> pmm_pages"
proof -
  have "page_addr 0 = 0x80000" "page_addr 1 = 0x81000" "page_addr 2 = 0x82000"
    by (simp_all add: page_addr_def layout_simps)
  then show "0x80000 \<in> pmm_pages" "0x81000 \<in> pmm_pages" "0x82000 \<in> pmm_pages"
    by (auto simp: pmm_pages_def MEM_MAP_SIZE_eq intro: image_eqI [where x = 0] image_eqI [where x = 1]
        image_eqI [where x = 2])
qed

lemma exit_runs: "\<exists>k'. task_exit_attempt exit_kernel = Some (Exited, k')"
proof -
  define s where "s = k_mem exit_kernel"
  have cells: "cells s = (\<lambda>a. if 0xffffff8000000000 \<le> a then 3 else 0)" and pm: "pmap s = frames_left (-1)"
    by (simp_all add: s_def exit_kernel_def Let_def)
  have wf: "pmm_wf (pmap s)" by (simp add: pm frames_left_def pmm_wf_def MEM_MAP_SIZE_eq)
  have table: "MEM_PHYS_TO_VIRT 0x80000 = 0xffff000000080000"
    by (simp add: MEM_PHYS_TO_VIRT_def layout_simps)
  have "cells s (entry_at 0xffff000000080000 i) = 0" if "i \<in> set entries" for i
  proof -
    have "i \<in> of_nat ` {0..<512}" using that unfolding entries_def set_map set_upt .
    then obtain n where n: "i = of_nat n" "n < 512" by (elim imageE) simp
    then have "unat (entry_at 0xffff000000080000 i) = 0xffff000000080000 + 8 * n"
      by (simp add: entry_at_def unat_word_ariths unat_of_nat)
    then show ?thesis using n by (simp add: cells word_le_nat_alt)
  qed
  then have teardown: "mem_table_teardown 0xffff000000080000 s = Some (ERR_OK, s)"
    unfolding mem_table_teardown_def by (intro for_entries_skip) (simp add: Let_def)
  have tables: "tables_in_place s" by (simp add: tables_in_place_def cells word_le_nat_alt)
  have phys: "MEM_VIRT_TO_PHYS 0xffff000000080000 = 0x80000"
    "MEM_VIRT_TO_PHYS 0xffff000000081000 = 0x81000" "MEM_VIRT_TO_PHYS 0xffff000000082000 = 0x82000"
    by (simp_all add: MEM_VIRT_TO_PHYS_def layout_simps)
  have up: "(0x80000 :: u64) < 0x80000 + PAGESIZE" "(0x81000 :: u64) < 0x81000 + PAGESIZE"
    "(0x82000 :: u64) < 0x82000 + PAGESIZE" by (simp_all add: layout_simps)
  have c1: "cells s (0xffffff8000000000 + 8 * 0x80) = 3" by (simp add: cells)
  obtain n1 where f1: "free_or_panic 0xffff000000080000 s =
      Some ((set_cell (0xffffff8000000000 + 8 * 0x80) 0 s)\<lparr>pmap := n1\<rparr>)" "pmm_wf n1"
    using frame_free [OF wf tables c1 frame_idx(1) phys(1) low_pages(1) up(1)] by blast
  let ?s1 = "(set_cell (0xffffff8000000000 + 8 * 0x80) 0 s)\<lparr>pmap := n1\<rparr>"
  have 1: "pmm_wf (pmap ?s1)" "tables_in_place ?s1" "cells ?s1 (0xffffff8000000000 + 8 * 0x81) = 3"
    using f1(2) tables by (simp_all add: cells)
  obtain n2 where f2: "free_or_panic 0xffff000000081000 ?s1 =
      Some ((set_cell (0xffffff8000000000 + 8 * 0x81) 0 ?s1)\<lparr>pmap := n2\<rparr>)" "pmm_wf n2"
    using frame_free [OF 1 frame_idx(2) phys(2) low_pages(2) up(2)] by blast
  let ?s2 = "(set_cell (0xffffff8000000000 + 8 * 0x81) 0 ?s1)\<lparr>pmap := n2\<rparr>"
  have 2: "pmm_wf (pmap ?s2)" "tables_in_place ?s2" "cells ?s2 (0xffffff8000000000 + 8 * 0x82) = 3"
    using f2(2) tables by (simp_all add: cells)
  obtain n3 where f3: "free_or_panic 0xffff000000082000 ?s2 =
      Some ((set_cell (0xffffff8000000000 + 8 * 0x82) 0 ?s2)\<lparr>pmap := n3\<rparr>)"
    using frame_free [OF 2 frame_idx(3) phys(3) low_pages(3) up(3)] by blast
  define t where "t = the (heap (sched_init 0x1000) 0x1000)"
  define c where "c = t\<lparr>t_pid := 2, t_parent := 0x1000, t_tran_table := 0x80000,
      t_kernel_stack := 0xffff000000081000\<rparr>"
  define p where "p = t\<lparr>t_children_no := 1, t_state := TASK_WAITING\<rparr>"
  have st: "heap (k_sched exit_kernel) = [0x1000 \<mapsto> p, 0xffff000000082000 \<mapsto> c]"
    by (simp add: exit_kernel_def p_def c_def t_def Let_def)
  have cur: "deref (k_sched exit_kernel) 0xffff000000082000 = Some c"
    "deref (k_sched exit_kernel) 0x1000 = Some p"
    by (simp_all add: deref_def st)
  have fields: "t_parent c = 0x1000" "t_children_no c = 0" "t_tran_table c = 0x80000"
    "t_kernel_stack c = 0xffff000000081000" by (simp_all add: c_def t_def sched_init_def)
  have "\<exists>st2. task_unblock (t_pid p) TASK_WAITING
      (store_task 0x1000 (p\<lparr>t_children_no := t_children_no p - 1\<rparr>) (k_sched exit_kernel)) = Some st2"
    by (simp add: task_unblock_def exit_sched_simps)
  then have "\<exists>k'. task_exit_finish exit_kernel = Some k'"
    unfolding task_exit_finish_def
    by (auto simp: Let_def cur fields teardown [unfolded s_def] table f1(1) [unfolded s_def, simplified]
        f2(1) [unfolded s_def, simplified] f3 [unfolded s_def, simplified] exit_sched_simps(2))
  then show ?thesis
    unfolding task_exit_attempt_def by (auto simp: cur fields exit_sched_simps(2))
qed

theorem task_exit_success_witness:
  "\<exists>k'. task_exit_attempt exit_kernel = Some (Exited, k') \<and> live (k_sched k') = {0x1000} \<and>
    family_wf (k_sched k')"
proof -
  obtain k' where k': "task_exit_attempt exit_kernel = Some (Exited, k')" using exit_runs by blast
  have "current_task (k_sched exit_kernel) \<noteq> init_task (k_sched exit_kernel)"
    by (simp add: exit_sched_simps)
  from task_exit_success [OF exit_wf this k'] k' show ?thesis by (auto simp: exit_sched_simps)
qed

end
