(* ===== verification/Elf_Load.thy ===== *)
theory Elf_Load
  imports Elf Mem_User
begin

text \<open>
  Properties of the ELF loader (\<^verbatim>\<open>kernel/elf.c\<close>): which headers are accepted, what a loaded page
  holds, and what is not loaded.
\<close>

subsection \<open>The header\<close>

text \<open>
  For every buffer that holds the identification, type and machine fields, \<open>elf_validate\<close> returns:
  it accepts exactly a 64-bit AArch64 executable with the ELF magic, and otherwise reports the first of
  magic, type and machine that is wrong.
\<close>

lemma elf_validate_result:
  assumes "20 \<le> length ehdr"
  shows "elf_validate ehdr = Some
    (if take 4 ehdr \<noteq> 0x7f # ascii ''ELF'' then ERR_ELF_INV
     else if le_val (take 2 (drop 16 ehdr)) \<noteq> 2 then ERR_ELF_UNS
     else if le_val (take 2 (drop 18 ehdr)) \<noteq> 0xb7 then ERR_ELF_MAC
     else ERR_OK)"
proof -
  have "4 < length (take 16 ehdr)" "4 < length (0x7f # zstr ''ELF'')"
    using assms by (simp_all add: zstr_def ascii_def)
  then obtain d where d: "memcmp_k (take 16 ehdr) (0x7f # zstr ''ELF'') 4 = Some d"
    "d = 0 \<longleftrightarrow> take 4 (take 16 ehdr) = take 4 (0x7f # zstr ''ELF'')"
    using memcmp_k_zero by blast
  have "take 4 (take 16 ehdr) = take 4 ehdr" by simp
  moreover have "take 4 (0x7f # zstr ''ELF'') = 0x7f # ascii ''ELF''"
    by (simp add: zstr_def ascii_def)
  ultimately have "d = 0 \<longleftrightarrow> take 4 ehdr = 0x7f # ascii ''ELF''" using d(2) by simp
  with d(1) assms show ?thesis
    by (simp add: elf_validate_def e_type_def e_machine_def rd_le_in layout_simps)
qed

definition elf_header :: bytes where
  "elf_header = 0x7f # ascii ''ELF'' @ replicate 12 0 @ [2, 0, 0xb7, 0]"

lemma elf_validate_result_witness: "elf_validate elf_header = Some ERR_OK"
  by (subst elf_validate_result) (simp_all add: elf_header_def ascii_def)

subsection \<open>A loaded page\<close>

lemma page_offset_nat:
  assumes "4096 dvd unat v" "unat v \<le> unat d" "unat d < unat v + 4096"
  shows "unat ((d :: u64) AND 0xfff) = unat d - unat v"
proof -
  have "d AND 0xfff = take_bit 12 d"
    by (simp add: take_bit_eq_mask mask_eq_exp_minus_1)
  then have "unat (d AND 0xfff) = take_bit 12 (unat d)" by (simp only: unsigned_take_bit_eq)
  also have "\<dots> = unat d mod 4096" by (simp add: take_bit_eq_mod)
  also have "\<dots> = unat d - unat v"
  proof -
    obtain q r where q: "unat v = 4096 * q" "unat d = unat v + r" "r < 4096"
      using assms by (metis dvd_def le_iff_add nat_add_left_cancel_less)
    then have "unat d mod 4096 = (4096 * q + r) mod 4096" by simp
    also have "\<dots> = r" using q(3) by simp
    finally show ?thesis using q(2) by simp
  qed
  finally show ?thesis .
qed

lemma offset_in_page:
  assumes "k < 4096" "p < 4096" "n + p \<le> 4096"
  shows "unat ((page + of_nat k) - (page + of_nat p) :: u64) < n \<longleftrightarrow> p \<le> k \<and> k < p + n"
    "p \<le> k \<Longrightarrow> unat ((page + of_nat k) - (page + of_nat p) :: u64) = k - p"
proof -
  have diff: "(page + of_nat k) - (page + of_nat p) = (of_nat k - of_nat p :: u64)" by simp
  show "p \<le> k \<Longrightarrow> unat ((page + of_nat k) - (page + of_nat p) :: u64) = k - p"
    unfolding diff using assms by (simp add: unat_of_nat flip: of_nat_diff)
  show "unat ((page + of_nat k) - (page + of_nat p) :: u64) < n \<longleftrightarrow> p \<le> k \<and> k < p + n"
  proof (cases "p \<le> k")
    case True
    with \<open>p \<le> k \<Longrightarrow> _\<close> show ?thesis by auto
  next
    case False
    have "unat (of_nat k :: u64) = k" "unat (of_nat p :: u64) = p"
      using assms by (simp_all add: unat_of_nat)
    then have "unat (of_nat k - of_nat p :: u64) = k + 2 ^ 64 - p"
      using False by (simp add: unat_sub_if_size word_size)
    then show ?thesis unfolding diff using False assms by simp
  qed
qed

text \<open>
  C12. Loading one page of a segment: the page allocated holds, at every address the file covers, the
  byte of the file, and at every other address of the page the byte that was there before, which may
  be the data of another process: the page is not cleared.
\<close>

theorem elf_load_page_content:
  assumes alloc: "mem_kernel_alloc_page MEM_RW s = Some (\<lparr>r_addr = page, r_err = ERR_OK\<rparr>, s1)"
    and map: "mem_user_map_page table vaddr (MEM_VIRT_TO_PHYS page) perm MEM_NORM s1 = Some (ERR_OK, s2)"
    and aligned: "4096 dvd unat vaddr" "unat vaddr + 4096 < 2 ^ 64"
    and vend: "vaddr_end = p_vaddr ph + p_filesz ph" "unat (p_vaddr ph) + unat (p_filesz ph) < 2 ^ 64"
    and inside: "unat vaddr < unat vaddr_end" "unat (p_vaddr ph) < unat vaddr + 4096"
    and bytes: "unat (p_offset ph) + unat (p_filesz ph) \<le> length file" "length file < 2 ^ 64"
  shows "\<exists>s'. elf_load_page file table perm ph vaddr vaddr_end s = Some (ERR_OK, s') \<and>
    (\<forall>k<4096. get_byte (page + of_nat k) s' =
       (if unat (p_vaddr ph) \<le> unat vaddr + k \<and> unat vaddr + k < unat vaddr_end
        then file ! (unat (p_offset ph) + (unat vaddr + k - unat (p_vaddr ph)))
        else get_byte (page + of_nat k) s2))"
proof -
  let ?ds = "if vaddr > p_vaddr ph then vaddr else p_vaddr ph"
  let ?de = "if vaddr + PAGESIZE < vaddr_end then vaddr + PAGESIZE else vaddr_end"
  define v pv po fs where "v = unat vaddr" "pv = unat (p_vaddr ph)" "po = unat (p_offset ph)"
    "fs = unat (p_filesz ph)"
  note nats = this
  define ds de where "ds = max v pv" "de = min (v + 4096) (pv + fs)"
  have ve: "unat vaddr_end = pv + fs" using vend by (simp add: unat_add_no_overflow nats)
  have vp: "unat (vaddr + PAGESIZE) = v + 4096"
    using aligned(2) by (simp add: unat_add_no_overflow nats layout_simps)
  have start: "unat ?ds = ds" by (auto simp: ds_de_def nats word_less_nat_alt)
  have stop: "unat ?de = de" using vp ve by (auto simp: ds_de_def word_less_nat_alt)
  have order: "v \<le> ds" "pv \<le> ds" "ds \<le> de" "ds < v + 4096" "de \<le> v + 4096" "de \<le> pv + fs"
    using inside ve by (auto simp: ds_de_def nats)
  have len: "unat (?de - ?ds) = de - ds"
    using start stop order by (simp add: unat_sub word_le_nat_alt)
  have off: "unat (?ds AND (PAGESIZE - 1)) = ds - v"
    using page_offset_nat [of vaddr ?ds] start order aligned(1) by (simp add: nats layout_simps)
  then have page_off: "?ds AND (PAGESIZE - 1) = of_nat (ds - v)"
    by (metis of_nat_unat_word)
  have "p_offset ph + ?ds - p_vaddr ph = p_offset ph + (?ds - p_vaddr ph)" by simp
  moreover have "unat (?ds - p_vaddr ph) = ds - pv"
    using start order by (simp add: unat_sub word_le_nat_alt nats)
  moreover have "unat (p_offset ph + (?ds - p_vaddr ph)) = unat (p_offset ph) + unat (?ds - p_vaddr ph)"
    using bytes order calculation by (intro unat_add_no_overflow) (simp add: nats)
  ultimately have foff: "unat (p_offset ph + ?ds - p_vaddr ph) = po + (ds - pv)"
    by (simp only: nats)
  have fits: "po + (ds - pv) + (de - ds) \<le> length file" using bytes order by (simp add: nats)
  let ?data = "take (de - ds) (drop (po + (ds - pv)) file)"
  have "elf_load_page file table perm ph vaddr vaddr_end s =
      Some (ERR_OK, put_bytes (page + of_nat (ds - v)) ?data s2)"
    using alloc map fits by (simp add: elf_load_page_def foff len page_off rd_bytes_def)
  moreover have "get_byte (page + of_nat k) (put_bytes (page + of_nat (ds - v)) ?data s2) =
      (if pv \<le> v + k \<and> v + k < pv + fs then file ! (po + (v + k - pv)) else get_byte (page + of_nat k) s2)"
    if k: "k < 4096" for k
  proof -
    have data: "length ?data = de - ds" using fits by simp
    have get: "get_byte (page + of_nat k) (put_bytes (page + of_nat (ds - v)) ?data s2) =
      (if unat (page + of_nat k - (page + of_nat (ds - v))) < length ?data
       then ?data ! unat (page + of_nat k - (page + of_nat (ds - v)))
       else get_byte (page + of_nat k) s2)"
      using data order by (intro get_put_bytes) simp
    have inside: "unat (page + of_nat k - (page + of_nat (ds - v))) < length ?data \<longleftrightarrow>
        ds - v \<le> k \<and> k < ds - v + (de - ds)"
      unfolding data using k order by (intro offset_in_page(1)) auto
    have range: "pv \<le> v + k \<and> v + k < pv + fs \<longleftrightarrow> ds - v \<le> k \<and> k < ds - v + (de - ds)"
      using order k by (auto simp: ds_de_def)
    show ?thesis
    proof (cases "ds - v \<le> k \<and> k < ds - v + (de - ds)")
      case True
      have "unat (page + of_nat k - (page + of_nat (ds - v))) = k - (ds - v)"
        using True k order by (intro offset_in_page(2) [where n = 0]) auto
      moreover have "po + (ds - pv) + (k - (ds - v)) = po + (v + k - pv)"
        using conjunct1 [OF True] order(1-4) by arith
      then have "?data ! (k - (ds - v)) = file ! (po + (v + k - pv))"
      proof -
        have "k - (ds - v) < de - ds" using True order(3) by arith
        moreover have "po + (ds - pv) \<le> length file" using fits by simp
        ultimately show ?thesis using \<open>_ = po + (v + k - pv)\<close> by (simp only: nth_take nth_drop)
      qed
      ultimately show ?thesis using True get inside range by (simp only: if_True)
    next
      case False
      with get inside range show ?thesis by (simp only: if_False)
    qed
  qed
  ultimately show ?thesis unfolding ve nats(1) [symmetric] nats(2) [symmetric] nats(3) [symmetric] by blast
qed

definition small_phdr :: elf64_phdr where
  "small_phdr = \<lparr>p_type = 1, p_flags = 5, p_offset = 2, p_vaddr = 0x10, p_filesz = 3, p_memsz = 3\<rparr>"

theorem elf_load_page_content_witness:
  "\<exists>s'. elf_load_page [1, 2, 3, 4, 5, 6] user_root MEM_EX small_phdr 0 0x13 user_machine = Some (ERR_OK, s') \<and>
    get_byte 0xffff000000080010 s' = 3 \<and> get_byte 0xffff000000080012 s' = 5"
proof -
  obtain s1 where alloc: "mem_kernel_alloc_page MEM_RW user_machine =
      Some (\<lparr>r_addr = 0xffff000000080000, r_err = ERR_OK\<rparr>, s1)"
    and s1: "s1 = set_cell 0xffffff8000000400 0x60000000080423
      (user_machine\<lparr>pmap := (-1) # replicate 3964 (-1)\<rparr>)"
    using first_frame_alloc [OF user_pmap] by (simp add: user_machine_def one_frame_def word_le_nat_alt)
  have cells1: "cells s1 a = cells user_machine a" if "a \<noteq> 0xffffff8000000400" for a
    using that by (simp add: s1)
  have "\<exists>s2. mem_user_map_page user_root 0 (MEM_VIRT_TO_PHYS 0xffff000000080000) MEM_EX MEM_NORM s1 =
      Some (ERR_OK, s2)"
    by (simp add: mem_user_map_page_def user_attr_def user_map_levels.simps one_frame_idx
        user_root_def entry_at_def cells1 user_cells user_tables user_valid)
  then obtain s2 where map: "mem_user_map_page user_root 0 (MEM_VIRT_TO_PHYS 0xffff000000080000)
      MEM_EX MEM_NORM s1 = Some (ERR_OK, s2)" by blast
  obtain s' where load: "elf_load_page [1, 2, 3, 4, 5, 6] user_root MEM_EX small_phdr 0 0x13 user_machine =
      Some (ERR_OK, s')"
    and content: "\<forall>k<4096. get_byte (0xffff000000080000 + of_nat k) s' =
      (if unat (p_vaddr small_phdr) \<le> unat (0 :: u64) + k \<and> unat (0 :: u64) + k < unat (0x13 :: u64)
       then [1, 2, 3, 4, 5, 6] ! (unat (p_offset small_phdr) + (unat (0 :: u64) + k - unat (p_vaddr small_phdr)))
       else get_byte (0xffff000000080000 + of_nat k) s2)"
    using elf_load_page_content [OF alloc map, of "0x13" small_phdr "[1, 2, 3, 4, 5, 6]"]
    by (auto simp: small_phdr_def)
  show ?thesis
    using load content [rule_format, of 16] content [rule_format, of 18] by (simp add: small_phdr_def)
qed

subsection \<open>What is not loaded\<close>

lemma memsz_fields:
  "p_type (ph\<lparr>p_memsz := n\<rparr>) = p_type ph" "p_flags (ph\<lparr>p_memsz := n\<rparr>) = p_flags ph"
  "p_offset (ph\<lparr>p_memsz := n\<rparr>) = p_offset ph" "p_vaddr (ph\<lparr>p_memsz := n\<rparr>) = p_vaddr ph"
  "p_filesz (ph\<lparr>p_memsz := n\<rparr>) = p_filesz ph"
  by simp_all

lemma elf_load_pages_memsz:
  assumes "elf_load_pages file table perm ph vaddr vaddr_end s = Some r"
  shows "\<forall>n. elf_load_pages file table perm (ph\<lparr>p_memsz := n\<rparr>) vaddr vaddr_end s = Some r"
proof (rule elf_load_pages.raw_induct [where P = "\<lambda>file table perm ph vaddr vaddr_end s r.
    \<forall>n. elf_load_pages file table perm (ph\<lparr>p_memsz := n\<rparr>) vaddr vaddr_end s = Some r", OF _ assms],
    goal_cases)
  case (1 f fl table perm ph vaddr vaddr_end s r)
  have same: "elf_load_page fl table perm (ph\<lparr>p_memsz := n\<rparr>) vaddr vaddr_end s =
      elf_load_page fl table perm ph vaddr vaddr_end s" for n
    unfolding elf_load_page_def memsz_fields by (rule refl)
  show ?case
  proof
    fix n
    show "elf_load_pages fl table perm (ph\<lparr>p_memsz := n\<rparr>) vaddr vaddr_end s = Some r"
      using 1(2)
      by (subst elf_load_pages.simps) (auto simp: same bind_Some split: if_splits dest!: 1(1))
  qed
qed

text \<open>
  Loading a segment does not depend on \<open>p_memsz\<close>: the part of a segment behind its file image
  (the zero-initialised data) is neither mapped nor cleared.
\<close>

lemma elf_memsz_ignored:
  "elf_load_segment file table (ph\<lparr>p_memsz := n\<rparr>) s = elf_load_segment file table ph s"
proof -
  have "elf_load_pages file table perm (ph\<lparr>p_memsz := n\<rparr>) v e s =
      elf_load_pages file table perm ph v e s" for perm v e
  proof (cases "elf_load_pages file table perm ph v e s")
    case (Some r)
    then show ?thesis using elf_load_pages_memsz by metis
  next
    case None
    have "elf_load_pages file table perm (ph\<lparr>p_memsz := n\<rparr>) v e s \<noteq> Some r" for r
    proof
      assume "elf_load_pages file table perm (ph\<lparr>p_memsz := n\<rparr>) v e s = Some r"
      from elf_load_pages_memsz [OF this, rule_format, of "p_memsz ph"] None show False by simp
    qed
    then show ?thesis using None by (cases "elf_load_pages file table perm (ph\<lparr>p_memsz := n\<rparr>) v e s") auto
  qed
  then show ?thesis unfolding elf_load_segment_def memsz_fields by (simp split: option.split)
qed

end
