(* ===== verification/Msgbuf.thy ===== *)
theory Msgbuf
  imports Fifo Kernel_String Task_Life
begin

text \<open>
  Message buffers (\<^verbatim>\<open>kernel/msgbuf.c\<close>): named buffers, connections that map a sender's pages into the
  receiver's address space, and a ring of pending senders per buffer.

  The linked list of nodes is the list of their buffer arrays; a pointer to a buffer is the pair of
  its node and its index, and is followed in the state at hand. An \<open>int\<close> id is an \<open>int\<close>, converted to
  \<open>size_t\<close> where the code does so. A page that becomes a node is not cleared: what is found in it is
  the argument \<open>stale\<close>, which gives for the address of the page its \<open>next\<close> pointer and its buffers.

  The system calls block inside loops. As with the message queues, one attempt is a function; a task
  that blocked repeats it, with the same pointers, on the state it finds when it runs again.
\<close>

definition MSB_NAME_MAX :: nat where [layout_simps]: "MSB_NAME_MAX = 32"
definition QUEUE_SIZE :: nat where [layout_simps]: "QUEUE_SIZE = 8"
definition MAX_CONN :: nat where [layout_simps]: "MAX_CONN = 8"
definition NODE_BUF_CNT :: nat where [layout_simps]: "NODE_BUF_CNT = 18"
definition MSB_NOBLOCK :: u32 where [layout_simps]: "MSB_NOBLOCK = 1"

record conn =
  conn_id :: int
  conn_addr :: u64

record msgbuf =
  mb_name :: bytes
  mb_addr :: u64
  mb_owner :: u64
  mb_size :: u64
  mb_recv_queue :: "int list"
  mb_recv_queue_pos :: u64
  mb_connections :: "conn list"

type_synonym msgbuf_nodes = "msgbuf list list"
type_synonym msgbuf_ptr = "nat \<times> nat"

record msb_state =
  mb_nodes :: msgbuf_nodes
  mb_kernel :: kernel

abbreviation mb_mem :: "msb_state \<Rightarrow> mem_state" where
  "mb_mem st \<equiv> k_mem (mb_kernel st)"

abbreviation mb_sched :: "msb_state \<Rightarrow> sched" where
  "mb_sched st \<equiv> k_sched (mb_kernel st)"

definition set_mem :: "mem_state \<Rightarrow> msb_state \<Rightarrow> msb_state" where
  "set_mem m st = st\<lparr>mb_kernel := (mb_kernel st)\<lparr>k_mem := m\<rparr>\<rparr>"

definition set_sched :: "sched \<Rightarrow> msb_state \<Rightarrow> msb_state" where
  "set_sched s st = st\<lparr>mb_kernel := (mb_kernel st)\<lparr>k_sched := s\<rparr>\<rparr>"

definition get_buf :: "msgbuf_ptr \<Rightarrow> msgbuf_nodes \<Rightarrow> msgbuf option" where
  "get_buf p nodes = Option.bind (rd_at nodes (fst p)) (\<lambda>bufs. rd_at bufs (snd p))"

definition set_buf :: "msgbuf_ptr \<Rightarrow> msgbuf \<Rightarrow> msgbuf_nodes \<Rightarrow> msgbuf_nodes" where
  "set_buf p b nodes = nodes[fst p := (nodes ! fst p)[snd p := b]]"

definition upd_buf :: "msgbuf_ptr \<Rightarrow> msgbuf \<Rightarrow> msb_state \<Rightarrow> msb_state" where
  "upd_buf p b st = st\<lparr>mb_nodes := set_buf p b (mb_nodes st)\<rparr>"

text \<open>\<open>task_current()\<close>, and a task reached through a pointer.\<close>

definition current :: "msb_state \<Rightarrow> task option" where
  "current st = deref (mb_sched st) (current_task (mb_sched st))"

definition table_of :: "u64 \<Rightarrow> msb_state \<Rightarrow> u64 option" where
  "table_of owner st =
     map_option (\<lambda>t. MEM_PHYS_TO_VIRT (t_tran_table t)) (deref (mb_sched st) owner)"

subsection \<open>The receive queue\<close>

definition msgbuf_queue_pop :: "msgbuf \<Rightarrow> (int \<times> msgbuf) option" where
  "msgbuf_queue_pop b =
     (let pos = mb_recv_queue_pos b in do {
        mid \<leftarrow> rd_at (mb_recv_queue b) (unat pos);
        if mid = -1 then Some (-1, b)
        else Some (mid, b\<lparr>mb_recv_queue := (mb_recv_queue b)[unat pos := -1],
          mb_recv_queue_pos := (pos + 1) mod of_nat QUEUE_SIZE\<rparr>) })"

text \<open>The loop over the positions \<open>i\<close>, taken modulo the size.\<close>

fun queue_push_loop :: "nat list \<Rightarrow> int \<Rightarrow> int list \<Rightarrow> (bool \<times> int list) option" where
  "queue_push_loop [] send_id q = Some (False, q)"
| "queue_push_loop (i # is) send_id q = do {
     x \<leftarrow> rd_at q (i mod QUEUE_SIZE);
     if x = -1 then Some (True, q[i mod QUEUE_SIZE := send_id]) else queue_push_loop is send_id q }"

definition msgbuf_queue_push :: "msgbuf \<Rightarrow> int \<Rightarrow> (bool \<times> msgbuf) option" where
  "msgbuf_queue_push b send_id =
     map_option (\<lambda>(done, q). (done, b\<lparr>mb_recv_queue := q\<rparr>))
       (queue_push_loop [unat (mb_recv_queue_pos b)..<
          unat (of_nat QUEUE_SIZE + mb_recv_queue_pos b)] send_id (mb_recv_queue b))"

subsection \<open>Finding buffers\<close>

text \<open>The conversion of an \<open>int\<close> to \<open>size_t\<close>.\<close>

definition id_size :: "int \<Rightarrow> nat" where
  "id_size mid = unat (of_int mid :: u64)"

text \<open>\<open>None\<close> inside is the null pointer; an empty list of nodes is a null dereference.\<close>

definition msgbuf_get :: "int \<Rightarrow> msgbuf_nodes \<Rightarrow> msgbuf_ptr option option" where
  "msgbuf_get mid nodes =
     (let list_idx = id_size mid div NODE_BUF_CNT; buffer_idx = id_size mid mod NODE_BUF_CNT in
      if nodes = [] then None
      else if length nodes \<le> list_idx then Some None
      else do {
        b \<leftarrow> get_buf (list_idx, buffer_idx) nodes;
        c \<leftarrow> rd_at (mb_name b) 0;
        Some (if c = 0 then None else Some (list_idx, buffer_idx)) })"

fun find_name :: "bytes \<Rightarrow> nat \<Rightarrow> msgbuf list \<Rightarrow> int option" where
  "find_name name i [] = Some (-1)"
| "find_name name i (b # bs) = do {
     d \<leftarrow> strncmp_k (mb_name b) name (of_nat MSB_NAME_MAX);
     if d = 0 then Some (int i) else find_name name (i + 1) bs }"

text \<open>The loop over the nodes returns after the first one.\<close>

definition msgbuf_get_id :: "bytes \<Rightarrow> msgbuf_nodes \<Rightarrow> int option" where
  "msgbuf_get_id name nodes = Option.bind (rd_at nodes 0) (find_name name 0)"

subsection \<open>Allocation\<close>

text \<open>One node: whether the name is in use, and the first free id, if there was none before.\<close>

fun alloc_scan :: "bytes \<Rightarrow> nat \<Rightarrow> msgbuf list \<Rightarrow> int \<Rightarrow> (bool \<times> int) option" where
  "alloc_scan name i [] mid = Some (False, mid)"
| "alloc_scan name i (b # bs) mid = do {
     d \<leftarrow> strncmp_k name (mb_name b) (of_nat MSB_NAME_MAX);
     if d = 0 then Some (True, -1)
     else if mid = -1 then do {
       len \<leftarrow> strlen_k (mb_name b);
       alloc_scan name (i + 1) bs (if len = 0 then int i else mid) }
     else alloc_scan name (i + 1) bs mid }"

text \<open>
  The loop over the nodes. A node appended keeps the \<open>next\<close> pointer found in its page; the model stops
  (\<open>None\<close>) when that is not null, since the code then follows a wild pointer.
\<close>

partial_function (option) alloc_nodes ::
    "(u64 \<Rightarrow> u64 \<times> msgbuf list) \<Rightarrow> bytes \<Rightarrow> nat \<Rightarrow> int \<Rightarrow> msb_state \<Rightarrow>
     ((kern_err + int) \<times> msb_state) option" where
  "alloc_nodes stale name list_idx mid st =
     Option.bind (rd_at (mb_nodes st) list_idx) (\<lambda>bufs.
     Option.bind (alloc_scan name (list_idx * NODE_BUF_CNT) bufs mid) (\<lambda>(hit, mid').
       if hit then Some (Inl ERR_MSB_EXS, st)
       else if list_idx + 1 < length (mb_nodes st) then alloc_nodes stale name (list_idx + 1) mid' st
       else if mid' = -1 then
         Option.bind (mem_kernel_alloc_page MEM_RW (mb_mem st)) (\<lambda>(addr_r, m).
           if r_err addr_r \<noteq> ERR_OK then Some (Inl (r_err addr_r), set_mem m st)
           else if fst (stale (r_addr addr_r)) \<noteq> 0 then None
           else alloc_nodes stale name (list_idx + 1) mid'
             (set_mem m st\<lparr>mb_nodes := mb_nodes st @ [snd (stale (r_addr addr_r))]\<rparr>))
       else Some (Inr mid', st)))"

definition msgbuf_alloc ::
    "(u64 \<Rightarrow> u64 \<times> msgbuf list) \<Rightarrow> bytes \<Rightarrow> msb_state \<Rightarrow> ((kern_err + int) \<times> msb_state) option" where
  "msgbuf_alloc stale name st = do {
     (err, st0) \<leftarrow> (if mb_nodes st = [] then do {
         (addr_r, m) \<leftarrow> mem_kernel_alloc_page MEM_RW (mb_mem st);
         if r_err addr_r \<noteq> ERR_OK then Some (r_err addr_r, set_mem m st)
         else Some (ERR_OK, set_mem m st\<lparr>mb_nodes := [snd (stale (r_addr addr_r))]\<rparr>) }
       else Some (ERR_OK, st));
     if err \<noteq> ERR_OK then Some (Inl err, st0)
     else do {
       (r, st1) \<leftarrow> alloc_nodes stale name 0 (-1) st0;
       case r of Inl e \<Rightarrow> Some (Inl e, st1)
       | Inr mid \<Rightarrow> do {
           let p = (nat mid div NODE_BUF_CNT, nat mid mod NODE_BUF_CNT);
           b \<leftarrow> get_buf p (mb_nodes st1);
           (len, nm) \<leftarrow> strlcpy_k (mb_name b) name MSB_NAME_MAX;
           if MSB_NAME_MAX < len
           then Some (Inl ERR_MSB_NAM, upd_buf p (b\<lparr>mb_name := nm[0 := 0]\<rparr>) st1)
           else Some (Inr mid, upd_buf p (b\<lparr>mb_name := nm\<rparr>) st1) } } }"

text \<open>
  The pages of the sending buffer, one after the other; a failed mapping returns the error of the
  page allocation before it, which is \<open>ERR_OK\<close>, with a null address.
\<close>

fun buffer_alloc_pages :: "u64 \<Rightarrow> u64 \<Rightarrow> nat \<Rightarrow> nat \<Rightarrow> mem_state \<Rightarrow> (mem_r_addr \<times> mem_state) option" where
  "buffer_alloc_pages table vaddr i 0 m = Some (\<lparr>r_addr = vaddr, r_err = ERR_OK\<rparr>, m)"
| "buffer_alloc_pages table vaddr i (Suc n) m = do {
     (page_r, m1) \<leftarrow> mem_kernel_alloc_page MEM_RW m;
     if r_err page_r \<noteq> ERR_OK then Some (\<lparr>r_addr = 0, r_err = r_err page_r\<rparr>, m1)
     else do {
       (err, m2) \<leftarrow> mem_user_map_page table (vaddr + of_nat i * PAGESIZE)
                    (MEM_VIRT_TO_PHYS (r_addr page_r)) MEM_RW MEM_NORM m1;
       if err \<noteq> ERR_OK then Some (\<lparr>r_addr = 0, r_err = r_err page_r\<rparr>, m2)
       else buffer_alloc_pages table vaddr (i + 1) n m2 } }"

definition buffer_alloc :: "u64 \<Rightarrow> msb_state \<Rightarrow> (mem_r_addr \<times> msb_state) option" where
  "buffer_alloc sz st = do {
     table \<leftarrow> table_of (current_task (mb_sched st)) st;
     let page_cnt = unat (MEM_SIZE_TO_PAGES sz);
     vaddr \<leftarrow> mem_user_find_empty table 0x200000 page_cnt (mb_mem st);
     if vaddr = 0 then Some (\<lparr>r_addr = 0, r_err = ERR_MEM_OOM\<rparr>, st)
     else map_option (\<lambda>(r, m). (r, set_mem m st)) (buffer_alloc_pages table vaddr 0 page_cnt (mb_mem st)) }"

subsection \<open>Connections\<close>

fun conn_scan :: "int \<Rightarrow> nat \<Rightarrow> conn list \<Rightarrow> nat option \<Rightarrow> kern_err + nat" where
  "conn_scan recv_id i [] found = (case found of None \<Rightarrow> Inl ERR_MSB_COF | Some j \<Rightarrow> Inr j)"
| "conn_scan recv_id i (c # cs) found =
     (let found' = (if found = None \<and> conn_id c = -1 then Some i else found) in
      if conn_id c = recv_id then Inl ERR_MSB_COE else conn_scan recv_id (i + 1) cs found')"

definition conn_alloc :: "msgbuf \<Rightarrow> int \<Rightarrow> kern_err + nat" where
  "conn_alloc b recv_id = conn_scan recv_id 0 (mb_connections b) None"

definition conn_get :: "msgbuf \<Rightarrow> int \<Rightarrow> nat option" where
  "conn_get b recv_id = first_index (\<lambda>c. conn_id c = recv_id) (mb_connections b)"

text \<open>Unmapping the pages of a connection; anything but success panics.\<close>

fun conn_unmap :: "u64 \<Rightarrow> u64 \<Rightarrow> nat \<Rightarrow> nat \<Rightarrow> mem_state \<Rightarrow> mem_state option" where
  "conn_unmap table addr p 0 m = Some m"
| "conn_unmap table addr p (Suc n) m =
     (let (addr_r, m') = mem_user_unmap_page table (addr + of_nat p * PAGESIZE) m in
      if r_err addr_r \<noteq> ERR_OK then None else conn_unmap table addr (p + 1) n m')"

text \<open>
  After the search loop \<open>conn\<close> points to the connection found or, when there is none, to the last
  one; it is never null, so the error for a missing connection is never returned.
\<close>

definition conn_free :: "msgbuf_ptr \<Rightarrow> int \<Rightarrow> msb_state \<Rightarrow> (kern_err \<times> msb_state) option" where
  "conn_free p recv_id st = do {
     b \<leftarrow> get_buf p (mb_nodes st);
     let i = (case conn_get b recv_id of Some i \<Rightarrow> i | None \<Rightarrow> MAX_CONN - 1);
     c \<leftarrow> rd_at (mb_connections b) i;
     receiver \<leftarrow> msgbuf_get (conn_id c) (mb_nodes st);
     let page_cnt = unat (MEM_SIZE_TO_PAGES (mb_size b));
     m \<leftarrow> (if page_cnt = 0 then Some (mb_mem st)
          else do {
            rp \<leftarrow> receiver;
            r \<leftarrow> get_buf rp (mb_nodes st);
            table \<leftarrow> table_of (mb_owner r) st;
            conn_unmap table (conn_addr c) 0 page_cnt (mb_mem st) });
     Some (ERR_OK, upd_buf p
       (b\<lparr>mb_connections := (mb_connections b)[i := \<lparr>conn_id = -1, conn_addr = 0\<rparr>]\<rparr>)
       (set_mem m st)) }"

subsection \<open>Create, connect, close\<close>

text \<open>\<open>*send_buf\<close> is the third component, \<open>None\<close> when it is not written.\<close>

definition fresh_msgbuf :: "u64 \<Rightarrow> msgbuf \<Rightarrow> msgbuf" where
  "fresh_msgbuf owner b = b\<lparr>mb_owner := owner, mb_recv_queue := replicate QUEUE_SIZE (-1),
     mb_connections := replicate MAX_CONN \<lparr>conn_id = -1, conn_addr = 0\<rparr>\<rparr>"

definition msgbuf_create ::
    "(u64 \<Rightarrow> u64 \<times> msgbuf list) \<Rightarrow> bytes \<Rightarrow> u64 \<Rightarrow> bool \<Rightarrow> msb_state \<Rightarrow>
     ((int \<times> kern_err \<times> u64 option) \<times> msb_state) option" where
  "msgbuf_create stale name sz send_buf st = do {
     name_len \<leftarrow> strlen_k name;
     if name_len = 0 \<or> MSB_NAME_MAX < name_len then Some ((-1, ERR_MSB_NAM, None), st)
     else if send_buf \<and> sz = 0 then Some ((-1, ERR_MSB_SIZ, None), st)
     else do {
       (r, st1) \<leftarrow> msgbuf_alloc stale name st;
       case r of Inl e \<Rightarrow> Some ((-1, e, None), st1)
       | Inr mid \<Rightarrow> do {
           found \<leftarrow> msgbuf_get mid (mb_nodes st1);
           p \<leftarrow> found;
           b \<leftarrow> get_buf p (mb_nodes st1);
           let b1 = fresh_msgbuf (current_task (mb_sched st1)) b;
           let st2 = upd_buf p b1 st1;
           if send_buf then do {
             (addr_r, st3) \<leftarrow> buffer_alloc sz st2;
             if r_err addr_r \<noteq> ERR_OK then Some ((-1, r_err addr_r, None), st3)
             else Some ((mid, ERR_OK, Some (r_addr addr_r)),
               upd_buf p (b1\<lparr>mb_addr := r_addr addr_r, mb_size := sz\<rparr>) st3) }
           else Some ((mid, ERR_OK, None), upd_buf p (b1\<lparr>mb_addr := 0, mb_size := 0\<rparr>) st2) } } }"

text \<open>Undoing the mappings \<open>mapped[j..]\<close>; the results are ignored.\<close>

fun connect_undo :: "u64 \<Rightarrow> u64 \<Rightarrow> nat \<Rightarrow> nat \<Rightarrow> mem_state \<Rightarrow> mem_state" where
  "connect_undo table buf j 0 m = m"
| "connect_undo table buf j (Suc n) m =
     connect_undo table buf (j + 1) n (snd (mem_user_unmap_page table (buf + of_nat j * PAGESIZE) m))"

text \<open>The mapping loop; the physical address is that of the sender's first page in every round.\<close>

fun connect_map ::
    "u64 \<Rightarrow> u64 \<Rightarrow> u64 \<Rightarrow> u64 \<Rightarrow> nat \<Rightarrow> nat \<Rightarrow> mem_state \<Rightarrow> (kern_err \<times> mem_state) option" where
  "connect_map send_table send_addr recv_table recv_buf i 0 m = Some (ERR_OK, m)"
| "connect_map send_table send_addr recv_table recv_buf i (Suc n) m = do {
     let paddr = MEM_VIRT_TO_PHYS (mem_user_get_kaddr send_table send_addr m);
     (err, m1) \<leftarrow> mem_user_map_page recv_table (recv_buf + of_nat i * PAGESIZE) paddr MEM_RW MEM_NORM m;
     if err \<noteq> ERR_OK then Some (err, connect_undo recv_table recv_buf 0 i m1)
     else connect_map send_table send_addr recv_table recv_buf (i + 1) n m1 }"

definition msgbuf_connect :: "int \<Rightarrow> bytes \<Rightarrow> msb_state \<Rightarrow> ((int \<times> kern_err) \<times> msb_state) option" where
  "msgbuf_connect mid name st = do {
     sender \<leftarrow> msgbuf_get mid (mb_nodes st);
     case sender of None \<Rightarrow> Some ((-1, ERR_MSB_FND), st)
     | Some sp \<Rightarrow> do {
         receiver_id \<leftarrow> msgbuf_get_id name (mb_nodes st);
         if receiver_id = -1 then Some ((-1, ERR_MSB_FND), st)
         else do {
           found \<leftarrow> msgbuf_get receiver_id (mb_nodes st);
           rp \<leftarrow> found;
           s \<leftarrow> get_buf sp (mb_nodes st);
           r \<leftarrow> get_buf rp (mb_nodes st);
           case conn_alloc s receiver_id of Inl e \<Rightarrow> Some ((-1, e), st)
           | Inr i \<Rightarrow> do {
               send_table \<leftarrow> table_of (mb_owner s) st;
               recv_table \<leftarrow> table_of (mb_owner r) st;
               let page_cnt = unat (MEM_SIZE_TO_PAGES (mb_size s));
               recv_buf \<leftarrow> mem_user_find_empty recv_table 0x200000 page_cnt (mb_mem st);
               if recv_buf = 0 then Some ((-1, ERR_MEM_OOM), st)
               else do {
                 (err, m) \<leftarrow> connect_map send_table (mb_addr s) recv_table recv_buf 0 page_cnt (mb_mem st);
                 if err \<noteq> ERR_OK then Some ((-1, err), set_mem m st)
                 else Some ((receiver_id, ERR_OK), upd_buf sp (s\<lparr>mb_connections :=
                   (mb_connections s)[i := \<lparr>conn_id = receiver_id, conn_addr = recv_buf\<rparr>]\<rparr>)
                   (set_mem m st)) } } } } }"

text \<open>\<open>!msgbuf || msgbuf->owner->pid != task_current()->pid\<close>, for a buffer that was looked up.\<close>

definition not_mine :: "msgbuf_ptr option \<Rightarrow> msb_state \<Rightarrow> bool option" where
  "not_mine found st = (case found of None \<Rightarrow> Some True
     | Some p \<Rightarrow> do {
         b \<leftarrow> get_buf p (mb_nodes st);
         owner \<leftarrow> deref (mb_sched st) (mb_owner b);
         me \<leftarrow> current st;
         Some (t_pid owner \<noteq> t_pid me) })"

fun close_conns :: "msgbuf_ptr \<Rightarrow> nat list \<Rightarrow> msb_state \<Rightarrow> msb_state option" where
  "close_conns p [] st = Some st"
| "close_conns p (i # is) st = do {
     b \<leftarrow> get_buf p (mb_nodes st);
     c \<leftarrow> rd_at (mb_connections b) i;
     if conn_id c = -1 then close_conns p is st
     else do { (err, st1) \<leftarrow> conn_free p (conn_id c) st; close_conns p is st1 } }"

fun close_pages :: "u64 \<Rightarrow> u64 \<Rightarrow> nat \<Rightarrow> nat \<Rightarrow> mem_state \<Rightarrow> (kern_err \<times> mem_state) option" where
  "close_pages table addr p 0 m = Some (ERR_OK, m)"
| "close_pages table addr p (Suc n) m = do {
     let vaddr = addr + of_nat p * PAGESIZE;
     let kaddr = mem_user_get_kaddr table vaddr m;
     let m1 = snd (mem_user_unmap_page table vaddr m);
     (err, m2) \<leftarrow> mem_kernel_free_page kaddr m1;
     if err \<noteq> ERR_OK then Some (err, m2) else close_pages table addr (p + 1) n m2 }"

definition msgbuf_close :: "int \<Rightarrow> msb_state \<Rightarrow> (kern_err \<times> msb_state) option" where
  "msgbuf_close mid st = do {
     found \<leftarrow> msgbuf_get mid (mb_nodes st);
     refused \<leftarrow> not_mine found st;
     if refused then Some (ERR_MSB_FND, st)
     else do {
       p \<leftarrow> found;
       b \<leftarrow> get_buf p (mb_nodes st);
       (err, st1) \<leftarrow> (if mb_addr b \<noteq> 0 then do {
           st0 \<leftarrow> close_conns p [0..<MAX_CONN] st;
           table \<leftarrow> table_of (current_task (mb_sched st0)) st0;
           (e, m) \<leftarrow> close_pages table (mb_addr b) 0 (unat (MEM_SIZE_TO_PAGES (mb_size b))) (mb_mem st0);
           Some (e, set_mem m st0) }
         else Some (ERR_OK, st));
       if err \<noteq> ERR_OK then Some (err, st1)
       else do {
         b1 \<leftarrow> get_buf p (mb_nodes st1);
         nm \<leftarrow> memset_k (mb_name b1) 0 MSB_NAME_MAX;
         Some (ERR_OK, upd_buf p (b1\<lparr>mb_name := nm\<rparr>) st1) } } }"

definition msgbuf_disconnect :: "int \<Rightarrow> int \<Rightarrow> msb_state \<Rightarrow> (kern_err \<times> msb_state) option" where
  "msgbuf_disconnect send_id recv_id st = do {
     sender \<leftarrow> msgbuf_get send_id (mb_nodes st);
     receiver \<leftarrow> msgbuf_get recv_id (mb_nodes st);
     refused \<leftarrow> not_mine sender st;
     if refused \<or> receiver = None then Some (ERR_MSB_FND, st)
     else do { sp \<leftarrow> sender; conn_free sp recv_id st } }"

subsection \<open>Receive, reply, send\<close>

text \<open>
  A receive returns an id, an error and what is written to \<open>*recv_buf\<close>, or blocks. A send returns, or
  blocks because the queue is full and tries again, or has sent and waits: then \<open>ERR_OK\<close> is returned
  when the task runs again.
\<close>

datatype msb_recv_outcome =
    Recv_ret int kern_err u64
  | Recv_blocked "(u64 \<times> u64) option"

datatype msb_send_outcome =
    Send_ret kern_err
  | Send_blocked "(u64 \<times> u64) option"
  | Send_waiting "(u64 \<times> u64) option"

text \<open>
  The loop of \<open>msgbuf_recv\<close> up to the next block: senders that are gone or not connected any more are
  passed over. The bound is one more than the size of the queue; each round but the last clears a slot.
\<close>

fun recv_loop :: "nat \<Rightarrow> int \<Rightarrow> msgbuf_ptr \<Rightarrow> msgbuf_nodes \<Rightarrow> ((int \<times> u64) option \<times> msgbuf_nodes) option" where
  "recv_loop 0 mid p nodes = None"
| "recv_loop (Suc n) mid p nodes = do {
     b \<leftarrow> get_buf p nodes;
     (send_id, b') \<leftarrow> msgbuf_queue_pop b;
     let nodes' = set_buf p b' nodes;
     if send_id = -1 then Some (None, nodes')
     else do {
       sender \<leftarrow> msgbuf_get send_id nodes';
       case sender of None \<Rightarrow> recv_loop n mid p nodes'
       | Some sp \<Rightarrow> do {
           s \<leftarrow> get_buf sp nodes';
           case conn_get s mid of None \<Rightarrow> recv_loop n mid p nodes'
           | Some i \<Rightarrow> do {
               c \<leftarrow> rd_at (mb_connections s) i;
               Some (Some (send_id, conn_addr c), nodes') } } } }"

definition msgbuf_recv_attempt :: "int \<Rightarrow> msgbuf_ptr \<Rightarrow> msb_state \<Rightarrow> (msb_recv_outcome \<times> msb_state) option" where
  "msgbuf_recv_attempt mid p st = do {
     (r, nodes') \<leftarrow> recv_loop (QUEUE_SIZE + 1) mid p (mb_nodes st);
     let st1 = st\<lparr>mb_nodes := nodes'\<rparr>;
     case r of Some (send_id, addr) \<Rightarrow> Some (Recv_ret send_id ERR_OK addr, st1)
     | None \<Rightarrow> do {
         me \<leftarrow> current st1;
         (sw, s) \<leftarrow> task_block (t_pid me) TASK_BLOCKED (mb_sched st1);
         Some (Recv_blocked sw, set_sched s st1) } }"

definition msgbuf_recv :: "int \<Rightarrow> msb_state \<Rightarrow> (msb_recv_outcome \<times> msb_state) option" where
  "msgbuf_recv mid st = do {
     found \<leftarrow> msgbuf_get mid (mb_nodes st);
     refused \<leftarrow> not_mine found st;
     if refused then Some (Recv_ret (-1) ERR_MSB_FND 0, st)
     else do { p \<leftarrow> found; msgbuf_recv_attempt mid p st } }"

text \<open>\<open>task_unblock(receiver->owner->pid, TASK_BLOCKED)\<close>\<close>

definition unblock_owner :: "msgbuf_ptr \<Rightarrow> msb_state \<Rightarrow> msb_state option" where
  "unblock_owner p st = do {
     b \<leftarrow> get_buf p (mb_nodes st);
     owner \<leftarrow> deref (mb_sched st) (mb_owner b);
     s \<leftarrow> task_unblock (t_pid owner) TASK_BLOCKED (mb_sched st);
     Some (set_sched s st) }"

definition msgbuf_reply :: "int \<Rightarrow> int \<Rightarrow> msb_state \<Rightarrow> (kern_err \<times> msb_state) option" where
  "msgbuf_reply mid reply_id st = do {
     sender \<leftarrow> msgbuf_get mid (mb_nodes st);
     receiver \<leftarrow> msgbuf_get reply_id (mb_nodes st);
     refused \<leftarrow> not_mine sender st;
     case receiver of None \<Rightarrow> Some (ERR_MSB_FND, st)
     | Some rp \<Rightarrow> if refused then Some (ERR_MSB_FND, st)
         else map_option (Pair ERR_OK) (unblock_owner rp st) }"

definition block_current :: "msb_state \<Rightarrow> ((u64 \<times> u64) option \<times> msb_state) option" where
  "block_current st = do {
     me \<leftarrow> current st;
     (sw, s) \<leftarrow> task_block (t_pid me) TASK_BLOCKED (mb_sched st);
     Some (sw, set_sched s st) }"

definition msgbuf_send_attempt ::
    "int \<Rightarrow> msgbuf_ptr \<Rightarrow> u32 \<Rightarrow> msb_state \<Rightarrow> (msb_send_outcome \<times> msb_state) option" where
  "msgbuf_send_attempt send_id rp flags st = do {
     b \<leftarrow> get_buf rp (mb_nodes st);
     (done, b') \<leftarrow> msgbuf_queue_push b send_id;
     let st1 = upd_buf rp b' st;
     if \<not> done then map_option (\<lambda>(sw, s). (Send_blocked sw, s)) (block_current st1)
     else do {
       st2 \<leftarrow> unblock_owner rp st1;
       if flags AND MSB_NOBLOCK \<noteq> 0 then Some (Send_ret ERR_OK, st2)
       else map_option (\<lambda>(sw, s). (Send_waiting sw, s)) (block_current st2) } }"

definition msgbuf_send :: "int \<Rightarrow> int \<Rightarrow> u32 \<Rightarrow> msb_state \<Rightarrow> (msb_send_outcome \<times> msb_state) option" where
  "msgbuf_send send_id recv_id flags st = do {
     sender \<leftarrow> msgbuf_get send_id (mb_nodes st);
     receiver \<leftarrow> msgbuf_get recv_id (mb_nodes st);
     refused \<leftarrow> not_mine sender st;
     case receiver of None \<Rightarrow> Some (Send_ret ERR_MSB_FND, st)
     | Some rp \<Rightarrow> if refused then Some (Send_ret ERR_MSB_FND, st)
         else do {
           sp \<leftarrow> sender;
           s \<leftarrow> get_buf sp (mb_nodes st);
           if conn_get s recv_id = None then Some (Send_ret ERR_MSB_COD, st)
           else msgbuf_send_attempt send_id rp flags st } }"

end
