(* ===== verification/Msgbuf_Queue.thy ===== *)
theory Msgbuf_Queue
  imports Msgbuf
begin

text \<open>
  The receive queue of a message buffer (\<^verbatim>\<open>kernel/msgbuf.c\<close>: \<open>_msgbuf_queue_push\<close>, \<open>_msgbuf_queue_pop\<close> and
  the loop of \<open>msgbuf_recv\<close>): it implements the bounded queue of \<^theory_text>\<open>Fifo\<close>, and a receive takes the
  oldest sender that is still connected.
\<close>

subsection \<open>The ring\<close>

definition queue_ring :: "msgbuf \<Rightarrow> int list" where
  "queue_ring b = ring 8 (mb_recv_queue b) (unat (mb_recv_queue_pos b)) 8"

definition queue_contents :: "msgbuf \<Rightarrow> int list" where
  "queue_contents b = takeWhile (\<lambda>x. x \<noteq> -1) (queue_ring b)"

definition queue_wf :: "msgbuf \<Rightarrow> bool" where
  "queue_wf b \<longleftrightarrow> length (mb_recv_queue b) = 8 \<and> unat (mb_recv_queue_pos b) < 8 \<and>
     queue_ring b = queue_contents b @ replicate (8 - length (queue_contents b)) (-1)"

definition queue_put :: "int \<Rightarrow> msgbuf \<Rightarrow> msgbuf option" where
  "queue_put send_id b = (case msgbuf_queue_push b send_id of
     Some (True, b') \<Rightarrow> Some b' | _ \<Rightarrow> None)"

definition queue_get :: "msgbuf \<Rightarrow> (int \<times> msgbuf) option" where
  "queue_get b = (case msgbuf_queue_pop b of
     Some (mid, b') \<Rightarrow> if mid = -1 then None else Some (mid, b') | None \<Rightarrow> None)"

lemma queue_contents_bound: "length (queue_contents b) \<le> 8"
  using length_takeWhile_le [of "\<lambda>x. x \<noteq> -1" "queue_ring b"]
  by (simp add: queue_contents_def queue_ring_def)

lemma queue_contents_valid: "m \<in> set (queue_contents b) \<Longrightarrow> m \<noteq> -1"
  by (auto simp: queue_contents_def dest: set_takeWhileD)

lemma queue_push_loop_eq:
  assumes "\<forall>i\<in>set is. i mod 8 < length q"
  shows "queue_push_loop is m q = (case first_index (\<lambda>i. q ! (i mod 8) = -1) is of
      None \<Rightarrow> Some (False, q) | Some j \<Rightarrow> Some (True, q[(is ! j) mod 8 := m]))"
  using assms
  by (induction "is") (auto simp: QUEUE_SIZE_def split: option.splits)

lemma queue_nth: "k < 8 \<Longrightarrow> mb_recv_queue b ! ((unat (mb_recv_queue_pos b) + k) mod 8) = queue_ring b ! k"
  by (simp add: queue_ring_def ring_nth)

lemma push_positions:
  assumes "unat (pos :: u64) < 8"
  shows "unat (of_nat QUEUE_SIZE + pos) = unat pos + 8"
  using assms by (simp add: QUEUE_SIZE_def unat_add_no_overflow)

text \<open>The position at which the ring ends, and pushing there.\<close>

lemma msgbuf_queue_push_eq:
  assumes wf: "queue_wf b"
  defines "n \<equiv> length (queue_contents b)" and "pos \<equiv> unat (mb_recv_queue_pos b)"
  shows "msgbuf_queue_push b m =
    (if n < 8 then Some (True, b\<lparr>mb_recv_queue := (mb_recv_queue b)[(pos + n) mod 8 := m]\<rparr>)
     else Some (False, b))"
proof -
  let ?q = "mb_recv_queue b"
  have len: "length ?q = 8" and p8: "pos < 8"
    and ring: "queue_ring b = queue_contents b @ replicate (8 - n) (-1)"
    using wf by (simp_all add: queue_wf_def n_def pos_def)
  have nth: "?q ! ([pos..<pos + 8] ! k mod 8) = queue_ring b ! k" if "k < 8" for k
    using that queue_nth [of k b] by (simp add: pos_def)
  have "first_index (\<lambda>i. ?q ! (i mod 8) = -1) [pos..<pos + 8] = (if n < 8 then Some n else None)"
  proof (cases "n < 8")
    case True
    have "first_index (\<lambda>i. ?q ! (i mod 8) = -1) [pos..<pos + 8] = Some n"
    proof (rule first_index_eqI)
      show "?q ! ([pos..<pos + 8] ! n mod 8) = -1"
        using nth [OF True] True by (simp add: ring nth_append n_def)
      fix j assume j: "j < n"
      then have "queue_ring b ! j = queue_contents b ! j" by (simp add: ring nth_append n_def)
      moreover have "queue_contents b ! j \<noteq> -1"
        using j queue_contents_valid nth_mem by (metis n_def)
      ultimately show "?q ! ([pos..<pos + 8] ! j mod 8) \<noteq> -1" using nth [of j] j True by simp
    qed (use True in simp)
    with True show ?thesis by simp
  next
    case False
    then have n8: "n = 8" using queue_contents_bound [of b] by (simp add: n_def)
    have "?q ! (i mod 8) \<noteq> -1" if i: "i \<in> set [pos..<pos + 8]" for i
    proof -
      define k where "k = i - pos"
      have k: "k < 8" "i = pos + k" using i by (auto simp: k_def)
      have "?q ! (i mod 8) = queue_contents b ! k"
        using queue_nth [OF k(1), of b] k n8 by (simp add: ring nth_append n_def pos_def)
      then show ?thesis using k(1) n8 queue_contents_valid nth_mem by (metis n_def)
    qed
    with False show ?thesis by (simp add: first_index_None)
  qed
  moreover have "msgbuf_queue_push b m = map_option (\<lambda>(done, q). (done, b\<lparr>mb_recv_queue := q\<rparr>))
      (queue_push_loop [pos..<pos + 8] m ?q)"
    using p8 by (simp add: msgbuf_queue_push_def push_positions pos_def)
  ultimately show ?thesis
    using len by (simp add: queue_push_loop_eq add.commute)
qed

lemma queue_put_spec:
  assumes wf: "queue_wf b" and m: "m \<noteq> -1"
  shows "if length (queue_contents b) < 8
    then \<exists>q. queue_put m b = Some (b\<lparr>mb_recv_queue := q\<rparr>) \<and> queue_wf (b\<lparr>mb_recv_queue := q\<rparr>) \<and>
      queue_contents (b\<lparr>mb_recv_queue := q\<rparr>) = queue_contents b @ [m]
    else queue_put m b = None"
proof (cases "length (queue_contents b) < 8")
  case True
  define n where "n = length (queue_contents b)"
  define q where "q = (mb_recv_queue b)[(unat (mb_recv_queue_pos b) + n) mod 8 := m]"
  have n: "n < 8" using True by (simp add: n_def)
  have ring: "queue_ring b = queue_contents b @ replicate (8 - n) (-1)" and len: "length (mb_recv_queue b) = 8"
    using wf by (simp_all add: queue_wf_def n_def)
  obtain r where r: "8 - n = Suc r" using n by (cases "8 - n") auto
  have "queue_ring (b\<lparr>mb_recv_queue := q\<rparr>) = (queue_ring b)[n := m]"
    using n len by (simp add: queue_ring_def q_def ring_update)
  also have "\<dots> = queue_contents b @ [m] @ replicate r (-1)"
    unfolding ring r by (simp add: list_update_append n_def)
  finally have ring': "queue_ring (b\<lparr>mb_recv_queue := q\<rparr>) = queue_contents b @ [m] @ replicate r (-1)" .
  have "takeWhile (\<lambda>x. x \<noteq> -1) (queue_contents b @ [m] @ replicate r (-1)) = queue_contents b @ [m]"
    using m queue_contents_valid by (subst takeWhile_append2) (auto simp: takeWhile_tail)
  then have cont: "queue_contents (b\<lparr>mb_recv_queue := q\<rparr>) = queue_contents b @ [m]"
    using ring' by (simp add: queue_contents_def)
  have "8 - length (queue_contents b @ [m]) = r" using r by (simp add: n_def)
  then have "queue_wf (b\<lparr>mb_recv_queue := q\<rparr>)"
    using wf ring' cont len by (simp add: queue_wf_def q_def)
  moreover have "queue_put m b = Some (b\<lparr>mb_recv_queue := q\<rparr>)"
    using msgbuf_queue_push_eq [OF wf, of m] n by (simp add: queue_put_def q_def n_def)
  ultimately show ?thesis using cont True by auto
qed (use msgbuf_queue_push_eq [OF wf, of m] in \<open>simp add: queue_put_def\<close>)

lemma queue_get_spec:
  assumes wf: "queue_wf b"
  shows "case queue_contents b of [] \<Rightarrow> msgbuf_queue_pop b = Some (-1, b)
    | m # ms \<Rightarrow> m \<noteq> -1 \<and> (\<exists>b'. msgbuf_queue_pop b = Some (m, b') \<and> queue_wf b' \<and> queue_contents b' = ms \<and>
        (\<exists>q pos. b' = b\<lparr>mb_recv_queue := q, mb_recv_queue_pos := pos\<rparr>))"
proof -
  define n where "n = length (queue_contents b)"
  define p where "p = unat (mb_recv_queue_pos b)"
  have ring: "queue_ring b = queue_contents b @ replicate (8 - n) (-1)"
    and len: "length (mb_recv_queue b) = 8" and p: "p < 8"
    using wf by (simp_all add: queue_wf_def n_def p_def)
  have head: "mb_recv_queue b ! p = queue_ring b ! 0"
    using queue_nth [of 0 b] p by (simp add: p_def)
  show ?thesis
  proof (cases "queue_contents b")
    case Nil
    then have "mb_recv_queue b ! p = -1" using head ring by (simp add: n_def)
    with Nil len p show ?thesis by (simp add: msgbuf_queue_pop_def p_def)
  next
    case (Cons m ms)
    have m: "mb_recv_queue b ! p = m" "m \<noteq> -1"
      using head ring Cons queue_contents_valid [of m b] by simp_all
    define q where "q = (mb_recv_queue b)[p := -1]"
    define pos where "pos = (mb_recv_queue_pos b + 1) mod of_nat QUEUE_SIZE"
    define b' where "b' = b\<lparr>mb_recv_queue := q, mb_recv_queue_pos := pos\<rparr>"
    have "unat (mb_recv_queue_pos b + 1) = p + 1"
      using p by (simp add: unat_add_no_overflow p_def)
    then have pos: "unat pos = Suc p mod 8"
      by (simp add: pos_def QUEUE_SIZE_def unat_mod_distrib)
    have "queue_ring b' = ring 8 q (Suc p mod 8) 8"
      by (simp add: queue_ring_def b'_def pos)
    also have "\<dots> = tl (ring 8 q p 8) @ [q ! (p mod 8)]" by (rule ring_rotate) simp
    also have "ring 8 q p 8 = (queue_ring b)[0 := -1]"
      using ring_update [of 0 8 "mb_recv_queue b" p "-1"] len p by (simp add: queue_ring_def q_def p_def)
    also have "tl \<dots> = ms @ replicate (8 - n) (-1)" by (simp add: ring Cons)
    also have "q ! (p mod 8) = -1" using p len by (simp add: q_def)
    finally have ring': "queue_ring b' = ms @ replicate (Suc (8 - n)) (-1)"
      by (simp add: replicate_append_same)
    have "\<forall>x\<in>set ms. x \<noteq> -1" using queue_contents_valid [of _ b] Cons by auto
    then have cont: "queue_contents b' = ms"
      by (simp add: queue_contents_def ring' takeWhile_tail)
    have "Suc (8 - n) = 8 - length ms" using queue_contents_bound [of b] by (simp add: n_def Cons)
    then have "queue_wf b'" using ring' cont len pos by (simp add: queue_wf_def b'_def q_def)
    moreover have "msgbuf_queue_pop b = Some (m, b')"
      using m len p by (simp add: Let_def msgbuf_queue_pop_def b'_def q_def pos_def p_def)
    ultimately show ?thesis using cont m(2) Cons by (auto simp: b'_def)
  qed
qed

interpretation rq: bounded_fifo queue_put queue_get queue_contents "\<lambda>_. 8" queue_wf "\<lambda>m _. m \<noteq> -1"
proof
  fix b b' :: msgbuf and m m' :: int and ms :: "int list"
  assume wf: "queue_wf b"
  show "length (queue_contents b) \<le> 8" by (rule queue_contents_bound)
  show "m \<noteq> -1 \<Longrightarrow> length (queue_contents b) = 8 \<Longrightarrow> queue_put m b = None"
    using queue_put_spec [OF wf, of m] by simp
  show "m \<noteq> -1 \<Longrightarrow> length (queue_contents b) < 8 \<Longrightarrow>
      \<exists>b'. queue_put m b = Some b' \<and> queue_wf b' \<and> queue_contents b' = queue_contents b @ [m] \<and> (8 :: nat) = 8"
    using queue_put_spec [OF wf, of m] by auto
  show "queue_contents b = [] \<Longrightarrow> queue_get b = None"
    using queue_get_spec [OF wf] by (simp add: queue_get_def)
  show "queue_contents b = m # ms \<Longrightarrow>
      \<exists>b'. queue_get b = Some (m, b') \<and> queue_wf b' \<and> queue_contents b' = ms \<and> (8 :: nat) = 8"
    using queue_get_spec [OF wf] by (auto simp: queue_get_def)
qed auto

text \<open>
  C16. The receive queue of a message buffer is a bounded first-in first-out queue: for every sequence of
  pushes and pops the senders popped, followed by those still queued, are those queued before followed
  by those accepted; at most 8 are pending.
\<close>

theorem msgbuf_queue_fifo:
  assumes "queue_wf b" "\<forall>m\<in>put_items ops. m \<noteq> -1" "fifo_run queue_put queue_get ops b = (ins, outs, b')"
  shows "queue_contents b @ ins = outs @ queue_contents b' \<and> queue_wf b' \<and> length (queue_contents b') \<le> 8"
  using rq.run_fifo [OF assms] queue_contents_bound by simp

definition empty_buf :: "bytes \<Rightarrow> msgbuf" where
  "empty_buf name = \<lparr>mb_name = name @ replicate (32 - length name) 0, mb_addr = 0, mb_owner = 0x1000,
     mb_size = 0, mb_recv_queue = replicate 8 (-1), mb_recv_queue_pos = 0,
     mb_connections = replicate 8 \<lparr>conn_id = -1, conn_addr = 0\<rparr>\<rparr>"

lemma replicate_8: "replicate 8 x = [x, x, x, x, x, x, x, x]"
  by (simp add: numeral_eq_Suc)

lemma empty_buf_queue: "queue_wf (empty_buf name)" "queue_contents (empty_buf name) = []"
proof -
  have "queue_ring (empty_buf name) = replicate 8 (-1)"
    by (rule nth_equalityI) (simp_all add: queue_ring_def ring_nth empty_buf_def)
  moreover from this show "queue_contents (empty_buf name) = []"
    by (simp add: queue_contents_def replicate_8)
  ultimately show "queue_wf (empty_buf name)" by (simp add: queue_wf_def empty_buf_def)
qed

theorem msgbuf_queue_fifo_witness:
  "\<exists>b'. fifo_run queue_put queue_get [Put 3, Put 5, Get] (empty_buf []) = ([3, 5], [3], b') \<and>
    queue_contents b' = [5]"
proof -
  obtain b1 where b1: "queue_put 3 (empty_buf []) = Some b1" "queue_wf b1" "queue_contents b1 = [3]"
    using rq.enq_room [OF empty_buf_queue(1), of 3 "[]"] empty_buf_queue(2) by auto
  obtain b2 where b2: "queue_put 5 b1 = Some b2" "queue_wf b2" "queue_contents b2 = [3, 5]"
    using rq.enq_room [OF b1(2), of 5] b1(3) by auto
  obtain b3 where b3: "queue_get b2 = Some (3, b3)"
    using rq.deq_some [OF b2(2,3)] by auto
  have run: "fifo_run queue_put queue_get [Put 3, Put 5, Get] (empty_buf []) = ([3, 5], [3], b3)"
    by (simp add: b1 b2 b3)
  from msgbuf_queue_fifo [OF empty_buf_queue(1) _ run] empty_buf_queue(2) run show ?thesis by auto
qed

end
