(* ===== verification/Msgbuf_Props.thy ===== *)
theory Msgbuf_Props
  imports Msgbuf_Queue
begin

text \<open>
  Properties of the message buffer calls (\<^verbatim>\<open>kernel/msgbuf.c\<close>): receiving, creating and finding a buffer,
  and disconnecting.
\<close>

subsection \<open>Buffers behind pointers\<close>

text \<open>A node of full size whose names end inside their arrays.\<close>

definition node_wf :: "msgbuf list \<Rightarrow> bool" where
  "node_wf bufs \<longleftrightarrow> length bufs = 18 \<and> (\<forall>b\<in>set bufs.
     length (mb_name b) = 32 \<and> terminated (mb_name b) \<and> length (mb_connections b) = 8)"

definition nodes_wf :: "msgbuf_nodes \<Rightarrow> bool" where
  "nodes_wf nodes \<longleftrightarrow> (\<forall>bufs\<in>set nodes. node_wf bufs)"

lemma get_buf_Some:
  "get_buf p nodes = Some b \<longleftrightarrow>
     fst p < length nodes \<and> snd p < length (nodes ! fst p) \<and> b = nodes ! fst p ! snd p"
  by (auto simp: get_buf_def bind_Some rd_at_Some)

lemma get_set_buf:
  assumes "get_buf p nodes = Some b"
  shows "get_buf q (set_buf p b' nodes) = (if q = p then Some b' else get_buf q nodes)"
proof -
  have p: "fst p < length nodes" "snd p < length (nodes ! fst p)" using assms by (auto simp: get_buf_Some)
  show ?thesis
    using p by (cases p; cases q) (auto simp: get_buf_def set_buf_def rd_at_def nth_list_update)
qed

lemma set_buf_length [simp]: "length (set_buf p b nodes) = length nodes"
  by (simp add: set_buf_def)

lemma set_buf_nil [simp]: "set_buf p b nodes = [] \<longleftrightarrow> nodes = []"
  by (simp add: set_buf_def)

text \<open>Changing anything but the name of a buffer does not change what is found.\<close>

lemma msgbuf_get_set_buf:
  assumes "get_buf p nodes = Some b" "mb_name b' = mb_name b"
  shows "msgbuf_get mid (set_buf p b' nodes) = msgbuf_get mid nodes"
  using assms by (auto simp: msgbuf_get_def get_set_buf Let_def)

lemma msgbuf_get_result:
  assumes "nodes_wf nodes" "nodes \<noteq> []"
  shows "msgbuf_get mid nodes = Some None \<or>
    (\<exists>p b. msgbuf_get mid nodes = Some (Some p) \<and> get_buf p nodes = Some b)"
proof (cases "length nodes \<le> id_size mid div NODE_BUF_CNT")
  case True
  with assms(2) show ?thesis by (simp add: msgbuf_get_def)
next
  case False
  let ?p = "(id_size mid div NODE_BUF_CNT, id_size mid mod NODE_BUF_CNT)"
  have wf: "node_wf (nodes ! fst ?p)" using False assms(1) by (auto simp: nodes_wf_def)
  then have "snd ?p < length (nodes ! fst ?p)" by (simp add: node_wf_def NODE_BUF_CNT_def)
  then obtain b where b: "get_buf ?p nodes = Some b" "b \<in> set (nodes ! fst ?p)"
    using False by (auto simp: get_buf_Some)
  then have "rd_at (mb_name b) 0 = Some (mb_name b ! 0)" using wf by (auto simp: node_wf_def)
  with b False assms(2) show ?thesis by (auto simp: msgbuf_get_def Let_def)
qed

subsection \<open>Receiving\<close>

text \<open>The address of the connection of sender \<open>m\<close> to receiver \<open>mid\<close>, if there is one.\<close>

definition sender_conn :: "int \<Rightarrow> msgbuf_nodes \<Rightarrow> int \<Rightarrow> u64 option" where
  "sender_conn mid nodes m = (case msgbuf_get m nodes of
     Some (Some sp) \<Rightarrow> (case get_buf sp nodes of
       Some s \<Rightarrow> map_option (\<lambda>i. conn_addr (mb_connections s ! i)) (conn_get s mid)
     | None \<Rightarrow> None)
   | _ \<Rightarrow> None)"

lemma sender_conn_set_buf:
  assumes "get_buf p nodes = Some b"
  shows "sender_conn mid (set_buf p (b\<lparr>mb_recv_queue := q, mb_recv_queue_pos := pos\<rparr>) nodes) m =
    sender_conn mid nodes m"
  using assms by (auto simp: sender_conn_def msgbuf_get_set_buf get_set_buf conn_get_def
      split: option.splits)

lemma nodes_wf_set_buf:
  assumes "nodes_wf nodes" "get_buf p nodes = Some b" "length (mb_name b') = 32" "terminated (mb_name b')"
    "length (mb_connections b') = 8"
  shows "nodes_wf (set_buf p b' nodes)"
proof -
  have p: "fst p < length nodes" "snd p < length (nodes ! fst p)" using assms(2) by (auto simp: get_buf_Some)
  then have "node_wf (nodes ! fst p)" using assms(1) by (auto simp: nodes_wf_def)
  then have "node_wf ((nodes ! fst p)[snd p := b'])"
    using assms(3-5) set_update_subset_insert [of "nodes ! fst p" "snd p" b'] by (auto simp: node_wf_def)
  then show ?thesis
    using assms(1) set_update_subset_insert [of nodes "fst p"] by (auto simp: nodes_wf_def set_buf_def)
qed

lemma get_buf_node: "nodes_wf nodes \<Longrightarrow> get_buf p nodes = Some b \<Longrightarrow>
    length (mb_name b) = 32 \<and> terminated (mb_name b) \<and> length (mb_connections b) = 8"
proof -
  assume wf: "nodes_wf nodes" and b: "get_buf p nodes = Some b"
  then have "nodes ! fst p \<in> set nodes" "b \<in> set (nodes ! fst p)" by (auto simp: get_buf_Some)
  with wf show ?thesis unfolding nodes_wf_def node_wf_def by blast
qed

lemma recv_loop_spec:
  assumes "nodes_wf nodes" "get_buf p nodes = Some b" "queue_wf b" "length (queue_contents b) < n"
  shows "\<exists>r nodes' b'. recv_loop n mid p nodes = Some (r, nodes') \<and> get_buf p nodes' = Some b' \<and>
    queue_wf b' \<and>
    (case dropWhile (\<lambda>m. sender_conn mid nodes m = None) (queue_contents b) of
       [] \<Rightarrow> r = None \<and> queue_contents b' = []
     | m # ms \<Rightarrow> r = map_option (Pair m) (sender_conn mid nodes m) \<and> queue_contents b' = ms)"
  using assms
proof (induction n arbitrary: nodes b)
  case (Suc n)
  note q = queue_get_spec [OF Suc.prems(3)]
  show ?case
  proof (cases "queue_contents b")
    case Nil
    then have "msgbuf_queue_pop b = Some (-1, b)" using q by simp
    moreover have "set_buf p b nodes = nodes"
      using Suc.prems(2) by (auto simp: set_buf_def get_buf_Some)
    ultimately show ?thesis using Suc.prems Nil by simp
  next
    case (Cons m ms)
    then obtain q pos b' where m: "m \<noteq> -1" and pop: "msgbuf_queue_pop b = Some (m, b')"
      and b': "queue_wf b'" "queue_contents b' = ms" "b' = b\<lparr>mb_recv_queue := q, mb_recv_queue_pos := pos\<rparr>"
      using q by auto
    define nodes1 where "nodes1 = set_buf p b' nodes"
    have get1: "get_buf p nodes1 = Some b'" using Suc.prems(2) by (simp add: nodes1_def get_set_buf)
    have wf1: "nodes_wf nodes1"
      unfolding nodes1_def b'(3) using Suc.prems(1,2) get_buf_node [OF Suc.prems(1,2)]
      by (intro nodes_wf_set_buf) auto
    have ne: "nodes1 \<noteq> []" using get1 by (auto simp: get_buf_Some)
    have sc: "sender_conn mid nodes1 = sender_conn mid nodes"
      unfolding nodes1_def b'(3) using sender_conn_set_buf [OF Suc.prems(2)] by (auto simp: fun_eq_iff)
    have step: "recv_loop (Suc n) mid p nodes =
        (case sender_conn mid nodes1 m of None \<Rightarrow> recv_loop n mid p nodes1
         | Some a \<Rightarrow> Some (Some (m, a), nodes1))"
    proof (cases rule: disjE [OF msgbuf_get_result [OF wf1 ne, of m]])
      case 1
      then show ?thesis
        using Suc.prems(2) pop m by (simp add: nodes1_def [symmetric] sender_conn_def)
    next
      case 2
      then obtain sp s where sp: "msgbuf_get m nodes1 = Some (Some sp)" "get_buf sp nodes1 = Some s" by blast
      have len: "length (mb_connections s) = 8" using get_buf_node [OF wf1 sp(2)] by simp
      show ?thesis
      proof (cases "conn_get s mid")
        case None
        with sp Suc.prems(2) pop m show ?thesis by (simp add: nodes1_def [symmetric] sender_conn_def)
      next
        case (Some i)
        then have "i < length (mb_connections s)" using first_index_Some by (auto simp: conn_get_def)
        with sp Some Suc.prems(2) pop m show ?thesis
          by (simp add: nodes1_def [symmetric] sender_conn_def)
      qed
    qed
    show ?thesis
    proof (cases "sender_conn mid nodes m")
      case None
      have "length (queue_contents b') < n" using Suc.prems(4) Cons b'(2) by simp
      note IH = Suc.IH [OF wf1 get1 b'(1) this, unfolded sc b'(2)]
      have "recv_loop (Suc n) mid p nodes = recv_loop n mid p nodes1"
        using step None by (simp add: sc del: recv_loop.simps)
      moreover have "dropWhile (\<lambda>m. sender_conn mid nodes m = None) (queue_contents b) =
          dropWhile (\<lambda>m. sender_conn mid nodes m = None) ms"
        using None Cons by simp
      ultimately show ?thesis using IH by (simp only:)
    next
      case (Some a)
      have "recv_loop (Suc n) mid p nodes = Some (Some (m, a), nodes1)"
        using step Some by (simp add: sc del: recv_loop.simps)
      with get1 b'(1,2) Cons Some show ?thesis by (simp del: recv_loop.simps)
    qed
  qed
qed simp

text \<open>
  C17. A receive on a buffer with a well-formed queue never runs out of rounds. It returns the oldest
  pending sender that still has a connection to the receiver, with the address of that connection,
  drops the senders before it that have none, and leaves the later ones queued; without such a sender
  the queue is emptied and the caller blocks.
\<close>

theorem msgbuf_recv_oldest:
  assumes "nodes_wf (mb_nodes st)" "get_buf p (mb_nodes st) = Some b" "queue_wf b"
  shows "\<exists>nodes' b'. get_buf p nodes' = Some b' \<and> queue_wf b' \<and>
    (case dropWhile (\<lambda>m. sender_conn mid (mb_nodes st) m = None) (queue_contents b) of
       [] \<Rightarrow> queue_contents b' = [] \<and> msgbuf_recv_attempt mid p st =
         map_option (\<lambda>(sw, s). (Recv_blocked sw, s)) (block_current (st\<lparr>mb_nodes := nodes'\<rparr>))
     | m # ms \<Rightarrow> queue_contents b' = ms \<and> msgbuf_recv_attempt mid p st =
         Some (Recv_ret m ERR_OK (the (sender_conn mid (mb_nodes st) m)), st\<lparr>mb_nodes := nodes'\<rparr>))"
proof -
  have "length (queue_contents b) < QUEUE_SIZE + 1"
    using queue_contents_bound [of b] by (simp add: QUEUE_SIZE_def)
  from recv_loop_spec [OF assms this, of mid] obtain r nodes' b' where
    run: "recv_loop (QUEUE_SIZE + 1) mid p (mb_nodes st) = Some (r, nodes')"
    and b': "get_buf p nodes' = Some b'" "queue_wf b'"
    and r: "case dropWhile (\<lambda>m. sender_conn mid (mb_nodes st) m = None) (queue_contents b) of
       [] \<Rightarrow> r = None \<and> queue_contents b' = []
     | m # ms \<Rightarrow> r = map_option (Pair m) (sender_conn mid (mb_nodes st) m) \<and> queue_contents b' = ms"
    by blast
  show ?thesis
  proof (cases "dropWhile (\<lambda>m. sender_conn mid (mb_nodes st) m = None) (queue_contents b)")
    case Nil
    with r have "r = None" "queue_contents b' = []" by simp_all
    moreover have "msgbuf_recv_attempt mid p st =
        map_option (\<lambda>(sw, s). (Recv_blocked sw, s)) (block_current (st\<lparr>mb_nodes := nodes'\<rparr>))"
      using run \<open>r = None\<close>
      by (auto simp: msgbuf_recv_attempt_def block_current_def Let_def split: Option.bind_splits)
    ultimately show ?thesis
      unfolding Nil using b' by (intro exI [of _ nodes'] exI [of _ b']) simp
  next
    case (Cons m ms)
    then have "sender_conn mid (mb_nodes st) m \<noteq> None"
      using hd_dropWhile [of "\<lambda>m. sender_conn mid (mb_nodes st) m = None" "queue_contents b"] by simp
    then obtain a where "sender_conn mid (mb_nodes st) m = Some a" by blast
    with r Cons run b' show ?thesis
      by (intro exI [of _ nodes'] exI [of _ b']) (simp add: msgbuf_recv_attempt_def)
  qed
qed

definition demo_nodes :: msgbuf_nodes where
  "demo_nodes = [[(empty_buf [97])\<lparr>mb_recv_queue := [1, -1, -1, -1, -1, -1, -1, -1]\<rparr>,
     (empty_buf [98])\<lparr>mb_connections := \<lparr>conn_id = 0, conn_addr = 0x5000\<rparr> #
       replicate 7 \<lparr>conn_id = -1, conn_addr = 0\<rparr>\<rparr>] @ replicate 16 (empty_buf [])]"

lemma empty_buf_wf:
  "length name < 32 \<Longrightarrow> length (mb_name (empty_buf name)) = 32 \<and> terminated (mb_name (empty_buf name)) \<and>
     length (mb_connections (empty_buf name)) = 8"
  by (auto simp: empty_buf_def terminated_def)

lemma replicate_7: "replicate 7 x = [x, x, x, x, x, x, x]"
  by (simp add: numeral_eq_Suc)

lemma demo_nodes_wf: "nodes_wf demo_nodes"
  using empty_buf_wf [of "[97]"] empty_buf_wf [of "[98]"] empty_buf_wf [of "[]"]
  by (auto simp: demo_nodes_def nodes_wf_def node_wf_def)

lemma demo_queue:
  "queue_wf (demo_nodes ! 0 ! 0)" "queue_contents (demo_nodes ! 0 ! 0) = [1]"
proof -
  have "queue_ring (demo_nodes ! 0 ! 0) = mb_recv_queue (demo_nodes ! 0 ! 0)"
    by (rule nth_equalityI) (simp_all add: queue_ring_def ring_nth demo_nodes_def empty_buf_def)
  then have "queue_ring (demo_nodes ! 0 ! 0) = [1, -1, -1, -1, -1, -1, -1, -1]"
    by (simp add: demo_nodes_def)
  moreover from this show "queue_contents (demo_nodes ! 0 ! 0) = [1]"
    by (simp add: queue_contents_def)
  ultimately show "queue_wf (demo_nodes ! 0 ! 0)"
    by (simp add: queue_wf_def) (simp add: demo_nodes_def empty_buf_def replicate_7)
qed

lemma demo_sender: "sender_conn 0 demo_nodes 1 = Some 0x5000"
  by (simp add: sender_conn_def msgbuf_get_def id_size_def NODE_BUF_CNT_def get_buf_def demo_nodes_def
      empty_buf_def conn_get_def Let_def)

theorem msgbuf_recv_oldest_witness:
  "\<forall>k. \<exists>nodes'. msgbuf_recv_attempt 0 (0, 0) \<lparr>mb_nodes = demo_nodes, mb_kernel = k\<rparr> =
     Some (Recv_ret 1 ERR_OK 0x5000, \<lparr>mb_nodes = nodes', mb_kernel = k\<rparr>)"
proof
  fix k
  have "get_buf (0, 0) demo_nodes = Some (demo_nodes ! 0 ! 0)"
    by (simp add: get_buf_Some) (simp add: demo_nodes_def)
  from msgbuf_recv_oldest [of "\<lparr>mb_nodes = demo_nodes, mb_kernel = k\<rparr>", simplified msb_state.simps,
      OF demo_nodes_wf this demo_queue(1), of 0]
  show "\<exists>nodes'. msgbuf_recv_attempt 0 (0, 0) \<lparr>mb_nodes = demo_nodes, mb_kernel = k\<rparr> =
     Some (Recv_ret 1 ERR_OK 0x5000, \<lparr>mb_nodes = nodes', mb_kernel = k\<rparr>)"
    using demo_queue(2) demo_sender by auto
qed

subsection \<open>Disconnecting\<close>

lemma conn_free_result: "conn_free p recv st = Some (err, st') \<Longrightarrow> err = ERR_OK"
  by (auto simp: conn_free_def Let_def split: Option.bind_splits if_splits)

lemma conn_free_missing:
  assumes "get_buf p (mb_nodes st) = Some b" "conn_get b recv = None" "conn_get b other = Some 7"
    "length (mb_connections b) = 8"
  shows "conn_free p recv st = conn_free p other st"
  using assms by (simp add: conn_free_def MAX_CONN_def)

lemma id_size_minus_one: "id_size (-1) = 0xFFFFFFFFFFFFFFFF"
  by (simp add: id_size_def unsigned_minus_1_eq_mask mask_eq_exp_minus_1)

lemma conn_free_no_connection:
  assumes "get_buf p (mb_nodes st) = Some b" "conn_get b recv = None" "length (mb_connections b) = 8"
    "conn_id (mb_connections b ! 7) = -1" "MEM_SIZE_TO_PAGES (mb_size b) \<noteq> 0" "length (mb_nodes st) < 2 ^ 59"
  shows "conn_free p recv st = None"
proof -
  have "mb_nodes st \<noteq> []" using assms(1) by (auto simp: get_buf_Some)
  then have "msgbuf_get (-1) (mb_nodes st) = Some None"
    using assms(6) by (simp add: msgbuf_get_def id_size_minus_one NODE_BUF_CNT_def)
  moreover have "rd_at (mb_connections b) 7 = Some (mb_connections b ! 7)" using assms(3) by simp
  moreover have "unat (MEM_SIZE_TO_PAGES (mb_size b)) \<noteq> 0" using assms(5) by (simp add: unat_eq_0)
  ultimately show ?thesis using assms(1,2,4) by (simp add: conn_free_def MAX_CONN_def Let_def)
qed

text \<open>
  Disconnecting never reports a missing connection. When the caller's buffer has no connection to
  the receiver, the last of its connections is the one that is cut; when that slot is free and the
  buffer has pages, the kernel dereferences a null pointer.
\<close>

lemma msgbuf_disconnect_unconnected:
  assumes "msgbuf_get send_id (mb_nodes st) = Some (Some sp)" "not_mine (Some sp) st = Some False"
    "msgbuf_get recv_id (mb_nodes st) = Some (Some rp)"
    "get_buf sp (mb_nodes st) = Some b" "length (mb_connections b) = 8" "conn_get b recv_id = None"
    "length (mb_nodes st) < 2 ^ 59"
  shows "(\<forall>e st'. msgbuf_disconnect send_id recv_id st = Some (e, st') \<longrightarrow> e = ERR_OK) \<and>
    (\<forall>other. conn_get b other = Some 7 \<longrightarrow>
       msgbuf_disconnect send_id recv_id st = conn_free sp other st) \<and>
    (conn_id (mb_connections b ! 7) = -1 \<longrightarrow> MEM_SIZE_TO_PAGES (mb_size b) \<noteq> 0 \<longrightarrow>
       msgbuf_disconnect send_id recv_id st = None)"
proof -
  have "msgbuf_disconnect send_id recv_id st = conn_free sp recv_id st"
    using assms(1-3) by (simp add: msgbuf_disconnect_def)
  with assms conn_free_result [of sp recv_id st] conn_free_missing [of sp st b recv_id]
    conn_free_no_connection [of sp st b recv_id] show ?thesis by auto
qed

definition last_conn_buf :: msgbuf where
  "last_conn_buf = (empty_buf [97])\<lparr>mb_connections :=
     replicate 7 \<lparr>conn_id = -1, conn_addr = 0\<rparr> @ [\<lparr>conn_id = 1, conn_addr = 0x5000\<rparr>]\<rparr>"

definition last_conn_state :: msb_state where
  "last_conn_state = \<lparr>mb_nodes = [[last_conn_buf, empty_buf [98]] @ replicate 16 (empty_buf [])],
     mb_kernel = \<lparr>k_mem = \<lparr>cells = \<lambda>_. 0, pmap = []\<rparr>, k_sched = sched_init 0x1000\<rparr>\<rparr>"

lemma msgbuf_disconnect_unconnected_witness:
  "msgbuf_disconnect 0 0 last_conn_state = conn_free (0, 0) 1 last_conn_state \<and>
     msgbuf_disconnect 0 0 last_conn_state \<noteq> None"
proof -
  note [simp] = last_conn_state_def
  have buf: "get_buf (0, 0) (mb_nodes last_conn_state) = Some last_conn_buf"
    by (simp add: get_buf_def)
  have found: "msgbuf_get 0 (mb_nodes last_conn_state) = Some (Some (0, 0))"
    by (simp add: msgbuf_get_def id_size_def NODE_BUF_CNT_def get_buf_def last_conn_buf_def empty_buf_def)
  have mine: "not_mine (Some (0, 0)) last_conn_state = Some False"
    by (simp add: not_mine_def get_buf_def current_def last_conn_buf_def empty_buf_def sched_init_def deref_def)
  have len: "length (mb_connections last_conn_buf) = 8" by (simp add: last_conn_buf_def)
  have conns: "conn_get last_conn_buf 0 = None" "conn_get last_conn_buf 1 = Some 7"
    by (simp_all add: conn_get_def last_conn_buf_def replicate_7)
  have "length (mb_nodes last_conn_state) < 2 ^ 59" by simp
  from msgbuf_disconnect_unconnected [OF found mine found buf len conns(1) this] conns(2)
  have eq: "msgbuf_disconnect 0 0 last_conn_state = conn_free (0, 0) 1 last_conn_state" by blast
  have "mb_connections last_conn_buf ! 7 = \<lparr>conn_id = 1, conn_addr = 0x5000\<rparr>"
    "mb_size last_conn_buf = 0"
    by (simp_all add: last_conn_buf_def empty_buf_def nth_append)
  moreover have "msgbuf_get 1 (mb_nodes last_conn_state) = Some (Some (0, 1))"
    by (simp add: msgbuf_get_def id_size_def NODE_BUF_CNT_def get_buf_def empty_buf_def)
  moreover have "MEM_SIZE_TO_PAGES 0 = 0" by (simp add: MEM_SIZE_TO_PAGES_def layout_simps)
  ultimately have "conn_free (0, 0) 1 last_conn_state \<noteq> None"
    using buf conns(2) len by (simp add: conn_free_def Let_def del: last_conn_state_def)
  with eq show ?thesis by simp
qed

end
