(* ===== verification/Msgbuf_Create.thy ===== *)
theory Msgbuf_Create
  imports Msgbuf_Props
begin

text \<open>
  Creating a message buffer (\<^verbatim>\<open>kernel/msgbuf.c\<close>: \<open>_msgbuf_alloc\<close>, \<open>msgbuf_create\<close>, \<open>_msgbuf_get_id\<close>): names
  stay unique, other buffers are kept, and the lookup by name sees the buffers of the first node only.
\<close>

subsection \<open>Names\<close>

definition has_name :: "bytes \<Rightarrow> msgbuf \<Rightarrow> bool" where
  "has_name name b \<longleftrightarrow> c_str (mb_name b) = c_str name"

definition names_ok :: "msgbuf list \<Rightarrow> bool" where
  "names_ok bufs \<longleftrightarrow> (\<forall>b\<in>set bufs. length (mb_name b) = 32 \<and> terminated (mb_name b))"

lemma node_names_ok: "node_wf bufs \<Longrightarrow> names_ok bufs"
  by (auto simp: node_wf_def names_ok_def)

lemma strncmp_names:
  assumes "length a = 32" "terminated a" "terminated b" "length (c_str b) < 32"
  shows "\<exists>d. strncmp_k a b 32 = Some d \<and> (d = 0 \<longleftrightarrow> c_str a = c_str b)"
    and "\<exists>d. strncmp_k b a 32 = Some d \<and> (d = 0 \<longleftrightarrow> c_str a = c_str b)"
  using strncmp_k_spec [of a b 32] strncmp_k_spec [of b a 32] c_str_length_less [of a] assms by auto

lemma find_name_spec:
  assumes "names_ok bufs" "terminated name" "length (c_str name) < 32"
  shows "find_name name i bufs =
    Some (case first_index (has_name name) bufs of None \<Rightarrow> -1 | Some j \<Rightarrow> int (i + j))"
  using assms(1)
proof (induction bufs arbitrary: i)
  case (Cons b bs)
  then have b: "length (mb_name b) = 32" "terminated (mb_name b)" "names_ok bs"
    by (auto simp: names_ok_def)
  obtain d where "strncmp_k (mb_name b) name 32 = Some d" "d = 0 \<longleftrightarrow> has_name name b"
    using strncmp_names(1) [OF b(1,2) assms(2,3)] by (auto simp: has_name_def)
  then show ?case
    using Cons.IH [OF b(3)] by (auto simp: MSB_NAME_MAX_def split: option.splits)
qed simp

lemma alloc_scan_spec:
  assumes "names_ok bufs" "terminated name" "length (c_str name) < 32"
    "alloc_scan name i bufs mid = Some (False, mid')"
  shows "(\<forall>b\<in>set bufs. \<not> has_name name b) \<and>
    (if mid \<noteq> -1 then mid' = mid
     else mid' = -1 \<or> (\<exists>j<length bufs. mid' = int (i + j) \<and> c_str (mb_name (bufs ! j)) = []))"
  using assms(1,4)
proof (induction bufs arbitrary: i mid)
  case (Cons b bs)
  then have b: "length (mb_name b) = 32" "terminated (mb_name b)" "names_ok bs"
    by (auto simp: names_ok_def)
  obtain d where d: "strncmp_k name (mb_name b) 32 = Some d" "d = 0 \<longleftrightarrow> has_name name b"
    using strncmp_names(2) [OF b(1,2) assms(2,3)] by (auto simp: has_name_def)
  have new: "\<not> has_name name b" using Cons.prems(2) d by (auto simp: MSB_NAME_MAX_def)
  define mid1 where "mid1 = (if mid = -1 \<and> c_str (mb_name b) = [] then int i else mid)"
  have rest: "alloc_scan name (i + 1) bs mid1 = Some (False, mid')"
    using Cons.prems(2) d b(2) new by (auto simp: MSB_NAME_MAX_def mid1_def strlen_k_eq split: if_splits)
  note IH = Cons.IH [OF b(3) rest]
  show ?case
  proof (cases "mid1 = -1")
    case True
    then have mid: "mid = -1" by (auto simp: mid1_def split: if_splits)
    have "mid' = -1 \<or> (\<exists>j<length bs. mid' = int (i + 1 + j) \<and> c_str (mb_name (bs ! j)) = [])"
      using IH True by simp
    then have "mid' = -1 \<or> (\<exists>j<length (b # bs). mid' = int (i + j) \<and> c_str (mb_name ((b # bs) ! j)) = [])"
    proof
      assume "\<exists>j<length bs. mid' = int (i + 1 + j) \<and> c_str (mb_name (bs ! j)) = []"
      then obtain j where "j < length bs" "mid' = int (i + 1 + j)" "c_str (mb_name (bs ! j)) = []" by blast
      then show ?thesis by (intro disjI2 exI [of _ "Suc j"]) simp
    qed simp
    with mid new IH show ?thesis by simp
  next
    case False
    then have "mid' = mid1" using IH by simp
    with False new IH show ?thesis by (auto simp: mid1_def split: if_splits intro!: exI [of _ 0])
  qed
qed simp

subsection \<open>Allocation\<close>

definition id_ptr :: "int \<Rightarrow> msgbuf_ptr" where
  "id_ptr mid = (nat mid div 18, nat mid mod 18)"

text \<open>Where a free id found so far points to.\<close>

definition free_id :: "int \<Rightarrow> msgbuf_nodes \<Rightarrow> bool" where
  "free_id mid nodes \<longleftrightarrow> 0 \<le> mid \<and> (\<exists>b. get_buf (id_ptr mid) nodes = Some b \<and> c_str (mb_name b) = [])"

lemma get_buf_append: "get_buf p nodes = Some b \<Longrightarrow> get_buf p (nodes @ ext) = Some b"
  by (auto simp: get_buf_Some nth_append)

lemma free_id_append: "free_id mid nodes \<Longrightarrow> free_id mid (nodes @ ext)"
  by (auto simp: free_id_def dest: get_buf_append)

lemma set_mem_fields [simp]:
  "mb_nodes (set_mem m st) = mb_nodes st" "k_sched (mb_kernel (set_mem m st)) = mb_sched st"
  "k_mem (mb_kernel (set_mem m st)) = m"
  by (simp_all add: set_mem_def)

definition alloc_post :: "bytes \<Rightarrow> msb_state \<Rightarrow> kern_err + int \<Rightarrow> msb_state \<Rightarrow> bool" where
  "alloc_post name st r st' \<longleftrightarrow> (case r of Inl e \<Rightarrow> True | Inr mid \<Rightarrow>
     nodes_wf (mb_nodes st') \<and> mb_sched st' = mb_sched st \<and> (\<exists>ext. mb_nodes st' = mb_nodes st @ ext) \<and>
     (\<forall>bufs\<in>set (mb_nodes st'). \<forall>b\<in>set bufs. \<not> has_name name b) \<and> free_id mid (mb_nodes st'))"

definition alloc_pre :: "(u64 \<Rightarrow> u64 \<times> msgbuf list) \<Rightarrow> bytes \<Rightarrow> nat \<Rightarrow> int \<Rightarrow> msb_state \<Rightarrow> bool" where
  "alloc_pre stale name li mid st \<longleftrightarrow> terminated name \<and> length (c_str name) < 32 \<and>
     (\<forall>a. node_wf (snd (stale a))) \<and> nodes_wf (mb_nodes st) \<and>
     (\<forall>bufs\<in>set (take li (mb_nodes st)). \<forall>b\<in>set bufs. \<not> has_name name b) \<and>
     (mid = -1 \<or> free_id mid (mb_nodes st))"

lemma alloc_scan_node:
  assumes pre: "alloc_pre stale name li mid st" and bufs: "rd_at (mb_nodes st) li = Some bufs"
    and scan: "alloc_scan name (li * NODE_BUF_CNT) bufs mid = Some (False, mid')"
  shows "alloc_pre stale name (li + 1) mid' st"
proof -
  have li: "li < length (mb_nodes st)" "mb_nodes st ! li = bufs" using bufs by (auto simp: rd_at_Some)
  then have wf: "node_wf bufs" using pre nth_mem by (auto simp: alloc_pre_def nodes_wf_def)
  have spec: "\<forall>b\<in>set bufs. \<not> has_name name b" "if mid \<noteq> -1 then mid' = mid
     else mid' = -1 \<or> (\<exists>j<length bufs. mid' = int (li * 18 + j) \<and> c_str (mb_name (bufs ! j)) = [])"
    using alloc_scan_spec [OF node_names_ok [OF wf] _ _ scan] pre by (auto simp: alloc_pre_def NODE_BUF_CNT_def)
  have "free_id (int (li * 18 + j)) (mb_nodes st)"
    if "j < length bufs" "c_str (mb_name (bufs ! j)) = []" for j
  proof -
    have j: "j < 18" using that wf by (simp add: node_wf_def)
    then have "id_ptr (int (li * 18 + j)) = (li, j)" by (simp only: id_ptr_def nat_int) simp
    with li that show ?thesis by (simp add: free_id_def get_buf_Some)
  qed
  with spec(2) pre have "mid' = -1 \<or> free_id mid' (mb_nodes st)"
    by (auto simp: alloc_pre_def split: if_splits)
  with spec(1) pre li show ?thesis by (auto simp: alloc_pre_def take_Suc_conv_app_nth)
qed

lemma alloc_nodes_post:
  assumes "alloc_nodes stale name li mid st = Some (r, st')" "alloc_pre stale name li mid st"
  shows "alloc_post name st r st'"
proof -
  have "alloc_pre stale name li mid st \<longrightarrow> alloc_post name st (fst (r, st')) (snd (r, st'))"
  proof (rule alloc_nodes.raw_induct [where P = "\<lambda>sl nm li mid st out.
      alloc_pre sl nm li mid st \<longrightarrow> alloc_post nm st (fst out) (snd out)", OF _ assms(1)], intro impI, goal_cases)
    case (1 rec sl nm li mid st out)
    note IH = 1(1) and pre = 1(3)
    from 1(2) obtain bufs hit mid' where bufs: "rd_at (mb_nodes st) li = Some bufs"
      and scan: "alloc_scan nm (li * NODE_BUF_CNT) bufs mid = Some (hit, mid')"
      and rest: "(if hit then Some (Inl ERR_MSB_EXS, st)
       else if li + 1 < length (mb_nodes st) then rec sl nm (li + 1) mid' st
       else if mid' = -1 then
         Option.bind (mem_kernel_alloc_page MEM_RW (mb_mem st)) (\<lambda>(addr_r, m).
           if r_err addr_r \<noteq> ERR_OK then Some (Inl (r_err addr_r), set_mem m st)
           else if fst (sl (r_addr addr_r)) \<noteq> 0 then None
           else rec sl nm (li + 1) mid'
             (set_mem m st\<lparr>mb_nodes := mb_nodes st @ [snd (sl (r_addr addr_r))]\<rparr>))
       else Some (Inr mid', st)) = Some out"
      by (auto simp: bind_Some)
    have pre': "alloc_pre sl nm (li + 1) mid' st" if "\<not> hit"
      using alloc_scan_node [OF pre bufs] scan that by simp
    consider "hit" | "\<not> hit" "li + 1 < length (mb_nodes st)"
      | "\<not> hit" "\<not> li + 1 < length (mb_nodes st)" "mid' = -1"
      | "\<not> hit" "\<not> li + 1 < length (mb_nodes st)" "mid' \<noteq> -1" by blast
    then show ?case
    proof cases
      case 1
      with rest show ?thesis by (auto simp: alloc_post_def)
    next
      case 2
      with rest have "rec sl nm (li + 1) mid' st = Some out" by simp
      from IH [OF this] pre' 2 show ?thesis by simp
    next
      case 3
      with rest obtain addr_r :: mem_r_addr and m where page: "(if r_err addr_r \<noteq> ERR_OK then Some (Inl (r_err addr_r), set_mem m st)
           else if fst (sl (r_addr addr_r)) \<noteq> 0 then None
           else rec sl nm (li + 1) mid'
             (set_mem m st\<lparr>mb_nodes := mb_nodes st @ [snd (sl (r_addr addr_r))]\<rparr>)) = Some out"
        by (auto simp: bind_Some)
      show ?thesis
      proof (cases "r_err addr_r = ERR_OK")
        case True
        define st1 where "st1 = set_mem m st\<lparr>mb_nodes := mb_nodes st @ [snd (sl (r_addr addr_r))]\<rparr>"
        have rec: "rec sl nm (li + 1) mid' st1 = Some out"
          using page True by (simp add: st1_def split: if_splits)
        have full: "take (li + 1) (mb_nodes st) = mb_nodes st" using 3 by simp
        have nodes: "mb_nodes st1 = mb_nodes st @ [snd (sl (r_addr addr_r))]" "mb_sched st1 = mb_sched st"
          by (simp_all add: st1_def)
        have len: "length (mb_nodes st) = li + 1" using 3 bufs by (auto simp: rd_at_Some)
        have "alloc_pre sl nm (li + 1) mid' st1"
          using pre' [OF 3(1)] len 3(3) by (auto simp: alloc_pre_def nodes nodes_wf_def)
        with IH [OF rec] have "alloc_post nm st1 (fst out) (snd out)" by simp
        then show ?thesis by (auto simp: alloc_post_def nodes split: sum.splits)
      qed (use page in \<open>auto simp: alloc_post_def\<close>)
    next
      case 4
      have "take (li + 1) (mb_nodes st) = mb_nodes st" using 4 by simp
      with pre' [OF 4(1)] 4 rest show ?thesis by (auto simp: alloc_post_def alloc_pre_def)
    qed
  qed
  with assms(2) show ?thesis by simp
qed

subsection \<open>Creating\<close>

lemma upd_buf_fields [simp]:
  "mb_nodes (upd_buf p b st) = set_buf p b (mb_nodes st)" "mb_kernel (upd_buf p b st) = mb_kernel st"
  by (simp_all add: upd_buf_def)

lemma buffer_alloc_nodes: "buffer_alloc sz st = Some (r, st') \<Longrightarrow> mb_nodes st' = mb_nodes st"
  by (auto simp: buffer_alloc_def Let_def bind_Some split: if_splits)

lemma strlcpy_name:
  assumes "length nm = 32" "terminated name" "length (c_str name) < 32"
  shows "\<exists>nm'. strlcpy_k nm name 32 = Some (length (c_str name), nm') \<and> length nm' = 32 \<and> terminated nm' \<and>
    c_str nm' = c_str name"
proof -
  define nm' where "nm' = c_str name @ 0 # drop (Suc (length (c_str name))) nm"
  have "c_str nm' = c_str name"
    unfolding nm'_def using c_str_nonzero by (intro c_str_append_nul) auto
  moreover have "strlcpy_k nm name 32 = Some (length (c_str name), nm')"
    using assms by (simp add: strlcpy_k_def strlcpy_loop_eq strlen_k_eq Let_def nm'_def)
  moreover have "length nm' = 32" "terminated nm'"
    using assms by (simp_all add: nm'_def terminated_def)
  ultimately show ?thesis by blast
qed

lemma id_ptr_less: "free_id mid nodes \<Longrightarrow> nodes_wf nodes \<Longrightarrow> 0 \<le> mid \<and> nat mid div 18 < length nodes"
  by (auto simp: free_id_def id_ptr_def get_buf_Some)

lemma msgbuf_get_id_ptr:
  assumes "0 \<le> mid" "mid < 2 ^ 63" "get_buf (id_ptr mid) nodes = Some b" "length (mb_name b) = 32"
  shows "msgbuf_get mid nodes = Some (if mb_name b ! 0 = 0 then None else Some (id_ptr mid))"
proof -
  have "id_size mid = nat mid"
    using assms(1,2) by (simp add: id_size_def unsigned_of_int take_bit_int_eq_self nat_take_bit_eq)
  moreover have "fst (id_ptr mid) < length nodes" using assms(3) by (simp add: get_buf_Some)
  moreover from this have "nodes \<noteq> []" by auto
  moreover have "rd_at (mb_name b) 0 = Some (mb_name b ! 0)" using assms(4) by simp
  ultimately show ?thesis using assms(3) by (simp add: msgbuf_get_def NODE_BUF_CNT_def id_ptr_def)
qed

lemma msgbuf_alloc_post:
  assumes "nodes_wf (mb_nodes st)" "\<forall>a. node_wf (snd (stale a))" "terminated name" "length (c_str name) < 32"
    "msgbuf_alloc stale name st = Some (Inr mid, st')"
  obtains nodes1 ext b nm where "nodes1 = mb_nodes st @ ext" "nodes_wf (nodes1)"
    "\<forall>bufs\<in>set (nodes1). \<forall>b\<in>set bufs. \<not> has_name name b" "mb_sched st' = mb_sched st"
    "0 \<le> mid" "get_buf (id_ptr mid) (nodes1) = Some b" "c_str (mb_name b) = []"
    "length nm = 32" "terminated nm" "c_str nm = c_str name"
    "mb_nodes st' = set_buf (id_ptr mid) (b\<lparr>mb_name := nm\<rparr>) (nodes1)"
proof -
  from assms(5) obtain err st0 where init: "(if mb_nodes st = [] then do {
         (addr_r, m) \<leftarrow> mem_kernel_alloc_page MEM_RW (mb_mem st);
         if r_err addr_r \<noteq> ERR_OK then Some (r_err addr_r, set_mem m st)
         else Some (ERR_OK, set_mem m st\<lparr>mb_nodes := [snd (stale (r_addr addr_r))]\<rparr>) }
       else Some (ERR_OK, st)) = Some (err, st0)" and ok: "err = ERR_OK"
    and rest: "(do {
       (r, st1) \<leftarrow> alloc_nodes stale name 0 (-1) st0;
       case r of Inl e \<Rightarrow> Some (Inl e, st1)
       | Inr mid \<Rightarrow> do {
           let p = (nat mid div NODE_BUF_CNT, nat mid mod NODE_BUF_CNT);
           b \<leftarrow> get_buf p (mb_nodes st1);
           (len, nm) \<leftarrow> strlcpy_k (mb_name b) name MSB_NAME_MAX;
           if MSB_NAME_MAX < len
           then Some (Inl ERR_MSB_NAM, upd_buf p (b\<lparr>mb_name := nm[0 := 0]\<rparr>) st1)
           else Some (Inr mid, upd_buf p (b\<lparr>mb_name := nm\<rparr>) st1) } }) = Some (Inr mid, st')"
    unfolding msgbuf_alloc_def by (auto simp: bind_Some split: if_splits)
  have st0: "\<exists>ext. mb_nodes st0 = mb_nodes st @ ext" "nodes_wf (mb_nodes st0)" "mb_sched st0 = mb_sched st"
    using init ok assms(1,2) by (auto simp: bind_Some nodes_wf_def split: if_splits)
  from rest obtain st1 where nodes: "alloc_nodes stale name 0 (-1) st0 = Some (Inr mid, st1)"
    and copy: "(do {
           let p = (nat mid div NODE_BUF_CNT, nat mid mod NODE_BUF_CNT);
           b \<leftarrow> get_buf p (mb_nodes st1);
           (len, nm) \<leftarrow> strlcpy_k (mb_name b) name MSB_NAME_MAX;
           if MSB_NAME_MAX < len
           then Some (Inl ERR_MSB_NAM, upd_buf p (b\<lparr>mb_name := nm[0 := 0]\<rparr>) st1)
           else Some (Inr mid, upd_buf p (b\<lparr>mb_name := nm\<rparr>) st1) }) = Some (Inr mid, st')"
  proof -
    from rest obtain r s where "alloc_nodes stale name 0 (-1) st0 = Some (r, s)" by (auto simp: bind_Some)
    moreover have "r = Inr mid"
      using rest calculation by (cases r) (auto simp: bind_Some Let_def split: if_splits)
    ultimately show thesis using rest that by simp
  qed
  have post: "alloc_post name st0 (Inr mid) st1"
    by (rule alloc_nodes_post [OF nodes]) (use assms st0 in \<open>simp add: alloc_pre_def\<close>)
  then obtain b where b: "0 \<le> mid" "get_buf (id_ptr mid) (mb_nodes st1) = Some b" "c_str (mb_name b) = []"
    by (auto simp: alloc_post_def free_id_def)
  have wf1: "nodes_wf (mb_nodes st1)" using post by (simp add: alloc_post_def)
  obtain nm where nm: "strlcpy_k (mb_name b) name 32 = Some (length (c_str name), nm)" "length nm = 32"
    "terminated nm" "c_str nm = c_str name"
    using strlcpy_name [OF _ assms(3,4)] get_buf_node [OF wf1 b(2)] by blast
  have st': "st' = upd_buf (id_ptr mid) (b\<lparr>mb_name := nm\<rparr>) st1"
    using copy b(2) nm(1) assms(4) by (simp add: id_ptr_def NODE_BUF_CNT_def MSB_NAME_MAX_def Let_def)
  obtain ext where ext: "mb_nodes st1 = mb_nodes st @ ext"
    using st0(1) post by (auto simp: alloc_post_def)
  show thesis
    by (rule that [OF ext wf1 _ _ b nm(2-4)]) (use post st0 st' in \<open>simp_all add: alloc_post_def\<close>)
qed

lemma msgbuf_get_id_new:
  assumes "nodes_wf nodes" "\<forall>bufs\<in>set nodes. \<forall>b\<in>set bufs. \<not> has_name name b"
    "get_buf (id_ptr mid) nodes = Some b" "0 \<le> mid" "has_name name b2"
    "terminated (mb_name b2)" "length (mb_name b2) = 32"
    "terminated name" "length (c_str name) < 32"
  shows "msgbuf_get_id name (set_buf (id_ptr mid) b2 nodes) = Some (if mid < 18 then mid else -1)"
proof -
  define node where "node = (if mid < 18 then (nodes ! 0)[nat mid := b2] else nodes ! 0)"
  have ptr: "fst (id_ptr mid) < length nodes" "snd (id_ptr mid) < length (nodes ! fst (id_ptr mid))"
    using assms(3) by (simp_all add: get_buf_Some)
  then have n0: "nodes ! 0 \<in> set nodes" by (cases nodes) auto
  have in_first: "mid < 18 \<Longrightarrow> id_ptr mid = (0, nat mid)" and
    later: "\<not> mid < 18 \<Longrightarrow> fst (id_ptr mid) \<noteq> 0"
    using assms(4) by (auto simp: id_ptr_def)
  have node: "rd_at (set_buf (id_ptr mid) b2 nodes) 0 = Some node"
    using ptr in_first later by (cases "mid < 18") (auto simp: node_def set_buf_def rd_at_def)
  have wf0: "node_wf (nodes ! 0)" "\<forall>b\<in>set (nodes ! 0). \<not> has_name name b"
    using assms(1,2) n0 by (auto simp: nodes_wf_def)
  have "set node \<subseteq> insert b2 (set (nodes ! 0))"
    by (auto simp: node_def dest: set_update_subset_insert [THEN subsetD])
  then have ok: "names_ok node"
    using node_names_ok [OF wf0(1)] assms(6,7) by (auto simp: names_ok_def)
  have "first_index (has_name name) node = (if mid < 18 then Some (nat mid) else None)"
  proof (cases "mid < 18")
    case True
    have len: "nat mid < length (nodes ! 0)" using ptr in_first [OF True] by simp
    have "first_index (has_name name) node = Some (nat mid)"
    proof (rule first_index_eqI)
      show "nat mid < length node" "has_name name (node ! nat mid)"
        using len True assms(5) by (simp_all add: node_def)
      fix j assume "j < nat mid"
      then show "\<not> has_name name (node ! j)"
        using len wf0(2) True by (simp add: node_def)
    qed
    with True show ?thesis by simp
  next
    case False
    with wf0(2) show ?thesis by (simp add: node_def first_index_None)
  qed
  with node find_name_spec [OF ok assms(8,9), of 0] show ?thesis
    using assms(4) by (simp add: msgbuf_get_id_def)
qed

text \<open>
  C18. A message buffer is created only under a new name: when \<open>msgbuf_create\<close> succeeds, no buffer of any
  node had the name before; the buffer with the id returned now has it and belongs to the caller, with
  an empty queue and no connections, and all other buffers are unchanged. The search by name finds the
  new buffer when it is in the first node, and no buffer otherwise.
\<close>

theorem msgbuf_create_success:
  assumes "nodes_wf (mb_nodes st)" "\<forall>a. node_wf (snd (stale a))" "terminated name" "length (c_str name) < 32"
    "msgbuf_create stale name sz send_buf st = Some ((mid, e, out), st')" "0 \<le> mid" "mid < 2 ^ 31"
  shows "(\<exists>b. msgbuf_get mid (mb_nodes st') = Some (Some (id_ptr mid)) \<and>
      get_buf (id_ptr mid) (mb_nodes st') = Some b \<and> has_name name b \<and>
      mb_owner b = current_task (mb_sched st) \<and> mb_recv_queue b = replicate 8 (-1) \<and>
      (\<forall>i<8. conn_id (mb_connections b ! i) = -1)) \<and>
    (\<forall>p b. get_buf p (mb_nodes st) = Some b \<longrightarrow> \<not> has_name name b) \<and>
    (\<forall>p b. p \<noteq> id_ptr mid \<longrightarrow> get_buf p (mb_nodes st) = Some b \<longrightarrow> get_buf p (mb_nodes st') = Some b) \<and>
    msgbuf_get_id name (mb_nodes st') = Some (if mid < 18 then mid else -1) \<and> nodes_wf (mb_nodes st')"
proof -
  have len: "strlen_k name = Some (length (c_str name))" using assms(3) by (simp add: strlen_k_eq)
  have mid1: "c_str name \<noteq> []"
    using assms(5,6) len by (auto simp: msgbuf_create_def)
  obtain r st1 where alloc: "msgbuf_alloc stale name st = Some (r, st1)"
    using assms(5,6) by (auto simp: msgbuf_create_def bind_Some split: if_splits)
  obtain m where r: "r = Inr m"
    using assms(5,6) alloc len by (cases r) (auto simp: msgbuf_create_def bind_Some split: if_splits)
  from msgbuf_alloc_post [OF assms(1-4) alloc [unfolded r]] obtain nodes1 ext b nm where
    post: "nodes1 = mb_nodes st @ ext" "nodes_wf nodes1"
      "\<forall>bufs\<in>set nodes1. \<forall>b\<in>set bufs. \<not> has_name name b" "mb_sched st1 = mb_sched st"
    and b: "0 \<le> m" "get_buf (id_ptr m) nodes1 = Some b"
    and nm: "length nm = 32" "terminated nm" "c_str nm = c_str name"
    and nodes: "mb_nodes st1 = set_buf (id_ptr m) (b\<lparr>mb_name := nm\<rparr>) nodes1" .
  define b1 where "b1 = fresh_msgbuf (current_task (mb_sched st1)) (b\<lparr>mb_name := nm\<rparr>)"
  have get1: "get_buf (id_ptr m) (mb_nodes st1) = Some (b\<lparr>mb_name := nm\<rparr>)"
    using b(2) by (simp add: nodes get_set_buf)
  have create: "(do {
       found \<leftarrow> msgbuf_get m (mb_nodes st1);
       p \<leftarrow> found;
       b \<leftarrow> get_buf p (mb_nodes st1);
       let b1 = fresh_msgbuf (current_task (mb_sched st1)) b;
       let st2 = upd_buf p b1 st1;
       if send_buf then do {
         (addr_r, st3) \<leftarrow> buffer_alloc sz st2;
         if r_err addr_r \<noteq> ERR_OK then Some ((-1, r_err addr_r, None), st3)
         else Some ((m, ERR_OK, Some (r_addr addr_r)),
           upd_buf p (b1\<lparr>mb_addr := r_addr addr_r, mb_size := sz\<rparr>) st3) }
       else Some ((m, ERR_OK, None), upd_buf p (b1\<lparr>mb_addr := 0, mb_size := 0\<rparr>) st2) }) =
     Some ((mid, e, out), st')"
    using assms(5,6) len alloc r by (simp add: msgbuf_create_def split: if_splits)
  have "m = mid" using create assms(6) by (auto simp: bind_Some Let_def split: if_splits)
  note b = b [unfolded this] and nodes = nodes [unfolded this] and get1 = get1 [unfolded this]
    and create = create [unfolded this]
  have name0: "nm ! 0 \<noteq> 0" using nm mid1 by (cases nm) auto
  have found: "msgbuf_get mid (mb_nodes st1) = Some (Some (id_ptr mid))"
    using msgbuf_get_id_ptr [OF assms(6) _ get1] assms(7) nm(1) name0 by simp
  obtain addr sz' where st': "mb_nodes st' = set_buf (id_ptr mid) (b1\<lparr>mb_addr := addr, mb_size := sz'\<rparr>)
      (set_buf (id_ptr mid) b1 (mb_nodes st1))"
    using create assms(6) found get1 by (auto simp: b1_def bind_Some Let_def dest!: buffer_alloc_nodes split: if_splits)
  define b2 where "b2 = b1\<lparr>mb_addr := addr, mb_size := sz'\<rparr>"
  have st2: "mb_nodes st' = set_buf (id_ptr mid) b2 nodes1"
    using b(2) by (simp add: st' nodes b2_def set_buf_def get_buf_Some)
  have get2: "get_buf q (mb_nodes st') = (if q = id_ptr mid then Some b2 else get_buf q nodes1)" for q
    using b(2) by (simp add: st2 get_set_buf)
  have b2: "mb_name b2 = nm" "mb_owner b2 = current_task (mb_sched st)" "mb_recv_queue b2 = replicate 8 (-1)"
    "mb_connections b2 = replicate 8 \<lparr>conn_id = -1, conn_addr = 0\<rparr>"
    using post(4) by (simp_all add: b2_def b1_def fresh_msgbuf_def QUEUE_SIZE_def MAX_CONN_def)
  have wf': "nodes_wf (mb_nodes st')"
    unfolding st2 using post(2) b(2) nm b2 by (intro nodes_wf_set_buf) simp_all
  have new: "\<not> has_name name b0" if "get_buf p (mb_nodes st) = Some b0" for p b0
  proof -
    have "get_buf p nodes1 = Some b0" using that post(1) by (simp add: get_buf_append)
    then have "nodes1 ! fst p \<in> set nodes1" "b0 \<in> set (nodes1 ! fst p)" by (auto simp: get_buf_Some)
    with post(3) show ?thesis by blast
  qed
  have kept: "get_buf p (mb_nodes st') = Some b0" if "p \<noteq> id_ptr mid" "get_buf p (mb_nodes st) = Some b0" for p b0
    using that post(1) by (simp add: get2 get_buf_append)
  have get_mid: "msgbuf_get mid (mb_nodes st') = Some (Some (id_ptr mid))"
    using msgbuf_get_id_ptr [OF assms(6), of "mb_nodes st'" b2] assms(7) get2 b2(1) nm(1) name0 by simp
  have "msgbuf_get_id name (mb_nodes st') = Some (if mid < 18 then mid else -1)"
    using msgbuf_get_id_new [OF post(2,3) b(2) assms(6) _ _ _ assms(3,4), of b2] nm b2(1) st2
    by (simp add: has_name_def)
  then show ?thesis using get_mid get2 b2 nm(3) new kept wf' by (auto simp: has_name_def)
qed

text \<open>A third buffer beside two others, in the first node.\<close>

definition name_c :: bytes where
  "name_c = [99, 0]"

lemma demo_scan: "alloc_scan name_c 0 (demo_nodes ! 0) (-1) = Some (False, 2)"
proof -
  have zeros: "replicate 32 (0 :: u8) = 0 # replicate 31 0" "replicate 31 (0 :: u8) = 0 # replicate 30 0"
    using replicate_Suc [of 31 "0 :: u8"] replicate_Suc [of 30 "0 :: u8"] by simp_all
  have empty: "strncmp_k name_c (mb_name (empty_buf [])) 32 = Some 99" "strlen_k (mb_name (empty_buf [])) = Some 0"
    by (simp_all add: name_c_def empty_buf_def char_diff_def zeros)
  have skip: "alloc_scan name_c i (replicate n (empty_buf [])) 2 = Some (False, 2)" for i n
    by (induction n arbitrary: i) (simp_all add: MSB_NAME_MAX_def empty)
  have two: "strncmp_k name_c (97 # ns) 32 = Some 2" "strncmp_k name_c (98 # ns) 32 = Some 1"
    "strlen_k (97 # 0 # ns) = Some 1" "strlen_k (98 # 0 # ns) = Some 1" for ns
    by (simp_all add: name_c_def char_diff_def)
  have "replicate 16 (empty_buf []) = empty_buf [] # replicate 15 (empty_buf [])"
    using replicate_Suc [of 15 "empty_buf []"] by simp
  moreover have "mb_name ((empty_buf [97])\<lparr>mb_recv_queue := q\<rparr>) = 97 # replicate 31 0"
    "mb_name ((empty_buf [98])\<lparr>mb_connections := c\<rparr>) = 98 # replicate 31 0" for q c
    by (simp_all add: empty_buf_def)
  ultimately show ?thesis
    using two skip [of "Suc (Suc (Suc 0))" 15] empty zeros by (simp add: demo_nodes_def MSB_NAME_MAX_def)
qed

theorem msgbuf_create_success_witness:
  "\<forall>k. \<exists>st'. msgbuf_create (\<lambda>_. (0, demo_nodes ! 0)) name_c 0 False \<lparr>mb_nodes = demo_nodes, mb_kernel = k\<rparr> =
     Some ((2, ERR_OK, None), st') \<and> msgbuf_get_id name_c (mb_nodes st') = Some 2"
proof
  fix k
  define st where "st = \<lparr>mb_nodes = demo_nodes, mb_kernel = k\<rparr>"
  have one: "demo_nodes = [demo_nodes ! 0]" "demo_nodes \<noteq> []" by (simp_all add: demo_nodes_def)
  have wf: "node_wf (demo_nodes ! 0)" using demo_nodes_wf one(2) by (simp add: nodes_wf_def)
  have name: "terminated name_c" "length (c_str name_c) < 32" "strlen_k name_c = Some 1"
    by (simp_all add: name_c_def)
  have len: "length demo_nodes = 1" "length (demo_nodes ! 0) = 18"
    using wf one by (simp_all add: node_wf_def demo_nodes_def)
  have "alloc_nodes (\<lambda>_. (0, demo_nodes ! 0)) name_c 0 (-1) st = Some (Inr 2, st)"
    using demo_scan len by (subst alloc_nodes.simps) (simp add: st_def rd_at_def NODE_BUF_CNT_def)
  moreover have b: "get_buf (0, 2) demo_nodes = Some (empty_buf [])"
    by (simp add: get_buf_def demo_nodes_def)
  moreover obtain nm where nm: "strlcpy_k (mb_name (empty_buf [])) name_c 32 = Some (1, nm)" "length nm = 32"
    "terminated nm" "c_str nm = c_str name_c"
    using strlcpy_name [of "mb_name (empty_buf [])", OF _ name(1,2)] by (auto simp: empty_buf_def name_c_def)
  ultimately have alloc: "msgbuf_alloc (\<lambda>_. (0, demo_nodes ! 0)) name_c st =
      Some (Inr 2, upd_buf (0, 2) ((empty_buf [])\<lparr>mb_name := nm\<rparr>) st)"
    using one(2) by (simp add: msgbuf_alloc_def NODE_BUF_CNT_def MSB_NAME_MAX_def st_def)
  have get1: "get_buf (0, 2) (set_buf (0, 2) x demo_nodes) = Some x" for x
    using get_set_buf [OF b] by simp
  have "nm ! 0 \<noteq> 0" using nm by (cases nm) (auto simp: name_c_def)
  then have "msgbuf_get 2 (set_buf (0, 2) ((empty_buf [])\<lparr>mb_name := nm\<rparr>) demo_nodes) = Some (Some (0, 2))"
    using msgbuf_get_id_ptr [of 2 "set_buf (0, 2) ((empty_buf [])\<lparr>mb_name := nm\<rparr>) demo_nodes"] get1 nm(2)
    by (simp add: id_ptr_def)
  with alloc get1 name(3) obtain st' where run: "msgbuf_create (\<lambda>_. (0, demo_nodes ! 0)) name_c 0 False st =
     Some ((2, ERR_OK, None), st')"
    by (auto simp: msgbuf_create_def MSB_NAME_MAX_def st_def Let_def)
  have "nodes_wf (mb_nodes st)" by (simp add: st_def demo_nodes_wf)
  from msgbuf_create_success [OF this _ name(1,2) run] wf run
  show "\<exists>st'. msgbuf_create (\<lambda>_. (0, demo_nodes ! 0)) name_c 0 False \<lparr>mb_nodes = demo_nodes, mb_kernel = k\<rparr> =
     Some ((2, ERR_OK, None), st') \<and> msgbuf_get_id name_c (mb_nodes st') = Some 2"
    by (auto simp: st_def)
qed

end
