(* ===== verification/Libc_String.thy ===== *)
theory Libc_String
  imports Prelude
begin

text \<open>
  The string functions of the C library (\<^verbatim>\<open>lib/c/string\<close>). As in \<^theory_text>\<open>Kernel_String\<close>, a pointer argument is
  the list of bytes from the pointer to the end of its object; a pointer that is returned is an index
  into the argument. Where source and destination may be the same object (\<open>memmove\<close>, \<open>strtok\<close>) the
  object is an argument and the pointers are indices.
\<close>

subsection \<open>Copying\<close>

text \<open>\<open>*d++ = *s++\<close>, \<open>n\<close> times from position \<open>p\<close> of both objects on.\<close>

fun copy_bytes :: "bytes \<Rightarrow> bytes \<Rightarrow> nat \<Rightarrow> nat \<Rightarrow> bytes option" where
  "copy_bytes d s p 0 = Some d"
| "copy_bytes d s p (Suc n) = do {
     c \<leftarrow> rd_at s p;
     d' \<leftarrow> wr_at d p c;
     copy_bytes d' s (p + 1) n }"

fun copy_longs :: "bytes \<Rightarrow> bytes \<Rightarrow> nat \<Rightarrow> nat \<Rightarrow> bytes option" where
  "copy_longs d s p 0 = Some d"
| "copy_longs d s p (Suc n) = do {
     w \<leftarrow> rd_bytes s p 8;
     d' \<leftarrow> wr_bytes d p w;
     copy_longs d' s (p + 8) n }"

text \<open>The switch falls through, so that it copies 8 bytes or the remainder of \<open>n\<close> by 8.\<close>

definition memcpy_c :: "bytes \<Rightarrow> bytes \<Rightarrow> nat \<Rightarrow> bytes option" where
  "memcpy_c d s n =
     (if n = 0 then Some d
      else do {
        let i = (n + 7) div 8;
        let r = (if n mod 8 = 0 then 8 else n mod 8);
        d' \<leftarrow> copy_bytes d s 0 r;
        copy_longs d' s r (i - 1) })"

text \<open>\<open>memmove\<close> on one object: the pointer it returns and the object.\<close>

fun move_up :: "bytes \<Rightarrow> nat \<Rightarrow> nat \<Rightarrow> nat \<Rightarrow> (nat \<times> bytes) option" where
  "move_up m d s 0 = Some (d, m)"
| "move_up m d s (Suc n) = do {
     c \<leftarrow> rd_at m s;
     m' \<leftarrow> wr_at m d c;
     move_up m' (d + 1) (s + 1) n }"

fun move_down :: "bytes \<Rightarrow> nat \<Rightarrow> nat \<Rightarrow> nat \<Rightarrow> bytes option" where
  "move_down m d s 0 = Some m"
| "move_down m d s (Suc n) = do {
     c \<leftarrow> rd_at m (s + n);
     m' \<leftarrow> wr_at m (d + n) c;
     move_down m' d s n }"

definition memmove_c :: "bytes \<Rightarrow> nat \<Rightarrow> nat \<Rightarrow> nat \<Rightarrow> (nat \<times> bytes) option" where
  "memmove_c m d s n =
     (if s = d then Some (d, m)
      else if s > d then move_up m d s n
      else map_option (Pair d) (move_down m d s n))"

fun memset_c :: "bytes \<Rightarrow> int \<Rightarrow> nat \<Rightarrow> bytes option" where
  "memset_c s c 0 = Some s"
| "memset_c (x # s) c (Suc n) = map_option ((#) (of_int c)) (memset_c s c n)"
| "memset_c [] c (Suc n) = None"

subsection \<open>Comparing and searching\<close>

fun memcmp_c :: "bytes \<Rightarrow> bytes \<Rightarrow> nat \<Rightarrow> int option" where
  "memcmp_c (l # ls) (r # rs) n =
     (if l = r \<and> n \<noteq> 0 then memcmp_c ls rs (n - 1)
      else Some (if n \<noteq> 0 then char_diff l r else 0))"
| "memcmp_c _ _ _ = None"

fun strcmp_c :: "bytes \<Rightarrow> bytes \<Rightarrow> int option" where
  "strcmp_c (l # ls) (r # rs) =
     (if l \<noteq> 0 \<and> r \<noteq> 0 \<and> l = r then strcmp_c ls rs else Some (char_diff l r))"
| "strcmp_c _ _ = None"

fun strlen_c :: "bytes \<Rightarrow> nat option" where
  "strlen_c [] = None"
| "strlen_c (c # s) = (if c = 0 then Some 0 else map_option Suc (strlen_c s))"

fun strcnt_c :: "bytes \<Rightarrow> u8 \<Rightarrow> nat option" where
  "strcnt_c [] c = None"
| "strcnt_c (x # s) c =
     (if x = 0 then Some 0 else map_option (\<lambda>n. if c = x then n + 1 else n) (strcnt_c s c))"

text \<open>The inner option is the null pointer. \<open>c\<close> is an \<open>int\<close>; the terminator is never found.\<close>

fun strchr_c :: "bytes \<Rightarrow> int \<Rightarrow> nat option option" where
  "strchr_c [] c = None"
| "strchr_c (x # s) c =
     (if x = 0 then Some None
      else if int (unat x) = c then Some (Some 0)
      else map_option (map_option Suc) (strchr_c s c))"

fun strrchr_loop :: "bytes \<Rightarrow> int \<Rightarrow> nat \<Rightarrow> nat option \<Rightarrow> nat option option" where
  "strrchr_loop [] c i pos = None"
| "strrchr_loop (x # s) c i pos =
     (if x = 0 then Some pos
      else strrchr_loop s c (i + 1) (if int (unat x) = c then Some i else pos))"

definition strrchr_c :: "bytes \<Rightarrow> int \<Rightarrow> nat option option" where
  "strrchr_c s c = strrchr_loop s c 0 None"

text \<open>The inner loops of \<open>strspn\<close> and \<open>strcspn\<close>: whether \<open>x\<close> occurs in the string.\<close>

fun in_str :: "u8 \<Rightarrow> bytes \<Rightarrow> bool option" where
  "in_str x [] = None"
| "in_str x (c # s) = (if c = 0 then Some False else if x = c then Some True else in_str x s)"

fun strcspn_c :: "bytes \<Rightarrow> bytes \<Rightarrow> nat option" where
  "strcspn_c [] s2 = None"
| "strcspn_c (x # s) s2 =
     (if x = 0 then Some 0
      else do { found \<leftarrow> in_str x s2; if found then Some 0 else map_option Suc (strcspn_c s s2) })"

text \<open>\<open>strspn\<close> does not stop its inner loop at a match, which only costs time.\<close>

fun scan_str :: "u8 \<Rightarrow> bytes \<Rightarrow> bool \<Rightarrow> bool option" where
  "scan_str x [] found = None"
| "scan_str x (c # s) found = (if c = 0 then Some found else scan_str x s (if x = c then True else found))"

fun strspn_c :: "bytes \<Rightarrow> bytes \<Rightarrow> nat option" where
  "strspn_c [] s2 = None"
| "strspn_c (x # s) s2 =
     (if x = 0 then Some 0
      else do { found \<leftarrow> scan_str x s2 False; if found then map_option Suc (strspn_c s s2) else Some 0 })"

text \<open>
  \<open>strtok\<close>: the string it works on is an object, \<open>s\<close> and the static \<open>prev\<close> are positions in it. The
  results are the token, the new \<open>prev\<close> and the object.
\<close>

definition strtok_c ::
    "bytes \<Rightarrow> nat option \<Rightarrow> bytes \<Rightarrow> nat option \<Rightarrow> (nat option \<times> nat option \<times> bytes) option" where
  "strtok_c obj s sep prev =
     (case (if s = None then prev else s) of None \<Rightarrow> Some (None, prev, obj)
      | Some i \<Rightarrow> do {
          n \<leftarrow> strcspn_c (drop i obj) sep;
          c \<leftarrow> rd_at obj (i + n);
          if c = 0 then Some (Some i, None, obj)
          else do {
            obj' \<leftarrow> wr_at obj (i + n) 0;
            k \<leftarrow> strspn_c (drop (i + n + 1) obj') sep;
            Some (Some i, Some (i + n + 1 + k), obj') } })"

subsection \<open>Closed forms\<close>

lemma copy_bytes_eq:
  assumes "p + n \<le> length d" "p + n \<le> length s"
  shows "copy_bytes d s p n = Some (take p d @ take n (drop p s) @ drop (p + n) d)"
  using assms
proof (induction n arbitrary: d p)
  case (Suc n)
  have "take n (drop (Suc p) s) = take n (tl (drop p s))" by (simp add: drop_Suc drop_tl)
  moreover have "take (Suc n) (drop p s) = s ! p # take n (drop (Suc p) s)"
    using Suc.prems by (simp add: Cons_nth_drop_Suc [symmetric])
  ultimately show ?case
    using Suc.prems Suc.IH [of "Suc p" "d[p := s ! p]"] by (simp add: take_Suc_conv_app_nth)
qed simp

lemma copy_longs_eq:
  assumes "p + 8 * n \<le> length d" "p + 8 * n \<le> length s"
  shows "copy_longs d s p n = Some (take p d @ take (8 * n) (drop p s) @ drop (p + 8 * n) d)"
  using assms
proof (induction n arbitrary: d p)
  case (Suc n)
  define w where "w = take 8 (drop p s)"
  define d' where "d' = take p d @ w @ drop (p + 8) d"
  have w: "rd_bytes s p 8 = Some w" "length w = 8" using Suc.prems by (simp_all add: rd_bytes_def w_def)
  have d': "wr_bytes d p w = Some d'" "length d' = length d"
    using Suc.prems w(2) by (simp_all add: wr_bytes_def d'_def)
  have "take (8 + 8 * n) (drop p s) = w @ take (8 * n) (drop (p + 8) s)"
    by (simp only: take_add w_def drop_drop add.commute)
  moreover have "take (p + 8) d' = take p d @ w" "drop (p + 8 + 8 * n) d' = drop (p + 8 + 8 * n) d"
    using Suc.prems w(2) by (simp_all add: d'_def add.commute add.left_commute)
  ultimately show ?case
    using Suc.prems Suc.IH [of "p + 8" d'] w(1) d' by (simp add: add.assoc)
qed simp

lemma memcpy_c_eq [loop_simps]:
  assumes "n \<le> length d" "n \<le> length s"
  shows "memcpy_c d s n = Some (take n s @ drop n d)"
proof (cases "n = 0")
  case False
  define r where "r = (if n mod 8 = 0 then 8 else n mod 8)"
  define i where "i = (n + 7) div 8 - 1"
  have n: "n = r + 8 * i" 
  proof -
    have "n = 8 * (n div 8) + n mod 8" by simp
    moreover have "(n + 7) div 8 = (if n mod 8 = 0 then n div 8 else n div 8 + 1)"
      by (cases "n mod 8 = 0") (auto simp: div_add1_eq [of n 7])
    ultimately show ?thesis using False by (auto simp: r_def i_def)
  qed
  have "copy_bytes d s 0 r = Some (take r s @ drop r d)"
    using copy_bytes_eq [of 0 r d s] assms n by simp
  moreover have "copy_longs (take r s @ drop r d) s r i = Some (take n s @ drop n d)"
    using copy_longs_eq [of r i "take r s @ drop r d" s] assms n by (simp add: take_add add.commute)
  ultimately show ?thesis using False by (simp add: memcpy_c_def r_def i_def Let_def)
qed (simp add: memcpy_c_def)

lemma move_up_eq:
  assumes "d < s" "s + n \<le> length m"
  shows "move_up m d s n = Some (d + n, take d m @ take n (drop s m) @ drop (d + n) m)"
  using assms
proof (induction n arbitrary: m d s)
  case (Suc n)
  have "take (Suc n) (drop s m) = m ! s # take n (drop (Suc s) m)"
    using Suc.prems by (simp add: Cons_nth_drop_Suc [symmetric])
  then show ?case
    using Suc.prems Suc.IH [of "Suc d" "Suc s" "m[d := m ! s]"] by (simp add: take_Suc_conv_app_nth)
qed simp

lemma move_down_eq:
  assumes "s < d" "d + n \<le> length m"
  shows "move_down m d s n = Some (take d m @ take n (drop s m) @ drop (d + n) m)"
  using assms
proof (induction n arbitrary: m)
  case (Suc n)
  define m' where "m' = m[d + n := m ! (s + n)]"
  have "take (Suc n) (drop s m) = take n (drop s m) @ [m ! (s + n)]"
    using Suc.prems by (simp add: take_Suc_conv_app_nth)
  moreover have "take n (drop s m') = take n (drop s m)"
    using Suc.prems by (simp add: m'_def take_drop)
  moreover have "drop (d + n) m' = m ! (s + n) # drop (Suc (d + n)) m"
    using Suc.prems by (simp add: m'_def drop_update_swap Cons_nth_drop_Suc [symmetric])
  ultimately show ?case
    using Suc.prems Suc.IH [of m'] by (simp add: m'_def)
qed simp

text \<open>
  \<open>memmove\<close> copies the \<open>n\<close> bytes at \<open>s\<close> to \<open>d\<close> and changes nothing else, also where the two ranges
  overlap; \<open>memcpy\<close>, for ranges that do not, gives the same bytes. The pointer \<open>memmove\<close> returns is the
  destination only when it does not lie before the source; else it is the end of the destination.
\<close>

lemma memmove_overlap:
  assumes "s + n \<le> length m" "d + n \<le> length m"
  shows "memmove_c m d s n =
      Some (if d < s then d + n else d, take d m @ take n (drop s m) @ drop (d + n) m) \<and>
    memcpy_c (drop d m) (drop s m) n = Some (take n (drop s m) @ drop n (drop d m))"
proof
  show "memmove_c m d s n =
      Some (if d < s then d + n else d, take d m @ take n (drop s m) @ drop (d + n) m)"
  proof (cases d s rule: linorder_cases)
    case less
    with move_up_eq [of d s n m] assms show ?thesis by (simp add: memmove_c_def)
  next
    case equal
    have "take d m @ take n (drop d m) @ drop (d + n) m = m"
      by (metis append_assoc append_take_drop_id take_add)
    with equal show ?thesis by (simp add: memmove_c_def)
  next
    case greater
    with move_down_eq [of s d n m] assms show ?thesis by (simp add: memmove_c_def)
  qed
  show "memcpy_c (drop d m) (drop s m) n = Some (take n (drop s m) @ drop n (drop d m))"
    using assms by (intro memcpy_c_eq) auto
qed

lemma memmove_overlap_witness:
  "memmove_c [1, 2, 3, 4] 1 0 3 = Some (1, [1, 1, 2, 3]) \<and> memmove_c [1, 2, 3, 4] 0 1 3 = Some (3, [2, 3, 4, 4])"
  using memmove_overlap [of 0 3 "[1, 2, 3, 4]" 1] memmove_overlap [of 1 3 "[1, 2, 3, 4]" 0] by simp

subsection \<open>Copies of strings\<close>

text \<open>
  The loops of \<open>strcpy\<close> and \<open>strncpy\<close> go on while the pointer to the source is not null, and only move pointers:
  nothing is stored. \<open>src\<close> is the rest of the object, \<open>None\<close> the null pointer; a pointer that leaves its object
  by more than one is undefined behaviour.
\<close>

fun strcpy_loop :: "bytes \<Rightarrow> unit option" where
  "strcpy_loop [] = None"
| "strcpy_loop (c # src) = strcpy_loop src"

definition strcpy_c :: "bytes \<Rightarrow> bytes option \<Rightarrow> bytes option" where
  "strcpy_c s1 s2 = (case s2 of None \<Rightarrow> Some s1 | Some src \<Rightarrow> map_option (\<lambda>_. s1) (strcpy_loop src))"

fun strncpy_loop :: "bytes \<Rightarrow> nat \<Rightarrow> unit option" where
  "strncpy_loop src 0 = Some ()"
| "strncpy_loop [] (Suc n) = None"
| "strncpy_loop (c # src) (Suc n) = strncpy_loop src n"

definition strncpy_c :: "bytes \<Rightarrow> bytes option \<Rightarrow> nat \<Rightarrow> bytes option" where
  "strncpy_c s1 s2 n = (case s2 of None \<Rightarrow> Some s1 | Some src \<Rightarrow> map_option (\<lambda>_. s1) (strncpy_loop src n))"

text \<open>A copy of a string never ends well: there is no result for any source.\<close>

lemma strcpy_never: "strcpy_c s1 (Some src) = None"
proof -
  have "strcpy_loop src = None" by (induction src) auto
  then show ?thesis by (simp add: strcpy_c_def)
qed

lemma strncpy_stores_nothing: "strncpy_c s1 (Some src) n = (if n \<le> length src then Some s1 else None)"
proof -
  have "strncpy_loop src n = (if n \<le> length src then Some () else None)"
    by (induction src n rule: strncpy_loop.induct) auto
  then show ?thesis by (simp add: strncpy_c_def)
qed

end
