(* ===== verification/Pstring.thy ===== *)
theory Pstring
  imports Libc_String Bytes
begin

text \<open>
  Length-prefixed strings (\<^verbatim>\<open>lib/c/pstring\<close>): two bytes of length, little-endian, and the characters. A
  pointer to one is the list of bytes from the pointer on. \<open>malloc\<close> is an argument: the object it
  returns for a size, \<open>None\<close> for the null pointer. In a result the outer option is undefined behaviour
  and the inner one the null pointer; the object is returned as it is after the call.
\<close>

definition SHRT_MAX :: nat where [layout_simps]: "SHRT_MAX = 32767"

text \<open>A loop of assignments \<open>d[p + i] = s[q + i]\<close>.\<close>

fun copy_at :: "bytes \<Rightarrow> nat \<Rightarrow> bytes \<Rightarrow> nat \<Rightarrow> nat \<Rightarrow> bytes option" where
  "copy_at d p s q 0 = Some d"
| "copy_at d p s q (Suc n) = do {
     c \<leftarrow> rd_at s q;
     d' \<leftarrow> wr_at d p c;
     copy_at d' (p + 1) s (q + 1) n }"

definition pstr_len :: "bytes \<Rightarrow> nat option" where
  "pstr_len s = rd_le 2 s 0"

definition pstrlen :: "bytes \<Rightarrow> nat option" where
  "pstrlen s = map_option (\<lambda>len. 2 + len) (pstr_len s)"

definition pstriter :: "bytes \<Rightarrow> bytes option" where
  "pstriter s = map_option (\<lambda>n. drop n s) (pstrlen s)"

definition pstrconv :: "(nat \<Rightarrow> bytes option) \<Rightarrow> bytes option \<Rightarrow> bytes \<Rightarrow> nat \<Rightarrow> bytes option option" where
  "pstrconv malloc dest src n = do {
     len \<leftarrow> strlen_c src;
     let sz = len + 2;
     if len > SHRT_MAX then Some None
     else if dest \<noteq> None \<and> sz > n then Some None
     else case (if dest = None then malloc sz else dest) of None \<Rightarrow> Some None
       | Some pstr \<Rightarrow> do {
           pstr1 \<leftarrow> wr_bytes pstr 0 (le_bytes 2 len);
           pstr2 \<leftarrow> copy_at pstr1 2 src 0 len;
           Some (Some pstr2) } }"

definition pstrdup :: "(nat \<Rightarrow> bytes option) \<Rightarrow> bytes option \<Rightarrow> bytes \<Rightarrow> nat \<Rightarrow> bytes option option" where
  "pstrdup malloc dest src n = do {
     sz \<leftarrow> pstrlen src;
     if dest \<noteq> None \<and> sz > n then Some None
     else case (if dest = None then malloc sz else dest) of None \<Rightarrow> Some None
       | Some pstr \<Rightarrow> do {
           len \<leftarrow> pstr_len src;
           pstr1 \<leftarrow> wr_bytes pstr 0 (le_bytes 2 len);
           pstr2 \<leftarrow> copy_at pstr1 2 src 2 len;
           Some (Some pstr2) } }"

definition pstrtoz :: "(nat \<Rightarrow> bytes option) \<Rightarrow> bytes option \<Rightarrow> bytes \<Rightarrow> nat \<Rightarrow> bytes option option" where
  "pstrtoz malloc dest src n = do {
     len \<leftarrow> pstr_len src;
     if dest \<noteq> None \<and> n < len then Some None
     else case (if dest = None then malloc (len + 1) else dest) of None \<Rightarrow> Some None
       | Some str \<Rightarrow> do {
           str1 \<leftarrow> copy_at str 0 src 2 len;
           str2 \<leftarrow> wr_at str1 len 0;
           Some (Some str2) } }"

subsection \<open>Closed forms\<close>

lemma copy_at_eq [loop_simps]:
  assumes "p + n \<le> length d" "q + n \<le> length s"
  shows "copy_at d p s q n = wr_bytes d p (take n (drop q s))"
  using assms
proof (induction n arbitrary: d p q)
  case (Suc n)
  have "take (Suc n) (drop q s) = s ! q # take n (drop (Suc q) s)"
    using Suc.prems by (simp add: Cons_nth_drop_Suc [symmetric])
  then show ?case
    using Suc.prems Suc.IH [of "Suc p" "d[p := s ! q]" "Suc q"]
    by (simp add: wr_bytes_def take_Suc_conv_app_nth)
qed simp

text \<open>The bytes of the string with the characters \<open>cs\<close>.\<close>

definition pstr :: "bytes \<Rightarrow> bytes" where
  "pstr cs = le_bytes 2 (length cs) @ cs"

lemma length_pstr [simp]: "length (pstr cs) = length cs + 2"
  by (simp add: pstr_def)

lemma le_bytes_2: "le_bytes 2 v = [of_nat v, of_nat (v div 256)]"
  by (simp add: numeral_2_eq_2)

lemma pstr_len_pstr [simp]: "length cs < 65536 \<Longrightarrow> pstr_len (pstr cs @ t) = Some (length cs)"
  using rd_le_append [of "length cs" 2 "[]" "cs @ t"] by (simp add: pstr_len_def pstr_def)

lemma pstrlen_pstr [simp]: "length cs < 65536 \<Longrightarrow> pstrlen (pstr cs @ t) = Some (length cs + 2)"
  by (simp add: pstrlen_def)

lemma pstr_at_2: "take (length cs) (drop 2 (pstr cs @ t)) = cs"
  by (simp add: pstr_def)

lemma drop_2_pstr [simp]: "drop 2 (pstr cs) = cs"
  by (simp add: pstr_def)

lemma pstrconv_in:
  assumes "terminated src" "length (c_str src) \<le> SHRT_MAX" "length (c_str src) + 2 \<le> n" "n \<le> length d"
  shows "pstrconv malloc (Some d) src n =
    Some (Some (pstr (c_str src) @ drop (length (c_str src) + 2) d))"
proof -
  have len: "strlen_c src = Some (length (c_str src))"
    using assms(1) by (induction src) auto
  have src: "take (length (c_str src)) src = c_str src"
    by (simp add: c_str_def takeWhile_eq_take [symmetric])
  have "length (c_str src) \<le> length src" by (simp add: c_str_def length_takeWhile_le)
  then have "copy_at (le_bytes 2 (length (c_str src)) @ drop 2 d) 2 src 0 (length (c_str src)) =
      Some (pstr (c_str src) @ drop (length (c_str src) + 2) d)"
    using assms src by (simp add: copy_at_eq wr_bytes_def pstr_def)
  moreover have "wr_bytes d 0 (le_bytes 2 (length (c_str src))) =
      Some (le_bytes 2 (length (c_str src)) @ drop 2 d)"
    using assms by (simp add: wr_bytes_def numeral_2_eq_2)
  ultimately show ?thesis using assms len by (simp add: pstrconv_def Let_def)
qed

lemma pstrtoz_in:
  assumes "length cs < 65536" "length cs \<le> n" "length cs < length d"
  shows "pstrtoz malloc (Some d) (pstr cs @ t) n = Some (Some (cs @ 0 # drop (length cs + 1) d))"
proof -
  have "(cs @ drop (length cs) d)[length cs := 0] = cs @ 0 # drop (length cs + 1) d"
    using assms(3) by (simp add: list_update_append Cons_nth_drop_Suc [symmetric])
  with assms show ?thesis
    by (simp add: pstrtoz_def copy_at_eq wr_bytes_def pstr_at_2 wr_at_def)
qed

end
