(* ===== verification/Fcall.thy ===== *)
theory Fcall
  imports Pstring
begin

text \<open>
  The messages of the file system protocol (\<^verbatim>\<open>lib/c/fcall\<close>, \<^verbatim>\<open>lib/c/include/fcall.h\<close>): their size, writing one
  into a buffer and reading one from a buffer.

  \<open>fcall\<close> is a structure with a union; here every member of the union has its own field. The functions
  touch the members of the structure that belongs to the type of the message only, each before it is
  read, so the overlap of the members is not visible in them. A pointer in the structure is the list of
  bytes it leads to, as it is when the function runs; the destination buffer must not overlap it.
\<close>

definition CHAR_SIZE :: nat where [layout_simps]: "CHAR_SIZE = 1"
definition SHRT_SIZE :: nat where [layout_simps]: "SHRT_SIZE = 2"
definition INT_SIZE :: nat where [layout_simps]: "INT_SIZE = 4"
definition LONG_SIZE :: nat where [layout_simps]: "LONG_SIZE = 8"

record qid =
  q_type :: u32
  q_version :: u32
  q_id :: u64

definition SIZEOF_QID :: nat where [layout_simps]: "SIZEOF_QID = 16"

record fcall =
  f_fid :: u32
  f_type :: u8
  f_tag :: u16
  f_msize :: u32
  f_version :: bytes
  f_ename :: bytes
  f_afid :: u32
  f_uname :: bytes
  f_aname :: bytes
  f_qid :: qid
  f_iounit :: u32
  f_newfid :: u32
  f_nwname :: u16
  f_wname :: bytes
  f_nwqid :: u16
  f_wqid :: bytes
  f_name :: bytes
  f_perm :: u32
  f_mode :: u8
  f_offset :: u64
  f_count :: u32
  f_data :: bytes
  f_nstat :: u16
  f_stat :: bytes
  f_mfid :: u32

text \<open>\<open>enum fcall_types\<close>, counted from \<open>Tversion = 100\<close>.\<close>

datatype fcall_types =
    Tversion | Rversion | Terror | Rerror | Tattach | Rattach | Twalk | Rwalk | Topen | Ropen
  | Tcreate | Rcreate | Tread | Rread | Twrite | Rwrite | Tclunk | Rclunk | Tstat | Rstat
  | Tmount | Rmount

definition fcall_type_list :: "fcall_types list" where
  "fcall_type_list = [Tversion, Rversion, Terror, Rerror, Tattach, Rattach, Twalk, Rwalk, Topen, Ropen,
     Tcreate, Rcreate, Tread, Rread, Twrite, Rwrite, Tclunk, Rclunk, Tstat, Rstat, Tmount, Rmount]"

definition type_of :: "u8 \<Rightarrow> fcall_types option" where
  "type_of c = (if c < 100 then None else rd_at fcall_type_list (unat c - 100))"

subsection \<open>The size\<close>

text \<open>The walk over \<open>nwname\<close> strings that lie behind each other.\<close>

fun wname_size :: "bytes \<Rightarrow> nat \<Rightarrow> nat option" where
  "wname_size s 0 = Some 0"
| "wname_size s (Suc n) = do {
     len \<leftarrow> pstrlen s;
     rest \<leftarrow> wname_size (drop len s) n;
     Some (len + rest) }"

definition fcall_body_size :: "fcall_types \<Rightarrow> fcall \<Rightarrow> nat option" where
  "fcall_body_size ty f = (case ty of
     Tversion \<Rightarrow> map_option (\<lambda>n. INT_SIZE + n) (pstrlen (f_version f))
   | Rversion \<Rightarrow> map_option (\<lambda>n. INT_SIZE + n) (pstrlen (f_version f))
   | Terror \<Rightarrow> None
   | Rerror \<Rightarrow> pstrlen (f_ename f)
   | Tattach \<Rightarrow> do { u \<leftarrow> pstrlen (f_uname f); a \<leftarrow> pstrlen (f_aname f); Some (INT_SIZE + INT_SIZE + u + a) }
   | Rattach \<Rightarrow> Some SIZEOF_QID
   | Twalk \<Rightarrow> map_option (\<lambda>n. INT_SIZE + INT_SIZE + SHRT_SIZE + n) (wname_size (f_wname f) (unat (f_nwname f)))
   | Rwalk \<Rightarrow> Some (SHRT_SIZE + SIZEOF_QID * unat (f_nwqid f))
   | Topen \<Rightarrow> Some (INT_SIZE + CHAR_SIZE)
   | Ropen \<Rightarrow> Some (SIZEOF_QID + INT_SIZE)
   | Rcreate \<Rightarrow> Some (SIZEOF_QID + INT_SIZE)
   | Tcreate \<Rightarrow> map_option (\<lambda>n. INT_SIZE + n + INT_SIZE + CHAR_SIZE) (pstrlen (f_name f))
   | Tread \<Rightarrow> Some (INT_SIZE + LONG_SIZE + INT_SIZE)
   | Rread \<Rightarrow> Some (INT_SIZE + unat (f_count f))
   | Twrite \<Rightarrow> Some (INT_SIZE + LONG_SIZE + INT_SIZE + unat (f_count f))
   | Rwrite \<Rightarrow> Some INT_SIZE
   | Tclunk \<Rightarrow> Some INT_SIZE
   | Tstat \<Rightarrow> Some INT_SIZE
   | Rclunk \<Rightarrow> Some 0
   | Rstat \<Rightarrow> Some (SHRT_SIZE + unat (f_nstat f))
   | Tmount \<Rightarrow> Some (INT_SIZE + INT_SIZE)
   | Rmount \<Rightarrow> Some SIZEOF_QID)"

text \<open>The sum is a \<open>size_t\<close>; the result is cut to an \<open>unsigned\<close>. An unknown type gives 0.\<close>

definition fcall_msg_size :: "fcall \<Rightarrow> u32 option" where
  "fcall_msg_size f = (case type_of (f_type f) of None \<Rightarrow> Some 0
     | Some ty \<Rightarrow> if ty = Terror then Some 0
         else map_option (\<lambda>n. of_nat (INT_SIZE + CHAR_SIZE + SHRT_SIZE + n)) (fcall_body_size ty f))"

subsection \<open>Writing\<close>

text \<open>Each function writes at a position of the buffer and gives the number of bytes written.\<close>

definition put_uchar :: "bytes \<Rightarrow> nat \<Rightarrow> u16 \<Rightarrow> (nat \<times> bytes) option" where
  "put_uchar buf p v = map_option (Pair CHAR_SIZE) (wr_at buf p (ucast v))"

definition put_ushort :: "bytes \<Rightarrow> nat \<Rightarrow> u16 \<Rightarrow> (nat \<times> bytes) option" where
  "put_ushort buf p v = do {
     buf1 \<leftarrow> wr_at buf p (ucast v);
     buf2 \<leftarrow> wr_at buf1 (p + 1) (ucast (drop_bit 8 v));
     Some (SHRT_SIZE, buf2) }"

definition put_uint :: "bytes \<Rightarrow> nat \<Rightarrow> u32 \<Rightarrow> (nat \<times> bytes) option" where
  "put_uint buf p v = do {
     buf1 \<leftarrow> wr_at buf p (ucast v);
     buf2 \<leftarrow> wr_at buf1 (p + 1) (ucast (drop_bit 8 v));
     buf3 \<leftarrow> wr_at buf2 (p + 2) (ucast (drop_bit 16 v));
     buf4 \<leftarrow> wr_at buf3 (p + 3) (ucast (drop_bit 24 v));
     Some (INT_SIZE, buf4) }"

definition put_ulong :: "bytes \<Rightarrow> nat \<Rightarrow> u64 \<Rightarrow> (nat \<times> bytes) option" where
  "put_ulong buf p v = do {
     buf1 \<leftarrow> wr_at buf p (ucast v);
     buf2 \<leftarrow> wr_at buf1 (p + 1) (ucast (drop_bit 8 v));
     buf3 \<leftarrow> wr_at buf2 (p + 2) (ucast (drop_bit 16 v));
     buf4 \<leftarrow> wr_at buf3 (p + 3) (ucast (drop_bit 24 v));
     buf5 \<leftarrow> wr_at buf4 (p + 4) (ucast (drop_bit 32 v));
     buf6 \<leftarrow> wr_at buf5 (p + 5) (ucast (drop_bit 40 v));
     buf7 \<leftarrow> wr_at buf6 (p + 6) (ucast (drop_bit 48 v));
     buf8 \<leftarrow> wr_at buf7 (p + 7) (ucast (drop_bit 56 v));
     Some (LONG_SIZE, buf8) }"

definition put_pstring :: "bytes \<Rightarrow> nat \<Rightarrow> bytes \<Rightarrow> (nat \<times> bytes) option" where
  "put_pstring buf p s = do {
     len \<leftarrow> pstr_len s;
     (i, buf1) \<leftarrow> put_ushort buf p (of_nat len);
     total \<leftarrow> pstrlen s;
     buf2 \<leftarrow> copy_at buf1 (p + i) s 2 (total - i);
     Some (total, buf2) }"

definition put_qid :: "bytes \<Rightarrow> nat \<Rightarrow> qid \<Rightarrow> (nat \<times> bytes) option" where
  "put_qid buf p q = do {
     (n, buf1) \<leftarrow> put_uint buf p (q_type q);
     (n', buf2) \<leftarrow> put_uint buf1 (p + n) (q_version q);
     (n'', buf3) \<leftarrow> put_ulong buf2 (p + (n + n')) (q_id q);
     Some (n + n' + n'', buf3) }"

text \<open>\<open>ptr += put(ptr, val)\<close>\<close>

definition advance :: "(bytes \<Rightarrow> nat \<Rightarrow> 'a \<Rightarrow> (nat \<times> bytes) option) \<Rightarrow> 'a \<Rightarrow> nat \<times> bytes \<Rightarrow> (nat \<times> bytes) option" where
  "advance put v = (\<lambda>(p, buf). map_option (\<lambda>(n, buf'). (p + n, buf')) (put buf p v))"

text \<open>A copy of \<open>n\<close> bytes with \<open>memmove\<close> or \<open>memcpy\<close>.\<close>

definition put_data :: "nat \<Rightarrow> bytes \<Rightarrow> nat \<Rightarrow> bytes \<Rightarrow> (nat \<times> bytes) option" where
  "put_data n buf p s = do {
     bs \<leftarrow> rd_bytes s 0 n;
     buf' \<leftarrow> wr_bytes buf p bs;
     Some (n, buf') }"

fun put_wname :: "nat \<Rightarrow> bytes \<Rightarrow> nat \<times> bytes \<Rightarrow> (nat \<times> bytes) option" where
  "put_wname 0 s c = Some c"
| "put_wname (Suc n) s c = do {
     c' \<leftarrow> advance put_pstring s c;
     len \<leftarrow> pstrlen s;
     put_wname n (drop len s) c' }"

text \<open>The \<open>i\<close>-th element of an array of \<open>struct qid\<close>.\<close>

definition load_qid :: "bytes \<Rightarrow> nat \<Rightarrow> qid option" where
  "load_qid s i = do {
     ty \<leftarrow> rd_le 4 s (16 * i);
     ver \<leftarrow> rd_le 4 s (16 * i + 4);
     mid \<leftarrow> rd_le 8 s (16 * i + 8);
     Some \<lparr>q_type = of_nat ty, q_version = of_nat ver, q_id = of_nat mid\<rparr> }"

fun put_wqid :: "nat list \<Rightarrow> bytes \<Rightarrow> nat \<times> bytes \<Rightarrow> (nat \<times> bytes) option" where
  "put_wqid [] s c = Some c"
| "put_wqid (i # is) s c = do {
     q \<leftarrow> load_qid s i;
     c' \<leftarrow> advance put_qid q c;
     put_wqid is s c' }"

definition put_body :: "fcall_types \<Rightarrow> fcall \<Rightarrow> nat \<times> bytes \<Rightarrow> (nat \<times> bytes) option" where
  "put_body ty f c = (case ty of
     Tversion \<Rightarrow> do { c \<leftarrow> advance put_uint (f_msize f) c; advance put_pstring (f_version f) c }
   | Rversion \<Rightarrow> do { c \<leftarrow> advance put_uint (f_msize f) c; advance put_pstring (f_version f) c }
   | Terror \<Rightarrow> Some c
   | Rerror \<Rightarrow> advance put_pstring (f_ename f) c
   | Tattach \<Rightarrow> do {
       c \<leftarrow> advance put_uint (f_fid f) c;
       c \<leftarrow> advance put_uint (f_afid f) c;
       c \<leftarrow> advance put_pstring (f_uname f) c;
       advance put_pstring (f_aname f) c }
   | Rattach \<Rightarrow> advance put_qid (f_qid f) c
   | Rmount \<Rightarrow> advance put_qid (f_qid f) c
   | Twalk \<Rightarrow> do {
       c \<leftarrow> advance put_uint (f_fid f) c;
       c \<leftarrow> advance put_uint (f_newfid f) c;
       c \<leftarrow> advance put_ushort (f_nwname f) c;
       put_wname (unat (f_nwname f)) (f_wname f) c }
   | Rwalk \<Rightarrow> do {
       c \<leftarrow> advance put_ushort (f_nwqid f) c;
       put_wqid [0..<unat (f_nwqid f)] (f_wqid f) c }
   | Topen \<Rightarrow> do { c \<leftarrow> advance put_uint (f_fid f) c; advance put_uchar (ucast (f_mode f)) c }
   | Ropen \<Rightarrow> do { c \<leftarrow> advance put_qid (f_qid f) c; advance put_uint (f_iounit f) c }
   | Rcreate \<Rightarrow> do { c \<leftarrow> advance put_qid (f_qid f) c; advance put_uint (f_iounit f) c }
   | Tcreate \<Rightarrow> do {
       c \<leftarrow> advance put_uint (f_fid f) c;
       c \<leftarrow> advance put_pstring (f_name f) c;
       c \<leftarrow> advance put_uint (f_perm f) c;
       advance put_uchar (ucast (f_mode f)) c }
   | Tread \<Rightarrow> do {
       c \<leftarrow> advance put_uint (f_fid f) c;
       c \<leftarrow> advance put_ulong (f_offset f) c;
       advance put_uint (f_count f) c }
   | Rread \<Rightarrow> do {
       c \<leftarrow> advance put_uint (f_count f) c;
       advance (put_data (unat (f_count f))) (f_data f) c }
   | Twrite \<Rightarrow> do {
       c \<leftarrow> advance put_uint (f_fid f) c;
       c \<leftarrow> advance put_ulong (f_offset f) c;
       c \<leftarrow> advance put_uint (f_count f) c;
       advance (put_data (unat (f_count f))) (f_data f) c }
   | Rwrite \<Rightarrow> advance put_uint (f_count f) c
   | Tclunk \<Rightarrow> advance put_uint (f_fid f) c
   | Tstat \<Rightarrow> advance put_uint (f_fid f) c
   | Rstat \<Rightarrow> do {
       c \<leftarrow> advance put_ushort (f_nstat f) c;
       advance (put_data (unat (f_nstat f))) (f_stat f) c }
   | Tmount \<Rightarrow> do { c \<leftarrow> advance put_uint (f_fid f) c; advance put_uint (f_mfid f) c }
   | Rclunk \<Rightarrow> Some c)"

text \<open>\<open>sz\<close> is 0 when the type is unknown, so that the message is refused.\<close>

definition fcall_msg_to_buf :: "fcall \<Rightarrow> bytes \<Rightarrow> u32 \<Rightarrow> (u32 \<times> bytes) option" where
  "fcall_msg_to_buf f buf len = do {
     sz \<leftarrow> fcall_msg_size f;
     if sz = 0 \<or> sz > len then Some (0, buf)
     else do {
       sz' \<leftarrow> fcall_msg_size f;
       c \<leftarrow> advance put_uint sz' (0, buf);
       c \<leftarrow> advance put_uchar (ucast (f_type f)) c;
       c \<leftarrow> advance put_ushort (f_tag f) c;
       (p, buf') \<leftarrow> (case type_of (f_type f) of None \<Rightarrow> Some c | Some ty \<Rightarrow> put_body ty f c);
       Some (of_nat p, buf') } }"

subsection \<open>Reading\<close>

definition get_uchar :: "bytes \<Rightarrow> nat \<Rightarrow> u8 option" where
  "get_uchar buf p = rd_at buf p"

definition get_ushort :: "bytes \<Rightarrow> nat \<Rightarrow> u16 option" where
  "get_ushort buf p = do {
     b0 \<leftarrow> rd_at buf p;
     b1 \<leftarrow> rd_at buf (p + 1);
     Some (ucast b0 OR push_bit 8 (ucast b1)) }"

definition get_uint :: "bytes \<Rightarrow> nat \<Rightarrow> u32 option" where
  "get_uint buf p = do {
     b0 \<leftarrow> rd_at buf p;
     b1 \<leftarrow> rd_at buf (p + 1);
     b2 \<leftarrow> rd_at buf (p + 2);
     b3 \<leftarrow> rd_at buf (p + 3);
     Some (ucast b0 OR push_bit 8 (ucast b1) OR push_bit 16 (ucast b2) OR push_bit 24 (ucast b3)) }"

definition get_ulong :: "bytes \<Rightarrow> nat \<Rightarrow> u64 option" where
  "get_ulong buf p = do {
     lo \<leftarrow> get_uint buf p;
     hi \<leftarrow> get_uint buf (p + 4);
     Some (ucast lo OR push_bit 32 (ucast hi)) }"

text \<open>\<open>fcall->version = (pstring *) ptr; ptr += pstrlen(fcall->version)\<close>: the pointer and the position behind.\<close>

definition get_pstr :: "bytes \<Rightarrow> nat \<Rightarrow> (bytes \<times> nat) option" where
  "get_pstr buf p = map_option (\<lambda>n. (drop p buf, p + n)) (pstrlen (drop p buf))"

definition get_qid :: "bytes \<Rightarrow> nat \<Rightarrow> qid option" where
  "get_qid buf p = do {
     ty \<leftarrow> get_uint buf p;
     ver \<leftarrow> get_uint buf (p + INT_SIZE);
     mid \<leftarrow> get_ulong buf (p + INT_SIZE + INT_SIZE);
     Some \<lparr>q_type = ty, q_version = ver, q_id = mid\<rparr> }"

text \<open>Passing over \<open>n\<close> strings.\<close>

fun skip_wname :: "nat \<Rightarrow> bytes \<Rightarrow> nat \<Rightarrow> nat option" where
  "skip_wname 0 buf p = Some p"
| "skip_wname (Suc n) buf p = do {
     len \<leftarrow> pstrlen (drop p buf);
     skip_wname n buf (p + len) }"

definition get_body :: "fcall_types \<Rightarrow> bytes \<Rightarrow> nat \<Rightarrow> fcall \<Rightarrow> (nat \<times> fcall) option" where
  "get_body ty buf p f =
     (let version = do {
          ms \<leftarrow> get_uint buf p;
          (s, p1) \<leftarrow> get_pstr buf (p + INT_SIZE);
          Some (p1, f\<lparr>f_msize := ms, f_version := s\<rparr>) };
        qid_only = do { q \<leftarrow> get_qid buf p; Some (p + SIZEOF_QID, f\<lparr>f_qid := q\<rparr>) };
        qid_iounit = do {
          q \<leftarrow> get_qid buf p;
          io \<leftarrow> get_uint buf (p + SIZEOF_QID);
          Some (p + SIZEOF_QID + INT_SIZE, f\<lparr>f_qid := q, f_iounit := io\<rparr>) };
        fid_only = do { fd \<leftarrow> get_uint buf p; Some (p + INT_SIZE, f\<lparr>f_fid := fd\<rparr>) }
      in case ty of
     Tversion \<Rightarrow> version
   | Rversion \<Rightarrow> version
   | Terror \<Rightarrow> None
   | Rerror \<Rightarrow> do { (s, p1) \<leftarrow> get_pstr buf p; Some (p1, f\<lparr>f_ename := s\<rparr>) }
   | Tattach \<Rightarrow> do {
       fd \<leftarrow> get_uint buf p;
       afd \<leftarrow> get_uint buf (p + INT_SIZE);
       (u, p1) \<leftarrow> get_pstr buf (p + INT_SIZE + INT_SIZE);
       (a, p2) \<leftarrow> get_pstr buf p1;
       Some (p2, f\<lparr>f_fid := fd, f_afid := afd, f_uname := u, f_aname := a\<rparr>) }
   | Rattach \<Rightarrow> qid_only
   | Rmount \<Rightarrow> qid_only
   | Twalk \<Rightarrow> do {
       fd \<leftarrow> get_uint buf p;
       nfd \<leftarrow> get_uint buf (p + INT_SIZE);
       n \<leftarrow> get_ushort buf (p + INT_SIZE + INT_SIZE);
       let p1 = p + INT_SIZE + INT_SIZE + SHRT_SIZE;
       p2 \<leftarrow> skip_wname (unat n) buf p1;
       Some (p2, f\<lparr>f_fid := fd, f_newfid := nfd, f_nwname := n, f_wname := drop p1 buf\<rparr>) }
   | Rwalk \<Rightarrow> do {
       n \<leftarrow> get_ushort buf p;
       let p1 = p + SHRT_SIZE;
       Some (p1 + unat n * SIZEOF_QID, f\<lparr>f_nwqid := n, f_wqid := drop p1 buf\<rparr>) }
   | Topen \<Rightarrow> do {
       fd \<leftarrow> get_uint buf p;
       md \<leftarrow> get_uchar buf (p + INT_SIZE);
       Some (p + INT_SIZE + CHAR_SIZE, f\<lparr>f_fid := fd, f_mode := md\<rparr>) }
   | Ropen \<Rightarrow> qid_iounit
   | Rcreate \<Rightarrow> qid_iounit
   | Tcreate \<Rightarrow> do {
       fd \<leftarrow> get_uint buf p;
       (s, p1) \<leftarrow> get_pstr buf (p + INT_SIZE);
       pm \<leftarrow> get_uint buf p1;
       md \<leftarrow> get_uchar buf (p1 + INT_SIZE);
       Some (p1 + INT_SIZE + CHAR_SIZE, f\<lparr>f_fid := fd, f_name := s, f_perm := pm, f_mode := md\<rparr>) }
   | Tread \<Rightarrow> do {
       fd \<leftarrow> get_uint buf p;
       off \<leftarrow> get_ulong buf (p + INT_SIZE);
       n \<leftarrow> get_uint buf (p + INT_SIZE + LONG_SIZE);
       Some (p + INT_SIZE + LONG_SIZE + INT_SIZE, f\<lparr>f_fid := fd, f_offset := off, f_count := n\<rparr>) }
   | Rread \<Rightarrow> do {
       n \<leftarrow> get_uint buf p;
       let p1 = p + INT_SIZE;
       Some (p1 + unat n, f\<lparr>f_count := n, f_data := drop p1 buf\<rparr>) }
   | Twrite \<Rightarrow> do {
       fd \<leftarrow> get_uint buf p;
       off \<leftarrow> get_ulong buf (p + INT_SIZE);
       n \<leftarrow> get_uint buf (p + INT_SIZE + LONG_SIZE);
       let p1 = p + INT_SIZE + LONG_SIZE + INT_SIZE;
       Some (p1 + unat n, f\<lparr>f_fid := fd, f_offset := off, f_count := n, f_data := drop p1 buf\<rparr>) }
   | Rwrite \<Rightarrow> do { n \<leftarrow> get_uint buf p; Some (p + INT_SIZE, f\<lparr>f_count := n\<rparr>) }
   | Tclunk \<Rightarrow> fid_only
   | Tstat \<Rightarrow> fid_only
   | Rclunk \<Rightarrow> Some (p, f)
   | Rstat \<Rightarrow> do {
       n \<leftarrow> get_ushort buf p;
       let p1 = p + SHRT_SIZE;
       Some (p1 + unat n, f\<lparr>f_nstat := n, f_stat := drop p1 buf\<rparr>) }
   | Tmount \<Rightarrow> do {
       fd \<leftarrow> get_uint buf p;
       mfd \<leftarrow> get_uint buf (p + INT_SIZE);
       Some (p + INT_SIZE + INT_SIZE, f\<lparr>f_fid := fd, f_mfid := mfd\<rparr>) })"

text \<open>The second argument is what the structure holds before.\<close>

definition fcall_buf_to_msg :: "bytes \<Rightarrow> fcall \<Rightarrow> (u32 \<times> fcall) option" where
  "fcall_buf_to_msg buf f = do {
     sz \<leftarrow> get_uint buf 0;
     ty \<leftarrow> get_uchar buf INT_SIZE;
     tag \<leftarrow> get_ushort buf (INT_SIZE + CHAR_SIZE);
     let f1 = f\<lparr>f_type := ty, f_tag := tag\<rparr>;
     case type_of ty of None \<Rightarrow> Some (0, f1)
     | Some t \<Rightarrow> if t = Terror then Some (0, f1)
         else do {
           (p, f2) \<leftarrow> get_body t buf (INT_SIZE + CHAR_SIZE + SHRT_SIZE) f1;
           Some (if unat sz \<noteq> p then 0 else sz, f2) } }"

end
