(* ===== verification/Fcall_Wire.thy ===== *)
theory Fcall_Wire
  imports Fcall
begin

text \<open>
  What a file system message is on the wire: the functions of \<^theory_text>\<open>Fcall\<close> write a header and the fields of
  the message type, one behind the other, and read them back.
\<close>

subsection \<open>A value at a position of a buffer\<close>

definition holds_at :: "bytes \<Rightarrow> nat \<Rightarrow> bytes \<Rightarrow> bool" where
  "holds_at buf p bs \<longleftrightarrow> rd_bytes buf p (length bs) = Some bs"

lemma holds_at_append:
  "holds_at buf p (as @ bs) \<longleftrightarrow> holds_at buf p as \<and> holds_at buf (p + length as) bs"
proof -
  have "take (length as + length bs) (drop p buf) = take (length as) (drop p buf) @
      take (length bs) (drop (p + length as) buf)"
    by (simp add: take_add add.commute)
  then show ?thesis
    by (auto simp: holds_at_def rd_bytes_Some)
qed

lemma holds_at_Nil [simp]: "holds_at buf p [] \<longleftrightarrow> p \<le> length buf"
  by (auto simp: holds_at_def rd_bytes_Some)

lemma holds_at_one: "holds_at buf p [b] \<longleftrightarrow> rd_at buf p = Some b"
  by (auto simp: holds_at_def rd_bytes_Some rd_at_Some take_Suc_conv_app_nth)

lemma holds_at_Cons: "holds_at buf p (b # c # bs) \<longleftrightarrow> rd_at buf p = Some b \<and> holds_at buf (p + 1) (c # bs)"
  using holds_at_append [of buf p "[b]" "c # bs"] by (simp add: holds_at_one)

lemma holds_at_four: "holds_at buf p [a, b, c, d] \<longleftrightarrow> rd_at buf p = Some a \<and> rd_at buf (p + 1) = Some b \<and>
    rd_at buf (p + 2) = Some c \<and> rd_at buf (p + 3) = Some d"
  by (simp add: holds_at_Cons holds_at_one numeral_eq_Suc)

lemma holds_at_drop: "p \<le> length buf \<Longrightarrow> holds_at (drop p buf) q bs \<longleftrightarrow> holds_at buf (p + q) bs"
  by (auto simp: holds_at_def rd_bytes_def add.commute)

lemma holds_at_prefix: "holds_at (bs @ t) 0 bs"
  by (simp add: holds_at_def rd_bytes_def)

lemma wr_bytes_Cons:
  "wr_bytes buf p (b # c # bs) = Option.bind (wr_at buf p b) (\<lambda>buf'. wr_bytes buf' (p + 1) (c # bs))"
  by (auto simp: wr_bytes_def wr_at_def take_Suc_conv_app_nth)

lemma wr_bytes_one: "wr_bytes buf p [b] = wr_at buf p b"
  by (auto simp: wr_bytes_def wr_at_def upd_conv_take_nth_drop)

text \<open>A cursor behind \<open>xs\<close>, with \<open>ys\<close> still to be overwritten.\<close>

definition cur :: "bytes \<Rightarrow> bytes \<Rightarrow> nat \<times> bytes" where
  "cur xs ys = (length xs, xs @ ys)"

subsection \<open>Codecs of fixed size\<close>

locale codec =
  fixes put :: "bytes \<Rightarrow> nat \<Rightarrow> 'a \<Rightarrow> (nat \<times> bytes) option"
    and get :: "bytes \<Rightarrow> nat \<Rightarrow> 'b option"
    and enc :: "'b \<Rightarrow> bytes"
    and inj :: "'b \<Rightarrow> 'a"
    and sz :: nat
  assumes put_enc: "put buf p (inj v) = map_option (Pair sz) (wr_bytes buf p (enc v))"
    and enc_length: "length (enc v) = sz"
    and get_holds: "get buf p = Some v \<longleftrightarrow> holds_at buf p (enc v)"
begin

lemma advance_cur:
  "sz \<le> length ys \<Longrightarrow> advance put (inj v) (cur xs ys) = Some (cur (xs @ enc v) (drop sz ys))"
  by (simp add: advance_def cur_def put_enc wr_bytes_def enc_length)

lemma get_at: "holds_at buf p (enc v) \<Longrightarrow> get buf p = Some v"
  by (simp add: get_holds)

lemma at_get: "get buf p = Some v \<Longrightarrow> holds_at buf p (enc v)"
  by (simp add: get_holds)

end

definition enc8 :: "u8 \<Rightarrow> bytes" where
  "enc8 v = [v]"

definition enc16 :: "u16 \<Rightarrow> bytes" where
  "enc16 v = [ucast v, ucast (drop_bit 8 v)]"

definition enc32 :: "u32 \<Rightarrow> bytes" where
  "enc32 v = [ucast v, ucast (drop_bit 8 v), ucast (drop_bit 16 v), ucast (drop_bit 24 v)]"

definition enc64 :: "u64 \<Rightarrow> bytes" where
  "enc64 v = [ucast v, ucast (drop_bit 8 v), ucast (drop_bit 16 v), ucast (drop_bit 24 v),
     ucast (drop_bit 32 v), ucast (drop_bit 40 v), ucast (drop_bit 48 v), ucast (drop_bit 56 v)]"

definition enc_qid :: "qid \<Rightarrow> bytes" where
  "enc_qid q = enc32 (q_type q) @ enc32 (q_version q) @ enc64 (q_id q)"

lemmas enc_defs = enc8_def enc16_def enc32_def enc64_def

lemma enc_lengths [simp]:
  "length (enc8 a) = 1" "length (enc16 b) = 2" "length (enc32 c) = 4" "length (enc64 d) = 8"
  "length (enc_qid q) = 16"
  by (simp_all add: enc_defs enc_qid_def)

lemma ucast_up_down: "ucast (ucast v :: u16) = (v :: u8)"
  by (intro bit_word_eqI) (auto simp: bit_simps)

interpretation c8: codec put_uchar get_uchar enc8 ucast 1
proof
  fix buf p and v :: u8
  show "put_uchar buf p (ucast v) = map_option (Pair 1) (wr_bytes buf p (enc8 v))"
    by (simp add: put_uchar_def enc8_def wr_bytes_one CHAR_SIZE_def ucast_up_down)
  show "get_uchar buf p = Some v \<longleftrightarrow> holds_at buf p (enc8 v)"
    by (auto simp: get_uchar_def enc8_def holds_at_one rd_at_Some)
qed simp

lemma bit_above:
  "\<not> bit (v :: u8) (8 + n)" "\<not> bit (v :: u8) (16 + n)" "\<not> bit (v :: u8) (24 + n)"
  "\<not> bit (w :: u32) (32 + n)"
  using bit_imp_le_length [of v "8 + n"] bit_imp_le_length [of v "16 + n"] bit_imp_le_length [of v "24 + n"]
    bit_imp_le_length [of w "32 + n"] by auto

lemma bytes_of_u16: "(ucast v :: u16) OR push_bit 8 (ucast w) = x \<longleftrightarrow> v = ucast x \<and> w = ucast (drop_bit 8 x)"
  for v w :: u8
proof
  assume "ucast v OR push_bit 8 (ucast w) = x"
  then show "v = ucast x \<and> w = ucast (drop_bit 8 x)"
    by (intro conjI bit_word_eqI) (auto simp: bit_simps bit_above)
next
  assume "v = ucast x \<and> w = ucast (drop_bit 8 x)"
  then show "ucast v OR push_bit 8 (ucast w) = x" by (intro bit_word_eqI) (auto simp: bit_simps bit_above)
qed

lemma bytes_of_u32:
  fixes b0 b1 b2 b3 :: u8
  shows "(ucast b0 :: u32) OR push_bit 8 (ucast b1) OR push_bit 16 (ucast b2) OR push_bit 24 (ucast b3) = x \<longleftrightarrow>
    b0 = ucast x \<and> b1 = ucast (drop_bit 8 x) \<and> b2 = ucast (drop_bit 16 x) \<and> b3 = ucast (drop_bit 24 x)"
proof
  assume "(ucast b0 :: u32) OR push_bit 8 (ucast b1) OR push_bit 16 (ucast b2) OR push_bit 24 (ucast b3) = x"
  then show "b0 = ucast x \<and> b1 = ucast (drop_bit 8 x) \<and> b2 = ucast (drop_bit 16 x) \<and> b3 = ucast (drop_bit 24 x)"
    by (intro conjI bit_word_eqI) (auto simp: bit_simps bit_above)
next
  assume "b0 = ucast x \<and> b1 = ucast (drop_bit 8 x) \<and> b2 = ucast (drop_bit 16 x) \<and> b3 = ucast (drop_bit 24 x)"
  note b = this
  show "(ucast b0 :: u32) OR push_bit 8 (ucast b1) OR push_bit 16 (ucast b2) OR push_bit 24 (ucast b3) = x"
  proof (rule bit_word_eqI)
    fix n assume "n < LENGTH(32)"
    then consider "n < 8" | "8 \<le> n" "n < 16" | "16 \<le> n" "n < 24" | "24 \<le> n" "n < 32" by force
    then show "bit ((ucast b0 :: u32) OR push_bit 8 (ucast b1) OR push_bit 16 (ucast b2) OR push_bit 24 (ucast b3)) n
        \<longleftrightarrow> bit x n"
      by cases (auto simp: b bit_simps)
  qed
qed

lemma words_of_u64: "(ucast v :: u64) OR push_bit 32 (ucast w) = x \<longleftrightarrow> v = ucast x \<and> w = ucast (drop_bit 32 x)"
  for v w :: u32
proof
  assume "ucast v OR push_bit 32 (ucast w) = x"
  then show "v = ucast x \<and> w = ucast (drop_bit 32 x)"
    by (intro conjI bit_word_eqI) (auto simp: bit_simps bit_above)
next
  assume "v = ucast x \<and> w = ucast (drop_bit 32 x)"
  then show "ucast v OR push_bit 32 (ucast w) = x" by (intro bit_word_eqI) (auto simp: bit_simps bit_above)
qed

interpretation c16: codec put_ushort get_ushort enc16 "\<lambda>v. v" 2
proof
  fix buf p and v :: u16
  show "put_ushort buf p v = map_option (Pair 2) (wr_bytes buf p (enc16 v))"
    by (simp add: put_ushort_def enc16_def wr_bytes_Cons wr_bytes_one SHRT_SIZE_def map_conv_bind_option
        o_def numeral_eq_Suc)
  show "get_ushort buf p = Some v \<longleftrightarrow> holds_at buf p (enc16 v)"
    by (auto simp: get_ushort_def enc16_def holds_at_Cons holds_at_one bind_Some bytes_of_u16)
qed simp

interpretation c32: codec put_uint get_uint enc32 "\<lambda>v. v" 4
proof
  fix buf p and v :: u32
  show "put_uint buf p v = map_option (Pair 4) (wr_bytes buf p (enc32 v))"
    by (simp add: put_uint_def enc32_def wr_bytes_Cons wr_bytes_one INT_SIZE_def map_conv_bind_option
        o_def numeral_eq_Suc)
  show "get_uint buf p = Some v \<longleftrightarrow> holds_at buf p (enc32 v)"
    by (auto simp: get_uint_def enc32_def holds_at_four bind_Some bytes_of_u32)
qed simp

lemma enc64_split: "enc64 x = enc32 (ucast x) @ enc32 (ucast (drop_bit 32 x))"
  unfolding enc64_def enc32_def
  by (simp, intro conjI bit_word_eqI) (auto simp: bit_simps bit_above)

interpretation c64: codec put_ulong get_ulong enc64 "\<lambda>v. v" 8
proof
  fix buf p and v :: u64
  show "put_ulong buf p v = map_option (Pair 8) (wr_bytes buf p (enc64 v))"
    by (simp add: put_ulong_def enc64_def wr_bytes_Cons wr_bytes_one LONG_SIZE_def map_conv_bind_option
        o_def numeral_eq_Suc)
  show "get_ulong buf p = Some v \<longleftrightarrow> holds_at buf p (enc64 v)"
    by (auto simp: get_ulong_def enc64_split holds_at_append bind_Some words_of_u64 c32.get_holds)
qed simp

interpretation cq: codec put_qid get_qid enc_qid "\<lambda>q. q" 16
proof
  fix buf p and q :: qid
  show "put_qid buf p q = map_option (Pair 16) (wr_bytes buf p (enc_qid q))"
  proof -
    have join: "Option.bind (wr_bytes buf p as) (\<lambda>buf'. wr_bytes buf' (p + length as) bs) = wr_bytes buf p (as @ bs)"
      for buf p and as bs :: bytes
      by (auto simp: wr_bytes_def add.commute add.left_commute)
    have tail: "wr_bytes b (p + 4) (enc32 (q_version q) @ enc64 (q_id q)) =
        Option.bind (wr_bytes b (p + 4) (enc32 (q_version q))) (\<lambda>b. wr_bytes b (p + 8) (enc64 (q_id q)))" for b
      using join [of b "p + 4" "enc32 (q_version q)" "enc64 (q_id q)"] by (simp add: add.commute)
    have "wr_bytes buf p (enc_qid q) = Option.bind (wr_bytes buf p (enc32 (q_type q)))
        (\<lambda>b. wr_bytes b (p + 4) (enc32 (q_version q) @ enc64 (q_id q)))"
      unfolding enc_qid_def join [symmetric] by simp
    then show ?thesis
      by (simp add: put_qid_def tail c32.put_enc c64.put_enc map_conv_bind_option o_def)
  qed
  show "get_qid buf p = Some q \<longleftrightarrow> holds_at buf p (enc_qid q)"
    by (cases q) (simp add: get_qid_def enc_qid_def holds_at_append bind_Some c32.get_holds c64.get_holds
        INT_SIZE_def add.assoc)
qed simp

end
