(* ===== verification/Fcall_Codec.thy ===== *)
theory Fcall_Codec
  imports Fcall_Wire
begin

text \<open>
  The file system messages as sequences of fields: \<open>fcall_msg_to_buf\<close> writes the wire form of a message,
  \<open>fcall_buf_to_msg\<close> reads it back, and accepts nothing else.
\<close>

subsection \<open>Strings and arrays behind a pointer\<close>

definition pstr_val :: "bytes \<Rightarrow> bytes option" where
  "pstr_val s = Option.bind (pstr_len s) (rd_bytes s 2)"

fun wname_val :: "nat \<Rightarrow> bytes \<Rightarrow> bytes list option" where
  "wname_val 0 s = Some []"
| "wname_val (Suc n) s = do {
     cs \<leftarrow> pstr_val s;
     rest \<leftarrow> wname_val n (drop (length cs + 2) s);
     Some (cs # rest) }"

lemma le_bytes_word: "le_bytes (Suc n) (unat v) = ucast v # le_bytes n (unat (drop_bit 8 v))"
  for v :: "'a::len word"
proof -
  have "unat (drop_bit 8 v) = unat v div 256"
    unfolding unat_drop_bit_eq by (simp add: drop_bit_eq_div)
  then show ?thesis by simp
qed

lemma le_bytes_enc16: "enc16 v = le_bytes 2 (unat v)"
  unfolding numeral_2_eq_2 le_bytes_word by (simp add: enc16_def)

lemma le_bytes_enc32: "enc32 v = le_bytes 4 (unat v)"
proof -
  have "le_bytes 4 (unat v) = le_bytes (Suc (Suc (Suc (Suc 0)))) (unat v)"
    by (rule arg_cong [where f = "\<lambda>n. le_bytes n (unat v)"]) simp
  then show ?thesis unfolding le_bytes_word by (simp add: enc32_def)
qed

lemma le_bytes_enc64: "enc64 v = le_bytes 8 (unat v)"
proof -
  have "le_bytes 8 (unat v) = le_bytes (Suc (Suc (Suc (Suc (Suc (Suc (Suc (Suc 0)))))))) (unat v)"
    by (rule arg_cong [where f = "\<lambda>n. le_bytes n (unat v)"]) simp
  then show ?thesis unfolding le_bytes_word by (simp add: enc64_def)
qed

lemma holds_at_pstr: "holds_at s p (pstr cs) \<longleftrightarrow> holds_at s p (le_bytes 2 (length cs)) \<and> holds_at s (p + 2) cs"
  unfolding pstr_def holds_at_append by simp

lemma holds_at_pstr_0: "holds_at s 0 (pstr cs) \<longleftrightarrow> holds_at s 0 (le_bytes 2 (length cs)) \<and> holds_at s 2 cs"
  using holds_at_pstr [of s 0 cs] by (simp add: numeral_2_eq_2)

lemma pstr_len_holds: "pstr_len s = Some n \<longleftrightarrow> n < 65536 \<and> holds_at s 0 (le_bytes 2 n)"
proof
  assume "pstr_len s = Some n"
  then obtain bs where bs: "rd_bytes s 0 2 = Some bs" "n = le_val bs"
    by (auto simp: pstr_len_def rd_le_def)
  then have "length bs = 2" by (auto simp: rd_bytes_Some)
  with bs le_val_bound [of bs] le_bytes_val [of bs] show "n < 65536 \<and> holds_at s 0 (le_bytes 2 n)"
    by (auto simp: holds_at_def)
next
  assume "n < 65536 \<and> holds_at s 0 (le_bytes 2 n)"
  then show "pstr_len s = Some n"
    by (simp add: pstr_len_def rd_le_def holds_at_def le_val_bytes)
qed

lemma pstr_val_holds: "pstr_val s = Some cs \<longleftrightarrow> length cs < 65536 \<and> holds_at s 0 (pstr cs)"
proof -
  have "rd_bytes s 2 n = Some cs \<longleftrightarrow> length cs = n \<and> holds_at s 2 cs" for n
    by (auto simp: holds_at_def rd_bytes_Some)
  then have "pstr_val s = Some cs \<longleftrightarrow> pstr_len s = Some (length cs) \<and> holds_at s 2 cs"
    by (auto simp: pstr_val_def bind_Some)
  then show ?thesis by (auto simp: pstr_len_holds holds_at_pstr_0)
qed

lemma pstrlen_holds: "pstr_val s = Some cs \<Longrightarrow> pstrlen s = Some (length cs + 2)"
  by (auto simp: pstr_val_holds pstrlen_def pstr_len_holds holds_at_pstr_0)

lemma put_pstring_cur:
  assumes "pstr_val s = Some cs" "length cs + 2 \<le> length ys"
  shows "advance put_pstring s (cur xs ys) = Some (cur (xs @ pstr cs) (drop (length cs + 2) ys))"
proof -
  have len: "pstr_len s = Some (length cs)" "pstrlen s = Some (length cs + 2)"
    using assms(1) pstrlen_holds by (auto simp: pstr_val_holds pstr_len_holds holds_at_pstr_0)
  have "length cs < 65536" "holds_at s 2 cs"
    using assms(1) by (auto simp: pstr_val_holds holds_at_pstr_0)
  then have s: "2 + length cs \<le> length s" "take (length cs) (drop 2 s) = cs" "unat (of_nat (length cs) :: u16) = length cs"
    by (auto simp: holds_at_def rd_bytes_Some unat_of_nat)
  have "put_ushort (xs @ ys) (length xs) (of_nat (length cs)) = Some (2, xs @ le_bytes 2 (length cs) @ drop 2 ys)"
    using assms(2) s(3) by (simp add: c16.put_enc le_bytes_enc16 wr_bytes_def)
  moreover have "copy_at (xs @ le_bytes 2 (length cs) @ drop 2 ys) (length xs + 2) s 2 (length cs) =
      Some (xs @ pstr cs @ drop (length cs + 2) ys)"
    using s assms(2) by (simp add: copy_at_eq wr_bytes_def pstr_def)
  ultimately show ?thesis by (simp add: advance_def cur_def put_pstring_def len)
qed

lemma put_data_cur:
  assumes "rd_bytes s 0 n = Some bs" "n \<le> length ys"
  shows "advance (put_data n) s (cur xs ys) = Some (cur (xs @ bs) (drop n ys))"
proof -
  have "length bs = n" using assms(1) by (auto simp: rd_bytes_Some)
  with assms show ?thesis by (simp add: advance_def cur_def put_data_def wr_bytes_def)
qed

lemma put_wname_cur:
  assumes "wname_val n s = Some css" "length (concat (map pstr css)) \<le> length ys"
  shows "put_wname n s (cur xs ys) =
    Some (cur (xs @ concat (map pstr css)) (drop (length (concat (map pstr css))) ys))"
  using assms
proof (induction n arbitrary: s css xs ys)
  case (Suc n)
  then obtain cs rest where cs: "pstr_val s = Some cs" "wname_val n (drop (length cs + 2) s) = Some rest" "css = cs # rest"
    by (auto simp: bind_Some)
  have "put_wname n (drop (length cs + 2) s) (cur (xs @ pstr cs) (drop (length cs + 2) ys)) =
      Some (cur ((xs @ pstr cs) @ concat (map pstr rest))
        (drop (length (concat (map pstr rest))) (drop (length cs + 2) ys)))"
    using Suc.prems(2) cs(3) by (intro Suc.IH cs(2)) simp
  moreover have "advance put_pstring s (cur xs ys) = Some (cur (xs @ pstr cs) (drop (length cs + 2) ys))"
    using Suc.prems(2) cs by (intro put_pstring_cur) auto
  ultimately show ?case using pstrlen_holds [OF cs(1)] cs(3) by (simp add: add.commute add.left_commute)
qed (simp add: cur_def)

lemma enc_load_qid:
  assumes "16 * i + 16 \<le> length s"
  shows "\<exists>q. load_qid s i = Some q \<and> enc_qid q = take 16 (drop (16 * i) s)"
proof -
  have word: "enc32 (of_nat (le_val bs)) = bs" if "length bs = 4" for bs :: bytes
    using le_val_bound [of bs] le_bytes_val [of bs] that by (simp add: le_bytes_enc32 unat_of_nat)
  have long: "enc64 (of_nat (le_val bs)) = bs" if "length bs = 8" for bs :: bytes
    using le_val_bound [of bs] le_bytes_val [of bs] that by (simp add: le_bytes_enc64 unat_of_nat)
  have split: "take 16 (drop (16 * i) s) = take 4 (drop (16 * i) s) @ take 4 (drop (16 * i + 4) s) @ take 8 (drop (16 * i + 8) s)"
  proof -
    have "take (4 + (4 + 8)) (drop (16 * i) s) = take 4 (drop (16 * i) s) @ take 4 (drop (16 * i + 4) s) @ take 8 (drop (16 * i + 8) s)"
      by (simp only: take_add drop_drop) (simp add: add.commute add.left_commute)
    then show ?thesis by simp
  qed
  show ?thesis
    using assms by (simp add: load_qid_def rd_le_in enc_qid_def word long split)
qed

lemma put_wqid_cur:
  assumes "16 * (k + n) \<le> length s" "16 * n \<le> length ys"
  shows "put_wqid [k..<k + n] s (cur xs ys) =
    Some (cur (xs @ take (16 * n) (drop (16 * k) s)) (drop (16 * n) ys))"
  using assms
proof (induction n arbitrary: k xs ys)
  case (Suc n)
  obtain q where q: "load_qid s k = Some q" "enc_qid q = take 16 (drop (16 * k) s)"
    using enc_load_qid [of k s] Suc.prems by auto
  have "take (16 + 16 * n) (drop (16 * k) s) = take 16 (drop (16 * k) s) @ take (16 * n) (drop (16 * Suc k) s)"
    by (simp only: take_add drop_drop) (simp add: add.commute)
  then show ?case
    using Suc.prems Suc.IH [of "Suc k" "drop 16 ys" "xs @ enc_qid q"] q cq.advance_cur [of ys q xs]
    by (simp add: upt_conv_Cons add.commute del: upt_Suc)
qed (simp add: cur_def)

subsection \<open>The fields of a message\<close>

datatype field = F8 u8 | F16 u16 | F32 u32 | F64 u64 | FQid qid | FStr bytes | FRaw bytes

fun enc_field :: "field \<Rightarrow> bytes" where
  "enc_field (F8 v) = enc8 v"
| "enc_field (F16 v) = enc16 v"
| "enc_field (F32 v) = enc32 v"
| "enc_field (F64 v) = enc64 v"
| "enc_field (FQid q) = enc_qid q"
| "enc_field (FStr cs) = pstr cs"
| "enc_field (FRaw bs) = bs"

abbreviation enc_fields :: "field list \<Rightarrow> bytes" where
  "enc_fields fs \<equiv> concat (map enc_field fs)"

definition fields_of :: "fcall_types \<Rightarrow> fcall \<Rightarrow> field list option" where
  "fields_of ty f = (case ty of
     Tversion \<Rightarrow> map_option (\<lambda>s. [F32 (f_msize f), FStr s]) (pstr_val (f_version f))
   | Rversion \<Rightarrow> map_option (\<lambda>s. [F32 (f_msize f), FStr s]) (pstr_val (f_version f))
   | Terror \<Rightarrow> None
   | Rerror \<Rightarrow> map_option (\<lambda>s. [FStr s]) (pstr_val (f_ename f))
   | Tattach \<Rightarrow> do { u \<leftarrow> pstr_val (f_uname f); a \<leftarrow> pstr_val (f_aname f);
       Some [F32 (f_fid f), F32 (f_afid f), FStr u, FStr a] }
   | Rattach \<Rightarrow> Some [FQid (f_qid f)]
   | Rmount \<Rightarrow> Some [FQid (f_qid f)]
   | Twalk \<Rightarrow> map_option (\<lambda>css. [F32 (f_fid f), F32 (f_newfid f), F16 (f_nwname f)] @ map FStr css)
       (wname_val (unat (f_nwname f)) (f_wname f))
   | Rwalk \<Rightarrow> map_option (\<lambda>bs. [F16 (f_nwqid f), FRaw bs]) (rd_bytes (f_wqid f) 0 (16 * unat (f_nwqid f)))
   | Topen \<Rightarrow> Some [F32 (f_fid f), F8 (f_mode f)]
   | Ropen \<Rightarrow> Some [FQid (f_qid f), F32 (f_iounit f)]
   | Rcreate \<Rightarrow> Some [FQid (f_qid f), F32 (f_iounit f)]
   | Tcreate \<Rightarrow> map_option (\<lambda>s. [F32 (f_fid f), FStr s, F32 (f_perm f), F8 (f_mode f)]) (pstr_val (f_name f))
   | Tread \<Rightarrow> Some [F32 (f_fid f), F64 (f_offset f), F32 (f_count f)]
   | Rread \<Rightarrow> map_option (\<lambda>bs. [F32 (f_count f), FRaw bs]) (rd_bytes (f_data f) 0 (unat (f_count f)))
   | Twrite \<Rightarrow> map_option (\<lambda>bs. [F32 (f_fid f), F64 (f_offset f), F32 (f_count f), FRaw bs])
       (rd_bytes (f_data f) 0 (unat (f_count f)))
   | Rwrite \<Rightarrow> Some [F32 (f_count f)]
   | Tclunk \<Rightarrow> Some [F32 (f_fid f)]
   | Tstat \<Rightarrow> Some [F32 (f_fid f)]
   | Rclunk \<Rightarrow> Some []
   | Rstat \<Rightarrow> map_option (\<lambda>bs. [F16 (f_nstat f), FRaw bs]) (rd_bytes (f_stat f) 0 (unat (f_nstat f)))
   | Tmount \<Rightarrow> Some [F32 (f_fid f), F32 (f_mfid f)])"

text \<open>The whole message.\<close>

definition wire_of :: "fcall_types \<Rightarrow> u8 \<Rightarrow> u16 \<Rightarrow> field list \<Rightarrow> bytes" where
  "wire_of ty c tag fs = enc32 (of_nat (7 + length (enc_fields fs))) @ enc8 c @ enc16 tag @ enc_fields fs"

definition fcall_wire :: "fcall \<Rightarrow> bytes option" where
  "fcall_wire f = do {
     ty \<leftarrow> type_of (f_type f);
     fs \<leftarrow> fields_of ty f;
     Some (wire_of ty (f_type f) (f_tag f) fs) }"

lemma wname_size_val: "wname_val n s = Some css \<Longrightarrow> wname_size s n = Some (length (concat (map pstr css)))"
proof (induction n arbitrary: s css)
  case (Suc n)
  then obtain cs rest where cs: "pstr_val s = Some cs" "wname_val n (drop (length cs + 2) s) = Some rest" "css = cs # rest"
    by (auto simp: bind_Some)
  with Suc.IH [OF cs(2)] pstrlen_holds [OF cs(1)] show ?case by simp
qed simp

lemma fcall_body_size_fields:
  "fields_of ty f = Some fs \<Longrightarrow> fcall_body_size ty f = Some (length (enc_fields fs))"
  by (cases ty) (auto simp: fields_of_def fcall_body_size_def layout_simps bind_Some rd_bytes_Some o_def
      dest!: pstrlen_holds wname_size_val)

subsection \<open>Writing a message\<close>

lemmas advance_curs = c8.advance_cur c16.advance_cur c32.advance_cur c64.advance_cur cq.advance_cur
  put_pstring_cur put_data_cur put_wname_cur

lemma cur_Nil [simp]: "cur (xs @ []) ys = cur xs ys"
  by simp

lemma rd_bytes_length: "rd_bytes s p n = Some bs \<Longrightarrow> length bs = n"
  by (auto simp: rd_bytes_Some)

lemma put_body_cur:
  assumes "fields_of ty f = Some fs" "length (enc_fields fs) \<le> length ys"
  shows "put_body ty f (cur xs ys) = Some (cur (xs @ enc_fields fs) (drop (length (enc_fields fs)) ys))"
proof (cases ty)
  case Rwalk
  with assms obtain bs where bs: "fs = [F16 (f_nwqid f), FRaw bs]"
      "rd_bytes (f_wqid f) 0 (16 * unat (f_nwqid f)) = Some bs"
    by (auto simp: fields_of_def)
  then have "length bs = 16 * unat (f_nwqid f)" "take (16 * unat (f_nwqid f)) (f_wqid f) = bs"
    "16 * unat (f_nwqid f) \<le> length (f_wqid f)" by (auto simp: rd_bytes_Some)
  then show ?thesis
    using assms(2) bs(1) Rwalk put_wqid_cur [of 0 "unat (f_nwqid f)" "f_wqid f" "drop 2 ys" "xs @ enc16 (f_nwqid f)"]
    by (simp add: put_body_def advance_curs)
next
  case Tattach
  with assms obtain u a where "pstr_val (f_uname f) = Some u" "pstr_val (f_aname f) = Some a"
      "fs = [F32 (f_fid f), F32 (f_afid f), FStr u, FStr a]"
    by (auto simp: fields_of_def bind_Some)
  with assms(2) Tattach show ?thesis by (simp add: put_body_def advance_curs add.commute)
qed (use assms in \<open>auto simp: fields_of_def put_body_def advance_curs o_def rd_bytes_length add.commute add.left_commute\<close>)

lemma fields_of_Terror [simp]: "fields_of Terror f = None"
  by (simp add: fields_of_def)

lemma fcall_msg_size_wire:
  assumes "fcall_wire f = Some w"
  shows "fcall_msg_size f = Some (of_nat (length w))"
proof -
  obtain ty fs where "type_of (f_type f) = Some ty" "fields_of ty f = Some fs" "w = wire_of ty (f_type f) (f_tag f) fs"
    using assms by (auto simp: fcall_wire_def bind_Some)
  moreover from this have "ty \<noteq> Terror" by auto
  ultimately show ?thesis
    using fcall_body_size_fields by (simp add: fcall_msg_size_def wire_of_def layout_simps)
qed

lemma fcall_msg_to_buf_eq:
  assumes "fcall_wire f = Some w" "length w < 2 ^ 32" "length w \<le> length buf"
  shows "fcall_msg_to_buf f buf len =
    Some (if length w \<le> unat len then (of_nat (length w), w @ drop (length w) buf) else (0, buf))"
proof -
  obtain ty fs where ty: "type_of (f_type f) = Some ty" and fs: "fields_of ty f = Some fs"
    and w: "w = wire_of ty (f_type f) (f_tag f) fs"
    using assms(1) by (auto simp: fcall_wire_def bind_Some)
  let ?n = "length (enc_fields fs)"
  have len: "length w = 7 + ?n" by (simp add: w wire_of_def)
  have unat: "unat (of_nat (length w) :: u32) = length w" using assms(2) by (simp add: unat_of_nat)
  have size: "fcall_msg_size f = Some (of_nat (length w))" by (rule fcall_msg_size_wire [OF assms(1)])
  have nz: "(of_nat (length w) :: u32) \<noteq> 0" using unat len by (metis unat_0 add_is_0 zero_neq_numeral)
  have small: "(of_nat (length w) :: u32) > len \<longleftrightarrow> \<not> length w \<le> unat len"
    by (simp add: word_less_nat_alt unat not_le)
  show ?thesis
  proof (cases "length w \<le> unat len")
    case True
    have head: "advance put_uint (of_nat (length w)) (0, buf) = Some (cur (enc32 (of_nat (length w))) (drop 4 buf))"
      using c32.advance_cur [of buf "of_nat (length w)" "[]"] len assms(3) by (simp add: cur_def)
    have "advance put_uchar (ucast (f_type f)) (cur (enc32 (of_nat (length w))) (drop 4 buf)) =
        Some (cur (enc32 (of_nat (length w)) @ enc8 (f_type f)) (drop 5 buf))"
      using c8.advance_cur [of "drop 4 buf" "f_type f" "enc32 (of_nat (length w))"] len assms(3) by simp
    moreover have "advance put_ushort (f_tag f) (cur (enc32 (of_nat (length w)) @ enc8 (f_type f)) (drop 5 buf)) =
        Some (cur ((enc32 (of_nat (length w)) @ enc8 (f_type f)) @ enc16 (f_tag f)) (drop 7 buf))"
      using c16.advance_cur [of "drop 5 buf" "f_tag f" "enc32 (of_nat (length w)) @ enc8 (f_type f)"] len assms(3)
      by simp
    moreover have "put_body ty f (cur ((enc32 (of_nat (length w)) @ enc8 (f_type f)) @ enc16 (f_tag f)) (drop 7 buf)) =
        Some (cur w (drop (length w) buf))"
      using put_body_cur [OF fs, of "drop 7 buf"] len assms(3) by (simp add: w wire_of_def add.commute)
    ultimately show ?thesis
      using True nz small size head ty by (simp add: fcall_msg_to_buf_def cur_def)
  next
    case False
    with small size nz show ?thesis by (simp add: fcall_msg_to_buf_def)
  qed
qed

text \<open>
  C19. A message that can be represented is written in its wire form when the destination has room for it,
  behind nothing else and leaving the rest of the buffer alone; it is refused, with nothing written,
  when it is longer than the length given.
\<close>

theorem fcall_msg_to_buf_wire:
  assumes "fcall_wire f = Some w" "length w < 2 ^ 32" "length w \<le> length buf"
  shows "fcall_msg_to_buf f buf len =
    Some (if length w \<le> unat len then (of_nat (length w), w @ drop (length w) buf) else (0, buf))"
  by (rule fcall_msg_to_buf_eq [OF assms])

subsection \<open>Reading a message\<close>

lemma holds_at_le: "holds_at buf p bs \<Longrightarrow> p + length bs \<le> length buf"
  by (auto simp: holds_at_def rd_bytes_Some)

lemma get_pstr_holds:
  assumes "p \<le> length buf"
  shows "get_pstr buf p = Some (s, p1) \<and> p1 \<le> length buf \<longleftrightarrow>
    s = drop p buf \<and> (\<exists>cs. pstr_val s = Some cs \<and> holds_at buf p (pstr cs) \<and> p1 = p + (length cs + 2))"
proof
  assume get: "get_pstr buf p = Some (s, p1) \<and> p1 \<le> length buf"
  then obtain n where n: "pstr_len (drop p buf) = Some n" "s = drop p buf" "p1 = p + (n + 2)"
    by (auto simp: get_pstr_def pstrlen_def)
  then have "n + 2 \<le> length (drop p buf)" using get assms by auto
  then obtain cs where cs: "rd_bytes (drop p buf) 2 n = Some cs" "length cs = n"
    by (auto simp: rd_bytes_def)
  then have val: "pstr_val (drop p buf) = Some cs" using n(1) by (simp add: pstr_val_def)
  then have "holds_at buf p (pstr cs)" using holds_at_drop [OF assms, of 0] by (simp add: pstr_val_holds)
  with val n cs show "s = drop p buf \<and> (\<exists>cs. pstr_val s = Some cs \<and> holds_at buf p (pstr cs) \<and> p1 = p + (length cs + 2))"
    by auto
next
  assume "s = drop p buf \<and> (\<exists>cs. pstr_val s = Some cs \<and> holds_at buf p (pstr cs) \<and> p1 = p + (length cs + 2))"
  then obtain cs where cs: "s = drop p buf" "pstr_val s = Some cs" "holds_at buf p (pstr cs)" "p1 = p + (length cs + 2)"
    by blast
  with pstrlen_holds [OF cs(2)] holds_at_le [OF cs(3)] show "get_pstr buf p = Some (s, p1) \<and> p1 \<le> length buf"
    by (simp add: get_pstr_def add.commute)
qed

lemma get_pstr_at:
  assumes "holds_at buf p (pstr cs)" "length cs < 65536"
  shows "get_pstr buf p = Some (drop p buf, p + (length cs + 2))" "pstr_val (drop p buf) = Some cs"
proof -
  have p: "p \<le> length buf" using holds_at_le [OF assms(1)] by simp
  then show "pstr_val (drop p buf) = Some cs"
    using assms holds_at_drop [OF p, of 0] by (simp add: pstr_val_holds)
  then show "get_pstr buf p = Some (drop p buf, p + (length cs + 2))"
    using get_pstr_holds [OF p] assms(1) by blast
qed

lemma rd_bytes_drop_holds:
  "p \<le> length buf \<Longrightarrow> rd_bytes (drop p buf) 0 n = Some bs \<longleftrightarrow> length bs = n \<and> holds_at buf p bs"
  by (auto simp: holds_at_def rd_bytes_def)

lemma skip_wname_at:
  assumes "holds_at buf p (concat (map pstr css))" "\<forall>cs\<in>set css. length cs < 65536"
  shows "skip_wname (length css) buf p = Some (p + length (concat (map pstr css)))"
    and "wname_val (length css) (drop p buf) = Some css"
proof -
  have "skip_wname (length css) buf p = Some (p + length (concat (map pstr css))) \<and>
      wname_val (length css) (drop p buf) = Some css"
    using assms
  proof (induction css arbitrary: p)
    case (Cons cs css)
    then have cs: "holds_at buf p (pstr cs)" "length cs < 65536"
      and rest: "holds_at buf (p + (length cs + 2)) (concat (map pstr css))"
      by (simp_all add: holds_at_append)
    have val: "pstr_val (drop p buf) = Some cs" by (rule get_pstr_at(2) [OF cs])
    from Cons.IH [OF rest] Cons.prems(2) show ?case
      using val pstrlen_holds [OF val] by (simp add: add.commute add.left_commute)
  qed simp
  then show "skip_wname (length css) buf p = Some (p + length (concat (map pstr css)))"
    "wname_val (length css) (drop p buf) = Some css" by simp_all
qed

lemma skip_wname_Some:
  assumes "skip_wname n buf p = Some p1" "p1 \<le> length buf"
  shows "\<exists>css. wname_val n (drop p buf) = Some css \<and> holds_at buf p (concat (map pstr css)) \<and>
    p1 = p + length (concat (map pstr css)) \<and> length css = n"
  using assms(1)
proof (induction n arbitrary: p)
  case 0
  then show ?case using assms(2) by simp
next
  case (Suc n)
  then obtain len where len: "pstrlen (drop p buf) = Some len" "skip_wname n buf (p + len) = Some p1"
    by (auto simp: bind_Some)
  obtain css where css: "wname_val n (drop (p + len) buf) = Some css" "holds_at buf (p + len) (concat (map pstr css))"
    "p1 = p + len + length (concat (map pstr css))" "length css = n"
    using Suc.IH [OF len(2)] by blast
  have p: "p + len \<le> length buf" using holds_at_le [OF css(2)] by simp
  have "get_pstr buf p = Some (drop p buf, p + len) \<and> p + len \<le> length buf"
    using len(1) p by (simp add: get_pstr_def)
  then obtain cs where cs: "pstr_val (drop p buf) = Some cs" "holds_at buf p (pstr cs)" "len = length cs + 2"
    using get_pstr_holds [of p buf "drop p buf" "p + len"] p by auto
  show ?case
    using cs css p
    by (intro exI [of _ "cs # css"]) (simp add: holds_at_append add.commute add.left_commute)
qed

lemmas gets_at = c8.get_at c16.get_at c32.get_at c64.get_at cq.get_at

lemma wname_val_set: "wname_val n s = Some css \<Longrightarrow> length css = n \<and> (\<forall>cs\<in>set css. length cs < 65536)"
  by (induction n arbitrary: s css) (auto simp: bind_Some pstr_val_holds)

lemma pstr_fields_at:
  assumes "holds_at buf p (pstr cs)" "pstr_val s = Some cs"
  shows "get_pstr buf p = Some (drop p buf, p + (length cs + 2))" "pstr_val (drop p buf) = Some cs"
  using get_pstr_at [OF assms(1)] assms(2) by (auto simp: pstr_val_holds)

lemma raw_field_at: "holds_at buf p bs \<Longrightarrow> rd_bytes (drop p buf) 0 n = Some bs \<longleftrightarrow> n = length bs"
  using holds_at_le [of buf p bs] rd_bytes_drop_holds [of p buf n bs] by auto

text \<open>What reading the fields of a type gives, at the place where they are.\<close>

lemma get_body_at:
  assumes "fields_of ty f = Some fs" "holds_at buf p (enc_fields fs)"
  shows "\<exists>f'. get_body ty buf p g = Some (p + length (enc_fields fs), f') \<and> fields_of ty f' = Some fs \<and>
    f_type f' = f_type g \<and> f_tag f' = f_tag g"
proof (cases ty)
  case Twalk
  with assms(1) obtain css where css: "wname_val (unat (f_nwname f)) (f_wname f) = Some css"
    "fs = [F32 (f_fid f), F32 (f_newfid f), F16 (f_nwname f)] @ map FStr css"
    by (auto simp: fields_of_def)
  then have "length css = unat (f_nwname f)" "\<forall>cs\<in>set css. length cs < 65536"
    using wname_val_set by blast+
  with assms(2) Twalk css skip_wname_at [of buf "p + 4 + 4 + 2" css] show ?thesis
    by (auto simp: holds_at_append get_body_def gets_at layout_simps fields_of_def o_def Let_def)
next
  case Tattach
  with assms obtain u a where "pstr_val (f_uname f) = Some u" "pstr_val (f_aname f) = Some a"
      "fs = [F32 (f_fid f), F32 (f_afid f), FStr u, FStr a]"
    by (auto simp: fields_of_def bind_Some)
  moreover from this have len: "length u < 65536" "length a < 65536" by (auto simp: pstr_val_holds)
  ultimately have h: "holds_at buf p (enc32 (f_fid f))" "holds_at buf (p + 4) (enc32 (f_afid f))"
    "holds_at buf (p + 4 + 4) (pstr u)" "holds_at buf (p + 4 + 4 + (length u + 2)) (pstr a)"
    and fs: "fs = [F32 (f_fid f), F32 (f_afid f), FStr u, FStr a]"
    using assms(2) by (simp_all add: holds_at_append)
  show ?thesis
    using c32.get_at [OF h(1)] c32.get_at [OF h(2)] get_pstr_at [OF h(3) len(1)] get_pstr_at [OF h(4) len(2)]
    by (simp add: Tattach fs get_body_def fields_of_def layout_simps Let_def)
qed (insert assms, auto simp: fields_of_def get_body_def holds_at_append gets_at pstr_fields_at raw_field_at
    Let_def layout_simps dest!: rd_bytes_length)

text \<open>Conversely, what is read is what the buffer holds, when it ends inside the buffer.\<close>

lemmas at_gets = c8.at_get c16.at_get c32.at_get c64.at_get cq.at_get

lemma get_pstrE:
  assumes "get_pstr buf p = Some (s, p1)" "p1 \<le> length buf"
  obtains cs where "s = drop p buf" "pstr_val s = Some cs" "holds_at buf p (pstr cs)" "p1 = p + (length cs + 2)"
proof -
  have "p \<le> length buf"
    using assms(1) by (auto simp: get_pstr_def pstrlen_def pstr_len_def rd_le_def rd_bytes_def split: if_splits)
  with get_pstr_holds [OF this, of s p1] assms that show thesis by blast
qed

lemma raw_at_drop:
  assumes "p + n \<le> length buf"
  shows "rd_bytes (drop p buf) 0 n = Some (take n (drop p buf))" "holds_at buf p (take n (drop p buf))"
  using assms by (auto simp: holds_at_def rd_bytes_def)

definition body_read :: "fcall_types \<Rightarrow> bytes \<Rightarrow> nat \<Rightarrow> fcall \<Rightarrow> nat \<Rightarrow> fcall \<Rightarrow> bool" where
  "body_read ty buf p g p' f' \<longleftrightarrow> f_type f' = f_type g \<and> f_tag f' = f_tag g \<and>
     (\<exists>fs. fields_of ty f' = Some fs \<and> holds_at buf p (enc_fields fs) \<and> p' = p + length (enc_fields fs))"

lemma body_readI:
  "fields_of ty f' = Some fs \<Longrightarrow> holds_at buf p (enc_fields fs) \<Longrightarrow> p' = p + length (enc_fields fs) \<Longrightarrow>
     f_type f' = f_type g \<Longrightarrow> f_tag f' = f_tag g \<Longrightarrow> body_read ty buf p g p' f'"
  by (auto simp: body_read_def)

lemma get_body_read:
  assumes "get_body ty buf p g = Some (p', f')" "p' \<le> length buf" "p \<le> length buf"
  shows "body_read ty buf p g p' f'"
proof (cases ty)
  case Twalk
  with assms(1) obtain fd nfd n p2 where r: "get_uint buf p = Some fd" "get_uint buf (p + 4) = Some nfd"
    "get_ushort buf (p + 4 + 4) = Some n" "skip_wname (unat n) buf (p + 4 + 4 + 2) = Some p2"
    "p' = p2" "f' = g\<lparr>f_fid := fd, f_newfid := nfd, f_nwname := n, f_wname := drop (p + 4 + 4 + 2) buf\<rparr>"
    by (auto simp: get_body_def Let_def layout_simps bind_Some)
  obtain css where css: "wname_val (unat n) (drop (p + 4 + 4 + 2) buf) = Some css"
    "holds_at buf (p + 4 + 4 + 2) (concat (map pstr css))" "p2 = p + 4 + 4 + 2 + length (concat (map pstr css))"
    using skip_wname_Some [OF r(4)] assms(2) r(5) by blast
  show ?thesis
    by (rule body_readI [of _ _ "[F32 fd, F32 nfd, F16 n] @ map FStr css"])
      (use Twalk r css at_gets in \<open>simp_all add: fields_of_def holds_at_append o_def\<close>)
next
  case Tattach
  with assms(1) obtain fd afd u p1 a p2 where r: "get_uint buf p = Some fd" "get_uint buf (p + 4) = Some afd"
    "get_pstr buf (p + 4 + 4) = Some (u, p1)" "get_pstr buf p1 = Some (a, p2)"
    "p' = p2" "f' = g\<lparr>f_fid := fd, f_afid := afd, f_uname := u, f_aname := a\<rparr>"
    by (auto simp: get_body_def Let_def layout_simps bind_Some)
  obtain as where a: "a = drop p1 buf" "pstr_val a = Some as" "holds_at buf p1 (pstr as)" "p2 = p1 + (length as + 2)"
    using get_pstrE [OF r(4)] assms(2) r(5) by blast
  have "p1 \<le> length buf" using holds_at_le [OF a(3)] by simp
  then obtain us where u: "pstr_val u = Some us" "holds_at buf (p + 4 + 4) (pstr us)" "p1 = p + 4 + 4 + (length us + 2)"
    using get_pstrE [OF r(3)] by blast
  show ?thesis
    by (rule body_readI [of _ _ "[F32 fd, F32 afd, FStr us, FStr as]"])
      (use Tattach r a u at_gets in \<open>simp_all add: fields_of_def holds_at_append\<close>)
qed (insert assms, auto simp: get_body_def fields_of_def body_read_def bind_Some Let_def layout_simps
   holds_at_append raw_at_drop dest!: at_gets elim!: get_pstrE)

subsection \<open>Round trips\<close>

lemma holds_wire:
  assumes "length (enc_fields fs) + 7 < 2 ^ 32"
  shows "holds_at buf 0 (wire_of ty c tag fs) \<longleftrightarrow> get_uint buf 0 = Some (of_nat (7 + length (enc_fields fs))) \<and>
    get_uchar buf 4 = Some c \<and> get_ushort buf 5 = Some tag \<and> holds_at buf 7 (enc_fields fs)"
  by (simp add: wire_of_def holds_at_append c8.get_holds c16.get_holds c32.get_holds)

lemma fcall_roundtrip_eq:
  assumes "fcall_wire f = Some w" "length w < 2 ^ 32"
  shows "\<exists>ty f'. fcall_buf_to_msg (w @ t) g = Some (of_nat (length w), f') \<and> fcall_wire f' = Some w \<and>
    f_type f' = f_type f \<and> f_tag f' = f_tag f \<and> type_of (f_type f) = Some ty \<and>
    fields_of ty f' = fields_of ty f \<and> fields_of ty f \<noteq> None"
proof -
  obtain ty fs where ty: "type_of (f_type f) = Some ty" and fs: "fields_of ty f = Some fs"
    and w: "w = wire_of ty (f_type f) (f_tag f) fs"
    using assms(1) by (auto simp: fcall_wire_def bind_Some)
  have len: "length w = 7 + length (enc_fields fs)" by (simp add: w wire_of_def)
  have "holds_at (w @ t) 0 w" by (rule holds_at_prefix)
  then have h: "get_uint (w @ t) 0 = Some (of_nat (length w))" "get_uchar (w @ t) 4 = Some (f_type f)"
    "get_ushort (w @ t) 5 = Some (f_tag f)" "holds_at (w @ t) 7 (enc_fields fs)"
    using holds_wire [of fs "w @ t" ty "f_type f" "f_tag f"] assms(2) len w by simp_all
  obtain f' where f': "get_body ty (w @ t) 7 (g\<lparr>f_type := f_type f, f_tag := f_tag f\<rparr>) = Some (length w, f')"
    "fields_of ty f' = Some fs" "f_type f' = f_type f" "f_tag f' = f_tag f"
    using get_body_at [OF fs h(4), of "g\<lparr>f_type := f_type f, f_tag := f_tag f\<rparr>"] len by auto
  have "ty \<noteq> Terror" using fs by auto
  moreover have "unat (of_nat (length w) :: u32) = length w" using assms(2) by (simp add: unat_of_nat)
  ultimately have "fcall_buf_to_msg (w @ t) g = Some (of_nat (length w), f')"
    using h(1-3) f'(1) ty by (simp add: fcall_buf_to_msg_def layout_simps)
  moreover have "fcall_wire f' = Some w" using f' ty w by (simp add: fcall_wire_def)
  ultimately show ?thesis using f' ty fs by auto
qed

text \<open>
  C20. Reading the wire form of a message gives the message back: its type, its tag and every field,
  whatever the structure held before and whatever follows in the buffer.
\<close>

theorem fcall_roundtrip:
  assumes "fcall_wire f = Some w" "length w < 2 ^ 32"
  shows "\<exists>ty f'. fcall_buf_to_msg (w @ t) g = Some (of_nat (length w), f') \<and> fcall_wire f' = Some w \<and>
    f_type f' = f_type f \<and> f_tag f' = f_tag f \<and> type_of (f_type f) = Some ty \<and>
    fields_of ty f' = fields_of ty f \<and> fields_of ty f \<noteq> None"
  by (rule fcall_roundtrip_eq [OF assms])

lemma header_sizes: "INT_SIZE + CHAR_SIZE + SHRT_SIZE = 7" "INT_SIZE + CHAR_SIZE = 5" "5 + SHRT_SIZE = 7"
  by (simp_all add: layout_simps)

text \<open>
  C21. Nothing but wire forms is accepted: when reading returns a size other than 0 and the message ends
  inside the buffer, writing the message that was read gives the bytes it was read from.
\<close>

theorem fcall_accepts_wire:
  assumes "fcall_buf_to_msg buf g = Some (sz, f)" "sz \<noteq> 0" "unat sz \<le> length buf"
  shows "fcall_wire f = Some (take (unat sz) buf)"
proof -
  obtain c tag where h: "get_uint buf 0 = Some sz" "get_uchar buf 4 = Some c" "get_ushort buf 5 = Some tag"
    and rest: "(case type_of c of None \<Rightarrow> Some (0, g\<lparr>f_type := c, f_tag := tag\<rparr>)
     | Some t \<Rightarrow> if t = Terror then Some (0, g\<lparr>f_type := c, f_tag := tag\<rparr>)
         else do {
           (p, f2) \<leftarrow> get_body t buf 7 (g\<lparr>f_type := c, f_tag := tag\<rparr>);
           Some (if unat sz \<noteq> p then 0 else sz, f2) }) = Some (sz, f)"
  proof -
    from assms(1) obtain sz1 c tag where 1: "get_uint buf 0 = Some sz1" "get_uchar buf 4 = Some c" "get_ushort buf 5 = Some tag"
      and 2: "(case type_of c of None \<Rightarrow> Some (0, g\<lparr>f_type := c, f_tag := tag\<rparr>)
     | Some t \<Rightarrow> if t = Terror then Some (0, g\<lparr>f_type := c, f_tag := tag\<rparr>)
         else do {
           (p, f2) \<leftarrow> get_body t buf 7 (g\<lparr>f_type := c, f_tag := tag\<rparr>);
           Some (if unat sz1 \<noteq> p then 0 else sz1, f2) }) = Some (sz, f)"
      unfolding fcall_buf_to_msg_def header_sizes Let_def unfolding INT_SIZE_def by (auto simp: bind_Some)
    have eq: "sz1 = sz"
      using 2 assms(2) by (auto split: option.splits if_splits simp: bind_Some)
    show thesis by (rule that [OF 1(1) [unfolded eq] 1(2,3) 2 [unfolded eq]])
  qed
  from rest assms(2) obtain ty where ty: "type_of c = Some ty" "ty \<noteq> Terror"
    and body: "get_body ty buf 7 (g\<lparr>f_type := c, f_tag := tag\<rparr>) = Some (unat sz, f)"
    by (auto split: option.splits if_splits simp: bind_Some)
  have "5 + 2 \<le> length buf" using holds_at_le [OF c16.at_get [OF h(3)]] by simp
  with get_body_read [OF body assms(3)] obtain fs where fs: "fields_of ty f = Some fs" "holds_at buf 7 (enc_fields fs)"
    "unat sz = 7 + length (enc_fields fs)" "f_type f = c" "f_tag f = tag"
    by (auto simp: body_read_def)
  have sz: "sz = of_nat (7 + length (enc_fields fs))" using fs(3) by (metis of_nat_unat_word)
  have "length (enc_fields fs) + 7 < 2 ^ 32" using fs(3) u32_bound [of sz] by simp
  then have "holds_at buf 0 (wire_of ty c tag fs)"
    using h fs(2) sz by (subst holds_wire) simp_all
  then have "take (unat sz) buf = wire_of ty c tag fs"
    using fs(3) by (auto simp: holds_at_def rd_bytes_Some wire_of_def)
  then show ?thesis using ty fs by (simp add: fcall_wire_def)
qed

subsection \<open>A message\<close>

definition blank_fcall :: fcall where
  "blank_fcall = \<lparr>f_fid = 0, f_type = 0, f_tag = 0, f_msize = 0, f_version = [], f_ename = [], f_afid = 0,
     f_uname = [], f_aname = [], f_qid = \<lparr>q_type = 0, q_version = 0, q_id = 0\<rparr>, f_iounit = 0, f_newfid = 0,
     f_nwname = 0, f_wname = [], f_nwqid = 0, f_wqid = [], f_name = [], f_perm = 0, f_mode = 0, f_offset = 0,
     f_count = 0, f_data = [], f_nstat = 0, f_stat = [], f_mfid = 0\<rparr>"

text \<open>A walk from fid 5 over the names \<open>ab\<close> and \<open>c\<close>, to be known as fid 6.\<close>

definition walk_msg :: fcall where
  "walk_msg = blank_fcall\<lparr>f_type := 106, f_tag := 1, f_fid := 5, f_newfid := 6, f_nwname := 2,
     f_wname := [2, 0, 97, 98, 1, 0, 99]\<rparr>"

definition walk_bytes :: bytes where
  "walk_bytes = [24, 0, 0, 0, 106, 1, 0, 5, 0, 0, 0, 6, 0, 0, 0, 2, 0, 2, 0, 97, 98, 1, 0, 99]"

lemma walk_wire: "fcall_wire walk_msg = Some walk_bytes"
proof -
  have "type_of 106 = Some Twalk" by (simp add: type_of_def fcall_type_list_def)
  moreover have "wname_val (Suc (Suc 0)) [2, 0, 97, 98, 1, 0, 99] = Some [[97, 98], [99]]"
    by (simp add: pstr_val_def pstr_len_def rd_le_def rd_bytes_def)
  then have "wname_val 2 [2, 0, 97, 98, 1, 0, 99] = Some [[97, 98], [99]]"
    by (simp only: numeral_2_eq_2)
  with calculation show ?thesis
    by (simp add: fcall_wire_def fields_of_def walk_msg_def wire_of_def enc_defs pstr_def le_bytes_2 walk_bytes_def
        drop_bit_eq_div)
qed

theorem fcall_msg_to_buf_wire_witness:
  "fcall_msg_to_buf walk_msg (replicate 30 7) 30 = Some (24, walk_bytes @ replicate 6 7) \<and>
   fcall_msg_to_buf walk_msg (replicate 30 7) 23 = Some (0, replicate 30 7)"
  using fcall_msg_to_buf_wire [OF walk_wire, of "replicate 30 7" 30]
    fcall_msg_to_buf_wire [OF walk_wire, of "replicate 30 7" 23] by (simp add: walk_bytes_def)

theorem fcall_roundtrip_witness:
  "\<exists>f'. fcall_buf_to_msg (walk_bytes @ [1, 2]) blank_fcall = Some (24, f') \<and> fcall_wire f' = Some walk_bytes"
  using fcall_roundtrip [OF walk_wire, of "[1, 2]" blank_fcall] by (auto simp: walk_bytes_def)

theorem fcall_accepts_wire_witness:
  "\<exists>f'. fcall_buf_to_msg [11, 0, 0, 0, 116, 1, 0, 9, 0, 0, 0] blank_fcall = Some (11, f') \<and>
     fcall_wire f' = Some [11, 0, 0, 0, 116, 1, 0, 9, 0, 0, 0]"
proof -
  have "type_of 116 = Some Tclunk" by (simp add: type_of_def fcall_type_list_def)
  then obtain f' where f': "fcall_buf_to_msg [11, 0, 0, 0, 116, 1, 0, 9, 0, 0, 0] blank_fcall = Some (11, f')"
    by (simp add: fcall_buf_to_msg_def get_body_def get_uint_def get_uchar_def get_ushort_def layout_simps)
  with fcall_accepts_wire [OF f'] show ?thesis by simp
qed

end
