(* ===== verification/Vfs_Msg.thy ===== *)
theory Vfs_Msg
  imports Fcall_Codec
begin

text \<open>
  Paths in walk messages (\<^verbatim>\<open>lib/c/fcall/fcall_path_size.c\<close>, \<^verbatim>\<open>fcall_path_split.c\<close>) and the messages of the file
  server: an \<open>fcall\<close> message with the id of the queue to reply to behind it (\<^verbatim>\<open>lib/c/sys/vfs/vfs_msg.c\<close>).
\<close>

subsection \<open>Paths\<close>

fun path_length :: "nat \<Rightarrow> bytes \<Rightarrow> nat \<Rightarrow> nat option" where
  "path_length 0 s acc = Some acc"
| "path_length (Suc n) s acc = do {
     len \<leftarrow> pstr_len s;
     sz \<leftarrow> pstrlen s;
     path_length n (drop sz s) (if Suc n \<noteq> 1 then acc + len + 1 else acc + len) }"

definition fcall_path_size :: "fcall \<Rightarrow> u16 option" where
  "fcall_path_size f = do {
     acc \<leftarrow> path_length (unat (f_nwname f)) (f_wname f) 0;
     Some (if acc > SHRT_MAX then 0 else of_nat acc) }"

text \<open>
  The loop of \<open>fcall_path_split\<close>: \<open>l\<close> is the position of the slash before the element, \<open>p\<close> the position
  in the block of elements.
\<close>

function split_loop :: "bytes \<Rightarrow> nat \<Rightarrow> bytes \<Rightarrow> nat \<Rightarrow> bytes option" where
  "split_loop path l blk p = do {
     r \<leftarrow> strchr_c (drop (l + 1) path) 47;
     len \<leftarrow> (case r of Some d \<Rightarrow> Some (d + 1 - 1) | None \<Rightarrow> map_option (\<lambda>n. n - 1) (strlen_c (drop l path)));
     blk1 \<leftarrow> wr_bytes blk p (le_bytes 2 len);
     blk2 \<leftarrow> copy_at blk1 (p + 2) path (l + 1) len;
     case r of None \<Rightarrow> Some blk2
     | Some d \<Rightarrow> split_loop path (l + 1 + d) blk2 (p + (len + 2)) }"
  by pat_completeness auto

lemma strchr_c_bound: "strchr_c s c = Some (Some d) \<Longrightarrow> d < length s"
  by (induction s arbitrary: d) (auto split: if_splits)

termination split_loop
proof (relation "measure (\<lambda>(path, l, blk, p). length path - l)", goal_cases)
  case (2 path l blk p r len blk1 blk2 d)
  then have "d < length (drop (l + 1) path)" using strchr_c_bound by blast
  then show ?case by auto
qed simp

declare split_loop.simps [simp del]

text \<open>
  \<open>malloc\<close> gives the block for a size. The results are the number of elements and the block; the block
  of the root path is the null pointer.
\<close>

definition fcall_path_split :: "(nat \<Rightarrow> bytes option) \<Rightarrow> bytes \<Rightarrow> (int \<times> bytes option) option" where
  "fcall_path_split malloc path = do {
     d \<leftarrow> strcmp_c path [47, 0];
     if d = 0 then Some (0, None)
     else do {
       nwname \<leftarrow> strcnt_c path 47;
       if nwname > SHRT_MAX then Some (-1, None)
       else do {
         len \<leftarrow> strlen_c path;
         case malloc (len + nwname * 2) of None \<Rightarrow> Some (-1, None)
         | Some blk \<Rightarrow> do {
             first_slash \<leftarrow> strchr_c path 47;
             l \<leftarrow> first_slash;
             blk' \<leftarrow> split_loop path l blk 0;
             Some (int nwname, Some blk') } } } }"

text \<open>The bytes of a path with the elements \<open>cs\<close>, and when its elements are separated by the slashes only.\<close>

definition path_of :: "bytes list \<Rightarrow> bytes" where
  "path_of cs = concat (map ((#) 47) cs)"

definition path_elems :: "bytes list \<Rightarrow> bool" where
  "path_elems cs \<longleftrightarrow> (\<forall>c\<in>set cs. 0 \<notin> set c \<and> 47 \<notin> set c \<and> length c < 65536)"

lemma strchr_c_hit: "0 \<notin> set c \<Longrightarrow> 47 \<notin> set c \<Longrightarrow> strchr_c (c @ 47 # s) 47 = Some (Some (length c))"
proof (induction c)
  case (Cons x c)
  then have "uint x \<noteq> 47" using word_uint_eq_iff [of x 47] by auto
  with Cons show ?case by simp
qed simp

lemma strchr_c_miss: "0 \<notin> set c \<Longrightarrow> 47 \<notin> set c \<Longrightarrow> strchr_c (c @ 0 # s) 47 = Some None"
proof (induction c)
  case (Cons x c)
  then have "uint x \<noteq> 47" using word_uint_eq_iff [of x 47] by auto
  with Cons show ?case by simp
qed simp

lemma strlen_c_at: "0 \<notin> set c \<Longrightarrow> strlen_c (c @ 0 # s) = Some (length c)"
  by (induction c) auto

lemma path_of_no_nul: "path_elems cs \<Longrightarrow> 0 \<notin> set (path_of cs)"
  by (auto simp: path_of_def path_elems_def)

lemma strcnt_c_path: "path_elems cs \<Longrightarrow> strcnt_c (path_of cs @ 0 # t) 47 = Some (length cs)"
proof (induction cs)
  case (Cons c cs)
  have skip: "0 \<notin> set c \<Longrightarrow> 47 \<notin> set c \<Longrightarrow> strcnt_c (c @ s) 47 = strcnt_c s 47" for c s
    by (induction c) (auto simp: option.map_ident)
  have "path_elems cs" "0 \<notin> set c" "47 \<notin> set c" using Cons.prems by (auto simp: path_elems_def)
  with Cons.IH skip show ?case by (simp add: path_of_def)
qed (simp add: path_of_def)

lemma split_loop_path:
  assumes "path_elems cs" "cs \<noteq> []" "length (concat (map pstr cs)) \<le> length free"
  shows "split_loop (pre @ path_of cs @ 0 # t) (length pre) (ready @ free) (length ready) =
    Some (ready @ concat (map pstr cs) @ drop (length (concat (map pstr cs))) free)"
  using assms
proof (induction cs arbitrary: pre ready free)
  case (Cons c cs)
  define path where "path = pre @ path_of (c # cs) @ 0 # t"
  have c: "0 \<notin> set c" "47 \<notin> set c" and cs: "path_elems cs" using Cons.prems(1) by (auto simp: path_elems_def)
  have tail: "drop (length pre) path = 47 # c @ path_of cs @ 0 # t"
    "drop (Suc (length pre)) path = c @ path_of cs @ 0 # t"
    by (simp_all add: path_def path_of_def)
  have len: "length path = length pre + 1 + length c + length (path_of cs @ 0 # t)"
    by (simp add: path_def path_of_def)
  have free: "length c + 2 \<le> length free" using Cons.prems(3) by simp
  have store: "wr_bytes (ready @ free) (length ready) (le_bytes 2 (length c)) =
      Some (ready @ le_bytes 2 (length c) @ drop 2 free)"
    using free by (simp add: wr_bytes_def)
  have copy: "copy_at (ready @ le_bytes 2 (length c) @ drop 2 free) (length ready + 2) path (length pre + 1) (length c) =
      Some (ready @ pstr c @ drop (length c + 2) free)"
    using free tail(2) len by (simp add: copy_at_eq wr_bytes_def pstr_def)
  show ?case
  proof (cases "cs = []")
    case True
    then have "strchr_c (drop (length pre + 1) path) 47 = Some None"
      using strchr_c_miss [OF c] tail(2) by (simp add: path_of_def)
    moreover have "strlen_c (drop (length pre) path) = Some (length c + 1)"
      using strlen_c_at [of "47 # c"] c tail(1) True by (simp add: path_of_def)
    ultimately show ?thesis
      using store copy True unfolding path_def [symmetric]
      by (subst split_loop.simps) (simp add: add.commute)
  next
    case False
    then obtain c2 cs2 where "cs = c2 # cs2" by (cases cs) auto
    then have "drop (length pre + 1) path = c @ 47 # (c2 @ path_of cs2 @ 0 # t)"
      using tail(2) by (simp add: path_of_def)
    then have "strchr_c (drop (length pre + 1) path) 47 = Some (Some (length c))"
      using strchr_c_hit [OF c] by simp
    moreover have "split_loop path (length pre + 1 + length c) (ready @ pstr c @ drop (length c + 2) free) (length ready + (length c + 2)) =
        Some ((ready @ pstr c) @ concat (map pstr cs) @ drop (length (concat (map pstr cs))) (drop (length c + 2) free))"
      using Cons.IH [OF cs False, of "drop (length c + 2) free" "pre @ 47 # c" "ready @ pstr c"] Cons.prems(3)
      by (simp add: path_def path_of_def add.commute add.left_commute)
    ultimately show ?thesis
      using store copy unfolding path_def [symmetric]
      by (subst split_loop.simps) (simp add: add.commute add.left_commute)
  qed
qed simp

lemma path_of_length: "length (concat (map pstr cs)) = length (path_of cs) + length cs"
  by (induction cs) (auto simp: path_of_def)

text \<open>
  Splitting an absolute path other than the root gives the number of its elements and a block that
  holds them one after the other, each with its length; the block asked for is large enough. The path
  is found again by the walk over that many elements.
\<close>

lemma fcall_path_split_elems:
  assumes "path_elems cs" "cs \<noteq> []" "cs \<noteq> [[]]" "length cs \<le> SHRT_MAX"
    "\<And>n. length (blk n) = n"
  shows "\<exists>rest. fcall_path_split (\<lambda>n. Some (blk n)) (path_of cs @ [0]) =
      Some (int (length cs), Some (concat (map pstr cs) @ rest)) \<and>
    wname_val (length cs) (concat (map pstr cs) @ rest) = Some cs"
proof -
  let ?path = "path_of cs @ [0]"
  obtain c cs' where cs: "cs = c # cs'" using assms(2) by (cases cs) auto
  have path: "?path = 47 # (c @ path_of cs' @ [0])" by (simp add: cs path_of_def)
  have ne: "path_of cs \<noteq> [47]"
  proof
    assume "path_of cs = [47]"
    then have "c = []" "path_of cs' = []" by (simp_all add: cs path_of_def)
    then have "cs' = []" by (cases cs') (auto simp: path_of_def)
    with \<open>c = []\<close> assms(3) cs show False by simp
  qed
  have nul: "0 \<notin> set (path_of cs)" by (rule path_of_no_nul [OF assms(1)])
  have "\<exists>d. strcmp_c ?path [47, 0] = Some d \<and> d \<noteq> 0"
  proof -
    obtain x xs where x: "c @ path_of cs' = x # xs"
      using ne path by (cases "c @ path_of cs'") (auto simp: cs path_of_def)
    then have "x \<noteq> 0" using nul by (auto simp: cs path_of_def)
    moreover have "?path = 47 # x # xs @ [0]" using path x by simp
    ultimately show ?thesis by simp
  qed
  then obtain d where cmp: "strcmp_c ?path [47, 0] = Some d" "d \<noteq> 0" by blast
  have cnt: "strcnt_c ?path 47 = Some (length cs)" using strcnt_c_path [OF assms(1), of "[]"] by simp
  have len: "strlen_c ?path = Some (length (path_of cs))" using strlen_c_at [OF nul, of "[]"] by simp
  have slash: "strchr_c ?path 47 = Some (Some 0)" using path by simp
  let ?n = "length (path_of cs) + length cs * 2"
  let ?rest = "drop (length (concat (map pstr cs))) (blk ?n)"
  have "split_loop ?path 0 (blk ?n) 0 = Some (concat (map pstr cs) @ ?rest)"
    using split_loop_path [OF assms(1,2), of "blk ?n" "[]" "[]" "[]"] path_of_length [of cs] assms(5) by simp
  then have "fcall_path_split (\<lambda>n. Some (blk n)) ?path = Some (int (length cs), Some (concat (map pstr cs) @ ?rest))"
    using cmp cnt len slash assms(4) by (simp add: fcall_path_split_def)
  moreover have "wname_val (length cs) (concat (map pstr cs) @ ?rest) = Some cs"
    using skip_wname_at(2) [of "concat (map pstr cs) @ ?rest" 0 cs] holds_at_prefix assms(1)
    by (auto simp: path_elems_def)
  ultimately show ?thesis by blast
qed

lemma fcall_path_split_elems_witness:
  "\<exists>rest. fcall_path_split (\<lambda>n. Some (replicate n 0)) [47, 98, 105, 110, 47, 115, 104, 0] =
     Some (2, Some ([3, 0, 98, 105, 110, 2, 0, 115, 104] @ rest))"
  using fcall_path_split_elems [of "[[98, 105, 110], [115, 104]]" "\<lambda>n. replicate n 0"]
  by (auto simp: path_elems_def path_of_def SHRT_MAX_def pstr_def le_bytes_2)

subsection \<open>Messages of the file server\<close>

definition VFS_MAX_MSG_LEN :: nat where [layout_simps]: "VFS_MAX_MSG_LEN = 128"
definition MQ_ID_SIZE :: nat where [layout_simps]: "MQ_ID_SIZE = 4"

record vfs_msg =
  v_fcall :: fcall
  v_mq_id :: u32

text \<open>The id is read as one \<open>char\<close>, which is unsigned.\<close>

definition vfs_msg_parse :: "vfs_msg \<Rightarrow> bytes \<Rightarrow> (nat \<times> vfs_msg) option" where
  "vfs_msg_parse msg buf = do {
     (len, f) \<leftarrow> fcall_buf_to_msg buf (v_fcall msg);
     if len = 0 \<or> unat len > VFS_MAX_MSG_LEN - MQ_ID_SIZE
     then Some (0, msg\<lparr>v_fcall := f, v_mq_id := -1\<rparr>)
     else do {
       c \<leftarrow> rd_at buf (unat len);
       Some (unat len + MQ_ID_SIZE, msg\<lparr>v_fcall := f, v_mq_id := ucast c\<rparr>) } }"

definition vfs_msg_put :: "vfs_msg \<Rightarrow> bytes \<Rightarrow> (nat \<times> bytes) option" where
  "vfs_msg_put msg buf = do {
     (len, buf1) \<leftarrow> fcall_msg_to_buf (v_fcall msg) buf (of_nat (VFS_MAX_MSG_LEN - MQ_ID_SIZE));
     if len = 0 then Some (0, buf1)
     else do {
       buf2 \<leftarrow> wr_bytes buf1 (unat len) (le_bytes MQ_ID_SIZE (unat (v_mq_id msg)));
       Some (unat len + MQ_ID_SIZE, buf2) } }"

text \<open>
  \<open>mq_send\<close> and \<open>mq_receive\<close> are arguments: for the queue, the buffer, the length and the state of the
  world \<open>'w\<close> they give the result, the buffer and the new state.
\<close>

definition vfs_msg_send ::
    "(u32 \<Rightarrow> bytes \<Rightarrow> nat \<Rightarrow> 'w \<Rightarrow> int \<times> 'w) \<Rightarrow> (u32 \<Rightarrow> bytes \<Rightarrow> nat \<Rightarrow> 'w \<Rightarrow> int \<times> bytes \<times> 'w) \<Rightarrow>
     vfs_msg \<Rightarrow> bytes \<Rightarrow> u32 \<Rightarrow> u32 \<Rightarrow> 'w \<Rightarrow> (nat \<times> vfs_msg \<times> bytes \<times> 'w) option" where
  "vfs_msg_send mq_send mq_receive msg buf out inq w = do {
     (len, buf1) \<leftarrow> vfs_msg_put msg buf;
     if len = 0 then Some (0, msg, buf1, w)
     else case mq_send out buf1 len w of (r, w1) \<Rightarrow>
       if r = -1 then Some (0, msg, buf1, w1)
       else case mq_receive inq buf1 VFS_MAX_MSG_LEN w1 of (r2, buf2, w2) \<Rightarrow>
         if r2 = -1 then Some (0, msg, buf2, w2)
         else do {
           (len2, msg2) \<leftarrow> vfs_msg_parse msg buf2;
           Some (len2, msg2, buf2, w2) } }"

lemma vfs_msg_put_eq:
  assumes "fcall_wire (v_fcall msg) = Some w" "length w \<le> 124" "length w + 4 \<le> length buf"
  shows "vfs_msg_put msg buf = Some (length w + 4, w @ le_bytes 4 (unat (v_mq_id msg)) @ drop (length w + 4) buf)"
proof -
  have n: "unat (of_nat (length w) :: u32) = length w" using assms(2) by (simp add: unat_of_nat)
  have "w \<noteq> []" using assms(1) by (auto simp: fcall_wire_def wire_of_def bind_Some enc32_def)
  then have nz: "(of_nat (length w) :: u32) \<noteq> 0" using n by (metis length_0_conv unat_0)
  have "fcall_msg_to_buf (v_fcall msg) buf 124 = Some (of_nat (length w), w @ drop (length w) buf)"
    using fcall_msg_to_buf_eq [OF assms(1), of buf 124] assms(2,3) by simp
  then show ?thesis using nz n assms(3) by (simp add: vfs_msg_put_def layout_simps wr_bytes_def add.commute)
qed

lemma vfs_msg_parse_eq:
  assumes "fcall_wire f = Some w" "length w \<le> 124"
  shows "\<exists>ty f'. vfs_msg_parse msg (w @ c # t) = Some (length w + 4, msg\<lparr>v_fcall := f', v_mq_id := ucast c\<rparr>) \<and>
    fcall_wire f' = Some w \<and> f_type f' = f_type f \<and> f_tag f' = f_tag f \<and> type_of (f_type f) = Some ty \<and> fields_of ty f' = fields_of ty f"
proof -
  have n: "unat (of_nat (length w) :: u32) = length w" using assms(2) by (simp add: unat_of_nat)
  have "w \<noteq> []" using assms(1) by (auto simp: fcall_wire_def wire_of_def bind_Some enc32_def)
  then have nz: "(of_nat (length w) :: u32) \<noteq> 0" using n by (metis length_0_conv unat_0)
  have "length w < 2 ^ 32" using assms(2) by simp
  from fcall_roundtrip_eq [OF assms(1) this, of "c # t" "v_fcall msg"] obtain ty f' where
    "fcall_buf_to_msg (w @ c # t) (v_fcall msg) = Some (of_nat (length w), f')" "fcall_wire f' = Some w"
    "f_type f' = f_type f" "f_tag f' = f_tag f" "type_of (f_type f) = Some ty" "fields_of ty f' = fields_of ty f"
    by blast
  then show ?thesis using nz n assms(2)
    by (intro exI [of _ ty] exI [of _ f']) (simp add: vfs_msg_parse_def layout_simps rd_at_append)
qed

text \<open>
  C22. A file server message that is put into a buffer and parsed from it keeps its fields, but of the
  id of the reply queue only the lowest byte.
\<close>

theorem vfs_msg_roundtrip:
  assumes "fcall_wire (v_fcall msg) = Some w" "length w \<le> 124" "length w + 4 \<le> length buf"
  shows "\<exists>buf' msg'. vfs_msg_put msg buf = Some (length w + 4, buf') \<and>
    vfs_msg_parse msg0 buf' = Some (length w + 4, msg') \<and> fcall_wire (v_fcall msg') = Some w \<and>
    unat (v_mq_id msg') = unat (v_mq_id msg) mod 256"
proof -
  obtain c cs where ident: "le_bytes 4 (unat (v_mq_id msg)) = c # cs" "c = of_nat (unat (v_mq_id msg))"
    using le_bytes.simps(2) [of 3] by simp
  have "unat (ucast (of_nat (unat (v_mq_id msg)) :: u8) :: u32) = unat (v_mq_id msg) mod 256"
    by (simp add: unsigned_ucast_eq unat_of_nat take_bit_eq_mod unat_mod_distrib)
  then show ?thesis
    using vfs_msg_put_eq [OF assms] vfs_msg_parse_eq [OF assms(1,2), of msg0 c "cs @ drop (length w + 4) buf"]
    by (auto simp: ident)
qed

theorem vfs_msg_roundtrip_witness:
  "\<exists>buf' msg'. vfs_msg_put \<lparr>v_fcall = walk_msg, v_mq_id = 258\<rparr> (replicate 128 0) = Some (28, buf') \<and>
    vfs_msg_parse \<lparr>v_fcall = blank_fcall, v_mq_id = 0\<rparr> buf' = Some (28, msg') \<and> unat (v_mq_id msg') = 2"
proof -
  have wire: "fcall_wire (v_fcall \<lparr>v_fcall = walk_msg, v_mq_id = 258\<rparr>) = Some walk_bytes"
    by (simp add: walk_wire)
  have len: "length walk_bytes = 24" by (simp add: walk_bytes_def)
  have "(24 :: nat) \<le> 124" "24 + 4 \<le> length (replicate 128 (0 :: u8))" by simp_all
  note ex = vfs_msg_roundtrip [OF wire, unfolded len, OF this, of "\<lparr>v_fcall = blank_fcall, v_mq_id = 0\<rparr>"]
  obtain buf' msg' where run: "vfs_msg_put \<lparr>v_fcall = walk_msg, v_mq_id = 258\<rparr> (replicate 128 0) = Some (24 + 4, buf')"
    "vfs_msg_parse \<lparr>v_fcall = blank_fcall, v_mq_id = 0\<rparr> buf' = Some (24 + 4, msg')"
    "unat (v_mq_id msg') = unat (v_mq_id \<lparr>v_fcall = walk_msg, v_mq_id = 258\<rparr>) mod 256"
    using ex by blast
  have "unat (v_mq_id msg') = 2" using run(3) by simp
  with run(1,2) show ?thesis by (intro exI [of _ buf'] exI [of _ msg']) simp
qed

end
