(* ===== verification/Syscalls.thy ===== *)
theory Syscalls
  imports Msgbuf Mqueue_System
begin

text \<open>
  The system calls (\<^verbatim>\<open>kernel/syscalls\<close>) on the models of the kernel components, and their wrappers in the
  libraries (\<^verbatim>\<open>lib/system/msb\<close>, \<^verbatim>\<open>lib/c/sys/mman\<close>, \<^verbatim>\<open>lib/c/mqueue\<close>).

  A \<open>long\<close> result is an \<open>int\<close>, a result that is a pointer a word. A panic is \<open>None\<close>, like undefined
  behaviour; the line printed before it is left out. A call that blocks has the outcome of its attempt.
\<close>

subsection \<open>Tasks\<close>

definition sys_exit :: "int \<Rightarrow> kernel \<Rightarrow> (exit_result \<times> kernel) option" where
  "sys_exit status k = task_exit k"

definition sys_fork :: "u64 \<Rightarrow> kernel \<Rightarrow> (int \<times> kernel) option" where
  "sys_fork ksp k = do {
     ((pid, err), k') \<leftarrow> task_fork ksp k;
     if err = ERR_OK then Some (pid, k')
     else if err = ERR_MEM_OOM then Some (- errno_val ENOMEM, k')
     else None }"

definition sys_getpid :: "kernel \<Rightarrow> int option" where
  "sys_getpid k = map_option t_pid (deref (k_sched k) (current_task (k_sched k)))"

definition sys_spawn :: "kernel \<Rightarrow> (int \<times> kernel) option" where
  "sys_spawn k = None"

subsection \<open>Memory\<close>

definition PROT_READ :: int where [layout_simps]: "PROT_READ = 1"
definition PROT_WRITE :: int where [layout_simps]: "PROT_WRITE = 2"
definition PROT_EXEC :: int where [layout_simps]: "PROT_EXEC = 4"
definition MAP_ANONYMOUS :: int where [layout_simps]: "MAP_ANONYMOUS = 1"
definition MAP_DEVICE :: int where [layout_simps]: "MAP_DEVICE = 2"

definition errno_ptr :: "errno \<Rightarrow> u64" where
  "errno_ptr e = of_int (errno_val e)"

definition current_table :: "kernel \<Rightarrow> u64 option" where
  "current_table k = map_option (\<lambda>t. MEM_PHYS_TO_VIRT (t_tran_table t))
     (deref (k_sched k) (current_task (k_sched k)))"

fun map_anonymous_pages ::
    "u64 \<Rightarrow> u64 \<Rightarrow> mem_perm \<Rightarrow> nat \<Rightarrow> nat \<Rightarrow> mem_state \<Rightarrow> (u64 \<times> mem_state) option" where
  "map_anonymous_pages table vaddr perm i 0 m = Some (vaddr, m)"
| "map_anonymous_pages table vaddr perm i (Suc n) m = do {
     (page_r, m1) \<leftarrow> mem_kernel_alloc_page MEM_RW m;
     if r_err page_r = ERR_OK then do {
       (err, m2) \<leftarrow> mem_user_map_page table (vaddr + of_nat i * PAGESIZE)
         (MEM_VIRT_TO_PHYS (r_addr page_r)) perm MEM_NORM m1;
       if err \<noteq> ERR_OK then Some (errno_ptr ENOMEM, m2)
       else map_anonymous_pages table vaddr perm (i + 1) n m2 }
     else if r_err page_r = ERR_MEM_OOM then Some (errno_ptr ENOMEM, m1)
     else None }"

definition map_anonymous :: "u64 \<Rightarrow> u64 \<Rightarrow> mem_perm \<Rightarrow> kernel \<Rightarrow> (u64 \<times> kernel) option" where
  "map_anonymous addr len perm k = do {
     let start = (if addr \<noteq> 0 then (addr + PAGESIZE - 1) AND NOT (PAGESIZE - 1) else 0x200000);
     table \<leftarrow> current_table k;
     let page_cnt = unat (MEM_SIZE_TO_PAGES len);
     vaddr \<leftarrow> mem_user_find_empty table start page_cnt (k_mem k);
     if vaddr = 0 then Some (errno_ptr ENOMEM, k)
     else map_option (\<lambda>(r, m). (r, k\<lparr>k_mem := m\<rparr>))
       (map_anonymous_pages table vaddr perm 0 page_cnt (k_mem k)) }"

fun map_device_pages ::
    "u64 \<Rightarrow> u64 \<Rightarrow> mem_perm \<Rightarrow> nat \<Rightarrow> nat \<Rightarrow> mem_state \<Rightarrow> (u64 \<times> mem_state) option" where
  "map_device_pages table vaddr perm i 0 m = Some (vaddr, m)"
| "map_device_pages table vaddr perm i (Suc n) m = do {
     (err, m1) \<leftarrow> mem_user_map_page table (vaddr + of_nat i * PAGESIZE) (vaddr + of_nat i * PAGESIZE)
       perm MEM_DEVC m;
     if err \<noteq> ERR_OK then Some (errno_ptr ENOMEM, m1)
     else map_device_pages table vaddr perm (i + 1) n m1 }"

definition map_device :: "u64 \<Rightarrow> u64 \<Rightarrow> mem_perm \<Rightarrow> kernel \<Rightarrow> (u64 \<times> kernel) option" where
  "map_device addr len perm k = do {
     table \<leftarrow> current_table k;
     let page_cnt = unat (((len + PAGESIZE - 1) AND NOT (PAGESIZE - 1)) div PAGESIZE);
     vaddr \<leftarrow> mem_user_find_empty table addr page_cnt (k_mem k);
     if vaddr \<noteq> addr then Some (errno_ptr ENOMEM, k)
     else map_option (\<lambda>(r, m). (r, k\<lparr>k_mem := m\<rparr>))
       (map_device_pages table vaddr perm 0 page_cnt (k_mem k)) }"

definition prot_perm :: "int \<Rightarrow> mem_perm option" where
  "prot_perm prot =
     (if prot = PROT_READ then Some MEM_RO
      else if prot = PROT_READ OR PROT_WRITE then Some MEM_RW
      else if prot = PROT_READ OR PROT_EXEC then Some MEM_EX
      else None)"

definition sys_mmap :: "u64 \<Rightarrow> u64 \<Rightarrow> int \<Rightarrow> int \<Rightarrow> kernel \<Rightarrow> (u64 \<times> kernel) option" where
  "sys_mmap addr len prot flags k =
     (if len = 0 then Some (errno_ptr EINVAL, k)
      else case prot_perm prot of None \<Rightarrow> Some (errno_ptr ENOTSUP, k)
      | Some perm \<Rightarrow>
          if flags = MAP_ANONYMOUS then map_anonymous addr len perm k
          else if flags = MAP_DEVICE then map_device addr len perm k
          else Some (errno_ptr ENOTSUP, k))"

text \<open>The loop over the \<open>n\<close> pages from \<open>p\<close> on; both ends of the range are page addresses.\<close>

fun munmap_pages :: "u64 \<Rightarrow> u64 \<Rightarrow> nat \<Rightarrow> mem_state \<Rightarrow> mem_state option" where
  "munmap_pages table p 0 m = Some m"
| "munmap_pages table p (Suc n) m = do {
     let (kaddr_r, m1) = mem_user_unmap_page table p m;
     m2 \<leftarrow> (if r_err kaddr_r = ERR_OK then
             (if r_addr kaddr_r \<noteq> 0 then free_or_panic (r_addr kaddr_r) m1 else Some m1)
           else if r_err kaddr_r = ERR_MEM_UNM then Some m1 else None);
     munmap_pages table (p + PAGESIZE) n m2 }"

definition sys_munmap :: "u64 \<Rightarrow> u64 \<Rightarrow> kernel \<Rightarrow> (int \<times> kernel) option" where
  "sys_munmap addr len k =
     (if len = 0 then Some (- errno_val EINVAL, k)
      else do {
        let page_start = addr AND NOT (PAGESIZE - 1);
        let page_end = (addr + len) AND NOT (PAGESIZE - 1);
        table \<leftarrow> current_table k;
        m \<leftarrow> munmap_pages table page_start ((unat page_end - unat page_start) div unat PAGESIZE) (k_mem k);
        Some (0, k\<lparr>k_mem := m\<rparr>) })"

subsection \<open>Message queues\<close>

definition sys_mq_close :: "int \<Rightarrow> int \<Rightarrow> mq_state \<Rightarrow> int \<times> mq_state" where
  "sys_mq_close mqdes pid st = mqueue_close mqdes pid st"

definition sys_mq_open :: "bytes \<Rightarrow> u32 \<Rightarrow> mq_attr option \<Rightarrow> int \<Rightarrow> mq_state \<Rightarrow> (int \<times> mq_state) option" where
  "sys_mq_open name oflag attr pid st = mqueue_open name oflag attr pid st"

definition sys_mq_receive :: "int \<Rightarrow> bytes \<Rightarrow> u64 \<Rightarrow> int \<Rightarrow> mq_state \<Rightarrow> (mq_outcome \<times> bytes \<times> mq_state) option" where
  "sys_mq_receive mqdes msg_ptr msg_len pid st = mqueue_receive mqdes msg_ptr msg_len pid st"

definition sys_mq_send :: "int \<Rightarrow> bytes \<Rightarrow> u64 \<Rightarrow> int \<Rightarrow> mq_state \<Rightarrow> (mq_outcome \<times> mq_state \<times> int list) option" where
  "sys_mq_send mqdes msg_ptr msg_len pid st = mqueue_send mqdes msg_ptr msg_len pid st"

definition sys_mq_unlink :: "bytes \<Rightarrow> mq_state \<Rightarrow> (int \<times> mq_state) option" where
  "sys_mq_unlink name st = mqueue_unlink name st"

subsection \<open>Message buffers\<close>

text \<open>The translations of the error codes; \<open>None\<close> is the panic for an unhandled code.\<close>

definition sys_msb_close :: "int \<Rightarrow> msb_state \<Rightarrow> (int \<times> msb_state) option" where
  "sys_msb_close mid st = do {
     (err, st') \<leftarrow> msgbuf_close mid st;
     (case err of ERR_OK \<Rightarrow> Some (0, st')
      | ERR_MSB_FND \<Rightarrow> Some (- errno_val EACCES, st')
      | _ \<Rightarrow> None) }"

definition sys_msb_connect :: "int \<Rightarrow> bytes \<Rightarrow> msb_state \<Rightarrow> (int \<times> msb_state) option" where
  "sys_msb_connect mid name st = do {
     ((rid, err), st') \<leftarrow> msgbuf_connect mid name st;
     (case err of ERR_OK \<Rightarrow> Some (rid, st')
      | ERR_MEM_OOM \<Rightarrow> Some (- errno_val ENOMEM, st')
      | ERR_MSB_COE \<Rightarrow> Some (- errno_val EEXIST, st')
      | ERR_MSB_COF \<Rightarrow> Some (- errno_val EAGAIN, st')
      | ERR_MSB_FND \<Rightarrow> Some (- errno_val EACCES, st')
      | _ \<Rightarrow> None) }"

definition sys_msb_create ::
    "(u64 \<Rightarrow> u64 \<times> msgbuf list) \<Rightarrow> bytes \<Rightarrow> u64 \<Rightarrow> bool \<Rightarrow> msb_state \<Rightarrow> ((int \<times> u64 option) \<times> msb_state) option" where
  "sys_msb_create stale name sz send_buf st = do {
     ((mid, err, out), st') \<leftarrow> msgbuf_create stale name sz send_buf st;
     (case err of ERR_OK \<Rightarrow> Some ((mid, out), st')
      | ERR_MEM_OOM \<Rightarrow> Some ((- errno_val ENOMEM, out), st')
      | ERR_MSB_EXS \<Rightarrow> Some ((- errno_val EEXIST, out), st')
      | ERR_MSB_NAM \<Rightarrow> Some ((- errno_val EINVAL, out), st')
      | ERR_MSB_SIZ \<Rightarrow> Some ((- errno_val EINVAL, out), st')
      | _ \<Rightarrow> None) }"

definition sys_msb_disconnect :: "int \<Rightarrow> int \<Rightarrow> msb_state \<Rightarrow> (int \<times> msb_state) option" where
  "sys_msb_disconnect send_id recv_id st = do {
     (err, st') \<leftarrow> msgbuf_disconnect send_id recv_id st;
     (case err of ERR_OK \<Rightarrow> Some (0, st')
      | ERR_MSB_COD \<Rightarrow> Some (- errno_val ENOENT, st')
      | ERR_MSB_FND \<Rightarrow> Some (- errno_val EACCES, st')
      | _ \<Rightarrow> None) }"

definition sys_msb_reply :: "int \<Rightarrow> int \<Rightarrow> msb_state \<Rightarrow> (int \<times> msb_state) option" where
  "sys_msb_reply mid reply_id st = do {
     (err, st') \<leftarrow> msgbuf_reply mid reply_id st;
     (case err of ERR_OK \<Rightarrow> Some (0, st')
      | ERR_MSB_FND \<Rightarrow> Some (- errno_val EACCES, st')
      | _ \<Rightarrow> None) }"

text \<open>A call that may block: the result, with the address written for a receive, or the switch.\<close>

datatype msb_call = Msb_ret int "u64 option" | Msb_blocked "(u64 \<times> u64) option" | Msb_waiting "(u64 \<times> u64) option"

definition sys_msb_recv :: "int \<Rightarrow> msb_state \<Rightarrow> (msb_call \<times> msb_state) option" where
  "sys_msb_recv mid st = do {
     (r, st') \<leftarrow> msgbuf_recv mid st;
     (case r of Recv_blocked sw \<Rightarrow> Some (Msb_blocked sw, st')
      | Recv_ret rid err addr \<Rightarrow>
          (case err of ERR_OK \<Rightarrow> Some (Msb_ret rid (Some addr), st')
           | ERR_MSB_FND \<Rightarrow> Some (Msb_ret (- errno_val EACCES) None, st')
           | _ \<Rightarrow> None)) }"

definition sys_msb_send :: "int \<Rightarrow> int \<Rightarrow> msb_state \<Rightarrow> (msb_call \<times> msb_state) option" where
  "sys_msb_send send_id recv_id st = do {
     (r, st') \<leftarrow> msgbuf_send send_id recv_id 0 st;
     (case r of Send_blocked sw \<Rightarrow> Some (Msb_blocked sw, st')
      | Send_waiting sw \<Rightarrow> Some (Msb_waiting sw, st')
      | Send_ret err \<Rightarrow>
          (case err of ERR_OK \<Rightarrow> Some (Msb_ret 0 None, st')
           | ERR_MSB_COD \<Rightarrow> Some (Msb_ret (- errno_val ENOENT) None, st')
           | ERR_MSB_FND \<Rightarrow> Some (Msb_ret (- errno_val EACCES) None, st')
           | _ \<Rightarrow> None)) }"

subsection \<open>The wrappers of the libraries\<close>

text \<open>
  The results of a system call as the caller sees them: the value returned and what \<open>errno\<close> is set to, if
  it is.
\<close>

definition errno_result :: "int \<Rightarrow> int \<times> int option" where
  "errno_result res = (if res < 0 then (-1, Some (- res)) else (res, None))"

definition MAP_FAILED :: u64 where [layout_simps]: "MAP_FAILED = -1"

definition mmap :: "u64 \<Rightarrow> u64 \<Rightarrow> int \<Rightarrow> int \<Rightarrow> kernel \<Rightarrow> ((u64 \<times> int option) \<times> kernel) option" where
  "mmap addr len prot flags k = do {
     (res, k') \<leftarrow> sys_mmap addr len prot flags k;
     if sint res < ERRNO_TOTAL then Some ((MAP_FAILED, Some (sint (ucast res :: u32))), k')
     else Some ((res, None), k') }"

definition munmap :: "u64 \<Rightarrow> u64 \<Rightarrow> kernel \<Rightarrow> ((int \<times> int option) \<times> kernel) option" where
  "munmap addr len k = map_option (\<lambda>(res, k'). (errno_result res, k')) (sys_munmap addr len k)"

definition msb_close :: "int \<Rightarrow> msb_state \<Rightarrow> ((int \<times> int option) \<times> msb_state) option" where
  "msb_close mid st = map_option (\<lambda>(res, st'). (errno_result res, st')) (sys_msb_close mid st)"

definition msb_connect :: "int \<Rightarrow> bytes \<Rightarrow> msb_state \<Rightarrow> ((int \<times> int option) \<times> msb_state) option" where
  "msb_connect mid name st = map_option (\<lambda>(res, st'). (errno_result res, st')) (sys_msb_connect mid name st)"

definition msb_create ::
    "(u64 \<Rightarrow> u64 \<times> msgbuf list) \<Rightarrow> bytes \<Rightarrow> u64 \<Rightarrow> bool \<Rightarrow> msb_state \<Rightarrow>
     (((int \<times> int option) \<times> u64 option) \<times> msb_state) option" where
  "msb_create stale name sz send_buf st =
     map_option (\<lambda>((res, out), st'). ((errno_result res, out), st')) (sys_msb_create stale name sz send_buf st)"

definition msb_disconnect :: "int \<Rightarrow> int \<Rightarrow> msb_state \<Rightarrow> ((int \<times> int option) \<times> msb_state) option" where
  "msb_disconnect send_id recv_id st =
     map_option (\<lambda>(res, st'). (errno_result res, st')) (sys_msb_disconnect send_id recv_id st)"

text \<open>
  A send that returns has a result; one that blocks passes the switch on. The receiving call runs the
  callback, here a function of the address and the state, and then replies.
\<close>

datatype msb_result = Msb_done int "int option" | Msb_stopped "(u64 \<times> u64) option"

definition msb_send :: "int \<Rightarrow> int \<Rightarrow> msb_state \<Rightarrow> (msb_result \<times> msb_state) option" where
  "msb_send send_id recv_id st = do {
     (r, st') \<leftarrow> sys_msb_send send_id recv_id st;
     (case r of Msb_ret res addr \<Rightarrow> Some (if res < 0 then Msb_done (-1) (Some (- res)) else Msb_done res None, st')
      | Msb_blocked sw \<Rightarrow> Some (Msb_stopped sw, st')
      | Msb_waiting sw \<Rightarrow> Some (Msb_stopped sw, st')) }"

definition MSB_FAIL :: int where [layout_simps]: "MSB_FAIL = -1"

definition msb_recv :: "int \<Rightarrow> (u64 \<Rightarrow> msb_state \<Rightarrow> msb_state) \<Rightarrow> msb_state \<Rightarrow> (msb_result \<times> msb_state) option" where
  "msb_recv mid callback st = do {
     (r, st1) \<leftarrow> sys_msb_recv mid st;
     (case r of
        Msb_ret recv_id buf \<Rightarrow>
          if recv_id < 0 then Some (Msb_done MSB_FAIL (Some (- recv_id)), st1)
          else do {
            addr \<leftarrow> buf;
            (res, st2) \<leftarrow> sys_msb_reply mid recv_id (callback addr st1);
            Some (if res < 0 then Msb_done MSB_FAIL (Some (- res)) else Msb_done 0 None, st2) }
      | Msb_blocked sw \<Rightarrow> Some (Msb_stopped sw, st1)
      | Msb_waiting sw \<Rightarrow> Some (Msb_stopped sw, st1)) }"

datatype mq_result = Mq_done int "int option" | Mq_stopped

fun mq_res :: "mq_outcome \<Rightarrow> mq_result" where
  "mq_res Blocked = Mq_stopped"
| "mq_res (Ret res) = (if res < 0 then Mq_done (-1) (Some (- res)) else Mq_done res None)"

definition mq_close :: "int \<Rightarrow> int \<Rightarrow> mq_state \<Rightarrow> (int \<times> int option) \<times> mq_state" where
  "mq_close mqdes pid st = (let (res, st') = sys_mq_close mqdes pid st in (errno_result res, st'))"

definition mq_open ::
    "bytes \<Rightarrow> u32 \<Rightarrow> mq_attr option \<Rightarrow> int \<Rightarrow> mq_state \<Rightarrow> ((int \<times> int option) \<times> mq_state) option" where
  "mq_open name oflag attr_arg pid st =
     (let access_flags = oflag AND 7;
          attr = (if oflag AND O_CREAT \<noteq> 0 then attr_arg else None)
      in if access_flags = 0 \<or> access_flags \<noteq> access_flags AND (- access_flags)
         then Some ((-1, Some (errno_val EACCES)), st)
         else map_option (\<lambda>(res, st'). (errno_result res, st')) (sys_mq_open name oflag attr pid st))"

definition mq_receive :: "int \<Rightarrow> bytes \<Rightarrow> u64 \<Rightarrow> int \<Rightarrow> mq_state \<Rightarrow> (mq_result \<times> bytes \<times> mq_state) option" where
  "mq_receive mqdes msg_ptr msg_len pid st =
     map_option (\<lambda>(r, buf, st'). (mq_res r, buf, st')) (sys_mq_receive mqdes msg_ptr msg_len pid st)"

definition mq_send :: "int \<Rightarrow> bytes \<Rightarrow> u64 \<Rightarrow> int \<Rightarrow> mq_state \<Rightarrow> (mq_result \<times> mq_state \<times> int list) option" where
  "mq_send mqdes msg_ptr msg_len pid st =
     map_option (\<lambda>(r, st', woken). (mq_res r, st', woken)) (sys_mq_send mqdes msg_ptr msg_len pid st)"

definition mq_unlink :: "bytes \<Rightarrow> mq_state \<Rightarrow> ((int \<times> int option) \<times> mq_state) option" where
  "mq_unlink name st = map_option (\<lambda>(res, st'). (errno_result res, st')) (sys_mq_unlink name st)"

definition getpid :: "kernel \<Rightarrow> int option" where
  "getpid k = sys_getpid k"

end
