(* ===== verification/Syscalls_Props.thy ===== *)
theory Syscalls_Props
  imports Syscalls Mem_User Task_Witness
begin

text \<open>
  Properties of the memory calls (\<^verbatim>\<open>kernel/syscalls/sys_munmap.c\<close>, \<^verbatim>\<open>sys_mmap.c\<close>).
\<close>

subsection \<open>Page addresses\<close>

lemma page_mask: "(PAGESIZE - 1 :: u64) = mask 12"
  by (simp add: PAGESIZE_def mask_eq_exp_minus_1)

lemma page_down: "unat (w AND NOT (PAGESIZE - 1)) = unat (w :: u64) div 4096 * 4096"
proof -
  have "w AND NOT (PAGESIZE - 1) = push_bit 12 (drop_bit 12 w)"
    unfolding page_mask by (intro bit_word_eqI) (auto simp: bit_simps)
  moreover have "unat (push_bit 12 (drop_bit 12 w)) = unat w div 4096 * 4096"
    using u64_bound [of w]
    by (simp add: unat_word_ariths push_bit_eq_mult drop_bit_eq_div unat_div)
  ultimately show ?thesis by simp
qed

lemma page_aligned:
  assumes "unat w mod 4096 = 0"
  shows "w AND NOT (PAGESIZE - 1) = (w :: u64)"
  using assms by (simp add: word_unat_eq_iff page_down mod_eq_0_iff_dvd)

lemma leads_to_frame:
  assumes "leads_to s is t a" "path_ok s is t B" "\<And>b. \<not> table_window b \<Longrightarrow> cells s' b = cells s b"
  shows "leads_to s' is t a \<and> \<not> table_window a"
  using assms(1,2)
proof (induction "is" arbitrary: t B)
  case (Cons i "is")
  have safe: "\<not> table_window (entry_at t i)"
    using Cons.prems(2) by (auto simp: Let_def safe_cell_def)
  have same: "cells s' (entry_at t i) = cells s (entry_at t i)" by (rule assms(3) [OF safe])
  show ?case
  proof (cases "is = []")
    case True
    with Cons.prems(1) safe show ?thesis by simp
  next
    case False
    have "leads_to s' is (mmu_get_vaddr (cells s (entry_at t i))) a \<and> \<not> table_window a"
      using Cons.prems False by (intro Cons.IH) (auto simp: Let_def)
    with Cons.prems(1) False same show ?thesis by (simp add: Let_def)
  qed
qed simp

lemma unmap_sole_owner:
  assumes "leads_to s (mmu_get_table_idx vaddr) tran_table a" "mmu_is_valid (cells s a)"
    and "entry_ref (cells s a) = 0"
  shows "mem_user_unmap_page tran_table vaddr s =
      (\<lparr>r_addr = mmu_get_vaddr (cells s a), r_err = ERR_OK\<rparr>, s)"
proof -
  have "unmap_entry a s = (\<lparr>r_addr = mmu_get_vaddr (cells s a), r_err = ERR_OK\<rparr>, s)"
    using mark_freed_zero [OF assms(3)] by (simp add: unmap_entry_def Let_def set_cell_same)
  with assms show ?thesis
    by (auto simp: mmu_get_table_idx_def mem_user_unmap_page_def Let_def)
qed

subsection \<open>Unmapping\<close>

text \<open>
  C6. \<open>munmap\<close> of a page that has no other owner gives its frame back to the page allocator but leaves
  the mapping in place: the call succeeds, the frame is free for the next allocation, and the process
  still reaches it through the old address.
\<close>

theorem munmap_leaves_mapping:
  assumes "current_table k = Some table" "unat addr mod 4096 = 0" "unat addr + 4096 < 2 ^ 64"
    and "leads_to (k_mem k) (mmu_get_table_idx addr) table a" "path_ok (k_mem k) (mmu_get_table_idx addr) table {}"
    and "mmu_is_valid (cells (k_mem k) a)" "entry_ref (cells (k_mem k) a) = 0"
    and "pmm_wf (pmap (k_mem k))" "p \<in> pmm_pages" "mmu_get_vaddr (cells (k_mem k) a) = MEM_PHYS_TO_VIRT p"
    and "mem_kernel_free_page (MEM_PHYS_TO_VIRT p) (k_mem k) = Some (ERR_OK, m)"
  shows "munmap addr 0x1000 k = Some ((0, None), k\<lparr>k_mem := m\<rparr>) \<and> p \<in> pmm_avail (pmap m) \<and>
    mem_user_get_kaddr table addr m = MEM_PHYS_TO_VIRT p"
proof -
  have sum: "unat (addr + 0x1000) = unat addr + 4096"
    using assms(3) by (simp add: unat_add_no_overflow)
  have "unat (addr + 0x1000) mod 4096 = 0" using assms(2) unfolding sum by (simp only: mod_add_self2)
  then have ends: "addr AND NOT (PAGESIZE - 1) = addr" "(addr + 0x1000) AND NOT (PAGESIZE - 1) = addr + 0x1000"
    by (simp_all add: page_aligned assms(2))
  have count: "(unat (addr + 0x1000) - unat addr) div unat PAGESIZE = 1"
    using sum by (simp add: PAGESIZE_def)
  have nz: "MEM_PHYS_TO_VIRT p \<noteq> 0" by (rule phys_to_virt_nonzero [OF assms(9)])
  have unmap: "mem_user_unmap_page table addr (k_mem k) =
      (\<lparr>r_addr = MEM_PHYS_TO_VIRT p, r_err = ERR_OK\<rparr>, k_mem k)"
    using unmap_sole_owner [OF assms(4,6,7)] assms(10) by simp
  have "munmap_pages table addr 1 (k_mem k) = Some m"
    using unmap nz assms(11) by (simp add: free_or_panic_def)
  then have run: "sys_munmap addr 0x1000 k = Some (0, k\<lparr>k_mem := m\<rparr>)"
    using assms(1) ends count by (simp add: sys_munmap_def)
  have frame: "cells m b = cells (k_mem k) b" if "\<not> table_window b" for b
    by (rule free_page_frame [OF assms(11) that])
  have lead: "leads_to m (mmu_get_table_idx addr) table a" "\<not> table_window a"
    using leads_to_frame [OF assms(4,5) frame] by blast+
  have cell: "cells m a = cells (k_mem k) a" by (rule frame [OF lead(2)])
  have "mem_user_get_kaddr table addr m = MEM_PHYS_TO_VIRT p"
    using get_kaddr_leads_to [OF lead(1)] cell assms(6,10) by simp
  moreover have "p \<in> pmm_avail (pmap m)"
    using free_page_avail [OF assms(11,8)] assms(9) by simp
  ultimately show ?thesis using run by (simp add: munmap_def errno_result_def)
qed

text \<open>
  \<open>munmap\<close> rounds the end of the range down: a range that does not reach the end of the page it
  starts in is not unmapped at all, though the call succeeds.
\<close>

lemma munmap_inside_page:
  assumes "current_table k = Some table" "0 < unat len" "unat addr mod 4096 + unat len < 4096"
  shows "munmap addr len k = Some ((0, None), k)"
proof -
  have "unat addr = 4096 * (unat addr div 4096) + unat addr mod 4096" by simp
  moreover have "unat addr div 4096 < 4503599627370496" using u64_bound [of addr] by simp
  ultimately have "unat addr + unat len < 18446744073709551616" using assms(3) by linarith
  then have sum: "unat (addr + len) = unat addr + unat len" by (simp add: unat_add_no_overflow)
  have "unat addr + unat len = (unat addr mod 4096 + unat len) + unat addr div 4096 * 4096" by simp
  then have "(unat addr + unat len) div 4096 = ((unat addr mod 4096 + unat len) + unat addr div 4096 * 4096) div 4096"
    by (rule arg_cong)
  also have "\<dots> = unat addr div 4096" using assms(3) by (subst div_mult_self1) simp_all
  finally have "unat ((addr + len) AND NOT (PAGESIZE - 1)) = unat (addr AND NOT (PAGESIZE - 1))"
    unfolding page_down sum by simp
  moreover have "len \<noteq> 0" using assms(2) by auto
  ultimately show ?thesis
    using assms(1) by (simp add: munmap_def sys_munmap_def errno_result_def)
qed

subsection \<open>Witnesses\<close>

text \<open>The machine of \<open>user_machine\<close>, with page 1 of the process in a frame the kernel's map knows.\<close>

definition unmap_machine :: mem_state where
  "unmap_machine = set_cell 0xffffff8000001800 3 user_machine"

definition unmap_kernel :: kernel where
  "unmap_kernel = \<lparr>k_mem = unmap_machine, k_sched =
     (sched_init 0x1000)\<lparr>heap := (heap (sched_init 0x1000))(0x1000 := map_option (\<lambda>t. t\<lparr>t_tran_table := 0x200000\<rparr>)
       (heap (sched_init 0x1000) 0x1000))\<rparr>\<rparr>"

lemma unmap_current: "current_table unmap_kernel = Some user_root"
  by (simp add: unmap_kernel_def current_table_def sched_init_def deref_def user_root_def
      MEM_PHYS_TO_VIRT_def layout_simps)

lemma munmap_inside_page_witness:
  "munmap 0x1010 0x20 unmap_kernel = Some ((0, None), unmap_kernel)"
  using munmap_inside_page [OF unmap_current, of "0x20" "0x1010"] by simp

lemma unmap_cells: "cells unmap_machine a = (if a = 0xffffff8000001800 then 3 else cells user_machine a)"
  by (simp add: unmap_machine_def set_cell_def)

theorem munmap_leaves_mapping_witness:
  "\<exists>m. munmap 0x1000 0x1000 unmap_kernel = Some ((0, None), unmap_kernel\<lparr>k_mem := m\<rparr>) \<and>
     0x300000 \<in> pmm_avail (pmap m) \<and> mem_user_get_kaddr user_root 0x1000 m = 0xffff000000300000"
proof -
  have wf: "pmm_wf (pmap (k_mem unmap_kernel))"
    using one_frame_wf(1) by (simp add: unmap_kernel_def unmap_machine_def user_pmap)
  have avail: "pmm_avail (pmap unmap_machine) = {0x80000}"
    using one_frame_wf(2) by (simp add: unmap_machine_def user_pmap)
  have lead: "leads_to (k_mem unmap_kernel) (mmu_get_table_idx 0x1000) user_root 0xffff000000203008"
    by (simp add: unmap_kernel_def user_idx user_root_def entry_at_def unmap_cells user_cells user_tables user_valid)
  have path: "path_ok (k_mem unmap_kernel) (mmu_get_table_idx 0x1000) user_root {}"
    by (simp add: unmap_kernel_def user_idx user_root_def entry_at_def unmap_cells user_cells user_tables
        user_valid safe_cell_def table_window_def Let_def layout_simps word_le_nat_alt word_less_nat_alt
        avail in_page_def PAGESIZE_def MEM_PHYS_TO_VIRT_def)
  have "(0x300000 :: u64) = page_addr 640" by (simp add: page_addr_def layout_simps)
  then have page: "(0x300000 :: u64) \<in> pmm_pages"
    by (simp add: pmm_pages_def MEM_MAP_SIZE_eq)
  then obtain n where "pmm_free 0x300000 (pmap unmap_machine) = Some n"
    using pmm.free_spec [OF _ page, of "pmap unmap_machine"] wf by (auto simp: unmap_kernel_def)
  then have range: "pmm_free_range 0x300000 0x301000 (pmap unmap_machine) = Some n"
    by (simp add: pmm_free_range.simps [of "0x300000"] pmm_free_range.simps [of "0x301000"] PAGESIZE_def)
  have idx: "mmu_get_table_idx 0xffff000000300000 = [0, 0, 1, 0x100]"
    by (simp add: mmu_get_table_idx_def drop_bit_eq_div)
  have levels: "kernel_levels [0, 0, 1, 0x100] =
     [0xfffffffffffff000, 0xffffffffffe00000, 0xffffffffc0000000, 0xffffff8000001000]"
    by (simp add: kernel_levels_def mmu_get_next_kernel_level_def)
  have cells: "cells user_machine 0xfffffffffffff000 = 3" "cells user_machine 0xffffffffffe00000 = 3"
    "cells user_machine 0xffffffffc0000008 = 3"
    by (simp_all add: user_machine_def one_frame_def word_le_nat_alt)
  have "\<exists>m. mem_kernel_free_page (MEM_PHYS_TO_VIRT 0x300000) (k_mem unmap_kernel) = Some (ERR_OK, m)"
    using range by (simp add: mem_kernel_free_page_def MEM_PHYS_TO_VIRT_def layout_simps idx levels entry_at_def
        valid_bit block_bit bit_simps kernel_free_leaf_def MEM_VIRT_TO_PHYS_def unmap_kernel_def unmap_cells cells)
  then obtain m where m: "mem_kernel_free_page (MEM_PHYS_TO_VIRT 0x300000) (k_mem unmap_kernel) = Some (ERR_OK, m)"
    by blast
  show ?thesis
    using munmap_leaves_mapping [OF unmap_current _ _ lead path _ _ wf page _ m]
    by (auto simp: unmap_kernel_def unmap_cells user_cells user_tables user_valid MEM_PHYS_TO_VIRT_def layout_simps
        get_field_def mask_eq_exp_minus_1 drop_bit_eq_div)
qed

end
