(* ===== verification/Alloc.thy ===== *)
theory Alloc
  imports Bytes Libc_String Syscalls
begin

text \<open>
  The memory allocator of the C library: the blocks (\<^verbatim>\<open>lib/c/internal/_block.c\<close>) and \<open>malloc\<close>, \<open>free\<close>,
  \<open>calloc\<close> and \<open>realloc\<close> (\<^verbatim>\<open>lib/c/stdlib\<close>).

  The memory of the process is a partial function from addresses to bytes: an access to an address that is
  not mapped is \<open>None\<close>. The headers of the blocks are read and written field by field in that memory,
  which the program's own data share, so that a header read from a wrong address is whatever is there.

  \<open>mmap\<close> and \<open>munmap\<close> are two operations on the memory and on a state \<open>'e\<close> of the system behind it; they
  are put together with the system calls of the kernel at the end.
\<close>

type_synonym umem = "u64 \<Rightarrow> u8 option"

subsection \<open>Bytes of memory\<close>

fun ld_bytes :: "umem \<Rightarrow> u64 \<Rightarrow> nat \<Rightarrow> bytes option" where
  "ld_bytes m a 0 = Some []"
| "ld_bytes m a (Suc n) = do { b \<leftarrow> m a; bs \<leftarrow> ld_bytes m (a + 1) n; Some (b # bs) }"

fun st_bytes :: "umem \<Rightarrow> u64 \<Rightarrow> bytes \<Rightarrow> umem option" where
  "st_bytes m a [] = Some m"
| "st_bytes m a (b # bs) = (if m a = None then None else st_bytes (m(a \<mapsto> b)) (a + 1) bs)"

subsection \<open>Headers\<close>

definition MALLOC_MAX_ORDER :: u8 where [layout_simps]: "MALLOC_MAX_ORDER = 12"
definition MALLOC_BLOCK_SIZE :: u64 where [layout_simps]: "MALLOC_BLOCK_SIZE = 0x1000"

text \<open>The fields of \<open>struct block\<close> at their offsets, and its size.\<close>

definition b_available :: "umem \<Rightarrow> u64 \<Rightarrow> u8 option" where
  "b_available m a = m a"

definition b_k :: "umem \<Rightarrow> u64 \<Rightarrow> u8 option" where
  "b_k m a = m (a + 1)"

definition b_prev :: "umem \<Rightarrow> u64 \<Rightarrow> u64 option" where
  "b_prev m a = map_option (\<lambda>bs. of_nat (le_val bs)) (ld_bytes m (a + 8) 8)"

definition b_next :: "umem \<Rightarrow> u64 \<Rightarrow> u64 option" where
  "b_next m a = map_option (\<lambda>bs. of_nat (le_val bs)) (ld_bytes m (a + 16) 8)"

definition SIZEOF_BLOCK :: u64 where [layout_simps]: "SIZEOF_BLOCK = 24"

definition set_available :: "u64 \<Rightarrow> u8 \<Rightarrow> umem \<Rightarrow> umem option" where
  "set_available a v m = st_bytes m a [v]"

definition set_k :: "u64 \<Rightarrow> u8 \<Rightarrow> umem \<Rightarrow> umem option" where
  "set_k a v m = st_bytes m (a + 1) [v]"

definition set_prev :: "u64 \<Rightarrow> u64 \<Rightarrow> umem \<Rightarrow> umem option" where
  "set_prev a v m = st_bytes m (a + 8) (le_bytes 8 (unat v))"

definition set_next :: "u64 \<Rightarrow> u64 \<Rightarrow> umem \<Rightarrow> umem option" where
  "set_next a v m = st_bytes m (a + 16) (le_bytes 8 (unat v))"

text \<open>\<open>1 << k\<close> for an \<open>int\<close>.\<close>

definition order_size :: "u8 \<Rightarrow> u64 option" where
  "order_size k = (if k < 31 then Some (push_bit (unat k) 1) else None)"

subsection \<open>Blocks\<close>

record 'e heap =
  first_block :: u64
  h_mem :: umem
  h_env :: 'e

type_synonym 'e mmap_op = "umem \<times> 'e \<Rightarrow> (u64 \<times> umem \<times> 'e) option"
type_synonym 'e munmap_op = "u64 \<Rightarrow> umem \<times> 'e \<Rightarrow> (umem \<times> 'e) option"

definition expand :: "'e mmap_op \<Rightarrow> u64 \<Rightarrow> 'e heap \<Rightarrow> (int \<times> 'e heap) option" where
  "expand mm block st = do {
     (new_block, m, e) \<leftarrow> mm (h_mem st, h_env st);
     if new_block = 0 then Some (1, st\<lparr>h_mem := m, h_env := e\<rparr>)
     else do {
       m1 \<leftarrow> set_available new_block 1 m;
       m2 \<leftarrow> set_k new_block MALLOC_MAX_ORDER m1;
       m3 \<leftarrow> set_next new_block 0 m2;
       if block \<noteq> 0 then do {
         m4 \<leftarrow> set_prev new_block block m3;
         m5 \<leftarrow> set_next block new_block m4;
         Some (0, st\<lparr>h_mem := m5, h_env := e\<rparr>) }
       else do {
         m4 \<leftarrow> set_prev new_block 0 m3;
         Some (0, st\<lparr>first_block := new_block, h_mem := m4, h_env := e\<rparr>) } } }"

definition shrink :: "'e munmap_op \<Rightarrow> u64 \<Rightarrow> 'e heap \<Rightarrow> 'e heap option" where
  "shrink um block st = do {
     prev \<leftarrow> b_prev (h_mem st) block;
     m1 \<leftarrow> (if prev \<noteq> 0 then do { next \<leftarrow> b_next (h_mem st) block; set_next prev next (h_mem st) }
           else Some (h_mem st));
     (m2, e) \<leftarrow> um block (m1, h_env st);
     Some (st\<lparr>h_mem := m2, h_env := e\<rparr>) }"

definition split :: "u64 \<Rightarrow> umem \<Rightarrow> umem option" where
  "split block m = do {
     k \<leftarrow> b_k m block;
     m1 \<leftarrow> set_k block (k - 1) m;
     d \<leftarrow> order_size (k - 1);
     let new_block = block + d;
     m2 \<leftarrow> set_available new_block 1 m1;
     m3 \<leftarrow> set_k new_block (k - 1) m2;
     next \<leftarrow> b_next m3 block;
     m4 \<leftarrow> set_next new_block next m3;
     m5 \<leftarrow> set_prev new_block block m4;
     set_next block new_block m5 }"

text \<open>The loop of \<open>block_coalesce\<close>: the block it ends with.\<close>

partial_function (option) coalesce_loop :: "u64 \<Rightarrow> u64 \<Rightarrow> umem \<Rightarrow> (u64 \<times> umem) option" where
  "coalesce_loop buddy block m =
     (if buddy = 0 then Some (block, m)
      else do {
        av \<leftarrow> b_available m buddy;
        if av = 0 then Some (block, m)
        else do {
          k \<leftarrow> b_k m block;
          if k < MALLOC_MAX_ORDER then do {
            let (block', buddy') = (if buddy < block then (buddy, block) else (block, buddy));
            k' \<leftarrow> b_k m block';
            m1 \<leftarrow> set_k block' (k' + 1) m;
            next \<leftarrow> b_next m1 buddy';
            m2 \<leftarrow> set_next block' next m1;
            k'' \<leftarrow> b_k m2 block';
            d \<leftarrow> order_size k'';
            coalesce_loop (block' XOR d) block' m2 }
          else Some (block, m) } })"

definition block_coalesce :: "'e munmap_op \<Rightarrow> u64 \<Rightarrow> 'e heap \<Rightarrow> 'e heap option" where
  "block_coalesce um block st = do {
     k \<leftarrow> b_k (h_mem st) block;
     d \<leftarrow> order_size k;
     (block', m) \<leftarrow> coalesce_loop (block XOR d) block (h_mem st);
     k' \<leftarrow> b_k m block';
     let st1 = st\<lparr>h_mem := m\<rparr>;
     if k' = MALLOC_MAX_ORDER \<and> block' \<noteq> first_block st1 then shrink um block' st1
     else Some st1 }"

partial_function (option) deinit_next :: "u64 \<Rightarrow> umem \<Rightarrow> u64 option" where
  "deinit_next next_block m =
     (if next_block = 0 \<or> next_block mod 0x1000 = 0 then Some next_block
      else do { n \<leftarrow> b_next m next_block; deinit_next n m })"

partial_function (option) deinit_loop :: "'e munmap_op \<Rightarrow> u64 \<Rightarrow> 'e heap \<Rightarrow> 'e heap option" where
  "deinit_loop um current_block st =
     (if current_block = 0 then Some st
      else do {
        n \<leftarrow> b_next (h_mem st) current_block;
        next_block \<leftarrow> deinit_next n (h_mem st);
        (m, e) \<leftarrow> um current_block (h_mem st, h_env st);
        deinit_loop um next_block (st\<lparr>h_mem := m, h_env := e\<rparr>) })"

definition block_deinit :: "'e munmap_op \<Rightarrow> 'e heap \<Rightarrow> 'e heap option" where
  "block_deinit um st = deinit_loop um (first_block st) st"

text \<open>The search, from the block \<open>current_block\<close> on; after the last block it starts again with more memory.\<close>

partial_function (option) find_loop :: "'e mmap_op \<Rightarrow> u8 \<Rightarrow> u64 \<Rightarrow> u64 \<Rightarrow> 'e heap \<Rightarrow> (u64 \<times> 'e heap) option" where
  "find_loop mm order current_block last_block st =
     (if current_block = 0 then do {
        (r, st') \<leftarrow> expand mm last_block st;
        if r = 0 then find_loop mm order (first_block st') 0 st' else Some (0, st') }
      else do {
        av \<leftarrow> b_available (h_mem st) current_block;
        k \<leftarrow> b_k (h_mem st) current_block;
        if av = 0 \<or> k < order then do {
          n \<leftarrow> b_next (h_mem st) current_block;
          find_loop mm order n current_block st }
        else if order < k then do {
          m \<leftarrow> split current_block (h_mem st);
          find_loop mm order current_block last_block (st\<lparr>h_mem := m\<rparr>) }
        else do {
          m \<leftarrow> set_available current_block 0 (h_mem st);
          Some (current_block, st\<lparr>h_mem := m\<rparr>) } })"

definition block_find :: "'e mmap_op \<Rightarrow> u8 \<Rightarrow> 'e heap \<Rightarrow> (u64 \<times> 'e heap) option" where
  "block_find mm order st = find_loop mm order (first_block st) 0 st"

partial_function (option) size_loop :: "u64 \<Rightarrow> u64 \<Rightarrow> umem \<Rightarrow> u64 option" where
  "size_loop current_block block m =
     (if current_block = 0 then Some 0
      else if current_block = block then do { k \<leftarrow> b_k m current_block; order_size k }
      else do { n \<leftarrow> b_next m current_block; size_loop n block m })"

definition block_get_size :: "u64 \<Rightarrow> 'e heap \<Rightarrow> u64 option" where
  "block_get_size ptr st = size_loop (first_block st) (ptr - SIZEOF_BLOCK) (h_mem st)"

subsection \<open>The functions of the library\<close>

text \<open>A result is the pointer, the value that \<open>errno\<close> is set to, if it is, and the heap.\<close>

function bit_count :: "u64 \<Rightarrow> nat" where
  "bit_count w = (if w = 0 then 0 else Suc (bit_count (drop_bit 1 w)))"
  by pat_completeness auto
termination
  by (relation "measure unat") (auto simp: drop_bit_eq_div unat_div word_unat_eq_iff)

declare bit_count.simps [simp del]

type_synonym 'e alloc_result = "((u64 \<times> errno option) \<times> 'e heap) option"

definition malloc :: "'e mmap_op \<Rightarrow> u64 \<Rightarrow> 'e heap \<Rightarrow> 'e alloc_result" where
  "malloc mm sz st =
     (if sz = 0 then Some ((0, Some EINVAL), st)
      else let actual_size = sz + SIZEOF_BLOCK in
        if MALLOC_BLOCK_SIZE < actual_size then Some ((0, Some ENOMEM), st)
        else do {
          (block, st') \<leftarrow> block_find mm (of_nat (bit_count actual_size)) st;
          if block = 0 then Some ((0, Some ENOMEM), st')
          else Some ((block + SIZEOF_BLOCK, None), st') })"

definition free :: "'e munmap_op \<Rightarrow> u64 \<Rightarrow> 'e heap \<Rightarrow> 'e heap option" where
  "free um ptr st =
     (if ptr = 0 then Some st
      else do {
        let block = ptr - SIZEOF_BLOCK;
        m \<leftarrow> set_available block 1 (h_mem st);
        block_coalesce um block (st\<lparr>h_mem := m\<rparr>) })"

text \<open>\<open>memcpy\<close> and \<open>memset\<close> between objects in memory.\<close>

definition copy_mem :: "u64 \<Rightarrow> u64 \<Rightarrow> nat \<Rightarrow> umem \<Rightarrow> umem option" where
  "copy_mem d s n m = do {
     dest \<leftarrow> ld_bytes m d n;
     src \<leftarrow> ld_bytes m s n;
     dest' \<leftarrow> memcpy_c dest src n;
     st_bytes m d dest' }"

definition clear_mem :: "u64 \<Rightarrow> nat \<Rightarrow> umem \<Rightarrow> umem option" where
  "clear_mem p n m = do {
     obj \<leftarrow> ld_bytes m p n;
     obj' \<leftarrow> memset_c obj 0 n;
     st_bytes m p obj' }"

definition calloc :: "'e mmap_op \<Rightarrow> u64 \<Rightarrow> u64 \<Rightarrow> 'e heap \<Rightarrow> 'e alloc_result" where
  "calloc mm nelem elsize st =
     (if nelem = 0 \<or> elsize = 0 then Some ((0, Some EINVAL), st)
      else do {
        let total_size = nelem * elsize;
        ((p, err), st') \<leftarrow> malloc mm total_size st;
        if p = 0 then Some ((0, err), st')
        else do {
          m \<leftarrow> clear_mem p (unat total_size) (h_mem st');
          Some ((p, err), st'\<lparr>h_mem := m\<rparr>) } })"

definition realloc :: "'e mmap_op \<Rightarrow> 'e munmap_op \<Rightarrow> u64 \<Rightarrow> u64 \<Rightarrow> 'e heap \<Rightarrow> 'e alloc_result" where
  "realloc mm um ptr sz st =
     (if sz = 0 then Some ((0, Some EINVAL), st)
      else do {
        n \<leftarrow> (if ptr \<noteq> 0 then block_get_size ptr st else Some 0);
        if ptr \<noteq> 0 \<and> n = 0 then Some ((0, Some EINVAL), st)
        else do {
          ((result, err), st1) \<leftarrow> malloc mm sz st;
          if result = 0 then Some ((0, Some ENOMEM), st1)
          else do {
            m \<leftarrow> copy_mem result ptr (unat (if n < sz then n else sz)) (h_mem st1);
            st2 \<leftarrow> free um ptr (st1\<lparr>h_mem := m\<rparr>);
            Some ((result, err), st2) } } })"

subsection \<open>On the kernel\<close>

text \<open>
  The call \<open>mmap(0, MALLOC_BLOCK_SIZE, 0, MAP_ANONYMOUS, 0, 0)\<close> and \<open>munmap\<close> of a block. The bytes of a new
  page are what the frame held, \<open>stale\<close>; the address of a failed call is not mapped.
\<close>

definition kernel_mmap :: "(kernel \<Rightarrow> u64 \<Rightarrow> u8) \<Rightarrow> kernel mmap_op" where
  "kernel_mmap stale = (\<lambda>(m, k). do {
     ((addr, err), k') \<leftarrow> mmap 0 MALLOC_BLOCK_SIZE 0 MAP_ANONYMOUS k;
     Some (addr, if err = None
       then (\<lambda>a. if addr \<le> a \<and> a - addr < MALLOC_BLOCK_SIZE then Some (stale k' a) else m a) else m, k') })"

definition kernel_munmap :: "kernel munmap_op" where
  "kernel_munmap block = (\<lambda>(m, k). do {
     (r, k') \<leftarrow> munmap block MALLOC_BLOCK_SIZE k;
     table \<leftarrow> current_table k';
     Some (\<lambda>a. if block \<le> a \<and> a - block < MALLOC_BLOCK_SIZE \<and> mem_user_get_kaddr table a (k_mem k') = 0
       then None else m a, k') })"

end
