(* ===== verification/Alloc_Mem.thy ===== *)
theory Alloc_Mem
  imports Alloc
begin

text \<open>
  Reading and writing the headers of the allocator in byte memory: each setter changes its field of its own
  header, and no byte outside the header.
\<close>

subsection \<open>Ranges of addresses\<close>

definition range_of :: "u64 \<Rightarrow> nat \<Rightarrow> u64 set" where
  "range_of a n = {x. unat a \<le> unat x \<and> unat x < unat a + n}"

named_theorems range_simps \<open>addresses in ranges that do not wrap\<close>

lemma range_of_mem [range_simps]: "x \<in> range_of a n \<longleftrightarrow> unat a \<le> unat x \<and> unat x < unat a + n"
  by (simp add: range_of_def)

lemma unat_offset [range_simps]:
  assumes "unat a + n \<le> 2 ^ 64" "unat d < n"
  shows "unat (a + d :: u64) = unat a + unat d"
  using assms by (intro unat_add_no_overflow) simp

lemma unat_next: "unat a + Suc n \<le> 2 ^ 64 \<Longrightarrow> 0 < n \<Longrightarrow> unat (a + 1 :: u64) = unat a + 1"
  using unat_offset [of a "Suc n" 1] by simp

lemma ld_bytes_cong:
  assumes "\<And>x. x \<in> range_of a n \<Longrightarrow> m' x = m x" "unat a + n \<le> 2 ^ 64"
  shows "ld_bytes m' a n = ld_bytes m a n"
  using assms
proof (induction n arbitrary: a)
  case (Suc n)
  have here: "m' a = m a" by (rule Suc.prems(1)) (simp add: range_of_def)
  show ?case
  proof (cases "n = 0")
    case True
    with here show ?thesis by simp
  next
    case False
    then have nxt: "unat (a + 1) = unat a + 1" using unat_next [of a n] Suc.prems(2) by simp
    have "ld_bytes m' (a + 1) n = ld_bytes m (a + 1) n"
      using nxt Suc.prems by (intro Suc.IH) (auto simp: range_of_def)
    with here show ?thesis by simp
  qed
qed simp

lemma ld_bytes_length: "ld_bytes m a n = Some bs \<Longrightarrow> length bs = n"
  by (induction n arbitrary: a bs) (auto split: bind_splits)

lemma ld_bytes_mapped:
  assumes "\<And>x. x \<in> range_of a n \<Longrightarrow> m x \<noteq> None" "unat a + n \<le> 2 ^ 64"
  shows "\<exists>bs. ld_bytes m a n = Some bs"
  using assms
proof (induction n arbitrary: a)
  case (Suc n)
  obtain b where here: "m a = Some b" using Suc.prems(1) [of a] by (auto simp: range_of_def)
  show ?case
  proof (cases "n = 0")
    case True
    with here show ?thesis by simp
  next
    case False
    then have nxt: "unat (a + 1) = unat a + 1" using unat_next [of a n] Suc.prems(2) by simp
    have "\<exists>bs. ld_bytes m (a + 1) n = Some bs"
      using nxt Suc.prems by (intro Suc.IH) (auto simp: range_of_def)
    with here show ?thesis by auto
  qed
qed simp

lemma ld_bytes_Some:
  assumes "ld_bytes m a n = Some bs" "unat a + n \<le> 2 ^ 64" "x \<in> range_of a n"
  shows "m x \<noteq> None"
  using assms
proof (induction n arbitrary: a bs)
  case (Suc n)
  then obtain b bs' where b: "m a = Some b" "ld_bytes m (a + 1) n = Some bs'"
    by (auto split: bind_splits)
  show ?case
  proof (cases "x = a")
    case False
    then have "unat x \<noteq> unat a" by (simp add: word_unat_eq_iff)
    then have "n \<noteq> 0" using Suc.prems(3) by (auto simp: range_of_def)
    then have nxt: "unat (a + 1) = unat a + 1" using unat_next [of a n] Suc.prems(2) by simp
    have "x \<in> range_of (a + 1) n"
      using Suc.prems(3) nxt \<open>unat x \<noteq> unat a\<close> by (auto simp: range_of_def)
    then show ?thesis using Suc.IH [OF b(2)] nxt Suc.prems(2) by simp
  qed (use b in simp)
qed (auto simp: range_of_def)

lemma st_bytes_spec:
  assumes "\<And>x. x \<in> range_of a (length bs) \<Longrightarrow> m x \<noteq> None" "unat a + length bs \<le> 2 ^ 64"
  shows "\<exists>m'. st_bytes m a bs = Some m' \<and> dom m' = dom m \<and>
    (\<forall>x. x \<notin> range_of a (length bs) \<longrightarrow> m' x = m x) \<and> ld_bytes m' a (length bs) = Some bs"
  using assms
proof (induction bs arbitrary: a m)
  case (Cons b bs)
  have here: "m a \<noteq> None" by (rule Cons.prems(1)) (simp add: range_of_def)
  let ?m = "m(a \<mapsto> b)"
  show ?case
  proof (cases "bs = []")
    case True
    with here show ?thesis by (auto simp: range_of_def)
  next
    case False
    then have nxt: "unat (a + 1) = unat a + 1" using unat_next [of a "length bs"] Cons.prems(2) by simp
    have "\<exists>m'. st_bytes ?m (a + 1) bs = Some m' \<and> dom m' = dom ?m \<and>
        (\<forall>x. x \<notin> range_of (a + 1) (length bs) \<longrightarrow> m' x = ?m x) \<and> ld_bytes m' (a + 1) (length bs) = Some bs"
      using nxt Cons.prems by (intro Cons.IH) (auto simp: range_of_def)
    then obtain m' where m': "st_bytes ?m (a + 1) bs = Some m'" "dom m' = dom ?m"
      "\<forall>x. x \<notin> range_of (a + 1) (length bs) \<longrightarrow> m' x = ?m x" "ld_bytes m' (a + 1) (length bs) = Some bs"
      by blast
    have "m' a = Some b" using m'(3) nxt by (simp add: range_of_def)
    moreover have "m' x = m x" if "x \<notin> range_of a (length (b # bs))" for x
      using m'(3) nxt that by (auto simp: range_of_def)
    ultimately show ?thesis using m'(1,2,4) here by (auto simp: dom_def)
  qed
qed simp

subsection \<open>Headers as records\<close>

record header =
  hd_avail :: u8
  hd_k :: u8
  hd_prev :: u64
  hd_next :: u64

definition hdr :: "umem \<Rightarrow> u64 \<Rightarrow> header option" where
  "hdr m a = do {
     av \<leftarrow> b_available m a; k \<leftarrow> b_k m a; p \<leftarrow> b_prev m a; n \<leftarrow> b_next m a;
     Some \<lparr>hd_avail = av, hd_k = k, hd_prev = p, hd_next = n\<rparr> }"

lemma hdr_fields:
  "hdr m a = Some b \<longleftrightarrow> b_available m a = Some (hd_avail b) \<and> b_k m a = Some (hd_k b) \<and>
     b_prev m a = Some (hd_prev b) \<and> b_next m a = Some (hd_next b)" for b :: header
  by (cases b) (auto simp: hdr_def split: bind_splits)

lemma hdr_cong:
  assumes "\<And>x. x \<in> range_of a 24 \<Longrightarrow> m' x = m x" "unat a + 24 \<le> 2 ^ 64"
  shows "hdr m' a = hdr m a"
proof -
  have off: "unat (a + 1) = unat a + 1" "unat (a + 8) = unat a + 8" "unat (a + 16) = unat a + 16"
    using assms(2) by (simp_all add: unat_offset [where n = 24])
  have "m' a = m a" "m' (a + 1) = m (a + 1)"
    using assms(1) off by (auto simp: range_of_def)
  moreover have "ld_bytes m' (a + 8) 8 = ld_bytes m (a + 8) 8" "ld_bytes m' (a + 16) 8 = ld_bytes m (a + 16) 8"
    using assms off by (auto intro!: ld_bytes_cong simp: range_of_def)
  ultimately show ?thesis by (simp add: hdr_def b_available_def b_k_def b_prev_def b_next_def)
qed

lemma hdr_mapped:
  assumes "\<And>x. x \<in> range_of a 24 \<Longrightarrow> m x \<noteq> None" "unat a + 24 \<le> 2 ^ 64"
  obtains b :: header where "hdr m a = Some b"
proof -
  have off: "unat (a + 1) = unat a + 1" "unat (a + 8) = unat a + 8" "unat (a + 16) = unat a + 16"
    using assms(2) by (simp_all add: unat_offset [where n = 24])
  have "m a \<noteq> None" "m (a + 1) \<noteq> None" using assms(1) off by (auto simp: range_of_def)
  moreover have "\<exists>bs. ld_bytes m (a + 8) 8 = Some bs" "\<exists>bs. ld_bytes m (a + 16) 8 = Some bs"
    using assms off by (auto intro!: ld_bytes_mapped simp: range_of_def)
  ultimately have "\<exists>b. hdr m a = Some b" by (auto simp: hdr_def b_available_def b_k_def b_prev_def b_next_def)
  with that show thesis by blast
qed

lemma hdr_range:
  assumes "hdr m a = Some (b :: header)" "unat a + 24 \<le> 2 ^ 64"
  shows "m a \<noteq> None" "m (a + 1) \<noteq> None"
    and "\<And>x. x \<in> range_of (a + 8) 16 \<Longrightarrow> m x \<noteq> None"
proof -
  have off: "unat (a + 8) = unat a + 8" "unat (a + 16) = unat a + 16"
    using assms(2) by (simp_all add: unat_offset [where n = 24])
  show "m a \<noteq> None" "m (a + 1) \<noteq> None"
    using assms(1) by (auto simp: hdr_fields b_available_def b_k_def)
  obtain bs bs' where "ld_bytes m (a + 8) 8 = Some bs" "ld_bytes m (a + 16) 8 = Some bs'"
    using assms(1) by (auto simp: hdr_fields b_prev_def b_next_def)
  then show "m x \<noteq> None" if "x \<in> range_of (a + 8) 16" for x
    using ld_bytes_Some [of m "a + 8" 8 bs x] ld_bytes_Some [of m "a + 16" 8 bs' x] that off assms(2)
    by (fastforce simp: range_of_def)
qed

text \<open>The outcome of a setter: the header is \<open>b'\<close> afterwards, and nothing else has changed.\<close>

definition hdr_update :: "u64 \<Rightarrow> header \<Rightarrow> umem \<Rightarrow> umem \<Rightarrow> bool" where
  "hdr_update a b' m m' \<longleftrightarrow> hdr m' a = Some b' \<and> dom m' = dom m \<and> (\<forall>x. x \<notin> range_of a 24 \<longrightarrow> m' x = m x)"

lemma set_available_hdr:
  assumes "hdr m a = Some b" "unat a + 24 \<le> 2 ^ 64"
  shows "\<exists>m'. set_available a v m = Some m' \<and> hdr_update a (b\<lparr>hd_avail := v\<rparr>) m m'"
proof -
  have off: "unat (a + 1) = unat a + 1" "unat (a + 8) = unat a + 8" "unat (a + 16) = unat a + 16"
    using assms(2) by (simp_all add: unat_offset [where n = 24])
  let ?m = "m(a \<mapsto> v)"
  have "set_available a v m = Some ?m"
    using hdr_range(1) [OF assms] by (simp add: set_available_def)
  moreover have "ld_bytes ?m (a + 8) 8 = ld_bytes m (a + 8) 8" "ld_bytes ?m (a + 16) 8 = ld_bytes m (a + 16) 8"
    using assms(2) off by (auto intro!: ld_bytes_cong simp: range_of_def)
  moreover have "a + 1 \<noteq> a" by simp
  ultimately show ?thesis
    using assms(1) hdr_range(1) [OF assms]
    by (auto simp: hdr_update_def hdr_fields b_available_def b_k_def b_prev_def b_next_def range_of_def)
qed

lemma set_k_hdr:
  assumes "hdr m a = Some b" "unat a + 24 \<le> 2 ^ 64"
  shows "\<exists>m'. set_k a v m = Some m' \<and> hdr_update a (b\<lparr>hd_k := v\<rparr>) m m'"
proof -
  have off: "unat (a + 1) = unat a + 1" "unat (a + 8) = unat a + 8" "unat (a + 16) = unat a + 16"
    using assms(2) by (simp_all add: unat_offset [where n = 24])
  let ?m = "m(a + 1 \<mapsto> v)"
  have "set_k a v m = Some ?m"
    using hdr_range(2) [OF assms] by (simp add: set_k_def)
  moreover have "ld_bytes ?m (a + 8) 8 = ld_bytes m (a + 8) 8" "ld_bytes ?m (a + 16) 8 = ld_bytes m (a + 16) 8"
    using assms(2) off by (auto intro!: ld_bytes_cong simp: range_of_def)
  moreover have "a \<noteq> a + 1" by simp
  moreover have "a + 1 \<in> range_of a 24" using off by (simp add: range_of_def)
  ultimately show ?thesis
    using assms(1) hdr_range(2) [OF assms]
    by (auto simp: hdr_update_def hdr_fields b_available_def b_k_def b_prev_def b_next_def)
qed

lemma le_u64: "of_nat (le_val (le_bytes 8 (unat v))) = (v :: u64)"
  using u64_bound [of v] by (simp add: le_val_bytes)

lemma set_prev_hdr:
  assumes "hdr m a = Some b" "unat a + 24 \<le> 2 ^ 64"
  shows "\<exists>m'. set_prev a v m = Some m' \<and> hdr_update a (b\<lparr>hd_prev := v\<rparr>) m m'"
proof -
  have off: "unat (a + 1) = unat a + 1" "unat (a + 8) = unat a + 8" "unat (a + 16) = unat a + 16"
    using assms(2) by (simp_all add: unat_offset [where n = 24])
  have "m x \<noteq> None" if "x \<in> range_of (a + 8) 8" for x
    using hdr_range(3) [OF assms] that by (auto simp: range_of_def)
  then obtain m' where m': "st_bytes m (a + 8) (le_bytes 8 (unat v)) = Some m'" "dom m' = dom m"
    "\<forall>x. x \<notin> range_of (a + 8) 8 \<longrightarrow> m' x = m x" "ld_bytes m' (a + 8) 8 = Some (le_bytes 8 (unat v))"
    using st_bytes_spec [of "a + 8" "le_bytes 8 (unat v)" m] off assms(2) by auto
  have "m' a = m a" "m' (a + 1) = m (a + 1)" using m'(3) off by (auto simp: range_of_def)
  moreover have "ld_bytes m' (a + 16) 8 = ld_bytes m (a + 16) 8"
    using m'(3) off assms(2) by (intro ld_bytes_cong) (auto simp: range_of_def)
  moreover have "m' x = m x" if "x \<notin> range_of a 24" for x
    using m'(3) that off by (auto simp: range_of_def)
  ultimately show ?thesis
    using assms(1) m' le_u64 [of v]
    by (auto simp: set_prev_def hdr_update_def hdr_fields b_available_def b_k_def b_prev_def b_next_def)
qed

lemma set_next_hdr:
  assumes "hdr m a = Some b" "unat a + 24 \<le> 2 ^ 64"
  shows "\<exists>m'. set_next a v m = Some m' \<and> hdr_update a (b\<lparr>hd_next := v\<rparr>) m m'"
proof -
  have off: "unat (a + 1) = unat a + 1" "unat (a + 8) = unat a + 8" "unat (a + 16) = unat a + 16"
    using assms(2) by (simp_all add: unat_offset [where n = 24])
  have "m x \<noteq> None" if "x \<in> range_of (a + 16) 8" for x
    using hdr_range(3) [OF assms] that off by (auto simp: range_of_def)
  then obtain m' where m': "st_bytes m (a + 16) (le_bytes 8 (unat v)) = Some m'" "dom m' = dom m"
    "\<forall>x. x \<notin> range_of (a + 16) 8 \<longrightarrow> m' x = m x" "ld_bytes m' (a + 16) 8 = Some (le_bytes 8 (unat v))"
    using st_bytes_spec [of "a + 16" "le_bytes 8 (unat v)" m] off assms(2) by auto
  have "m' a = m a" "m' (a + 1) = m (a + 1)" using m'(3) off by (auto simp: range_of_def)
  moreover have "ld_bytes m' (a + 8) 8 = ld_bytes m (a + 8) 8"
    using m'(3) off assms(2) by (intro ld_bytes_cong) (auto simp: range_of_def)
  moreover have "m' x = m x" if "x \<notin> range_of a 24" for x
    using m'(3) that off by (auto simp: range_of_def)
  ultimately show ?thesis
    using assms(1) m' le_u64 [of v]
    by (auto simp: set_next_def hdr_update_def hdr_fields b_available_def b_k_def b_prev_def b_next_def)
qed

lemma hdr_update_other:
  assumes "hdr_update a b' m m'" "range_of a 24 \<inter> range_of c 24 = {}" "unat c + 24 \<le> 2 ^ 64"
  shows "hdr m' c = hdr m c"
  using assms by (intro hdr_cong) (auto simp: hdr_update_def)

end
