(* ===== verification/Alloc_List.thy ===== *)
theory Alloc_List
  imports Alloc_Mem
begin

text \<open>
  The list of the blocks in memory, its invariant, and the operations that split blocks and search the list.
\<close>

subsection \<open>Segments of the list\<close>

text \<open>An entry is an address with the availability and the order in the header there.\<close>

type_synonym entry = "u64 \<times> u8 \<times> u8"

fun seg :: "umem \<Rightarrow> u64 \<Rightarrow> entry list \<Rightarrow> u64 \<Rightarrow> bool" where
  "seg m p [] q \<longleftrightarrow> p = q"
| "seg m p ((a, av, k) # xs) q \<longleftrightarrow> p = a \<and> a \<noteq> 0 \<and>
     (case hdr m a of None \<Rightarrow> False
      | Some b \<Rightarrow> hd_avail b = av \<and> hd_k b = k \<and> seg m (hd_next b) xs q)"

lemma seg_append: "seg m p (xs @ ys) q \<longleftrightarrow> (\<exists>r. seg m p xs r \<and> seg m r ys q)"
  by (induction xs arbitrary: p) (auto split: option.splits)

definition hdr_area :: "entry list \<Rightarrow> u64 set" where
  "hdr_area xs = (\<Union>(a, av, k)\<in>set xs. range_of a 24)"

lemma hdr_area_simps [simp]:
  "hdr_area [] = {}" "hdr_area ((a, av, k) # xs) = range_of a 24 \<union> hdr_area xs"
  "hdr_area (xs @ ys) = hdr_area xs \<union> hdr_area ys"
  by (auto simp: hdr_area_def)

lemma seg_cong:
  assumes "seg m p xs q" "\<And>x. x \<in> hdr_area xs \<Longrightarrow> m' x = m x" "\<forall>(a, av, k)\<in>set xs. unat a + 24 \<le> 2 ^ 64"
  shows "seg m' p xs q"
  using assms
proof (induction xs arbitrary: p)
  case (Cons x xs)
  obtain a av k where x: "x = (a, av, k)" by (cases x)
  have "hdr m' a = hdr m a" using Cons.prems by (intro hdr_cong) (auto simp: x)
  moreover have "seg m' r xs q" if "seg m r xs q" for r
    using Cons.prems that by (intro Cons.IH) (auto simp: x)
  ultimately show ?case using Cons.prems(1) by (auto simp: x split: option.splits)
qed simp

subsection \<open>Sizes\<close>

abbreviation bsize :: "u8 \<Rightarrow> nat" where
  "bsize k \<equiv> 2 ^ unat k"

lemma unat_p2: "i < 64 \<Longrightarrow> unat ((2 :: u64) ^ i) = 2 ^ i"
proof -
  assume "i < 64"
  then have "(2 :: nat) ^ i < 2 ^ 64" by (intro power_strict_increasing) auto
  then have "unat (of_nat (2 ^ i) :: u64) = 2 ^ i" by (subst unat_of_nat) (rule mod_less, simp)
  then show ?thesis by simp
qed

lemma order_size_eq:
  assumes "unat k < 31"
  shows "order_size k = Some (2 ^ unat k)"
  using assms by (simp add: order_size_def word_less_nat_alt)

lemma bsize_min: "5 \<le> unat k \<Longrightarrow> 24 \<le> bsize k"
  using power_increasing [of 5 "unat k" "2 :: nat"] by simp

lemma bsize_half: "0 < unat k \<Longrightarrow> bsize k = bsize (k - 1) + bsize (k - 1)"
proof -
  assume "0 < unat k"
  then obtain n where n: "unat k = Suc n" by (cases "unat k") auto
  then have "unat (k - 1) = n" by (simp add: unat_sub word_le_nat_alt)
  with n show ?thesis by simp
qed

lemma unat_pred: "0 < unat (k :: u8) \<Longrightarrow> unat (k - 1) = unat k - 1"
  by (simp add: unat_sub word_le_nat_alt)

subsection \<open>The invariant\<close>

definition block_ok :: "umem \<Rightarrow> entry \<Rightarrow> bool" where
  "block_ok m = (\<lambda>(a, av, k). a \<noteq> 0 \<and> 5 \<le> unat k \<and> unat k \<le> 12 \<and> bsize k dvd unat a \<and>
     unat a + bsize k \<le> 2 ^ 64 \<and> range_of a (bsize k) \<subseteq> dom m)"

definition apart :: "entry \<Rightarrow> entry \<Rightarrow> bool" where
  "apart = (\<lambda>(a, av, k) (a', av', k'). range_of a (bsize k) \<inter> range_of a' (bsize k') = {})"

definition heap_inv :: "umem \<Rightarrow> u64 \<Rightarrow> entry list \<Rightarrow> bool" where
  "heap_inv m first xs \<longleftrightarrow> seg m first xs 0 \<and> (\<forall>x\<in>set xs. block_ok m x) \<and> sorted_wrt apart xs"

lemma block_ok_hdr: "block_ok m (a, av, k) \<Longrightarrow> unat a + 24 \<le> 2 ^ 64 \<and> range_of a 24 \<subseteq> range_of a (bsize k)"
  using bsize_min [of k] by (auto simp: block_ok_def range_of_def)

lemma block_ok_dom: "dom m' = dom m \<Longrightarrow> block_ok m' x = block_ok m x"
  by (simp add: block_ok_def)

subsection \<open>Splitting\<close>

lemma split_block:
  assumes "hdr m a = Some b" "block_ok m (a, av, hd_k b)" "6 \<le> unat (hd_k b)"
  defines "k \<equiv> hd_k b - 1"
  defines "c \<equiv> a + 2 ^ unat k"
  shows "\<exists>m'. split a m = Some m' \<and> hdr m' a = Some (b\<lparr>hd_k := k, hd_next := c\<rparr>) \<and>
    hdr m' c = Some \<lparr>hd_avail = 1, hd_k = k, hd_prev = a, hd_next = hd_next b\<rparr> \<and> dom m' = dom m \<and>
    (\<forall>x. x \<notin> range_of a (bsize (hd_k b)) \<longrightarrow> m' x = m x)"
proof -
  have k: "unat k = unat (hd_k b) - 1" "5 \<le> unat k" "unat k < 31"
    using assms(2,3) unat_pred [of "hd_k b"] by (auto simp: k_def block_ok_def)
  have half: "bsize (hd_k b) = bsize k + bsize k" using bsize_half assms(3) by (simp add: k_def)
  have big: "24 \<le> bsize k" using bsize_min k(2) by simp
  have top: "unat a + bsize (hd_k b) \<le> 2 ^ 64" using assms(2) by (simp add: block_ok_def)
  have c: "unat c = unat a + bsize k"
    unfolding c_def using top half big k(3) unat_p2 [of "unat k"]
    by (subst unat_offset [where n = "bsize (hd_k b)"]) simp_all
  have room: "unat a + 24 \<le> 2 ^ 64" "unat c + 24 \<le> 2 ^ 64" using top half big c by linarith+
  have disj: "range_of a 24 \<inter> range_of c 24 = {}" "range_of c 24 \<inter> range_of a 24 = {}"
    using c big by (auto simp: range_of_def)
  obtain m1 where m1: "set_k a k m = Some m1" "hdr_update a (b\<lparr>hd_k := k\<rparr>) m m1"
    using set_k_hdr [OF assms(1) room(1)] by blast
  have "range_of c 24 \<subseteq> range_of a (bsize (hd_k b))" using c half big by (auto simp: range_of_def)
  then have "m x \<noteq> None" if "x \<in> range_of c 24" for x
    using assms(2) that by (auto simp: block_ok_def)
  then have "m1 x \<noteq> None" if "x \<in> range_of c 24" for x
    using m1(2) that disj by (auto simp: hdr_update_def)
  then obtain h :: header where h: "hdr m1 c = Some h" using hdr_mapped room(2) by blast
  obtain m2 where m2: "set_available c 1 m1 = Some m2" "hdr_update c (h\<lparr>hd_avail := 1\<rparr>) m1 m2"
    using set_available_hdr [OF h room(2)] by blast
  obtain m3 where m3: "set_k c k m2 = Some m3" "hdr_update c (h\<lparr>hd_avail := 1, hd_k := k\<rparr>) m2 m3"
    using set_k_hdr [of m2 c _ k] m2(2) room(2) by (auto simp: hdr_update_def)
  obtain m4 where m4: "set_next c (hd_next b) m3 = Some m4"
    "hdr_update c (h\<lparr>hd_avail := 1, hd_k := k, hd_next := hd_next b\<rparr>) m3 m4"
    using set_next_hdr [of m3 c _ "hd_next b"] m3(2) room(2) by (auto simp: hdr_update_def)
  obtain m5 where m5: "set_prev c a m4 = Some m5"
    "hdr_update c (h\<lparr>hd_avail := 1, hd_k := k, hd_next := hd_next b, hd_prev := a\<rparr>) m4 m5"
    using set_prev_hdr [of m4 c _ a] m4(2) room(2) by (auto simp: hdr_update_def)
  have at_a: "hdr m3 a = Some (b\<lparr>hd_k := k\<rparr>)" "hdr m5 a = Some (b\<lparr>hd_k := k\<rparr>)"
    using m1(2) hdr_update_other [OF m2(2) disj(2) room(1)] hdr_update_other [OF m3(2) disj(2) room(1)]
      hdr_update_other [OF m4(2) disj(2) room(1)] hdr_update_other [OF m5(2) disj(2) room(1)]
    by (simp_all add: hdr_update_def)
  obtain m6 where m6: "set_next a c m5 = Some m6" "hdr_update a (b\<lparr>hd_k := k, hd_next := c\<rparr>) m5 m6"
    using set_next_hdr [OF at_a(2) room(1), of c] by auto
  have "hdr m6 c = Some \<lparr>hd_avail = 1, hd_k = k, hd_prev = a, hd_next = hd_next b\<rparr>"
    using hdr_update_other [OF m6(2) disj(1) room(2)] m5(2) by (simp add: hdr_update_def)
  moreover have "split a m = Some m6"
    using assms(1) at_a(1) m1(1) m2(1) m3(1) m4(1) m5(1) m6(1) order_size_eq [OF k(3)]
    by (simp add: split_def hdr_fields Let_def flip: k_def c_def)
  moreover have "m6 x = m x" if "x \<notin> range_of a (bsize (hd_k b))" for x
  proof -
    have "x \<notin> range_of a 24" "x \<notin> range_of c 24" using that c half big by (auto simp: range_of_def)
    then show ?thesis
      using m1(2) m2(2) m3(2) m4(2) m5(2) m6(2) by (simp add: hdr_update_def)
  qed
  ultimately show ?thesis
    using m1(2) m2(2) m3(2) m4(2) m5(2) m6(2) by (auto simp: hdr_update_def)
qed

lemma block_ok_half:
  assumes "block_ok m (a, av, k)" "6 \<le> unat k"
  shows "block_ok m (a, av', k - 1)" "block_ok m (a + 2 ^ unat (k - 1), av', k - 1)"
    and "unat (a + 2 ^ unat (k - 1)) = unat a + bsize (k - 1)"
proof -
  have k: "unat (k - 1) = unat k - 1" using unat_pred assms(2) by simp
  have half: "bsize k = bsize (k - 1) + bsize (k - 1)" using bsize_half assms(2) by simp
  have top: "unat a + bsize k \<le> 2 ^ 64" "unat k \<le> 12" using assms(1) by (simp_all add: block_ok_def)
  have pos: "0 < bsize (k - 1)" by simp
  show c: "unat (a + 2 ^ unat (k - 1)) = unat a + bsize (k - 1)"
    using top half pos k unat_p2 [of "unat (k - 1)"]
    by (subst unat_offset [where n = "bsize k"]) simp_all
  have dvd: "bsize (k - 1) dvd unat a"
    using assms(1) half by (auto simp: block_ok_def elim: dvd_trans [rotated])
  have sub: "range_of a (bsize (k - 1)) \<subseteq> range_of a (bsize k)"
    "range_of (a + 2 ^ unat (k - 1)) (bsize (k - 1)) \<subseteq> range_of a (bsize k)"
    using c half by (auto simp: range_of_def)
  show "block_ok m (a, av', k - 1)"
    using assms dvd sub(1) half k by (auto simp: block_ok_def)
  have "a + 2 ^ unat (k - 1) \<noteq> 0" using c pos by (metis add_is_0 less_irrefl unat_0)
  then show "block_ok m (a + 2 ^ unat (k - 1), av', k - 1)"
    using assms dvd sub(2) half k c by (auto simp: block_ok_def)
qed

subsection \<open>Searching\<close>

definition splits :: "u64 \<Rightarrow> nat \<Rightarrow> nat \<Rightarrow> entry list" where
  "splits a i k = map (\<lambda>i. (a + 2 ^ i, 1, of_nat i)) [i..<k]"

lemma splits_Suc: "i \<le> k \<Longrightarrow> splits a i (Suc k) = splits a i k @ [(a + 2 ^ k, 1, of_nat k)]"
  by (simp add: splits_def)

lemma find_at:
  assumes "hdr (h_mem st) a = Some b" "hd_avail b \<noteq> 0" "block_ok (h_mem st) (a, av, hd_k b)"
    and "5 \<le> unat ord" "unat ord \<le> unat (hd_k b)"
  shows "\<exists>m' b'. find_loop mm ord a last_block st = Some (a, st\<lparr>h_mem := m'\<rparr>) \<and> hdr m' a = Some b' \<and>
    hd_avail b' = 0 \<and> hd_k b' = ord \<and>
    seg m' (hd_next b') (splits a (unat ord) (unat (hd_k b))) (hd_next b) \<and> dom m' = dom (h_mem st) \<and>
    (\<forall>x. x \<notin> range_of a (bsize (hd_k b)) \<longrightarrow> m' x = h_mem st x)"
  using assms
proof (induction "unat (hd_k b) - unat ord" arbitrary: st b)
  case 0
  then have k: "hd_k b = ord" by (simp add: word_unat_eq_iff)
  have a: "a \<noteq> 0" "unat a + 24 \<le> 2 ^ 64" "range_of a 24 \<subseteq> range_of a (bsize (hd_k b))"
    using "0.prems"(3) block_ok_hdr [OF "0.prems"(3)] by (simp_all add: block_ok_def)
  obtain m' where m': "set_available a 0 (h_mem st) = Some m'" "hdr_update a (b\<lparr>hd_avail := 0\<rparr>) (h_mem st) m'"
    using set_available_hdr [OF "0.prems"(1) a(2)] by blast
  have "find_loop mm ord a last_block st = Some (a, st\<lparr>h_mem := m'\<rparr>)"
    using "0.prems"(1,2) a(1) k m'(1) by (subst find_loop.simps) (simp add: hdr_fields)
  then show ?case using m'(2) k a(3)
    by (intro exI [of _ m'] exI [of _ "b\<lparr>hd_avail := 0\<rparr>"]) (auto simp: hdr_update_def splits_def)
next
  case (Suc n)
  define k where "k = hd_k b - 1"
  define c where "c = a + 2 ^ unat k"
  have six: "6 \<le> unat (hd_k b)" "unat ord < unat (hd_k b)" using Suc.hyps(2) Suc.prems(4) by linarith+
  have k: "unat k = unat (hd_k b) - 1" using unat_pred six by (simp add: k_def)
  note half = block_ok_half [OF Suc.prems(3) six(1), folded k_def, folded c_def]
  obtain m1 where m1: "split a (h_mem st) = Some m1" "hdr m1 a = Some (b\<lparr>hd_k := k, hd_next := c\<rparr>)"
    "hdr m1 c = Some \<lparr>hd_avail = 1, hd_k = k, hd_prev = a, hd_next = hd_next b\<rparr>" "dom m1 = dom (h_mem st)"
    "\<forall>x. x \<notin> range_of a (bsize (hd_k b)) \<longrightarrow> m1 x = h_mem st x"
    using split_block [OF Suc.prems(1,3) six(1), folded k_def, folded c_def] by blast
  let ?st = "st\<lparr>h_mem := m1\<rparr>"
  have "\<exists>m' b'. find_loop mm ord a last_block ?st = Some (a, ?st\<lparr>h_mem := m'\<rparr>) \<and> hdr m' a = Some b' \<and>
      hd_avail b' = 0 \<and> hd_k b' = ord \<and> seg m' (hd_next b') (splits a (unat ord) (unat k)) c \<and>
      dom m' = dom m1 \<and> (\<forall>x. x \<notin> range_of a (bsize k) \<longrightarrow> m' x = m1 x)"
    using Suc.hyps(1) [of "b\<lparr>hd_k := k, hd_next := c\<rparr>" ?st] Suc.hyps(2) Suc.prems(2,4) six k m1(2)
      block_ok_dom [OF m1(4)] half(1) by simp
  then obtain m' and b' :: header where m': "find_loop mm ord a last_block ?st = Some (a, ?st\<lparr>h_mem := m'\<rparr>)"
    "hdr m' a = Some b'" "hd_avail b' = 0" "hd_k b' = ord"
    "seg m' (hd_next b') (splits a (unat ord) (unat k)) c" "dom m' = dom m1"
    "\<forall>x. x \<notin> range_of a (bsize k) \<longrightarrow> m' x = m1 x" by blast
  have room: "unat c + 24 \<le> 2 ^ 64" "c \<noteq> 0"
    using block_ok_hdr [OF half(2)] half(2) by (simp_all add: block_ok_def)
  have "hdr m' c = hdr m1 c"
    using m'(7) room(1) half(3) by (intro hdr_cong) (auto simp: range_of_def)
  then have "seg m' c [(c, 1, k)] (hd_next b)" using m1(3) room(2) by simp
  moreover have "splits a (unat ord) (unat (hd_k b)) = splits a (unat ord) (unat k) @ [(c, 1, k)]"
  proof -
    have "unat (hd_k b) = Suc (unat k)" using k six by simp
    then show ?thesis using splits_Suc [of "unat ord" "unat k" a] six by (simp add: c_def)
  qed
  ultimately have "seg m' (hd_next b') (splits a (unat ord) (unat (hd_k b))) (hd_next b)"
    using m'(5) by (auto simp: seg_append)
  moreover have "find_loop mm ord a last_block st = Some (a, st\<lparr>h_mem := m'\<rparr>)"
    using Suc.prems(1,2,3) six(2) m1(1) m'(1)
    by (subst find_loop.simps) (simp add: hdr_fields block_ok_def word_less_nat_alt)
  moreover have "m' x = h_mem st x" if "x \<notin> range_of a (bsize (hd_k b))" for x
  proof -
    have "x \<notin> range_of a (bsize k)"
      using that bsize_half [of "hd_k b"] six by (auto simp: range_of_def k_def)
    with that m'(7) m1(5) show ?thesis by simp
  qed
  ultimately show ?case using m'(2,3,4,6) m1(4)
    by (intro exI [of _ m'] exI [of _ b']) simp
qed

definition fits :: "u8 \<Rightarrow> entry \<Rightarrow> bool" where
  "fits ord = (\<lambda>(a, av, k). av \<noteq> 0 \<and> ord \<le> k)"

lemma find_scan:
  assumes "seg (h_mem st) p xs q" "\<not> (\<exists>x\<in>set xs. fits ord x)"
  shows "find_loop mm ord p last_block st =
    find_loop mm ord q (if xs = [] then last_block else fst (last xs)) st"
  using assms
proof (induction xs arbitrary: p last_block)
  case (Cons x xs)
  obtain a av k where x: "x = (a, av, k)" by (cases x)
  obtain b :: header where b: "hdr (h_mem st) a = Some b" "hd_avail b = av" "hd_k b = k"
    "seg (h_mem st) (hd_next b) xs q" "p = a" "a \<noteq> 0"
    using Cons.prems(1) by (auto simp: x split: option.splits)
  have "av = 0 \<or> k < ord" using Cons.prems(2) by (auto simp: x fits_def)
  then have "find_loop mm ord p last_block st = find_loop mm ord (hd_next b) a st"
    using b by (subst find_loop.simps) (auto simp: hdr_fields)
  also have "\<dots> = find_loop mm ord q (if xs = [] then a else fst (last xs)) st"
    using b(4) Cons.prems(2) by (intro Cons.IH) auto
  finally show ?case by (simp add: x)
qed simp

end
