(* ===== verification/Alloc_Props.thy ===== *)
theory Alloc_Props
  imports Alloc_List
begin

text \<open>
  What \<open>malloc\<close> gives: memory of its own, on a list of blocks that satisfies the invariant.
\<close>

subsection \<open>Orders\<close>

lemma bit_count_upper: "unat w < 2 ^ bit_count w"
proof (induction w rule: bit_count.induct)
  case (1 w)
  show ?case
  proof (cases "w = 0")
    case False
    have "unat w div 2 < 2 ^ bit_count (drop_bit 1 w)"
      using 1 [OF False] by (simp add: drop_bit_eq_div unat_div)
    then have "unat w < 2 ^ Suc (bit_count (drop_bit 1 w))" by simp
    with False show ?thesis by (subst bit_count.simps) simp
  qed (simp add: bit_count.simps)
qed

lemma bit_count_lower: "w \<noteq> 0 \<Longrightarrow> 2 ^ (bit_count w - 1) \<le> unat w"
proof (induction w rule: bit_count.induct)
  case (1 w)
  show ?case
  proof (cases "drop_bit 1 w = 0")
    case True
    then have "bit_count w = 1" using 1(2) by (subst bit_count.simps) (simp add: bit_count.simps [of 0])
    with 1(2) show ?thesis by (simp add: word_unat_eq_iff Suc_le_eq)
  next
    case False
    have "2 ^ (bit_count (drop_bit 1 w) - 1) \<le> unat w div 2"
      using 1(1) [OF 1(2) False] by (simp add: drop_bit_eq_div unat_div)
    moreover have "bit_count (drop_bit 1 w) \<noteq> 0" using False by (simp add: bit_count.simps)
    ultimately have "2 ^ bit_count (drop_bit 1 w) \<le> unat w"
      by (cases "bit_count (drop_bit 1 w)") auto
    with 1(2) show ?thesis by (subst bit_count.simps) simp
  qed
qed

lemma malloc_order:
  assumes "24 < unat w" "unat w < 4096"
  shows "5 \<le> bit_count w" "bit_count w \<le> 12" "unat w < 2 ^ bit_count w" "2 ^ bit_count w \<le> 2 * unat w"
proof -
  have nz: "w \<noteq> 0" using assms(1) by auto
  note lower = bit_count_lower [OF nz]
  show upper: "unat w < 2 ^ bit_count w" by (rule bit_count_upper)
  have "(2 :: nat) ^ 4 < 2 ^ bit_count w" using upper assms(1) by simp
  then have "4 < bit_count w" by (rule power_less_imp_less_exp [rotated]) simp
  then show "5 \<le> bit_count w" by simp
  have "(2 :: nat) ^ (bit_count w - 1) < 2 ^ 12" using lower assms(2) by simp
  then have "bit_count w - 1 < 12" by (rule power_less_imp_less_exp [rotated]) simp
  then show "bit_count w \<le> 12" by simp
  show "2 ^ bit_count w \<le> 2 * unat w"
    using lower \<open>4 < bit_count w\<close> by (cases "bit_count w") auto
qed

subsection \<open>Taking a block\<close>

lemma range_of_mono: "n \<le> n' \<Longrightarrow> range_of a n \<subseteq> range_of a n'"
  by (auto simp: range_of_def)

lemma apart_above: "unat a + bsize k \<le> unat c \<Longrightarrow> apart (a, av, k) (c, av', k')"
  by (auto simp: apart_def range_of_def)

lemma unat_u8 [simp]: "i < 256 \<Longrightarrow> unat (of_nat i :: u8) = i"
  by (simp add: unat_of_nat)

lemma split_ok:
  assumes "block_ok m (a, av, k)" "5 \<le> i" "i < unat k"
  shows "block_ok m (a + 2 ^ i, 1, of_nat i)" "unat (a + 2 ^ i) = unat a + 2 ^ i"
    and "range_of (a + 2 ^ i) (2 ^ i) \<subseteq> range_of a (bsize k)"
proof -
  have top: "unat a + bsize k \<le> 2 ^ 64" "unat k \<le> 12" using assms(1) by (simp_all add: block_ok_def)
  have le: "(2 :: nat) ^ Suc i \<le> bsize k" using assms(3) by (intro power_increasing) auto
  show c: "unat (a + 2 ^ i) = unat a + 2 ^ i"
    using top le assms(3) unat_p2 [of i] by (subst unat_offset [where n = "bsize k"]) simp_all
  show sub: "range_of (a + 2 ^ i) (2 ^ i) \<subseteq> range_of a (bsize k)"
    using c le by (auto simp: range_of_def)
  have "(2 :: nat) ^ i dvd bsize k" using assms(3) by (intro le_imp_power_dvd) simp
  then have "2 ^ i dvd unat a" using assms(1) by (auto simp: block_ok_def elim: dvd_trans)
  moreover have "0 < unat (a + 2 ^ i)" using c by simp
  then have "a + 2 ^ i \<noteq> 0" by (metis less_irrefl unat_0)
  ultimately show "block_ok m (a + 2 ^ i, 1, of_nat i)"
    using c top le sub assms by (auto simp: block_ok_def)
qed

lemma splits_ok:
  assumes "block_ok m (a, av, k)" "5 \<le> unat ord" "unat ord \<le> unat k"
  shows "\<forall>x\<in>set ((a, 0, ord) # splits a (unat ord) (unat k)). block_ok m x"
    and "sorted_wrt apart ((a, 0, ord) # splits a (unat ord) (unat k))"
    and "\<forall>(c, av, j)\<in>set ((a, 0, ord) # splits a (unat ord) (unat k)). range_of c (bsize j) \<subseteq> range_of a (bsize k)"
proof -
  have k: "unat k \<le> 12" using assms(1) by (simp add: block_ok_def)
  have le: "bsize ord \<le> bsize k" using assms(3) by (intro power_increasing) auto
  have a: "block_ok m (a, 0, ord)" "range_of a (bsize ord) \<subseteq> range_of a (bsize k)"
  proof -
    show sub: "range_of a (bsize ord) \<subseteq> range_of a (bsize k)" by (rule range_of_mono [OF le])
    have "bsize ord dvd bsize k" using assms(3) by (intro le_imp_power_dvd) simp
    moreover have "unat a + bsize ord \<le> 2 ^ 64" using assms(1) le by (simp only: block_ok_def case_prod_conv) linarith
    ultimately show "block_ok m (a, 0, ord)"
      using assms k sub by (auto simp: block_ok_def elim: dvd_trans)
  qed
  note each = split_ok [OF assms(1)]
  show "\<forall>x\<in>set ((a, 0, ord) # splits a (unat ord) (unat k)). block_ok m x"
    using a(1) each(1) assms(2) by (auto simp: splits_def)
  show "\<forall>(c, av, j)\<in>set ((a, 0, ord) # splits a (unat ord) (unat k)). range_of c (bsize j) \<subseteq> range_of a (bsize k)"
    using a(2) each(3) assms(2) k by (auto simp: splits_def dest!: subsetD)
  have first: "apart (a, 0, ord) (a + 2 ^ i, 1, of_nat i)" if "unat ord \<le> i" "i < unat k" for i
  proof -
    have "bsize ord \<le> 2 ^ i" using that by (intro power_increasing) auto
    then show ?thesis using each(2) [of i] that assms(2) by (intro apart_above) linarith
  qed
  have later: "apart (a + 2 ^ i, 1, of_nat i) (a + 2 ^ j, 1, of_nat j)" if "unat ord \<le> i" "i < j" "j < unat k" for i j
  proof -
    have "(2 :: nat) ^ Suc i \<le> 2 ^ j" using that by (intro power_increasing) auto
    moreover have "bsize (of_nat i) = 2 ^ i" using that k by simp
    moreover have "unat (a + 2 ^ i) = unat a + 2 ^ i" "unat (a + 2 ^ j) = unat a + 2 ^ j"
      using each(2) [of i] each(2) [of j] that assms(2) by simp_all
    moreover have "(2 :: nat) ^ Suc i = 2 ^ i + 2 ^ i" by simp
    ultimately have "unat (a + 2 ^ i) + bsize (of_nat i) \<le> unat (a + 2 ^ j)" by linarith
    then show ?thesis by (rule apart_above)
  qed
  have "sorted_wrt (\<lambda>i j. apart (a + 2 ^ i, 1, of_nat i) (a + 2 ^ j, 1, of_nat j)) [unat ord..<unat k]"
    using sorted_wrt_upt by (rule sorted_wrt_mono_rel [rotated]) (auto intro: later)
  then show "sorted_wrt apart ((a, 0, ord) # splits a (unat ord) (unat k))"
    using first by (auto simp: splits_def sorted_wrt_map)
qed

lemma hdr_area_apart:
  assumes "\<forall>x\<in>set xs. apart (a, av, k) x" "\<forall>x\<in>set xs. block_ok m x"
  shows "hdr_area xs \<inter> range_of a (bsize k) = {}"
proof -
  have "range_of c 24 \<inter> range_of a (bsize k) = {}" if "(c, cv, j) \<in> set xs" for c cv j
    using bspec [OF assms(1) that] block_ok_hdr [OF bspec [OF assms(2) that]] by (auto simp: apart_def)
  then show ?thesis by (fastforce simp: hdr_area_def)
qed

lemma seg_frame:
  assumes "seg m p xs q" "\<forall>x\<in>set xs. block_ok m0 x" "\<And>x. x \<in> hdr_area xs \<Longrightarrow> m' x = m x"
  shows "seg m' p xs q"
  using assms(1,3)
proof (rule seg_cong)
  have "unat a + 24 \<le> 2 ^ 64" if "(a, av, k) \<in> set xs" for a av k
    using block_ok_hdr bspec [OF assms(2) that] by blast
  then show "\<forall>(a, av, k)\<in>set xs. unat a + 24 \<le> 2 ^ 64" by blast
qed

lemma apart_sym: "apart x y \<Longrightarrow> apart y x"
  by (auto simp: apart_def)

lemma take_block:
  assumes "heap_inv (h_mem st) (first_block st) (ys @ (a, av, k) # zs)"
    and "\<not> (\<exists>x\<in>set ys. fits ord x)" "fits ord (a, av, k)" "5 \<le> unat ord"
  shows "\<exists>m'. block_find mm ord st = Some (a, st\<lparr>h_mem := m'\<rparr>) \<and>
    heap_inv m' (first_block st) (ys @ ((a, 0, ord) # splits a (unat ord) (unat k)) @ zs) \<and> dom m' = dom (h_mem st) \<and>
    (\<forall>x. x \<notin> range_of a (bsize k) \<longrightarrow> m' x = h_mem st x)"
proof -
  let ?m = "h_mem st" and ?new = "(a, 0, ord) # splits a (unat ord) (unat k)"
  have ok: "block_ok ?m (a, av, k)" "\<forall>x\<in>set ys \<union> set zs. block_ok ?m x" and sorted: "sorted_wrt apart (ys @ (a, av, k) # zs)"
    using assms(1) by (auto simp: heap_inv_def)
  have ord: "unat ord \<le> unat k" "av \<noteq> 0" using assms(3) by (auto simp: fits_def word_le_nat_alt)
  obtain b :: header where b: "seg ?m (first_block st) ys a" "hdr ?m a = Some b" "hd_avail b = av" "hd_k b = k"
    "seg ?m (hd_next b) zs 0" "a \<noteq> 0"
    using assms(1) by (auto simp: heap_inv_def seg_append split: option.splits)
  have "\<exists>m' b'. find_loop mm ord a (if ys = [] then 0 else fst (last ys)) st = Some (a, st\<lparr>h_mem := m'\<rparr>) \<and>
      hdr m' a = Some b' \<and> hd_avail b' = 0 \<and> hd_k b' = ord \<and>
      seg m' (hd_next b') (splits a (unat ord) (unat k)) (hd_next b) \<and> dom m' = dom ?m \<and>
      (\<forall>x. x \<notin> range_of a (bsize k) \<longrightarrow> m' x = ?m x)"
    using find_at [OF b(2), of av ord mm "if ys = [] then 0 else fst (last ys)"] b(3,4) ok(1) ord assms(4) by simp
  then obtain m' and b' :: header where
    m': "find_loop mm ord a (if ys = [] then 0 else fst (last ys)) st = Some (a, st\<lparr>h_mem := m'\<rparr>)"
    "hdr m' a = Some b'" "hd_avail b' = 0" "hd_k b' = ord" "seg m' (hd_next b') (splits a (unat ord) (unat k)) (hd_next b)"
    "dom m' = dom ?m" "\<forall>x. x \<notin> range_of a (bsize k) \<longrightarrow> m' x = ?m x" by blast
  have find: "block_find mm ord st = Some (a, st\<lparr>h_mem := m'\<rparr>)"
    using find_scan [OF b(1) assms(2)] m'(1) by (simp add: block_find_def)
  have rest: "\<forall>x\<in>set ys \<union> set zs. apart (a, av, k) x"
    using sorted apart_sym by (auto simp: sorted_wrt_append)
  have away: "hdr_area ys \<inter> range_of a (bsize k) = {}" "hdr_area zs \<inter> range_of a (bsize k) = {}"
    using rest ok(2) by (auto intro!: hdr_area_apart)
  have "seg m' (first_block st) ys a"
    using b(1) by (rule seg_frame [where ?m0.0 = ?m]) (use ok(2) m'(7) away(1) in auto)
  moreover have "seg m' (hd_next b) zs 0"
    using b(5) by (rule seg_frame [where ?m0.0 = ?m]) (use ok(2) m'(7) away(2) in auto)
  ultimately have "seg m' (first_block st) (ys @ ?new @ zs) 0"
    using m'(2-5) b(6) by (auto simp: seg_append)
  moreover have "\<forall>x\<in>set (ys @ ?new @ zs). block_ok m' x"
    using ok(2) splits_ok(1) [OF ok(1) assms(4) ord(1)] by (auto simp: block_ok_dom [OF m'(6)])
  moreover have "sorted_wrt apart (ys @ ?new @ zs)"
  proof -
    have inside: "apart x y" if "x \<in> set ?new" "y \<in> set ys \<union> set zs" for x y
      using bspec [OF splits_ok(3) [OF ok(1) assms(4) ord(1)] that(1)] bspec [OF rest that(2)]
      by (fastforce simp: apart_def split: prod.splits)
    then show ?thesis
      using sorted splits_ok(2) [OF ok(1) assms(4) ord(1)] apart_sym by (auto simp: sorted_wrt_append)
  qed
  ultimately show ?thesis using find m'(6,7) by (auto simp: heap_inv_def)
qed

subsection \<open>More memory\<close>

text \<open>\<open>mmap\<close> has put a new page at \<open>p\<close>.\<close>

definition new_page :: "umem \<Rightarrow> u64 \<Rightarrow> umem \<Rightarrow> bool" where
  "new_page m p m' \<longleftrightarrow> p \<noteq> 0 \<and> 4096 dvd unat p \<and> range_of p 4096 \<inter> dom m = {} \<and> range_of p 4096 \<subseteq> dom m' \<and>
     (\<forall>x. x \<notin> range_of p 4096 \<longrightarrow> m' x = m x)"

lemma block_ok_mono: "block_ok m x \<Longrightarrow> dom m \<subseteq> dom m' \<Longrightarrow> block_ok m' x"
  by (cases x) (simp add: block_ok_def subset_trans [of _ "dom m" "dom m'"])

lemma page_top: "4096 dvd unat (p :: u64) \<Longrightarrow> unat p + 4096 \<le> 2 ^ 64"
proof -
  assume "4096 dvd unat p"
  then obtain q where q: "unat p = 4096 * q" by (elim dvdE)
  then have "q < 4503599627370496" using u64_bound [of p] by simp
  with q show ?thesis by simp
qed

lemma init_header:
  assumes "range_of p 24 \<subseteq> dom m" "unat p + 24 \<le> 2 ^ 64"
  shows "\<exists>m1 m2 m3 m4. set_available p 1 m = Some m1 \<and> set_k p MALLOC_MAX_ORDER m1 = Some m2 \<and>
    set_next p 0 m2 = Some m3 \<and> set_prev p v m3 = Some m4 \<and>
    hdr_update p \<lparr>hd_avail = 1, hd_k = 12, hd_prev = v, hd_next = 0\<rparr> m m4"
proof -
  obtain h :: header where h: "hdr m p = Some h" using hdr_mapped [of p m] assms by blast
  obtain m1 where m1: "set_available p 1 m = Some m1" "hdr_update p (h\<lparr>hd_avail := 1\<rparr>) m m1"
    using set_available_hdr [OF h assms(2)] by blast
  obtain m2 where m2: "set_k p MALLOC_MAX_ORDER m1 = Some m2" "hdr_update p (h\<lparr>hd_avail := 1, hd_k := 12\<rparr>) m1 m2"
    using set_k_hdr [of m1 p _ MALLOC_MAX_ORDER] m1(2) assms(2) by (auto simp: hdr_update_def MALLOC_MAX_ORDER_def)
  obtain m3 where m3: "set_next p 0 m2 = Some m3"
    "hdr_update p (h\<lparr>hd_avail := 1, hd_k := 12, hd_next := 0\<rparr>) m2 m3"
    using set_next_hdr [of m2 p _ 0] m2(2) assms(2) by (auto simp: hdr_update_def)
  obtain m4 where m4: "set_prev p v m3 = Some m4"
    "hdr_update p (h\<lparr>hd_avail := 1, hd_k := 12, hd_next := 0, hd_prev := v\<rparr>) m3 m4"
    using set_prev_hdr [of m3 p _ v] m3(2) assms(2) by (auto simp: hdr_update_def)
  have "hdr_update p \<lparr>hd_avail = 1, hd_k = 12, hd_prev = v, hd_next = 0\<rparr> m m4"
    using m1(2) m2(2) m3(2) m4(2) by (simp add: hdr_update_def)
  with m1(1) m2(1) m3(1) m4(1) show ?thesis by blast
qed

lemma expand_page:
  assumes "heap_inv (h_mem st) (first_block st) xs" "mm (h_mem st, h_env st) = Some (p, m, e)"
    and "new_page (h_mem st) p m"
  shows "\<exists>st'. expand mm (if xs = [] then 0 else fst (last xs)) st = Some (0, st') \<and>
    heap_inv (h_mem st') (first_block st') (xs @ [(p, 1, 12)]) \<and>
    (\<forall>x. x \<notin> hdr_area xs \<union> range_of p 4096 \<longrightarrow> h_mem st' x = h_mem st x)"
proof -
  let ?m0 = "h_mem st"
  have p: "p \<noteq> 0" "4096 dvd unat p" "range_of p 4096 \<inter> dom ?m0 = {}" "range_of p 4096 \<subseteq> dom m"
    "\<forall>x. x \<notin> range_of p 4096 \<longrightarrow> m x = ?m0 x" using assms(3) by (auto simp: new_page_def)
  have top: "unat p + 24 \<le> 2 ^ 64" "unat p + 4096 \<le> 2 ^ 64" using page_top [OF p(2)] by simp_all
  have sub: "range_of p 24 \<subseteq> range_of p 4096" by (rule range_of_mono) simp
  have ok: "\<forall>x\<in>set xs. block_ok ?m0 x" and sorted: "sorted_wrt apart xs" and seg: "seg ?m0 (first_block st) xs 0"
    using assms(1) by (auto simp: heap_inv_def)
  have away: "range_of a (bsize k) \<inter> range_of p 4096 = {}" if "(a, av, k) \<in> set xs" for a av k
    using bspec [OF ok that] p(3) by (auto simp: block_ok_def)
  obtain m1 m2 m3 m4 where set: "set_available p 1 m = Some m1" "set_k p MALLOC_MAX_ORDER m1 = Some m2"
    "set_next p 0 m2 = Some m3" "set_prev p (if xs = [] then 0 else fst (last xs)) m3 = Some m4"
    "hdr_update p \<lparr>hd_avail = 1, hd_k = 12, hd_prev = if xs = [] then 0 else fst (last xs), hd_next = 0\<rparr> m m4"
    using init_header [OF _ top(1), of m] sub p(4) by blast
  have m4: "m4 x = ?m0 x" if "x \<notin> range_of p 4096" for x
    using set(5) p(5) sub that by (auto simp: hdr_update_def)
  have dom4: "dom m4 = dom m" using set(5) by (simp add: hdr_update_def)
  have dom: "dom ?m0 \<subseteq> dom m4" using p(3,5) dom4 by (fastforce simp: dom_def)
  have oks: "\<forall>x\<in>set (xs @ [(p, 1, 12)]). block_ok m' x" if "dom m' = dom m4" for m'
  proof -
    have "block_ok m' x" if "x \<in> set xs" for x
      using block_ok_mono [OF bspec [OF ok that]] dom \<open>dom m' = dom m4\<close> by simp
    moreover have "block_ok m' (p, 1, 12)"
      using p top that dom4 by (simp add: block_ok_def)
    ultimately show ?thesis by auto
  qed
  have sort: "sorted_wrt apart (xs @ [(p, 1, 12)])"
    using sorted away by (fastforce simp: sorted_wrt_append apart_def)
  show ?thesis
  proof (cases xs rule: rev_cases)
    case Nil
    have "expand mm 0 st = Some (0, st\<lparr>first_block := p, h_mem := m4, h_env := e\<rparr>)"
      using assms(2) p(1) set Nil by (simp add: expand_def)
    moreover have "heap_inv m4 p (xs @ [(p, 1, 12)])"
      using Nil oks [OF refl] sort set(5) p(1) by (simp add: heap_inv_def hdr_update_def)
    ultimately show ?thesis using Nil m4 by (intro exI [of _ "st\<lparr>first_block := p, h_mem := m4, h_env := e\<rparr>"]) simp
  next
    case (snoc us x)
    obtain l av k where x: "x = (l, av, k)" by (cases x)
    have l: "block_ok ?m0 (l, av, k)" "l \<noteq> 0" using ok snoc x by (auto simp: block_ok_def)
    have room: "unat l + 24 \<le> 2 ^ 64" "range_of l 24 \<subseteq> range_of l (bsize k)" using block_ok_hdr [OF l(1)] by auto
    have lp: "range_of l 24 \<inter> range_of p 4096 = {}" using away [of l av k] room(2) snoc x by auto
    obtain b :: header where b: "seg ?m0 (first_block st) us l" "hdr ?m0 l = Some b" "hd_avail b = av" "hd_k b = k"
      using seg snoc x by (auto simp: seg_append split: option.splits)
    have "hdr m4 l = Some b" using b(2) m4 lp room(1) by (subst hdr_cong [of l m4 ?m0]) auto
    then obtain m5 where m5: "set_next l p m4 = Some m5" "hdr_update l (b\<lparr>hd_next := p\<rparr>) m4 m5"
      using set_next_hdr room(1) by blast
    have dom5: "dom m5 = dom m4" using m5(2) by (simp add: hdr_update_def)
    have run: "expand mm l st = Some (0, st\<lparr>h_mem := m5, h_env := e\<rparr>)"
      using assms(2) p(1) set(1-4) m5(1) l(2) snoc x by (simp add: expand_def)
    have m5x: "m5 x = ?m0 x" if "x \<notin> range_of l 24 \<union> range_of p 4096" for x
      using m5(2) m4 that by (simp add: hdr_update_def)
    have us: "hdr_area us \<inter> range_of l (bsize k) = {}" "hdr_area us \<inter> range_of p 4096 = {}"
    proof -
      have "\<forall>x\<in>set us. apart (l, av, k) x"
        using sorted apart_sym by (auto simp: snoc x sorted_wrt_append)
      then show "hdr_area us \<inter> range_of l (bsize k) = {}"
        using ok snoc by (intro hdr_area_apart [where m = ?m0]) auto
      have "\<forall>y\<in>set us. apart (p, 1, 12) y"
        using sort apart_sym by (auto simp: snoc x sorted_wrt_append)
      then show "hdr_area us \<inter> range_of p 4096 = {}"
        using ok snoc hdr_area_apart [of us p 1 12 ?m0] by simp
    qed
    have "seg m5 (first_block st) us l"
      using b(1) by (rule seg_frame [where ?m0.0 = ?m0]) (use ok snoc us room(2) m5x in auto)
    moreover have "hdr m5 p = hdr m4 p"
      using hdr_update_other [OF m5(2) _ top(1)] lp sub by blast
    ultimately have "seg m5 (first_block st) (xs @ [(p, 1, 12)]) 0"
      using m5(2) set(5) b(3,4) l(2) p(1) by (simp add: snoc x seg_append hdr_update_def)
    then have "heap_inv m5 (first_block st) (xs @ [(p, 1, 12)])"
      using oks [OF dom5] sort by (simp add: heap_inv_def)
    moreover have "range_of l 24 \<subseteq> hdr_area xs" by (auto simp: snoc x)
    ultimately show ?thesis
      using run m5x by (intro exI [of _ "st\<lparr>h_mem := m5, h_env := e\<rparr>"]) (auto simp: snoc x)
  qed
qed

end
