(* ===== verification/Alloc_Malloc.thy ===== *)
theory Alloc_Malloc
  imports Alloc_Props
begin

text \<open>
  The properties of \<open>malloc\<close> and \<open>free\<close>.
\<close>

subsection \<open>Blocks in use\<close>

definition live_blocks :: "entry list \<Rightarrow> (u64 \<times> u8) set" where
  "live_blocks xs = {(a, k). (a, 0, k) \<in> set xs}"

definition payload :: "u64 \<Rightarrow> u8 \<Rightarrow> u64 set" where
  "payload a k = range_of a (bsize k) - range_of a 24"

text \<open>What \<open>mmap\<close> does: a new page, or the failure value and no change.\<close>

definition mmap_pages :: "'e mmap_op \<Rightarrow> bool" where
  "mmap_pages mm \<longleftrightarrow> (\<forall>m e. \<exists>p m' e'. mm (m, e) = Some (p, m', e') \<and> (new_page m p m' \<or> p = MAP_FAILED \<and> m' = m))"

lemma live_append [simp]: "live_blocks (xs @ ys) = live_blocks xs \<union> live_blocks ys"
  by (auto simp: live_blocks_def)

lemma live_splits [simp]: "live_blocks (splits a i k) = {}"
  by (auto simp: live_blocks_def splits_def)

lemma live_Cons: "live_blocks ((a, av, k) # xs) = (if av = 0 then insert (a, k) (live_blocks xs) else live_blocks xs)"
  by (auto simp: live_blocks_def)

lemma apart_in:
  "sorted_wrt apart xs \<Longrightarrow> x \<in> set xs \<Longrightarrow> y \<in> set xs \<Longrightarrow> x \<noteq> y \<Longrightarrow> apart x y"
  by (induction xs) (auto intro: apart_sym)

lemma live_apart:
  assumes "heap_inv m p xs" "(a, av, k) \<in> set xs" "av \<noteq> 0" "(c, j) \<in> live_blocks xs"
  shows "range_of a (bsize k) \<inter> range_of c (bsize j) = {}" "c \<noteq> a"
proof -
  have "apart (a, av, k) (c, 0, j)"
    using assms by (intro apart_in [of xs]) (auto simp: heap_inv_def live_blocks_def)
  then show disj: "range_of a (bsize k) \<inter> range_of c (bsize j) = {}" by (simp add: apart_def)
  have "a \<in> range_of a (bsize k)" "c \<in> range_of c (bsize j)" by (simp_all add: range_of_def)
  with disj show "c \<noteq> a" by auto
qed

lemma payload_headers:
  assumes "heap_inv m p xs" "(c, j) \<in> live_blocks xs"
  shows "payload c j \<inter> hdr_area xs = {}"
proof -
  have "payload c j \<inter> range_of a 24 = {}" if "(a, av, k) \<in> set xs" for a av k
  proof (cases "(a, av, k) = (c, 0, j)")
    case False
    then have "apart (a, av, k) (c, 0, j)"
      using assms that by (intro apart_in [of xs]) (auto simp: heap_inv_def live_blocks_def)
    moreover have "range_of a 24 \<subseteq> range_of a (bsize k)"
      using block_ok_hdr [of m a av k] assms(1) that by (simp add: heap_inv_def)
    ultimately show ?thesis by (auto simp: apart_def payload_def)
  qed (auto simp: payload_def)
  then show ?thesis by (fastforce simp: hdr_area_def)
qed

subsection \<open>What \<open>malloc\<close> gives\<close>

text \<open>The block \<open>(a, k)\<close> is taken: nothing that was in use is touched.\<close>

definition taken :: "'e heap \<Rightarrow> entry list \<Rightarrow> u64 \<Rightarrow> u8 \<Rightarrow> 'e heap \<Rightarrow> entry list \<Rightarrow> bool" where
  "taken st xs a k st' xs' \<longleftrightarrow> heap_inv (h_mem st') (first_block st') xs' \<and>
     live_blocks xs' = insert (a, k) (live_blocks xs) \<and>
     (\<forall>(c, j)\<in>live_blocks xs. range_of a (bsize k) \<inter> range_of c (bsize j) = {} \<and>
        (\<forall>x\<in>payload c j. h_mem st' x = h_mem st x))"

lemma take_fit:
  assumes "heap_inv (h_mem st) (first_block st) xs" "\<exists>x\<in>set xs. fits ord x" "5 \<le> unat ord"
  shows "\<exists>a st' xs'. block_find mm ord st = Some (a, st') \<and> a \<noteq> 0 \<and> taken st xs a ord st' xs'"
proof -
  obtain ys x zs where split: "xs = ys @ x # zs" "fits ord x" "\<not> (\<exists>y\<in>set ys. fits ord y)"
    using split_list_first_prop [OF assms(2)] by blast
  obtain a av k where x: "x = (a, av, k)" by (cases x)
  have av: "av \<noteq> 0" "unat ord \<le> unat k" using split(2) by (simp_all add: x fits_def word_le_nat_alt)
  let ?xs = "ys @ ((a, 0, ord) # splits a (unat ord) (unat k)) @ zs"
  obtain m' where m': "block_find mm ord st = Some (a, st\<lparr>h_mem := m'\<rparr>)" "heap_inv m' (first_block st) ?xs"
    "\<forall>x. x \<notin> range_of a (bsize k) \<longrightarrow> m' x = h_mem st x"
    using take_block [of st ys a av k zs ord mm] assms(1,3) split by (auto simp: x)
  have "range_of a (bsize ord) \<inter> range_of c (bsize j) = {} \<and> (\<forall>x\<in>payload c j. m' x = h_mem st x)"
    if "(c, j) \<in> live_blocks xs" for c j
  proof -
    have away: "range_of a (bsize k) \<inter> range_of c (bsize j) = {}"
      using live_apart(1) [OF assms(1) _ av(1) that, of a k] split(1) by (simp add: x)
    have "range_of a (bsize ord) \<subseteq> range_of a (bsize k)"
      using av(2) by (intro range_of_mono power_increasing) auto
    with away m'(3) show ?thesis by (auto simp: payload_def)
  qed
  moreover have "a \<noteq> 0" using assms(1) by (auto simp: heap_inv_def split(1) x block_ok_def)
  moreover have "live_blocks ?xs = insert (a, ord) (live_blocks xs)"
    using av(1) by (simp add: split(1) x live_Cons)
  ultimately have "taken st xs a ord (st\<lparr>h_mem := m'\<rparr>) ?xs"
    using m'(2) unfolding taken_def by auto
  with m'(1) \<open>a \<noteq> 0\<close> show ?thesis by blast
qed

lemma take_new:
  assumes "heap_inv (h_mem st) (first_block st) xs" "\<not> (\<exists>x\<in>set xs. fits ord x)" "5 \<le> unat ord" "unat ord \<le> 12"
    and "mm (h_mem st, h_env st) = Some (p, m, e)" "new_page (h_mem st) p m"
  shows "\<exists>a st' xs'. block_find mm ord st = Some (a, st') \<and> a \<noteq> 0 \<and> taken st xs a ord st' xs'"
proof -
  obtain st1 where st1: "expand mm (if xs = [] then 0 else fst (last xs)) st = Some (0, st1)"
    "heap_inv (h_mem st1) (first_block st1) (xs @ [(p, 1, 12)])"
    "\<forall>x. x \<notin> hdr_area xs \<union> range_of p 4096 \<longrightarrow> h_mem st1 x = h_mem st x"
    using expand_page [OF assms(1), of mm p m e] assms(5,6) by blast
  have seg: "seg (h_mem st) (first_block st) xs 0" using assms(1) by (simp add: heap_inv_def)
  have again: "block_find mm ord st = block_find mm ord st1"
    unfolding block_find_def find_scan [OF seg assms(2)]
    by (subst find_loop.simps) (simp only: st1(1), simp)
  have "fits ord (p, 1, 12)" using assms(4) by (simp add: fits_def word_le_nat_alt)
  then obtain a st' xs' where got: "block_find mm ord st1 = Some (a, st')" "a \<noteq> 0" "taken st1 (xs @ [(p, 1, 12)]) a ord st' xs'"
    using take_fit [OF st1(2) _ assms(3), of mm] by auto
  have same: "live_blocks (xs @ [(p, 1, 12)]) = live_blocks xs" by (simp add: live_Cons) (simp add: live_blocks_def)
  have "h_mem st1 x = h_mem st x" if "(c, j) \<in> live_blocks xs" "x \<in> payload c j" for c j x
  proof -
    have "range_of p (bsize 12) \<inter> range_of c (bsize j) = {}"
      using live_apart(1) [OF st1(2), of p 1 12 c j] that(1) same by simp
    then have "x \<notin> range_of p 4096" using that(2) by (auto simp: payload_def)
    moreover have "x \<notin> hdr_area xs" using payload_headers [OF assms(1) that(1)] that(2) by auto
    ultimately show ?thesis using st1(3) by simp
  qed
  then have "taken st xs a ord st' xs'" using got(3) unfolding taken_def same by auto
  with again got(1,2) show ?thesis by auto
qed

lemma expand_failed:
  assumes "mm (h_mem st, h_env st) = Some (MAP_FAILED, m, e)" "m MAP_FAILED = None"
  shows "expand mm block st = None"
  using assms by (simp add: expand_def set_available_def MAP_FAILED_def)

lemma find_failed:
  assumes "heap_inv (h_mem st) (first_block st) xs" "\<not> (\<exists>x\<in>set xs. fits ord x)"
    and "mm (h_mem st, h_env st) = Some (MAP_FAILED, h_mem st, e)" "h_mem st MAP_FAILED = None"
  shows "block_find mm ord st = None"
proof -
  have seg: "seg (h_mem st) (first_block st) xs 0" using assms(1) by (simp add: heap_inv_def)
  show ?thesis
    unfolding block_find_def find_scan [OF seg assms(2)]
    by (subst find_loop.simps) (simp add: expand_failed [of mm st, OF assms(3,4)])
qed

abbreviation malloc_order_of :: "u64 \<Rightarrow> u8" where
  "malloc_order_of sz \<equiv> of_nat (bit_count (sz + 24))"

lemma malloc_sum: "unat sz + 24 < 4096 \<Longrightarrow> unat (sz + 24 :: u64) = unat sz + 24"
  by (subst unat_add_no_overflow) simp_all

lemma malloc_order_ok:
  assumes "0 < unat sz" "unat sz + 24 < 4096"
  shows "5 \<le> unat (malloc_order_of sz)" "unat (malloc_order_of sz) \<le> 12"
    and "unat sz + 24 < bsize (malloc_order_of sz)" "bsize (malloc_order_of sz) \<le> 2 * (unat sz + 24)"
  using malloc_order [of "sz + 24"] malloc_sum [OF assms(2)] assms by simp_all

lemma malloc_find:
  assumes "0 < unat sz" "unat sz + 24 < 4096"
  shows "malloc mm sz st = do { (block, st') \<leftarrow> block_find mm (malloc_order_of sz) st;
      if block = 0 then Some ((0, Some ENOMEM), st') else Some ((block + SIZEOF_BLOCK, None), st') }"
proof -
  have "sz \<noteq> 0" "\<not> MALLOC_BLOCK_SIZE < sz + SIZEOF_BLOCK"
    using assms malloc_sum [OF assms(2)]
    by (auto simp: SIZEOF_BLOCK_def MALLOC_BLOCK_SIZE_def word_less_nat_alt)
  then show ?thesis by (simp add: malloc_def SIZEOF_BLOCK_def)
qed

lemma malloc_takes_block':
  assumes "mmap_pages mm" "heap_inv (h_mem st) (first_block st) xs" "h_mem st MAP_FAILED = None"
    and "0 < unat sz" "unat sz + 24 < 4096"
  shows "(\<exists>a k st' xs'. malloc mm sz st = Some ((a + SIZEOF_BLOCK, None), st') \<and> taken st xs a k st' xs' \<and>
      unat sz + 24 < bsize k \<and> bsize k \<le> 2 * (unat sz + 24) \<and> bsize k dvd unat a) \<or>
    (malloc mm sz st = None \<and> (\<exists>m e. mm (h_mem st, h_env st) = Some (MAP_FAILED, m, e)))"
proof -
  define ord where "ord = malloc_order_of sz"
  note ord = malloc_order_ok [OF assms(4,5), folded ord_def]
  note run = malloc_find [OF assms(4,5), of mm st, folded ord_def]
  have found: ?thesis if "block_find mm ord st = Some (a, st')" "a \<noteq> 0" "taken st xs a ord st' xs'" for a st' xs'
  proof -
    have "(a, 0, ord) \<in> set xs'" using that(3) by (auto simp: taken_def live_blocks_def)
    then have "bsize ord dvd unat a" using that(3) by (auto simp: taken_def heap_inv_def block_ok_def)
    then show ?thesis using run that ord(3,4) by (intro disjI1 exI [of _ a] exI [of _ ord]) auto
  qed
  obtain p m e where mm: "mm (h_mem st, h_env st) = Some (p, m, e)" "new_page (h_mem st) p m \<or> p = MAP_FAILED \<and> m = h_mem st"
    using assms(1) unfolding mmap_pages_def by metis
  show ?thesis
  proof (cases "\<exists>x\<in>set xs. fits ord x")
    case True
    then show ?thesis using take_fit [OF assms(2) True ord(1)] found by blast
  next
    case False
    from mm(2) show ?thesis
    proof
      assume "new_page (h_mem st) p m"
      then show ?thesis using take_new [OF assms(2) False ord(1,2), of mm p m e] mm(1) found by blast
    next
      assume "p = MAP_FAILED \<and> m = h_mem st"
      then show ?thesis using find_failed [OF assms(2) False _ assms(3)] mm(1) run by auto
    qed
  qed
qed

text \<open>
  C23. \<open>malloc\<close> of at most 4071 bytes on a well-formed list of blocks takes a block that is large enough,
  at most twice as large as needed, aligned to its size, and disjoint from every block in use, whose
  contents it does not change; the list stays well-formed. The only other outcome is that no block fits and
  \<open>mmap\<close> fails: then \<open>malloc\<close> does not report the failure, it writes through the failure value.
\<close>

theorem malloc_takes_block:
  assumes "mmap_pages mm" "heap_inv (h_mem st) (first_block st) xs" "h_mem st MAP_FAILED = None"
    and "0 < unat sz" "unat sz + 24 < 4096"
  shows "(\<exists>a k st' xs'. malloc mm sz st = Some ((a + SIZEOF_BLOCK, None), st') \<and> taken st xs a k st' xs' \<and>
      unat sz + 24 < bsize k \<and> bsize k \<le> 2 * (unat sz + 24) \<and> bsize k dvd unat a) \<or>
    (malloc mm sz st = None \<and> (\<exists>m e. mm (h_mem st, h_env st) = Some (MAP_FAILED, m, e)))"
  by (rule malloc_takes_block' [OF assms])

end
