(* ===== verification/Alloc_Free.thy ===== *)
theory Alloc_Free
  imports Alloc_Malloc Task_Witness
begin

text \<open>
  What goes wrong with the allocator: its call of \<open>mmap\<close>, and the coalescing of blocks in \<open>free\<close>.
\<close>

subsection \<open>Buddies\<close>

lemma buddy_above:
  assumes "2 ^ Suc i dvd unat (a :: u64)" "i < 64"
  shows "a XOR 2 ^ i = a + 2 ^ i"
proof -
  have "\<not> bit (unat a) i"
    using assms(1) by (auto simp: bit_iff_odd elim!: dvdE)
  then have "\<not> bit a i" using assms(2) by (simp add: bit_unsigned_iff)
  then have "a AND 2 ^ i = 0" by (intro bit_word_eqI) (auto simp: bit_simps)
  then show ?thesis by (simp add: disjunctive_add_eq_xor)
qed

lemma coalesce_step:
  assumes "hdr m a = Some b" "hd_k b = k" "unat a + 24 \<le> 2 ^ 64" "hdr m c = Some d" "hd_avail d \<noteq> 0"
    and "a < c" "unat k < 12" "unat c + 24 \<le> 2 ^ 64" "range_of a 24 \<inter> range_of c 24 = {}"
  shows "\<exists>m'. coalesce_loop c a m = coalesce_loop (a XOR 2 ^ (unat k + 1)) a m' \<and>
    hdr_update a (b\<lparr>hd_k := k + 1, hd_next := hd_next d\<rparr>) m m'"
proof -
  obtain m1 where m1: "set_k a (k + 1) m = Some m1" "hdr_update a (b\<lparr>hd_k := k + 1\<rparr>) m m1"
    using set_k_hdr [OF assms(1,3)] by blast
  have d: "hdr m1 c = Some d" using hdr_update_other [OF m1(2) assms(9,8)] assms(4) by simp
  obtain m2 where m2: "set_next a (hd_next d) m1 = Some m2" "hdr_update a (b\<lparr>hd_k := k + 1, hd_next := hd_next d\<rparr>) m1 m2"
    using set_next_hdr [of m1 a _ "hd_next d"] m1(2) assms(3) by (auto simp: hdr_update_def)
  have k: "unat (k + 1) = unat k + 1" using assms(7) by (subst unat_add_no_overflow) simp_all
  have "order_size (k + 1) = Some (2 ^ (unat k + 1))" using order_size_eq [of "k + 1"] k assms(7) by simp
  moreover have "c \<noteq> 0" "\<not> c < a" using assms(6) by auto
  moreover have "k < MALLOC_MAX_ORDER" using assms(7) by (simp add: MALLOC_MAX_ORDER_def word_less_nat_alt)
  ultimately have "coalesce_loop c a m = coalesce_loop (a XOR 2 ^ (unat k + 1)) a m2"
    using assms(1,2,4,5) m1 m2 d by (subst coalesce_loop.simps) (simp add: hdr_fields hdr_update_def)
  moreover have "hdr_update a (b\<lparr>hd_k := k + 1, hd_next := hd_next d\<rparr>) m m2"
    using m1(2) m2(2) by (simp add: hdr_update_def)
  ultimately show ?thesis by blast
qed

lemma coalesce_page:
  assumes "hdr m p = Some b" "hd_k b = of_nat i" "4096 dvd unat p" "5 \<le> i" "i \<le> 12"
    and "\<forall>j\<in>{i..<12}. \<exists>d. hdr m (p + 2 ^ j) = Some d \<and> hd_avail d \<noteq> 0"
    and "m (p XOR 0x1000) = None" "p XOR 0x1000 \<noteq> 0"
  shows "coalesce_loop (p XOR 2 ^ i) p m = None"
  using assms
proof (induction "12 - i" arbitrary: i b m)
  case 0
  then have "i = 12" by simp
  with 0 show ?case by (subst coalesce_loop.simps) (simp add: b_available_def)
next
  case (Suc n)
  have i: "i < 12" using Suc.hyps(2) by simp
  have dvd: "2 ^ Suc i dvd unat p"
  proof -
    have "(2 :: nat) ^ Suc i dvd 2 ^ 12" using i by (intro le_imp_power_dvd) simp
    moreover have "(2 :: nat) ^ 12 dvd unat p" using Suc.prems(3) by simp
    ultimately show ?thesis by (rule dvd_trans)
  qed
  have top: "unat p + 4096 \<le> 2 ^ 64" using page_top Suc.prems(3) by blast
  have off: "unat (p + 2 ^ j) = unat p + 2 ^ j" "unat (p + 2 ^ j) + 24 \<le> 2 ^ 64" if "5 \<le> j" "j < 12" for j
  proof -
    have "(2 :: nat) ^ j \<le> 2 ^ 11" using that by (intro power_increasing) auto
    with top show "unat (p + 2 ^ j) = unat p + 2 ^ j"
      using unat_p2 [of j] that by (subst unat_offset [where n = 4096]) simp_all
    with \<open>(2 :: nat) ^ j \<le> 2 ^ 11\<close> top show "unat (p + 2 ^ j) + 24 \<le> 2 ^ 64" by simp
  qed
  have away: "range_of p 24 \<inter> range_of (p + 2 ^ j) 24 = {}" if "5 \<le> j" "j < 12" for j
  proof -
    have "(2 :: nat) ^ 5 \<le> 2 ^ j" using that by (intro power_increasing) auto
    then have "24 \<le> (2 :: nat) ^ j" by simp
    then show ?thesis using off(1) [OF that] by (auto simp: range_of_def)
  qed
  have buddy: "p XOR 2 ^ i = p + 2 ^ i" using buddy_above [OF dvd] i by simp
  have ki: "unat (of_nat i :: u8) = i" using i by simp
  obtain d :: header where d: "hdr m (p + 2 ^ i) = Some d" "hd_avail d \<noteq> 0"
    using bspec [OF Suc.prems(6), of i] i by auto
  have "p < p + 2 ^ i" using off(1) [OF Suc.prems(4) i] by (simp add: word_less_nat_alt)
  then obtain m' where m': "coalesce_loop (p + 2 ^ i) p m = coalesce_loop (p XOR 2 ^ (i + 1)) p m'"
    "hdr_update p (b\<lparr>hd_k := of_nat i + 1, hd_next := hd_next d\<rparr>) m m'"
    using coalesce_step [OF Suc.prems(1,2) _ d] off(2) [OF Suc.prems(4) i] away [OF Suc.prems(4) i] top i ki by auto
  have "coalesce_loop (p XOR 2 ^ (i + 1)) p m' = None"
  proof (rule Suc.hyps(1))
    show "hdr m' p = Some (b\<lparr>hd_k := of_nat i + 1, hd_next := hd_next d\<rparr>)" using m'(2) by (simp add: hdr_update_def)
    have "hdr m' (p + 2 ^ j) = hdr m (p + 2 ^ j)" if "i < j" "j < 12" for j
      using hdr_update_other [OF m'(2) away off(2)] that Suc.prems(4) by simp
    then show "\<forall>j\<in>{i + 1..<12}. \<exists>d. hdr m' (p + 2 ^ j) = Some d \<and> hd_avail d \<noteq> 0" using Suc.prems(6) by auto
    have "dom m' = dom m" using m'(2) by (simp add: hdr_update_def)
    then show "m' (p XOR 0x1000) = None" using Suc.prems(7) by (metis domIff)
  qed (use Suc.hyps(2) Suc.prems i in auto)
  with m'(1) buddy show ?case by simp
qed

subsection \<open>Failures\<close>

lemma kernel_mmap_fails: "kernel_mmap stale (m, k) = Some (MAP_FAILED, m, k)"
  by (simp add: kernel_mmap_def mmap_def sys_mmap_def prot_perm_def errno_ptr_def ERRNO_TOTAL_def layout_simps)

text \<open>
  C24. The allocator asks the kernel for memory without any access right, which \<open>mmap\<close> does not support, and
  compares the result with null, not with the failure value: the first \<open>malloc\<close> of a process writes a block
  header to the last address of the address space.
\<close>

theorem malloc_without_rights:
  assumes "0 < unat sz" "unat sz + 24 < 4096" "m MAP_FAILED = None"
  shows "malloc (kernel_mmap stale) sz \<lparr>first_block = 0, h_mem = m, h_env = k\<rparr> = None"
proof -
  let ?st = "\<lparr>first_block = 0, h_mem = m, h_env = k\<rparr> :: kernel heap"
  have "heap_inv (h_mem ?st) (first_block ?st) []" by (simp add: heap_inv_def)
  then have "block_find (kernel_mmap stale) (malloc_order_of sz) ?st = None"
    by (rule find_failed) (use assms(3) kernel_mmap_fails in auto)
  then show ?thesis using malloc_find [OF assms(1,2), of "kernel_mmap stale" ?st] by simp
qed

theorem malloc_without_rights_witness:
  "malloc (kernel_mmap (\<lambda>k a. 0)) 100 \<lparr>first_block = 0, h_mem = \<lambda>a. None, h_env = \<lparr>k_mem = one_frame, k_sched = sched_init 0x1000\<rparr>\<rparr> = None"
  by (rule malloc_without_rights) simp_all

lemma seg_hdr:
  "seg m p xs q \<Longrightarrow> (a, av, k) \<in> set xs \<Longrightarrow> \<exists>d. hdr m a = Some d \<and> hd_avail d = av \<and> hd_k d = k"
  by (induction xs arbitrary: p) (auto split: option.splits)

lemma xor_zero: "p XOR c = 0 \<Longrightarrow> p = (c :: u64)"
proof -
  assume "p XOR c = 0"
  then have "(p XOR c) XOR c = 0 XOR c" by simp
  then show "p = c" by (simp add: xor.assoc)
qed

lemma other_page:
  assumes "4096 dvd unat (p :: u64)"
  shows "p XOR 0x1000 \<notin> range_of p 4096"
proof
  assume "p XOR 0x1000 \<in> range_of p 4096"
  moreover obtain q where q: "unat p = 4096 * q" using assms by (elim dvdE)
  ultimately have "unat (p XOR 0x1000) div 4096 = q"
    by (intro div_nat_eqI) (simp_all add: range_of_def)
  then have "unat (p XOR 0x1000) div 4096 = unat p div 4096" using q by simp
  then have "unat (drop_bit 12 (p XOR 0x1000)) = unat (drop_bit 12 p)" by (simp add: drop_bit_eq_div unat_div)
  then have "drop_bit 12 (p XOR 0x1000) = drop_bit 12 p" by (simp add: word_unat_eq_iff)
  then have "bit (drop_bit 12 (p XOR 0x1000)) 0 = bit (drop_bit 12 p) 0" by simp
  then show False by (simp add: bit_simps)
qed

lemma free_block:
  assumes "unat p + 24 \<le> 2 ^ 64" "p + SIZEOF_BLOCK \<noteq> 0"
  shows "free um (p + SIZEOF_BLOCK) st = do {
     m \<leftarrow> set_available p 1 (h_mem st); block_coalesce um p (st\<lparr>h_mem := m\<rparr>) }"
  using assms by (simp add: free_def)

text \<open>
  A process that frees its only allocation crashes when the address that differs from its page in bit
  12 is not mapped: after the blocks have been merged into the whole page, \<open>free\<close> still reads the header of
  the buddy of the page, before it looks at the order.
\<close>

lemma free_reads_next_page:
  assumes "mm (h_mem st, h_env st) = Some (p, m, e)" "new_page (h_mem st) p m" "first_block st = 0"
    and "h_mem st (p XOR 0x1000) = None" "p \<noteq> 0x1000" "0 < unat sz" "unat sz + 24 < 4096"
  shows "\<exists>st'. malloc mm sz st = Some ((p + SIZEOF_BLOCK, None), st') \<and> free um (p + SIZEOF_BLOCK) st' = None"
proof -
  define ord where "ord = malloc_order_of sz"
  note ord = malloc_order_ok [OF assms(6,7), folded ord_def]
  have inv: "heap_inv (h_mem st) (first_block st) []" using assms(3) by (simp add: heap_inv_def)
  have page: "p \<noteq> 0" "4096 dvd unat p" using assms(2) by (auto simp: new_page_def)
  obtain st1 where st1: "expand mm 0 st = Some (0, st1)" "heap_inv (h_mem st1) (first_block st1) [(p, 1, 12)]"
    "\<forall>x. x \<notin> range_of p 4096 \<longrightarrow> h_mem st1 x = h_mem st x"
    using expand_page [OF inv, of mm p m e] assms(1,2) by auto
  obtain m' where m': "block_find mm ord st1 = Some (p, st1\<lparr>h_mem := m'\<rparr>)"
    "heap_inv m' (first_block st1) ((p, 0, ord) # splits p (unat ord) 12)"
    "\<forall>x. x \<notin> range_of p 4096 \<longrightarrow> m' x = h_mem st1 x"
    using take_block [of st1 "[]" p 1 12 "[]" ord mm] st1(2) ord(1,2)
    by (auto simp: fits_def word_le_nat_alt)
  have "block_find mm ord st = block_find mm ord st1"
    unfolding block_find_def using assms(3) st1(1) by (subst find_loop.simps) simp
  then have run: "malloc mm sz st = Some ((p + SIZEOF_BLOCK, None), st1\<lparr>h_mem := m'\<rparr>)"
    using malloc_find [OF assms(6,7), of mm st, folded ord_def] m'(1) page(1) by simp
  have top: "unat p + 24 \<le> 2 ^ 64" using page_top [OF page(2)] by simp
  obtain b :: header where b: "hdr m' p = Some b" "hd_k b = ord" "hd_avail b = 0"
    using m'(2) by (auto simp: heap_inv_def split: option.splits)
  obtain m2 where m2: "set_available p 1 m' = Some m2" "hdr_update p (b\<lparr>hd_avail := 1\<rparr>) m' m2"
    using set_available_hdr [OF b(1) top] by blast
  have others: "\<exists>d. hdr m2 (p + 2 ^ j) = Some d \<and> hd_avail d \<noteq> 0" if "j \<in> {unat ord..<12}" for j
  proof -
    have entry: "(p + 2 ^ j, 1, of_nat j) \<in> set (splits p (unat ord) 12)"
      using that by (auto simp: splits_def)
    then have in_all: "(p + 2 ^ j, 1, of_nat j) \<in> set ((p, 0, ord) # splits p (unat ord) 12)" by simp
    then obtain d where d: "hdr m' (p + 2 ^ j) = Some d" "hd_avail d = 1"
      using seg_hdr m'(2) unfolding heap_inv_def by blast
    have "apart (p, 0, ord) (p + 2 ^ j, 1, of_nat j)" "block_ok m' (p, 0, ord)" "block_ok m' (p + 2 ^ j, 1, of_nat j)"
      using m'(2) entry by (auto simp: heap_inv_def)
    then have "range_of p 24 \<inter> range_of (p + 2 ^ j) 24 = {}" "unat (p + 2 ^ j) + 24 \<le> 2 ^ 64"
      using block_ok_hdr [of m' p 0 ord] block_ok_hdr [of m' "p + 2 ^ j" 1 "of_nat j"] by (auto simp: apart_def)
    then show ?thesis using hdr_update_other [OF m2(2)] d by simp
  qed
  have far: "p XOR 0x1000 \<notin> range_of p 4096" by (rule other_page [OF page(2)])
  then have "m' (p XOR 0x1000) = None" using assms(4) st1(3) m'(3) by simp
  then have "m2 (p XOR 0x1000) = None" using m2(2) by (metis domIff hdr_update_def)
  moreover have "p XOR 0x1000 \<noteq> 0" using assms(5) xor_zero by blast
  ultimately have "coalesce_loop (p XOR 2 ^ unat ord) p m2 = None"
    using m2(2) b(2) page(2) ord(1,2) others by (intro coalesce_page [of m2 p "b\<lparr>hd_avail := 1\<rparr>"]) (auto simp: hdr_update_def)
  moreover have "b_k m2 p = Some ord" "order_size ord = Some (2 ^ unat ord)"
    using m2(2) b(2) order_size_eq ord(2) by (auto simp: hdr_update_def hdr_fields)
  moreover have "p + SIZEOF_BLOCK \<noteq> 0"
  proof -
    have "unat (p + SIZEOF_BLOCK) = unat p + 24"
      using page_top [OF page(2)] by (subst unat_offset [where n = 4096]) (simp_all add: SIZEOF_BLOCK_def)
    then show ?thesis by auto
  qed
  ultimately have "free um (p + SIZEOF_BLOCK) (st1\<lparr>h_mem := m'\<rparr>) = None"
    using m2(1) by (simp add: free_block [OF top] block_coalesce_def)
  with run show ?thesis by blast
qed

lemma aligned_top:
  assumes "2 ^ n dvd unat (a :: u64)" "n \<le> 64"
  shows "unat a + 2 ^ n \<le> 2 ^ 64"
proof -
  obtain q where q: "unat a = 2 ^ n * q" using assms(1) by (elim dvdE)
  have "(2 :: nat) ^ 64 = 2 ^ n * 2 ^ (64 - n)" using assms(2) by (simp flip: power_add)
  then have "2 ^ n * q < 2 ^ n * 2 ^ (64 - n)" using q u64_bound [of a] by metis
  then have "q + 1 \<le> 2 ^ (64 - n)" by simp
  then have "2 ^ n * (q + 1) \<le> 2 ^ n * 2 ^ (64 - n)" by (rule mult_le_mono2)
  then show ?thesis using q \<open>(2 :: nat) ^ 64 = 2 ^ n * 2 ^ (64 - n)\<close> by simp
qed

text \<open>
  C25. \<open>free\<close> does not compare the orders of a block and its buddy. When the buddy has been split and its
  first half is free, the block is merged with the whole buddy: afterwards the free block on the list covers
  the other half of the buddy, which is still in use.
\<close>

theorem free_swallows_live_block:
  assumes "heap_inv (h_mem st) (first_block st)
      (ys @ (a, 0, k) # (a + 2 ^ unat k, 1, k - 1) # (c, 0, k - 1) # (a + 2 ^ (unat k + 1), 0, j) # zs)"
    and "c = a + 2 ^ unat k + 2 ^ (unat k - 1)" "2 ^ (unat k + 2) dvd unat a" "unat k < 11"
  shows "\<exists>st'. free um (a + SIZEOF_BLOCK) st = Some st' \<and> first_block st' = first_block st \<and>
    seg (h_mem st') (first_block st') (ys @ (a, 1, k + 1) # (c, 0, k - 1) # (a + 2 ^ (unat k + 1), 0, j) # zs) 0 \<and>
    range_of c (bsize (k - 1)) \<subseteq> range_of a (bsize (k + 1))"
proof -
  define bb where "bb = a + 2 ^ unat k"
  define dd where "dd = a + 2 ^ (unat k + 1)"
  let ?m = "h_mem st"
  let ?xs = "ys @ (a, 0, k) # (bb, 1, k - 1) # (c, 0, k - 1) # (dd, 0, j) # zs"
  let ?rest = "(c, 0, k - 1) # (dd, 0, j) # zs"
  have inv: "seg ?m (first_block st) ?xs 0" "\<forall>x\<in>set ?xs. block_ok ?m x" "sorted_wrt apart ?xs"
    using assms(1) unfolding heap_inv_def bb_def [symmetric] dd_def [symmetric] by blast+
  have ok: "block_ok ?m (a, 0, k)" "block_ok ?m (bb, 1, k - 1)" "block_ok ?m (c, 0, k - 1)" "block_ok ?m (dd, 0, j)"
    using inv(2) by simp_all
  have k: "5 \<le> unat k" "unat (k - 1) = unat k - 1" "unat (k + 1) = unat k + 1"
    using ok(1) unat_pred [of k] assms(4) by (auto simp: block_ok_def unat_add_no_overflow)
  have six: "6 \<le> unat k" using ok(2) k by (auto simp: block_ok_def)
  have room: "unat a + 24 \<le> 2 ^ 64" "unat bb + 24 \<le> 2 ^ 64" "unat dd + 24 \<le> 2 ^ 64"
    using ok block_ok_hdr by blast+
  have apart: "\<forall>x\<in>set ys \<union> set ((bb, 1, k - 1) # ?rest). apart (a, 0, k) x"
    using inv(3) apart_sym by (auto simp: sorted_wrt_append)
  have heads: "range_of a 24 \<subseteq> range_of a (bsize k)" using block_ok_hdr [OF ok(1)] by simp
  have away: "hdr_area ys \<inter> range_of a (bsize k) = {}" "hdr_area ((bb, 1, k - 1) # ?rest) \<inter> range_of a (bsize k) = {}"
    by (rule hdr_area_apart [where m = ?m and av = 0]; use apart inv(2) in simp)+
  obtain b :: header and h :: header where seg: "seg ?m (first_block st) ys a" "hdr ?m a = Some b" "hd_avail b = 0"
    "hd_k b = k" "a \<noteq> 0" "hdr ?m bb = Some h" "hd_avail h = 1" "hd_k h = k - 1" "seg ?m (hd_next h) ?rest 0"
    using inv(1) by (auto simp: seg_append split: option.splits)
  obtain m1 where m1: "set_available a 1 ?m = Some m1" "hdr_update a (b\<lparr>hd_avail := 1\<rparr>) ?m m1"
    using set_available_hdr [OF seg(2) room(1)] by blast
  have disj: "range_of a 24 \<inter> range_of bb 24 = {}" "range_of a 24 \<inter> range_of dd 24 = {}"
    using away(2) heads by auto
  have h1: "hdr m1 bb = Some h" using hdr_update_other [OF m1(2) disj(1) room(2)] seg(6) by simp
  have top: "unat a + 2 ^ (unat k + 2) \<le> 2 ^ 64" using aligned_top [OF assms(3)] assms(4) by simp
  have at: "unat bb = unat a + 2 ^ unat k" "unat dd = unat a + 2 ^ (unat k + 1)"
    using top unat_p2 [of "unat k"] unat_p2 [of "unat k + 1"] assms(4) unfolding bb_def dd_def
    by (subst unat_offset [where n = "2 ^ (unat k + 2)"]; simp)+
  have xor: "a XOR 2 ^ unat k = bb" "a XOR 2 ^ (unat k + 1) = dd"
  proof -
    have "2 ^ Suc (unat k) dvd unat a" by (rule dvd_trans [OF le_imp_power_dvd assms(3)]) simp
    then show "a XOR 2 ^ unat k = bb" using assms(4) unfolding bb_def by (intro buddy_above) simp_all
    have "2 ^ Suc (unat k + 1) dvd unat a" using assms(3) by simp
    then show "a XOR 2 ^ (unat k + 1) = dd" using assms(4) unfolding dd_def by (intro buddy_above) simp_all
  qed
  have "a < bb" using at(1) by (simp add: word_less_nat_alt)
  then obtain m2 where m2: "coalesce_loop bb a m1 = coalesce_loop dd a m2"
    "hdr_update a (b\<lparr>hd_avail := 1, hd_k := k + 1, hd_next := hd_next h\<rparr>) m1 m2"
    using coalesce_step [of m1 a "b\<lparr>hd_avail := 1\<rparr>" k bb h] m1(2) seg(4,7) room disj(1) h1 assms(4) xor(2)
    by (auto simp: hdr_update_def)
  have frame: "m2 x = ?m x" if "x \<notin> range_of a 24" for x
    using m1(2) m2(2) that by (simp add: hdr_update_def)
  have "seg m2 (hd_next h) ?rest 0"
    using seg(9) by (rule seg_frame [where ?m0.0 = ?m]) (use inv(2) away(2) heads frame in auto)
  moreover have "seg m2 (first_block st) ys a"
    using seg(1) by (rule seg_frame [where ?m0.0 = ?m]) (use inv(2) away(1) heads frame in auto)
  ultimately have list: "seg m2 (first_block st) (ys @ (a, 1, k + 1) # ?rest) 0"
    using m2(2) seg(5) by (auto simp: seg_append hdr_update_def)
  have "b_available m2 dd = Some 0" "dd \<noteq> 0"
    using \<open>seg m2 (hd_next h) ?rest 0\<close> by (auto simp: hdr_fields split: option.splits)
  then have stop: "coalesce_loop dd a m2 = Some (a, m2)" by (subst coalesce_loop.simps) simp
  have "k + 1 \<noteq> MALLOC_MAX_ORDER" using k(3) assms(4) by (auto simp: MALLOC_MAX_ORDER_def)
  moreover have "b_k m1 a = Some k" "b_k m2 a = Some (k + 1)"
    using m1(2) m2(2) seg(4) by (simp_all add: hdr_update_def hdr_fields)
  moreover have "order_size k = Some (2 ^ unat k)" using order_size_eq assms(4) by simp
  moreover have "a + SIZEOF_BLOCK \<noteq> 0"
  proof -
    have "unat (a + SIZEOF_BLOCK) = unat a + 24"
      using ok(1) bsize_min [OF k(1)] power_increasing [of 5 "unat k" "2 :: nat"] k(1)
      by (subst unat_offset [where n = "bsize k"]) (simp_all add: SIZEOF_BLOCK_def block_ok_def)
    then show ?thesis by auto
  qed
  ultimately have "free um (a + SIZEOF_BLOCK) st = Some (st\<lparr>h_mem := m2\<rparr>)"
    using m1(1) m2(1) stop xor(1) by (simp add: free_block [OF room(1)] block_coalesce_def)
  moreover have "range_of c (bsize (k - 1)) \<subseteq> range_of a (bsize (k + 1))"
  proof -
    have pow: "(2 :: nat) ^ unat k = 2 ^ (unat k - 1) + 2 ^ (unat k - 1)" "(2 :: nat) ^ (unat k + 1) = 2 ^ unat k + 2 ^ unat k"
      using six by (cases "unat k") auto
    have "unat c = unat bb + 2 ^ (unat k - 1)"
      unfolding assms(2) bb_def [symmetric]
      using aligned_top assms(4) unat_p2 [of "unat k - 1"] top at(1) pow
      by (subst unat_offset [where n = "2 ^ unat k"]) simp_all
    then show ?thesis unfolding range_of_def k using at pow by auto
  qed
  ultimately show ?thesis using list unfolding bb_def [symmetric] dd_def [symmetric] by (intro exI [of _ "st\<lparr>h_mem := m2\<rparr>"]) simp
qed

end
