(* ===== verification/Alloc_Witness.thy ===== *)
theory Alloc_Witness
  imports Alloc_Free
begin

text \<open>Heaps on which the properties of the allocator apply.\<close>

text \<open>An \<open>mmap\<close> that has one page to give, if nothing is mapped there.\<close>

definition one_page :: "umem \<Rightarrow> umem" where
  "one_page m = (\<lambda>a. if 0x200000 \<le> a \<and> a < 0x201000 then Some 0xa5 else m a)"

definition one_page_mmap :: "unit mmap_op" where
  "one_page_mmap = (\<lambda>(m, e). if range_of 0x200000 4096 \<inter> dom m = {} then Some (0x200000, one_page m, e)
     else Some (MAP_FAILED, m, e))"

definition empty_heap :: "unit heap" where
  "empty_heap = \<lparr>first_block = 0, h_mem = \<lambda>a. None, h_env = ()\<rparr>"

lemma one_page_new:
  assumes "range_of 0x200000 4096 \<inter> dom m = {}"
  shows "new_page m 0x200000 (one_page m)"
proof -
  have "(4096 :: nat) dvd 2097152" by (simp add: dvd_eq_mod_eq_0)
  with assms show ?thesis
    by (auto simp: new_page_def one_page_def range_of_def word_le_nat_alt word_less_nat_alt)
qed

lemma one_page_mmap_pages: "mmap_pages one_page_mmap"
  using one_page_new by (auto simp: mmap_pages_def one_page_mmap_def)

lemma one_page_first: "one_page_mmap (h_mem empty_heap, h_env empty_heap) = Some (0x200000, one_page (h_mem empty_heap), ())"
  by (simp add: one_page_mmap_def empty_heap_def)

theorem malloc_takes_block_witness:
  "\<exists>a k st' xs'. malloc one_page_mmap 100 empty_heap = Some ((a + SIZEOF_BLOCK, None), st') \<and>
     taken empty_heap [] a k st' xs' \<and> 124 < bsize k \<and> bsize k \<le> 248 \<and> bsize k dvd unat a"
  using malloc_takes_block [OF one_page_mmap_pages, of empty_heap "[]" 100] one_page_first
  by (simp add: heap_inv_def empty_heap_def MAP_FAILED_def)

lemma free_reads_next_page_witness:
  "\<exists>st'. malloc one_page_mmap 100 empty_heap = Some ((0x200000 + SIZEOF_BLOCK, None), st') \<and>
     free (\<lambda>p x. Some x) (0x200000 + SIZEOF_BLOCK) st' = None"
  using free_reads_next_page [of one_page_mmap empty_heap "0x200000" "one_page (h_mem empty_heap)" "()" 100 "\<lambda>p x. Some x"]
    one_page_first one_page_new [of "h_mem empty_heap"]
  by (simp add: empty_heap_def)

text \<open>A block of order 7 whose buddy has a free first half and a second half in use.\<close>

definition split_mem :: umem where
  "split_mem = (\<lambda>a. if 0x200000 \<le> a \<and> a < 0x201000 then Some
     (if a = 0x200001 then 7 else if a = 0x200010 then 0x80 else if a = 0x200012 then 0x20
      else if a = 0x200080 then 1 else if a = 0x200081 then 6 else if a = 0x200090 then 0xc0
      else if a = 0x200092 then 0x20 else if a = 0x2000c1 then 6 else if a = 0x2000d1 then 1
      else if a = 0x2000d2 then 0x20 else if a = 0x200101 then 8 else 0) else None)"

definition split_heap :: "unit heap" where
  "split_heap = \<lparr>first_block = 0x200000, h_mem = split_mem, h_env = ()\<rparr>"

lemma ld_bytes_8:
  "ld_bytes m a 8 = do {
     b0 \<leftarrow> m a; b1 \<leftarrow> m (a + 1); b2 \<leftarrow> m (a + 2); b3 \<leftarrow> m (a + 3); b4 \<leftarrow> m (a + 4);
     b5 \<leftarrow> m (a + 5); b6 \<leftarrow> m (a + 6); b7 \<leftarrow> m (a + 7); Some [b0, b1, b2, b3, b4, b5, b6, b7] }"
  by (simp add: numeral_eq_Suc add.assoc)

lemma split_hdr:
  "hdr split_mem 0x200000 = Some \<lparr>hd_avail = 0, hd_k = 7, hd_prev = 0, hd_next = 0x200080\<rparr>"
  "hdr split_mem 0x200080 = Some \<lparr>hd_avail = 1, hd_k = 6, hd_prev = 0, hd_next = 0x2000c0\<rparr>"
  "hdr split_mem 0x2000c0 = Some \<lparr>hd_avail = 0, hd_k = 6, hd_prev = 0, hd_next = 0x200100\<rparr>"
  "hdr split_mem 0x200100 = Some \<lparr>hd_avail = 0, hd_k = 8, hd_prev = 0, hd_next = 0\<rparr>"
  by (simp_all add: hdr_def b_available_def b_k_def b_prev_def b_next_def ld_bytes_8 split_mem_def)

lemma split_inv:
  "heap_inv split_mem 0x200000 [(0x200000, 0, 7), (0x200080, 1, 6), (0x2000c0, 0, 6), (0x200100, 0, 8)]"
proof -
  have dom: "dom split_mem = {a. 0x200000 \<le> a \<and> a < 0x201000}"
    by (auto simp: split_mem_def split: if_splits)
  have dvd: "(128 :: nat) dvd 2097152" "(64 :: nat) dvd 2097280" "(64 :: nat) dvd 2097344" "(256 :: nat) dvd 2097408"
    by (simp_all add: dvd_eq_mod_eq_0)
  have sub: "range_of a n \<subseteq> dom split_mem" if "2097152 \<le> unat a" "unat a + n \<le> 2101248" for a n
    using that by (auto simp: dom range_of_def word_le_nat_alt word_less_nat_alt)
  have "block_ok split_mem (0x200000, 0, 7)" "block_ok split_mem (0x200080, 1, 6)"
    "block_ok split_mem (0x2000c0, 0, 6)" "block_ok split_mem (0x200100, 0, 8)"
    using dvd by (simp_all add: block_ok_def sub)
  moreover have "sorted_wrt apart [(0x200000, 0, 7), (0x200080, 1, 6), (0x2000c0, 0, 6), (0x200100, 0, 8)]"
    by (simp add: apart_above)
  ultimately show ?thesis by (simp add: heap_inv_def split_hdr)
qed

theorem free_swallows_live_block_witness:
  "\<exists>st'. free (\<lambda>p x. Some x) (0x200000 + SIZEOF_BLOCK) split_heap = Some st' \<and>
     seg (h_mem st') 0x200000 [(0x200000, 1, 8), (0x2000c0, 0, 6), (0x200100, 0, 8)] 0 \<and>
     range_of 0x2000c0 (bsize 6) \<subseteq> range_of 0x200000 (bsize 8)"
proof -
  have inv: "heap_inv (h_mem split_heap) (first_block split_heap)
      ([] @ (0x200000, 0, 7) # (0x200000 + 2 ^ unat (7 :: u8), 1, 7 - 1) # (0x2000c0, 0, 7 - 1) #
        (0x200000 + 2 ^ (unat (7 :: u8) + 1), 0, 8) # [])"
    using split_inv by (simp add: split_heap_def)
  have "(2 :: nat) ^ (unat (7 :: u8) + 2) dvd unat (0x200000 :: u64)" by (simp add: dvd_eq_mod_eq_0)
  from free_swallows_live_block [OF inv _ this, of "\<lambda>p x. Some x"]
  obtain st' where "free (\<lambda>p x. Some x) (0x200000 + SIZEOF_BLOCK) split_heap = Some st'"
    "first_block st' = first_block split_heap"
    "seg (h_mem st') (first_block st') ([] @ (0x200000, 1, 7 + 1) # (0x2000c0, 0, 7 - 1) # (0x200000 + 2 ^ (unat (7 :: u8) + 1), 0, 8) # []) 0"
    "range_of 0x2000c0 (bsize (7 - 1)) \<subseteq> range_of 0x200000 (bsize (7 + 1))"
    by auto
  then show ?thesis by (intro exI [of _ st'] conjI) (simp_all del: seg.simps add: split_heap_def)
qed

end
