(* ===== verification/Tar.thy ===== *)
theory Tar
  imports Kernel_String
begin

text \<open>
  The tar archive of the RAM disk, which the kernel (\<^verbatim>\<open>kernel/rd.c\<close>) and the RAM disk server
  (\<^verbatim>\<open>modules/rd\<close>) both read: the fields of a header, the size of a file, and what it means that the
  archive at a position holds a list of files.

  The disk is the list of bytes from its start on; a header is a position in it. The string literal that
  the magic field is compared with is an argument \<open>lit\<close>: the object and the bytes of memory behind it,
  since the comparison reads one byte more than the literal has.
\<close>

definition USTAR :: bytes where
  "USTAR = [0x75, 0x73, 0x74, 0x61, 0x72, 0]"

definition TAR_SIZE_OFF :: nat where [layout_simps]: "TAR_SIZE_OFF = 124"
definition TAR_TYPE_OFF :: nat where [layout_simps]: "TAR_TYPE_OFF = 156"
definition TAR_MAGIC_OFF :: nat where [layout_simps]: "TAR_MAGIC_OFF = 257"
definition TAR_HEADER :: nat where [layout_simps]: "TAR_HEADER = 512"

text \<open>The loop over the digits: at most \<open>n\<close> characters, up to the first NUL.\<close>

fun octal_loop :: "bytes \<Rightarrow> nat \<Rightarrow> int \<Rightarrow> int option" where
  "octal_loop s 0 n = Some n"
| "octal_loop [] (Suc k) n = None"
| "octal_loop (c # s) (Suc k) n = (if c = 0 then Some n else octal_loop s k (n * 8 + (uint c - 48)))"

subsection \<open>Numbers in octal\<close>

text \<open>The digits of a number with \<open>k\<close> places.\<close>

fun octal :: "nat \<Rightarrow> nat \<Rightarrow> bytes" where
  "octal 0 v = []"
| "octal (Suc k) v = octal k (v div 8) @ [of_nat (48 + v mod 8)]"

lemma octal_loop_append:
  "0 \<notin> set xs \<Longrightarrow> length xs \<le> k \<Longrightarrow>
   octal_loop (xs @ ys) k n = octal_loop ys (k - length xs) (foldl (\<lambda>a c. a * 8 + (uint c - 48)) n xs)"
proof (induction xs arbitrary: k n)
  case (Cons x xs)
  then obtain j where "k = Suc j" by (cases k) auto
  with Cons show ?case by simp
qed simp

lemma octal_digit:
  assumes "d < 8"
  shows "uint (of_nat (48 + d) :: u8) - 48 = int d" "(of_nat (48 + d) :: u8) \<noteq> 0"
proof -
  have "unat (of_nat (48 + d) :: u8) = 48 + d" using assms by (simp only: unat_of_nat) simp
  then show "uint (of_nat (48 + d) :: u8) - 48 = int d" "(of_nat (48 + d) :: u8) \<noteq> 0"
    by (auto simp: uint_nat)
qed

lemma octal_nonzero: "0 \<notin> set (octal k v)"
proof (induction k arbitrary: v)
  case (Suc k)
  have "of_nat (48 + v mod 8) \<noteq> (0 :: u8)" by (rule octal_digit(2)) simp
  with Suc show ?case by simp
qed simp

lemma length_octal [simp]: "length (octal k v) = k"
  by (induction k arbitrary: v) auto

lemma octal_value:
  "v < 8 ^ k \<Longrightarrow> foldl (\<lambda>a c. a * 8 + (uint c - 48)) 0 (octal k v) = int v"
proof (induction k arbitrary: v)
  case (Suc k)
  have "v div 8 < 8 ^ k" using Suc.prems by (simp add: less_mult_imp_div_less mult.commute)
  moreover have "uint (of_nat (48 + v mod 8) :: u8) - 48 = int (v mod 8)" by (rule octal_digit) simp
  ultimately have "foldl (\<lambda>a c. a * 8 + (uint c - 48)) 0 (octal (Suc k) v) = int (v div 8) * 8 + int (v mod 8)"
    using Suc.IH by simp
  moreover have "int (v div 8) * 8 + int (v mod 8) = int v"
    by (metis div_mult_mod_eq of_nat_add of_nat_mult of_nat_numeral)
  ultimately show ?case by simp
qed simp

lemma octal_parse:
  assumes "v < 8 ^ k" "k < n"
  shows "octal_loop (octal k v @ 0 # s) n 0 = Some (int v)"
proof -
  obtain j where "n - k = Suc j" using assms(2) by (cases "n - k") auto
  then show ?thesis
    using octal_loop_append [OF octal_nonzero, of k v n "0 # s" 0] assms octal_value by simp
qed

subsection \<open>Archives\<close>

text \<open>The number of 512-byte records that a file of \<open>n\<close> bytes takes with its header.\<close>

definition tar_records :: "nat \<Rightarrow> nat" where
  "tar_records n = (n + 511) div 512 + 1"

text \<open>The header of a file with the name \<open>nm\<close>, the type \<open>ty\<close> and \<open>n\<close> bytes at position \<open>h\<close>.\<close>

definition tar_header_at :: "bytes \<Rightarrow> nat \<Rightarrow> bytes \<Rightarrow> u8 \<Rightarrow> nat \<Rightarrow> bool" where
  "tar_header_at rd h nm ty n \<longleftrightarrow> h + 512 \<le> length rd \<and> 0 \<notin> set nm \<and> length nm < 100 \<and>
     take (length nm + 1) (drop h rd) = nm @ [0] \<and> n < 8 ^ 11 \<and>
     take 12 (drop (h + 124) rd) = octal 11 n @ [0] \<and> rd ! (h + 156) = ty \<and>
     take 6 (drop (h + 257) rd) = USTAR"

text \<open>The archive from position \<open>h\<close> on: a list of files, and a record that is no header.\<close>

fun archive :: "bytes \<Rightarrow> nat \<Rightarrow> (bytes \<times> u8 \<times> bytes) list \<Rightarrow> bool" where
  "archive rd h [] \<longleftrightarrow> h + 512 \<le> length rd \<and> take 6 (drop (h + 257) rd) \<noteq> USTAR"
| "archive rd h ((nm, ty, content) # es) \<longleftrightarrow> tar_header_at rd h nm ty (length content) \<and>
     take (length content) (drop (h + 512) rd) = content \<and>
     archive rd (h + 512 * tar_records (length content)) es"

text \<open>The position of the \<open>i\<close>-th file.\<close>

fun tar_pos :: "nat \<Rightarrow> (bytes \<times> u8 \<times> bytes) list \<Rightarrow> nat \<Rightarrow> nat" where
  "tar_pos h ((nm, ty, content) # es) (Suc i) = tar_pos (h + 512 * tar_records (length content)) es i"
| "tar_pos h es i = h"

lemma archive_room: "archive rd h es \<Longrightarrow> h + 512 \<le> length rd"
  by (cases es) (auto simp: tar_header_at_def)

lemma tar_size:
  assumes "tar_header_at rd h nm ty n"
  shows "octal_loop (drop (h + 124) rd) 12 0 = Some (int n)"
proof -
  have "drop (h + 124) rd = octal 11 n @ 0 # drop 12 (drop (h + 124) rd)"
    using assms append_take_drop_id [of 12 "drop (h + 124) rd"] by (simp add: tar_header_at_def)
  then show ?thesis using octal_parse [of n 11 12] assms by (simp add: tar_header_at_def)
qed

lemma tar_name:
  assumes "tar_header_at rd h nm ty n"
  shows "c_str (drop h rd) = nm" "terminated (drop h rd)"
proof -
  have "drop h rd = nm @ 0 # drop (length nm + 1) (drop h rd)"
    using assms append_take_drop_id [of "length nm + 1" "drop h rd"] by (simp add: tar_header_at_def)
  then obtain t where t: "drop h rd = nm @ 0 # t" by blast
  show "c_str (drop h rd) = nm" using assms by (simp add: t c_str_append_nul tar_header_at_def)
  show "terminated (drop h rd)" by (simp add: t terminated_def)
qed

lemma archive_content:
  "archive rd h es \<Longrightarrow> i < length es \<Longrightarrow>
   take (length (snd (snd (es ! i)))) (drop (tar_pos h es i + 512) rd) = snd (snd (es ! i))"
proof (induction i arbitrary: h es)
  case 0
  then show ?case by (cases es) auto
next
  case (Suc i)
  then show ?case by (cases es) auto
qed

subsection \<open>Writing archives\<close>

definition tar_field :: "nat \<Rightarrow> bytes \<Rightarrow> bytes" where
  "tar_field n bs = bs @ replicate (n - length bs) 0"

definition tar_header :: "bytes \<Rightarrow> u8 \<Rightarrow> nat \<Rightarrow> bytes" where
  "tar_header nm ty n = tar_field 124 nm @ octal 11 n @ tar_field 21 [] @ ty # tar_field 100 [] @ tar_field 255 USTAR"

definition tar_file :: "bytes \<times> u8 \<times> bytes \<Rightarrow> bytes" where
  "tar_file = (\<lambda>(nm, ty, content).
     tar_header nm ty (length content) @ tar_field (512 * (tar_records (length content) - 1)) content)"

definition tar_disk :: "(bytes \<times> u8 \<times> bytes) list \<Rightarrow> bytes" where
  "tar_disk es = concat (map tar_file es) @ tar_field 512 []"

definition tar_file_ok :: "bytes \<times> u8 \<times> bytes \<Rightarrow> bool" where
  "tar_file_ok = (\<lambda>(nm, ty, content). 0 \<notin> set nm \<and> length nm < 100 \<and> length content < 8 ^ 11)"

lemma length_tar_field [simp]: "length (tar_field n bs) = max n (length bs)"
  by (auto simp: tar_field_def)

lemma length_tar_header: "length nm < 100 \<Longrightarrow> length (tar_header nm ty n) = 512"
  by (simp add: tar_header_def USTAR_def)

lemma length_tar_file:
  assumes "tar_file_ok (nm, ty, content)"
  shows "length (tar_file (nm, ty, content)) = 512 * tar_records (length content)"
proof -
  have "length content \<le> 512 * ((length content + 511) div 512)"
    using dividend_less_times_div [of 512 "length content + 511"] by simp
  then show ?thesis using assms by (simp add: tar_file_def tar_file_ok_def length_tar_header tar_records_def)
qed

lemma tar_header_ok:
  assumes "0 \<notin> set nm" "length nm < 100" "n < 8 ^ 11"
  shows "tar_header_at (pre @ tar_header nm ty n @ post) (length pre) nm ty n"
proof -
  let ?h = "tar_header nm ty n"
  have len: "length ?h = 512" by (rule length_tar_header) fact
  obtain k where k: "124 - length nm = Suc k" using assms(2) by (cases "124 - length nm") auto
  have "take (length nm + 1) ?h = nm @ [0]" by (simp add: tar_header_def tar_field_def k)
  moreover have "take 12 (drop 124 ?h) = octal 11 n @ [0]"
    using assms(2) by (simp add: tar_header_def tar_field_def)
  moreover have "?h ! 156 = ty" using assms(2) by (simp add: tar_header_def nth_append)
  moreover have "take 6 (drop 257 ?h) = USTAR"
    using assms(2) by (simp add: tar_header_def tar_field_def USTAR_def)
  ultimately show ?thesis using assms len
    by (simp add: tar_header_at_def nth_append)
qed

lemma archive_disk: "\<forall>e\<in>set es. tar_file_ok e \<Longrightarrow> archive (pre @ tar_disk es) (length pre) es"
proof (induction es arbitrary: pre)
  case Nil
  have "replicate 6 0 \<noteq> USTAR"
  proof
    assume "replicate 6 0 = USTAR"
    then have "hd (replicate 6 0) = hd USTAR" by simp
    then show False by (simp add: USTAR_def)
  qed
  then show ?case by (simp add: tar_disk_def tar_field_def)
next
  case (Cons e es)
  obtain nm ty content where e: "e = (nm, ty, content)" by (cases e)
  have ok: "tar_file_ok (nm, ty, content)" using Cons.prems by (simp add: e)
  define post where "post = tar_field (512 * (tar_records (length content) - 1)) content @ tar_disk es"
  have disk: "tar_disk (e # es) = tar_header nm ty (length content) @ post"
    by (simp add: tar_disk_def tar_file_def e post_def)
  have "take (length content) post = content" by (simp add: post_def tar_field_def)
  then have "take (length content) (drop (length pre + 512) (pre @ tar_disk (e # es))) = content"
    using ok by (simp add: disk tar_file_ok_def length_tar_header)
  moreover have "tar_header_at (pre @ tar_disk (e # es)) (length pre) nm ty (length content)"
    using tar_header_ok [of nm "length content" pre ty post] ok by (simp add: disk tar_file_ok_def)
  moreover have "archive ((pre @ tar_file e) @ tar_disk es) (length (pre @ tar_file e)) es"
    by (rule Cons.IH) (use Cons.prems in simp)
  then have "archive (pre @ tar_disk (e # es)) (length pre + 512 * tar_records (length content)) es"
    using length_tar_file [OF ok] by (simp add: e tar_disk_def)
  ultimately show ?case unfolding e by simp
qed

text \<open>A disk with one file, \<open>ab\<close>, of three bytes.\<close>

definition small_archive :: bytes where
  "small_archive = tar_disk [([0x61, 0x62], 0x30, [1, 2, 3])]"

lemma small_archive_ok: "archive small_archive 0 [([0x61, 0x62], 0x30, [1, 2, 3])]"
  using archive_disk [of "[([0x61, 0x62], 0x30, [1, 2, 3])]" "[]"] by (simp add: small_archive_def tar_file_ok_def)

end
