(* ===== verification/Kernel_Rd.thy ===== *)
theory Kernel_Rd
  imports Tar "HOL-Library.Signed_Division"
begin

text \<open>
  The RAM disk of the kernel (\<^verbatim>\<open>kernel/rd.c\<close>). A result \<open>Some None\<close> is the null pointer.
\<close>

definition get_size_k :: "bytes \<Rightarrow> nat \<Rightarrow> int option" where
  "get_size_k rd h = octal_loop (drop (h + TAR_SIZE_OFF) rd) 12 0"

partial_function (option) rd_lookup_loop :: "bytes \<Rightarrow> bytes \<Rightarrow> bytes \<Rightarrow> nat \<Rightarrow> nat option option" where
  "rd_lookup_loop lit rd filename h = do {
     r \<leftarrow> memcmp_k (drop (h + TAR_MAGIC_OFF) rd) lit 6;
     if r = 0 then do {
       e \<leftarrow> strncmp_k (drop h rd) filename 100;
       if e = 0 then Some (Some (h + TAR_HEADER))
       else do {
         sz \<leftarrow> get_size_k rd h;
         let blocks = (sz + 511) sdiv 512 + 1;
         let h' = int h + blocks * int TAR_HEADER;
         if h' < 0 then None else rd_lookup_loop lit rd filename (nat h') } }
     else Some None }"

definition rd_lookup :: "bytes \<Rightarrow> bytes \<Rightarrow> bytes \<Rightarrow> nat option option" where
  "rd_lookup lit rd filename = rd_lookup_loop lit rd filename 0"

lemma rd_lookup_step:
  assumes "tar_header_at rd h nm ty n" "take 6 lit = USTAR" "6 < length lit" "terminated filename"
    and "length (c_str filename) < 100"
  shows "rd_lookup_loop lit rd filename h =
    (if nm = c_str filename then Some (Some (h + 512)) else rd_lookup_loop lit rd filename (h + 512 * tar_records n))"
proof -
  obtain d where d: "memcmp_k (drop (h + 257) rd) lit 6 = Some d" "d = 0"
    using memcmp_k_zero [of 6 "drop (h + 257) rd" lit] assms(1-3) by (auto simp: tar_header_at_def)
  obtain e where e: "strncmp_k (drop h rd) filename 100 = Some e"
    "e = 0 \<longleftrightarrow> take 100 nm = take 100 (c_str filename)"
    using strncmp_k_spec [OF tar_name(2) [OF assms(1)] assms(4), of 100] tar_name(1) [OF assms(1)] by auto
  have "e = 0 \<longleftrightarrow> nm = c_str filename" using e(2) assms(1,5) by (simp add: tar_header_at_def)
  moreover have "(int n + 511) sdiv 512 = int ((n + 511) div 512)"
    by (simp add: signed_divide_int_def zdiv_int)
  ultimately show ?thesis
    using d e(1) tar_size [OF assms(1)]
    by (subst rd_lookup_loop.simps) (simp add: layout_simps get_size_k_def tar_records_def nat_add_distrib nat_mult_distrib mult.commute add.commute)
qed

lemma rd_lookup_archive:
  assumes "archive rd h es" "take 6 lit = USTAR" "6 < length lit" "terminated filename" "length (c_str filename) < 100"
  shows "rd_lookup_loop lit rd filename h =
    Some (map_option (\<lambda>i. tar_pos h es i + 512) (first_index (\<lambda>(nm, ty, content). nm = c_str filename) es))"
  using assms(1)
proof (induction es arbitrary: h)
  case Nil
  then obtain d where "memcmp_k (drop (h + 257) rd) lit 6 = Some d" "d \<noteq> 0"
    using memcmp_k_zero [of 6 "drop (h + 257) rd" lit] assms(2,3) by (auto simp: less_diff_conv)
  then show ?case by (subst rd_lookup_loop.simps) (simp add: layout_simps)
next
  case (Cons e es)
  obtain nm ty content where e: "e = (nm, ty, content)" by (cases e)
  show ?case
    using Cons.prems Cons.IH rd_lookup_step [OF _ assms(2-5)]
    by (auto simp: e option.map_comp o_def)
qed

text \<open>
  On an archive, \<open>rd_lookup\<close> returns for every name: a pointer to the contents of the first file with
  exactly that name, or null when there is none.
\<close>

lemma rd_lookup_finds:
  assumes "archive rd 0 es" "take 6 lit = USTAR" "6 < length lit" "terminated filename" "length (c_str filename) < 100"
  shows "case first_index (\<lambda>(nm, ty, content). nm = c_str filename) es of
      None \<Rightarrow> rd_lookup lit rd filename = Some None
    | Some i \<Rightarrow> \<exists>p. rd_lookup lit rd filename = Some (Some p) \<and>
        take (length (snd (snd (es ! i)))) (drop p rd) = snd (snd (es ! i))"
  using rd_lookup_archive [OF assms] archive_content [OF assms(1)]
  by (auto simp: rd_lookup_def split: option.split dest: first_index_Some)

lemma rd_lookup_finds_witness:
  "\<exists>p. rd_lookup (USTAR @ [0]) small_archive [0x61, 0x62, 0] = Some (Some p) \<and>
     take 3 (drop p small_archive) = [1, 2, 3]"
  using rd_lookup_finds [OF small_archive_ok, of "USTAR @ [0]" "[0x61, 0x62, 0]"]
  by (simp add: USTAR_def numeral_3_eq_3)

end
