(* ===== verification/Rd.thy ===== *)
theory Rd
  imports Tar Fcall
begin

text \<open>
  The files of the RAM disk server (\<^verbatim>\<open>modules/rd/rd.c\<close>), on the archive of \<^theory_text>\<open>Tar\<close>. A header is its position
  on the disk; \<open>lit\<close> is the literal that the magic field is compared with, \<open>malloc\<close> the object that an
  allocation returns. A destination is the list of bytes from the pointer on, returned as it is afterwards.
\<close>

definition strdup_c :: "(nat \<Rightarrow> bytes option) \<Rightarrow> bytes \<Rightarrow> bytes option option" where
  "strdup_c malloc s = do {
     len \<leftarrow> strlen_c s;
     case malloc (len + 1) of None \<Rightarrow> Some None
     | Some r \<Rightarrow> map_option Some (memcpy_c r s (len + 1)) }"

definition RDT_FILE :: u8 where [layout_simps]: "RDT_FILE = 0x30"
definition RDT_HLINK :: u8 where [layout_simps]: "RDT_HLINK = 0x31"
definition RDT_SLINK :: u8 where [layout_simps]: "RDT_SLINK = 0x32"
definition RDT_CHDEV :: u8 where [layout_simps]: "RDT_CHDEV = 0x33"
definition RDT_BLCK :: u8 where [layout_simps]: "RDT_BLCK = 0x34"
definition RDT_DIR :: u8 where [layout_simps]: "RDT_DIR = 0x35"
definition RDT_FIFO :: u8 where [layout_simps]: "RDT_FIFO = 0x36"

definition QTFILE :: u32 where [layout_simps]: "QTFILE = 0"
definition QTDIR :: u32 where [layout_simps]: "QTDIR = 0x80000000"

definition GET_BLOCKS :: "u64 \<Rightarrow> u64" where
  "GET_BLOCKS sz = (sz + 511) div 512 + 1"

definition is_header :: "bytes \<Rightarrow> bytes \<Rightarrow> nat \<Rightarrow> bool option" where
  "is_header lit rd h = map_option (\<lambda>r. r = 0) (memcmp_c (drop (h + TAR_MAGIC_OFF) rd) lit 6)"

definition is_child :: "bytes \<Rightarrow> nat \<Rightarrow> nat \<Rightarrow> bool option" where
  "is_child rd parent child = do {
     parent_depth \<leftarrow> strcnt_c (drop parent rd) 0x2f;
     child_depth \<leftarrow> strcnt_c (drop child rd) 0x2f;
     len \<leftarrow> strlen_c (drop parent rd);
     r \<leftarrow> memcmp_c (drop parent rd) (drop child rd) len;
     if r \<noteq> 0 then Some False
     else do {
       ty \<leftarrow> rd_at rd (child + TAR_TYPE_OFF);
       let depth = (of_nat child_depth - of_nat parent_depth :: u64);
       Some (\<not> (ty = RDT_DIR \<and> depth \<noteq> 1) \<and> \<not> (ty = RDT_FILE \<and> depth \<noteq> 0)) } }"

definition rd_get_size :: "bytes \<Rightarrow> bytes \<Rightarrow> nat \<Rightarrow> u64 option" where
  "rd_get_size lit rd h = do {
     ok \<leftarrow> is_header lit rd h;
     if \<not> ok then Some 0
     else map_option of_int (octal_loop (drop (h + TAR_SIZE_OFF) rd) 12 0) }"

text \<open>\<open>header += GET_BLOCKS(rd_get_size(header))\<close>\<close>

definition next_header :: "bytes \<Rightarrow> bytes \<Rightarrow> nat \<Rightarrow> nat option" where
  "next_header lit rd h = map_option (\<lambda>sz. h + TAR_HEADER * unat (GET_BLOCKS sz)) (rd_get_size lit rd h)"

partial_function (option) rd_find_loop :: "bytes \<Rightarrow> bytes \<Rightarrow> bytes \<Rightarrow> nat \<Rightarrow> nat option" where
  "rd_find_loop lit rd path h = do {
     ok \<leftarrow> is_header lit rd h;
     if \<not> ok then Some h
     else do {
       len \<leftarrow> pstr_len path;
       r \<leftarrow> memcmp_c (drop 2 path) (drop (h + 1) rd) len;
       if r = 0 then Some h
       else do { h' \<leftarrow> next_header lit rd h; rd_find_loop lit rd path h' } } }"

definition rd_find :: "bytes \<Rightarrow> bytes \<Rightarrow> bytes \<Rightarrow> nat option option" where
  "rd_find lit rd path = do {
     h \<leftarrow> rd_find_loop lit rd path 0;
     ok \<leftarrow> is_header lit rd h;
     Some (if ok then Some h else None) }"

definition rd_get_name :: "(nat \<Rightarrow> bytes option) \<Rightarrow> bytes \<Rightarrow> nat \<Rightarrow> bytes \<Rightarrow> nat \<Rightarrow> (nat \<times> bytes) option" where
  "rd_get_name malloc rd h buf n = do {
     dup \<leftarrow> strdup_c malloc (drop h rd);
     temp \<leftarrow> dup;
     slash \<leftarrow> strrchr_c temp 0x2f;
     pos \<leftarrow> slash;
     c \<leftarrow> rd_at temp (pos + 1);
     (temp', pos') \<leftarrow> (if c = 0 then do {
         cut \<leftarrow> wr_at temp pos 0;
         slash' \<leftarrow> strrchr_c cut 0x2f;
         p \<leftarrow> slash';
         Some (cut, p) }
       else Some (temp, pos));
     res \<leftarrow> pstrconv malloc (Some buf) (drop (pos' + 1) temp') n;
     pstr \<leftarrow> res;
     len \<leftarrow> pstrlen pstr;
     Some (len, pstr) }"

definition rd_get_type :: "bytes \<Rightarrow> nat \<Rightarrow> u32 option" where
  "rd_get_type rd h = do {
     ty \<leftarrow> rd_at rd (h + TAR_TYPE_OFF);
     Some (if ty \<in> {RDT_FILE, RDT_HLINK, RDT_SLINK, RDT_CHDEV, RDT_BLCK, RDT_FIFO} then QTFILE
       else if ty = RDT_DIR then QTDIR else -1) }"

text \<open>\<open>stat\<close> is written field by field, each after the room for it has been checked.\<close>

definition rd_get_stat ::
    "(nat \<Rightarrow> bytes option) \<Rightarrow> bytes \<Rightarrow> bytes \<Rightarrow> nat \<Rightarrow> bytes \<Rightarrow> u64 \<Rightarrow> (nat \<times> bytes) option" where
  "rd_get_stat malloc lit rd h stat n =
     (if unat n < 16 then Some (0, stat)
      else do {
        ty \<leftarrow> rd_get_type rd h;
        stat1 \<leftarrow> wr_bytes stat 0 (le_bytes 4 (unat ty));
        stat2 \<leftarrow> wr_bytes stat1 4 (le_bytes 4 0);
        stat3 \<leftarrow> wr_bytes stat2 8 (le_bytes 8 0);
        if unat n < 24 then Some (0, stat3)
        else do {
          sz \<leftarrow> rd_get_size lit rd h;
          stat4 \<leftarrow> wr_bytes stat3 16 (le_bytes 8 (unat sz));
          (res, name) \<leftarrow> rd_get_name malloc rd h (drop 24 stat4) (unat n - 24);
          let stat5 = take 24 stat4 @ name;
          Some (if res = 0 \<or> unat n < 24 + res then 0 else 24 + res, stat5) } })"

partial_function (option) read_dir_loop ::
    "(nat \<Rightarrow> bytes option) \<Rightarrow> bytes \<Rightarrow> bytes \<Rightarrow> nat \<Rightarrow> nat \<Rightarrow> bytes \<Rightarrow> nat \<Rightarrow> u32 \<Rightarrow> u64 \<Rightarrow> u32 \<Rightarrow> u64 \<Rightarrow>
     (nat \<times> bytes) option" where
  "read_dir_loop malloc lit rd header child buf written index offset count n = do {
     ok \<leftarrow> is_header lit rd child;
     if \<not> ok then Some (written, buf)
     else do {
       mine \<leftarrow> is_child rd header child;
       if \<not> mine then do {
         child' \<leftarrow> next_header lit rd child;
         read_dir_loop malloc lit rd header child' buf written index offset count n }
       else do {
         (stop, written', buf') \<leftarrow> (if offset < ucast index then do {
             (res, tail) \<leftarrow> rd_get_stat malloc lit rd child (drop written buf) (n - of_nat written);
             let buf1 = take written buf @ tail;
             Some (res = 0, written + res, buf1) }
           else Some (False, written, buf));
         if stop then Some (written', buf')
         else if ucast (index + 1) = offset - ucast count then Some (written', buf')
         else do {
           child' \<leftarrow> next_header lit rd child;
           read_dir_loop malloc lit rd header child' buf' written' (index + 1) offset count n } } } }"

definition rd_read_dir ::
    "(nat \<Rightarrow> bytes option) \<Rightarrow> bytes \<Rightarrow> bytes \<Rightarrow> nat \<Rightarrow> bytes \<Rightarrow> u64 \<Rightarrow> u32 \<Rightarrow> u64 \<Rightarrow> (nat \<times> bytes) option" where
  "rd_read_dir malloc lit rd header buf offset count n = do {
     child \<leftarrow> next_header lit rd header;
     read_dir_loop malloc lit rd header child buf 0 0 offset count n }"

definition rd_read_file :: "bytes \<Rightarrow> bytes \<Rightarrow> nat \<Rightarrow> bytes \<Rightarrow> u64 \<Rightarrow> u32 \<Rightarrow> (u32 \<times> bytes) option" where
  "rd_read_file lit rd header buf offset count = do {
     file_size \<leftarrow> rd_get_size lit rd header;
     let len = (if offset + ucast count < file_size then count else ucast (file_size - offset));
     buf' \<leftarrow> memcpy_c buf (drop (header + TAR_HEADER + unat offset) rd) (unat len);
     Some (len, buf') }"

subsection \<open>Looking up a file\<close>

lemma memcmp_c_zero:
  assumes "n < length l" "n < length r"
  shows "\<exists>d. memcmp_c l r n = Some d \<and> (d = 0 \<longleftrightarrow> take n l = take n r)"
  using assms
proof (induction l r n rule: memcmp_c.induct)
  case (1 l ls r rs n)
  then show ?case by (cases n) auto
qed auto

lemma is_header_at:
  assumes "take 6 lit = USTAR" "6 < length lit" "h + 512 \<le> length rd"
  shows "is_header lit rd h = Some (take 6 (drop (h + 257) rd) = USTAR)"
  using memcmp_c_zero [of 6 "drop (h + 257) rd" lit] assms by (auto simp: is_header_def layout_simps)

lemma next_header_at:
  assumes "tar_header_at rd h nm ty n" "take 6 lit = USTAR" "6 < length lit"
  shows "rd_get_size lit rd h = Some (of_nat n)" "next_header lit rd h = Some (h + 512 * tar_records n)"
proof -
  show sz: "rd_get_size lit rd h = Some (of_nat n)"
    using is_header_at [OF assms(2,3)] tar_size [OF assms(1)] assms(1)
    by (simp add: rd_get_size_def layout_simps tar_header_at_def)
  have n: "n < 8589934592" using assms(1) by (simp add: tar_header_at_def)
  then have "unat (of_nat n + 511 :: u64) = n + 511"
    by (subst unat_add_no_overflow) (simp_all add: unat_of_nat)
  then have "unat (GET_BLOCKS (of_nat n)) = tar_records n"
    using n unfolding GET_BLOCKS_def tar_records_def
    by (subst unat_add_no_overflow) (simp_all add: unat_div)
  then show "next_header lit rd h = Some (h + 512 * tar_records n)"
    by (simp add: next_header_def sz layout_simps)
qed

lemma take_nul_eq:
  assumes "0 \<notin> set cs"
  shows "take (length cs) (nm @ (0 :: u8) # rest) = cs \<longleftrightarrow> take (length cs) nm = cs"
proof (cases "length cs \<le> length nm")
  case False
  then obtain k where k: "length cs - length nm = Suc k" by (cases "length cs - length nm") auto
  have "take (length cs) (nm @ 0 # rest) \<noteq> cs"
  proof
    assume eq: "take (length cs) (nm @ 0 # rest) = cs"
    have "0 \<in> set (take (length cs) (nm @ 0 # rest))" by (simp add: k)
    then show False using assms unfolding eq by simp
  qed
  moreover have "length (take (length cs) nm) < length cs" using False by simp
  ultimately show ?thesis by force
qed simp

lemma name_match:
  assumes "tar_header_at rd h nm ty n" "nm \<noteq> []" "0 \<notin> set cs" "cs \<noteq> []" "length cs < 100"
  shows "\<exists>d. memcmp_c (cs @ x # t) (drop (h + 1) rd) (length cs) = Some d \<and>
    (d = 0 \<longleftrightarrow> take (length cs) (tl nm) = cs)"
proof -
  define rest where "rest = drop (length nm + 1) (drop h rd)"
  have "drop h rd = nm @ 0 # rest"
    using assms(1) append_take_drop_id [of "length nm + 1" "drop h rd"] by (simp add: tar_header_at_def rest_def)
  then have "drop 1 (drop h rd) = tl nm @ 0 # rest"
    using assms(2) by (cases nm) simp_all
  then have "drop (h + 1) rd = tl nm @ 0 # rest" by simp
  moreover have "take (length cs) (tl nm @ 0 # rest) = cs \<longleftrightarrow> take (length cs) (tl nm) = cs"
    by (rule take_nul_eq) (rule assms(3))
  moreover have "length cs < length (drop (h + 1) rd)"
  proof -
    have "h + 512 \<le> length rd" using assms(1) by (simp add: tar_header_at_def)
    then show ?thesis using assms(5) unfolding length_drop by linarith
  qed
  ultimately show ?thesis
    using memcmp_c_zero [of "length cs" "cs @ x # t" "drop (h + 1) rd"] by (auto simp: eq_commute)
qed

lemma drop_2_pstr_append: "drop 2 (pstr cs @ s) = cs @ s"
  by (simp add: pstr_def)

lemma rd_find_step:
  assumes "tar_header_at rd h nm ty n" "nm \<noteq> []" "take 6 lit = USTAR" "6 < length lit"
    and "0 \<notin> set cs" "cs \<noteq> []" "length cs < 100"
  shows "rd_find_loop lit rd (pstr cs @ x # t) h =
    (if take (length cs) (tl nm) = cs then Some h
     else rd_find_loop lit rd (pstr cs @ x # t) (h + 512 * tar_records n))"
proof -
  have "is_header lit rd h = Some True"
    using is_header_at [OF assms(3,4), of h rd] assms(1) by (simp add: tar_header_at_def)
  moreover obtain d where "memcmp_c (cs @ x # t) (drop (h + 1) rd) (length cs) = Some d"
      "d = 0 \<longleftrightarrow> take (length cs) (tl nm) = cs"
    using name_match [OF assms(1,2,5,6,7), of x t] by blast
  ultimately show ?thesis
    using next_header_at(2) [OF assms(1,3,4)] assms(7)
    by (subst rd_find_loop.simps) (simp add: drop_2_pstr_append)
qed

text \<open>A file matches a path when the path is a prefix of its name without the first character.\<close>

definition rd_matches :: "bytes \<Rightarrow> bytes \<times> u8 \<times> bytes \<Rightarrow> bool" where
  "rd_matches cs = (\<lambda>(nm, ty, content). take (length cs) (tl nm) = cs)"

lemma rd_find_archive:
  assumes "archive rd h es" "\<forall>e\<in>set es. fst e \<noteq> []" "take 6 lit = USTAR" "6 < length lit"
    and "0 \<notin> set cs" "cs \<noteq> []" "length cs < 100"
  shows "\<exists>h'. rd_find_loop lit rd (pstr cs @ x # t) h = Some h' \<and>
    (case first_index (rd_matches cs) es of
       None \<Rightarrow> is_header lit rd h' = Some False
     | Some i \<Rightarrow> h' = tar_pos h es i \<and> is_header lit rd h' = Some True)"
  using assms(1,2)
proof (induction es arbitrary: h)
  case Nil
  then have "is_header lit rd h = Some False" using is_header_at [OF assms(3,4), of h rd] by simp
  then show ?case by (subst rd_find_loop.simps) simp
next
  case (Cons e es)
  obtain nm ty content where e: "e = (nm, ty, content)" by (cases e)
  have at: "tar_header_at rd h nm ty (length content)" and nm: "nm \<noteq> []" using Cons.prems by (simp_all add: e)
  have "is_header lit rd h = Some True"
    using is_header_at [OF assms(3,4), of h rd] at by (simp add: tar_header_at_def)
  then show ?case
    using Cons.prems Cons.IH [of "h + 512 * tar_records (length content)"] rd_find_step [OF at nm assms(3-7), of x t]
    by (auto simp: e rd_matches_def split: option.split option.split_asm)
qed

text \<open>
  \<open>rd_find\<close> on an archive: it returns the first file whose name, without its first character, begins
  with the path, and null when there is none. The match is not required to end at the end of the name.
\<close>

lemma rd_find_first_prefix:
  assumes "archive rd 0 es" "\<forall>e\<in>set es. fst e \<noteq> []" "take 6 lit = USTAR" "6 < length lit"
    and "0 \<notin> set cs" "cs \<noteq> []" "length cs < 100"
  shows "rd_find lit rd (pstr cs @ x # t) = Some (map_option (tar_pos 0 es) (first_index (rd_matches cs) es))"
  using rd_find_archive [OF assms, of x t]
  by (cases "first_index (rd_matches cs) es") (auto simp: rd_find_def)

lemma rd_find_first_prefix_witness:
  "rd_find (USTAR @ [0]) small_archive (pstr [0x62] @ [0]) = Some (Some 0)"
  using rd_find_first_prefix [OF small_archive_ok, of "USTAR @ [0]" "[0x62]" 0 "[]"]
  by (simp add: USTAR_def rd_matches_def)

subsection \<open>Reading a file\<close>

lemma archive_header:
  "archive rd h es \<Longrightarrow> i < length es \<Longrightarrow> es ! i = (nm, ty, content) \<Longrightarrow>
   tar_header_at rd (tar_pos h es i) nm ty (length content)"
proof (induction i arbitrary: h es)
  case 0
  then show ?case by (cases es) auto
next
  case (Suc i)
  then show ?case by (cases es) auto
qed

lemma archive_drop:
  "archive rd h es \<Longrightarrow> i < length es \<Longrightarrow>
   archive rd (tar_pos h es i + 512 * tar_records (length (snd (snd (es ! i))))) (drop (Suc i) es)"
proof (induction i arbitrary: h es)
  case 0
  then show ?case by (cases es) auto
next
  case (Suc i)
  then show ?case by (cases es) auto
qed

lemma copy_bytes_room: "copy_bytes d s p n = Some d' \<Longrightarrow> length d' = length d \<and> (n = 0 \<or> p + n \<le> length d)"
proof (induction n arbitrary: d p)
  case (Suc n)
  then obtain c where "copy_bytes (d[p := c]) s (p + 1) n = Some d'" "p < length d"
    by (auto simp: wr_at_def split: bind_splits if_splits)
  with Suc.IH [of "d[p := c]" "p + 1"] show ?case by (cases n) auto
qed simp

lemma copy_longs_room: "copy_longs d s p n = Some d' \<Longrightarrow> n = 0 \<or> p + 8 * n \<le> length d"
proof (induction n arbitrary: d p)
  case (Suc n)
  define w where "w = take 8 (drop p s)"
  obtain d1 where w: "wr_bytes d p w = Some d1" "copy_longs d1 s (p + 8) n = Some d'" "length w = 8"
    using Suc.prems by (auto simp: rd_bytes_def w_def split: bind_splits if_splits)
  then have "length d1 = length d" "p + 8 \<le> length d" by (auto simp: wr_bytes_def split: if_splits)
  with w(2) Suc.IH [of d1 "p + 8"] show ?case by (cases n) auto
qed simp

lemma memcpy_c_room: "memcpy_c d s n = Some d' \<Longrightarrow> n \<le> length d"
proof -
  assume eq: "memcpy_c d s n = Some d'"
  define r where "r = (if n mod 8 = 0 then 8 else n mod 8)"
  show ?thesis
  proof (cases "n = 0")
    case False
    then obtain d1 where d1: "copy_bytes d s 0 r = Some d1" "copy_longs d1 s r ((n + 7) div 8 - 1) = Some d'"
      using eq by (auto simp: memcpy_c_def r_def Let_def split: bind_splits)
    have "n \<le> r + 8 * ((n + 7) div 8 - 1) \<and> 0 < r"
    proof (cases "n mod 8 = 0")
      case True
      then show ?thesis using False by (simp add: r_def)
    next
      case False
      have "n = 8 * (n div 8) + n mod 8" by simp
      moreover have "(n + 7) div 8 = n div 8 + 1" using False by (simp add: div_add1_eq [of n 7])
      ultimately show ?thesis using False by (simp add: r_def)
    qed
    then show ?thesis using copy_bytes_room [OF d1(1)] copy_longs_room [OF d1(2)] by auto
  qed simp
qed

lemma archive_file:
  assumes "archive rd 0 es" "i < length es" "es ! i = (nm, ty, content)" "take 6 lit = USTAR" "6 < length lit"
  shows "rd_get_size lit rd (tar_pos 0 es i) = Some (of_nat (length content))"
    "take (length content) (drop (tar_pos 0 es i + 512) rd) = content"
    "unat (of_nat (length content) :: u64) = length content"
proof -
  note hd = archive_header [OF assms(1-3)]
  show "rd_get_size lit rd (tar_pos 0 es i) = Some (of_nat (length content))"
    by (rule next_header_at(1) [OF hd assms(4,5)])
  show "take (length content) (drop (tar_pos 0 es i + 512) rd) = content"
    using archive_content [OF assms(1,2)] assms(3) by simp
  have "length content < 8589934592" using hd by (simp add: tar_header_at_def)
  then show "unat (of_nat (length content) :: u64) = length content" by (simp add: unat_of_nat)
qed

lemma rd_read_file_slice_eq:
  assumes "archive rd 0 es" "i < length es" "es ! i = (nm, ty, content)" "take 6 lit = USTAR" "6 < length lit"
    and "unat off \<le> length content" "length content < 4294967296"
    and "min (unat count) (length content - unat off) \<le> length buf"
  shows "let k = min (unat count) (length content - unat off) in
    rd_read_file lit rd (tar_pos 0 es i) buf off count =
      Some (of_nat k, take k (drop (unat off) content) @ drop k buf)"
proof -
  let ?h = "tar_pos 0 es i" and ?n = "of_nat (length content) :: u64"
  note f = archive_file [OF assms(1-5)]
  define k where "k = min (unat count) (length content - unat off)"
  have "unat count < 4294967296" using unsigned_less [of count, where 'a = nat] by simp
  then have "unat (off + ucast count) = unat off + unat count"
    using assms(6,7) by (subst unat_add_no_overflow) (simp_all add: unsigned_ucast_eq take_bit_nat_eq_self)
  then have lt: "off + ucast count < ?n \<longleftrightarrow> unat off + unat count < length content"
    by (simp add: word_less_nat_alt f(3))
  have sub: "unat (?n - off) = length content - unat off"
    using assms(6) f(3) by (simp add: unat_sub word_le_nat_alt)
  have len: "(if off + ucast count < ?n then count else ucast (?n - off)) = (of_nat k :: u32)"
  proof (cases "unat off + unat count < length content")
    case True
    then show ?thesis by (simp add: lt k_def)
  next
    case False
    then have "k = unat (?n - off)" by (simp add: k_def sub)
    then show ?thesis using False by (simp add: lt)
  qed
  have k: "k < 4294967296" using assms(7) by (simp add: k_def)
  have "take k (drop (?h + 512 + unat off) rd) = take k (drop (unat off) content)"
  proof -
    have "drop (unat off) content = take (length content - unat off) (drop (unat off) (drop (?h + 512) rd))"
      using f(2) by (metis drop_take)
    then show ?thesis by (simp add: k_def add.commute min.absorb1 flip: drop_drop)
  qed
  moreover have "k \<le> length (drop (?h + 512 + unat off) rd)"
  proof -
    have "length content \<le> length (drop (?h + 512) rd)" using arg_cong [OF f(2), of length] by simp
    then show ?thesis using assms(6) by (simp add: k_def)
  qed
  ultimately have "memcpy_c buf (drop (?h + 512 + unat off) rd) k =
      Some (take k (drop (unat off) content) @ drop k buf)"
    using assms(8) by (simp add: memcpy_c_eq k_def)
  then show ?thesis
    using k by (simp add: rd_read_file_def f(1) len Let_def layout_simps unat_of_nat k_def [symmetric])
qed

text \<open>
  Reading a file inside its bounds: from any offset up to the size the answer is the bytes of the
  contents from there on, as many as asked for and as there are, at the front of the buffer.
\<close>

lemma rd_read_file_slice:
  assumes "archive rd 0 es" "i < length es" "es ! i = (nm, ty, content)" "take 6 lit = USTAR" "6 < length lit"
    and "unat off \<le> length content" "length content < 4294967296"
    and "min (unat count) (length content - unat off) \<le> length buf"
  shows "let k = min (unat count) (length content - unat off) in
    rd_read_file lit rd (tar_pos 0 es i) buf off count =
      Some (of_nat k, take k (drop (unat off) content) @ drop k buf)"
  by (rule rd_read_file_slice_eq [OF assms])

lemma rd_read_file_slice_witness:
  "rd_read_file (USTAR @ [0]) small_archive 0 [7, 7, 7] 1 5 = Some (2, [2, 3, 7])"
  using rd_read_file_slice [OF small_archive_ok, where i = 0 and lit = "USTAR @ [0]" and off = 1 and count = 5 and buf = "[7, 7, 7]"]
  by (simp add: USTAR_def Let_def)

lemma mod_2_pow_diff:
  assumes "0 < d" "d < (4294967296 :: nat)"
  shows "(18446744073709551616 - d) mod 4294967296 = 4294967296 - d"
proof -
  have "18446744073709551616 - d = (4294967296 - d) + 4294967295 * 4294967296" using assms by simp
  then show ?thesis using assms by (simp only: mod_mult_self1) simp
qed

text \<open>
  Reading behind the end of a file: the number of bytes left is negative and becomes a length of almost
  four gigabytes, so that the copy leaves the buffer instead of returning an empty answer.
\<close>

lemma rd_read_file_behind_end:
  assumes "archive rd 0 es" "i < length es" "es ! i = (nm, ty, content)" "take 6 lit = USTAR" "6 < length lit"
    and "length content < unat off" "unat off < 2147483648" "length buf < 2147483648"
  shows "rd_read_file lit rd (tar_pos 0 es i) buf off count = None"
proof -
  let ?n = "of_nat (length content) :: u64"
  note f = archive_file [OF assms(1-5)]
  have c: "unat count < 4294967296" using unsigned_less [of count, where 'a = nat] by simp
  then have "unat (off + ucast count) = unat off + unat count"
    using assms(7) by (subst unat_add_no_overflow) (simp_all add: unsigned_ucast_eq take_bit_nat_eq_self)
  then have lt: "\<not> off + ucast count < ?n" using assms(6) by (simp add: word_less_nat_alt f(3))
  have "unat (?n - off) = 18446744073709551616 - (unat off - length content)"
    using assms(6,7) by (simp add: unat_sub_if' f(3))
  also have "\<dots> mod 4294967296 = 4294967296 - (unat off - length content)"
    using assms(6,7) by (intro mod_2_pow_diff) simp_all
  finally have "2147483648 \<le> unat (ucast (?n - off) :: u32)"
    using assms(6,7) by (simp add: unsigned_ucast_eq take_bit_eq_mod)
  then show ?thesis
    using assms(8) memcpy_c_room [of buf _ "unat (ucast (?n - off) :: u32)"]
    by (cases "memcpy_c buf (drop (tar_pos 0 es i + TAR_HEADER + unat off) rd) (unat (ucast (?n - off) :: u32))")
      (auto simp: rd_read_file_def f(1) lt)
qed

lemma rd_read_file_behind_end_witness:
  "rd_read_file (USTAR @ [0]) small_archive 0 (replicate 100 0) 4 1 = None"
  using rd_read_file_behind_end [OF small_archive_ok, where i = 0 and lit = "USTAR @ [0]" and off = 4 and count = 1
    and buf = "replicate 100 0"]
  by (simp add: USTAR_def)

subsection \<open>Reading a directory\<close>

lemma strcnt_c_eq: "terminated s \<Longrightarrow> strcnt_c s c = Some (count_list (c_str s) c)"
  by (induction s) auto

lemma strlen_c_eq: "terminated s \<Longrightarrow> strlen_c s = Some (length (c_str s))"
  by (induction s) auto

lemma small_diff:
  assumes "a < 100" "b < 100"
  shows "of_nat a - of_nat b = (1 :: u64) \<longleftrightarrow> a = b + 1" "of_nat a - of_nat b = (0 :: u64) \<longleftrightarrow> a = b"
proof -
  have u: "unat (of_nat a :: u64) = a" "unat (of_nat b :: u64) = b" "unat (of_nat b + 1 :: u64) = b + 1"
    using assms by (simp_all add: unat_of_nat unat_word_ariths)
  then show "of_nat a - of_nat b = (0 :: u64) \<longleftrightarrow> a = b" by (metis eq_iff_diff_eq_0)
  have "of_nat a - of_nat b = (1 :: u64) \<longleftrightarrow> (of_nat a :: u64) = of_nat b + 1" by (simp add: algebra_simps)
  then show "of_nat a - of_nat b = (1 :: u64) \<longleftrightarrow> a = b + 1" using u by (metis of_nat_1 of_nat_add)
qed

lemma is_child_names:
  assumes "tar_header_at rd p nm ty n" "tar_header_at rd c nm' ty' n'"
  shows "is_child rd p c = Some (take (length nm) nm' = nm \<and>
    (ty' = RDT_DIR \<longrightarrow> count_list nm' 0x2f = count_list nm 0x2f + 1) \<and>
    (ty' = RDT_FILE \<longrightarrow> count_list nm' 0x2f = count_list nm 0x2f))"
proof -
  note P = tar_name [OF assms(1)] and C = tar_name [OF assms(2)]
  have room: "length nm < 100" "p + 512 \<le> length rd" "c + 512 \<le> length rd" "0 \<notin> set nm"
    "length nm' < 100" "rd ! (c + 156) = ty'"
    using assms by (simp_all add: tar_header_at_def)
  obtain s where s: "drop p rd = nm @ 0 # s" using terminated_split [OF P(2)] P(1) by auto
  obtain s' where s': "drop c rd = nm' @ 0 # s'" using terminated_split [OF C(2)] C(1) by auto
  have "length nm < length (drop p rd)" "length nm < length (drop c rd)" using room by simp_all
  then obtain d where d: "memcmp_c (drop p rd) (drop c rd) (length nm) = Some d"
      "d = 0 \<longleftrightarrow> take (length nm) (drop p rd) = take (length nm) (drop c rd)"
    using memcmp_c_zero by blast
  have "d = 0 \<longleftrightarrow> take (length nm) nm' = nm"
    using take_nul_eq [OF room(4), of nm' s'] unfolding d(2) s s' by (auto simp: eq_commute)
  moreover have "(of_nat (count_list nm' 0x2f) - of_nat (count_list nm 0x2f) = (1 :: u64)) \<longleftrightarrow>
      count_list nm' 0x2f = count_list nm 0x2f + 1"
    "(of_nat (count_list nm' 0x2f) - of_nat (count_list nm 0x2f) = (0 :: u64)) \<longleftrightarrow>
      count_list nm' 0x2f = count_list nm 0x2f"
    by (rule small_diff; rule le_less_trans [OF count_le_length]; rule room)+
  ultimately show ?thesis
    using d(1) room by (simp add: is_child_def strcnt_c_eq strlen_c_eq P C rd_at_def layout_simps)
qed

text \<open>The files of the list that \<open>_is_child\<close> takes for entries of the directory with the name \<open>nm\<close>.\<close>

definition rd_children :: "bytes \<Rightarrow> (bytes \<times> u8 \<times> bytes) list \<Rightarrow> (bytes \<times> u8 \<times> bytes) list" where
  "rd_children nm = filter (\<lambda>(nm', ty', content). take (length nm) nm' = nm \<and>
    (ty' = RDT_DIR \<longrightarrow> count_list nm' 0x2f = count_list nm 0x2f + 1) \<and>
    (ty' = RDT_FILE \<longrightarrow> count_list nm' 0x2f = count_list nm 0x2f))"

lemma read_dir_loop_skip:
  assumes "tar_header_at rd p nm ty n" "take 6 lit = USTAR" "6 < length lit"
    and "archive rd h es" "length (rd_children nm es) \<le> (if idx = 0 then 1 else 0)"
  shows "read_dir_loop malloc lit rd p h buf 0 idx offset count room = Some (0, buf)"
  using assms(4,5)
proof (induction es arbitrary: h idx)
  case Nil
  then show ?case
    using is_header_at [OF assms(2,3), of h rd] by (subst read_dir_loop.simps) simp
next
  case (Cons e es)
  obtain nm' ty' content where e: "e = (nm', ty', content)" by (cases e)
  have at: "tar_header_at rd h nm' ty' (length content)" using Cons.prems(1) by (simp add: e)
  have hd: "is_header lit rd h = Some True"
    using is_header_at [OF assms(2,3), of h rd] at by (simp add: tar_header_at_def)
  note nxt = next_header_at(2) [OF at assms(2,3)]
  have rest: "archive rd (h + 512 * tar_records (length content)) es" using Cons.prems(1) by (simp add: e)
  show ?case
  proof (cases "rd_children nm [e] = []")
    case True
    then have no: "is_child rd p h = Some False"
      using is_child_names [OF assms(1) at] by (auto simp: rd_children_def e split: if_splits)
    have "rd_children nm (e # es) = rd_children nm es" using True by (auto simp: rd_children_def split: if_splits)
    then show ?thesis
      using Cons.IH [OF rest] Cons.prems(2) by (subst read_dir_loop.simps) (simp add: hd no nxt)
  next
    case False
    then have yes: "is_child rd p h = Some True"
      using is_child_names [OF assms(1) at] by (auto simp: rd_children_def e split: if_splits)
    have "rd_children nm (e # es) = e # rd_children nm es" using False by (auto simp: rd_children_def split: if_splits)
    then have "idx = 0" "rd_children nm es = []" using Cons.prems(2) by (auto split: if_splits)
    then show ?thesis
      using Cons.IH [OF rest, of 1] by (subst read_dir_loop.simps) (simp add: hd yes nxt)
  qed
qed

text \<open>
  The first entry of a directory is never listed: the index is compared before it counts the entry, so
  that reading a directory with a single file gives nothing, at every offset and for every count.
\<close>

lemma rd_read_dir_single:
  assumes "archive rd 0 es" "i < length es" "es ! i = (nm, ty, content)" "take 6 lit = USTAR" "6 < length lit"
    and "length (rd_children nm (drop (Suc i) es)) = 1"
  shows "rd_read_dir malloc lit rd (tar_pos 0 es i) buf offset count n = Some (0, buf)"
proof -
  note at = archive_header [OF assms(1-3)]
  have "archive rd (tar_pos 0 es i + 512 * tar_records (length content)) (drop (Suc i) es)"
    using archive_drop [OF assms(1,2)] assms(3) by simp
  from read_dir_loop_skip [OF at assms(4,5) this] assms(6) show ?thesis
    by (simp add: rd_read_dir_def next_header_at(2) [OF at assms(4,5)])
qed

text \<open>A disk with a directory, \<open>./\<close>, and the file \<open>./a\<close> in it.\<close>

definition dir_files :: "(bytes \<times> u8 \<times> bytes) list" where
  "dir_files = [([0x2e, 0x2f], 0x35, []), ([0x2e, 0x2f, 0x61], 0x30, [1])]"

lemma dir_files_ok: "archive (tar_disk dir_files) 0 dir_files"
  using archive_disk [of dir_files "[]"] by (simp add: dir_files_def tar_file_ok_def)

lemma rd_read_dir_single_witness:
  "rd_read_dir (\<lambda>n. None) (USTAR @ [0]) (tar_disk dir_files) 0 (replicate 100 0) 0 1 100 = Some (0, replicate 100 0)"
proof -
  have "dir_files ! 0 = ([0x2e, 0x2f], 0x35, [])" "tar_pos 0 dir_files 0 = 0" "0 < length dir_files"
    "length (rd_children [0x2e, 0x2f] (drop (Suc 0) dir_files)) = 1"
    by (simp_all add: dir_files_def rd_children_def layout_simps)
  then show ?thesis
    using rd_read_dir_single [OF dir_files_ok, where i = 0 and lit = "USTAR @ [0]"] by (simp add: USTAR_def)
qed

end
