(* ===== verification/Vfs_Client.thy ===== *)
theory Vfs_Client
  imports Vfs_Msg
begin

text \<open>
  The clients of a file server and the files they hold open (\<^verbatim>\<open>lib/libvfs\<close>): a linked list of clients, each
  with a linked list of pairs of a file id and an object.

  The heap is a partial map from addresses to each kind of object; an address that is not in it is null or
  was freed, and following it is undefined. \<open>cl_fresh\<close> are the addresses that \<open>calloc\<close> is going to return,
  in this order: when none is left it returns the null pointer.
\<close>

record fid_pair =
  fp_fid :: u32
  fp_obj :: u64
  fp_next :: u64

record vfs_client =
  vc_mq_id :: u32
  vc_fids :: u64
  vc_prev :: u64
  vc_next :: u64

record clients =
  cl_pairs :: "u64 \<rightharpoonup> fid_pair"
  cl_clients :: "u64 \<rightharpoonup> vfs_client"
  cl_first :: u64
  cl_fresh :: "u64 list"

subsection \<open>File ids\<close>

partial_function (option) fid_find :: "clients \<Rightarrow> u32 \<Rightarrow> u64 \<Rightarrow> u64 option" where
  "fid_find h fid p =
     (if p = 0 then Some 0
      else do {
        x \<leftarrow> cl_pairs h p;
        if fp_fid x = fid then Some p else fid_find h fid (fp_next x) })"

definition vfs_client_fid_get :: "clients \<Rightarrow> u64 \<Rightarrow> u32 \<Rightarrow> u64 option" where
  "vfs_client_fid_get h client fid = do {
     c \<leftarrow> cl_clients h client;
     p \<leftarrow> fid_find h fid (vc_fids c);
     if p = 0 then Some 0 else map_option fp_obj (cl_pairs h p) }"

definition vfs_client_fid_update :: "clients \<Rightarrow> u64 \<Rightarrow> u32 \<Rightarrow> u64 \<Rightarrow> (int \<times> clients) option" where
  "vfs_client_fid_update h client fid obj = do {
     c \<leftarrow> cl_clients h client;
     p \<leftarrow> fid_find h fid (vc_fids c);
     if p = 0 then Some (-1, h)
     else do {
       x \<leftarrow> cl_pairs h p;
       Some (0, h\<lparr>cl_pairs := (cl_pairs h)(p \<mapsto> x\<lparr>fp_obj := obj\<rparr>)\<rparr>) } }"

partial_function (option) pair_last :: "clients \<Rightarrow> u64 \<Rightarrow> u64 option" where
  "pair_last h p = do {
     x \<leftarrow> cl_pairs h p;
     if fp_next x = 0 then Some p else pair_last h (fp_next x) }"

definition vfs_client_fid_add :: "clients \<Rightarrow> u64 \<Rightarrow> u32 \<Rightarrow> u64 \<Rightarrow> (u64 \<times> clients) option" where
  "vfs_client_fid_add h client fid obj =
     (case cl_fresh h of [] \<Rightarrow> Some (0, h)
      | a # as \<Rightarrow> do {
          let h1 = h\<lparr>cl_fresh := as, cl_pairs := (cl_pairs h)(a \<mapsto> \<lparr>fp_fid = fid, fp_obj = obj, fp_next = 0\<rparr>)\<rparr>;
          c \<leftarrow> cl_clients h1 client;
          if vc_fids c \<noteq> 0 then do {
            prev \<leftarrow> pair_last h1 (vc_fids c);
            x \<leftarrow> cl_pairs h1 prev;
            Some (a, h1\<lparr>cl_pairs := (cl_pairs h1)(prev \<mapsto> x\<lparr>fp_next := a\<rparr>)\<rparr>) }
          else Some (a, h1\<lparr>cl_clients := (cl_clients h1)(client \<mapsto> c\<lparr>vc_fids := a\<rparr>)\<rparr>) })"

text \<open>The pair with the id and the pair before it; the first pair is the one before itself.\<close>

partial_function (option) fid_find_prev :: "clients \<Rightarrow> u32 \<Rightarrow> u64 \<Rightarrow> u64 \<Rightarrow> (u64 \<times> u64) option" where
  "fid_find_prev h fid p prev =
     (if p = 0 then Some (0, prev)
      else do {
        x \<leftarrow> cl_pairs h p;
        if fp_fid x = fid then Some (p, prev) else fid_find_prev h fid (fp_next x) p })"

definition vfs_client_fid_remove :: "clients \<Rightarrow> u64 \<Rightarrow> u32 \<Rightarrow> (int \<times> clients) option" where
  "vfs_client_fid_remove h client fid = do {
     c \<leftarrow> cl_clients h client;
     (p, prev) \<leftarrow> fid_find_prev h fid (vc_fids c) (vc_fids c);
     if p = 0 then Some (-1, h)
     else do {
       x \<leftarrow> cl_pairs h p;
       y \<leftarrow> cl_pairs h prev;
       let pairs = (cl_pairs h)(prev \<mapsto> y\<lparr>fp_next := fp_next x\<rparr>);
       Some (0, h\<lparr>cl_pairs := pairs(p := None)\<rparr>) } }"

subsection \<open>Clients\<close>

partial_function (option) client_last :: "clients \<Rightarrow> u64 \<Rightarrow> u64 option" where
  "client_last h c = do {
     x \<leftarrow> cl_clients h c;
     if vc_next x = 0 then Some c else client_last h (vc_next x) }"

definition vfs_client_create :: "(bytes \<Rightarrow> u32) \<Rightarrow> clients \<Rightarrow> bytes \<Rightarrow> (u64 \<times> clients) option" where
  "vfs_client_create mq_open h channel =
     (case cl_fresh h of [] \<Rightarrow> Some (0, h)
      | a # as \<Rightarrow>
         let mq = mq_open channel;
             new = \<lparr>vc_mq_id = mq, vc_fids = 0, vc_prev = 0, vc_next = 0\<rparr>;
             h1 = h\<lparr>cl_fresh := as, cl_clients := (cl_clients h)(a \<mapsto> new)\<rparr>
         in if mq = -1 then Some (0, h\<lparr>cl_fresh := as\<rparr>)
            else if cl_first h1 \<noteq> 0 then do {
              l \<leftarrow> client_last h1 (cl_first h1);
              x \<leftarrow> cl_clients h1 l;
              Some (a, h1\<lparr>cl_clients := (cl_clients h1)(l \<mapsto> x\<lparr>vc_next := a\<rparr>)\<rparr>) }
            else Some (a, h1\<lparr>cl_first := a\<rparr>))"

partial_function (option) client_find :: "clients \<Rightarrow> u32 \<Rightarrow> u64 \<Rightarrow> u64 option" where
  "client_find h mq c =
     (if c = 0 then Some 0
      else do {
        x \<leftarrow> cl_clients h c;
        if vc_mq_id x = mq then Some c else client_find h mq (vc_next x) })"

definition vfs_client_get :: "clients \<Rightarrow> u32 \<Rightarrow> u64 option" where
  "vfs_client_get h mq = client_find h mq (cl_first h)"

partial_function (option) remove_loop :: "clients \<Rightarrow> u64 \<Rightarrow> u64 \<Rightarrow> clients option" where
  "remove_loop h client p =
     (if p = 0 then Some h
      else do {
        x \<leftarrow> cl_pairs h p;
        (r, h1) \<leftarrow> vfs_client_fid_remove h client (fp_fid x);
        y \<leftarrow> cl_pairs h1 p;
        remove_loop h1 client (fp_next y) })"

definition vfs_client_remove :: "clients \<Rightarrow> u64 \<Rightarrow> clients option" where
  "vfs_client_remove h client = do {
     c \<leftarrow> cl_clients h client;
     h1 \<leftarrow> remove_loop h client (vc_fids c);
     Some (h1\<lparr>cl_clients := (cl_clients h1)(client := None)\<rparr>) }"

subsection \<open>The contract: a list of associations for every client\<close>

text \<open>
  \<open>ok s M\<close>: in the state \<open>s\<close> the client \<open>c\<close> has the associations \<open>M c\<close>, in the order they were made. The
  laws say what each operation does to the list; \<open>null\<close> is the answer for an unknown key.
\<close>

fun put_first :: "'k \<Rightarrow> 'v \<Rightarrow> ('k \<times> 'v) list \<Rightarrow> ('k \<times> 'v) list" where
  "put_first k v [] = []"
| "put_first k v ((k', v') # m) = (if k' = k then (k', v) # m else (k', v') # put_first k v m)"

locale fid_store =
  fixes ok :: "'s \<Rightarrow> ('c \<rightharpoonup> ('k \<times> 'v) list) \<Rightarrow> bool"
    and null :: 'v
    and lookup :: "'s \<Rightarrow> 'c \<Rightarrow> 'k \<Rightarrow> 'v option"
    and add :: "'s \<Rightarrow> 'c \<Rightarrow> 'k \<Rightarrow> 'v \<Rightarrow> ('r \<times> 's) option"
    and failed :: 'r
    and update :: "'s \<Rightarrow> 'c \<Rightarrow> 'k \<Rightarrow> 'v \<Rightarrow> (int \<times> 's) option"
  assumes lookup_law: "ok s M \<Longrightarrow> M c = Some m \<Longrightarrow> lookup s c k = Some (case map_of m k of None \<Rightarrow> null | Some v \<Rightarrow> v)"
    and add_law: "ok s M \<Longrightarrow> M c = Some m \<Longrightarrow> \<exists>r s'. add s c k v = Some (r, s') \<and>
      (if r = failed then s' = s else ok s' (M(c \<mapsto> m @ [(k, v)])))"
    and update_law: "ok s M \<Longrightarrow> M c = Some m \<Longrightarrow> \<exists>r s'. update s c k v = Some (r, s') \<and>
      (if map_of m k = None then r = -1 \<and> s' = s else r = 0 \<and> ok s' (M(c \<mapsto> put_first k v m)))"
begin

lemma lookup_added:
  assumes "ok s M" "M c = Some m" "map_of m k = None" "add s c k v = Some (r, s')" "r \<noteq> failed"
  shows "lookup s' c k = Some v"
proof -
  have "ok s' (M(c \<mapsto> m @ [(k, v)]))" using add_law [OF assms(1,2), of k v] assms(4,5) by auto
  from lookup_law [OF this, of c "m @ [(k, v)]" k] assms(3) show ?thesis by (simp add: map_add_def)
qed

lemma lookup_added_again:
  assumes "ok s M" "M c = Some m" "map_of m k = Some w" "add s c k v = Some (r, s')"
  shows "lookup s' c k = Some w"
proof (cases "r = failed")
  case True
  then have "s' = s" using add_law [OF assms(1,2), of k v] assms(4) by auto
  then show ?thesis using lookup_law [OF assms(1,2), of k] assms(3) by simp
next
  case False
  then have "ok s' (M(c \<mapsto> m @ [(k, v)]))" using add_law [OF assms(1,2), of k v] assms(4) by auto
  from lookup_law [OF this, of c "m @ [(k, v)]" k] assms(3) show ?thesis by (simp add: map_add_def)
qed

lemma lookup_updated:
  assumes "ok s M" "M c = Some m" "update s c k v = Some (r, s')" "r = 0"
  shows "lookup s' c k = Some v"
proof -
  have ok: "ok s' (M(c \<mapsto> put_first k v m))" "map_of m k \<noteq> None"
    using update_law [OF assms(1,2), of k v] assms(3,4) by (auto split: if_splits)
  have "map_of (put_first k v m) k = Some v" using ok(2) by (induction m) (auto split: if_splits)
  with lookup_law [OF ok(1), of c "put_first k v m" k] show ?thesis by simp
qed

text \<open>What one client does is not seen by another.\<close>

lemma lookup_other:
  assumes "ok s M" "M c = Some m" "M c' = Some m'" "c' \<noteq> c"
  shows "add s c k v = Some (r, s') \<Longrightarrow> lookup s' c' k' = lookup s c' k'"
    and "update s c k v = Some (q, s') \<Longrightarrow> lookup s' c' k' = lookup s c' k'"
proof -
  note old = lookup_law [OF assms(1,3), of k']
  have other: "ok s'' (M(c \<mapsto> n)) \<Longrightarrow> lookup s'' c' k' = lookup s c' k'" for s'' n
    using lookup_law [of s'' "M(c \<mapsto> n)" c' m' k'] assms(3,4) old by simp
  show "add s c k v = Some (r, s') \<Longrightarrow> lookup s' c' k' = lookup s c' k'"
    using add_law [OF assms(1,2), of k v] other [of s'] by (auto split: if_splits)
  show "update s c k v = Some (q, s') \<Longrightarrow> lookup s' c' k' = lookup s c' k'"
    using update_law [OF assms(1,2), of k v] other [of s'] by (auto split: if_splits)
qed

end

subsection \<open>The lists in the heap\<close>

text \<open>The list from \<open>p\<close> on has the pairs \<open>l\<close>: addresses, ids and objects.\<close>

fun pairs_at :: "(u64 \<rightharpoonup> fid_pair) \<Rightarrow> u64 \<Rightarrow> (u64 \<times> u32 \<times> u64) list \<Rightarrow> bool" where
  "pairs_at m p [] \<longleftrightarrow> p = 0"
| "pairs_at m p ((a, k, v) # l) \<longleftrightarrow> p = a \<and> a \<noteq> 0 \<and>
     (case m a of None \<Rightarrow> False | Some x \<Rightarrow> fp_fid x = k \<and> fp_obj x = v \<and> pairs_at m (fp_next x) l)"

lemma pairs_at_cong:
  "(\<And>a. a \<in> fst ` set l \<Longrightarrow> m' a = m a) \<Longrightarrow> pairs_at m' p l = pairs_at m p l"
proof (induction l arbitrary: p)
  case (Cons e l)
  obtain a k v where "e = (a, k, v)" by (cases e)
  with Cons show ?case by (auto split: option.split)
qed simp

lemma pairs_at_dom: "pairs_at m p l \<Longrightarrow> fst ` set l \<subseteq> dom m"
proof (induction l arbitrary: p)
  case (Cons e l)
  obtain a k v where "e = (a, k, v)" by (cases e)
  with Cons show ?case by (fastforce split: option.splits)
qed simp

lemma pairs_at_0: "pairs_at m 0 l \<longleftrightarrow> l = []"
  by (cases l) auto

lemma fid_find_at:
  "pairs_at (cl_pairs h) p l \<Longrightarrow>
   fid_find h k p = Some (case find (\<lambda>(a, k', v). k' = k) l of None \<Rightarrow> 0 | Some e \<Rightarrow> fst e)"
proof (induction l arbitrary: p)
  case Nil
  then show ?case by (subst fid_find.simps) simp
next
  case (Cons e l)
  obtain a k' v where e: "e = (a, k', v)" by (cases e)
  with Cons.prems obtain x where "cl_pairs h a = Some x" "fp_fid x = k'" "pairs_at (cl_pairs h) (fp_next x) l" "p = a" "a \<noteq> 0"
    by (auto split: option.splits)
  with Cons.IH e show ?case by (subst fid_find.simps) auto
qed

lemma pairs_at_entry:
  "pairs_at m p l \<Longrightarrow> (a, k, v) \<in> set l \<Longrightarrow> \<exists>x. m a = Some x \<and> fp_fid x = k \<and> fp_obj x = v \<and> a \<noteq> 0"
  by (induction m p l rule: pairs_at.induct) (auto split: option.splits)

lemma find_in: "find P l = Some e \<Longrightarrow> e \<in> set l"
  by (induction l) (auto split: if_splits)

lemma find_holds: "find P l = Some e \<Longrightarrow> P e"
  by (induction l) (auto split: if_splits)

lemma find_map_of: "map_of (map snd l) k = map_option (snd \<circ> snd) (find (\<lambda>(a, k', v). k' = k) l)"
  by (induction l) auto

lemma pairs_at_put:
  "pairs_at m p l \<Longrightarrow> distinct (map fst l) \<Longrightarrow> find (\<lambda>(a, k', v). k' = k) l = Some (a, k, w) \<Longrightarrow> m a = Some x \<Longrightarrow>
   \<exists>l'. pairs_at (m(a \<mapsto> x\<lparr>fp_obj := v\<rparr>)) p l' \<and> map fst l' = map fst l \<and> map snd l' = put_first k v (map snd l)"
proof (induction l arbitrary: p)
  case (Cons e l)
  obtain b k' u where e: "e = (b, k', u)" by (cases e)
  obtain y where y: "m b = Some y" "fp_fid y = k'" "fp_obj y = u" "pairs_at m (fp_next y) l" "p = b" "b \<noteq> 0"
    using Cons.prems(1) by (auto simp: e split: option.splits)
  show ?case
  proof (cases "k' = k")
    case True
    then have "a = b" "u = w" using Cons.prems(3) by (auto simp: e)
    moreover have "pairs_at (m(b \<mapsto> x\<lparr>fp_obj := v\<rparr>)) (fp_next y) l"
      using Cons.prems(2) y(4) by (subst pairs_at_cong [where m = m]) (auto simp: e)
    ultimately show ?thesis
      using y Cons.prems(4) True by (intro exI [of _ "(b, k, v) # l"]) (simp add: e fun_upd_def)
  next
    case False
    then have fnd: "find (\<lambda>(a, k', v). k' = k) l = Some (a, k, w)" "distinct (map fst l)"
      using Cons.prems(2,3) by (simp_all add: e)
    from Cons.IH [OF y(4) fnd(2,1) Cons.prems(4)] obtain l'
      where "pairs_at (m(a \<mapsto> x\<lparr>fp_obj := v\<rparr>)) (fp_next y) l'" "map fst l' = map fst l"
        "map snd l' = put_first k v (map snd l)" by blast
    moreover have "a \<in> fst ` set l" using find_in [OF fnd(1)] by force
    then have "a \<noteq> b" using Cons.prems(2) by (auto simp: e)
    ultimately show ?thesis
      using y False by (intro exI [of _ "(b, k', u) # l'"]) (simp add: e fun_upd_def)
  qed
qed simp

lemma pair_last_at:
  "pairs_at (cl_pairs h) p l \<Longrightarrow> l \<noteq> [] \<Longrightarrow> pair_last h p = Some (fst (last l))"
proof (induction l arbitrary: p)
  case (Cons e l)
  obtain a k v where e: "e = (a, k, v)" by (cases e)
  with Cons.prems obtain x where "cl_pairs h a = Some x" "pairs_at (cl_pairs h) (fp_next x) l" "p = a"
    by (auto split: option.splits)
  with Cons.IH e show ?case by (subst pair_last.simps) (cases "l = []", auto simp: pairs_at_0)
qed simp

lemma pairs_at_snoc:
  "pairs_at m p l \<Longrightarrow> distinct (map fst l) \<Longrightarrow> l \<noteq> [] \<Longrightarrow> a \<notin> fst ` set l \<Longrightarrow> a \<noteq> 0 \<Longrightarrow> m (fst (last l)) = Some x \<Longrightarrow>
   pairs_at (m(a \<mapsto> \<lparr>fp_fid = k, fp_obj = v, fp_next = 0\<rparr>, fst (last l) \<mapsto> x\<lparr>fp_next := a\<rparr>)) p (l @ [(a, k, v)])"
proof (induction l arbitrary: p)
  case (Cons e l)
  obtain b k' u where e: "e = (b, k', u)" by (cases e)
  obtain y where y: "m b = Some y" "fp_fid y = k'" "fp_obj y = u" "pairs_at m (fp_next y) l" "p = b" "b \<noteq> 0"
    using Cons.prems(1) by (auto simp: e split: option.splits)
  show ?case
  proof (cases "l = []")
    case True
    with y Cons.prems show ?thesis by (auto simp: e)
  next
    case False
    then have "fst (last l) \<in> fst ` set l" by simp
    then have "fst (last l) \<noteq> b" using Cons.prems(2) by (auto simp: e)
    with False Cons.IH [OF y(4)] Cons.prems y show ?thesis by (auto simp: e)
  qed
qed simp

text \<open>The list of clients from \<open>p\<close> on: addresses and message queues.\<close>

fun clients_at :: "(u64 \<rightharpoonup> vfs_client) \<Rightarrow> u64 \<Rightarrow> (u64 \<times> u32) list \<Rightarrow> bool" where
  "clients_at m p [] \<longleftrightarrow> p = 0"
| "clients_at m p ((a, mq) # cs) \<longleftrightarrow> p = a \<and> a \<noteq> 0 \<and>
     (case m a of None \<Rightarrow> False | Some x \<Rightarrow> vc_mq_id x = mq \<and> clients_at m (vc_next x) cs)"

lemma clients_at_cong:
  "(\<And>a. a \<in> fst ` set cs \<Longrightarrow> map_option (\<lambda>x. (vc_mq_id x, vc_next x)) (m' a) = map_option (\<lambda>x. (vc_mq_id x, vc_next x)) (m a)) \<Longrightarrow>
   clients_at m' p cs = clients_at m p cs"
proof (induction cs arbitrary: p)
  case (Cons e cs)
  obtain a mq where e: "e = (a, mq)" by (cases e)
  have "clients_at m' q cs = clients_at m q cs" for q by (rule Cons.IH) (use Cons.prems in \<open>simp add: e\<close>)
  then show ?case using Cons.prems [of a] by (cases "m a"; cases "m' a") (auto simp: e)
qed simp

lemma clients_at_dom: "clients_at m p cs \<Longrightarrow> fst ` set cs \<subseteq> dom m"
proof (induction cs arbitrary: p)
  case (Cons e cs)
  obtain a mq where "e = (a, mq)" by (cases e)
  with Cons show ?case by (fastforce split: option.splits)
qed simp

lemma clients_at_nonzero: "clients_at m p cs \<Longrightarrow> 0 \<notin> fst ` set cs"
  by (induction m p cs rule: clients_at.induct) (auto split: option.splits)

lemma client_find_at:
  "clients_at (cl_clients h) p cs \<Longrightarrow>
   client_find h mq p = Some (case find (\<lambda>(a, mq'). mq' = mq) cs of None \<Rightarrow> 0 | Some e \<Rightarrow> fst e)"
proof (induction cs arbitrary: p)
  case Nil
  then show ?case by (subst client_find.simps) simp
next
  case (Cons e cs)
  obtain a mq' where e: "e = (a, mq')" by (cases e)
  with Cons.prems obtain x where "cl_clients h a = Some x" "vc_mq_id x = mq'" "clients_at (cl_clients h) (vc_next x) cs" "p = a" "a \<noteq> 0"
    by (auto split: option.splits)
  with Cons.IH e show ?case by (subst client_find.simps) auto
qed

text \<open>
  The heap of a server: the clients \<open>cs\<close> in their order, and the pairs \<open>L c\<close> of each. No pair belongs to
  two clients, and what \<open>calloc\<close> returns next is not in use.
\<close>

definition pairs_ok :: "clients \<Rightarrow> (u64 \<rightharpoonup> (u64 \<times> u32 \<times> u64) list) \<Rightarrow> bool" where
  "pairs_ok h L \<longleftrightarrow>
     (\<forall>c l. L c = Some l \<longrightarrow> distinct (map fst l) \<and>
        (\<exists>x. cl_clients h c = Some x \<and> pairs_at (cl_pairs h) (vc_fids x) l)) \<and>
     (\<forall>c c' l l'. L c = Some l \<longrightarrow> L c' = Some l' \<longrightarrow> c \<noteq> c' \<longrightarrow> fst ` set l \<inter> fst ` set l' = {})"

definition fresh_ok :: "clients \<Rightarrow> bool" where
  "fresh_ok h \<longleftrightarrow> distinct (cl_fresh h) \<and> 0 \<notin> set (cl_fresh h) \<and>
     set (cl_fresh h) \<inter> (dom (cl_pairs h) \<union> dom (cl_clients h)) = {}"

definition vfs_ok :: "clients \<Rightarrow> (u64 \<times> u32) list \<Rightarrow> (u64 \<rightharpoonup> (u64 \<times> u32 \<times> u64) list) \<Rightarrow> bool" where
  "vfs_ok h cs L \<longleftrightarrow> pairs_ok h L \<and> fresh_ok h \<and> clients_at (cl_clients h) (cl_first h) cs \<and>
     distinct (map fst cs) \<and> dom L = fst ` set cs"

lemma pairs_okD:
  assumes "pairs_ok h L" "L c = Some l"
  obtains x where "cl_clients h c = Some x" "pairs_at (cl_pairs h) (vc_fids x) l" "distinct (map fst l)"
  using assms unfolding pairs_ok_def by blast

lemma fid_get_ok:
  assumes "pairs_ok h L" "L c = Some l"
  shows "vfs_client_fid_get h c k = Some (case map_of (map snd l) k of None \<Rightarrow> 0 | Some v \<Rightarrow> v)"
proof -
  obtain x where x: "cl_clients h c = Some x" "pairs_at (cl_pairs h) (vc_fids x) l" by (rule pairs_okD [OF assms])
  show ?thesis
  proof (cases "find (\<lambda>(a, k', v). k' = k) l")
    case None
    then show ?thesis using x fid_find_at [OF x(2), of k] by (simp add: vfs_client_fid_get_def find_map_of)
  next
    case (Some e)
    obtain a k' v where e: "e = (a, k', v)" by (cases e)
    obtain y where "cl_pairs h a = Some y" "fp_obj y = v" "a \<noteq> 0"
      using pairs_at_entry [OF x(2)] find_in [OF Some] e by blast
    then show ?thesis
      using Some x fid_find_at [OF x(2), of k] by (simp add: vfs_client_fid_get_def find_map_of e)
  qed
qed

lemma pairs_ok_disjoint:
  "pairs_ok h L \<Longrightarrow> L c = Some l \<Longrightarrow> L c' = Some l' \<Longrightarrow> c \<noteq> c' \<Longrightarrow> fst ` set l \<inter> fst ` set l' = {}"
  unfolding pairs_ok_def by blast

lemma pairs_ok_upd:
  assumes "pairs_ok h L" "L c = Some l"
    and "cl_clients h' c = Some x'" "pairs_at (cl_pairs h') (vc_fids x') l'" "distinct (map fst l')"
    and "\<And>d. d \<noteq> c \<Longrightarrow> cl_clients h' d = cl_clients h d"
    and "\<And>a. a \<in> dom (cl_pairs h) \<Longrightarrow> a \<notin> fst ` set l \<Longrightarrow> cl_pairs h' a = cl_pairs h a"
    and "\<And>a. a \<in> fst ` set l' \<Longrightarrow> a \<in> fst ` set l \<or> a \<notin> dom (cl_pairs h)"
  shows "pairs_ok h' (L(c \<mapsto> l'))"
proof -
  have other: "distinct (map fst m) \<and> (\<exists>x. cl_clients h' d = Some x \<and> pairs_at (cl_pairs h') (vc_fids x) m) \<and>
      fst ` set l' \<inter> fst ` set m = {}" if d: "d \<noteq> c" "L d = Some m" for d m
  proof -
    obtain x where x: "cl_clients h d = Some x" "pairs_at (cl_pairs h) (vc_fids x) m" "distinct (map fst m)"
      by (rule pairs_okD [OF assms(1) d(2)])
    have disj: "fst ` set l \<inter> fst ` set m = {}" by (rule pairs_ok_disjoint [OF assms(1,2) d(2)]) (use d in simp)
    have dm: "fst ` set m \<subseteq> dom (cl_pairs h)" by (rule pairs_at_dom [OF x(2)])
    have "pairs_at (cl_pairs h') (vc_fids x) m"
      using x(2) dm disj assms(7) by (subst pairs_at_cong [where m = "cl_pairs h"]) blast+
    moreover have "a \<notin> fst ` set m" if "a \<in> fst ` set l'" for a
      using assms(8) [OF that] disj dm by auto
    then have "fst ` set l' \<inter> fst ` set m = {}" by auto
    ultimately show ?thesis using x(1,3) assms(6) [OF d(1)] by simp
  qed
  note old = pairs_ok_disjoint [OF assms(1)]
  let ?L = "L(c \<mapsto> l')"
  have "distinct (map fst m) \<and> (\<exists>x. cl_clients h' d = Some x \<and> pairs_at (cl_pairs h') (vc_fids x) m)"
    if "?L d = Some m" for d m
    using other [of d m] that assms(3-5) by (cases "d = c") auto
  moreover have "fst ` set m \<inter> fst ` set m' = {}" if "?L d = Some m" "?L d' = Some m'" "d \<noteq> d'" for d d' m m'
    using other [of d m] other [of d' m'] old [of d m d' m'] that
    by (cases "d = c"; cases "d' = c") (simp_all add: Int_commute)
  ultimately show ?thesis unfolding pairs_ok_def by blast
qed

lemma fid_add_ok:
  assumes "vfs_ok h cs L" "L c = Some l"
  shows "\<exists>r h'. vfs_client_fid_add h c k v = Some (r, h') \<and>
    (if r = 0 then h' = h else vfs_ok h' cs (L(c \<mapsto> l @ [(r, k, v)])))"
proof (cases "cl_fresh h")
  case Nil
  then show ?thesis by (simp add: vfs_client_fid_add_def)
next
  case (Cons a as)
  have ok: "pairs_ok h L" "fresh_ok h" using assms(1) by (simp_all add: vfs_ok_def)
  obtain x where x: "cl_clients h c = Some x" "pairs_at (cl_pairs h) (vc_fids x) l" "distinct (map fst l)"
    by (rule pairs_okD [OF ok(1) assms(2)])
  have a: "a \<noteq> 0" "a \<notin> dom (cl_pairs h)" "a \<notin> dom (cl_clients h)"
    using ok(2) Cons by (auto simp: fresh_ok_def)
  have al: "a \<notin> fst ` set l" using pairs_at_dom [OF x(2)] a(2) by blast
  let ?new = "\<lparr>fp_fid = k, fp_obj = v, fp_next = 0\<rparr>"
  define h1 where "h1 = h\<lparr>cl_fresh := as, cl_pairs := (cl_pairs h)(a \<mapsto> ?new)\<rparr>"
  have l1: "pairs_at (cl_pairs h1) (vc_fids x) l"
    using x(2) al by (subst pairs_at_cong [where m = "cl_pairs h"]) (auto simp: h1_def)
  obtain h' x' where h': "vfs_client_fid_add h c k v = Some (a, h')" "cl_fresh h' = as"
      "cl_first h' = cl_first h" "cl_clients h' = (cl_clients h)(c \<mapsto> x')"
      "vc_mq_id x' = vc_mq_id x" "vc_next x' = vc_next x" "pairs_at (cl_pairs h') (vc_fids x') (l @ [(a, k, v)])"
      "dom (cl_pairs h') = insert a (dom (cl_pairs h))"
      "\<And>b. b \<in> dom (cl_pairs h) \<Longrightarrow> b \<notin> fst ` set l \<Longrightarrow> cl_pairs h' b = cl_pairs h b"
  proof (cases "l = []")
    case True
    then have "vc_fids x = 0" using x(2) by simp
    then have "vfs_client_fid_add h c k v =
        Some (a, h1\<lparr>cl_clients := (cl_clients h)(c \<mapsto> x\<lparr>vc_fids := a\<rparr>)\<rparr>)"
      using x(1) by (simp add: vfs_client_fid_add_def Cons h1_def Let_def)
    then show ?thesis
      by (rule that [where x' = "x\<lparr>vc_fids := a\<rparr>"]) (use True a in \<open>auto simp: h1_def\<close>)
  next
    case False
    define b where "b = fst (last l)"
    have b: "b \<in> fst ` set l" using False by (simp add: b_def)
    then obtain y where y: "cl_pairs h b = Some y" using pairs_at_dom [OF x(2)] by blast
    have ab: "a \<noteq> b" using b al by blast
    have "vc_fids x \<noteq> 0" using x(2) False by (cases l) auto
    then have "vfs_client_fid_add h c k v =
        Some (a, h1\<lparr>cl_pairs := (cl_pairs h1)(b \<mapsto> y\<lparr>fp_next := a\<rparr>)\<rparr>)"
      using x(1) pair_last_at [OF l1 False] y ab
      by (simp add: vfs_client_fid_add_def Cons h1_def Let_def b_def [symmetric])
    moreover have "pairs_at ((cl_pairs h1)(b \<mapsto> y\<lparr>fp_next := a\<rparr>)) (vc_fids x) (l @ [(a, k, v)])"
      using pairs_at_snoc [OF x(2,3) False al a(1)] y by (simp add: h1_def b_def)
    moreover have "cl_clients h = (cl_clients h)(c \<mapsto> x)" using x(1) by auto
    ultimately show ?thesis
      by (intro that [of "h1\<lparr>cl_pairs := (cl_pairs h1)(b \<mapsto> y\<lparr>fp_next := a\<rparr>)\<rparr>" x])
        (use b y a in \<open>auto simp: h1_def\<close>)
  qed
  have "pairs_ok h' (L(c \<mapsto> l @ [(a, k, v)]))"
    by (rule pairs_ok_upd [OF ok(1) assms(2), where x' = x']) (use h' al x(3) a in auto)
  moreover have "fresh_ok h'"
    using ok(2) Cons h'(2,4,8) x(1) unfolding fresh_ok_def by auto
  moreover have "clients_at (cl_clients h') (cl_first h') cs"
    using assms(1) x(1) h'(3-6) by (subst clients_at_cong [where m = "cl_clients h"]) (auto simp: vfs_ok_def)
  moreover have "dom (L(c \<mapsto> l @ [(a, k, v)])) = dom L" using assms(2) by auto
  ultimately show ?thesis using h'(1) a(1) assms(1) by (simp add: vfs_ok_def)
qed

lemma fid_update_ok:
  assumes "vfs_ok h cs L" "L c = Some l"
  shows "\<exists>r h'. vfs_client_fid_update h c k v = Some (r, h') \<and>
    (if map_of (map snd l) k = None then r = -1 \<and> h' = h
     else r = 0 \<and> (\<exists>l'. map fst l' = map fst l \<and> map snd l' = put_first k v (map snd l) \<and> vfs_ok h' cs (L(c \<mapsto> l'))))"
proof -
  have ok: "pairs_ok h L" "fresh_ok h" using assms(1) by (simp_all add: vfs_ok_def)
  obtain x where x: "cl_clients h c = Some x" "pairs_at (cl_pairs h) (vc_fids x) l" "distinct (map fst l)"
    by (rule pairs_okD [OF ok(1) assms(2)])
  show ?thesis
  proof (cases "find (\<lambda>(a, k', v). k' = k) l")
    case None
    then show ?thesis using x fid_find_at [OF x(2), of k] by (simp add: vfs_client_fid_update_def find_map_of)
  next
    case (Some e)
    obtain a w where e: "e = (a, k, w)" using find_holds [OF Some] by (cases e) auto
    obtain y where y: "cl_pairs h a = Some y" "a \<noteq> 0"
      using pairs_at_entry [OF x(2)] find_in [OF Some] e by blast
    obtain l' where l': "pairs_at ((cl_pairs h)(a \<mapsto> y\<lparr>fp_obj := v\<rparr>)) (vc_fids x) l'" "map fst l' = map fst l"
        "map snd l' = put_first k v (map snd l)"
      using pairs_at_put [OF x(2,3) Some [unfolded e] y(1)] by blast
    define h' where "h' = h\<lparr>cl_pairs := (cl_pairs h)(a \<mapsto> y\<lparr>fp_obj := v\<rparr>)\<rparr>"
    have set: "fst ` set l' = fst ` set l" using l'(2) by (metis set_map)
    have al: "a \<in> fst ` set l" using find_in [OF Some] e by force
    have "pairs_ok h' (L(c \<mapsto> l'))"
      by (rule pairs_ok_upd [OF ok(1) assms(2), where x' = x]) (use x l' set al in \<open>auto simp: h'_def\<close>)
    moreover have "fresh_ok h'" using ok(2) y(1) by (auto simp: fresh_ok_def h'_def)
    moreover have "dom (L(c \<mapsto> l')) = dom L" using assms(2) by auto
    ultimately have "vfs_ok h' cs (L(c \<mapsto> l'))" using assms(1) by (simp add: vfs_ok_def h'_def)
    moreover have "vfs_client_fid_update h c k v = Some (0, h')"
      using Some x y fid_find_at [OF x(2), of k] by (simp add: vfs_client_fid_update_def e h'_def)
    moreover have "map_of (map snd l) k \<noteq> None" using Some by (simp add: find_map_of)
    ultimately show ?thesis using l'(2,3) by (intro exI [of _ 0] exI [of _ h']) auto
  qed
qed

subsection \<open>The model keeps the contract\<close>

definition vfs_holds :: "clients \<Rightarrow> (u64 \<rightharpoonup> (u32 \<times> u64) list) \<Rightarrow> bool" where
  "vfs_holds h M \<longleftrightarrow> (\<exists>cs L. vfs_ok h cs L \<and> M = (\<lambda>c. map_option (map snd) (L c)))"

interpretation vc: fid_store vfs_holds 0 vfs_client_fid_get vfs_client_fid_add 0 vfs_client_fid_update
proof
  fix h M c m k v
  assume "vfs_holds h M" "M c = Some m"
  then obtain cs L l where ok: "vfs_ok h cs L" "L c = Some l" "m = map snd l" "M = (\<lambda>c. map_option (map snd) (L c))"
    by (auto simp: vfs_holds_def)
  have pairs: "pairs_ok h L" using ok(1) by (simp add: vfs_ok_def)
  show "vfs_client_fid_get h c k = Some (case map_of m k of None \<Rightarrow> 0 | Some v \<Rightarrow> v)"
    using fid_get_ok [OF pairs ok(2)] ok(3) by simp
  have upd: "vfs_ok h' cs (L(c \<mapsto> l')) \<Longrightarrow> vfs_holds h' (M(c \<mapsto> map snd l'))" for h' l'
    unfolding vfs_holds_def ok(4) by (intro exI [of _ cs] exI [of _ "L(c \<mapsto> l')"]) auto
  show "\<exists>r h'. vfs_client_fid_add h c k v = Some (r, h') \<and>
      (if r = 0 then h' = h else vfs_holds h' (M(c \<mapsto> m @ [(k, v)])))"
    using fid_add_ok [OF ok(1,2), of k v] upd ok(3) by fastforce
  show "\<exists>r h'. vfs_client_fid_update h c k v = Some (r, h') \<and>
      (if map_of m k = None then r = -1 \<and> h' = h else r = 0 \<and> vfs_holds h' (M(c \<mapsto> put_first k v m)))"
    using fid_update_ok [OF ok(1,2), of k v] upd ok(3) by (auto split: if_splits) metis
qed

subsection \<open>Making a client\<close>

lemma client_last_at:
  "clients_at (cl_clients h) p cs \<Longrightarrow> cs \<noteq> [] \<Longrightarrow> client_last h p = Some (fst (last cs))"
proof (induction cs arbitrary: p)
  case (Cons e cs)
  obtain a mq where e: "e = (a, mq)" by (cases e)
  with Cons.prems obtain x where x: "cl_clients h a = Some x" "clients_at (cl_clients h) (vc_next x) cs" "p = a"
    by (auto split: option.splits)
  show ?case
  proof (cases "cs = []")
    case True
    then show ?thesis using x e by (subst client_last.simps) auto
  next
    case False
    then have "vc_next x \<noteq> 0" using x(2) by (cases cs) auto
    then show ?thesis using x e False Cons.IH [OF x(2)] by (subst client_last.simps) auto
  qed
qed simp

lemma clients_at_snoc:
  "clients_at m p cs \<Longrightarrow> distinct (map fst cs) \<Longrightarrow> cs \<noteq> [] \<Longrightarrow> a \<notin> fst ` set cs \<Longrightarrow> a \<noteq> 0 \<Longrightarrow>
   m (fst (last cs)) = Some x \<Longrightarrow> vc_mq_id new = mq \<Longrightarrow> vc_next new = 0 \<Longrightarrow>
   clients_at (m(a \<mapsto> new, fst (last cs) \<mapsto> x\<lparr>vc_next := a\<rparr>)) p (cs @ [(a, mq)])"
proof (induction cs arbitrary: p)
  case (Cons e cs)
  obtain b q where e: "e = (b, q)" by (cases e)
  obtain y where y: "m b = Some y" "vc_mq_id y = q" "clients_at m (vc_next y) cs" "p = b" "b \<noteq> 0"
    using Cons.prems(1) by (auto simp: e split: option.splits)
  show ?case
  proof (cases "cs = []")
    case True
    with y Cons.prems show ?thesis by (auto simp: e)
  next
    case False
    then have "fst (last cs) \<in> fst ` set cs" by simp
    then have "fst (last cs) \<noteq> b" using Cons.prems(2) by (auto simp: e)
    with False Cons.IH [OF y(3)] Cons.prems y show ?thesis by (auto simp: e)
  qed
qed simp

lemma pairs_ok_new:
  assumes "pairs_ok h L" "L c = None" "cl_clients h' c = Some x" "vc_fids x = 0" "cl_pairs h' = cl_pairs h"
    and "\<And>d y. d \<noteq> c \<Longrightarrow> cl_clients h d = Some y \<Longrightarrow> \<exists>z. cl_clients h' d = Some z \<and> vc_fids z = vc_fids y"
  shows "pairs_ok h' (L(c \<mapsto> []))"
proof -
  have "distinct (map fst m) \<and> (\<exists>x. cl_clients h' d = Some x \<and> pairs_at (cl_pairs h') (vc_fids x) m)"
    if d: "(L(c \<mapsto> [])) d = Some m" for d m
  proof (cases "d = c")
    case True
    then show ?thesis using d assms(3,4) by simp
  next
    case False
    then have "L d = Some m" using d by simp
    then obtain y where "cl_clients h d = Some y" "pairs_at (cl_pairs h) (vc_fids y) m" "distinct (map fst m)"
      by (rule pairs_okD [OF assms(1)])
    then show ?thesis using assms(5) assms(6) [OF False] by fastforce
  qed
  moreover have "fst ` set m \<inter> fst ` set m' = {}"
    if "(L(c \<mapsto> [])) d = Some m" "(L(c \<mapsto> [])) d' = Some m'" "d \<noteq> d'" for d d' m m'
    using pairs_ok_disjoint [OF assms(1), of d m d' m'] that by (cases "d = c"; cases "d' = c") simp_all
  ultimately show ?thesis unfolding pairs_ok_def by blast
qed

lemma vfs_create_ok:
  assumes "vfs_ok h cs L" "mq_open ch \<noteq> -1" "cl_fresh h = a # as"
  shows "\<exists>h'. vfs_client_create mq_open h ch = Some (a, h') \<and> a \<noteq> 0 \<and> a \<notin> fst ` set cs \<and> cl_fresh h' = as \<and>
    vfs_ok h' (cs @ [(a, mq_open ch)]) (L(a \<mapsto> []))"
proof -
  have ok: "pairs_ok h L" "fresh_ok h" "clients_at (cl_clients h) (cl_first h) cs" "distinct (map fst cs)" "dom L = fst ` set cs"
    using assms(1) by (simp_all add: vfs_ok_def)
  have a: "a \<noteq> 0" "a \<notin> dom (cl_pairs h)" "a \<notin> dom (cl_clients h)"
    using ok(2) assms(3) by (auto simp: fresh_ok_def)
  have acs: "a \<notin> fst ` set cs" using clients_at_dom [OF ok(3)] a(3) by blast
  then have La: "L a = None" using ok(5) by blast
  define new where "new = \<lparr>vc_mq_id = mq_open ch, vc_fids = 0, vc_prev = 0, vc_next = 0\<rparr>"
  define h1 where "h1 = h\<lparr>cl_fresh := as, cl_clients := (cl_clients h)(a \<mapsto> new)\<rparr>"
  have fresh: "fresh_ok h'" if "cl_fresh h' = as" "cl_pairs h' = cl_pairs h" "dom (cl_clients h') = insert a (dom (cl_clients h))"
    for h' using ok(2) assms(3) that unfolding fresh_ok_def by auto
  show ?thesis
  proof (cases "cs = []")
    case True
    then have first: "cl_first h = 0" using ok(3) by simp
    have "pairs_ok (h1\<lparr>cl_first := a\<rparr>) (L(a \<mapsto> []))"
      by (rule pairs_ok_new [OF ok(1) La, where x = new]) (simp_all add: h1_def new_def)
    moreover have "fresh_ok (h1\<lparr>cl_first := a\<rparr>)" by (rule fresh) (simp_all add: h1_def)
    ultimately have "vfs_ok (h1\<lparr>cl_first := a\<rparr>) [(a, mq_open ch)] (L(a \<mapsto> []))"
      using True a(1) ok(5) by (simp add: vfs_ok_def h1_def new_def)
    then show ?thesis using assms(2,3) first True a(1)
      by (simp add: vfs_client_create_def Let_def h1_def new_def)
  next
    case False
    define b where "b = fst (last cs)"
    have "b \<in> fst ` set cs" using False by (simp add: b_def)
    then obtain y where y: "cl_clients h b = Some y" "a \<noteq> b" using clients_at_dom [OF ok(3)] acs by blast
    define h' where "h' = h1\<lparr>cl_clients := (cl_clients h1)(b \<mapsto> y\<lparr>vc_next := a\<rparr>)\<rparr>"
    have c1: "clients_at (cl_clients h1) (cl_first h1) cs"
      using ok(3) acs by (subst clients_at_cong [where m = "cl_clients h"]) (auto simp: h1_def)
    have "cl_first h \<noteq> 0" "cl_first h1 = cl_first h" using False ok(3) by (cases cs; auto simp: h1_def)+
    moreover have "cl_clients h1 b = Some y" using y by (simp add: h1_def)
    ultimately have run: "vfs_client_create mq_open h ch = Some (a, h')"
      using assms(2,3) client_last_at [OF c1 False]
      using y by (simp add: vfs_client_create_def Let_def h1_def new_def b_def [symmetric] h'_def)
    have "pairs_ok h' (L(a \<mapsto> []))"
      by (rule pairs_ok_new [OF ok(1) La, where x = new]) (use y in \<open>auto simp: h'_def h1_def new_def\<close>)
    moreover have "fresh_ok h'" by (rule fresh) (use y in \<open>auto simp: h'_def h1_def\<close>)
    moreover have "clients_at (cl_clients h') (cl_first h') (cs @ [(a, mq_open ch)])"
      using clients_at_snoc [OF ok(3,4) False acs a(1), of y new "mq_open ch"] y(1)
      by (simp add: h'_def h1_def b_def new_def)
    ultimately have "vfs_ok h' (cs @ [(a, mq_open ch)]) (L(a \<mapsto> []))"
      using ok(4,5) acs by (auto simp: vfs_ok_def)
    then show ?thesis using run a(1) acs by (auto simp: h'_def h1_def)
  qed
qed

lemma vfs_get_ok:
  "vfs_ok h cs L \<Longrightarrow> vfs_client_get h mq = Some (case find (\<lambda>(a, mq'). mq' = mq) cs of None \<Rightarrow> 0 | Some e \<Rightarrow> fst e)"
  using client_find_at by (simp add: vfs_client_get_def vfs_ok_def)

subsection \<open>Removing\<close>

lemma fid_find_prev_at:
  "pairs_at (cl_pairs h) p (l1 @ (a, k, v) # l2) \<Longrightarrow> k \<notin> fst ` snd ` set l1 \<Longrightarrow>
   fid_find_prev h k p q = Some (a, if l1 = [] then q else fst (last l1))"
proof (induction l1 arbitrary: p q)
  case Nil
  then show ?case by (subst fid_find_prev.simps) (auto split: option.splits)
next
  case (Cons e l1)
  obtain b k' u where e: "e = (b, k', u)" by (cases e)
  with Cons show ?case by (subst fid_find_prev.simps) (auto split: option.splits)
qed

text \<open>Removing the first pair: it is freed, but the client still points to it.\<close>

lemma fid_remove_first:
  assumes "pairs_ok h L" "L c = Some ((a, k, v) # l)"
  shows "\<exists>h' x. vfs_client_fid_remove h c k = Some (0, h') \<and> cl_pairs h' a = None \<and>
    cl_clients h' = cl_clients h \<and> cl_clients h c = Some x \<and> vc_fids x = a \<and> a \<noteq> 0"
proof -
  obtain x where x: "cl_clients h c = Some x" "pairs_at (cl_pairs h) (vc_fids x) ((a, k, v) # l)"
    by (rule pairs_okD [OF assms])
  then obtain y where y: "cl_pairs h a = Some y" "vc_fids x = a" "a \<noteq> 0" by (auto split: option.splits)
  have "fid_find_prev h k (vc_fids x) (vc_fids x) = Some (a, a)"
    using fid_find_prev_at [of h "vc_fids x" "[]" a k v l "vc_fids x"] x(2) y(2) by simp
  then show ?thesis using x(1) y by (simp add: vfs_client_fid_remove_def Let_def)
qed

lemma pairs_at_delete:
  "pairs_at m p (l1 @ (a, k, v) # l2) \<Longrightarrow> distinct (map fst (l1 @ (a, k, v) # l2)) \<Longrightarrow> l1 \<noteq> [] \<Longrightarrow>
   m a = Some x \<Longrightarrow> m (fst (last l1)) = Some y \<Longrightarrow>
   pairs_at (m(fst (last l1) \<mapsto> y\<lparr>fp_next := fp_next x\<rparr>, a := None)) p (l1 @ l2)"
proof (induction l1 arbitrary: p)
  case (Cons e l1)
  obtain b k' u where e: "e = (b, k', u)" by (cases e)
  obtain z where z: "m b = Some z" "fp_fid z = k'" "fp_obj z = u" "pairs_at m (fp_next z) (l1 @ (a, k, v) # l2)" "p = b" "b \<noteq> 0"
    using Cons.prems(1) by (auto simp: e split: option.splits)
  have ba: "b \<noteq> a" using Cons.prems(2) by (auto simp: e)
  show ?case
  proof (cases "l1 = []")
    case True
    then have "pairs_at m (fp_next x) l2" using z(4) Cons.prems(4) by simp
    moreover have "b \<notin> fst ` set l2" "a \<notin> fst ` set l2" using Cons.prems(2) by (auto simp: e True)
    ultimately have "pairs_at (m(b \<mapsto> y\<lparr>fp_next := fp_next x\<rparr>, a := None)) (fp_next x) l2"
      by (subst pairs_at_cong [where m = m]) auto
    then show ?thesis using z Cons.prems(5) True ba by (simp add: e fun_upd_def)
  next
    case False
    then have "fst (last l1) \<in> fst ` set l1" by simp
    then have lb: "fst (last l1) \<noteq> b" using Cons.prems(2) by (auto simp: e)
    have "pairs_at (m(fst (last l1) \<mapsto> y\<lparr>fp_next := fp_next x\<rparr>, a := None)) (fp_next z) (l1 @ l2)"
      by (rule Cons.IH [OF z(4)]) (use False Cons.prems e in auto)
    then show ?thesis using z False lb ba by (simp add: e fun_upd_def)
  qed
qed simp

text \<open>
  C26. Removing a file id that is not the first of its client takes exactly that association out, and keeps
  the lists of all clients in order.
\<close>

theorem fid_remove_later:
  assumes "vfs_ok h cs L" "L c = Some (l1 @ (a, k, v) # l2)" "l1 \<noteq> []" "k \<notin> fst ` snd ` set l1"
  shows "\<exists>h'. vfs_client_fid_remove h c k = Some (0, h') \<and> vfs_ok h' cs (L(c \<mapsto> l1 @ l2))"
proof -
  have ok: "pairs_ok h L" "fresh_ok h" using assms(1) by (simp_all add: vfs_ok_def)
  let ?l = "l1 @ (a, k, v) # l2"
  obtain x where x: "cl_clients h c = Some x" "pairs_at (cl_pairs h) (vc_fids x) ?l" "distinct (map fst ?l)"
    by (rule pairs_okD [OF ok(1) assms(2)])
  define b where "b = fst (last l1)"
  have b: "b \<in> fst ` set l1" using assms(3) by (simp add: b_def)
  obtain y z where yz: "cl_pairs h a = Some y" "cl_pairs h b = Some z"
    using pairs_at_dom [OF x(2)] b by fastforce
  have a0: "a \<noteq> 0" using pairs_at_entry [OF x(2), of a k v] by auto
  define h' where "h' = h\<lparr>cl_pairs := (cl_pairs h)(b \<mapsto> z\<lparr>fp_next := fp_next y\<rparr>, a := None)\<rparr>"
  have ab: "a \<noteq> b" using b x(3) by auto
  have "vfs_client_fid_remove h c k = Some (0, h')"
    using fid_find_prev_at [OF x(2) assms(4)] assms(3) x(1) yz a0
    by (simp add: vfs_client_fid_remove_def Let_def h'_def b_def [symmetric])
  moreover have "pairs_ok h' (L(c \<mapsto> l1 @ l2))"
    by (rule pairs_ok_upd [OF ok(1) assms(2), where x' = x])
      (use x pairs_at_delete [OF x(2,3) assms(3) yz(1)] yz(2) b in \<open>auto simp: h'_def b_def\<close>)
  moreover have "fresh_ok h'" using ok(2) yz(2) by (auto simp: fresh_ok_def h'_def)
  moreover have "dom (L(c \<mapsto> l1 @ l2)) = dom L" using assms(2) by auto
  ultimately show ?thesis using assms(1) by (simp add: vfs_ok_def h'_def)
qed

text \<open>
  Removing the first file id of a client: the answer is success, but the client keeps the pointer to the
  pair that was freed, and every later lookup of that client, of any id, follows it.
\<close>

lemma fid_remove_first_dangles:
  assumes "vfs_ok h cs L" "L c = Some ((a, k, v) # l)"
  shows "\<exists>h'. vfs_client_fid_remove h c k = Some (0, h') \<and> (\<forall>j. vfs_client_fid_get h' c j = None)"
proof -
  have "pairs_ok h L" using assms(1) by (simp add: vfs_ok_def)
  from fid_remove_first [OF this assms(2)] obtain h' x where h': "vfs_client_fid_remove h c k = Some (0, h')"
    "cl_pairs h' a = None" "cl_clients h' c = Some x" "vc_fids x = a" "a \<noteq> 0" by auto
  then have "fid_find h' j a = None" for j by (subst fid_find.simps) simp
  then show ?thesis using h' by (simp add: vfs_client_fid_get_def)
qed

text \<open>
  Removing a client that holds a file reads a pair that was just freed; removing a client without files
  leaves it in the list of clients, so that looking for any queue behind it reads the freed client.
\<close>

lemma vfs_client_remove_unsafe:
  assumes "vfs_ok h cs L" "cs = cs1 @ (c, mq) # cs2" "L c = Some l"
  shows "if l \<noteq> [] then vfs_client_remove h c = None
    else \<exists>h'. vfs_client_remove h c = Some h' \<and> (\<forall>q. q \<notin> snd ` set cs1 \<longrightarrow> vfs_client_get h' q = None)"
proof (cases l)
  case Nil
  have "pairs_ok h L" using assms(1) by (simp add: vfs_ok_def)
  from pairs_okD [OF this assms(3)] obtain x where x: "cl_clients h c = Some x" "vc_fids x = 0" using Nil by auto
  define h' where "h' = h\<lparr>cl_clients := (cl_clients h)(c := None)\<rparr>"
  have "vfs_client_remove h c = Some h'"
    using x by (simp add: vfs_client_remove_def h'_def remove_loop.simps)
  moreover have "client_find h' q p = None" if "clients_at (cl_clients h) p (cs1 @ (c, mq) # cs2)"
      "distinct (map fst (cs1 @ (c, mq) # cs2))" "q \<notin> snd ` set cs1" for q p
    using that
  proof (induction cs1 arbitrary: p)
    case Nil
    then show ?case by (subst client_find.simps) (auto simp: h'_def split: option.splits)
  next
    case (Cons e cs1)
    obtain d mq' where e: "e = (d, mq')" by (cases e)
    with Cons.prems obtain y where y: "cl_clients h d = Some y" "vc_mq_id y = mq'" "p = d" "d \<noteq> c" "q \<noteq> mq'"
        "clients_at (cl_clients h) (vc_next y) (cs1 @ (c, mq) # cs2)"
      by (auto split: option.splits)
    have "client_find h' q (vc_next y) = None"
      by (rule Cons.IH [OF y(6)]) (use Cons.prems e in auto)
    then show ?case using y Cons.prems(1) by (subst client_find.simps) (auto simp: h'_def e)
  qed
  ultimately show ?thesis
    using assms(1,2) Nil by (auto simp: vfs_ok_def vfs_client_get_def h'_def)
next
  case (Cons e l')
  obtain a k v where e: "e = (a, k, v)" by (cases e)
  have "pairs_ok h L" using assms(1) by (simp add: vfs_ok_def)
  from fid_remove_first [OF this, of c a k v l'] assms(3) Cons e obtain h' x where h':
    "vfs_client_fid_remove h c k = Some (0, h')" "cl_pairs h' a = None" "cl_clients h c = Some x" "vc_fids x = a" "a \<noteq> 0"
    by auto
  obtain x' where "cl_clients h c = Some x'" "pairs_at (cl_pairs h) (vc_fids x') l"
    by (rule pairs_okD [OF \<open>pairs_ok h L\<close> assms(3)])
  then obtain y where "cl_pairs h a = Some y" "fp_fid y = k"
    using h'(3) unfolding Cons e by (auto split: option.splits)
  then have "remove_loop h c a = None" using h' by (subst remove_loop.simps) simp
  then show ?thesis using h' Cons by (simp add: vfs_client_remove_def)
qed

subsection \<open>Consequences of the contract\<close>

text \<open>
  C27. Clients do not see each other: whatever one client attaches or changes, every lookup of another client
  gives what it gave before.
\<close>

theorem vfs_client_isolated:
  assumes "vfs_holds h M" "M c = Some m" "M c' = Some m'" "c' \<noteq> c"
    and "vfs_client_fid_add h c k v = Some (r, h') \<or> vfs_client_fid_update h c k v = Some (q, h')"
  shows "vfs_client_fid_get h' c' j = vfs_client_fid_get h c' j"
  using vc.lookup_other [OF assms(1-4)] assms(5) by blast

text \<open>An id that is used again keeps its old object.\<close>

lemma fid_added_again:
  assumes "vfs_holds h M" "M c = Some m" "map_of m k = Some w" "vfs_client_fid_add h c k v = Some (r, h')"
  shows "vfs_client_fid_get h' c k = Some w"
  using assms by (rule vc.lookup_added_again)

subsection \<open>A heap with two clients\<close>

definition two_clients :: clients where
  "two_clients = \<lparr>cl_pairs = [24 \<mapsto> \<lparr>fp_fid = 1, fp_obj = 100, fp_next = 32\<rparr>, 32 \<mapsto> \<lparr>fp_fid = 2, fp_obj = 200, fp_next = 0\<rparr>],
     cl_clients = [8 \<mapsto> \<lparr>vc_mq_id = 5, vc_fids = 24, vc_prev = 0, vc_next = 16\<rparr>,
                   16 \<mapsto> \<lparr>vc_mq_id = 6, vc_fids = 0, vc_prev = 0, vc_next = 0\<rparr>],
     cl_first = 8, cl_fresh = [40, 48]\<rparr>"

definition two_lists :: "u64 \<rightharpoonup> (u64 \<times> u32 \<times> u64) list" where
  "two_lists = [8 \<mapsto> [(24, 1, 100), (32, 2, 200)], 16 \<mapsto> []]"

lemma two_clients_ok: "vfs_ok two_clients [(8, 5), (16, 6)] two_lists"
proof -
  have "pairs_ok two_clients two_lists"
    by (auto simp: pairs_ok_def two_clients_def two_lists_def split: if_splits)
  then show ?thesis by (auto simp: vfs_ok_def fresh_ok_def two_clients_def two_lists_def)
qed

theorem fid_remove_later_witness:
  "\<exists>h'. vfs_client_fid_remove two_clients 8 2 = Some (0, h') \<and>
     vfs_ok h' [(8, 5), (16, 6)] (two_lists(8 \<mapsto> [(24, 1, 100)]))"
  using fid_remove_later [OF two_clients_ok, of 8 "[(24, 1, 100)]" 32 2 200 "[]"] by (simp add: two_lists_def)

lemma fid_remove_first_dangles_witness:
  "\<exists>h'. vfs_client_fid_remove two_clients 8 1 = Some (0, h') \<and> (\<forall>j. vfs_client_fid_get h' 8 j = None)"
  by (rule fid_remove_first_dangles [OF two_clients_ok, of 8 24 1 100 "[(32, 2, 200)]"]) (simp add: two_lists_def)

lemma vfs_client_remove_unsafe_witness: "vfs_client_remove two_clients 8 = None"
  using vfs_client_remove_unsafe [OF two_clients_ok, of "[]" 8 5 "[(16, 6)]" "[(24, 1, 100), (32, 2, 200)]"]
  by (simp add: two_lists_def)

theorem vfs_client_isolated_witness:
  "\<exists>r h'. vfs_client_fid_add two_clients 16 1 300 = Some (r, h') \<and> vfs_client_fid_get h' 8 1 = Some 100"
proof -
  have holds: "vfs_holds two_clients (\<lambda>c. map_option (map snd) (two_lists c))"
    unfolding vfs_holds_def using two_clients_ok by blast
  have M: "map_option (map snd) (two_lists 16) = Some []" "map_option (map snd) (two_lists 8) = Some [(1, 100), (2, 200)]"
    by (simp_all add: two_lists_def)
  obtain h' where add: "vfs_client_fid_add two_clients 16 1 300 = Some (40, h')"
    by (simp add: vfs_client_fid_add_def two_clients_def)
  have "vfs_client_fid_get h' 8 1 = vfs_client_fid_get two_clients 8 1"
    by (rule vfs_client_isolated [OF holds M _ disjI1 [OF add]]) simp
  moreover have "vfs_client_fid_get two_clients 8 1 = Some 100"
    using vc.lookup_law [OF holds M(2)] by simp
  ultimately show ?thesis using add by auto
qed

end
