(* ===== verification/Rd_Server.thy ===== *)
theory Rd_Server
  imports Rd Vfs_Client
begin

text \<open>
  The message handlers of the RAM disk server (\<^verbatim>\<open>modules/rd/main.c\<close>). A handler takes the message, the buffer
  it came in and the clients of the server; it gives the length of the reply, the buffer and the clients.

  What lies outside is in the environment: the disk, the literal of the magic field, \<open>mq_open\<close> and \<open>malloc\<close>.
  The arrays on the stack are not initialised in the code; here they are zero, and none of the bytes that the
  code did not write is part of a reply.
\<close>

record rd_env =
  e_lit :: bytes
  e_rd :: bytes
  e_mq_open :: "bytes \<Rightarrow> u32"
  e_malloc :: "nat \<Rightarrow> bytes option"

definition RAMDISK :: u64 where [layout_simps]: "RAMDISK = 0x3e000000"
definition VFS_MAX_IOUNIT :: nat where [layout_simps]: "VFS_MAX_IOUNIT = 100"
definition DMDIR :: u32 where [layout_simps]: "DMDIR = 0x80000000"
definition NOFID :: u32 where [layout_simps]: "NOFID = -1"

text \<open>A pointer to the header at a position of the disk.\<close>

definition header_ptr :: "nat \<Rightarrow> u64" where
  "header_ptr p = RAMDISK + of_nat p"

definition header_of :: "u64 \<Rightarrow> nat" where
  "header_of ptr = unat (ptr - RAMDISK)"

definition fcall_error :: "string \<Rightarrow> bytes" where
  "fcall_error s = pstr (ascii s) @ [0]"

definition EINVALID :: bytes where "EINVALID = fcall_error ''Invalid message''"
definition ENOTFOUND :: bytes where "ENOTFOUND = fcall_error ''Requested File not found''"
definition ECLIENT :: bytes where "ECLIENT = fcall_error ''Client error''"

fun type_code :: "fcall_types \<Rightarrow> u8" where
  "type_code ty = (case first_index ((=) ty) fcall_type_list of None \<Rightarrow> 0 | Some i \<Rightarrow> of_nat (100 + i))"

definition reply_error :: "bytes \<Rightarrow> vfs_msg \<Rightarrow> bytes \<Rightarrow> (nat \<times> bytes) option" where
  "reply_error e msg buf =
     vfs_msg_put (msg\<lparr>v_fcall := (v_fcall msg)\<lparr>f_type := type_code Rerror, f_ename := e\<rparr>\<rparr>) buf"

definition with_clients :: "clients \<Rightarrow> (nat \<times> bytes) option \<Rightarrow> (nat \<times> bytes \<times> clients) option" where
  "with_clients h r = map_option (\<lambda>(len, buf). (len, buf, h)) r"

definition rd_attach :: "rd_env \<Rightarrow> clients \<Rightarrow> vfs_msg \<Rightarrow> bytes \<Rightarrow> (nat \<times> bytes \<times> clients) option" where
  "rd_attach env h msg buf = (let f = v_fcall msg in do {
     ulen \<leftarrow> pstr_len (f_uname f);
     if ulen = 0 then Some (0, buf, h)
     else do {
       name \<leftarrow> pstrtoz (e_malloc env) (Some (replicate 32 0)) (f_uname f) 32;
       case name of None \<Rightarrow> Some (0, buf, h)
       | Some client_name \<Rightarrow> do {
           (client, h1) \<leftarrow> vfs_client_create (e_mq_open env) h client_name;
           if client = 0 then Some (0, buf, h1)
           else if f_fid f = NOFID \<or> f_afid f \<noteq> NOFID then with_clients h1 (reply_error EINVALID msg buf)
           else do {
             found \<leftarrow> rd_find (e_lit env) (e_rd env) (f_aname f);
             case found of None \<Rightarrow> with_clients h1 (reply_error ENOTFOUND msg buf)
             | Some p \<Rightarrow> do {
                 (pair, h2) \<leftarrow> vfs_client_fid_add h1 client (f_fid f) (header_ptr p);
                 ty \<leftarrow> rd_get_type (e_rd env) p;
                 with_clients h2 (vfs_msg_put (msg\<lparr>v_fcall := f\<lparr>f_type := type_code Rattach,
                   f_qid := \<lparr>q_type = ty, q_version = 0, q_id = ucast (f_fid f)\<rparr>\<rparr>\<rparr>) buf) } } } } })"

text \<open>The header that the message refers to, or the error to answer with.\<close>

definition fid_header :: "clients \<Rightarrow> vfs_msg \<Rightarrow> (bytes + nat) option" where
  "fid_header h msg = do {
     client \<leftarrow> vfs_client_get h (v_mq_id msg);
     if client = 0 then Some (Inl ECLIENT)
     else do {
       obj \<leftarrow> vfs_client_fid_get h client (f_fid (v_fcall msg));
       if obj = 0 then Some (Inl ENOTFOUND) else Some (Inr (header_of obj)) } }"

definition rd_read :: "rd_env \<Rightarrow> clients \<Rightarrow> vfs_msg \<Rightarrow> bytes \<Rightarrow> (nat \<times> bytes) option" where
  "rd_read env h msg buf = (let f = v_fcall msg; read_buf = replicate VFS_MAX_IOUNIT 0 in do {
     hd \<leftarrow> fid_header h msg;
     case hd of Inl e \<Rightarrow> reply_error e msg buf
     | Inr p \<Rightarrow> do {
         ty \<leftarrow> rd_at (e_rd env) (p + TAR_TYPE_OFF);
         if ty \<noteq> RDT_FILE \<and> ty \<noteq> RDT_DIR then reply_error EINVALID msg buf
         else do {
           (count, dat) \<leftarrow>
             (if ty = RDT_FILE then rd_read_file (e_lit env) (e_rd env) p read_buf (f_offset f) (f_count f)
              else map_option (\<lambda>(n, b). (of_nat n, b))
                (rd_read_dir (e_malloc env) (e_lit env) (e_rd env) p read_buf (f_offset f) (f_count f)
                  (of_nat VFS_MAX_IOUNIT)));
           vfs_msg_put (msg\<lparr>v_fcall := f\<lparr>f_type := type_code Rread, f_count := count, f_data := dat\<rparr>\<rparr>) buf } } })"

definition rd_stat :: "rd_env \<Rightarrow> clients \<Rightarrow> vfs_msg \<Rightarrow> bytes \<Rightarrow> (nat \<times> bytes) option" where
  "rd_stat env h msg buf = (let f = v_fcall msg in do {
     hd \<leftarrow> fid_header h msg;
     case hd of Inl e \<Rightarrow> reply_error e msg buf
     | Inr p \<Rightarrow> do {
         (n, st) \<leftarrow> rd_get_stat (e_malloc env) (e_lit env) (e_rd env) p (replicate VFS_MAX_IOUNIT 0) (of_nat VFS_MAX_IOUNIT);
         let nstat = (of_nat n :: u16);
         if nstat = 0 then reply_error ENOTFOUND msg buf
         else vfs_msg_put (msg\<lparr>v_fcall := f\<lparr>f_type := type_code Rstat, f_nstat := nstat, f_stat := st\<rparr>\<rparr>) buf } })"

text \<open>
  The loop of \<open>_walk\<close>: \<open>i\<close> elements of \<open>n\<close> are done, \<open>path\<close> is the string so far, with \<open>pos\<close> the place to write at,
  and \<open>wname\<close> the elements to come. It gives the number of elements found, their entries and the last header.
\<close>

fun walk_loop :: "rd_env \<Rightarrow> nat \<Rightarrow> nat \<Rightarrow> bytes \<Rightarrow> nat \<Rightarrow> bytes \<Rightarrow> qid list \<Rightarrow> nat option \<Rightarrow>
    (nat \<times> qid list \<times> nat option) option" where
  "walk_loop env 0 i path pos wname wqid header = Some (i, wqid, header)"
| "walk_loop env (Suc n) i path pos wname wqid header = do {
     wlen \<leftarrow> pstr_len wname;
     len \<leftarrow> pstr_len path;
     path1 \<leftarrow> wr_bytes path 0 (le_bytes 2 (len + wlen));
     tail \<leftarrow> memcpy_c (drop pos path1) (drop 2 wname) wlen;
     let path2 = take pos path1 @ tail;
     (path3, pos3) \<leftarrow> (if n \<noteq> 0 then do {
         slash \<leftarrow> wr_at path2 (pos + wlen) 0x2f;
         len2 \<leftarrow> pstr_len slash;
         path3 \<leftarrow> wr_bytes slash 0 (le_bytes 2 (len2 + 1));
         Some (path3, pos + wlen + 1) }
       else Some (path2, pos + wlen));
     found \<leftarrow> rd_find (e_lit env) (e_rd env) path3;
     case found of None \<Rightarrow> Some (i, wqid, None)
     | Some p \<Rightarrow> do {
         ty \<leftarrow> rd_get_type (e_rd env) p;
         rest \<leftarrow> pstriter wname;
         walk_loop env n (i + 1) path3 pos3 rest
           (wqid @ [\<lparr>q_type = ty, q_version = 0, q_id = ucast NOFID\<rparr>]) (Some p) } }"

definition rd_walk :: "rd_env \<Rightarrow> clients \<Rightarrow> vfs_msg \<Rightarrow> bytes \<Rightarrow> (nat \<times> bytes \<times> clients) option" where
  "rd_walk env h msg buf = (let f = v_fcall msg; nwname = unat (f_nwname f) in do {
     psize \<leftarrow> fcall_path_size f;
     let total_length = psize + 1;
     if f_newfid f = NOFID then with_clients h (reply_error EINVALID msg buf)
     else do {
       client \<leftarrow> vfs_client_get h (v_mq_id msg);
       if client = 0 then with_clients h (reply_error ECLIENT msg buf)
       else case e_malloc env (unat total_length + 2) of None \<Rightarrow> with_clients h (reply_error ECLIENT msg buf)
       | Some path \<Rightarrow> do {
           path1 \<leftarrow> wr_at path 2 0x2f;
           path2 \<leftarrow> wr_bytes path1 0 (le_bytes 2 1);
           (nwqid, wqid, header) \<leftarrow> walk_loop env nwname 0 path2 3 (f_wname f) [] None;
           if nwqid = 0 then with_clients h (reply_error ENOTFOUND msg buf)
           else do {
             (h1, wqid1) \<leftarrow> (if nwqid = nwname then do {
                 p \<leftarrow> header;
                 (pair, h1) \<leftarrow> vfs_client_fid_add h client (f_newfid f) (header_ptr p);
                 Some (h1, wqid[nwqid - 1 := (wqid ! (nwqid - 1))\<lparr>q_id := ucast (f_newfid f)\<rparr>]) }
               else Some (h, wqid));
             with_clients h1 (vfs_msg_put (msg\<lparr>v_fcall := f\<lparr>f_type := type_code Rwalk, f_nwqid := of_nat nwqid,
               f_wqid := concat (map enc_qid wqid1)\<rparr>\<rparr>) buf) } } } })"

text \<open>
  The message handler. \<open>mq_send\<close> takes the queue, the buffer, the length and the state of the world; its result
  is only printed. A type without a handler is sent back as it came.
\<close>

definition rd_handle_message ::
    "(u32 \<Rightarrow> bytes \<Rightarrow> nat \<Rightarrow> 'w \<Rightarrow> int \<times> 'w) \<Rightarrow> rd_env \<Rightarrow> clients \<Rightarrow> vfs_msg \<Rightarrow> bytes \<Rightarrow> 'w \<Rightarrow> (bytes \<times> clients \<times> 'w) option" where
  "rd_handle_message mq_send env h msg0 buf w = do {
     (len, msg) \<leftarrow> vfs_msg_parse msg0 buf;
     if len = 0 then Some (buf, h, w)
     else do {
       (len, buf1, h1) \<leftarrow> (case type_of (f_type (v_fcall msg)) of
           Some Tattach \<Rightarrow> rd_attach env h msg buf
         | Some Tread \<Rightarrow> with_clients h (rd_read env h msg buf)
         | Some Tstat \<Rightarrow> with_clients h (rd_stat env h msg buf)
         | Some Twalk \<Rightarrow> rd_walk env h msg buf
         | _ \<Rightarrow> Some (len, buf, h));
       if len = 0 then Some (buf1, h1, w)
       else Some (buf1, h1, snd (mq_send (v_mq_id msg) buf1 len w)) } }"

text \<open>The server loop on a list of messages; each one is received into the same buffer.\<close>

fun rd_serve ::
    "(u32 \<Rightarrow> bytes \<Rightarrow> nat \<Rightarrow> 'w \<Rightarrow> int \<times> 'w) \<Rightarrow> rd_env \<Rightarrow> vfs_msg \<Rightarrow> bytes list \<Rightarrow> clients \<Rightarrow> 'w \<Rightarrow> (clients \<times> 'w) option" where
  "rd_serve mq_send env msg0 [] h w = Some (h, w)"
| "rd_serve mq_send env msg0 (buf # bufs) h w = do {
     (buf1, h1, w1) \<leftarrow> rd_handle_message mq_send env h msg0 buf w;
     rd_serve mq_send env msg0 bufs h1 w1 }"

subsection \<open>The clients stay in order\<close>

definition clients_ok :: "clients \<Rightarrow> bool" where
  "clients_ok h \<longleftrightarrow> (\<exists>cs L. vfs_ok h cs L)"

lemma create_keeps:
  assumes "clients_ok h" "vfs_client_create mq_open h ch = Some (c, h')"
  shows "clients_ok h' \<and> (c = 0 \<or> (\<exists>cs L. vfs_ok h' cs L \<and> c \<in> dom L))"
proof -
  obtain cs L where ok: "vfs_ok h cs L" using assms(1) by (auto simp: clients_ok_def)
  show ?thesis
  proof (cases "cl_fresh h")
    case Nil
    then show ?thesis using assms by (simp add: vfs_client_create_def)
  next
    case (Cons a as)
    show ?thesis
    proof (cases "mq_open ch = -1")
      case True
      then have h': "h' = h\<lparr>cl_fresh := as\<rparr>" "c = 0"
        using assms(2) by (simp_all add: vfs_client_create_def Cons Let_def)
      have "vfs_ok h' cs L" using ok by (simp add: h' vfs_ok_def pairs_ok_def fresh_ok_def Cons)
      then show ?thesis using h' by (auto simp: clients_ok_def)
    next
      case False
      from vfs_create_ok [of h cs L mq_open ch a as, OF ok this Cons] assms(2)
      have "vfs_ok h' (cs @ [(a, mq_open ch)]) (L(a \<mapsto> []))" "c = a" "c \<in> dom (L(a \<mapsto> []))" by auto
      then show ?thesis unfolding clients_ok_def by blast
    qed
  qed
qed

lemma add_keeps:
  assumes "vfs_ok h cs L" "c \<in> dom L" "vfs_client_fid_add h c k v = Some (r, h')"
  shows "clients_ok h'"
proof -
  obtain l where "L c = Some l" using assms(2) by blast
  from fid_add_ok [OF assms(1) this, of k v] assms(3) have "h' = h \<or> vfs_ok h' cs (L(c \<mapsto> l @ [(r, k, v)]))"
    by (auto split: if_splits)
  then show ?thesis using assms(1) by (auto simp: clients_ok_def)
qed

lemma with_clients_Some: "with_clients h r = Some (len, buf, h') \<Longrightarrow> h' = h"
  by (auto simp: with_clients_def)

lemma rd_attach_keeps:
  assumes "clients_ok h" "rd_attach env h msg buf = Some (len, buf', h')"
  shows "clients_ok h'"
proof -
  have fin: "clients_ok h1 \<Longrightarrow> with_clients h1 r = Some (len, buf', h') \<Longrightarrow> clients_ok h'" for h1 r
    using with_clients_Some by metis
  show ?thesis
    using assms unfolding rd_attach_def Let_def
    by (auto split: bind_splits if_splits option.splits prod.splits
      dest!: create_keeps [OF assms(1)] intro: fin add_keeps)
qed

lemma vfs_get_dom: "vfs_ok h cs L \<Longrightarrow> vfs_client_get h mq = Some c \<Longrightarrow> c = 0 \<or> c \<in> dom L"
  using vfs_get_ok [of h cs L mq] by (force simp: vfs_ok_def dest: find_in split: option.splits)

lemma rd_walk_keeps:
  assumes "clients_ok h" "rd_walk env h msg buf = Some (len, buf', h')"
  shows "clients_ok h'"
proof -
  obtain cs L where ok: "vfs_ok h cs L" using assms(1) by (auto simp: clients_ok_def)
  have fin: "clients_ok h1 \<Longrightarrow> with_clients h1 r = Some (len, buf', h') \<Longrightarrow> clients_ok h'" for h1 r
    using with_clients_Some by metis
  show ?thesis
    using assms unfolding rd_walk_def Let_def
    by (auto split: bind_splits if_splits option.splits prod.splits
      dest!: vfs_get_dom [OF ok] intro: fin add_keeps [OF ok])
qed

lemma rd_handle_keeps:
  assumes "clients_ok h" "rd_handle_message mq_send env h msg0 buf w = Some (buf', h', w')"
  shows "clients_ok h'"
  using assms unfolding rd_handle_message_def
  by (auto split: bind_splits if_splits option.splits fcall_types.splits prod.splits
    dest!: with_clients_Some dest: rd_attach_keeps [OF assms(1)] rd_walk_keeps [OF assms(1)])

text \<open>
  C29. Whatever messages the server handles, in whatever order, its clients stay well-formed: a list of clients,
  each with its own list of file ids, and no address in use twice.
\<close>

theorem rd_serve_keeps_clients:
  assumes "clients_ok h" "rd_serve mq_send env msg0 bufs h w = Some (h', w')"
  shows "clients_ok h'"
  using assms
proof (induction bufs arbitrary: h w)
  case (Cons buf bufs)
  then obtain buf1 h1 w1 where run: "rd_handle_message mq_send env h msg0 buf w = Some (buf1, h1, w1)"
    "rd_serve mq_send env msg0 bufs h1 w1 = Some (h', w')"
    by (auto split: bind_splits)
  show ?case by (rule Cons.IH [OF rd_handle_keeps [OF Cons.prems(1) run(1)] run(2)])
qed simp

subsection \<open>Attaching and reading\<close>

lemma vfs_msg_put_wire:
  assumes "fcall_wire (v_fcall msg) = Some w" "length w \<le> 124" "length w + 4 \<le> length buf"
  shows "\<exists>buf'. vfs_msg_put msg buf = Some (length w + 4, buf') \<and> take (length w) buf' = w"
  using vfs_msg_put_eq [OF assms] by simp

lemma header_of_ptr: "p < 0x8000000000000000 \<Longrightarrow> header_of (header_ptr p) = p"
proof -
  assume "p < 0x8000000000000000"
  then have "unat (of_nat p :: u64) = p" by (simp add: unat_of_nat)
  then show ?thesis by (simp add: header_of_def header_ptr_def)
qed

lemma header_ptr_nonzero: "p < 0x8000000000000000 \<Longrightarrow> header_ptr p \<noteq> 0"
proof
  assume p: "p < 0x8000000000000000" and "header_ptr p = 0"
  then have "unat (RAMDISK + of_nat p) = 0" by (simp add: header_ptr_def)
  moreover have "unat (RAMDISK + of_nat p) = 0x3e000000 + p"
    using p by (subst unat_add_no_overflow) (simp_all add: RAMDISK_def unat_of_nat)
  ultimately show False by simp
qed

text \<open>The environment of a server: an archive on the disk, and the literal of the magic field.\<close>

definition env_ok :: "rd_env \<Rightarrow> (bytes \<times> u8 \<times> bytes) list \<Rightarrow> bool" where
  "env_ok env es \<longleftrightarrow> archive (e_rd env) 0 es \<and> (\<forall>e\<in>set es. fst e \<noteq> []) \<and>
     take 6 (e_lit env) = USTAR \<and> 6 < length (e_lit env) \<and> length (e_rd env) < 0x8000000000000000"

lemma env_okD:
  assumes "env_ok env es"
  shows "archive (e_rd env) 0 es" "\<forall>e\<in>set es. fst e \<noteq> []" "take 6 (e_lit env) = USTAR" "6 < length (e_lit env)"
    "length (e_rd env) < 0x8000000000000000"
  using assms by (auto simp: env_ok_def)

lemma tar_pos_bound:
  assumes "env_ok env es" "i < length es"
  shows "tar_pos 0 es i + 512 \<le> length (e_rd env)" "tar_pos 0 es i < 0x8000000000000000"
proof -
  obtain nm ty content where "es ! i = (nm, ty, content)" by (cases "es ! i")
  from archive_header [OF env_okD(1) [OF assms(1)] assms(2) this]
  show "tar_pos 0 es i + 512 \<le> length (e_rd env)" by (simp add: tar_header_at_def)
  then show "tar_pos 0 es i < 0x8000000000000000" using env_okD(5) [OF assms(1)] by simp
qed

lemma type_codes:
  "type_code Rread = 113" "type_code Rattach = 105" "type_code Rerror = 103" "type_code Rwalk = 107" "type_code Rstat = 119"
  "type_of 113 = Some Rread" "type_of 105 = Some Rattach" "type_of 103 = Some Rerror" "type_of 107 = Some Rwalk"
  "type_of 119 = Some Rstat"
  by (simp_all add: fcall_type_list_def type_of_def rd_at_def)

declare type_code.simps [simp del]

text \<open>What a read answers: the number of bytes and the bytes.\<close>

definition read_reply :: "u16 \<Rightarrow> bytes \<Rightarrow> bytes" where
  "read_reply tag bs = wire_of Rread (type_code Rread) tag [F32 (of_nat (length bs)), FRaw bs]"

lemma length_read_reply: "length (read_reply tag bs) = 11 + length bs"
  by (simp add: read_reply_def wire_of_def)

lemma fid_header_ok:
  assumes "vfs_ok h cs L" "find (\<lambda>(a, q). q = v_mq_id msg) cs = Some (c, v_mq_id msg)" "L c = Some l"
    and "map_of (map snd l) (f_fid (v_fcall msg)) = Some (header_ptr p)" "p < 0x8000000000000000"
  shows "fid_header h msg = Some (Inr p)"
proof -
  have pairs: "pairs_ok h L" using assms(1) by (simp add: vfs_ok_def)
  obtain x where "cl_clients h c = Some x" by (rule pairs_okD [OF pairs assms(3)])
  moreover have "(c, v_mq_id msg) \<in> set cs" by (rule find_in [OF assms(2)])
  then have "c \<noteq> 0" using assms(1) clients_at_nonzero by (force simp: vfs_ok_def)
  ultimately show ?thesis
    using vfs_get_ok [OF assms(1), of "v_mq_id msg"] assms(2,4) fid_get_ok [OF pairs assms(3), of "f_fid (v_fcall msg)"]
      header_ptr_nonzero [OF assms(5)] header_of_ptr [OF assms(5)]
    by (simp add: fid_header_def)
qed

lemma rd_read_put:
  assumes "env_ok env es" "i < length es" "es ! i = (nm, RDT_FILE, content)" "fid_header h msg = Some (Inr (tar_pos 0 es i))"
    and "unat (f_offset (v_fcall msg)) \<le> length content" "length content < 4294967296"
    and "unat (f_count (v_fcall msg)) \<le> 100"
  shows "let bs = take (unat (f_count (v_fcall msg))) (drop (unat (f_offset (v_fcall msg))) content) in
    \<exists>dat. rd_read env h msg buf = vfs_msg_put (msg\<lparr>v_fcall := (v_fcall msg)\<lparr>f_type := type_code Rread,
      f_count := of_nat (length bs), f_data := dat\<rparr>\<rparr>) buf \<and> rd_bytes dat 0 (length bs) = Some bs"
proof -
  let ?f = "v_fcall msg"
  define k where "k = min (unat (f_count ?f)) (length content - unat (f_offset ?f))"
  define bs where "bs = take k (drop (unat (f_offset ?f)) content)"
  have bs: "bs = take (unat (f_count ?f)) (drop (unat (f_offset ?f)) content)" "length bs = k"
    by (auto simp: bs_def k_def min_def)
  have k: "k \<le> 100" using assms(7) by (simp add: k_def)
  note env = env_okD [OF assms(1)]
  have ty: "rd_at (e_rd env) (tar_pos 0 es i + TAR_TYPE_OFF) = Some RDT_FILE"
    using archive_header [OF env(1) assms(2,3)] by (simp add: rd_at_def tar_header_at_def layout_simps)
  define dat where "dat = bs @ drop k (replicate VFS_MAX_IOUNIT 0)"
  have "rd_read_file (e_lit env) (e_rd env) (tar_pos 0 es i) (replicate VFS_MAX_IOUNIT 0) (f_offset ?f) (f_count ?f) =
      Some (of_nat k, dat)"
    using rd_read_file_slice_eq [OF env(1) assms(2,3) env(3,4) assms(5,6), of "f_count ?f" "replicate VFS_MAX_IOUNIT 0"] k
    by (simp add: k_def bs_def dat_def Let_def layout_simps)
  then have "rd_read env h msg buf =
      vfs_msg_put (msg\<lparr>v_fcall := ?f\<lparr>f_type := type_code Rread, f_count := of_nat k, f_data := dat\<rparr>\<rparr>) buf"
    using assms(4) ty by (simp add: rd_read_def Let_def layout_simps)
  moreover have "rd_bytes dat 0 k = Some bs" using bs(2) by (simp add: dat_def rd_bytes_def)
  ultimately show ?thesis using bs by (auto simp: Let_def)
qed

lemma rd_read_answer:
  assumes "env_ok env es" "i < length es" "es ! i = (nm, RDT_FILE, content)" "fid_header h msg = Some (Inr (tar_pos 0 es i))"
    and "unat (f_offset (v_fcall msg)) \<le> length content" "length content < 4294967296"
    and "unat (f_count (v_fcall msg)) \<le> 100" "128 \<le> length buf"
  shows "let bs = take (unat (f_count (v_fcall msg))) (drop (unat (f_offset (v_fcall msg))) content) in
    \<exists>buf'. rd_read env h msg buf = Some (length bs + 15, buf') \<and>
      take (length bs + 11) buf' = read_reply (f_tag (v_fcall msg)) bs"
proof -
  let ?f = "v_fcall msg"
  define bs where "bs = take (unat (f_count ?f)) (drop (unat (f_offset ?f)) content)"
  obtain dat where dat: "rd_read env h msg buf =
      vfs_msg_put (msg\<lparr>v_fcall := ?f\<lparr>f_type := type_code Rread, f_count := of_nat (length bs), f_data := dat\<rparr>\<rparr>) buf"
      "rd_bytes dat 0 (length bs) = Some bs"
    using rd_read_put [OF assms(1-7), of buf] by (auto simp: bs_def Let_def)
  have k: "length bs \<le> 100" using assms(7) by (simp add: bs_def)
  then have "unat (of_nat (length bs) :: u32) = length bs" by (simp add: unat_of_nat)
  then have "fcall_wire (?f\<lparr>f_type := type_code Rread, f_count := of_nat (length bs), f_data := dat\<rparr>) =
      Some (read_reply (f_tag ?f) bs)"
    using dat(2) by (simp add: fcall_wire_def fields_of_def type_codes read_reply_def)
  then have "\<exists>buf'. rd_read env h msg buf = Some (length bs + 15, buf') \<and> take (length bs + 11) buf' = read_reply (f_tag ?f) bs"
    using vfs_msg_put_wire [of "msg\<lparr>v_fcall := ?f\<lparr>f_type := type_code Rread, f_count := of_nat (length bs), f_data := dat\<rparr>\<rparr>" _ buf]
      dat(1) k assms(8) by (simp add: length_read_reply add.commute)
  then show ?thesis by (simp add: bs_def Let_def)
qed

lemma rd_attach_answer:
  assumes "vfs_ok h cs L" "env_ok env es" "cl_fresh h = a # b # fr"
    and "f_uname (v_fcall msg) = pstr u @ t" "0 < length u" "length u < 32"
    and "e_mq_open env (u @ replicate (32 - length u) 0) = q" "q \<noteq> -1"
    and "f_aname (v_fcall msg) = pstr path @ x # t'" "0 \<notin> set path" "path \<noteq> []" "length path < 100"
    and "first_index (rd_matches path) es = Some i" "f_fid (v_fcall msg) \<noteq> NOFID" "f_afid (v_fcall msg) = NOFID"
    and "128 \<le> length buf"
  shows "\<exists>n buf' h' c r. rd_attach env h msg buf = Some (n, buf', h') \<and> c \<notin> fst ` set cs \<and>
    vfs_ok h' (cs @ [(c, q)]) (L(c \<mapsto> [(r, f_fid (v_fcall msg), header_ptr (tar_pos 0 es i))]))"
proof -
  let ?f = "v_fcall msg"
  note env = env_okD [OF assms(2)]
  have i: "i < length es" using first_index_Some [OF assms(13)] by simp
  define name where "name = u @ replicate (32 - length u) (0 :: u8)"
  have "0 # drop (length u + 1) (replicate 32 0) = replicate (32 - length u) (0 :: u8)"
    using assms(6) by (cases "32 - length u") (auto simp flip: replicate_Suc)
  then have name: "pstrtoz (e_malloc env) (Some (replicate 32 0)) (f_uname ?f) 32 = Some (Some name)"
    using pstrtoz_in [of u 32 "replicate 32 0" "e_malloc env" t] assms(4,6) by (simp add: name_def)
  have ulen: "pstr_len (f_uname ?f) = Some (length u)" using assms(4,6) by simp
  obtain h1 where h1: "vfs_client_create (e_mq_open env) h name = Some (a, h1)" "a \<noteq> 0" "a \<notin> fst ` set cs"
      "cl_fresh h1 = b # fr" "vfs_ok h1 (cs @ [(a, q)]) (L(a \<mapsto> []))"
    using vfs_create_ok [of h cs L "e_mq_open env" name a "b # fr", OF assms(1) _ assms(3)] assms(7,8)
    by (auto simp: name_def)
  have find: "rd_find (e_lit env) (e_rd env) (f_aname ?f) = Some (Some (tar_pos 0 es i))"
    using rd_find_archive [OF env(1-4) assms(10-12), of x t'] assms(9,13)
    by (auto simp: rd_find_def)
  define p where "p = tar_pos 0 es i"
  have "0 \<notin> set (cl_fresh h)" using assms(1) by (simp add: vfs_ok_def fresh_ok_def)
  then have b: "b \<noteq> 0" using assms(3) by auto
  obtain r h2 where add: "vfs_client_fid_add h1 a (f_fid ?f) (header_ptr p) = Some (r, h2)"
      "if r = 0 then h2 = h1 else vfs_ok h2 (cs @ [(a, q)]) ((L(a \<mapsto> []))(a \<mapsto> [] @ [(r, f_fid ?f, header_ptr p)]))"
    using fid_add_ok [OF h1(5), of a "[]" "f_fid ?f" "header_ptr p"] by auto
  have "r = b" using add(1) h1(4) by (auto simp: vfs_client_fid_add_def Let_def split: bind_splits if_splits)
  then have h2: "vfs_ok h2 (cs @ [(a, q)]) (L(a \<mapsto> [(r, f_fid ?f, header_ptr p)]))" using add(2) b by simp
  have "tar_pos 0 es i + 512 \<le> length (e_rd env)" by (rule tar_pos_bound [OF assms(2) i])
  then obtain ty where ty: "rd_get_type (e_rd env) p = Some ty"
    by (simp add: rd_get_type_def rd_at_def layout_simps p_def)
  define reply where "reply = msg\<lparr>v_fcall := ?f\<lparr>f_type := type_code Rattach,
    f_qid := \<lparr>q_type = ty, q_version = 0, q_id = ucast (f_fid ?f)\<rparr>\<rparr>\<rparr>"
  obtain w where w: "fcall_wire (v_fcall reply) = Some w" "length w = 23"
    by (simp add: reply_def fcall_wire_def fields_of_def type_codes wire_of_def enc_qid_def)
  obtain buf' where put: "vfs_msg_put reply buf = Some (length w + 4, buf')"
    using vfs_msg_put_wire [OF w(1), of buf] w(2) assms(16) by auto
  have "rd_attach env h msg buf = Some (length w + 4, buf', h2)"
    using ulen name h1(1,2) assms(5,14,15) find add(1) ty put
    by (simp add: rd_attach_def Let_def with_clients_def reply_def p_def)
  then show ?thesis using h1(3) h2 by (auto simp: p_def)
qed

text \<open>
  C28. After a client has attached a file, a read with the same file id and the id of the client's queue answers
  with exactly the bytes of the file from the offset on, up to the number asked for; the file is the first
  that the path of the attach matches.
\<close>

theorem attach_then_read:
  assumes "vfs_ok h cs L" "env_ok env es" "cl_fresh h = a # b # fr"
    and "f_uname (v_fcall amsg) = pstr u @ t" "0 < length u" "length u < 32"
    and "e_mq_open env (u @ replicate (32 - length u) 0) = q" "q \<noteq> -1" "q \<notin> snd ` set cs"
    and "f_aname (v_fcall amsg) = pstr path @ x # t'" "0 \<notin> set path" "path \<noteq> []" "length path < 100"
    and "first_index (rd_matches path) es = Some i" "es ! i = (nm, RDT_FILE, content)"
    and "f_fid (v_fcall amsg) \<noteq> NOFID" "f_afid (v_fcall amsg) = NOFID"
    and "v_mq_id rmsg = q" "f_fid (v_fcall rmsg) = f_fid (v_fcall amsg)"
    and "unat (f_offset (v_fcall rmsg)) \<le> length content" "length content < 4294967296"
    and "unat (f_count (v_fcall rmsg)) \<le> 100" "128 \<le> length buf" "128 \<le> length buf2"
  shows "let bs = take (unat (f_count (v_fcall rmsg))) (drop (unat (f_offset (v_fcall rmsg))) content) in
    \<exists>n buf' h' buf''. rd_attach env h amsg buf = Some (n, buf', h') \<and>
      rd_read env h' rmsg buf2 = Some (length bs + 15, buf'') \<and>
      take (length bs + 11) buf'' = read_reply (f_tag (v_fcall rmsg)) bs"
proof -
  obtain n buf' h' c r where att: "rd_attach env h amsg buf = Some (n, buf', h')" "c \<notin> fst ` set cs"
      "vfs_ok h' (cs @ [(c, q)]) (L(c \<mapsto> [(r, f_fid (v_fcall amsg), header_ptr (tar_pos 0 es i))]))"
    using rd_attach_answer [OF assms(1-8,10-14,16,17,23)] by blast
  have i: "i < length es" using first_index_Some [OF assms(14)] by simp
  have "find (\<lambda>(a, q). q = v_mq_id rmsg) (cs @ [(c, q)]) = Some (c, v_mq_id rmsg)"
    using assms(9,18) by (induction cs) auto
  then have "fid_header h' rmsg = Some (Inr (tar_pos 0 es i))"
    by (rule fid_header_ok [OF att(3)]) (use tar_pos_bound(2) [OF assms(2) i] assms(19) in auto)
  from rd_read_answer [OF assms(2) i assms(15) this assms(20-22,24)] att(1) show ?thesis
    by (auto simp: Let_def)
qed

subsection \<open>A server with one file\<close>

definition small_env :: rd_env where
  "small_env = \<lparr>e_lit = USTAR @ [0], e_rd = small_archive, e_mq_open = (\<lambda>name. 7), e_malloc = (\<lambda>n. None)\<rparr>"

definition no_clients :: clients where
  "no_clients = \<lparr>cl_pairs = Map.empty, cl_clients = Map.empty, cl_first = 0, cl_fresh = [8, 16]\<rparr>"

definition attach_msg :: vfs_msg where
  "attach_msg = \<lparr>v_fcall = blank_fcall\<lparr>f_fid := 1, f_type := 104, f_afid := NOFID, f_uname := pstr [0x71],
     f_aname := pstr [0x62] @ [0]\<rparr>, v_mq_id = 0\<rparr>"

definition read_msg :: vfs_msg where
  "read_msg = \<lparr>v_fcall = blank_fcall\<lparr>f_fid := 1, f_type := 112, f_tag := 9, f_offset := 1, f_count := 10\<rparr>, v_mq_id = 7\<rparr>"

lemma no_clients_ok: "vfs_ok no_clients [] Map.empty"
  by (simp add: vfs_ok_def pairs_ok_def fresh_ok_def no_clients_def)

lemma small_env_ok: "env_ok small_env [([0x61, 0x62], 0x30, [1, 2, 3])]"
proof -
  have "length small_archive = 1536"
    using length_tar_file [of "[0x61, 0x62]" "0x30" "[1, 2, 3]"]
    by (simp add: small_archive_def tar_disk_def tar_file_ok_def tar_records_def)
  then show ?thesis using small_archive_ok by (simp add: env_ok_def small_env_def USTAR_def)
qed

theorem attach_then_read_witness:
  "\<exists>n buf' h' buf''. rd_attach small_env no_clients attach_msg (replicate 128 0) = Some (n, buf', h') \<and>
     rd_read small_env h' read_msg (replicate 128 0) = Some (17, buf'') \<and> take 13 buf'' = read_reply 9 [2, 3]"
  using attach_then_read [OF no_clients_ok small_env_ok, where a = 8 and b = 16 and fr = "[]" and amsg = attach_msg
    and u = "[0x71]" and t = "[]" and q = 7 and path = "[0x62]" and x = 0 and t' = "[]" and i = 0
    and rmsg = read_msg and buf = "replicate 128 0" and ?buf2.0 = "replicate 128 0"]
  by (simp add: no_clients_def small_env_def attach_msg_def read_msg_def rd_matches_def layout_simps blank_fcall_def)

text \<open>A clunk message for the file id 1, with the id 5 of a queue behind it.\<close>

definition clunk_buf :: bytes where
  "clunk_buf = [11, 0, 0, 0, 116, 0, 0, 1, 0, 0, 0, 5, 0, 0, 0]"

theorem rd_serve_keeps_clients_witness:
  "\<exists>h' w'. rd_serve (\<lambda>q buf len (w :: nat). (0, w + len)) small_env attach_msg [clunk_buf] two_clients 0 = Some (h', w') \<and>
     clients_ok h'"
proof -
  have "rd_serve (\<lambda>q buf len (w :: nat). (0, w + len)) small_env attach_msg [clunk_buf] two_clients 0 = Some (two_clients, 15)"
    by (simp add: clunk_buf_def rd_handle_message_def vfs_msg_parse_def fcall_buf_to_msg_def get_uint_def get_uchar_def
      get_ushort_def get_body_def rd_at_def layout_simps type_of_def fcall_type_list_def)
  moreover have "clients_ok two_clients" using two_clients_ok by (auto simp: clients_ok_def)
  ultimately show ?thesis using rd_serve_keeps_clients by blast
qed

end
