(* ===== verification/Vnode.thy ===== *)
theory Vnode
  imports Rd_Server
begin

text \<open>
  The tree of nodes of the file server (\<^verbatim>\<open>modules/vfs/vnode.c\<close>).

  A node is a cell of the heap; the children of a node are an array, that is, consecutive cells from the
  address of the array on. An address without a cell is null, or was freed, or is behind an array. A name is
  the string object that the pointer leads to. \<open>s_fresh\<close> are the addresses that \<open>malloc\<close> returns for arrays of
  four nodes, \<open>s_raw\<close> is what the memory there holds, and \<open>s_live\<close> are the arrays that can be freed.

  In the environment are the message queues, \<open>malloc\<close> for strings, \<open>realloc\<close>, the address of the root node, and
  what an uninitialised message on the stack holds.
\<close>

record vnode =
  n_name :: "bytes option"
  n_qid :: qid
  n_children :: u64
  n_mount_node :: u64
  n_channel_node :: u64
  n_children_no :: u32
  n_mq_id :: u32

definition VNODE_SIZE :: u64 where [layout_simps]: "VNODE_SIZE = 56"

record 'w vfs_state =
  s_nodes :: "u64 \<rightharpoonup> vnode"
  s_raw :: "u64 \<Rightarrow> vnode"
  s_fresh :: "u64 list"
  s_live :: "u64 list"
  s_vfs_in :: u32
  s_id_count :: u32
  s_tag_count :: u32
  s_clients :: clients
  s_world :: 'w

record 'w vfs_env =
  e_root :: u64
  e_str :: "nat \<Rightarrow> bytes option"
  e_realloc :: "u64 \<Rightarrow> nat \<Rightarrow> (u64 \<rightharpoonup> vnode) \<Rightarrow> u64 \<times> (u64 \<rightharpoonup> vnode)"
  e_open :: "bytes \<Rightarrow> u32"
  e_send :: "u32 \<Rightarrow> bytes \<Rightarrow> nat \<Rightarrow> 'w \<Rightarrow> int \<times> 'w"
  e_receive :: "u32 \<Rightarrow> bytes \<Rightarrow> nat \<Rightarrow> 'w \<Rightarrow> int \<times> bytes \<times> 'w"
  e_stack :: vfs_msg

datatype vfs_error = VFS_OK | VFS_NOMEM | VFS_NOTFOUND | VFS_MQERR

text \<open>Assigning to a field of a node; \<open>id_count++\<close> and \<open>tag_count++\<close>.\<close>

definition upd_node :: "u64 \<Rightarrow> (vnode \<Rightarrow> vnode) \<Rightarrow> 'w vfs_state \<Rightarrow> 'w vfs_state option" where
  "upd_node p f st = map_option (\<lambda>x. st\<lparr>s_nodes := (s_nodes st)(p \<mapsto> f x)\<rparr>) (s_nodes st p)"

definition next_id :: "'w vfs_state \<Rightarrow> u32 \<times> 'w vfs_state" where
  "next_id st = (s_id_count st, st\<lparr>s_id_count := s_id_count st + 1\<rparr>)"

definition next_tag :: "'w vfs_state \<Rightarrow> u32 \<times> 'w vfs_state" where
  "next_tag st = (s_tag_count st, st\<lparr>s_tag_count := s_tag_count st + 1\<rparr>)"

definition child_at :: "vnode \<Rightarrow> u32 \<Rightarrow> u64" where
  "child_at x i = n_children x + VNODE_SIZE * ucast i"

subsection \<open>Finding and adding children\<close>

partial_function (option) find_child_loop :: "(u64 \<rightharpoonup> vnode) \<Rightarrow> vnode \<Rightarrow> bytes \<Rightarrow> u32 \<Rightarrow> u64 option" where
  "find_child_loop nodes x name i =
     (if i < n_children_no x then do {
        c \<leftarrow> nodes (child_at x i);
        case n_name c of None \<Rightarrow> find_child_loop nodes x name (i + 1)
        | Some cname \<Rightarrow> do {
            len \<leftarrow> pstr_len name;
            r \<leftarrow> memcmp_c (drop 2 name) (drop 2 cname) len;
            if r = 0 then Some (child_at x i) else find_child_loop nodes x name (i + 1) } }
      else Some 0)"

definition vnode_find_child :: "'w vfs_state \<Rightarrow> u64 \<Rightarrow> bytes \<Rightarrow> u64 option" where
  "vnode_find_child st v name = do {
     x \<leftarrow> s_nodes st v;
     find_child_loop (s_nodes st) x name 0 }"

text \<open>The power of two that the number of children is rounded up to, in an \<open>unsigned short\<close>.\<close>

partial_function (option) round_up :: "u32 \<Rightarrow> u16 \<Rightarrow> u16 option" where
  "round_up no n = (if ucast n < no then round_up no (n * 2) else Some n)"

definition alloc_array :: "'w vfs_state \<Rightarrow> u64 \<times> 'w vfs_state" where
  "alloc_array st = (case s_fresh st of [] \<Rightarrow> (0, st)
     | a # as \<Rightarrow> (a, st\<lparr>s_fresh := as, s_live := a # s_live st,
         s_nodes := (\<lambda>p. if p \<in> {a, a + 56, a + 112, a + 168} then Some (s_raw st p) else s_nodes st p)\<rparr>))"

definition vnode_add_child :: "'w vfs_env \<Rightarrow> 'w vfs_state \<Rightarrow> u64 \<Rightarrow> (u64 \<times> 'w vfs_state) option" where
  "vnode_add_child env st v = do {
     x \<leftarrow> s_nodes st v;
     n \<leftarrow> round_up (n_children_no x) 1;
     (ok, st1) \<leftarrow> (if n_children_no x = 0 then do {
         let (a, st1) = alloc_array st;
         st2 \<leftarrow> upd_node v (\<lambda>x. x\<lparr>n_children := a\<rparr>) st1;
         Some (a \<noteq> 0, st2) }
       else if n > 4 \<and> n_children_no x + 1 > ucast n then do {
         let (temp, nodes) = e_realloc env (n_children x) (unat n * 2) (s_nodes st);
         if temp = 0 then Some (False, st)
         else do {
           st1 \<leftarrow> upd_node v (\<lambda>x. x\<lparr>n_children := temp\<rparr>) (st\<lparr>s_nodes := nodes\<rparr>);
           Some (True, st1) } }
       else Some (True, st));
     if \<not> ok then Some (0, st1)
     else do {
       st2 \<leftarrow> upd_node v (\<lambda>x. x\<lparr>n_children_no := n_children_no x + 1\<rparr>) st1;
       y \<leftarrow> s_nodes st2 v;
       Some (child_at y (n_children_no y - 1), st2) } }"

subsection \<open>Removing\<close>

definition free_array :: "'w vfs_state \<Rightarrow> u64 \<Rightarrow> 'w vfs_state option" where
  "free_array st a =
     (if a = 0 then Some st
      else if a \<in> set (s_live st) then
        Some (st\<lparr>s_live := remove1 a (s_live st),
          s_nodes := (\<lambda>p. if p \<in> {a, a + 56, a + 112, a + 168} then None else s_nodes st p)\<rparr>)
      else None)"

text \<open>What \<open>vnode_remove\<close> does after the loop over the children, which ran when there was an array.\<close>

definition remove_finish :: "'w vfs_env \<Rightarrow> u64 \<Rightarrow> bool \<Rightarrow> 'w vfs_state \<Rightarrow> 'w vfs_state option" where
  "remove_finish env node looped st = do {
     st1 \<leftarrow> (if looped then do {
         x \<leftarrow> s_nodes st node;
         st1 \<leftarrow> free_array st (n_children x);
         upd_node node (\<lambda>x. x\<lparr>n_children := 0\<rparr>) st1 }
       else Some st);
     st2 \<leftarrow> upd_node node (\<lambda>x. x\<lparr>n_name := None\<rparr>) st1;
     if node \<noteq> e_root env then free_array st2 node else Some st2 }"

partial_function (option) remove_children :: "'w vfs_env \<Rightarrow> 'w vfs_state \<Rightarrow> u64 \<Rightarrow> u32 \<Rightarrow> 'w vfs_state option" where
  "remove_children env st node i = do {
     x \<leftarrow> s_nodes st node;
     if i < n_children_no x then do {
       let child = child_at x i;
       st1 \<leftarrow> (if child = 0 then Some st
         else do {
           y \<leftarrow> s_nodes st child;
           if n_children y \<noteq> 0 then do {
             st1 \<leftarrow> remove_children env st child 0;
             remove_finish env child True st1 }
           else remove_finish env child False st });
       st2 \<leftarrow> upd_node node (\<lambda>x. x\<lparr>n_children := 0\<rparr>) st1;
       remove_children env st2 node (i + 1) }
     else Some st }"

definition vnode_remove :: "'w vfs_env \<Rightarrow> 'w vfs_state \<Rightarrow> u64 \<Rightarrow> 'w vfs_state option" where
  "vnode_remove env st node =
     (if node = 0 then Some st
      else do {
        x \<leftarrow> s_nodes st node;
        if n_children x \<noteq> 0 then do {
          st1 \<leftarrow> remove_children env st node 0;
          remove_finish env node True st1 }
        else remove_finish env node False st })"

subsection \<open>Reading a directory\<close>

definition qid_mem :: "qid \<Rightarrow> bytes" where
  "qid_mem q = le_bytes 4 (unat (q_type q)) @ le_bytes 4 (unat (q_version q)) @ le_bytes 8 (unat (q_id q))"

partial_function (option) node_dir_loop ::
    "(u64 \<rightharpoonup> vnode) \<Rightarrow> vnode \<Rightarrow> bytes \<Rightarrow> nat \<Rightarrow> u32 \<Rightarrow> u32 \<Rightarrow> (nat \<times> bytes) option" where
  "node_dir_loop nodes x buf pos i count =
     (if i < n_children_no x then do {
        c \<leftarrow> nodes (child_at x i);
        name \<leftarrow> n_name c;
        nlen \<leftarrow> pstrlen name;
        if pos + (24 + nlen) > unat count then Some (pos, buf)
        else do {
          buf1 \<leftarrow> wr_bytes buf pos (qid_mem (n_qid c));
          buf2 \<leftarrow> wr_bytes buf1 (pos + 16) (replicate 8 0);
          dup \<leftarrow> pstrdup (\<lambda>n. None) (Some (drop (pos + 24) buf2)) name nlen;
          let buf3 = (case dup of None \<Rightarrow> buf2 | Some tail \<Rightarrow> take (pos + 24) buf2 @ tail);
          node_dir_loop nodes x buf3 (pos + 24 + nlen) (i + 1) count } }
      else Some (pos, buf))"

definition vnode_read_dir :: "'w vfs_state \<Rightarrow> u64 \<Rightarrow> bytes \<Rightarrow> u64 \<Rightarrow> u32 \<Rightarrow> (nat \<times> bytes) option" where
  "vnode_read_dir st v buf offset count = do {
     x \<leftarrow> s_nodes st v;
     node_dir_loop (s_nodes st) x buf 0 (ucast offset) count }"

end
