(* ===== verification/Vnode_Msg.thy ===== *)
theory Vnode_Msg
  imports Vnode
begin

text \<open>
  How the file server talks to the servers below it (\<^verbatim>\<open>modules/vfs/vnode.c\<close>): passing a message on, wrapping one
  into writes and reads of another file, walking into a server and attaching one.
\<close>

definition FCALL_SIZE_OFF :: nat where [layout_simps]: "FCALL_SIZE_OFF = 0"
definition FCALL_TAG_OFF :: nat where [layout_simps]: "FCALL_TAG_OFF = 5"
definition FCALL_FID_OFF :: nat where [layout_simps]: "FCALL_FID_OFF = 7"

text \<open>\<open>vfs_msg_send\<close> with the queues and the world of the state.\<close>

definition send_msg ::
    "'w vfs_env \<Rightarrow> 'w vfs_state \<Rightarrow> vfs_msg \<Rightarrow> bytes \<Rightarrow> u32 \<Rightarrow> (nat \<times> vfs_msg \<times> bytes \<times> 'w vfs_state) option" where
  "send_msg env st msg buf out =
     map_option (\<lambda>(len, msg', buf', w). (len, msg', buf', st\<lparr>s_world := w\<rparr>))
       (vfs_msg_send (e_send env) (e_receive env) msg buf out (s_vfs_in st) (s_world st))"

text \<open>The loop of \<open>vnode_wrap\<close>: reads until one gives nothing.\<close>

partial_function (option) wrap_loop ::
    "'w vfs_env \<Rightarrow> 'w vfs_state \<Rightarrow> vnode \<Rightarrow> vfs_msg \<Rightarrow> bytes \<Rightarrow> nat \<Rightarrow> bytes \<Rightarrow>
     (vfs_error \<times> bytes \<times> 'w vfs_state) option" where
  "wrap_loop env st x msg rw_buf pos buf = do {
     let (tag, st1) = next_tag st;
     mnt \<leftarrow> s_nodes st1 (n_mount_node x);
     channel \<leftarrow> s_nodes st1 (n_channel_node x);
     let msg1 = msg\<lparr>v_fcall := (v_fcall msg)\<lparr>f_type := type_code Tread, f_tag := ucast tag,
       f_fid := ucast (q_id (n_qid mnt)), f_offset := 0, f_count := of_nat VFS_MAX_IOUNIT\<rparr>, v_mq_id := s_vfs_in st1\<rparr>;
     (len, msg2, rw_buf1, st2) \<leftarrow> send_msg env st1 msg1 rw_buf (n_mq_id channel);
     if len = 0 then Some (VFS_MQERR, buf, st2)
     else if f_type (v_fcall msg2) \<noteq> type_code Rread then Some (VFS_MQERR, buf, st2)
     else do {
       let count = f_count (v_fcall msg2);
       tail \<leftarrow> memcpy_c (drop pos buf) (f_data (v_fcall msg2)) (unat count);
       let buf1 = take pos buf @ tail;
       if count \<noteq> 0 then wrap_loop env st2 x msg2 rw_buf1 (pos + unat count) buf1
       else Some (VFS_OK, buf1, st2) } }"

definition vnode_wrap ::
    "'w vfs_env \<Rightarrow> 'w vfs_state \<Rightarrow> u64 \<Rightarrow> bytes \<Rightarrow> nat \<Rightarrow> (vfs_error \<times> bytes \<times> 'w vfs_state) option" where
  "vnode_wrap env st v buf n = do {
     x \<leftarrow> s_nodes st v;
     buf1 \<leftarrow> wr_at buf FCALL_FID_OFF (ucast (q_id (n_qid x)));
     let (tag, st1) = next_tag st;
     channel \<leftarrow> s_nodes st1 (n_channel_node x);
     let msg = \<lparr>v_fcall = (v_fcall (e_stack env))\<lparr>f_type := type_code Twrite, f_tag := ucast tag,
       f_fid := ucast (q_id (n_qid channel)), f_offset := 0, f_count := of_nat n, f_data := buf1\<rparr>, v_mq_id = s_vfs_in st1\<rparr>;
     (len, msg1, rw_buf, st2) \<leftarrow> send_msg env st1 msg (replicate VFS_MAX_MSG_LEN 0) (n_mq_id channel);
     if len = 0 then Some (VFS_MQERR, buf1, st2)
     else if f_type (v_fcall msg1) \<noteq> type_code Rwrite then Some (VFS_MQERR, buf1, st2)
     else wrap_loop env st2 x msg1 rw_buf 0 buf1 }"

text \<open>\<open>vnode_forward\<close> changes single bytes of the message: the tag, the file id and the queue id are longer.\<close>

definition vnode_forward ::
    "'w vfs_env \<Rightarrow> 'w vfs_state \<Rightarrow> u64 \<Rightarrow> bytes \<Rightarrow> (vfs_error \<times> bytes \<times> 'w vfs_state) option" where
  "vnode_forward env st v buf = do {
     old_tag \<leftarrow> rd_le 2 buf FCALL_TAG_OFF;
     c \<leftarrow> rd_at buf FCALL_SIZE_OFF;
     let msg_size = unat c;
     old_mq \<leftarrow> rd_le 4 buf msg_size;
     let (tag, st1) = next_tag st;
     buf1 \<leftarrow> wr_at buf FCALL_TAG_OFF (ucast tag);
     x \<leftarrow> s_nodes st1 v;
     buf2 \<leftarrow> wr_at buf1 FCALL_FID_OFF (ucast (q_id (n_qid x)));
     (err, buf3, st2) \<leftarrow> (if n_channel_node x \<noteq> 0 then vnode_wrap env st1 v buf2 msg_size
       else do {
         out \<leftarrow> wr_at buf2 msg_size (ucast (s_vfs_in st1));
         case e_send env (n_mq_id x) out (msg_size + 4) (s_world st1) of (r, w1) \<Rightarrow>
           if r = -1 then Some (VFS_MQERR, out, st1\<lparr>s_world := w1\<rparr>)
           else case e_receive env (s_vfs_in st1) out VFS_MAX_MSG_LEN w1 of (r, inp, w2) \<Rightarrow>
             Some (if r = -1 then VFS_MQERR else VFS_OK, inp, st1\<lparr>s_world := w2\<rparr>) });
     if err \<noteq> VFS_OK then Some (VFS_MQERR, buf3, st2)
     else do {
       buf4 \<leftarrow> wr_at buf3 FCALL_TAG_OFF (of_nat old_tag);
       c' \<leftarrow> rd_at buf4 FCALL_SIZE_OFF;
       buf5 \<leftarrow> wr_at buf4 (unat c') (of_nat old_mq);
       Some (VFS_OK, buf5, st2) } }"

text \<open>The null pointer is the failure.\<close>

definition vnode_attach ::
    "'w vfs_env \<Rightarrow> 'w vfs_state \<Rightarrow> u64 \<Rightarrow> u64 \<Rightarrow> (u64 \<times> 'w vfs_state) option" where
  "vnode_attach env st channel mount = do {
     st1 \<leftarrow> upd_node mount (\<lambda>x. x\<lparr>n_channel_node := channel\<rparr>) st;
     ures \<leftarrow> pstrconv (e_str env) (Some (replicate 16 0)) (ascii ''vfs/export'' @ [0]) 16;
     uname \<leftarrow> ures;
     ares \<leftarrow> pstrconv (e_str env) (Some (replicate 16 0)) (ascii ''/'' @ [0]) 16;
     aname \<leftarrow> ares;
     let (tag, st2) = next_tag st1;
     x \<leftarrow> s_nodes st2 mount;
     let attach = (v_fcall (e_stack env))\<lparr>f_type := type_code Tattach, f_tag := ucast tag,
       f_fid := ucast (q_id (n_qid x)), f_afid := NOFID, f_uname := uname, f_aname := aname\<rparr>;
     (len, buf) \<leftarrow> fcall_msg_to_buf attach (replicate VFS_MAX_MSG_LEN 0) (of_nat VFS_MAX_MSG_LEN);
     if len = 0 then Some (0, st2)
     else do {
       (err, buf1, st3) \<leftarrow> vnode_wrap env st2 mount buf (unat len);
       if err \<noteq> VFS_OK then Some (0, st3)
       else do {
         (n, attach1) \<leftarrow> fcall_buf_to_msg buf1 attach;
         if n = 0 then Some (0, st3)
         else if f_type attach1 \<noteq> type_code Rattach then Some (0, st3)
         else do {
           st4 \<leftarrow> upd_node mount (\<lambda>x. x\<lparr>n_mount_node := 0\<rparr>) st3;
           Some (mount, st4) } } } }"

text \<open>The loop of \<open>_expand\<close>: a child for each entry of the answer that has none yet.\<close>

definition expand_child ::
    "'w vfs_env \<Rightarrow> 'w vfs_state \<Rightarrow> u64 \<Rightarrow> u64 \<Rightarrow> bytes \<Rightarrow> qid \<Rightarrow> (vfs_error \<times> u64 \<times> 'w vfs_state) option" where
  "expand_child env st mount v element q = do {
     found \<leftarrow> vnode_find_child st v element;
     if found \<noteq> 0 then Some (VFS_OK, found, st)
     else do {
       (child, st1) \<leftarrow> vnode_add_child env st v;
       if child = 0 then Some (VFS_NOMEM, 0, st1)
       else do {
         name \<leftarrow> pstrdup (e_str env) None element 0;
         st2 \<leftarrow> upd_node child (\<lambda>y. y\<lparr>n_name := name\<rparr>) st1;
         if name = None then map_option (\<lambda>st3. (VFS_NOMEM, 0, st3)) (vnode_remove env st2 child)
         else do {
           m \<leftarrow> s_nodes st2 mount;
           x \<leftarrow> s_nodes st2 v;
           st3 \<leftarrow> upd_node child (\<lambda>y. y\<lparr>n_qid := q, n_children := 0, n_children_no := 0, n_mount_node := mount,
             n_channel_node := n_channel_node m, n_mq_id := n_mq_id x\<rparr>) st2;
           Some (VFS_OK, child, st3) } } } }"

fun expand_loop ::
    "'w vfs_env \<Rightarrow> 'w vfs_state \<Rightarrow> u64 \<Rightarrow> bytes \<Rightarrow> nat list \<Rightarrow> u64 \<Rightarrow> bytes \<Rightarrow> (vfs_error \<times> u64 \<times> 'w vfs_state) option" where
  "expand_loop env st mount wqid [] v element = Some (VFS_OK, v, st)"
| "expand_loop env st mount wqid (i # is) v element = do {
     q \<leftarrow> load_qid wqid i;
     (err, child, st1) \<leftarrow> expand_child env st mount v element q;
     if err \<noteq> VFS_OK then Some (err, v, st1)
     else do {
       rest \<leftarrow> pstriter element;
       expand_loop env st1 mount wqid is child rest } }"

definition vnode_expand ::
    "'w vfs_env \<Rightarrow> 'w vfs_state \<Rightarrow> u64 \<Rightarrow> bytes \<Rightarrow> u16 \<Rightarrow> (vfs_error \<times> 'w vfs_state) option" where
  "vnode_expand env st mount elements n = do {
     let (new_fid, st1) = next_id st;
     let (tag, st2) = next_tag st1;
     m \<leftarrow> s_nodes st2 mount;
     let f = (v_fcall (e_stack env))\<lparr>f_type := type_code Twalk, f_tag := ucast tag, f_fid := ucast (q_id (n_qid m)),
       f_newfid := new_fid, f_nwname := n, f_wname := elements\<rparr>;
     let msg = \<lparr>v_fcall = f, v_mq_id = s_vfs_in st2\<rparr>;
     let buf = replicate VFS_MAX_MSG_LEN 0;
     (ok, f1, st3) \<leftarrow> (if n_channel_node m \<noteq> 0 then do {
         (len, buf1) \<leftarrow> fcall_msg_to_buf f buf (of_nat VFS_MAX_MSG_LEN);
         if len = 0 then Some (False, f, st2)
         else do {
           (err, buf2, st3) \<leftarrow> vnode_wrap env st2 mount buf1 (unat len);
           if err \<noteq> VFS_OK then Some (False, f, st3)
           else do {
             (len', f1) \<leftarrow> fcall_buf_to_msg buf2 f;
             Some (len' \<noteq> 0, f1, st3) } } }
       else do {
         (len, msg1, buf1, st3) \<leftarrow> send_msg env st2 msg buf (n_mq_id m);
         Some (len \<noteq> 0, v_fcall msg1, st3) });
     if \<not> ok then Some (VFS_MQERR, st3)
     else if f_type f1 \<noteq> type_code Rwalk then Some (VFS_MQERR, st3)
     else do {
       (err, v, st4) \<leftarrow> expand_loop env st3 mount (f_wqid f1) [0..<unat (f_nwqid f1)] mount elements;
       if err \<noteq> VFS_OK then Some (err, st4)
       else do {
         st5 \<leftarrow> upd_node v (\<lambda>x. x\<lparr>n_qid := (n_qid x)\<lparr>q_id := ucast new_fid\<rparr>\<rparr>) st4;
         Some (VFS_OK, st5) } } }"

text \<open>
  The loop of \<open>vnode_scan\<close>. \<open>mnt\<close> is the last mount point passed, with the elements from there on and their
  index, if there was one; the array of entries holds \<open>i\<close> of them. The result is the number of elements, the
  entries, and the node when all were traversed.
\<close>

partial_function (option) scan_loop ::
    "'w vfs_env \<Rightarrow> 'w vfs_state \<Rightarrow> u16 \<Rightarrow> (u64 \<times> bytes \<times> u16) option \<Rightarrow> u64 \<Rightarrow> bytes \<Rightarrow> u16 \<Rightarrow> qid list \<Rightarrow>
     (u16 \<times> qid list \<times> u64 option \<times> 'w vfs_state) option" where
  "scan_loop env st n mnt v element i wqid =
     (if i < n then do {
        x \<leftarrow> s_nodes st v;
        let mnt1 = (if n_mount_node x = 0 then Some (v, element, i) else mnt);
        child \<leftarrow> vnode_find_child st v element;
        if child = 0 then do {
          (mount, mount_element, mount_index) \<leftarrow> mnt1;
          (err, st1) \<leftarrow> vnode_expand env st mount mount_element (n - mount_index);
          if err \<noteq> VFS_OK then Some (i, wqid, None, st1)
          else scan_loop env st1 n mnt1 v element i wqid }
        else do {
          rest \<leftarrow> pstriter element;
          scan_loop env st n mnt1 child rest (i + 1) (wqid @ [n_qid x]) } }
      else do {
        x \<leftarrow> s_nodes st v;
        st1 \<leftarrow> (if q_id (n_qid x) = ucast NOFID then do {
            (mount, mount_element, mount_index) \<leftarrow> mnt;
            (err, st1) \<leftarrow> vnode_expand env st mount mount_element (n - mount_index);
            Some st1 }
          else Some st);
        Some (n, wqid, Some v, st1) })"

definition vnode_scan ::
    "'w vfs_env \<Rightarrow> 'w vfs_state \<Rightarrow> bytes \<Rightarrow> u16 \<Rightarrow> (u16 \<times> qid list \<times> u64 option \<times> 'w vfs_state) option" where
  "vnode_scan env st elements n = scan_loop env st n None (e_root env) elements 0 []"

end
