(* ===== verification/Vfs_Server.thy ===== *)
theory Vfs_Server
  imports Vnode_Msg
begin

text \<open>
  The file server (\<^verbatim>\<open>modules/vfs/vfs.c\<close>, \<^verbatim>\<open>modules/vfs/main.c\<close>): building the first nodes, and the message handlers.
  A handler gives the length of the reply, the buffer, the queue to send it to and the state; a length of 0
  sends nothing.
\<close>

subsection \<open>The first nodes\<close>

definition new_name :: "'w vfs_env \<Rightarrow> string \<Rightarrow> bytes option option" where
  "new_name env s = pstrconv (e_str env) None (ascii s @ [0]) 0"

text \<open>
  The functions \<open>_setup_boot\<close>, \<open>_setup_pl011\<close> and \<open>_setup_uart\<close> are the same but for the name, the queue and the
  error when there is no room for the node.
\<close>

definition setup_server ::
    "'w vfs_env \<Rightarrow> 'w vfs_state \<Rightarrow> u64 \<Rightarrow> string \<Rightarrow> string \<Rightarrow> vfs_error \<Rightarrow> bytes \<Rightarrow> bytes \<Rightarrow> (vfs_error \<times> 'w vfs_state) option" where
  "setup_server env st parent name queue no_room uname aname = do {
     (v, st1) \<leftarrow> vnode_add_child env st parent;
     if v = 0 then Some (no_room, st1)
     else do {
       str \<leftarrow> new_name env name;
       st2 \<leftarrow> upd_node v (\<lambda>x. x\<lparr>n_name := str\<rparr>) st1;
       let drop_node = (\<lambda>err st. map_option (Pair err) (vnode_remove env st v));
       if str = None then drop_node VFS_NOMEM st2
       else do {
         let mq = e_open env (ascii queue @ [0]);
         st3 \<leftarrow> upd_node v (\<lambda>x. x\<lparr>n_mq_id := mq\<rparr>) st2;
         if mq = -1 then drop_node VFS_NOTFOUND st3
         else do {
           let (fid, st4) = next_id st3;
           let (tag, st5) = next_tag st4;
           let msg = \<lparr>v_fcall = (v_fcall (e_stack env))\<lparr>f_type := type_code Tattach, f_tag := ucast tag, f_fid := fid,
             f_afid := NOFID, f_uname := uname, f_aname := aname\<rparr>, v_mq_id = s_vfs_in st5\<rparr>;
           (len, msg1, buf, st6) \<leftarrow> send_msg env st5 msg (replicate VFS_MAX_MSG_LEN 0) mq;
           if len = 0 then drop_node VFS_MQERR st6
           else if f_type (v_fcall msg1) \<noteq> type_code Rattach then drop_node VFS_MQERR st6
           else map_option (Pair VFS_OK) (upd_node v (\<lambda>x. x\<lparr>n_qid := f_qid (v_fcall msg1), n_children := 0,
             n_children_no := 0, n_mount_node := 0\<rparr>) st6) } } } }"

definition setup_boot where
  "setup_boot env st root = setup_server env st root ''boot'' ''vfs/mod/rd'' VFS_NOMEM"

definition setup_pl011 where
  "setup_pl011 env st dev = setup_server env st dev ''pl011'' ''vfs/mod/pl011'' VFS_NOTFOUND"

definition setup_uart where
  "setup_uart env st dev = setup_server env st dev ''uart'' ''vfs/mod/uart'' VFS_NOMEM"

definition setup_dev ::
    "'w vfs_env \<Rightarrow> 'w vfs_state \<Rightarrow> u64 \<Rightarrow> bytes \<Rightarrow> bytes \<Rightarrow> (vfs_error \<times> 'w vfs_state) option" where
  "setup_dev env st root uname aname = do {
     (dev, st1) \<leftarrow> vnode_add_child env st root;
     if dev = 0 then Some (VFS_NOMEM, st1)
     else do {
       str \<leftarrow> new_name env ''dev'';
       st2 \<leftarrow> upd_node dev (\<lambda>x. x\<lparr>n_name := str\<rparr>) st1;
       if str = None then map_option (Pair VFS_NOMEM) (vnode_remove env st2 dev)
       else do {
         let (ident, st3) = next_id st2;
         st4 \<leftarrow> upd_node dev (\<lambda>x. x\<lparr>n_qid := \<lparr>q_type = QTDIR, q_version = 0, q_id = ucast ident\<rparr>, n_children := 0,
           n_children_no := 0, n_mount_node := 0, n_mq_id := -1\<rparr>) st3;
         (err, st5) \<leftarrow> setup_pl011 env st4 dev uname aname;
         if err \<noteq> VFS_OK then map_option (Pair err) (vnode_remove env st5 dev)
         else do {
           (err, st6) \<leftarrow> setup_uart env st5 dev uname aname;
           if err \<noteq> VFS_OK then map_option (Pair err) (vnode_remove env st6 dev)
           else Some (VFS_OK, st6) } } } }"

definition vfs_init :: "'w vfs_env \<Rightarrow> 'w vfs_state \<Rightarrow> (vfs_error \<times> 'w vfs_state) option" where
  "vfs_init env st =
     (let mq = e_open env (ascii ''vfs/client'' @ [0]); st1 = st\<lparr>s_vfs_in := mq\<rparr>; root = e_root env in
      if mq = -1 then Some (VFS_NOMEM, st1)
      else do {
        let (ident, st2) = next_id st1;
        st3 \<leftarrow> upd_node root (\<lambda>x. x\<lparr>n_qid := \<lparr>q_type = QTDIR, q_version = 0, q_id = ucast ident\<rparr>, n_children := 0,
          n_children_no := 0, n_mount_node := 0, n_mq_id := -1\<rparr>) st2;
        ures \<leftarrow> pstrconv (e_str env) (Some (replicate 16 0)) (ascii ''vfs/client'' @ [0]) 16;
        uname \<leftarrow> ures;
        ares \<leftarrow> pstrconv (e_str env) (Some (replicate 16 0)) (ascii ''/'' @ [0]) 16;
        aname \<leftarrow> ares;
        (err, st4) \<leftarrow> setup_boot env st3 root uname aname;
        if err \<noteq> VFS_OK then map_option (Pair err) (vnode_remove env st4 root)
        else do {
          (err, st5) \<leftarrow> setup_dev env st4 root uname aname;
          if err \<noteq> VFS_OK then map_option (Pair err) (vnode_remove env st5 root)
          else Some (VFS_OK, st5) } })"

subsection \<open>The handlers\<close>

definition ENOCLIENT :: bytes where "ENOCLIENT = fcall_error ''Failed to find client''"
definition ESERVER :: bytes where "ESERVER = fcall_error ''Server failed''"
definition ENOFID :: bytes where "ENOFID = fcall_error ''Unknown fid''"

type_synonym 'w vfs_answer = "(nat \<times> bytes \<times> u32 \<times> 'w vfs_state) option"

definition answer :: "'w vfs_state \<Rightarrow> vfs_msg \<Rightarrow> (nat \<times> bytes) option \<Rightarrow> 'w vfs_answer" where
  "answer st msg r = map_option (\<lambda>(len, buf). (len, buf, v_mq_id msg, st)) r"

definition refuse :: "bytes \<Rightarrow> 'w vfs_state \<Rightarrow> vfs_msg \<Rightarrow> bytes \<Rightarrow> 'w vfs_answer" where
  "refuse e st msg buf = answer st msg (reply_error e msg buf)"

definition reply :: "'w vfs_state \<Rightarrow> vfs_msg \<Rightarrow> (fcall \<Rightarrow> fcall) \<Rightarrow> bytes \<Rightarrow> 'w vfs_answer" where
  "reply st msg f buf = answer st msg (vfs_msg_put (msg\<lparr>v_fcall := f (v_fcall msg)\<rparr>) buf)"

text \<open>The client of the message, or the answer that there is none.\<close>

definition with_client :: "'w vfs_state \<Rightarrow> vfs_msg \<Rightarrow> bytes \<Rightarrow> (u64 \<Rightarrow> 'w vfs_answer) \<Rightarrow> 'w vfs_answer" where
  "with_client st msg buf k = do {
     client \<leftarrow> vfs_client_get (s_clients st) (v_mq_id msg);
     if client = 0 then refuse ENOCLIENT st msg buf else k client }"

text \<open>The node of a file id of the client, or the answer that it is unknown.\<close>

definition with_node :: "'w vfs_state \<Rightarrow> vfs_msg \<Rightarrow> bytes \<Rightarrow> u64 \<Rightarrow> (u64 \<Rightarrow> 'w vfs_answer) \<Rightarrow> 'w vfs_answer" where
  "with_node st msg buf client k = do {
     v \<leftarrow> vfs_client_fid_get (s_clients st) client (f_fid (v_fcall msg));
     if v = 0 then refuse ENOFID st msg buf else k v }"

definition vfs_attach :: "'w vfs_env \<Rightarrow> 'w vfs_state \<Rightarrow> vfs_msg \<Rightarrow> bytes \<Rightarrow> 'w vfs_answer" where
  "vfs_attach env st msg buf = (let f = v_fcall msg; none = (\<lambda>st. Some (0, buf, v_mq_id msg, st)) in do {
     ulen \<leftarrow> pstr_len (f_uname f);
     if ulen = 0 then none st
     else do {
       name \<leftarrow> pstrtoz (e_str env) (Some (replicate 32 0)) (f_uname f) 32;
       case name of None \<Rightarrow> none st
       | Some client_name \<Rightarrow> do {
           (client, h) \<leftarrow> vfs_client_create (e_open env) (s_clients st) client_name;
           let st1 = st\<lparr>s_clients := h\<rparr>;
           if client = 0 then none st1
           else do {
             alen \<leftarrow> pstr_len (f_aname f);
             if alen = 0 \<or> f_fid f = NOFID then refuse EINVALID st1 msg buf
             else do {
               (pair, h1) \<leftarrow> vfs_client_fid_add h client (f_fid f) (e_root env);
               let st2 = st1\<lparr>s_clients := h1\<rparr>;
               if pair = 0 then refuse ENOCLIENT st2 msg buf
               else do {
                 root \<leftarrow> s_nodes st2 (e_root env);
                 let fin = (\<lambda>st. reply st msg (\<lambda>f. f\<lparr>f_type := type_code Rattach, f_qid := n_qid root\<rparr>) buf);
                 if f_fid f = 0 then do {
                   dname \<leftarrow> pstrconv (e_str env) (Some (replicate 16 0)) (ascii ''dev'' @ [0]) 16;
                   dname' \<leftarrow> dname;
                   dev \<leftarrow> vnode_find_child st2 (e_root env) dname';
                   uname \<leftarrow> pstrconv (e_str env) (Some dname') (ascii ''uart'' @ [0]) 16;
                   uname' \<leftarrow> uname;
                   uart \<leftarrow> vnode_find_child st2 dev uname';
                   (pair, h2) \<leftarrow> vfs_client_fid_add h1 client (f_fid f + 1) uart;
                   let st3 = st2\<lparr>s_clients := h2\<rparr>;
                   if pair = 0 then refuse ENOCLIENT st3 msg buf else fin st3 }
                 else fin st2 } } } } } })"

definition vfs_clunk :: "'w vfs_env \<Rightarrow> 'w vfs_state \<Rightarrow> vfs_msg \<Rightarrow> bytes \<Rightarrow> 'w vfs_answer" where
  "vfs_clunk env st msg buf = with_client st msg buf (\<lambda>client.
     if f_fid (v_fcall msg) = NOFID then refuse EINVALID st msg buf
     else do {
       (r, h) \<leftarrow> vfs_client_fid_remove (s_clients st) client (f_fid (v_fcall msg));
       let st1 = st\<lparr>s_clients := h\<rparr>;
       if r \<noteq> 0 then refuse ENOFID st1 msg buf
       else reply st1 msg (\<lambda>f. f\<lparr>f_type := type_code Rclunk\<rparr>) buf })"

definition vfs_create :: "'w vfs_env \<Rightarrow> 'w vfs_state \<Rightarrow> vfs_msg \<Rightarrow> bytes \<Rightarrow> 'w vfs_answer" where
  "vfs_create env st msg buf = with_client st msg buf (\<lambda>client.
     if f_fid (v_fcall msg) = NOFID \<or> f_perm (v_fcall msg) AND DMDIR = 0 then refuse EINVALID st msg buf
     else with_node st msg buf client (\<lambda>parent. do {
       (child, st1) \<leftarrow> vnode_add_child env st parent;
       if child = 0 then refuse ESERVER st1 msg buf
       else do {
         name \<leftarrow> pstrdup (e_str env) None (f_name (v_fcall msg)) 0;
         st2 \<leftarrow> upd_node child (\<lambda>x. x\<lparr>n_name := name\<rparr>) st1;
         if name = None then do {
           st3 \<leftarrow> vnode_remove env st2 child;
           refuse ESERVER st3 msg buf }
         else do {
           let (ident, st3) = next_id st2;
           let q = \<lparr>q_type = f_perm (v_fcall msg), q_version = 0, q_id = ucast ident\<rparr>;
           st4 \<leftarrow> upd_node child (\<lambda>x. x\<lparr>n_qid := q, n_children := 0, n_children_no := 0, n_mount_node := 0,
             n_mq_id := -1\<rparr>) st3;
           (r, h) \<leftarrow> vfs_client_fid_update (s_clients st4) client (f_fid (v_fcall msg)) child;
           reply (st4\<lparr>s_clients := h\<rparr>) msg (\<lambda>f. f\<lparr>f_type := type_code Rcreate, f_qid := q,
             f_iounit := of_nat VFS_MAX_IOUNIT\<rparr>) buf } } }))"

definition vfs_mount :: "'w vfs_env \<Rightarrow> 'w vfs_state \<Rightarrow> vfs_msg \<Rightarrow> bytes \<Rightarrow> 'w vfs_answer" where
  "vfs_mount env st msg buf = with_client st msg buf (\<lambda>client.
     if f_fid (v_fcall msg) = NOFID \<or> f_mfid (v_fcall msg) = NOFID then refuse EINVALID st msg buf
     else do {
       channel \<leftarrow> vfs_client_fid_get (s_clients st) client (f_fid (v_fcall msg));
       mount \<leftarrow> vfs_client_fid_get (s_clients st) client (f_mfid (v_fcall msg));
       if channel = 0 \<or> mount = 0 then refuse ENOFID st msg buf
       else do {
         (r, st1) \<leftarrow> vnode_attach env st channel mount;
         if r = 0 then refuse ESERVER st1 msg buf
         else do {
           x \<leftarrow> s_nodes st1 mount;
           reply st1 msg (\<lambda>f. f\<lparr>f_type := type_code Rmount, f_qid := n_qid x\<rparr>) buf } } })"

definition vfs_open :: "'w vfs_env \<Rightarrow> 'w vfs_state \<Rightarrow> vfs_msg \<Rightarrow> bytes \<Rightarrow> 'w vfs_answer" where
  "vfs_open env st msg buf = with_client st msg buf (\<lambda>client.
     if f_fid (v_fcall msg) = NOFID then refuse EINVALID st msg buf
     else with_node st msg buf client (\<lambda>v. do {
       x \<leftarrow> s_nodes st v;
       reply st msg (\<lambda>f. f\<lparr>f_type := type_code Ropen, f_qid := n_qid x, f_iounit := of_nat VFS_MAX_IOUNIT\<rparr>) buf }))"

text \<open>A message that is passed on: the reply is parsed, and goes to the queue that is read from it.\<close>

definition forward :: "'w vfs_env \<Rightarrow> 'w vfs_state \<Rightarrow> vfs_msg \<Rightarrow> bytes \<Rightarrow> u64 \<Rightarrow> 'w vfs_answer" where
  "forward env st msg buf v = do {
     (err, buf1, st1) \<leftarrow> vnode_forward env st v buf;
     if err \<noteq> VFS_OK then refuse ESERVER st1 msg buf1
     else do {
       (len, msg1) \<leftarrow> vfs_msg_parse msg buf1;
       Some (len, buf1, v_mq_id msg1, st1) } }"

definition vfs_read :: "'w vfs_env \<Rightarrow> 'w vfs_state \<Rightarrow> vfs_msg \<Rightarrow> bytes \<Rightarrow> 'w vfs_answer" where
  "vfs_read env st msg buf = with_client st msg buf (\<lambda>client. with_node st msg buf client (\<lambda>v. do {
     x \<leftarrow> s_nodes st v;
     if n_mq_id x = -1 \<and> n_channel_node x = 0 then do {
       let f = v_fcall msg;
       (count, dat) \<leftarrow> vnode_read_dir st v (replicate (unat (f_count f)) 0) (f_offset f) (f_count f);
       if count = 0 then refuse ESERVER st msg buf
       else reply st msg (\<lambda>f. f\<lparr>f_type := type_code Rread, f_count := of_nat count, f_data := dat\<rparr>) buf }
     else forward env st msg buf v }))"

definition vfs_stat :: "'w vfs_env \<Rightarrow> 'w vfs_state \<Rightarrow> vfs_msg \<Rightarrow> bytes \<Rightarrow> 'w vfs_answer" where
  "vfs_stat env st msg buf = with_client st msg buf (\<lambda>client. with_node st msg buf client (forward env st msg buf))"

definition vfs_walk :: "'w vfs_env \<Rightarrow> 'w vfs_state \<Rightarrow> vfs_msg \<Rightarrow> bytes \<Rightarrow> 'w vfs_answer" where
  "vfs_walk env st msg buf = with_client st msg buf (\<lambda>client.
     if f_fid (v_fcall msg) = NOFID \<or> f_newfid (v_fcall msg) = NOFID then refuse EINVALID st msg buf
     else do {
       (nwqid, wqid, node, st1) \<leftarrow> vnode_scan env st (f_wname (v_fcall msg)) (f_nwname (v_fcall msg));
       let fin = (\<lambda>st. reply st msg (\<lambda>f. f\<lparr>f_type := type_code Rwalk, f_nwqid := nwqid,
         f_wqid := concat (map qid_mem wqid)\<rparr>) buf);
       case node of None \<Rightarrow> fin st1
       | Some v \<Rightarrow>
           if v \<noteq> 0 \<and> nwqid = f_nwname (v_fcall msg) then do {
             (pair, h) \<leftarrow> vfs_client_fid_add (s_clients st1) client (f_newfid (v_fcall msg)) v;
             let st2 = st1\<lparr>s_clients := h\<rparr>;
             if pair = 0 then refuse ENOCLIENT st2 msg buf else fin st2 }
           else fin st1 })"

definition vfs_write :: "'w vfs_env \<Rightarrow> 'w vfs_state \<Rightarrow> vfs_msg \<Rightarrow> bytes \<Rightarrow> 'w vfs_answer" where
  "vfs_write env st msg buf = with_client st msg buf (\<lambda>client.
     if f_fid (v_fcall msg) = NOFID then refuse EINVALID st msg buf
     else with_node st msg buf client (forward env st msg buf))"

definition vfs_dispatch :: "'w vfs_env \<Rightarrow> 'w vfs_state \<Rightarrow> vfs_msg \<Rightarrow> bytes \<Rightarrow> 'w vfs_answer" where
  "vfs_dispatch env st msg buf = (case type_of (f_type (v_fcall msg)) of
       Some Tattach \<Rightarrow> vfs_attach env st msg buf
     | Some Tclunk \<Rightarrow> vfs_clunk env st msg buf
     | Some Tcreate \<Rightarrow> vfs_create env st msg buf
     | Some Tmount \<Rightarrow> vfs_mount env st msg buf
     | Some Topen \<Rightarrow> vfs_open env st msg buf
     | Some Tread \<Rightarrow> vfs_read env st msg buf
     | Some Tstat \<Rightarrow> vfs_stat env st msg buf
     | Some Twalk \<Rightarrow> vfs_walk env st msg buf
     | Some Twrite \<Rightarrow> vfs_write env st msg buf
     | _ \<Rightarrow> Some (0, buf, v_mq_id msg, st))"

definition vfs_handle_message :: "'w vfs_env \<Rightarrow> 'w vfs_state \<Rightarrow> bytes \<Rightarrow> (bytes \<times> 'w vfs_state) option" where
  "vfs_handle_message env st buf = do {
     (len, msg) \<leftarrow> vfs_msg_parse (e_stack env) buf;
     if len = 0 then Some (buf, st)
     else do {
       (len, buf1, mq, st1) \<leftarrow> vfs_dispatch env st msg buf;
       if len = 0 then Some (buf1, st1)
       else Some (buf1, st1\<lparr>s_world := snd (e_send env mq buf1 len (s_world st1))\<rparr>) } }"

end
