(* ===== verification/Vfs_Props.thy ===== *)
theory Vfs_Props
  imports Vfs_Server
begin

text \<open>What the file server does with its tree, with a path, with a message it passes on and with a clunk.\<close>

subsection \<open>Directories with more than four entries\<close>

lemma round_up_4: "round_up 4 1 = Some 4"
  by (subst round_up.simps, simp)+

lemma add_fifth:
  assumes "s_nodes st v = Some x" "n_children_no x = 4"
  shows "\<exists>st'. vnode_add_child env st v = Some (n_children x + 224, st') \<and> s_live st' = s_live st \<and>
    s_clients st' = s_clients st \<and> dom (s_nodes st') = dom (s_nodes st)"
  using assms by (auto simp: vnode_add_child_def round_up_4 upd_node_def child_at_def layout_simps)

text \<open>
  C30. Creating the fifth entry of a directory: the array has room for four and is not extended, so that the new
  node is behind the array and setting it up leaves the memory of the server.
\<close>

theorem vfs_create_fifth:
  assumes "vfs_client_get (s_clients st) (v_mq_id msg) = Some client" "client \<noteq> 0"
    and "vfs_client_fid_get (s_clients st) client (f_fid (v_fcall msg)) = Some v" "v \<noteq> 0"
    and "f_fid (v_fcall msg) \<noteq> NOFID" "f_perm (v_fcall msg) AND DMDIR \<noteq> 0"
    and "s_nodes st v = Some x" "n_children_no x = 4" "n_children x + 224 \<notin> dom (s_nodes st)" "n_children x + 224 \<noteq> 0"
  shows "vfs_create env st msg buf = None"
proof -
  obtain st' where st': "vnode_add_child env st v = Some (n_children x + 224, st')" "dom (s_nodes st') = dom (s_nodes st)"
    using add_fifth [OF assms(7,8)] by blast
  have "upd_node (n_children x + 224) f st' = None" for f
  proof -
    have "s_nodes st' (n_children x + 224) = None" using assms(9) unfolding st'(2) [symmetric] by (simp add: domIff)
    then show ?thesis by (simp add: upd_node_def)
  qed
  then show ?thesis
    using assms(1-6,10) st'(1) by (simp add: vfs_create_def with_client_def with_node_def bind_eq_None_conv)
qed

subsection \<open>Removing a directory\<close>

text \<open>
  Removing a node with two or more children is undefined: after the first child the pointer to the array is
  null, and the second child is looked for at an offset from null.
\<close>

lemma vnode_remove_children_null:
  assumes "s_nodes st v = Some x" "v \<noteq> 0" "n_children x \<noteq> 0" "2 \<le> n_children_no x"
    and "v \<notin> {n_children x, n_children x + 56, n_children x + 112, n_children x + 168}"
    and "s_nodes st (n_children x) = Some y" "n_children y = 0" "n_children x \<noteq> e_root env"
    and "56 \<notin> dom (s_nodes st)"
  shows "vnode_remove env st v = None"
proof -
  let ?c = "n_children x"
  define st1 where "st1 = st\<lparr>s_nodes := (s_nodes st)(?c \<mapsto> y\<lparr>n_name := None\<rparr>)\<rparr>"
  have c0: "child_at x 0 = ?c" by (simp add: child_at_def)
  have less: "0 < n_children_no x" "1 < n_children_no x"
    using assms(4) by (auto intro: less_le_trans [of _ 2])
  have fin: "remove_finish env ?c False st = free_array st1 ?c"
    using assms(6,8) by (simp add: remove_finish_def upd_node_def st1_def)
  have "remove_children env st v 0 = None"
  proof (cases "free_array st1 ?c")
    case None
    then show ?thesis
      using assms(1,3,6,7) less(1) fin c0 by (subst remove_children.simps) simp
  next
    case (Some st2)
    have st2: "s_nodes st2 = (\<lambda>p. if p \<in> {?c, ?c + 56, ?c + 112, ?c + 168} then None else s_nodes st1 p)"
      using Some assms(3) by (auto simp: free_array_def split: if_splits)
    have v2: "s_nodes st2 v = Some x" using assms(1,5) by (simp add: st2 st1_def)
    define st3 where "st3 = st2\<lparr>s_nodes := (s_nodes st2)(v \<mapsto> x\<lparr>n_children := 0\<rparr>)\<rparr>"
    have up: "upd_node v (\<lambda>x. x\<lparr>n_children := 0\<rparr>) st2 = Some st3" using v2 by (simp add: upd_node_def st3_def)
    have c1: "child_at (x\<lparr>n_children := 0\<rparr>) 1 = 56" by (simp add: child_at_def layout_simps)
    have v56: "v \<noteq> 56" using assms(1,9) by auto
    then have "s_nodes st3 56 = None" using assms(9,6) by (auto simp: st3_def st2 st1_def domIff)
    then have "remove_children env st3 v 1 = None"
      using less(2) c1 by (subst remove_children.simps) (simp add: st3_def)
    then show ?thesis
      using assms(1,3,6,7) less(1) fin c0 Some up by (subst remove_children.simps) simp
  qed
  then show ?thesis using assms(1-3) by (simp add: vnode_remove_def)
qed

subsection \<open>Walking through known nodes\<close>

text \<open>The nodes \<open>vs\<close> that the elements lead through from \<open>v\<close> on, by lookups that all succeed.\<close>

fun known_path :: "'w vfs_state \<Rightarrow> u64 \<Rightarrow> bytes \<Rightarrow> u64 list \<Rightarrow> bool" where
  "known_path st v element [] \<longleftrightarrow> v \<in> dom (s_nodes st)"
| "known_path st v element (c # cs) \<longleftrightarrow> v \<in> dom (s_nodes st) \<and> c \<noteq> 0 \<and>
     vnode_find_child st v element = Some c \<and> (\<exists>rest. pstriter element = Some rest \<and> known_path st c rest cs)"

lemma scan_known:
  assumes "known_path st v element cs" "unat n = unat i + length cs"
    and "s_nodes st (last (v # cs)) = Some z" "q_id (n_qid z) \<noteq> ucast NOFID"
  shows "scan_loop env st n mnt v element i wqid =
    Some (n, wqid @ map (\<lambda>p. n_qid (the (s_nodes st p))) (butlast (v # cs)), Some (last (v # cs)), st)"
  using assms
proof (induction cs arbitrary: v element i mnt wqid)
  case Nil
  then have "\<not> i < n" by (simp add: word_less_nat_alt)
  then show ?case using Nil by (subst scan_loop.simps) simp
next
  case (Cons c cs)
  obtain x rest where x: "s_nodes st v = Some x" "pstriter element = Some rest" "known_path st c rest cs"
    "vnode_find_child st v element = Some c" "c \<noteq> 0" using Cons.prems(1) by auto
  have lt: "i < n" using Cons.prems(2) by (simp add: word_less_nat_alt)
  have "unat (i + 1) = unat i + 1"
    using Cons.prems(2) unsigned_less [of n, where 'a = nat] by (subst unat_add_no_overflow) simp_all
  then have "unat n = unat (i + 1) + length cs" using Cons.prems(2) by simp
  from Cons.IH [OF x(3) this] Cons.prems(3,4) x lt show ?case
    by (subst scan_loop.simps) simp
qed

text \<open>
  Walking along a path whose nodes the server already has: it ends at the last node and changes nothing, and
  the entry it reports for every element is the one of the node before it, not of the element.
\<close>

lemma vnode_scan_known:
  assumes "known_path st (e_root env) elements cs" "unat n = length cs"
    and "s_nodes st (last (e_root env # cs)) = Some z" "q_id (n_qid z) \<noteq> ucast NOFID"
  shows "vnode_scan env st elements n =
    Some (n, map (\<lambda>p. n_qid (the (s_nodes st p))) (butlast (e_root env # cs)), Some (last (e_root env # cs)), st)"
  using scan_known [OF assms(1) _ assms(3,4), of n 0 env None "[]"] assms(2) by (simp add: vnode_scan_def)

subsection \<open>Closing the first file of a client\<close>

lemma fid_remove_keeps_first: "vfs_client_fid_remove h c k = Some (r, h') \<Longrightarrow> cl_first h' = cl_first h"
  by (auto simp: vfs_client_fid_remove_def Let_def split: bind_splits if_splits)

text \<open>
  A client closes the first of its files: the answer says that it is closed, and every later open, read, stat
  or write of this client, with whatever file id, is undefined, because it follows the pointer to the freed pair.
\<close>

lemma vfs_clunk_first_breaks:
  assumes "vfs_ok (s_clients st) cs L" "find (\<lambda>(a, q). q = v_mq_id msg) cs = Some (c, v_mq_id msg)"
    and "L c = Some ((a, f_fid (v_fcall msg), v) # l)" "f_fid (v_fcall msg) \<noteq> NOFID" "128 \<le> length buf"
    and "v_mq_id msg' = v_mq_id msg" "f_fid (v_fcall msg') \<noteq> NOFID"
  shows "\<exists>buf' st'. vfs_clunk env st msg buf = Some (11, buf', v_mq_id msg, st') \<and>
    vfs_open env st' msg' buf2 = None \<and> vfs_read env st' msg' buf2 = None \<and>
    vfs_stat env st' msg' buf2 = None \<and> vfs_write env st' msg' buf2 = None"
proof -
  have pairs: "pairs_ok (s_clients st) L" using assms(1) by (simp add: vfs_ok_def)
  obtain h' x where h': "vfs_client_fid_remove (s_clients st) c (f_fid (v_fcall msg)) = Some (0, h')"
      "cl_pairs h' a = None" "cl_clients h' = cl_clients (s_clients st)" "cl_first h' = cl_first (s_clients st)"
      "cl_clients (s_clients st) c = Some x" "vc_fids x = a" "a \<noteq> 0"
    using fid_remove_first [OF pairs assms(3)] fid_remove_keeps_first by blast
  have "(c, v_mq_id msg) \<in> set cs" by (rule find_in [OF assms(2)])
  then have c0: "c \<noteq> 0" using assms(1) clients_at_nonzero by (force simp: vfs_ok_def)
  have get: "vfs_client_get (s_clients st) (v_mq_id msg) = Some c"
    using vfs_get_ok [OF assms(1), of "v_mq_id msg"] assms(2) by simp
  have "vfs_ok (s_clients st) cs L" by (rule assms(1))
  then have "clients_at (cl_clients h') (cl_first h') cs" by (simp add: vfs_ok_def h'(3,4))
  then have get': "vfs_client_get h' (v_mq_id msg) = Some c"
    using client_find_at [of h' "cl_first h'" cs "v_mq_id msg"] assms(2) by (simp add: vfs_client_get_def)
  have "fid_find h' j a = None" for j using h'(2,7) by (subst fid_find.simps) simp
  then have gone: "vfs_client_fid_get h' c j = None" for j using h'(3,5,6) by (simp add: vfs_client_fid_get_def)
  define msg1 where "msg1 = msg\<lparr>v_fcall := (v_fcall msg)\<lparr>f_type := type_code Rclunk\<rparr>\<rparr>"
  have code: "type_code Rclunk = 117" "type_of 117 = Some Rclunk"
    by (simp_all add: type_code.simps fcall_type_list_def type_of_def rd_at_def)
  obtain w where "fcall_wire (v_fcall msg1) = Some w" "length w = 7"
    by (simp add: msg1_def fcall_wire_def fields_of_def code wire_of_def)
  then obtain buf' where put: "vfs_msg_put msg1 buf = Some (11, buf')"
    using vfs_msg_put_wire [of msg1 w buf] assms(5) by auto
  have "vfs_clunk env st msg buf = Some (11, buf', v_mq_id msg, st\<lparr>s_clients := h'\<rparr>)"
    using get c0 h'(1) assms(4) put
    by (simp add: vfs_clunk_def with_client_def reply_def answer_def msg1_def)
  then show ?thesis
    using get' c0 gone assms(6,7)
    by (simp add: vfs_open_def vfs_read_def vfs_stat_def vfs_write_def with_client_def with_node_def)
qed

subsection \<open>Passing a message on\<close>

lemma bit_cong: "v = w \<Longrightarrow> bit v n = bit w n"
  by simp

lemma upper_bytes:
  fixes x y :: u32
  shows "(ucast (drop_bit 8 x) :: u8) = ucast (drop_bit 8 y) \<and> (ucast (drop_bit 16 x) :: u8) = ucast (drop_bit 16 y) \<and>
    (ucast (drop_bit 24 x) :: u8) = ucast (drop_bit 24 y) \<longleftrightarrow> drop_bit 8 x = drop_bit 8 y" (is "?l \<longleftrightarrow> ?r")
proof
  assume l: ?l
  show ?r
  proof (rule bit_word_eqI)
    fix n assume "n < LENGTH(32)"
    then consider "n < 8" | "8 \<le> n" "n < 16" | "16 \<le> n" "n < 24" | "24 \<le> n" by force
    then show "bit (drop_bit 8 x) n \<longleftrightarrow> bit (drop_bit 8 y) n"
    proof cases
      case 1
      then show ?thesis using bit_cong [OF conjunct1 [OF l], of n] by (simp add: bit_simps)
    next
      case 2
      then obtain k where "n = 8 + k" "k < 8" by (auto simp: le_iff_add)
      then show ?thesis using bit_cong [OF conjunct1 [OF conjunct2 [OF l]], of k] by (simp add: bit_simps)
    next
      case 3
      then obtain k where "n = 16 + k" "k < 8" by (auto simp: le_iff_add)
      then show ?thesis using bit_cong [OF conjunct2 [OF conjunct2 [OF l]], of k] by (simp add: bit_simps)
    next
      case 4
      then have "\<not> bit x (8 + n)" "\<not> bit y (8 + n)"
        using bit_imp_le_length [of x "8 + n"] bit_imp_le_length [of y "8 + n"] by auto
      then show ?thesis by (simp add: bit_simps)
    qed
  qed
next
  assume r: ?r
  then have "drop_bit 8 (drop_bit 8 x) = drop_bit 8 (drop_bit 8 y)" "drop_bit 16 (drop_bit 8 x) = drop_bit 16 (drop_bit 8 y)"
    by simp_all
  then have "drop_bit 16 x = drop_bit 16 y" "drop_bit 24 x = drop_bit 24 y" unfolding drop_bit_drop_bit by simp_all
  then show ?l using r by simp
qed

lemma low_byte_replaced:
  assumes "get_uint buf p = Some x" "p + 4 \<le> length buf"
  shows "\<exists>x'. get_uint (buf[p := ucast y]) p = Some x' \<and> (x' = y \<longleftrightarrow> drop_bit 8 x = drop_bit 8 (y :: u32))"
proof -
  have b: "buf ! (p + 1) = ucast (drop_bit 8 x) \<and> buf ! (p + 2) = ucast (drop_bit 16 x) \<and> buf ! (p + 3) = ucast (drop_bit 24 x)"
    using assms by (auto simp: get_uint_def rd_at_def bytes_of_u32)
  define x' where "x' = (ucast (ucast y :: u8) :: u32) OR push_bit 8 (ucast (buf ! (p + 1))) OR
      push_bit 16 (ucast (buf ! (p + 2))) OR push_bit 24 (ucast (buf ! (p + 3)))"
  have "get_uint (buf[p := ucast y]) p = Some x'"
    using assms(2) by (simp add: get_uint_def rd_at_def x'_def)
  moreover have "x' = y \<longleftrightarrow> drop_bit 8 x = drop_bit 8 y"
    unfolding x'_def bytes_of_u32 using upper_bytes [of x y] b by simp
  ultimately show ?thesis by blast
qed

lemma rd_le_low:
  assumes "p + n \<le> length buf" "0 < n"
  shows "\<exists>v. rd_le n buf p = Some v \<and> (of_nat v :: u8) = buf ! p"
proof -
  obtain k where k: "n = Suc k" using assms(2) by (cases n) auto
  have "take n (drop p buf) = buf ! p # take k (drop (Suc p) buf)"
    using assms(1) by (simp add: k Cons_nth_drop_Suc [symmetric])
  moreover have z: "(256 :: u8) = 0" by simp
  have "256 * w = 0" for w :: u8 unfolding z by simp
  ultimately show ?thesis using assms(1) by (simp add: rd_le_in)
qed

text \<open>
  Passing a message on to the server of a node, when the send and the receive succeed: what is sent has the
  length of the message and the queue id, and the file id in it is the one of the node only when it differs from
  the client's id in nothing but the lowest byte; what comes back has the tag and queue id of the client again,
  in their lowest bytes.
\<close>

lemma vnode_forward_file_id:
  assumes "s_nodes st v = Some x" "n_channel_node x = 0" "unat (buf ! 0) = n" "11 \<le> n" "n + 4 \<le> length buf"
    and "get_uint buf 7 = Some fid" "7 \<le> length inp" "unat (inp ! 0) < length inp"
    and "\<And>q b k w. e_send env q b k w = (0, w @ [(q, b, k)])" "\<And>q b k w. e_receive env q b k w = (0, inp, w)"
  shows "\<exists>out st' fid'. vnode_forward env st v buf =
      Some (VFS_OK, inp[5 := buf ! 5, unat (inp ! 0) := buf ! n], st') \<and>
    s_world st' = s_world st @ [(n_mq_id x, out, n + 4)] \<and> get_uint out 7 = Some fid' \<and>
    (fid' = ucast (q_id (n_qid x)) \<longleftrightarrow> drop_bit 8 fid = drop_bit 8 (ucast (q_id (n_qid x)) :: u32))"
proof -
  let ?id = "ucast (q_id (n_qid x)) :: u32"
  define tag where "tag = s_tag_count st"
  define buf1 where "buf1 = buf[5 := ucast tag, n := ucast (s_vfs_in st)]"
  have same: "buf1 ! i = buf ! i" if "i \<noteq> 5" "i \<noteq> n" for i using that by (simp add: buf1_def)
  have "get_uint buf1 7 = Some fid"
    using assms(4-6) same [of 7] same [of 8] same [of 9] same [of 10] by (simp add: get_uint_def rd_at_def buf1_def)
  from low_byte_replaced [OF this, of ?id] obtain fid' where fid': "get_uint (buf1[7 := ucast ?id]) 7 = Some fid'"
      "fid' = ?id \<longleftrightarrow> drop_bit 8 fid = drop_bit 8 ?id"
    using assms(4,5) by (auto simp: buf1_def)
  define out where "out = buf1[7 := ucast ?id]"
  have low: "(ucast ?id :: u8) = ucast (q_id (n_qid x))" by (rule bit_word_eqI) (auto simp: bit_simps)
  obtain old_tag where tag1: "rd_le 2 buf 5 = Some old_tag" "(of_nat old_tag :: u8) = buf ! 5"
    using rd_le_low [of 5 2 buf] assms(4,5) by auto
  obtain old_mq where mq: "rd_le 4 buf n = Some old_mq" "(of_nat old_mq :: u8) = buf ! n"
    using rd_le_low [of n 4 buf] assms(5) by auto
  have ne: "buf \<noteq> []" "inp \<noteq> []" using assms(5,7) by auto
  have out: "out = buf[5 := ucast tag, 7 := ucast (q_id (n_qid x)), n := ucast (s_vfs_in st)]"
    using assms(4) by (simp add: out_def buf1_def low list_update_swap)
  define st' where "st' = st\<lparr>s_tag_count := s_tag_count st + 1, s_world := s_world st @ [(n_mq_id x, out, n + 4)]\<rparr>"
  have "vnode_forward env st v buf = Some (VFS_OK, inp[5 := buf ! 5, unat (inp ! 0) := buf ! n], st')"
    using assms(1-5,7,8) tag1 mq ne
    by (simp add: vnode_forward_def layout_simps rd_at_def wr_at_def next_tag_def assms(9,10) Let_def tag_def [symmetric]
      out [symmetric] st'_def)
  then show ?thesis using fid' by (simp add: out_def st'_def)
qed

subsection \<open>A small tree\<close>

text \<open>The root with one directory, \<open>dev\<close>, which has four entries.\<close>

definition leaf :: "u64 \<Rightarrow> vnode" where
  "leaf ident = \<lparr>n_name = Some (pstr [0x61] @ [0]), n_qid = \<lparr>q_type = 0, q_version = 0, q_id = ident\<rparr>, n_children = 0,
     n_mount_node = 0, n_channel_node = 0, n_children_no = 0, n_mq_id = 9\<rparr>"

definition dev_node :: vnode where
  "dev_node = (leaf 2)\<lparr>n_name := Some (pstr [0x64, 0x65, 0x76] @ [0]), n_children := 2000, n_children_no := 4\<rparr>"

definition tree_nodes :: "u64 \<rightharpoonup> vnode" where
  "tree_nodes = [64 \<mapsto> (leaf 1)\<lparr>n_children := 100, n_children_no := 1\<rparr>,
     100 \<mapsto> dev_node,
     2000 \<mapsto> leaf 3, 2056 \<mapsto> leaf 4, 2112 \<mapsto> leaf 5, 2168 \<mapsto> leaf 6]"

definition tree_state :: "(u32 \<times> bytes \<times> nat) list vfs_state" where
  "tree_state = \<lparr>s_nodes = tree_nodes, s_raw = leaf, s_fresh = [], s_live = [2000, 100], s_vfs_in = 2, s_id_count = 7,
     s_tag_count = 0, s_clients = two_clients, s_world = []\<rparr>"

definition tree_env :: "(u32 \<times> bytes \<times> nat) list vfs_env" where
  "tree_env = \<lparr>e_root = 64, e_str = (\<lambda>n. None), e_realloc = (\<lambda>p n m. (0, m)), e_open = (\<lambda>name. 3),
     e_send = (\<lambda>q b n w. (0, w @ [(q, b, n)])), e_receive = (\<lambda>q b n w. (0, clunk_buf, w)), e_stack = attach_msg\<rparr>"

lemma tree_nodes_at:
  "tree_nodes 64 = Some ((leaf 1)\<lparr>n_children := 100, n_children_no := 1\<rparr>)"
  "tree_nodes 100 = Some (dev_node)"
  "tree_nodes 2000 = Some (leaf 3)" "tree_nodes 2224 = None" "tree_nodes 56 = None"
  by (simp_all add: tree_nodes_def)

text \<open>The first client has the queue 5 and the directory under the id 1.\<close>

definition client_msg :: vfs_msg where
  "client_msg = \<lparr>v_fcall = blank_fcall\<lparr>f_fid := 1, f_perm := DMDIR\<rparr>, v_mq_id = 5\<rparr>"

theorem vfs_create_fifth_witness: "vfs_create tree_env tree_state client_msg (replicate 128 0) = None"
proof -
  have "vfs_client_get (s_clients tree_state) (v_mq_id client_msg) = Some 8"
    using vfs_get_ok [OF two_clients_ok, of 5] by (simp add: tree_state_def client_msg_def)
  moreover have "vfs_client_fid_get (s_clients tree_state) 8 (f_fid (v_fcall client_msg)) = Some 100"
    using fid_get_ok [of two_clients two_lists 8 "[(24, 1, 100), (32, 2, 200)]" 1] two_clients_ok
    by (simp add: tree_state_def client_msg_def blank_fcall_def vfs_ok_def two_lists_def)
  ultimately show ?thesis
    by (intro vfs_create_fifth [where client = 8 and v = 100 and x = dev_node])
      (simp_all add: tree_state_def tree_nodes_at client_msg_def blank_fcall_def layout_simps domIff dev_node_def)
qed

lemma vnode_remove_children_null_witness: "vnode_remove tree_env tree_state 100 = None"
  by (rule vnode_remove_children_null [where y = "leaf 3"
      and x = "dev_node"])
    (simp_all add: tree_state_def tree_nodes_at tree_env_def leaf_def dev_node_def domIff)

lemma nofid_64: "(ucast NOFID :: u64) = 0xffffffff"
proof -
  have "(ucast (-1 :: u32) :: u64) = mask 32" by (rule bit_word_eqI) (auto simp: bit_simps)
  then show ?thesis by (simp add: NOFID_def mask_eq_exp_minus_1)
qed

lemma vnode_scan_known_witness:
  "vnode_scan tree_env tree_state (pstr [0x64, 0x65, 0x76] @ [0]) 1 =
     Some (1, [\<lparr>q_type = 0, q_version = 0, q_id = 1\<rparr>], Some 100, tree_state)"
proof -
  have "vnode_find_child tree_state 64 (pstr [0x64, 0x65, 0x76] @ [0]) = Some 100"
    by (simp add: vnode_find_child_def tree_state_def tree_nodes_at find_child_loop.simps child_at_def dev_node_def leaf_def drop_2_pstr_append)
  then have "known_path tree_state (e_root tree_env) (pstr [0x64, 0x65, 0x76] @ [0]) [100]"
    by (auto simp: tree_env_def tree_state_def tree_nodes_at pstriter_def)
  from vnode_scan_known [OF this, of 1] show ?thesis
    by (simp add: tree_env_def tree_state_def tree_nodes_at leaf_def dev_node_def nofid_64)
qed

lemma vfs_clunk_first_breaks_witness:
  "\<exists>buf' st'. vfs_clunk tree_env tree_state client_msg (replicate 128 0) = Some (11, buf', 5, st') \<and>
     vfs_open tree_env st' client_msg (replicate 128 0) = None"
proof -
  have "vfs_ok (s_clients tree_state) [(8, 5), (16, 6)] two_lists" by (simp add: tree_state_def two_clients_ok)
  from vfs_clunk_first_breaks [OF this, of client_msg 8 24 100 "[(32, 2, 200)]" "replicate 128 0" client_msg tree_env "replicate 128 0"]
  show ?thesis by (auto simp: client_msg_def blank_fcall_def two_lists_def NOFID_def)
qed

lemma vnode_forward_file_id_witness:
  "\<exists>out st' fid'. vnode_forward tree_env tree_state 2000 clunk_buf = Some (VFS_OK, clunk_buf, st') \<and>
     s_world st' = [(9, out, 15)] \<and> get_uint out 7 = Some fid' \<and> fid' = 3"
proof -
  have node: "s_nodes tree_state 2000 = Some (leaf 3)" by (simp add: tree_state_def tree_nodes_at)
  have same: "clunk_buf[5 := clunk_buf ! 5, unat (clunk_buf ! 0) := clunk_buf ! 11] = clunk_buf"
    by (simp add: clunk_buf_def)
  have "get_uint clunk_buf 7 = Some 1" by (simp add: clunk_buf_def get_uint_def rd_at_def)
  from vnode_forward_file_id [OF node, of clunk_buf 11 1 clunk_buf tree_env] this show ?thesis
    by (auto simp: leaf_def clunk_buf_def tree_env_def tree_state_def)
qed

end
