(* ===== verification/Strtox.thy ===== *)
theory Strtox
  imports Kernel_Defs
begin

text \<open>
  Character tests and number parsing (\<^verbatim>\<open>lib/c/ctype\<close>, \<^verbatim>\<open>lib/c/internal/_strtox.c\<close>, \<^verbatim>\<open>lib/c/stdlib/strto*.c\<close>).
  A string is the list of bytes from the pointer on; \<open>char\<close> is unsigned. A result carries the value, the end
  position when it was stored, and the value of \<open>errno\<close> when it was set.
\<close>

text \<open>The subtraction is done in \<open>int\<close>, so it is negative for a smaller character.\<close>

definition isdigit :: "int \<Rightarrow> bool" where
  "isdigit c \<longleftrightarrow> c mod 256 - 48 < 10"

definition isspace :: "int \<Rightarrow> bool" where
  "isspace c \<longleftrightarrow> c = 32 \<or> c mod 256 - 9 < 5"

fun skip_space :: "bytes \<Rightarrow> nat \<Rightarrow> (bytes \<times> nat) option" where
  "skip_space [] i = None"
| "skip_space (c # s) i = (if isspace (uint c) then skip_space s (i + 1) else Some (c # s, i))"

text \<open>The loop over the digits: \<open>None\<close> inside is the wraparound.\<close>

fun digits_loop :: "bytes \<Rightarrow> nat \<Rightarrow> u64 \<Rightarrow> (u64 \<times> nat) option option" where
  "digits_loop [] i res = None"
| "digits_loop (c # s) i res =
     (let res' = res * 10 + of_int (uint c - 48)
      in if res' < res then Some None
         else case s of [] \<Rightarrow> None
           | d # _ \<Rightarrow> if isdigit (uint d) then digits_loop s (i + 1) res' else Some (Some (res', i + 1)))"

definition strtox :: "bytes \<Rightarrow> int \<Rightarrow> u64 \<Rightarrow> (u64 \<times> nat option \<times> errno option) option" where
  "strtox str base limit =
     (if \<not> (base = 0 \<or> base = 10) then Some (0, None, Some EINVAL)
      else do {
        (s, i) \<leftarrow> skip_space str 0;
        c \<leftarrow> rd_at s 0;
        let (multiplier, s1, i1) = (if c = 0x2d then (-1, tl s, i + 1) else if c = 0x2b then (1, tl s, i + 1) else (1, s, i));
        d \<leftarrow> rd_at s1 0;
        if \<not> isdigit (uint d) then Some (0, None, Some EINVAL)
        else do {
          r \<leftarrow> digits_loop s1 i1 0;
          case r of None \<Rightarrow> Some (0, None, Some ERANGE)
          | Some (res, pos) \<Rightarrow>
              if limit < res then Some (0, None, Some ERANGE)
              else Some (res * multiplier, Some pos, None) } })"

definition LONG_MAX :: u64 where [layout_simps]: "LONG_MAX = 0x7fffffffffffffff"
definition ULONG_MAX :: u64 where [layout_simps]: "ULONG_MAX = LONG_MAX * 2 + 1"

definition strtol :: "bytes \<Rightarrow> int \<Rightarrow> (int \<times> nat option \<times> errno option) option" where
  "strtol str base = map_option (\<lambda>(r, e). (sint r, e)) (strtox str base LONG_MAX)"

definition strtoll :: "bytes \<Rightarrow> int \<Rightarrow> (int \<times> nat option \<times> errno option) option" where
  "strtoll str base = map_option (\<lambda>(r, e). (sint r, e)) (strtox str base LONG_MAX)"

definition strtoul :: "bytes \<Rightarrow> int \<Rightarrow> (u64 \<times> nat option \<times> errno option) option" where
  "strtoul str base = strtox str base ULONG_MAX"

definition strtoull :: "bytes \<Rightarrow> int \<Rightarrow> (u64 \<times> nat option \<times> errno option) option" where
  "strtoull str base = strtox str base ULONG_MAX"

subsection \<open>What the tests accept\<close>

lemma isdigit_char: "isdigit (uint (c :: u8)) \<longleftrightarrow> uint c < 58"
  using uint_bounded [of c] by (simp add: isdigit_def)

lemma isspace_char: "isspace (uint (c :: u8)) \<longleftrightarrow> uint c = 32 \<or> uint c < 14"
  using uint_bounded [of c] by (simp add: isspace_def)

subsection \<open>Numbers\<close>

definition is_dec :: "u8 \<Rightarrow> bool" where
  "is_dec c \<longleftrightarrow> 48 \<le> uint c \<and> uint c < 58"

text \<open>The number that decimal digits stand for.\<close>

definition dec_value :: "bytes \<Rightarrow> nat" where
  "dec_value ds = foldl (\<lambda>a c. a * 10 + (unat c - 48)) 0 ds"

lemma dec_value_snoc: "dec_value (ds @ [c]) = dec_value ds * 10 + (unat c - 48)"
  by (simp add: dec_value_def)

lemma foldl_dec_mono: "a \<le> foldl (\<lambda>a c. a * 10 + (unat c - 48)) a (ds :: bytes)"
proof (induction ds arbitrary: a)
  case (Cons d ds)
  have "a \<le> a * 10 + (unat d - 48)" by simp
  also have "\<dots> \<le> foldl (\<lambda>a c. a * 10 + (unat c - 48)) (a * 10 + (unat d - 48)) ds" by (rule Cons.IH)
  finally show ?case by simp
qed simp

lemma digit_step:
  assumes "is_dec c" "unat res * 10 + (unat c - 48) < 2 ^ 63"
  shows "unat (res * 10 + of_int (uint c - 48) :: u64) = unat res * 10 + (unat c - 48)"
    "\<not> res * 10 + of_int (uint c - 48) < res"
proof -
  have "uint c - 48 = int (unat c - 48)" using assms(1) unfolding is_dec_def uint_nat by linarith
  then have d: "(of_int (uint c - 48) :: u64) = of_nat (unat c - 48)" by (simp only: of_int_of_nat_eq)
  have "unat (of_nat (unat c - 48) :: u64) = unat c - 48"
    using unsigned_less [of c, where 'a = nat] by (simp add: unat_of_nat)
  moreover have "unat (res * 10) = unat res * 10" using assms(2) by (subst unat_mult_no_overflow) simp_all
  ultimately show eq: "unat (res * 10 + of_int (uint c - 48) :: u64) = unat res * 10 + (unat c - 48)"
    unfolding d using assms(2) by (subst unat_add_no_overflow) simp_all
  show "\<not> res * 10 + of_int (uint c - 48) < res"
    unfolding word_less_nat_alt eq by simp
qed

lemma is_dec_digit: "is_dec c \<Longrightarrow> isdigit (uint c)" "is_dec c \<Longrightarrow> \<not> isspace (uint c)"
  "is_dec c \<Longrightarrow> c \<noteq> 0x2d" "is_dec c \<Longrightarrow> c \<noteq> 0x2b"
  by (auto simp: is_dec_def isdigit_char isspace_char)

text \<open>All digits but the last are taken in; what follows them decides.\<close>

lemma digits_loop_dec:
  assumes "\<forall>c\<in>set ds. is_dec c" "isdigit (uint e)"
    and "foldl (\<lambda>a c. a * 10 + (unat c - 48)) (unat res) ds < 2 ^ 63"
  shows "digits_loop (ds @ e # t) i res =
    digits_loop (e # t) (i + length ds) (of_nat (foldl (\<lambda>a c. a * 10 + (unat c - 48)) (unat res) ds))"
  using assms
proof (induction ds arbitrary: i res)
  case (Cons d ds)
  let ?r = "res * 10 + of_int (uint d - 48) :: u64"
  have d: "is_dec d" and ds: "\<forall>c\<in>set ds. is_dec c" using Cons.prems(1) by simp_all
  have "unat res * 10 + (unat d - 48) < 2 ^ 63"
    using foldl_dec_mono [of "unat res * 10 + (unat d - 48)" ds] Cons.prems(3) by simp
  note step = digit_step [OF d this]
  obtain f s' where s': "ds @ e # t = f # s'" "isdigit (uint f)"
    using ds assms(2) is_dec_digit(1) by (cases ds) auto
  have "digits_loop ((d # ds) @ e # t) i res = digits_loop (ds @ e # t) (i + 1) ?r"
    using step(2) s' by (simp only: append_Cons digits_loop.simps Let_def if_False list.case if_True)
  also have "\<dots> = digits_loop (e # t) (i + 1 + length ds) (of_nat (foldl (\<lambda>a c. a * 10 + (unat c - 48)) (unat ?r) ds))"
    by (rule Cons.IH [OF ds assms(2)]) (use Cons.prems(3) step(1) in simp)
  finally show ?case unfolding step(1) by (simp del: digits_loop.simps)
qed simp

lemma strtox_digits:
  assumes "is_dec d"
  shows "strtox (d # s) 10 limit = (case digits_loop (d # s) 0 0 of None \<Rightarrow> None | Some None \<Rightarrow> Some (0, None, Some ERANGE)
    | Some (Some (res, pos)) \<Rightarrow> if limit < res then Some (0, None, Some ERANGE) else Some (res, Some pos, None))"
  using is_dec_digit [OF assms] by (simp add: strtox_def rd_at_def split: option.split)

lemma dec_loop_end:
  assumes "ds \<noteq> []" "\<forall>c\<in>set ds. is_dec c" "dec_value ds < 2 ^ 63" "isdigit (uint e)"
  shows "digits_loop (ds @ e # t) 0 0 = digits_loop (e # t) (length ds) (of_nat (dec_value ds))"
  using digits_loop_dec [OF assms(2,4), of 0 t 0] assms(3) by (simp add: dec_value_def)

text \<open>
  A decimal number in a terminated string: the terminator passes the test for a digit, so that it is taken
  in as one, with the value -48. What \<open>strtol\<close> gives is not the number but ten times it less 48, and a range
  error when the number is below 6.
\<close>

lemma strtol_reads_terminator:
  assumes "ds \<noteq> []" "\<forall>c\<in>set ds. is_dec c" "dec_value ds < 10 ^ 17" "58 \<le> uint e"
  shows "strtol (ds @ 0 # e # t) 10 = Some (if 6 \<le> dec_value ds
    then (int (dec_value ds) * 10 - 48, Some (length ds + 1), None) else (0, None, Some ERANGE))"
proof -
  let ?v = "dec_value ds"
  define r where "r = (of_nat ?v :: u64) * 10 + of_int (uint (0 :: u8) - 48)"
  have loop: "digits_loop (ds @ 0 # e # t) 0 0 = (if r < of_nat ?v then Some None else Some (Some (r, length ds + 1)))"
  proof -
    have "isdigit 0" by (simp add: isdigit_def)
    moreover have "\<not> isdigit (uint e)" using assms(4) by (simp add: isdigit_char)
    ultimately show ?thesis using dec_loop_end [of ds 0 "e # t"] assms(1-3) by (simp add: Let_def r_def)
  qed
  obtain d ds' where ds: "ds = d # ds'" using assms(1) by (cases ds) auto
  have run: "strtox (ds @ 0 # e # t) 10 LONG_MAX = (if r < of_nat ?v \<or> LONG_MAX < r then Some (0, None, Some ERANGE)
      else Some (r, Some (length ds + 1), None))"
    using strtox_digits [of d "ds' @ 0 # e # t" LONG_MAX] assms(2) loop by (simp add: ds)
  define k where "k = int ?v * 10 - 48"
  have k: "k < 10 ^ 18" "-48 \<le> k" using assms(3) by (simp_all add: k_def)
  have "r = of_int k" by (simp add: r_def k_def)
  then have ur: "uint r = k mod 2 ^ 64" by (simp add: uint_word_of_int)
  have uv: "uint (of_nat ?v :: u64) = int ?v" using assms(3) by (simp add: uint_nat unat_of_nat)
  have ul: "uint LONG_MAX = 2 ^ 63 - 1" by (simp add: LONG_MAX_def)
  show ?thesis
  proof (cases "6 \<le> ?v")
    case True
    then have "0 \<le> k" by (simp add: k_def)
    then have ur: "uint r = k" using ur k(1) by simp
    have "\<not> (r < of_nat ?v \<or> LONG_MAX < r)"
      unfolding word_less_def ur uv ul using True k(1) by (simp add: k_def)
    moreover have "sint r = k"
      using ur k(1) \<open>0 \<le> k\<close> by (simp add: sint_uint signed_take_bit_int_eq_self)
    ultimately show ?thesis using run True by (simp add: strtol_def k_def)
  next
    case False
    have "r < of_nat ?v \<or> LONG_MAX < r"
    proof (cases "?v = 5")
      case True
      then have "uint r = 2" using ur by (simp add: k_def)
      then show ?thesis unfolding word_less_def uv using True by simp
    next
      case False
      then have "k < 0" using \<open>\<not> 6 \<le> ?v\<close> by (simp add: k_def)
      then have "(k + 2 ^ 64) mod 2 ^ 64 = k + 2 ^ 64" using k(2) by (intro mod_pos_pos_trivial) simp_all
      then have "uint r = k + 2 ^ 64" unfolding ur by simp
      then show ?thesis unfolding word_less_def ul using k(2) by simp
    qed
    then show ?thesis using run False by (simp add: strtol_def)
  qed
qed

lemma strtol_reads_terminator_witness: "strtol [0x34, 0x32, 0, 0x61] 10 = Some (372, Some 3, None)"
  using strtol_reads_terminator [of "[0x34, 0x32]" "0x61" "[]"] by (simp add: is_dec_def dec_value_def)

text \<open>In front of a character behind the digits the number is read as it is.\<close>

lemma strtol_number:
  assumes "ds \<noteq> []" "\<forall>c\<in>set ds. is_dec c" "dec_value ds < 10 ^ 17" "58 \<le> uint e"
  shows "strtol (ds @ e # t) 10 = Some (int (dec_value ds), Some (length ds), None)"
proof -
  obtain ds' d where ds: "ds = ds' @ [d]" using assms(1) by (cases ds rule: rev_cases) auto
  have d: "is_dec d" and ds': "\<forall>c\<in>set ds'. is_dec c" using assms(2) by (simp_all add: ds)
  let ?p = "of_nat (dec_value ds') :: u64"
  have bound: "dec_value ds' * 10 + (unat d - 48) < 10 ^ 17" using assms(3) by (simp add: ds dec_value_snoc)
  then have p: "unat ?p = dec_value ds'" by (simp add: unat_of_nat)
  have lt: "unat ?p * 10 + (unat d - 48) < 2 ^ 63" using bound p by simp
  note step = digit_step [OF d lt]
  let ?r = "?p * 10 + of_int (uint d - 48)"
  have r: "unat ?r = dec_value ds" using step(1) p by (simp only: ds dec_value_snoc)
  have "digits_loop (d # e # t) (length ds') ?p = Some (Some (?r, length ds))"
    using step(2) assms(4) by (simp only: digits_loop.simps Let_def if_False list.case isdigit_char) (simp add: ds)
  moreover have "digits_loop (ds @ e # t) 0 0 = digits_loop (d # e # t) (length ds') ?p"
    using digits_loop_dec [of ds' d 0 "e # t" 0] ds' is_dec_digit(1) [OF d] bound
    by (simp add: ds dec_value_def del: digits_loop.simps)
  ultimately have loop: "digits_loop (ds @ e # t) 0 0 = Some (Some (?r, length ds))" by simp
  have ur: "uint ?r = int (dec_value ds)" using r by (simp only: uint_nat)
  have "\<not> LONG_MAX < ?r" unfolding word_less_def ur using assms(3) by (simp add: LONG_MAX_def)
  moreover have "sint ?r = int (dec_value ds)"
    unfolding sint_uint ur using assms(3) by (simp add: signed_take_bit_int_eq_self)
  moreover obtain f fs where "ds @ e # t = f # fs" "is_dec f" using assms(1,2) by (cases ds) auto
  ultimately show ?thesis using loop strtox_digits [of f fs LONG_MAX] by (simp add: strtol_def del: digits_loop.simps)
qed

end
