(* ===== verification/Stdio.thy ===== *)
theory Stdio
  imports Strtox Rd_Server Libc_Formatter
begin

text \<open>
  Files and streams of the C library (\<^verbatim>\<open>lib/c/internal/_file.c\<close>, \<^verbatim>\<open>lib/c/stdio\<close>, \<^verbatim>\<open>lib/c/dirent\<close>, \<^verbatim>\<open>lib/c/sys/stat\<close>).

  The streams are one list: the 16 of \<open>open_files\<close> and the three standard streams; a \<open>FILE *\<close> is the index of
  one. A buffer is the list of its bytes, and the positions in it are indices, \<open>None\<close> for the null pointer.
  The environment holds the message queues, \<open>malloc\<close>, the process id and the uninitialised message of a call.
\<close>

definition BUFSIZ :: nat where [layout_simps]: "BUFSIZ = 512"
definition FOPEN_MAX :: nat where [layout_simps]: "FOPEN_MAX = 16"

definition F_OPEN :: u32 where [layout_simps]: "F_OPEN = 1"
definition F_EOF :: u32 where [layout_simps]: "F_EOF = 2"
definition F_READ :: u32 where [layout_simps]: "F_READ = 4"
definition F_WRITE :: u32 where [layout_simps]: "F_WRITE = 8"
definition F_APPEND :: u32 where [layout_simps]: "F_APPEND = 16"
definition F_DIR :: u32 where [layout_simps]: "F_DIR = 32"

definition O_TRUNC :: u32 where [layout_simps]: "O_TRUNC = 64"
definition O_APPEND :: u32 where [layout_simps]: "O_APPEND = 128"
definition O_DIRECTORY :: u32 where [layout_simps]: "O_DIRECTORY = 256"

record cfile =
  fl_fid :: u32
  fl_flags :: u32
  fl_offset :: u64
  fl_buf :: "bytes option"
  fl_r_pos :: "nat option"
  fl_r_end :: "nat option"
  fl_w_pos :: "nat option"
  fl_w_end :: "nat option"

record 'w files =
  fs_streams :: "cfile list"
  fs_initialised :: bool
  fs_in :: u32
  fs_vfs :: u32
  fs_name :: bytes
  fs_fid_count :: u32
  fs_tag_count :: u16
  fs_errno :: "errno option"
  fs_dirent :: bytes
  fs_world :: 'w

record 'w io_env =
  i_open :: "bytes \<Rightarrow> 'w \<Rightarrow> u32 \<times> 'w"
  i_send :: "u32 \<Rightarrow> bytes \<Rightarrow> nat \<Rightarrow> 'w \<Rightarrow> int \<times> 'w"
  i_receive :: "u32 \<Rightarrow> bytes \<Rightarrow> nat \<Rightarrow> 'w \<Rightarrow> int \<times> bytes \<times> 'w"
  i_close :: "u32 \<Rightarrow> 'w \<Rightarrow> 'w"
  i_unlink :: "bytes \<Rightarrow> 'w \<Rightarrow> 'w"
  i_malloc :: "nat \<Rightarrow> bytes option"
  i_pid :: va
  i_stack :: vfs_msg

definition set_errno :: "errno \<Rightarrow> 'w files \<Rightarrow> 'w files" where
  "set_errno e fs = fs\<lparr>fs_errno := Some e\<rparr>"

definition put_stream :: "nat \<Rightarrow> cfile \<Rightarrow> 'w files \<Rightarrow> 'w files option" where
  "put_stream s f fs = map_option (\<lambda>fl. fs\<lparr>fs_streams := fl\<rparr>) (wr_at (fs_streams fs) s f)"

text \<open>The difference of two pointers into one buffer, or of two null pointers.\<close>

definition ptr_diff :: "nat option \<Rightarrow> nat option \<Rightarrow> int option" where
  "ptr_diff p q = (case (p, q) of (Some a, Some b) \<Rightarrow> Some (int a - int b) | (None, None) \<Rightarrow> Some 0 | _ \<Rightarrow> None)"

definition next_file_tag :: "'w files \<Rightarrow> u16 \<times> 'w files" where
  "next_file_tag fs = (fs_tag_count fs, fs\<lparr>fs_tag_count := fs_tag_count fs + 1\<rparr>)"

text \<open>\<open>vfs_msg_send(&vfs_msg, buf, mq_vfs, mq_in)\<close>\<close>

definition request :: "'w io_env \<Rightarrow> 'w files \<Rightarrow> vfs_msg \<Rightarrow> (nat \<times> vfs_msg \<times> 'w files) option" where
  "request env fs msg =
     map_option (\<lambda>(len, msg', buf, w). (len, msg', fs\<lparr>fs_world := w\<rparr>))
       (vfs_msg_send (i_send env) (i_receive env) msg (replicate VFS_MAX_MSG_LEN 0) (fs_vfs fs) (fs_in fs) (fs_world fs))"

definition is_type :: "vfs_msg \<Rightarrow> fcall_types \<Rightarrow> bool" where
  "is_type msg ty \<longleftrightarrow> f_type (v_fcall msg) = type_code ty"

subsection \<open>Connecting\<close>

definition file_init :: "'w io_env \<Rightarrow> 'w files \<Rightarrow> (bool \<times> 'w files) option" where
  "file_init env fs = do {
     (n, name) \<leftarrow> vsnprintf (fs_name fs) 16 (ascii ''vfs/%ld'' @ [0]) [i_pid env];
     let fs1 = fs\<lparr>fs_name := name\<rparr>;
     if n > 16 then Some (False, fs1)
     else do {
       let fs2 = (if fs_vfs fs1 = -1 then (case i_open env (ascii ''vfs/server'' @ [0]) (fs_world fs1) of
           (mq, w) \<Rightarrow> fs1\<lparr>fs_vfs := mq, fs_world := w\<rparr>) else fs1);
       if fs_vfs fs2 = -1 then Some (False, fs2)
       else do {
         let fs3 = (if fs_in fs2 = -1 then (case i_open env name (fs_world fs2) of
             (mq, w) \<Rightarrow> fs2\<lparr>fs_in := mq, fs_world := w\<rparr>) else fs2);
         if fs_in fs3 = -1 then Some (False, fs3)
         else do {
           let (tag, fs4) = next_file_tag fs3;
           ures \<leftarrow> pstrconv (i_malloc env) (Some (replicate 16 0)) name 16;
           uname \<leftarrow> ures;
           ares \<leftarrow> pstrconv (i_malloc env) (Some (replicate 16 0)) (ascii ''/'' @ [0]) 16;
           aname \<leftarrow> ares;
           let msg = \<lparr>v_fcall = (v_fcall (i_stack env))\<lparr>f_type := type_code Tattach, f_tag := tag, f_fid := 0,
             f_afid := NOFID, f_uname := uname, f_aname := aname\<rparr>, v_mq_id = fs_in fs4\<rparr>;
           (len, msg1, fs5) \<leftarrow> request env fs4 msg;
           if len = 0 \<or> \<not> is_type msg1 Rattach then Some (False, fs5)
           else do {
             f \<leftarrow> rd_at (fs_streams fs5) 0;
             fs6 \<leftarrow> put_stream 0 (f\<lparr>fl_flags := fl_flags f OR F_OPEN, fl_fid := 0\<rparr>) fs5;
             Some (True, fs6\<lparr>fs_initialised := True\<rparr>) } } } } }"

definition check_init :: "'w io_env \<Rightarrow> 'w files \<Rightarrow> (bool \<times> 'w files) option" where
  "check_init env fs = (if fs_initialised fs then Some (True, fs) else file_init env fs)"

subsection \<open>Opening and closing\<close>

definition file_alloc :: "'w io_env \<Rightarrow> 'w files \<Rightarrow> nat \<Rightarrow> (bool \<times> 'w files) option" where
  "file_alloc env fs s = do {
     f \<leftarrow> rd_at (fs_streams fs) s;
     case i_malloc env BUFSIZ of
       None \<Rightarrow> map_option (\<lambda>fs1. (False, set_errno ENOMEM fs1)) (put_stream s (f\<lparr>fl_buf := None\<rparr>) fs)
     | Some obj \<Rightarrow> do {
         let f1 = f\<lparr>fl_buf := Some obj\<rparr>;
         let f2 = (if fl_flags f AND F_READ \<noteq> 0 then f1\<lparr>fl_r_pos := Some 0, fl_r_end := Some 0\<rparr> else f1);
         let f3 = (if fl_flags f AND F_WRITE \<noteq> 0 then f2\<lparr>fl_w_pos := Some 0, fl_w_end := Some BUFSIZ\<rparr> else f2);
         map_option (Pair True) (put_stream s f3 fs) } }"

definition file_close :: "'w io_env \<Rightarrow> 'w files \<Rightarrow> nat \<Rightarrow> (bool \<times> 'w files) option" where
  "file_close env fs s = do {
     f \<leftarrow> rd_at (fs_streams fs) s;
     let (tag, fs1) = next_file_tag fs;
     let msg = \<lparr>v_fcall = (v_fcall (i_stack env))\<lparr>f_type := type_code Tclunk, f_tag := tag, f_fid := fl_fid f\<rparr>, v_mq_id = fs_in fs1\<rparr>;
     (len, msg1, fs2) \<leftarrow> request env fs1 msg;
     let success = (len \<noteq> 0 \<and> is_type msg1 Rclunk);
     fs3 \<leftarrow> put_stream s (f\<lparr>fl_fid := NOFID, fl_flags := 0, fl_offset := 0, fl_buf := None, fl_r_pos := None,
       fl_r_end := None, fl_w_pos := None, fl_w_end := None\<rparr>) fs2;
     Some (success, fs3) }"

fun find_stream :: "(cfile \<Rightarrow> bool) \<Rightarrow> nat \<Rightarrow> cfile list \<Rightarrow> nat option" where
  "find_stream P 0 fs = None"
| "find_stream P (Suc n) [] = None"
| "find_stream P (Suc n) (f # fs) = (if P f then Some 0 else map_option Suc (find_stream P n fs))"

definition file_find :: "'w files \<Rightarrow> u32 \<Rightarrow> nat option" where
  "file_find fs fid = find_stream (\<lambda>f. fl_fid f = fid \<and> fl_flags f AND F_OPEN \<noteq> 0) FOPEN_MAX (fs_streams fs)"

definition file_walk :: "'w io_env \<Rightarrow> 'w files \<Rightarrow> u32 \<Rightarrow> u16 \<Rightarrow> bytes \<Rightarrow> (int \<times> 'w files) option" where
  "file_walk env fs fid nwname wname = do {
     let (tag, fs1) = next_file_tag fs;
     root \<leftarrow> rd_at (fs_streams fs1) 0;
     let msg = \<lparr>v_fcall = (v_fcall (i_stack env))\<lparr>f_type := type_code Twalk, f_tag := tag, f_fid := fl_fid root,
       f_newfid := fid, f_nwname := nwname, f_wname := wname\<rparr>, v_mq_id = fs_in fs1\<rparr>;
     (len, msg1, fs2) \<leftarrow> request env fs1 msg;
     if len = 0 \<or> \<not> is_type msg1 Rwalk then Some (-1, set_errno EACCES fs2) else Some (0, fs2) }"

text \<open>The result \<open>Some None\<close> is the null pointer.\<close>

definition file_open :: "'w io_env \<Rightarrow> 'w files \<Rightarrow> bytes \<Rightarrow> u32 \<Rightarrow> (nat option \<times> 'w files) option" where
  "file_open env fs pathname oflag = do {
     (ok, fs1) \<leftarrow> check_init env fs;
     if \<not> ok then Some (None, set_errno EACCES fs1)
     else do {
       let fid = fs_fid_count fs1;
       let fs2 = fs1\<lparr>fs_fid_count := fid + 1\<rparr>;
       (nwname, wname) \<leftarrow> fcall_path_split (i_malloc env) pathname;
       if nwname = -1 then Some (None, set_errno EACCES fs2)
       else do {
         (r, fs3) \<leftarrow> file_walk env fs2 fid (of_int nwname) (case wname of None \<Rightarrow> [] | Some ws \<Rightarrow> ws);
         if r \<noteq> 0 then Some (None, fs3)
         else do {
           let (mode, flags) = (if oflag AND O_RDONLY \<noteq> 0 then (1, F_READ)
             else if oflag AND O_WRONLY \<noteq> 0 then (2, F_WRITE) else (ucast O_RDWR, F_READ OR F_WRITE));
           let mode1 = (if oflag AND O_TRUNC \<noteq> 0 then mode OR 16 else mode);
           let flags1 = (if oflag AND O_APPEND \<noteq> 0 then flags OR F_APPEND else flags);
           let flags2 = (if oflag AND O_DIRECTORY \<noteq> 0 then flags1 OR F_DIR else flags1);
           let (tag, fs4) = next_file_tag fs3;
           let msg = \<lparr>v_fcall = (v_fcall (i_stack env))\<lparr>f_mode := mode1, f_type := type_code Topen, f_tag := tag, f_fid := fid\<rparr>,
             v_mq_id = fs_in fs4\<rparr>;
           (len, msg1, fs5) \<leftarrow> request env fs4 msg;
           if len = 0 \<or> \<not> is_type msg1 Ropen then Some (None, set_errno EACCES fs5)
           else case find_stream (\<lambda>f. fl_flags f AND F_OPEN = 0) FOPEN_MAX (fs_streams fs5) of
             None \<Rightarrow> Some (None, set_errno EMFILE fs5)
           | Some s \<Rightarrow> do {
               f \<leftarrow> rd_at (fs_streams fs5) s;
               fs6 \<leftarrow> put_stream s (f\<lparr>fl_fid := fid, fl_flags := fl_flags f OR (flags2 OR F_OPEN), fl_offset := 0\<rparr>) fs5;
               Some (Some s, fs6) } } } } }"

definition fopen :: "'w io_env \<Rightarrow> 'w files \<Rightarrow> bytes \<Rightarrow> bytes \<Rightarrow> (nat option \<times> 'w files) option" where
  "fopen env fs pathname mode = (let has = (\<lambda>c. map_option (\<lambda>r. r \<noteq> None) (strchr_c mode c)) in do {
     plus \<leftarrow> has 0x2b;
     r \<leftarrow> has 0x72;
     w \<leftarrow> has 0x77;
     a \<leftarrow> has 0x61;
     if \<not> (plus \<or> r \<or> w \<or> a) then Some (None, set_errno EINVAL fs)
     else do {
       let oflag = (if plus then O_RDWR else if r then O_RDONLY else O_WRONLY);
       let oflag1 = (if w then oflag OR (O_CREAT OR O_TRUNC) else oflag);
       let oflag2 = (if a then oflag1 OR (O_CREAT OR O_APPEND) else oflag1);
       let vflag = oflag2 AND (O_RDWR OR O_RDONLY OR O_WRONLY);
       if vflag = 0 \<or> vflag \<noteq> vflag AND - vflag then Some (None, set_errno EINVAL fs)
       else do {
         let vflag2 = oflag2 AND (O_TRUNC OR O_APPEND);
         if vflag2 \<noteq> vflag2 AND - vflag2 then Some (None, set_errno EINVAL fs)
         else file_open env fs pathname oflag2 } } })"

subsection \<open>Reading\<close>

text \<open>The loop of \<open>file_read\<close>: \<open>None\<close> for the number of bytes is the error.\<close>

partial_function (option) read_loop ::
    "'w io_env \<Rightarrow> 'w files \<Rightarrow> cfile \<Rightarrow> vfs_msg \<Rightarrow> bytes \<Rightarrow> nat \<Rightarrow> nat \<Rightarrow> (nat option \<times> bytes \<times> 'w files) option" where
  "read_loop env fs f msg buf done_n n =
     (if done_n < n then do {
        let count = min (n - done_n) VFS_MAX_IOUNIT;
        let (tag, fs1) = next_file_tag fs;
        let msg1 = \<lparr>v_fcall = (v_fcall msg)\<lparr>f_type := type_code Tread, f_tag := tag, f_fid := fl_fid f,
          f_count := of_nat count, f_offset := fl_offset f + of_nat done_n\<rparr>, v_mq_id = fs_in fs1\<rparr>;
        (len, msg2, fs2) \<leftarrow> request env fs1 msg1;
        if len = 0 \<or> \<not> is_type msg2 Rread then Some (None, buf, set_errno EIO fs2)
        else do {
          let got = unat (f_count (v_fcall msg2));
          tail \<leftarrow> memcpy_c (drop done_n buf) (f_data (v_fcall msg2)) (min got count);
          let buf1 = take done_n buf @ tail;
          if got < count then Some (Some (done_n + got), buf1, fs2)
          else read_loop env fs2 f msg2 buf1 (done_n + count) n } }
      else Some (Some done_n, buf, fs))"

definition file_read :: "'w io_env \<Rightarrow> 'w files \<Rightarrow> nat \<Rightarrow> u32 \<Rightarrow> (nat \<times> 'w files) option" where
  "file_read env fs s n = do {
     (ok, fs1) \<leftarrow> check_init env fs;
     if \<not> ok then Some (0, set_errno EIO fs1)
     else do {
       f0 \<leftarrow> rd_at (fs_streams fs1) s;
       (ok, fs2) \<leftarrow> (if fl_buf f0 = None then file_alloc env fs1 s else Some (True, fs1));
       if \<not> ok then Some (0, fs2)
       else do {
         f \<leftarrow> rd_at (fs_streams fs2) s;
         fill \<leftarrow> ptr_diff (fl_r_end f) (fl_r_pos f);
         if 0 < fill \<and> fill < int (unat n) then
           map_option (Pair 0) (put_stream s (f\<lparr>fl_flags := fl_flags f OR F_EOF\<rparr>) fs2)
         else do {
           obj \<leftarrow> fl_buf f;
           (res, obj1, fs3) \<leftarrow> read_loop env fs2 f (i_stack env) obj 0 (unat n);
           case res of
             None \<Rightarrow> map_option (Pair 0) (put_stream s (f\<lparr>fl_buf := Some obj1\<rparr>) fs3)
           | Some done_n \<Rightarrow> map_option (Pair done_n)
               (put_stream s (f\<lparr>fl_buf := Some obj1, fl_r_pos := Some 0, fl_r_end := Some done_n\<rparr>) fs3) } } } }"

definition fgetc :: "'w io_env \<Rightarrow> 'w files \<Rightarrow> nat \<Rightarrow> (int \<times> 'w files) option" where
  "fgetc env fs s = do {
     f \<leftarrow> rd_at (fs_streams fs) s;
     if fl_flags f AND F_EOF \<noteq> 0 then Some (-1, fs)
     else if fl_flags f AND F_READ = 0 then Some (-1, set_errno EBADF fs)
     else do {
       (n, fs1) \<leftarrow> (if fl_r_pos f = fl_r_end f then file_read env fs s (of_nat BUFSIZ) else Some (1, fs));
       if n = 0 then Some (-1, fs1)
       else do {
         f1 \<leftarrow> rd_at (fs_streams fs1) s;
         pos \<leftarrow> fl_r_pos f1;
         obj \<leftarrow> fl_buf f1;
         c \<leftarrow> rd_at obj pos;
         let f2 = f1\<lparr>fl_offset := (if fl_offset f1 \<noteq> -1 then fl_offset f1 + 1 else -1), fl_r_pos := Some (pos + 1)\<rparr>;
         map_option (Pair (uint c)) (put_stream s f2 fs1) } } }"

text \<open>\<open>ptr\<close> is the object of the caller; it is returned as it is afterwards.\<close>

definition fread ::
    "'w io_env \<Rightarrow> 'w files \<Rightarrow> bytes \<Rightarrow> u64 \<Rightarrow> u64 \<Rightarrow> nat \<Rightarrow> (u64 \<times> bytes \<times> 'w files) option" where
  "fread env fs ptr sz nitems s =
     (if sz = 0 \<or> nitems = 0 then Some (0, ptr, fs)
      else do {
        f \<leftarrow> rd_at (fs_streams fs) s;
        (n, ptr1) \<leftarrow> (if fl_buf f \<noteq> None \<and> fl_r_end f \<noteq> fl_r_pos f then do {
            obj \<leftarrow> fl_buf f;
            pos \<leftarrow> fl_r_pos f;
            fill \<leftarrow> ptr_diff (fl_r_end f) (fl_r_pos f);
            if fill < 0 then None
            else do { ptr1 \<leftarrow> memcpy_c ptr (drop pos obj) (nat fill); Some (nat fill, ptr1) } }
          else Some (0, ptr));
        let remaining = sz * nitems - of_nat n;
        fs1 \<leftarrow> put_stream s (f\<lparr>fl_buf := Some ptr1, fl_r_pos := Some n, fl_r_end := Some (unat remaining)\<rparr>) fs;
        (more, fs2) \<leftarrow> file_read env fs1 s (ucast (sz * nitems));
        let read = (of_nat n + of_nat more :: u64);
        f1 \<leftarrow> rd_at (fs_streams fs2) s;
        ptr2 \<leftarrow> fl_buf f1;
        let flags = (if read < remaining then fl_flags f1 OR F_EOF else fl_flags f1);
        fs3 \<leftarrow> put_stream s (f1\<lparr>fl_flags := flags, fl_buf := fl_buf f, fl_r_pos := fl_r_pos f, fl_r_end := fl_r_end f,
          fl_offset := fl_offset f1 + read\<rparr>) fs2;
        Some (read div sz, ptr2, fs3) })"

subsection \<open>Writing\<close>

text \<open>The loop of \<open>file_write\<close>: the data of every message starts at the front of the buffer.\<close>

partial_function (option) write_loop ::
    "'w io_env \<Rightarrow> 'w files \<Rightarrow> nat \<Rightarrow> vfs_msg \<Rightarrow> u32 \<Rightarrow> u32 \<Rightarrow> (bool \<times> u32 \<times> 'w files) option" where
  "write_loop env fs s msg remaining sent =
     (if remaining > 0 then do {
        f \<leftarrow> rd_at (fs_streams fs) s;
        obj \<leftarrow> fl_buf f;
        let count = (if remaining > of_nat VFS_MAX_IOUNIT then of_nat VFS_MAX_IOUNIT else remaining);
        let (tag, fs1) = next_file_tag fs;
        let msg1 = \<lparr>v_fcall = (v_fcall msg)\<lparr>f_type := type_code Twrite, f_tag := tag, f_fid := fl_fid f,
          f_offset := fl_offset f + ucast sent, f_count := count, f_data := obj\<rparr>, v_mq_id = fs_in fs1\<rparr>;
        (len, msg2, fs2) \<leftarrow> request env fs1 msg1;
        if len = 0 then Some (False, sent, set_errno EIO fs2)
        else do {
          let got = f_count (v_fcall msg2);
          let sent1 = sent + got;
          f1 \<leftarrow> rd_at (fs_streams fs2) s;
          fs3 \<leftarrow> put_stream s (f1\<lparr>fl_offset := fl_offset f1 + ucast sent1\<rparr>) fs2;
          if got < count then Some (False, sent1, set_errno EIO fs3)
          else write_loop env fs3 s msg2 (remaining - got) sent1 } }
      else Some (True, sent, fs))"

definition file_write :: "'w io_env \<Rightarrow> 'w files \<Rightarrow> nat \<Rightarrow> (int \<times> 'w files) option" where
  "file_write env fs s = do {
     (ok, fs1) \<leftarrow> check_init env fs;
     if \<not> ok then Some (0, set_errno EIO fs1)
     else do {
       f \<leftarrow> rd_at (fs_streams fs1) s;
       if fl_flags f AND (F_WRITE OR F_OPEN) = 0 then Some (-1, set_errno EBADF fs1)
       else do {
         fill \<leftarrow> ptr_diff (fl_w_end f) (fl_w_pos f);
         if fl_buf f = None \<or> (of_int fill :: u32) = 0 then Some (0, fs1)
         else do {
           pos \<leftarrow> fl_w_pos f;
           (ok, sent, fs2) \<leftarrow> write_loop env fs1 s (i_stack env) (of_nat pos) 0;
           if \<not> ok then Some (uint sent, fs2)
           else do {
             f1 \<leftarrow> rd_at (fs_streams fs2) s;
             let offset = (if fl_flags f1 AND F_APPEND \<noteq> 0 then -1 else fl_offset f1);
             map_option (Pair (uint sent)) (put_stream s (f1\<lparr>fl_offset := offset, fl_w_pos := Some 0\<rparr>) fs2) } } } } }"

definition fflush :: "'w io_env \<Rightarrow> 'w files \<Rightarrow> nat option \<Rightarrow> (int \<times> 'w files) option" where
  "fflush env fs stream = (case stream of None \<Rightarrow> Some (-1, set_errno EBADF fs)
     | Some s \<Rightarrow> do {
         f \<leftarrow> rd_at (fs_streams fs) s;
         if fl_flags f AND (F_OPEN OR F_WRITE) = 0 then Some (-1, set_errno EBADF fs) else file_write env fs s })"

definition fclose :: "'w io_env \<Rightarrow> 'w files \<Rightarrow> nat \<Rightarrow> (int \<times> 'w files) option" where
  "fclose env fs s = do {
     f \<leftarrow> rd_at (fs_streams fs) s;
     fs1 \<leftarrow> (if fl_buf f \<noteq> None \<and> fl_flags f AND F_WRITE \<noteq> 0 \<and> fl_w_pos f \<noteq> fl_w_end f
       then map_option snd (fflush env fs (Some s)) else Some fs);
     (ok, fs2) \<leftarrow> file_close env fs1 s;
     Some (if ok then (0, fs2) else (-1, set_errno EIO fs2)) }"

definition fputc :: "'w io_env \<Rightarrow> 'w files \<Rightarrow> int \<Rightarrow> nat \<Rightarrow> (int \<times> 'w files) option" where
  "fputc env fs c s = do {
     f0 \<leftarrow> rd_at (fs_streams fs) s;
     (ok, fs1) \<leftarrow> (if fl_buf f0 = None then file_alloc env fs s else Some (True, fs));
     if \<not> ok then Some (-1, fs1)
     else do {
       f \<leftarrow> rd_at (fs_streams fs1) s;
       if fl_w_end f = Some 0 then Some (-1, set_errno EIO fs1)
       else do {
         obj \<leftarrow> fl_buf f;
         pos \<leftarrow> fl_w_pos f;
         obj1 \<leftarrow> wr_at obj pos (of_int c);
         map_option (Pair c) (put_stream s (f\<lparr>fl_buf := Some obj1, fl_w_pos := Some (pos + 1)\<rparr>) fs1) } } }"

fun put_chars :: "'w io_env \<Rightarrow> 'w files \<Rightarrow> bytes \<Rightarrow> nat \<Rightarrow> 'w files option" where
  "put_chars env fs [] s = Some fs"
| "put_chars env fs (c # cs) s = do {
     (r, fs1) \<leftarrow> fputc env fs (uint c) s;
     put_chars env fs1 cs s }"

text \<open>The two loops go through the object from its front on, and do not look at the result of \<open>fputc\<close>.\<close>

definition fwrite :: "'w io_env \<Rightarrow> 'w files \<Rightarrow> bytes \<Rightarrow> nat \<Rightarrow> nat \<Rightarrow> nat \<Rightarrow> (nat \<times> 'w files) option" where
  "fwrite env fs ptr sz nitems s =
     (if sz = 0 \<or> nitems = 0 then Some (0, fs)
      else do {
        bs \<leftarrow> rd_bytes ptr 0 (nitems * sz);
        fs1 \<leftarrow> put_chars env fs bs s;
        Some (nitems, fs1) })"

definition vfprintf :: "'w io_env \<Rightarrow> 'w files \<Rightarrow> nat \<Rightarrow> bytes \<Rightarrow> va list \<Rightarrow> (int \<times> 'w files) option" where
  "vfprintf env fs s format ap = do {
     f0 \<leftarrow> rd_at (fs_streams fs) s;
     (ok, fs1) \<leftarrow> (if fl_buf f0 = None then file_alloc env fs s else Some (True, fs));
     if \<not> ok then Some (-1, fs1)
     else do {
       f \<leftarrow> rd_at (fs_streams fs1) s;
       n \<leftarrow> ptr_diff (fl_w_end f) (fl_w_pos f);
       obj \<leftarrow> fl_buf f;
       (res, tail) \<leftarrow> formatter (case fl_w_pos f of None \<Rightarrow> [] | Some pos \<Rightarrow> drop pos obj) format ap (of_int n);
       let obj1 = (case fl_w_pos f of None \<Rightarrow> obj | Some pos \<Rightarrow> take pos obj @ tail);
       if int res > n then map_option (\<lambda>fs2. (-1, set_errno EIO fs2)) (put_stream s (f\<lparr>fl_buf := Some obj1\<rparr>) fs1)
       else do {
         pos \<leftarrow> fl_w_pos f;
         let pos1 = pos + res;
         fs2 \<leftarrow> put_stream s (f\<lparr>fl_buf := Some obj1, fl_w_pos := Some pos1\<rparr>) fs1;
         c \<leftarrow> (if pos1 = 0 then None else rd_at obj1 (pos1 - 1));
         if c = 0x0a \<or> pos1 > BUFSIZ div 2 then map_option (\<lambda>(r, fs3). (int res, fs3)) (fflush env fs2 (Some s))
         else Some (int res, fs2) } } }"

subsection \<open>The standard streams\<close>

definition stdin_at :: nat where [layout_simps]: "stdin_at = FOPEN_MAX"
definition stdout_at :: nat where [layout_simps]: "stdout_at = FOPEN_MAX + 1"
definition stderr_at :: nat where [layout_simps]: "stderr_at = FOPEN_MAX + 2"

definition std_in :: cfile where
  "std_in = \<lparr>fl_fid = 1, fl_flags = F_OPEN OR F_READ, fl_offset = -1, fl_buf = Some (replicate BUFSIZ 0),
     fl_r_pos = Some 0, fl_r_end = Some 0, fl_w_pos = None, fl_w_end = None\<rparr>"

definition std_out :: cfile where
  "std_out = \<lparr>fl_fid = 1, fl_flags = F_OPEN OR F_WRITE OR F_APPEND, fl_offset = -1, fl_buf = Some (replicate BUFSIZ 0),
     fl_r_pos = None, fl_r_end = None, fl_w_pos = Some 0, fl_w_end = Some BUFSIZ\<rparr>"

definition closed_file :: cfile where
  "closed_file = \<lparr>fl_fid = 0, fl_flags = 0, fl_offset = 0, fl_buf = None, fl_r_pos = None, fl_r_end = None,
     fl_w_pos = None, fl_w_end = None\<rparr>"

text \<open>The static data of a process, before anything runs.\<close>

definition start_files :: "'w \<Rightarrow> 'w files" where
  "start_files w = \<lparr>fs_streams = replicate FOPEN_MAX closed_file @ [std_in, std_out, std_out], fs_initialised = False,
     fs_in = -1, fs_vfs = -1, fs_name = replicate 16 0, fs_fid_count = 2, fs_tag_count = 0, fs_errno = None,
     fs_dirent = replicate BUFSIZ 0, fs_world = w\<rparr>"

definition vprintf :: "'w io_env \<Rightarrow> 'w files \<Rightarrow> bytes \<Rightarrow> va list \<Rightarrow> (int \<times> 'w files) option" where
  "vprintf env fs format ap = vfprintf env fs stdout_at format ap"

definition fprintf :: "'w io_env \<Rightarrow> 'w files \<Rightarrow> nat \<Rightarrow> bytes \<Rightarrow> va list \<Rightarrow> (int \<times> 'w files) option" where
  "fprintf env fs s format args = vfprintf env fs s format args"

definition printf :: "'w io_env \<Rightarrow> 'w files \<Rightarrow> bytes \<Rightarrow> va list \<Rightarrow> (int \<times> 'w files) option" where
  "printf env fs format args = vprintf env fs format args"

definition fputs :: "'w io_env \<Rightarrow> 'w files \<Rightarrow> bytes \<Rightarrow> nat \<Rightarrow> (int \<times> 'w files) option" where
  "fputs env fs str s = fprintf env fs s (ascii ''%s'' @ [0x0a, 0]) [VStr str]"

definition puts :: "'w io_env \<Rightarrow> 'w files \<Rightarrow> bytes \<Rightarrow> (int \<times> 'w files) option" where
  "puts env fs str = printf env fs (ascii ''%s'' @ [0x0a, 0]) [VStr str]"

end
