(* ===== verification/Stdio_Dir.thy ===== *)
theory Stdio_Dir
  imports Stdio
begin

text \<open>
  The other operations on streams: numbers of files, file information, directories, mounting and the end of a
  process (\<^verbatim>\<open>lib/c/stdio/fileno.c\<close>, \<^verbatim>\<open>lib/c/sys/stat\<close>, \<^verbatim>\<open>lib/c/dirent\<close>, \<^verbatim>\<open>lib/c/unistd/mount.c\<close>,
  \<^verbatim>\<open>lib/c/internal/_file.c\<close>).
\<close>

definition fileno :: "'w files \<Rightarrow> nat \<Rightarrow> (u32 \<times> 'w files) option" where
  "fileno fs s = do {
     f \<leftarrow> rd_at (fs_streams fs) s;
     Some (if fl_flags f AND F_OPEN = 0 then (-1, set_errno EBADF fs) else (fl_fid f, fs)) }"

subsection \<open>File information\<close>

text \<open>The second result is what is stored in \<open>st_size\<close>.\<close>

definition file_get_stat :: "'w io_env \<Rightarrow> 'w files \<Rightarrow> u32 \<Rightarrow> (int \<times> nat option \<times> 'w files) option" where
  "file_get_stat env fs fid = do {
     let (tag, fs1) = next_file_tag fs;
     let msg = \<lparr>v_fcall = (v_fcall (i_stack env))\<lparr>f_type := type_code Tstat, f_tag := tag, f_fid := fid\<rparr>, v_mq_id = fs_in fs1\<rparr>;
     (len, msg1, fs2) \<leftarrow> request env fs1 msg;
     if len = 0 then Some (-1, None, set_errno EIO fs2)
     else if \<not> is_type msg1 Rstat then Some (-1, None, set_errno EBADF fs2)
     else do {
       n \<leftarrow> rd_le 8 (f_stat (v_fcall msg1)) 16;
       Some (0, Some n, fs2) } }"

definition fstat :: "'w io_env \<Rightarrow> 'w files \<Rightarrow> u32 \<Rightarrow> (int \<times> nat option \<times> 'w files) option" where
  "fstat env fs fildes = file_get_stat env fs fildes"

definition stat :: "'w io_env \<Rightarrow> 'w files \<Rightarrow> bytes \<Rightarrow> (int \<times> nat option \<times> 'w files) option" where
  "stat env fs path = do {
     (res, fs1) \<leftarrow> fopen env fs path (ascii ''r'' @ [0]);
     case res of None \<Rightarrow> Some (-1, None, set_errno ENOENT fs1)
     | Some s \<Rightarrow> do {
         f \<leftarrow> rd_at (fs_streams fs1) s;
         (r, sz, fs2) \<leftarrow> fstat env fs1 (fl_fid f);
         (r2, fs3) \<leftarrow> fclose env fs2 s;
         Some (r, sz, fs3) } }"

subsection \<open>Directories\<close>

definition opendir :: "'w io_env \<Rightarrow> 'w files \<Rightarrow> bytes \<Rightarrow> (nat option \<times> 'w files) option" where
  "opendir env fs dirname = file_open env fs dirname (O_RDONLY OR O_DIRECTORY)"

definition closedir :: "'w io_env \<Rightarrow> 'w files \<Rightarrow> nat \<Rightarrow> (int \<times> 'w files) option" where
  "closedir env fs s = do {
     f \<leftarrow> rd_at (fs_streams fs) s;
     if fl_flags f AND F_OPEN = 0 then Some (-1, set_errno EBADF fs)
     else do {
       (ok, fs1) \<leftarrow> file_close env fs s;
       Some (if ok then (0, fs1) else (-1, set_errno EIO fs1)) } }"

text \<open>
  The entry is built in \<open>dirent_buffer\<close>: the inode number, the length and from byte 16 on the name. The result
  says whether a pointer to it is returned.
\<close>

definition readdir :: "'w io_env \<Rightarrow> 'w files \<Rightarrow> nat \<Rightarrow> (bool \<times> 'w files) option" where
  "readdir env fs s = do {
     f0 \<leftarrow> rd_at (fs_streams fs) s;
     if fl_flags f0 AND F_OPEN = 0 \<or> fl_flags f0 AND F_DIR = 0 then Some (False, set_errno EBADF fs)
     else do {
       (n, fs1) \<leftarrow> (if fl_r_end f0 = fl_r_pos f0 then file_read env fs s (of_nat BUFSIZ) else Some (1, fs));
       f \<leftarrow> rd_at (fs_streams fs1) s;
       if n = 0 then map_option (Pair False) (put_stream s (f\<lparr>fl_flags := fl_flags f OR F_EOF\<rparr>) fs1)
       else do {
         obj \<leftarrow> fl_buf f;
         pos \<leftarrow> fl_r_pos f;
         let entry = drop pos obj;
         ino \<leftarrow> rd_le 8 entry 8;
         d1 \<leftarrow> wr_bytes (fs_dirent fs1) 0 (le_bytes 8 ino);
         len \<leftarrow> rd_le 8 entry 16;
         d2 \<leftarrow> wr_bytes d1 8 (le_bytes 8 len);
         let entry_name = drop 24 entry;
         r \<leftarrow> pstrtoz (\<lambda>n. None) (Some (drop 16 d2)) entry_name (BUFSIZ - 8);
         case r of None \<Rightarrow> Some (False, set_errno EOVERFLOW (fs1\<lparr>fs_dirent := d2\<rparr>))
         | Some name \<Rightarrow> do {
             n \<leftarrow> pstrlen entry_name;
             map_option (\<lambda>fs2. (True, fs2\<lparr>fs_dirent := take 16 d2 @ name\<rparr>))
               (put_stream s (f\<lparr>fl_offset := fl_offset f + 1, fl_r_pos := Some (pos + (SIZEOF_QID + 8 + n))\<rparr>) fs1) } } } }"

definition rewinddir :: "'w files \<Rightarrow> nat \<Rightarrow> 'w files option" where
  "rewinddir fs s = do {
     f \<leftarrow> rd_at (fs_streams fs) s;
     let start = map_option (\<lambda>_. 0) (fl_buf f);
     put_stream s (f\<lparr>fl_r_pos := start, fl_r_end := start, fl_offset := 0, fl_flags := fl_flags f OR (push_bit 1 (NOT 1))\<rparr>) fs }"

subsection \<open>Mounting\<close>

definition DMTMP :: u32 where [layout_simps]: "DMTMP = 0x10000"
definition ORDWR :: u8 where [layout_simps]: "ORDWR = 4"
definition ORCLOSE :: u8 where [layout_simps]: "ORCLOSE = 32"

fun pstr_skip :: "nat \<Rightarrow> bytes \<Rightarrow> bytes option" where
  "pstr_skip 0 name = Some name"
| "pstr_skip (Suc n) name = do { name1 \<leftarrow> pstriter name; pstr_skip n name1 }"

text \<open>The message is on the stack and \<open>mq_id\<close> is not set before it is sent.\<close>

definition file_mount :: "'w io_env \<Rightarrow> 'w files \<Rightarrow> nat \<Rightarrow> bytes \<Rightarrow> (int \<times> 'w files) option" where
  "file_mount env fs s path = do {
     stream \<leftarrow> rd_at (fs_streams fs) s;
     let mfid = fs_fid_count fs;
     let fs1 = fs\<lparr>fs_fid_count := mfid + 1\<rparr>;
     (n, wn) \<leftarrow> fcall_path_split (i_malloc env) path;
     let nwname = (of_int n :: u16);
     let wname = (case wn of None \<Rightarrow> [] | Some ws \<Rightarrow> ws);
     if nwname = 0 then Some (0, fs1)
     else do {
       (r, fs2) \<leftarrow> file_walk env fs1 mfid (nwname - 1) wname;
       if r \<noteq> 0 then Some (-1, fs2)
       else do {
         name \<leftarrow> pstr_skip (unat nwname - 1) wname;
         let (tag, fs3) = next_file_tag fs2;
         let msg = (i_stack env)\<lparr>v_fcall := (v_fcall (i_stack env))\<lparr>f_type := type_code Tcreate, f_tag := tag, f_fid := mfid,
           f_name := name, f_perm := DMDIR OR DMTMP, f_mode := ORDWR OR ORCLOSE\<rparr>\<rparr>;
         (len, msg1, fs4) \<leftarrow> request env fs3 msg;
         if len = 0 \<or> \<not> is_type msg1 Rcreate then Some (-1, set_errno EIO fs4)
         else do {
           let (tag2, fs5) = next_file_tag fs4;
           let msg2 = msg1\<lparr>v_fcall := (v_fcall msg1)\<lparr>f_type := type_code Tmount, f_tag := tag2, f_fid := fl_fid stream,
             f_mfid := mfid\<rparr>\<rparr>;
           (len2, msg3, fs6) \<leftarrow> request env fs5 msg2;
           if len2 = 0 \<or> \<not> is_type msg3 Rmount then Some (-1, set_errno EIO fs6) else Some (0, fs6) } } } }"

definition mount :: "'w io_env \<Rightarrow> 'w files \<Rightarrow> u32 \<Rightarrow> bytes \<Rightarrow> (int \<times> 'w files) option" where
  "mount env fs fid name = (case file_find fs fid of None \<Rightarrow> Some (-1, set_errno EBADF fs)
     | Some s \<Rightarrow> file_mount env fs s name)"

subsection \<open>The end of the process\<close>

fun close_open :: "'w io_env \<Rightarrow> nat list \<Rightarrow> 'w files \<Rightarrow> 'w files option" where
  "close_open env [] fs = Some fs"
| "close_open env (i # is) fs = do {
     f \<leftarrow> rd_at (fs_streams fs) i;
     fs1 \<leftarrow> (if fl_flags f AND F_OPEN \<noteq> 0 then map_option snd (fclose env fs i) else Some fs);
     close_open env is fs1 }"

definition file_deinit :: "'w io_env \<Rightarrow> 'w files \<Rightarrow> 'w files option" where
  "file_deinit env fs = do {
     fs1 \<leftarrow> close_open env [0..<FOPEN_MAX] fs;
     (r, fs2) \<leftarrow> fflush env fs1 (Some stdout_at);
     (r2, fs3) \<leftarrow> fflush env fs2 (Some stderr_at);
     let fs4 = (if fs_in fs3 \<noteq> -1
       then fs3\<lparr>fs_in := 0, fs_world := i_unlink env (fs_name fs3) (i_close env (fs_in fs3) (fs_world fs3))\<rparr> else fs3);
     Some (if fs_vfs fs4 \<noteq> -1 then fs4\<lparr>fs_vfs := 0, fs_world := i_close env (fs_vfs fs4) (fs_world fs4)\<rparr> else fs4) }"

end
