(* ===== verification/Stdio_Read.thy ===== *)
theory Stdio_Read
  imports Stdio
begin

text \<open>
  Reading through a stream. The contract of the other side, that it answers a read message with the bytes of a
  file, is a locale; under it \<open>file_read\<close> fills a buffer with the bytes from the offset on and \<open>fgetc\<close> gives them
  one after the other.
\<close>

text \<open>The results of \<open>n\<close> calls of \<open>fgetc\<close>.\<close>

fun fgetc_times :: "nat \<Rightarrow> 'w io_env \<Rightarrow> 'w files \<Rightarrow> nat \<Rightarrow> (int list \<times> 'w files) option" where
  "fgetc_times 0 env fs s = Some ([], fs)"
| "fgetc_times (Suc n) env fs s = do {
     (c, fs1) \<leftarrow> fgetc env fs s;
     (cs, fs2) \<leftarrow> fgetc_times n env fs1 s;
     Some (c # cs, fs2) }"

subsection \<open>The contract of a server\<close>

text \<open>A message that asks for \<open>count\<close> bytes of the file from \<open>offset\<close> on, and an answer that holds the bytes \<open>bs\<close>.\<close>

definition asks :: "u32 \<Rightarrow> u32 \<Rightarrow> vfs_msg \<Rightarrow> u64 \<Rightarrow> u32 \<Rightarrow> bool" where
  "asks inq fid msg offset count \<longleftrightarrow> v_mq_id msg = inq \<and> f_type (v_fcall msg) = type_code Tread \<and>
     f_fid (v_fcall msg) = fid \<and> f_offset (v_fcall msg) = offset \<and> f_count (v_fcall msg) = count"

definition answers :: "vfs_msg \<Rightarrow> bytes \<Rightarrow> bool" where
  "answers msg bs \<longleftrightarrow> is_type msg Rread \<and> unat (f_count (v_fcall msg)) = length bs \<and>
     rd_bytes (f_data (v_fcall msg)) 0 (length bs) = Some bs"

text \<open>
  A stream at position \<open>k\<close> of a file: it is open for reading, and its buffer, if it has one, holds bytes of the file
  from \<open>k\<close> on.
\<close>

definition buffered :: "cfile \<Rightarrow> bytes \<Rightarrow> bool" where
  "buffered f rest \<longleftrightarrow> (case fl_buf f of None \<Rightarrow> fl_r_pos f = fl_r_end f
     | Some obj \<Rightarrow> length obj = BUFSIZ \<and> (\<exists>p n. fl_r_pos f = Some p \<and> fl_r_end f = Some (p + n) \<and> p + n \<le> BUFSIZ \<and>
         n \<le> length rest \<and> take n (drop p obj) = take n rest))"

definition primed :: "cfile \<Rightarrow> bytes \<Rightarrow> cfile \<Rightarrow> nat \<Rightarrow> bool" where
  "primed f rest f1 n \<longleftrightarrow> fl_fid f1 = fl_fid f \<and> fl_flags f1 = fl_flags f \<and> fl_offset f1 = fl_offset f \<and>
     (\<exists>buf p. fl_buf f1 = Some buf \<and> length buf = 512 \<and> fl_r_pos f1 = Some p \<and> fl_r_end f1 = Some (p + n) \<and> p + n \<le> 512 \<and>
       n \<le> length rest \<and> take n (drop p buf) = take n rest)"

definition stream_at :: "u32 \<Rightarrow> bytes \<Rightarrow> nat \<Rightarrow> 'w files \<Rightarrow> nat \<Rightarrow> bool" where
  "stream_at fid content k fs s \<longleftrightarrow> (\<exists>f. rd_at (fs_streams fs) s = Some f \<and> fl_fid f = fid \<and> fl_flags f AND F_READ \<noteq> 0 \<and>
     fl_flags f AND F_EOF = 0 \<and> fl_offset f = of_nat k \<and> k \<le> length content \<and> buffered f (drop k content))"

text \<open>A process with its two queues; \<open>ok\<close> is what holds of the rest of the world.\<close>

locale stream_service =
  fixes env :: "'w io_env" and inq outq :: u32 and ok :: "'w \<Rightarrow> bool"
begin

definition ready :: "'w files \<Rightarrow> bool" where
  "ready fs \<longleftrightarrow> fs_initialised fs \<and> fs_in fs = inq \<and> fs_vfs fs = outq \<and> ok (fs_world fs)"

lemma ready_put: "ready (fs\<lparr>fs_streams := x\<rparr>) = ready fs"
  by (simp add: ready_def)

lemma ready_tag: "ready (fs\<lparr>fs_tag_count := t\<rparr>) = ready fs"
  by (simp add: ready_def)

text \<open>What requests change.\<close>

definition later :: "'w files \<Rightarrow> 'w files \<Rightarrow> bool" where
  "later fs fs' \<longleftrightarrow> (\<exists>t w. fs' = fs\<lparr>fs_tag_count := t, fs_world := w\<rparr>)"

lemma later_trans: "later a b \<Longrightarrow> later b c \<Longrightarrow> later a c"
  unfolding later_def by (cases a) auto

lemma later_refl: "later a a"
  unfolding later_def by (rule exI [of _ "fs_tag_count a"], rule exI [of _ "fs_world a"]) simp

lemma later_streams: "later fs fs' \<Longrightarrow> fs_streams fs' = fs_streams fs"
  by (auto simp: later_def)

lemma request_world:
  assumes "ready fs" "vfs_msg_send (i_send env) (i_receive env) msg (replicate VFS_MAX_MSG_LEN 0) outq inq (fs_world fs) =
    Some (len, msg', buf, w')" "ok w'"
  shows "request env fs msg = Some (len, msg', fs\<lparr>fs_world := w'\<rparr>)" "later fs (fs\<lparr>fs_world := w'\<rparr>)" "ready (fs\<lparr>fs_world := w'\<rparr>)"
proof -
  show "request env fs msg = Some (len, msg', fs\<lparr>fs_world := w'\<rparr>)" "ready (fs\<lparr>fs_world := w'\<rparr>)"
    using assms by (simp_all add: request_def ready_def)
  show "later fs (fs\<lparr>fs_world := w'\<rparr>)"
    unfolding later_def by (rule exI [of _ "fs_tag_count fs"], rule exI [of _ w']) simp
qed

end

text \<open>A server that answers reads of the file \<open>fid\<close> with its contents.\<close>

locale read_service = stream_service env inq outq ok for env :: "'w io_env" and inq outq ok +
  fixes fid :: u32 and content :: bytes
  assumes answer: "ok w \<Longrightarrow> asks inq fid msg offset count \<Longrightarrow> unat offset \<le> length content \<Longrightarrow> unat count \<le> 100 \<Longrightarrow>
      \<exists>len msg' buf w'. vfs_msg_send (i_send env) (i_receive env) msg (replicate VFS_MAX_MSG_LEN 0) outq inq w =
        Some (len, msg', buf, w') \<and> len \<noteq> 0 \<and> answers msg' (take (unat count) (drop (unat offset) content)) \<and> ok w'"
    and short: "ok w \<Longrightarrow> length content < 0x100000000"
    and room: "ok w \<Longrightarrow> \<exists>obj. i_malloc env BUFSIZ = Some obj \<and> length obj = BUFSIZ"
begin

lemma ready_short: "ready fs \<Longrightarrow> length content < 0x100000000"
  by (auto simp: ready_def dest: short)

lemma ready_room: "ready fs \<Longrightarrow> \<exists>obj. i_malloc env BUFSIZ = Some obj \<and> length obj = BUFSIZ"
  by (auto simp: ready_def dest: room)

lemma request_ready:
  assumes "ready fs" "asks inq fid msg offset count" "unat offset \<le> length content" "unat count \<le> 100"
  shows "\<exists>len msg' fs'. request env fs msg = Some (len, msg', fs') \<and> len \<noteq> 0 \<and> later fs fs' \<and> ready fs' \<and>
    answers msg' (take (unat count) (drop (unat offset) content))"
proof -
  have "ok (fs_world fs)" using assms(1) by (simp add: ready_def)
  from answer [OF this assms(2-4)] show ?thesis using request_world [OF assms(1)] by blast
qed

lemma read_loop_slice:
  assumes "ready fs" "fl_fid f = fid" "unat (fl_offset f) = k" "k + d \<le> length content" "d \<le> n" "n \<le> length buf"
    and "n < 0x100000000" "take d buf = take d (drop k content)"
  shows "\<exists>buf' fs'. read_loop env fs f msg buf d n = Some (Some (min n (length content - k)), buf', fs') \<and> later fs fs' \<and>
    ready fs' \<and> length buf' = length buf \<and>
    take (min n (length content - k)) buf' = take (min n (length content - k)) (drop k content)"
  using assms
proof (induction "n - d" arbitrary: fs msg buf d rule: less_induct)
  case less
  show ?case
  proof (cases "d < n")
    case False
    then have "d = n" "n \<le> length content - k" using less.prems(4,5) by linarith+
    then show ?thesis
      using less.prems(1,8) later_refl [of fs] by (subst read_loop.simps) (simp add: min_absorb1)
  next
    case True
    define count where "count = min (n - d) VFS_MAX_IOUNIT"
    have c: "0 < count" "count \<le> 100" "d + count \<le> n" using True by (auto simp: count_def VFS_MAX_IOUNIT_def)
    define bs where "bs = take count (drop (k + d) content)"
    define fs1 where "fs1 = fs\<lparr>fs_tag_count := fs_tag_count fs + 1\<rparr>"
    define msg1 where "msg1 = \<lparr>v_fcall = (v_fcall msg)\<lparr>f_type := type_code Tread, f_tag := fs_tag_count fs, f_fid := fl_fid f,
      f_count := of_nat count, f_offset := fl_offset f + of_nat d\<rparr>, v_mq_id = fs_in fs1\<rparr>"
    have kd: "k + d < 0x100000000" using less.prems(4) ready_short [OF less.prems(1)] by simp
    then have "unat (of_nat d :: u64) = d" by (simp add: unat_of_nat)
    then have off: "unat (fl_offset f + of_nat d) = k + d"
      using kd less.prems(3) by (subst unat_add_no_overflow) simp_all
    have cnt: "unat (of_nat count :: u32) = count" using c(2) by (simp add: unat_of_nat)
    have r1: "ready fs1" using less.prems(1) by (simp add: ready_def fs1_def)
    have l1: "later fs fs1" unfolding later_def fs1_def by (rule exI [of _ "fs_tag_count fs + 1"], rule exI [of _ "fs_world fs"]) simp
    have "asks inq fid msg1 (fl_offset f + of_nat d) (of_nat count)"
      using r1 less.prems(2) by (simp add: asks_def msg1_def ready_def)
    from request_ready [OF r1 this] obtain len msg' fs2 where req: "request env fs1 msg1 = Some (len, msg', fs2)" "len \<noteq> 0"
        "later fs1 fs2" "ready fs2" "answers msg' bs"
      using off cnt less.prems(4) c(2) by (auto simp: bs_def)
    have l2: "later fs fs2" by (rule later_trans [OF l1 req(3)])
    have got: "unat (f_count (v_fcall msg')) = length bs" "rd_bytes (f_data (v_fcall msg')) 0 (length bs) = Some bs"
      "is_type msg' Rread" using req(5) by (simp_all add: answers_def)
    have lb: "length bs = min count (length content - (k + d))" by (simp add: bs_def)
    have data: "take (length bs) (f_data (v_fcall msg')) = bs" "length bs \<le> length (f_data (v_fcall msg'))"
      using got(2) by (auto simp: rd_bytes_Some)
    have m: "min (length bs) count = length bs" using lb by simp
    have room: "length bs \<le> length (drop d buf)" using less.prems(6) c(3) lb by simp
    then have "memcpy_c (drop d buf) (f_data (v_fcall msg')) (length bs) = Some (bs @ drop (d + length bs) buf)"
      using memcpy_c_eq [OF room data(2)] data(1) by (simp add: add.commute)
    moreover define buf1 where "buf1 = take d buf @ bs @ drop (d + length bs) buf"
    ultimately have step: "read_loop env fs f msg buf d n =
        (if length bs < count then Some (Some (d + length bs), buf1, fs2) else read_loop env fs2 f msg' buf1 (d + count) n)"
      using True req(1,2) got(1,3) m
      by (subst read_loop.simps) (simp add: next_file_tag_def fs1_def msg1_def count_def Let_def)
    have len1: "length buf1 = length buf" using room less.prems(6) True by (simp add: buf1_def)
    have dl: "length (take d buf) = d" using less.prems(5,6) by simp
    have "take (length bs) (drop (k + d) content) = bs" by (simp add: bs_def min_def)
    then have "take (d + length bs) (drop k content) = take d (drop k content) @ bs"
      unfolding take_add by (simp add: add.commute)
    then have pre: "take (d + length bs) buf1 = take (d + length bs) (drop k content)"
      using dl less.prems(8) by (simp add: buf1_def)
    show ?thesis
    proof (cases "length bs < count")
      case True
      then have "d + length bs = min n (length content - k)" using lb less.prems(4) c(3) by linarith
      then show ?thesis using step True pre len1 l2 req(4) by auto
    next
      case False
      then have e: "length bs = count" using lb by linarith
      have "k + (d + count) \<le> length content" using lb e c(1) by linarith
      moreover have "n - (d + count) < n - d" using c(1) True by linarith
      moreover have "n \<le> length buf1" using len1 less.prems(6) by simp
      moreover have "take (d + count) buf1 = take (d + count) (drop k content)" using pre e by simp
      ultimately obtain buf' fs' where
        "read_loop env fs2 f msg' buf1 (d + count) n = Some (Some (min n (length content - k)), buf', fs')"
        "later fs2 fs'" "ready fs'" "length buf' = length buf1"
        "take (min n (length content - k)) buf' = take (min n (length content - k)) (drop k content)"
        using less.hyps [OF _ req(4) less.prems(2,3) _ c(3) _ less.prems(7), of buf1 msg'] by blast
      then show ?thesis using step False len1 later_trans [OF l2] by auto
    qed
  qed
qed

text \<open>A stream with nothing in its buffer is filled.\<close>

lemma file_read_fills:
  assumes "ready fs" "rd_at (fs_streams fs) s = Some f" "fl_fid f = fid" "fl_flags f AND F_READ \<noteq> 0"
    and "fl_offset f = of_nat k" "k \<le> length content" "buffered f rest" "fl_r_pos f = fl_r_end f"
  shows "\<exists>f' fs' buf. file_read env fs s 512 = Some (min 512 (length content - k), fs') \<and> ready fs' \<and>
    rd_at (fs_streams fs') s = Some f' \<and> fl_fid f' = fid \<and> fl_flags f' = fl_flags f \<and> fl_offset f' = fl_offset f \<and>
    fl_buf f' = Some buf \<and> length buf = 512 \<and> fl_r_pos f' = Some 0 \<and> fl_r_end f' = Some (min 512 (length content - k)) \<and>
    take (min 512 (length content - k)) buf = take (min 512 (length content - k)) (drop k content)"
proof -
  have s: "s < length (fs_streams fs)" "fs_streams fs ! s = f" using assms(2) by (auto simp: rd_at_Some)
  obtain obj0 where obj0: "i_malloc env BUFSIZ = Some obj0" "length obj0 = 512" using ready_room [OF assms(1)] by (auto simp: BUFSIZ_def)
  define f1 where "f1 = (if fl_buf f = None then
      (let a = f\<lparr>fl_buf := Some obj0, fl_r_pos := Some 0, fl_r_end := Some 0\<rparr>
       in if fl_flags f AND F_WRITE \<noteq> 0 then a\<lparr>fl_w_pos := Some 0, fl_w_end := Some BUFSIZ\<rparr> else a) else f)"
  define fs1 where "fs1 = fs\<lparr>fs_streams := (fs_streams fs)[s := f1]\<rparr>"
  have same: "(fs_streams fs)[s := f] = fs_streams fs" using s(2) list_update_id [of "fs_streams fs" s] by simp
  have alloc: "(if fl_buf f = None then file_alloc env fs s else Some (True, fs)) = Some (True, fs1)"
    using assms(2,4) s(1) same obj0(1) by (simp add: file_alloc_def put_stream_def f1_def fs1_def Let_def wr_at_in)
  have f1: "fl_fid f1 = fid" "fl_flags f1 = fl_flags f" "fl_offset f1 = fl_offset f" "fl_r_pos f1 = fl_r_end f1"
    using assms(3,8) by (simp_all add: f1_def Let_def)
  obtain obj where obj: "fl_buf f1 = Some obj" "length obj = 512"
    using assms(7) obj0(2) by (cases "fl_buf f"; cases "fl_flags f AND F_WRITE = 0") (auto simp: f1_def Let_def buffered_def BUFSIZ_def)
  have s1: "rd_at (fs_streams fs1) s = Some f1" using s(1) by (simp add: fs1_def rd_at_in)
  have r1: "ready fs1" using assms(1) by (simp add: fs1_def ready_put)
  have diff: "ptr_diff (fl_r_end f1) (fl_r_pos f1) = Some 0" using f1(4) by (cases "fl_r_end f1") (simp_all add: ptr_diff_def)
  have k: "unat (fl_offset f1) = k" using assms(5,6) ready_short [OF assms(1)] by (simp add: f1 unat_of_nat)
  let ?m = "min 512 (length content - k)"
  obtain buf fs2 where loop: "read_loop env fs1 f1 (i_stack env) obj 0 512 = Some (Some ?m, buf, fs2)" "later fs1 fs2" "ready fs2"
      "length buf = 512" "take ?m buf = take ?m (drop k content)"
    using read_loop_slice [OF r1 f1(1) k, of 0 512 obj "i_stack env"] assms(6) obj(2) by auto
  have s2: "s < length (fs_streams fs2)" using s1 later_streams [OF loop(2)] by (auto simp: rd_at_Some)
  define f2 where "f2 = f1\<lparr>fl_buf := Some buf, fl_r_pos := Some 0, fl_r_end := Some ?m\<rparr>"
  define fs3 where "fs3 = fs2\<lparr>fs_streams := (fs_streams fs2)[s := f2]\<rparr>"
  have "file_read env fs s 512 = Some (?m, fs3)"
    using assms(1,2) alloc s1 diff obj(1) loop(1) s2
    by (simp add: file_read_def check_init_def ready_def put_stream_def wr_at_in f2_def fs3_def)
  moreover have "ready fs3" using loop(3) by (simp add: fs3_def ready_put)
  moreover have "rd_at (fs_streams fs3) s = Some f2" using s2 by (simp add: fs3_def rd_at_in)
  ultimately show ?thesis using f1 loop(4,5) by (intro exI [of _ f2] exI [of _ fs3] exI [of _ buf]) (simp add: f2_def)
qed

text \<open>One character.\<close>

lemma fgetc_next:
  assumes "ready fs" "stream_at fid content k fs s"
  shows "\<exists>fs'. ready fs' \<and> (if k < length content
    then fgetc env fs s = Some (uint (content ! k), fs') \<and> stream_at fid content (k + 1) fs' s
    else fgetc env fs s = Some (-1, fs') \<and> stream_at fid content k fs' s)"
proof -
  obtain f where f: "rd_at (fs_streams fs) s = Some f" "fl_fid f = fid" "fl_flags f AND F_READ \<noteq> 0" "fl_flags f AND F_EOF = 0"
    "fl_offset f = of_nat k" "k \<le> length content" "buffered f (drop k content)"
    using assms(2) by (auto simp: stream_at_def)
  text \<open>After the first part there is a buffer, which is empty at the end only.\<close>
  have "\<exists>f1 fs1 n r. (if fl_r_pos f = fl_r_end f then file_read env fs s 512 else Some (1, fs)) = Some (r, fs1) \<and> ready fs1 \<and>
      rd_at (fs_streams fs1) s = Some f1 \<and> primed f (drop k content) f1 n \<and> r \<le> n \<and> (r = 0 \<longrightarrow> k = length content)"
  proof (cases "fl_r_pos f = fl_r_end f")
    case True
    let ?m = "min 512 (length content - k)"
    obtain f1 fs1 buf where r: "file_read env fs s 512 = Some (?m, fs1)" "ready fs1"
      "rd_at (fs_streams fs1) s = Some f1" "fl_fid f1 = fid" "fl_flags f1 = fl_flags f" "fl_offset f1 = fl_offset f"
      "fl_buf f1 = Some buf" "length buf = 512" "fl_r_pos f1 = Some 0" "fl_r_end f1 = Some ?m" "take ?m buf = take ?m (drop k content)"
      using file_read_fills [OF assms(1) f(1-3,5-7) True] by blast
    have "primed f (drop k content) f1 ?m" using r(4-11) f(2) by (simp add: primed_def)
    moreover have "?m = 0 \<longrightarrow> k = length content" using f(6) by auto
    ultimately show ?thesis unfolding if_P [OF True] using r(1-3) order_refl [of ?m] by (intro exI conjI) (assumption+)
  next
    case False
    then obtain buf p n where b: "fl_buf f = Some buf" "length buf = 512" "fl_r_pos f = Some p" "fl_r_end f = Some (p + n)"
        "p + n \<le> 512" "n \<le> length content - k" "take n (drop p buf) = take n (drop k content)"
      using f(7) by (auto simp: buffered_def BUFSIZ_def split: option.splits)
    then have "primed f (drop k content) f n" by (simp add: primed_def)
    moreover have "1 \<le> n" using False b(3,4) by simp
    moreover have "(1 :: nat) = 0 \<longrightarrow> k = length content" by simp
    ultimately show ?thesis unfolding if_not_P [OF False] using assms(1) f(1) by (intro exI conjI) (rule refl | assumption)+
  qed
  then obtain f1 fs1 n r where b: "(if fl_r_pos f = fl_r_end f then file_read env fs s 512 else Some (1, fs)) = Some (r, fs1)"
      "ready fs1" "rd_at (fs_streams fs1) s = Some f1" "primed f (drop k content) f1 n" "r \<le> n" "r = 0 \<longrightarrow> k = length content"
    by blast
  then obtain buf p where c: "fl_fid f1 = fid" "fl_flags f1 = fl_flags f" "fl_offset f1 = fl_offset f" "fl_buf f1 = Some buf"
      "length buf = 512" "fl_r_pos f1 = Some p" "fl_r_end f1 = Some (p + n)" "p + n \<le> 512" "n \<le> length content - k"
      "take n (drop p buf) = take n (drop k content)"
    using f(2) by (auto simp: primed_def)
  have call: "(if fl_r_pos f = fl_r_end f then file_read env fs s (of_nat BUFSIZ) else Some (1, fs)) = Some (r, fs1)"
    using b(1) by (auto simp: BUFSIZ_def split: if_splits)
  show ?thesis
  proof (cases "k = length content")
    case True
    then have n: "n = 0" "r = 0" using c(9) b(5) by simp_all
    then have "buffered f1 (drop k content)" using c(4-7) c(8) by (simp add: buffered_def BUFSIZ_def)
    then have "stream_at fid content k fs1 s" using b(3) c(1-3) f by (simp add: stream_at_def)
    moreover have "fgetc env fs s = Some (-1, fs1)"
      using f(1,3,4) call n(2) by (simp add: fgetc_def split del: if_split)
    ultimately show ?thesis using True b(2) by auto
  next
    case False
    then have n: "0 < r" "0 < n" "k < length content" using b(5,6) f(6) by auto
    have p: "p < length buf" using n(2) c(5,8) by simp
    have "take n (drop p buf) ! 0 = take n (drop k content) ! 0" using c(10) by simp
    then have at: "buf ! p = content ! k" using n p by simp
    have k: "(of_nat k :: u64) \<noteq> -1"
    proof
      assume "(of_nat k :: u64) = -1"
      then have "unat (of_nat k :: u64) = unat (-1 :: u64)" by simp
      then show False using n(3) ready_short [OF assms(1)] by (simp add: unat_of_nat unsigned_minus_1_eq_mask mask_eq_exp_minus_1)
    qed
    define f2 where "f2 = f1\<lparr>fl_offset := of_nat (k + 1), fl_r_pos := Some (p + 1)\<rparr>"
    define fs2 where "fs2 = fs1\<lparr>fs_streams := (fs_streams fs1)[s := f2]\<rparr>"
    have s: "s < length (fs_streams fs1)" using b(3) by (auto simp: rd_at_Some)
    have "fgetc env fs s = Some (uint (content ! k), fs2)"
      using f(1,3-5) call b(3) c(2-4,6) n(1) k at p s
      by (simp add: fgetc_def rd_at_in put_stream_def wr_at_in f2_def fs2_def add.commute Let_def split del: if_split)
    moreover have "ready fs2" using b(2) by (simp add: fs2_def ready_put)
    moreover have "stream_at fid content (k + 1) fs2 s"
    proof -
      obtain n' where n': "n = Suc n'" using n(2) by (cases n) auto
      have "take n' (drop (p + 1) buf) = take n' (drop (k + 1) content)"
        using c(10) n(3) p by (simp add: n' Cons_nth_drop_Suc [symmetric])
      then have "buffered f2 (drop (k + 1) content)"
        using c(4-9) by (auto simp: buffered_def BUFSIZ_def f2_def n')
      then show ?thesis using s c(1,2) f(3,4) n(3) by (simp add: stream_at_def fs2_def rd_at_in f2_def)
    qed
    ultimately show ?thesis using n(3) by auto
  qed
qed

lemma fgetc_sequence:
  assumes "ready fs" "stream_at fid content k fs s"
  shows "\<exists>fs'. fgetc_times n env fs s =
    Some (map (\<lambda>c. uint c) (take n (drop k content)) @ replicate (n - (length content - k)) (-1), fs') \<and> ready fs'"
  using assms
proof (induction n arbitrary: fs k)
  case (Suc n)
  have k: "k \<le> length content" using Suc.prems(2) by (auto simp: stream_at_def)
  obtain fs1 where fs1: "ready fs1" "if k < length content
      then fgetc env fs s = Some (uint (content ! k), fs1) \<and> stream_at fid content (k + 1) fs1 s
      else fgetc env fs s = Some (-1, fs1) \<and> stream_at fid content k fs1 s"
    using fgetc_next [OF Suc.prems] by blast
  show ?case
  proof (cases "k < length content")
    case True
    then obtain fs2 where "fgetc_times n env fs1 s = Some (map (\<lambda>c. uint c) (take n (drop (k + 1) content)) @
        replicate (n - (length content - (k + 1))) (-1), fs2)" "ready fs2"
      using Suc.IH [OF fs1(1), of "k + 1"] fs1(2) by auto
    moreover have "drop k content = content ! k # drop (k + 1) content" using True by (simp add: Cons_nth_drop_Suc)
    moreover have "Suc n - (length content - k) = n - (length content - (k + 1))" using True by simp
    ultimately show ?thesis using fs1(2) True by simp
  next
    case False
    then obtain fs2 where "fgetc_times n env fs1 s = Some (map (\<lambda>c. uint c) (take n (drop k content)) @
        replicate (n - (length content - k)) (-1), fs2)" "ready fs2"
      using Suc.IH [OF fs1(1), of k] fs1(2) by auto
    then show ?thesis using fs1(2) False k by simp
  qed
qed simp

end

end
