(* ===== verification/Task_Queues.thy ===== *)
theory Task_Queues
  imports Syscalls
begin

text \<open>
  Tasks that talk through the message queues of the kernel: the calls of \<open>mq_send\<close> and \<open>mq_receive\<close> until they return
  (\<^verbatim>\<open>kernel/mqueue.c\<close>, \<^verbatim>\<open>lib/c/mqueue\<close>), what they do on a queue that one task writes and another reads, and the
  contract of a server that answers each message of one queue on another.

  The state is the table of the queues with the other tasks \<open>'r\<close>. A task that waits in \<open>mq_receive\<close> lets the others
  run: \<open>turn\<close> is what they do until the waiting task runs again. A run in which a task waits for ever is \<open>None\<close>, and so is a send
  that blocks, because nothing unblocks a sender.
\<close>

type_synonym 'r system = "mq_state \<times> 'r"

subsection \<open>Calls until they return\<close>

text \<open>The loop of \<open>mqueue_receive\<close> after the first attempt: the queue and the subscriber stay those of the call.\<close>

partial_function (option) receive_wait ::
    "('r system \<Rightarrow> 'r system option) \<Rightarrow> nat \<Rightarrow> nat \<Rightarrow> bytes \<Rightarrow> u64 \<Rightarrow> 'r system \<Rightarrow> (int \<times> bytes \<times> 'r system) option" where
  "receive_wait turn i j buf len w = do {
     (out, buf1, st1) \<leftarrow> mqueue_receive_attempt i j buf len (fst w);
     case out of Ret n \<Rightarrow> Some (n, buf1, st1, snd w)
     | Blocked \<Rightarrow> do {
         w1 \<leftarrow> turn (st1, snd w);
         receive_wait turn i j buf1 len w1 } }"

definition task_receive_call ::
    "int \<Rightarrow> ('r system \<Rightarrow> 'r system option) \<Rightarrow> u32 \<Rightarrow> bytes \<Rightarrow> nat \<Rightarrow> 'r system \<Rightarrow> (int \<times> bytes \<times> 'r system) option" where
  "task_receive_call pid turn q buf n w = do {
     (out, buf1, st1) \<leftarrow> mq_receive (sint q) buf (of_nat n) pid (fst w);
     case out of Mq_done r e \<Rightarrow> Some (r, buf1, st1, snd w)
     | Mq_stopped \<Rightarrow> do {
         i \<leftarrow> mq_find (sint q) (fst w);
         j \<leftarrow> mq_find_subscriber (open_queues (fst w) ! i) pid;
         w1 \<leftarrow> turn (st1, snd w);
         (r, buf2, w2) \<leftarrow> receive_wait turn i j buf1 (of_nat n) w1;
         Some (fst (errno_result r), buf2, w2) } }"

text \<open>The calls as the libraries use them; after a run that is not followed the world is \<open>None\<close>.\<close>

definition task_receive ::
    "int \<Rightarrow> ('r system \<Rightarrow> 'r system option) \<Rightarrow> u32 \<Rightarrow> bytes \<Rightarrow> nat \<Rightarrow> 'r system option \<Rightarrow> int \<times> bytes \<times> 'r system option" where
  "task_receive pid turn q buf n w =
     (case Option.bind w (task_receive_call pid turn q buf n) of
        None \<Rightarrow> (-1, buf, None) | Some (r, buf1, w1) \<Rightarrow> (r, buf1, Some w1))"

definition task_send :: "int \<Rightarrow> u32 \<Rightarrow> bytes \<Rightarrow> nat \<Rightarrow> 'r system option \<Rightarrow> int \<times> 'r system option" where
  "task_send pid q buf n w =
     (case Option.bind w (\<lambda>(st, r). do {
          (out, st1, woken) \<leftarrow> mq_send (sint q) buf (of_nat n) pid st;
          case out of Mq_done res e \<Rightarrow> Some (res, st1, r) | Mq_stopped \<Rightarrow> None }) of
        None \<Rightarrow> (-1, None) | Some (res, st1, r) \<Rightarrow> (res, Some (st1, r)))"

text \<open>One round of the loop of a server: it receives into its buffer and handles the message.\<close>

definition server_turn ::
    "(bytes \<Rightarrow> 's \<Rightarrow> 'r system option \<Rightarrow> (bytes \<times> 's \<times> 'r system option) option) \<Rightarrow> int \<Rightarrow> u32 \<Rightarrow> nat \<Rightarrow>
     ('s \<times> bytes \<times> 'r) system \<Rightarrow> ('s \<times> bytes \<times> 'r) system option" where
  "server_turn handle pid mq_in max_len w = (case w of (st, s, buf, r) \<Rightarrow> do {
     (n, buf1, st1, r1) \<leftarrow> task_receive_call pid (\<lambda>_. None) mq_in buf max_len (st, r);
     if n = -1 then Some (st1, s, buf1, r1)
     else do {
       (buf2, s1, w1) \<leftarrow> handle buf1 s (Some (st1, r1));
       (st2, r2) \<leftarrow> w1;
       Some (st2, s1, buf2, r2) } })"

subsection \<open>A queue between two tasks\<close>

text \<open>A queue with its place in the table, the task that sends, and the task that receives with its place as a subscriber.\<close>

record channel =
  ch_id :: u32
  ch_slot :: nat
  ch_from :: int
  ch_to :: int
  ch_at :: nat

definition queue_has :: "channel \<Rightarrow> mqueue \<Rightarrow> bytes list \<Rightarrow> bool" where
  "queue_has c q ms \<longleftrightarrow> mq_wf q \<and> mq_msgsize (q_attr q) = MQ_MAX_MSG_SIZE \<and> mq_contents q = ms \<and>
     (\<exists>j. mq_find_subscriber q (ch_from c) = Some j \<and> sub_flags (q_subs q ! j) AND O_RDONLY = 0) \<and>
     mq_find_subscriber q (ch_to c) = Some (ch_at c) \<and> sub_flags (q_subs q ! ch_at c) AND O_WRONLY = 0 \<and>
     sub_flags (q_subs q ! ch_at c) AND O_NONBLOCK = 0"

definition channel_has :: "mq_state \<Rightarrow> channel \<Rightarrow> bytes list \<Rightarrow> bool" where
  "channel_has st c ms \<longleftrightarrow> mq_find (sint (ch_id c)) st = Some (ch_slot c) \<and> queue_has c (open_queues st ! ch_slot c) ms"

text \<open>Only the queues at the places \<open>S\<close> have changed.\<close>

definition only_at :: "nat set \<Rightarrow> mq_state \<Rightarrow> mq_state \<Rightarrow> bool" where
  "only_at S st st' \<longleftrightarrow> (\<forall>c ms. ch_slot c \<notin> S \<longrightarrow> channel_has st c ms \<longrightarrow> channel_has st' c ms)"

lemma only_at_trans: "only_at S st st1 \<Longrightarrow> only_at T st1 st2 \<Longrightarrow> S \<subseteq> U \<Longrightarrow> T \<subseteq> U \<Longrightarrow> only_at U st st2"
  unfolding only_at_def by blast

lemma only_atD: "only_at S st st' \<Longrightarrow> channel_has st c ms \<Longrightarrow> ch_slot c \<notin> S \<Longrightarrow> channel_has st' c ms"
  by (simp add: only_at_def)

lemma first_index_map: "first_index (\<lambda>x. Q (f x)) xs = first_index Q (map f xs)"
  by (induction xs) simp_all

lemma mq_find_set_queue:
  assumes "q_id q = q_id (open_queues st ! i)"
  shows "mq_find d (set_queue i q st) = mq_find d st"
proof -
  have "map q_id ((open_queues st)[i := q]) = map q_id (open_queues st)"
    using assms by (cases "i < length (open_queues st)") (simp_all add: map_update list_update_same_conv list_update_beyond)
  then show ?thesis
    unfolding mq_find_def set_queue_def by (simp add: first_index_map [of "\<lambda>n. n = d" q_id])
qed

lemma subscriber_same: "map sub_pid (q_subs q') = map sub_pid (q_subs q) \<Longrightarrow> mq_find_subscriber q' pid = mq_find_subscriber q pid"
  unfolding mq_find_subscriber_def
  by (simp add: first_index_map [of "\<lambda>n. pid \<noteq> 0 \<and> n = pid \<or> pid = 0 \<and> 0 < n" sub_pid])

lemma set_queue_channel:
  assumes "channel_has st c ms" "q_id q = q_id (open_queues st ! ch_slot c)" "queue_has c q ms'"
  shows "channel_has (set_queue (ch_slot c) q st) c ms'" "only_at {ch_slot c} st (set_queue (ch_slot c) q st)"
proof -
  have "ch_slot c < length (open_queues st)"
    using assms(1) mq_find_length(1) by (auto simp: channel_has_def)
  then show "channel_has (set_queue (ch_slot c) q st) c ms'"
    using assms by (simp add: channel_has_def mq_find_set_queue) (simp add: set_queue_def)
  show "only_at {ch_slot c} st (set_queue (ch_slot c) q st)"
    using assms(2) by (auto simp: only_at_def channel_has_def mq_find_set_queue) (simp add: set_queue_def)
qed

text \<open>The marks of blocked tasks are other bits than the access rights.\<close>

lemma marks_and:
  "(x XOR BLCK_RECV) AND O_RDONLY = x AND O_RDONLY" "(x XOR BLCK_RECV) AND O_WRONLY = x AND O_WRONLY"
  "(x XOR BLCK_RECV) AND O_NONBLOCK = x AND O_NONBLOCK" "(x OR BLCK_RECV) AND O_RDONLY = x AND O_RDONLY"
  "(x OR BLCK_RECV) AND O_WRONLY = x AND O_WRONLY" "(x OR BLCK_RECV) AND O_NONBLOCK = x AND O_NONBLOCK"
  by (simp_all add: layout_simps bit.conj_xor_distrib2 bit.conj_disj_distrib2)

lemma unblock_subs_rights:
  assumes "f \<in> {O_RDONLY, O_WRONLY, O_NONBLOCK}"
  shows "map (\<lambda>t. sub_flags t AND f) (fst (unblock_subs BLCK_RECV ts)) = map (\<lambda>t. sub_flags t AND f) ts"
  using assms by (induction ts) (auto simp: Let_def marks_and split: prod.splits)

text \<open>A change of the marks leaves the queue one between the two tasks.\<close>

lemma queue_has_marks:
  assumes "queue_has c q ms" "mq_wf q'" "mq_contents q' = ms'" "mq_msgsize (q_attr q') = mq_msgsize (q_attr q)"
    and "map sub_pid (q_subs q') = map sub_pid (q_subs q)"
    and "\<And>f. f \<in> {O_RDONLY, O_WRONLY, O_NONBLOCK} \<Longrightarrow>
      map (\<lambda>t. sub_flags t AND f) (q_subs q') = map (\<lambda>t. sub_flags t AND f) (q_subs q)"
  shows "queue_has c q' ms'"
proof -
  have len: "length (q_subs q') = length (q_subs q)" using assms(5) by (rule map_eq_imp_length_eq)
  have at: "sub_flags (q_subs q' ! k) AND f = sub_flags (q_subs q ! k) AND f"
    if "k < length (q_subs q)" "f \<in> {O_RDONLY, O_WRONLY, O_NONBLOCK}" for k f
    using arg_cong [OF assms(6) [OF that(2)], of "\<lambda>xs. xs ! k"] that(1) len by simp
  have sub: "mq_find_subscriber q' p = mq_find_subscriber q p" for p by (rule subscriber_same [OF assms(5)])
  have in_subs: "mq_find_subscriber q p = Some k \<Longrightarrow> k < length (q_subs q)" for p k
    by (auto simp: mq_find_subscriber_def dest: first_index_Some)
  then show ?thesis using assms(1-4) at unfolding queue_has_def sub by auto
qed

text \<open>Sending to an empty queue.\<close>

lemma send_channel:
  assumes "channel_has st c []" "n \<le> 128" "n \<le> length buf"
  shows "\<exists>st'. task_send (ch_from c) (ch_id c) buf n (Some (st, r)) = (0, Some (st', r)) \<and>
    channel_has st' c [take n buf] \<and> only_at {ch_slot c} st st'"
proof -
  define q where "q = open_queues st ! ch_slot c"
  have q: "mq_wf q" "mq_msgsize (q_attr q) = 128" "mq_contents q = []" "queue_has c q []"
    "mq_find (sint (ch_id c)) st = Some (ch_slot c)"
    using assms(1) by (auto simp: channel_has_def queue_has_def q_def layout_simps)
  obtain j where j: "mq_find_subscriber q (ch_from c) = Some j" "sub_flags (q_subs q ! j) AND O_RDONLY = 0"
    using q(4) by (auto simp: queue_has_def)
  have n: "unat (of_nat n :: u64) = n" "sint (of_nat n :: u64) = int n"
    using assms(2) by (simp_all add: unat_of_nat sint_small_u64)
  have room: "mq_count q < mq_cap q"
    using mq_contents_length [of q] q(3) mq_wf_bounds(1) [OF q(1)] by simp
  have fit: "unat (of_nat n :: u64) \<le> nat (mq_msgsize (q_attr q))" "unat (of_nat n :: u64) \<le> length buf"
    using assms(2,3) n q(2) by simp_all
  obtain q' pids where q': "mq_enqueue q buf (of_nat n) = Some (True, q', pids)" "mq_wf q'" "mq_contents q' = [take n buf]"
      "q_attr q' = (q_attr q)\<lparr>mq_curmsg := mq_curmsg (q_attr q) + 1\<rparr>"
    using mq_enqueue_spec [OF q(1) fit] room q(3) n(1) by auto
  have subs: "q_subs q' = fst (woken q)"
    using mq_enqueue_room [OF q(1) room, of "of_nat n" buf] q'(1) assms(2,3) n(1) by auto
  have same: "q_id q' = q_id q" "map sub_pid (q_subs q') = map sub_pid (q_subs q)"
    using mq_enqueue_same [OF q'(1)] by (simp_all add: same_queue_def)
  have "queue_has c q' [take n buf]"
    using q(4) q'(2-4) same(2) by (rule_tac queue_has_marks [OF q(4)]) (auto simp: subs woken_def unblock_subs_rights)
  note ch = set_queue_channel [OF assms(1), folded q_def, OF same(1) this]
  have "mqueue_send (sint (ch_id c)) buf (of_nat n) (ch_from c) st = Some (Ret 0, set_queue (ch_slot c) q' st, pids)"
    using q(2,5) j q'(1) n(2) assms(2) by (simp add: mqueue_send_def mqueue_send_attempt_def q_def [symmetric] Let_def)
  then show ?thesis using ch by (simp add: task_send_def mq_send_def sys_mq_send_def)
qed

text \<open>One attempt to receive: from an empty queue it blocks, otherwise it gives the message.\<close>

lemma attempt_empty:
  assumes "channel_has st c []"
  shows "\<exists>st'. mqueue_receive_attempt (ch_slot c) (ch_at c) buf len st = Some (Blocked, buf, st') \<and>
    channel_has st' c [] \<and> only_at {ch_slot c} st st'"
proof -
  define q where "q = open_queues st ! ch_slot c"
  define j where "j = ch_at c"
  have q: "mq_wf q" "mq_contents q = []" "queue_has c q []" "mq_find (sint (ch_id c)) st = Some (ch_slot c)"
    "mq_find_subscriber q (ch_to c) = Some j" "sub_flags (q_subs q ! j) AND O_NONBLOCK = 0"
    using assms by (auto simp: channel_has_def queue_has_def q_def j_def)
  have j: "j < length (q_subs q)" using q(5) by (auto simp: mq_find_subscriber_def dest: first_index_Some)
  have i: "ch_slot c < length (open_queues st)" using mq_find_length(1) [OF q(4)] .
  have none: "mq_dequeue q buf len = Some (0, buf, q)" using mq_empty_iff [OF q(1)] q(2) by (simp add: mq_dequeue_def)
  define t where "t = (q_subs q ! j)\<lparr>sub_flags := sub_flags (q_subs q ! j) OR BLCK_RECV\<rparr>"
  define q' where "q' = q\<lparr>q_subs := (q_subs q)[j := t]\<rparr>"
  have "mq_wf q'" "mq_contents q' = []"
    using q(1,2) by (simp_all add: q'_def mq_wf_def mq_contents_def mq_ring_def mq_cap_def mq_first_def mq_count_def)
  moreover have "map sub_pid (q_subs q') = map sub_pid (q_subs q)"
    using j by (simp add: q'_def t_def map_update list_update_same_conv)
  moreover have "map (\<lambda>t. sub_flags t AND f) (q_subs q') = map (\<lambda>t. sub_flags t AND f) (q_subs q)"
    if "f \<in> {O_RDONLY, O_WRONLY, O_NONBLOCK}" for f
    using that j by (auto simp: q'_def t_def map_update list_update_same_conv marks_and)
  ultimately have "queue_has c q' []" by (rule_tac queue_has_marks [OF q(3)]) (simp_all add: q'_def)
  note ch = set_queue_channel [OF assms, folded q_def, OF _ this]
  have "mqueue_receive_attempt (ch_slot c) j buf len st = Some (Blocked, buf, set_queue (ch_slot c) q' st)"
    using none j i q(6) by (simp add: mqueue_receive_attempt_def q_def [symmetric] Let_def q'_def t_def set_queue_def)
  then show ?thesis using ch by (simp add: j_def q'_def)
qed

lemma attempt_message:
  assumes "channel_has st c [m]" "0 < length m" "length m \<le> unat len" "length m \<le> length buf"
  shows "\<exists>st'. mqueue_receive_attempt (ch_slot c) (ch_at c) buf len st =
      Some (Ret (int (length m)), m @ drop (length m) buf, st') \<and> channel_has st' c [] \<and> only_at {ch_slot c} st st'"
proof -
  define q where "q = open_queues st ! ch_slot c"
  have q: "mq_wf q" "mq_contents q = [m]" "queue_has c q [m]" "mq_find (sint (ch_id c)) st = Some (ch_slot c)"
    using assms by (auto simp: channel_has_def queue_has_def q_def)
  from mq_dequeue_spec [OF q(1,2) assms(3,4)] obtain q' where
      q': "mq_dequeue q buf len = Some (int (length m), m @ drop (length m) buf, q')" "mq_wf q'" "mq_contents q' = []"
        "q_attr q' = (q_attr q)\<lparr>mq_curmsg := mq_curmsg (q_attr q) - 1\<rparr>" by auto
  have same: "q_id q' = q_id q" "q_subs q' = q_subs q"
    using mq_dequeue_same [OF q'(1)] by (simp_all add: same_queue_def)
  have "queue_has c q' []" by (rule queue_has_marks [OF q(3) q'(2,3)]) (simp_all add: same q'(4))
  note ch = set_queue_channel [OF assms(1), folded q_def, OF same(1) this]
  have "mqueue_receive_attempt (ch_slot c) (ch_at c) buf len st =
      Some (Ret (int (length m)), m @ drop (length m) buf, set_queue (ch_slot c) q' st)"
    using q'(1) assms(2) by (simp add: mqueue_receive_attempt_def q_def [symmetric] Let_def)
  then show ?thesis using ch by blast
qed

lemma receive_is_attempt:
  assumes "channel_has st c ms"
  shows "mq_receive (sint (ch_id c)) buf len (ch_to c) st =
    map_option (\<lambda>(r, buf, st'). (mq_res r, buf, st')) (mqueue_receive_attempt (ch_slot c) (ch_at c) buf len st)"
  using assms by (auto simp: channel_has_def queue_has_def mq_receive_def sys_mq_receive_def mqueue_receive_def Let_def)

text \<open>Receiving a message that is there, and waiting for one that the others send.\<close>

lemma receive_channel:
  assumes "channel_has st c [m]" "0 < length m" "length m \<le> n" "n \<le> 128" "length m \<le> length buf"
  shows "\<exists>st'. task_receive_call (ch_to c) turn (ch_id c) buf n (st, r) =
      Some (int (length m), m @ drop (length m) buf, st', r) \<and> channel_has st' c [] \<and> only_at {ch_slot c} st st'"
proof -
  have "length m \<le> unat (of_nat n :: u64)" using assms(3,4) by (simp add: unat_of_nat)
  from attempt_message [OF assms(1,2) this assms(5)] show ?thesis
    by (auto simp: task_receive_call_def receive_is_attempt [OF assms(1)])
qed

lemma receive_waits:
  assumes "channel_has st c []" "n \<le> 128" "m \<noteq> [] \<and> length m \<le> n \<and> length m \<le> length buf"
    and "\<And>st1. channel_has st1 c [] \<Longrightarrow> only_at {ch_slot c} st st1 \<Longrightarrow>
      \<exists>st2 r'. turn (st1, r) = Some (st2, r') \<and> channel_has st2 c [m] \<and> P st2 r'"
    and "\<And>st2 st3 r'. P st2 r' \<Longrightarrow> only_at {ch_slot c} st2 st3 \<Longrightarrow> Q st3 r'"
  shows "\<exists>st' r'. task_receive_call (ch_to c) turn (ch_id c) buf n (st, r) =
      Some (int (length m), m @ drop (length m) buf, st', r') \<and> channel_has st' c [] \<and> Q st' r'"
proof -
  have m: "0 < length m" "length m \<le> unat (of_nat n :: u64)" "length m \<le> length buf"
    using assms(2,3) by (auto simp: unat_of_nat)
  obtain st1 where st1: "mqueue_receive_attempt (ch_slot c) (ch_at c) buf (of_nat n) st = Some (Blocked, buf, st1)"
      "channel_has st1 c []" "only_at {ch_slot c} st st1"
    using attempt_empty [OF assms(1)] by blast
  obtain st2 r' where st2: "turn (st1, r) = Some (st2, r')" "channel_has st2 c [m]" "P st2 r'" using assms(4) [OF st1(2,3)] by blast
  obtain st3 where st3: "mqueue_receive_attempt (ch_slot c) (ch_at c) buf (of_nat n) st2 =
      Some (Ret (int (length m)), m @ drop (length m) buf, st3)" "channel_has st3 c []" "only_at {ch_slot c} st2 st3"
    using attempt_message [OF st2(2) m] by blast
  have "receive_wait turn (ch_slot c) (ch_at c) buf (of_nat n) (st2, r') =
      Some (int (length m), m @ drop (length m) buf, st3, r')"
    using st3(1) by (subst receive_wait.simps) simp
  moreover have "mq_find (sint (ch_id c)) st = Some (ch_slot c)"
      "mq_find_subscriber (open_queues st ! ch_slot c) (ch_to c) = Some (ch_at c)"
    using assms(1) by (auto simp: channel_has_def queue_has_def)
  ultimately have "task_receive_call (ch_to c) turn (ch_id c) buf n (st, r) =
      Some (int (length m), m @ drop (length m) buf, st3, r')"
    using st1(1) st2(1) by (simp add: task_receive_call_def receive_is_attempt [OF assms(1)] errno_result_def)
  then show ?thesis using st3(2) assms(5) [OF st2(3) st3(3)] by blast
qed

end
