(* ===== verification/Queue_Server.thy ===== *)
theory Queue_Server
  imports Task_Queues Vfs_Server
begin

text \<open>
  The contract of a server that answers the messages of one queue on another, as a locale over what the task that
  waits for the answer sees, and what \<open>vfs_msg_send\<close> does under it.
\<close>

subsection \<open>Messages on the queues\<close>

text \<open>A message with its fields and the id of the reply queue, as it lies in a queue.\<close>

definition wire_msg :: "fcall_types \<Rightarrow> u16 \<Rightarrow> field list \<Rightarrow> u32 \<Rightarrow> bytes" where
  "wire_msg ty tag fs q = wire_of ty (type_code ty) tag fs @ le_bytes 4 (unat q)"

definition representable :: "fcall_types \<Rightarrow> field list \<Rightarrow> bool" where
  "representable ty fs \<longleftrightarrow> type_of (type_code ty) = Some ty \<and> (\<exists>f. fields_of ty f = Some fs)"

lemma length_wire_msg: "length (wire_msg ty tag fs q) = length (enc_fields fs) + 11"
  by (simp add: wire_msg_def wire_of_def)

lemma wire_msg_nonempty: "wire_msg ty tag fs q \<noteq> []"
  using length_wire_msg [of ty tag fs q] by auto

lemma fields_of_tag: "fields_of ty (f\<lparr>f_type := c, f_tag := t\<rparr>) = fields_of ty f"
  by (cases ty) (simp_all add: fields_of_def)

lemma representable_wire:
  assumes "representable ty fs"
  obtains f where "fcall_wire f = Some (wire_of ty (type_code ty) tag fs)" "f_type f = type_code ty" "fields_of ty f = Some fs"
    "f_tag f = tag"
proof -
  obtain g where g: "fields_of ty g = Some fs" using assms by (auto simp: representable_def)
  define f where "f = g\<lparr>f_type := type_code ty, f_tag := tag\<rparr>"
  have f: "f_type f = type_code ty" "f_tag f = tag" "fields_of ty f = Some fs"
    using g unfolding f_def fields_of_tag by simp_all
  then have "fcall_wire f = Some (wire_of ty (type_code ty) tag fs)"
    using assms by (simp add: fcall_wire_def representable_def del: type_code.simps)
  then show thesis using f that by blast
qed

text \<open>Whoever finds such a message at the front of a buffer reads its fields, and the lowest byte of the id of the queue.\<close>

lemma parse_wire_msg:
  assumes "representable ty fs" "length (enc_fields fs) \<le> 117" "take (length (enc_fields fs) + 11) buf = wire_msg ty tag fs q"
  shows "\<exists>f. vfs_msg_parse msg0 buf = Some (length (enc_fields fs) + 11, msg0\<lparr>v_fcall := f, v_mq_id := ucast (ucast q :: u8)\<rparr>) \<and>
    f_type f = type_code ty \<and> f_tag f = tag \<and> fields_of ty f = Some fs"
proof -
  define w where "w = wire_of ty (type_code ty) tag fs"
  have w: "length w = length (enc_fields fs) + 7" "length w \<le> 124" using assms(2) by (simp_all add: w_def wire_of_def)
  obtain g where g: "fcall_wire g = Some w" "f_type g = type_code ty" "fields_of ty g = Some fs" "f_tag g = tag"
    using representable_wire [OF assms(1), of tag] by (auto simp: w_def)
  obtain c cs where c: "le_bytes 4 (unat q) = c # cs" "c = of_nat (unat q)" using le_bytes.simps(2) [of 3] by simp
  have "buf = w @ c # cs @ drop (length (enc_fields fs) + 11) buf"
    using append_take_drop_id [of "length (enc_fields fs) + 11" buf] assms(3) by (simp add: wire_msg_def w_def c(1))
  then have "buf = w @ c # (cs @ drop (length (enc_fields fs) + 11) buf)" by simp
  moreover have "ucast c = (ucast (ucast q :: u8) :: u32)" by (simp add: c(2) unsigned_ucast_eq)
  ultimately show ?thesis
    using vfs_msg_parse_eq [OF g(1) w(2), of msg0 c "cs @ drop (length (enc_fields fs) + 11) buf"] g w assms(1)
    by (auto simp: representable_def add.commute)
qed

text \<open>Putting a message into a buffer.\<close>

lemma put_wire_msg:
  assumes "f_type (v_fcall msg) = type_code ty" "type_of (type_code ty) = Some ty" "fields_of ty (v_fcall msg) = Some fs"
    and "length (enc_fields fs) \<le> 117" "length (enc_fields fs) + 11 \<le> length buf"
  shows "\<exists>buf'. vfs_msg_put msg buf = Some (length (enc_fields fs) + 11, buf') \<and> length buf' = length buf \<and>
    take (length (enc_fields fs) + 11) buf' = wire_msg ty (f_tag (v_fcall msg)) fs (v_mq_id msg)"
proof -
  define w where "w = wire_of ty (type_code ty) (f_tag (v_fcall msg)) fs"
  have w: "length w = length (enc_fields fs) + 7" by (simp add: w_def wire_of_def)
  have "fcall_wire (v_fcall msg) = Some w" using assms(1-3) by (simp add: fcall_wire_def w_def)
  from vfs_msg_put_eq [OF this, of buf] show ?thesis
    using assms(4,5) w by (auto simp: wire_msg_def w_def [symmetric] add.commute)
qed

subsection \<open>The contract\<close>

text \<open>Queues with no message.\<close>

definition idle :: "channel list \<Rightarrow> mq_state \<Rightarrow> bool" where
  "idle cs st \<longleftrightarrow> (\<forall>c\<in>set cs. channel_has st c [])"

lemma idle_only_at: "idle cs st \<Longrightarrow> only_at S st st' \<Longrightarrow> \<forall>s\<in>S. s \<notin> ch_slot ` set cs \<Longrightarrow> idle cs st'"
  unfolding idle_def by (blast intro: only_atD)

text \<open>
  When it is the turn of the server, and in its queue \<open>req\<close> is a message of the type \<open>ty\<close> about the file id \<open>fid\<close>, it takes the
  message and puts an answer with the same tag into the queue \<open>rep\<close>. The queues \<open>inner\<close> are those it uses for
  itself; \<open>ok\<close> holds of the server, and \<open>moves\<close> is what a request does to it.
\<close>

locale queue_server =
  fixes turn :: "'r system \<Rightarrow> 'r system option" and req rep :: channel and inner :: "channel list" and ok :: "'r \<Rightarrow> bool"
    and valid :: "'y \<Rightarrow> bool" and ty tyR :: fcall_types and fid :: u32 and flds fldsR :: "'y \<Rightarrow> field list"
    and moves :: "'y \<Rightarrow> 'r \<Rightarrow> 'r \<Rightarrow> bool"
  assumes serve: "ok r \<Longrightarrow> valid y \<Longrightarrow> channel_has st req [wire_msg ty tag (F32 fid # flds y) (ch_id rep)] \<Longrightarrow>
      idle (rep # inner) st \<Longrightarrow>
      \<exists>st' r'. turn (st, r) = Some (st', r') \<and> idle (req # inner) st' \<and> channel_has st' rep [wire_msg tyR tag (fldsR y) (ch_id rep)] \<and>
        only_at (ch_slot ` set (req # rep # inner)) st st' \<and> ok r' \<and> moves y r r'"
    and wires: "valid y \<Longrightarrow> representable ty (F32 k # flds y) \<and> representable tyR (fldsR y) \<and>
      length (enc_fields (flds y)) \<le> 112 \<and> length (enc_fields (fldsR y)) \<le> 117"
    and apart: "ok r \<Longrightarrow> distinct (map ch_slot (req # rep # inner))"
begin

text \<open>A request and its answer, as a task that waits for it sees them.\<close>

lemma exchange:
  assumes "ok r" "valid y" "idle (req # rep # inner) st" "n \<le> length buf" "length buf2 = 128"
    and "take n buf = wire_msg ty tag (F32 fid # flds y) (ch_id rep)" "n = length (enc_fields (flds y)) + 15"
  shows "\<exists>st1 st' r'. task_send (ch_from req) (ch_id req) buf n (Some (st, r)) = (0, Some (st1, r)) \<and>
    task_receive (ch_to rep) turn (ch_id rep) buf2 128 (Some (st1, r)) =
      (int (length (enc_fields (fldsR y)) + 11), wire_msg tyR tag (fldsR y) (ch_id rep) @ drop (length (enc_fields (fldsR y)) + 11) buf2, Some (st', r')) \<and>
    idle (req # rep # inner) st' \<and> only_at (ch_slot ` set (req # rep # inner)) st st' \<and> ok r' \<and> moves y r r'"
proof -
  define m where "m = wire_msg ty tag (F32 fid # flds y) (ch_id rep)"
  define R where "R = wire_msg tyR tag (fldsR y) (ch_id rep)"
  define S where "S = ch_slot ` set (req # rep # inner)"
  note w = wires [OF assms(2), of fid]
  have R: "R \<noteq> [] \<and> length R \<le> 128 \<and> length R \<le> length buf2" "length R = length (enc_fields (fldsR y)) + 11"
    using w assms(5) by (simp_all add: R_def length_wire_msg wire_msg_nonempty)
  have slots: "ch_slot req \<notin> ch_slot ` set (rep # inner)" "ch_slot rep \<notin> ch_slot ` set (req # inner)"
    using apart [OF assms(1)] by auto
  have "channel_has st req []" using assms(3) by (simp add: idle_def)
  moreover have "n \<le> 128" using w assms(7) by simp
  ultimately obtain st1 where st1: "task_send (ch_from req) (ch_id req) buf n (Some (st, r)) = (0, Some (st1, r))"
      "channel_has st1 req [m]" "only_at {ch_slot req} st st1"
    using send_channel [of st req n buf r] assms(4,6) unfolding m_def by auto
  have "idle (rep # inner) st" using assms(3) by (simp add: idle_def)
  then have idle1: "idle (rep # inner) st1" using st1(3) slots(1) by (rule_tac idle_only_at) auto
  have rep0: "channel_has st1 rep []" using idle1 by (simp add: idle_def)
  have "\<exists>st' r'. task_receive_call (ch_to rep) turn (ch_id rep) buf2 128 (st1, r) =
      Some (int (length R), R @ drop (length R) buf2, st', r') \<and> channel_has st' rep [] \<and>
      idle (req # inner) st' \<and> only_at S st st' \<and> ok r' \<and> moves y r r'"
  proof (rule receive_waits [OF rep0 _ R(1), where turn = turn and r = r and P =
      "\<lambda>st2 r'. idle (req # inner) st2 \<and> only_at S st st2 \<and> ok r' \<and> moves y r r'"])
    show "(128 :: nat) \<le> 128" by simp
  next
    fix st2 assume st2: "channel_has st2 rep []" "only_at {ch_slot rep} st1 st2"
    have "channel_has st2 req [m]" using st2(2) st1(2) slots(2) by (auto intro: only_atD)
    moreover have "idle inner st2" using idle1 st2(2) slots(2) by (rule_tac idle_only_at) (auto simp: idle_def)
    then have "idle (rep # inner) st2" using st2(1) by (simp add: idle_def)
    ultimately obtain st3 r' where r': "turn (st2, r) = Some (st3, r')" "idle (req # inner) st3"
        "channel_has st3 rep [R]" "only_at S st2 st3" "ok r'" "moves y r r'"
      using serve [OF assms(1,2), of st2 tag] by (auto simp: m_def R_def S_def)
    have "only_at S st st2" by (rule only_at_trans [OF st1(3) st2(2)]) (simp_all add: S_def)
    then have "only_at S st st3" using r'(4) by (rule only_at_trans) simp_all
    then show "\<exists>st3 r'. turn (st2, r) = Some (st3, r') \<and> channel_has st3 rep [R] \<and>
        idle (req # inner) st3 \<and> only_at S st st3 \<and> ok r' \<and> moves y r r'"
      using r' by blast
  next
    fix st2 st3 r' assume a: "idle (req # inner) st2 \<and> only_at S st st2 \<and> ok r' \<and> moves y r r'" "only_at {ch_slot rep} st2 st3"
    then have "idle (req # inner) st3" using slots(2) by (rule_tac idle_only_at [of _ st2 "{ch_slot rep}"]) simp_all
    moreover have "only_at S st st3" using a by (rule_tac only_at_trans [of S st st2 "{ch_slot rep}"]) (simp_all add: S_def)
    ultimately show "idle (req # inner) st3 \<and> only_at S st st3 \<and> ok r' \<and> moves y r r'"
      using a by simp
  qed
  then have "\<exists>st' r'. task_receive_call (ch_to rep) turn (ch_id rep) buf2 128 (st1, r) =
      Some (int (length R), R @ drop (length R) buf2, st', r') \<and> idle (req # rep # inner) st' \<and> only_at S st st' \<and> ok r' \<and> moves y r r'"
    by (auto simp: idle_def)
  then show ?thesis using st1(1) R(2) by (auto simp: task_receive_def R_def S_def)
qed

text \<open>\<open>vfs_msg_send\<close> with a request gives the fields of the answer.\<close>

lemma vfs_exchange:
  assumes "ok r" "valid y" "idle (req # rep # inner) st" "v_mq_id msg = ch_id rep" "f_type (v_fcall msg) = type_code ty"
    and "fields_of ty (v_fcall msg) = Some (F32 fid # flds y)"
  shows "\<exists>g q buf st' r'. vfs_msg_send (task_send (ch_from req)) (task_receive (ch_to rep) turn) msg
      (replicate VFS_MAX_MSG_LEN 0) (ch_id req) (ch_id rep) (Some (st, r)) =
        Some (length (enc_fields (fldsR y)) + 11, msg\<lparr>v_fcall := g, v_mq_id := q\<rparr>, buf, Some (st', r')) \<and>
    f_type g = type_code tyR \<and> fields_of tyR g = Some (fldsR y) \<and> idle (req # rep # inner) st' \<and> ok r' \<and> moves y r r'"
proof -
  note w = wires [OF assms(2), of fid]
  define n where "n = 15 + length (enc_fields (flds y))"
  define tag where "tag = f_tag (v_fcall msg)"
  let ?buf = "replicate VFS_MAX_MSG_LEN 0"
  have "type_of (type_code ty) = Some ty" using w by (simp add: representable_def)
  moreover have "length (enc_fields (F32 fid # flds y)) \<le> 117" "length (enc_fields (F32 fid # flds y)) + 11 \<le> length ?buf"
    using w by (simp_all add: VFS_MAX_MSG_LEN_def)
  ultimately obtain buf1 where put: "vfs_msg_put msg ?buf = Some (n, buf1)" "length buf1 = 128"
      "take n buf1 = wire_msg ty tag (F32 fid # flds y) (ch_id rep)"
    using put_wire_msg [OF assms(5) _ assms(6), of ?buf] assms(4) by (auto simp: n_def VFS_MAX_MSG_LEN_def tag_def)
  have "n \<le> length buf1" using put(2) w by (simp add: n_def)
  from exchange [OF assms(1-3) this put(2,3)] obtain st1 st' r' where x:
      "task_send (ch_from req) (ch_id req) buf1 n (Some (st, r)) = (0, Some (st1, r))"
      "task_receive (ch_to rep) turn (ch_id rep) buf1 128 (Some (st1, r)) =
        (int (length (enc_fields (fldsR y)) + 11), wire_msg tyR tag (fldsR y) (ch_id rep) @ drop (length (enc_fields (fldsR y)) + 11) buf1, Some (st', r'))"
      "idle (req # rep # inner) st'" "ok r'" "moves y r r'"
    by (auto simp: n_def)
  obtain g where "vfs_msg_parse msg (wire_msg tyR tag (fldsR y) (ch_id rep) @ drop (length (enc_fields (fldsR y)) + 11) buf1) =
      Some (length (enc_fields (fldsR y)) + 11, msg\<lparr>v_fcall := g, v_mq_id := ucast (ucast (ch_id rep) :: u8)\<rparr>)"
      "f_type g = type_code tyR" "fields_of tyR g = Some (fldsR y)"
    using parse_wire_msg [of tyR "fldsR y" "wire_msg tyR tag (fldsR y) (ch_id rep) @ drop (length (enc_fields (fldsR y)) + 11) buf1"
        tag "ch_id rep" msg] w by (auto simp: length_wire_msg)
  moreover have "VFS_MAX_MSG_LEN = 128" by (simp add: VFS_MAX_MSG_LEN_def)
  moreover have "n \<noteq> 0" by (simp add: n_def)
  ultimately show ?thesis using put(1) x unfolding vfs_msg_send_def
    by (intro exI [of _ g] exI [of _ "ucast (ucast (ch_id rep) :: u8)"] exI [of _ st'] exI [of _ r']) simp
qed

end

subsection \<open>A server that answers by itself\<close>

text \<open>A round of a server that handles a message by sending one answer from its buffer.\<close>

lemma simple_server:
  assumes "channel_has st req [m]" "channel_has st rep []" "ch_slot req \<noteq> ch_slot rep" "ch_to req = pid" "ch_from rep = pid"
    and "m \<noteq> []" "length m \<le> 128" "length b = 128" "length R \<le> 128"
    and "\<And>buf w. length buf = 128 \<Longrightarrow> take (length m) buf = m \<Longrightarrow> \<exists>buf1 s1. handle buf s w =
      Some (buf1, s1, snd (task_send pid (ch_id rep) buf1 (length R) w)) \<and> length buf1 = 128 \<and> take (length R) buf1 = R \<and> P s1"
  shows "\<exists>st' s1 b1. server_turn handle pid (ch_id req) VFS_MAX_MSG_LEN (st, s, b, r) = Some (st', s1, b1, r) \<and>
    channel_has st' req [] \<and> channel_has st' rep [R] \<and> only_at {ch_slot req, ch_slot rep} st st' \<and> length b1 = 128 \<and> P s1"
proof -
  from receive_channel [OF assms(1), of 128 b "\<lambda>_. None" r] obtain st1 where
      st1: "task_receive_call pid (\<lambda>_. None) (ch_id req) b 128 (st, r) = Some (int (length m), m @ drop (length m) b, st1, r)"
        "channel_has st1 req []" "only_at {ch_slot req} st st1"
    using assms(4,6-8) by auto
  have "length (m @ drop (length m) b) = 128" using assms(7,8) by simp
  from assms(10) [OF this, of "Some (st1, r)"] obtain buf1 s1 where h: "handle (m @ drop (length m) b) s (Some (st1, r)) =
      Some (buf1, s1, snd (task_send pid (ch_id rep) buf1 (length R) (Some (st1, r))))" "length buf1 = 128"
      "take (length R) buf1 = R" "P s1" by auto
  have "channel_has st1 rep []" using only_atD [OF st1(3) assms(2)] assms(3) by simp
  from send_channel [OF this assms(9), of buf1 r] h(2,3) assms(5,9) obtain st2 where
      st2: "task_send pid (ch_id rep) buf1 (length R) (Some (st1, r)) = (0, Some (st2, r))" "channel_has st2 rep [R]"
        "only_at {ch_slot rep} st1 st2" by auto
  have "server_turn handle pid (ch_id req) VFS_MAX_MSG_LEN (st, s, b, r) = Some (st2, s1, buf1, r)"
    using st1(1) h(1) st2(1) by (simp add: server_turn_def VFS_MAX_MSG_LEN_def)
  moreover have "channel_has st2 req []" using only_atD [OF st2(3) st1(2)] assms(3) by simp
  moreover have "only_at {ch_slot req, ch_slot rep} st st2" by (rule only_at_trans [OF st1(3) st2(3)]) auto
  ultimately show ?thesis using st2(2) h(2,4) by blast
qed

end
