(* ===== verification/Fs_Queue.thy ===== *)
theory Fs_Queue
  imports Queue_Server Vfs_Props
begin

text \<open>
  The file server between the queue of a process and a server of a file: what \<open>vnode_forward\<close> makes of a message, and
  that the file server keeps the contract of \<^theory_text>\<open>Queue_Server\<close> when the server below it does.
\<close>

subsection \<open>Bytes that are replaced\<close>

definition low_set :: "'a::len word \<Rightarrow> u8 \<Rightarrow> 'a word" where
  "low_set v b = (v AND NOT (mask 8)) OR ucast b"

lemma low_set_parts:
  assumes "8 \<le> LENGTH('a::len)"
  shows "(ucast (low_set (v :: 'a word) b) :: u8) = b" "drop_bit 8 (low_set v b) = drop_bit 8 v"
proof -
  show "(ucast (low_set v b) :: u8) = b"
    using assms by (intro bit_word_eqI) (auto simp: low_set_def bit_simps)
  show "drop_bit 8 (low_set v b) = drop_bit 8 v"
  proof (rule bit_word_eqI)
    fix n
    have "\<not> bit b (8 + n)" using bit_imp_le_length [of b "8 + n"] by auto
    then show "bit (drop_bit 8 (low_set v b)) n = bit (drop_bit 8 v) n"
      using bit_imp_le_length [of v "8 + n"] by (auto simp: low_set_def bit_simps)
  qed
qed

lemma low_set_back: "low_set (low_set v b) (ucast v) = v"
  by (rule bit_word_eqI) (auto simp: low_set_def bit_simps dest: bit_imp_le_length)

lemma low_set_byte: "low_set (ucast (a :: u8) :: u32) b = ucast b"
  by (rule bit_word_eqI) (auto simp: low_set_def bit_simps dest: bit_imp_le_length)

lemma byte_of_id: "(ucast (ucast (a :: u8) :: u32) :: u8) = a"
  by (rule bit_word_eqI) (auto simp: bit_simps)

lemma le_bytes_low_set:
  assumes "8 \<le> LENGTH('a::len)"
  shows "le_bytes (Suc n) (unat (low_set (v :: 'a word) b)) = (le_bytes (Suc n) (unat v))[0 := b]"
  unfolding le_bytes_word by (simp add: low_set_parts [OF assms])

lemma enc_low_set: "(enc16 t)[0 := b] = enc16 (low_set t b)" "(enc32 v)[0 := b] = enc32 (low_set v b)"
  "(le_bytes 4 (unat v))[0 := b] = le_bytes 4 (unat (low_set v b))"
  using le_bytes_low_set [of 1 t b] le_bytes_low_set [of 3 v b]
  by (simp_all add: le_bytes_enc16 le_bytes_enc32 numeral_2_eq_2)

lemma wire_msg_replace:
  "(wire_msg ty tag (F32 fid # fs) q)[5 := a, 7 := b, 11 + length (enc_fields fs) := c] =
     wire_msg ty (low_set tag a) (F32 (low_set fid b) # fs) (low_set q c)"
  "(wire_msg ty tag fs q)[5 := a, 7 + length (enc_fields fs) := c] = wire_msg ty (low_set tag a) fs (low_set q c)"
  by (simp_all add: wire_msg_def wire_of_def list_update_append enc_low_set)

lemma wire_msg_at:
  assumes "length (enc_fields fs) \<le> 117"
  shows "unat (wire_msg ty tag fs q ! 0) = 7 + length (enc_fields fs)" "wire_msg ty tag fs q ! 5 = ucast tag"
    "wire_msg ty tag fs q ! (7 + length (enc_fields fs)) = ucast q"
proof -
  let ?n = "7 + length (enc_fields fs)"
  have "unat (ucast (of_nat n :: u32) :: u8) = n" if "n < 256" for n
    using that by (simp add: unsigned_ucast_eq unat_of_nat take_bit_eq_mod)
  moreover have "?n < 256" using assms by simp
  ultimately have "unat (ucast (of_nat ?n :: u32) :: u8) = ?n" by blast
  then show "unat (wire_msg ty tag fs q ! 0) = ?n" by (simp add: wire_msg_def wire_of_def enc32_def del: of_nat_add)
  show "wire_msg ty tag fs q ! 5 = ucast tag" by (simp add: wire_msg_def wire_of_def enc8_def enc16_def enc32_def)
  have "le_bytes 4 (unat q) ! 0 = ucast q" using le_bytes_word [of 3 q] by simp
  then show "wire_msg ty tag fs q ! ?n = ucast q" by (simp add: wire_msg_def wire_of_def nth_append)
qed

subsection \<open>The file server as a task\<close>

text \<open>
  The handler on the queues: the process of the file server has the pid \<open>pid\<close>, and \<open>turn\<close> is what the servers below it do
  while it waits.
\<close>

definition vfs_on_queues ::
    "'r system option vfs_env \<Rightarrow> int \<Rightarrow> ('r system \<Rightarrow> 'r system option) \<Rightarrow> bytes \<Rightarrow> 'r system option vfs_state \<Rightarrow>
     'r system option \<Rightarrow> (bytes \<times> 'r system option vfs_state \<times> 'r system option) option" where
  "vfs_on_queues env pid turn buf s w = map_option (\<lambda>(buf1, s1). (buf1, s1\<lparr>s_world := None\<rparr>, s_world s1))
     (vfs_handle_message (env\<lparr>e_send := task_send pid, e_receive := task_receive pid turn\<rparr>) (s\<lparr>s_world := w\<rparr>) buf)"

definition vfs_turn ::
    "'r system option vfs_env \<Rightarrow> int \<Rightarrow> u32 \<Rightarrow> ('r system \<Rightarrow> 'r system option) \<Rightarrow>
     ('r system option vfs_state \<times> bytes \<times> 'r) system \<Rightarrow> ('r system option vfs_state \<times> bytes \<times> 'r) system option" where
  "vfs_turn env pid mq_in turn = server_turn (vfs_on_queues env pid turn) pid mq_in VFS_MAX_MSG_LEN"

text \<open>
  The client with the queue \<open>q\<close> has under the file id \<open>fid0\<close> a node that is served over the queue \<open>req\<close>; the file server
  gets its answers on \<open>rep\<close>, and the server below sees the file id \<open>fid\<close>.
\<close>

definition file_at :: "'w vfs_state \<Rightarrow> u32 \<Rightarrow> u32 \<Rightarrow> channel \<Rightarrow> channel \<Rightarrow> u32 \<Rightarrow> bool" where
  "file_at s q fid0 req rep fid \<longleftrightarrow> s_vfs_in s = ch_id rep \<and>
     (\<exists>client v x. vfs_client_get (s_clients s) q = Some client \<and> client \<noteq> 0 \<and>
       vfs_client_fid_get (s_clients s) client fid0 = Some v \<and> v \<noteq> 0 \<and> s_nodes s v = Some x \<and> n_channel_node x = 0 \<and>
       n_mq_id x = ch_id req \<and> n_mq_id x \<noteq> -1 \<and> low_set fid0 (ucast (q_id (n_qid x))) = fid)"

text \<open>The ids of the two reply queues are single bytes, because a message keeps no more of them.\<close>

definition fs_links :: "int \<Rightarrow> channel \<Rightarrow> channel \<Rightarrow> channel \<Rightarrow> channel \<Rightarrow> channel list \<Rightarrow> bool" where
  "fs_links pid vq aq req rep inner \<longleftrightarrow> distinct (map ch_slot (vq # aq # req # rep # inner)) \<and>
     ch_to vq = pid \<and> ch_from aq = pid \<and> ch_from req = pid \<and> ch_to rep = pid \<and> ch_id aq < 0x100 \<and> ch_id rep < 0x100"

definition fs_ok ::
    "int \<Rightarrow> channel \<Rightarrow> channel \<Rightarrow> channel \<Rightarrow> channel \<Rightarrow> channel list \<Rightarrow> fcall_types \<Rightarrow> u32 \<Rightarrow> u32 \<Rightarrow> ('r \<Rightarrow> bool) \<Rightarrow>
     'w vfs_state \<times> bytes \<times> 'r \<Rightarrow> bool" where
  "fs_ok pid vq aq req rep inner ty fid0 fid ok s \<longleftrightarrow> fs_links pid vq aq req rep inner \<and> (ty = Tread \<or> ty = Twrite) \<and>
     fid0 \<noteq> NOFID \<and> file_at (fst s) (ch_id aq) fid0 req rep fid \<and> length (fst (snd s)) = 128 \<and> ok (snd (snd s))"

lemma small_id: "v < 0x100 \<Longrightarrow> v = ucast (ucast v :: u8)" for v :: u32
proof -
  assume "v < 0x100"
  then have "unat v < 256" by (simp add: word_less_nat_alt)
  moreover have "unat (ucast (ucast v :: u8) :: u32) = unat v mod 256"
    by (simp add: unsigned_ucast_eq take_bit_eq_mod unat_mod_distrib)
  ultimately show ?thesis by (simp add: word_unat_eq_iff)
qed

subsection \<open>Passing a message on\<close>

context queue_server
begin

text \<open>
  \<open>vnode_forward\<close> with a request that came from another task, over the queue with the id \<open>q\<close>: the answer of the server below,
  with the tag and the queue id of the request. The file id that the server sees is that of the request with its lowest
  byte replaced.
\<close>

lemma forward_wire:
  assumes "s_nodes s v = Some x" "n_channel_node x = 0" "n_mq_id x = ch_id req" "s_vfs_in s = ch_id rep"
    and "low_set fid0 (ucast (q_id (n_qid x))) = fid" "ch_id rep = ucast (c :: u8)" "q = ucast (d :: u8)"
    and "s_world s = Some (st, r)" "ok r" "valid y" "idle (req # rep # inner) st" "length buf = 128"
    and "take (length (enc_fields (flds y)) + 15) buf = wire_msg ty tag (F32 fid0 # flds y) q"
    and "e_send env = task_send (ch_from req)" "e_receive env = task_receive (ch_to rep) turn"
  shows "\<exists>buf' st' r'. vnode_forward env s v buf =
      Some (VFS_OK, buf', s\<lparr>s_tag_count := s_tag_count s + 1, s_world := Some (st', r')\<rparr>) \<and> length buf' = 128 \<and>
    take (length (enc_fields (fldsR y)) + 11) buf' = wire_msg tyR tag (fldsR y) q \<and>
    idle (req # rep # inner) st' \<and> only_at (ch_slot ` set (req # rep # inner)) st st' \<and> ok r' \<and> moves y r r'"
proof -
  note w = wires [OF assms(10), of fid]
  define n where "n = 11 + length (enc_fields (flds y))"
  define k where "k = 7 + length (enc_fields (fldsR y))"
  define N where "N = n + 4"
  have len: "n \<le> 123" "k \<le> 124" using w by (simp_all add: n_def k_def)
  have buf: "take N buf = wire_msg ty tag (F32 fid0 # flds y) q" using assms(13) by (simp add: N_def n_def add.commute)
  have fs: "length (enc_fields (F32 fid0 # flds y)) \<le> 117" "n = 7 + length (enc_fields (F32 fid0 # flds y))"
    using w by (simp_all add: n_def)
  have at: "buf ! i = wire_msg ty tag (F32 fid0 # flds y) q ! i" if "i < N" for i
    using that buf nth_take [of i N buf] by simp
  have b: "unat (buf ! 0) = n" "buf ! 5 = ucast tag" "buf ! n = ucast q"
    using wire_msg_at [OF fs(1), of ty tag q] at [of 0] at [of 5] at [of n] fs(2) by (simp_all add: N_def n_def)
  obtain old_tag where tag1: "rd_le 2 buf 5 = Some old_tag" "(of_nat old_tag :: u8) = ucast tag"
    using rd_le_low [of 5 2 buf] assms(12) b(2) by auto
  obtain old_mq where mq: "rd_le 4 buf n = Some old_mq" "(of_nat old_mq :: u8) = ucast q"
    using rd_le_low [of n 4 buf] assms(12) b(3) len(1) by auto
  text \<open>What is sent.\<close>
  define t where "t = (ucast (s_tag_count s) :: u8)"
  define out where "out = buf[5 := t, 7 := ucast (q_id (n_qid x)), n := ucast (ch_id rep)]"
  have "low_set q (ucast (ch_id rep)) = ch_id rep" using assms(6,7) by (simp add: low_set_byte byte_of_id)
  then have "take N out = wire_msg ty (low_set tag t) (F32 fid # flds y) (ch_id rep)"
    using wire_msg_replace(1) [of ty tag fid0 "flds y" q t "ucast (q_id (n_qid x))" "ucast (ch_id rep)"] assms(5)
    by (simp add: out_def take_update_swap buf n_def)
  moreover have "N \<le> length out" "length out = 128" "N = length (enc_fields (flds y)) + 15"
    using len assms(12) by (simp_all add: out_def N_def n_def)
  ultimately obtain st1 st' r' where x: "task_send (ch_from req) (ch_id req) out N (Some (st, r)) = (0, Some (st1, r))"
      "task_receive (ch_to rep) turn (ch_id rep) out 128 (Some (st1, r)) =
        (int (length (enc_fields (fldsR y)) + 11), wire_msg tyR (low_set tag t) (fldsR y) (ch_id rep) @
          drop (length (enc_fields (fldsR y)) + 11) out, Some (st', r'))"
      "idle (req # rep # inner) st'" "only_at (ch_slot ` set (req # rep # inner)) st st'" "ok r'" "moves y r r'"
    using exchange [OF assms(9-11)] by blast
  text \<open>What comes back.\<close>
  define inp where "inp = wire_msg tyR (low_set tag t) (fldsR y) (ch_id rep) @ drop (length (enc_fields (fldsR y)) + 11) out"
  have inp: "length inp = 128" "take (length (enc_fields (fldsR y)) + 11) inp = wire_msg tyR (low_set tag t) (fldsR y) (ch_id rep)"
    using len(2) assms(12) by (simp_all add: inp_def length_wire_msg out_def k_def)
  have size: "unat (inp ! 0) = k"
    using wire_msg_at(1) [of "fldsR y" tyR "low_set tag t" "ch_id rep"] w by (simp add: inp_def nth_append length_wire_msg k_def)
  define buf' where "buf' = inp[5 := ucast tag, k := ucast q]"
  have "low_set (ch_id rep) (ucast q) = q" using assms(6,7) by (simp add: low_set_byte byte_of_id)
  then have "take (length (enc_fields (fldsR y)) + 11) buf' = wire_msg tyR tag (fldsR y) q"
    using wire_msg_replace(2) [of tyR "low_set tag t" "fldsR y" "ch_id rep" "ucast tag" "ucast q"]
    by (simp add: buf'_def take_update_swap inp(2) k_def low_set_back)
  moreover have "vnode_forward env s v buf = Some (VFS_OK, buf', s\<lparr>s_tag_count := s_tag_count s + 1, s_world := Some (st', r')\<rparr>)"
  proof -
    have recv: "e_receive env (ch_id rep) out 128 (Some (st1, r)) = (int (length (enc_fields (fldsR y)) + 11), inp, Some (st', r'))"
      "e_send env (ch_id req) out N (Some (st, r)) = (0, Some (st1, r))"
      using x(1,2) by (simp_all add: inp_def assms(14,15))
    have idx: "5 < length buf" "7 < length buf" "n < length buf" "5 < length inp" "k < length inp" "0 < length buf" "0 < length inp"
      using len assms(12) inp(1) by simp_all
    have k5: "5 < k" by (simp add: k_def)
    show ?thesis
      using assms(1-4,8) tag1 mq b(1) size idx recv k5
      by (simp add: vnode_forward_def layout_simps rd_at_def wr_at_def next_tag_def Let_def out_def N_def t_def buf'_def)
  qed
  ultimately show ?thesis using x(3-6) inp(1) by (intro exI [of _ buf']) (auto simp: buf'_def)
qed

text \<open>The whole round of the file server.\<close>

lemma file_server_serves:
  assumes "fs_ok pid vq aq req rep inner ty fid0 fid ok s" "valid y"
    and "channel_has st vq [wire_msg ty tag (F32 fid0 # flds y) (ch_id aq)]" "idle (aq # req # rep # inner) st"
  shows "\<exists>st' s'. vfs_turn env pid (ch_id vq) turn (st, s) = Some (st', s') \<and> idle (vq # req # rep # inner) st' \<and>
    channel_has st' aq [wire_msg tyR tag (fldsR y) (ch_id aq)] \<and>
    only_at (ch_slot ` set (vq # aq # req # rep # inner)) st st' \<and> fs_ok pid vq aq req rep inner ty fid0 fid ok s' \<and>
    moves y (snd (snd s)) (snd (snd s'))"
proof -
  obtain vs b r where s: "s = (vs, b, r)" by (cases s)
  note w = wires [OF assms(2), of fid0]
  define q where "q = ch_id aq"
  have ok: "fs_links pid vq aq req rep inner" "ty = Tread \<or> ty = Twrite" "fid0 \<noteq> NOFID" "file_at vs q fid0 req rep fid"
      "length b = 128" "ok r"
    using assms(1) by (auto simp: fs_ok_def s q_def)
  have slots: "distinct (map ch_slot (vq # aq # req # rep # inner))" "ch_to vq = pid" "ch_from aq = pid" "ch_from req = pid" "ch_to rep = pid"
      and ids: "q = ucast (ucast q :: u8)" "ch_id rep = ucast (ucast (ch_id rep) :: u8)"
    using ok(1) small_id by (auto simp: fs_links_def q_def)
  obtain client v x where at: "vfs_client_get (s_clients vs) q = Some client" "client \<noteq> 0"
      "vfs_client_fid_get (s_clients vs) client fid0 = Some v" "v \<noteq> 0" "s_nodes vs v = Some x" "n_channel_node x = 0"
      "n_mq_id x = ch_id req" "n_mq_id x \<noteq> -1" "low_set fid0 (ucast (q_id (n_qid x))) = fid" "s_vfs_in vs = ch_id rep"
    using ok(4) by (auto simp: file_at_def)
  define fs where "fs = F32 fid0 # flds y"
  define m where "m = wire_msg ty tag fs q"
  define n where "n = length (enc_fields fs) + 11"
  define k where "k = length (enc_fields (fldsR y)) + 11"
  have len: "n \<le> 127" "length m = n" "k \<le> 128" "length (enc_fields fs) \<le> 117" "n = length (enc_fields (flds y)) + 15"
    using w by (simp_all add: n_def k_def m_def length_wire_msg fs_def)
  text \<open>The message comes in.\<close>
  have "channel_has st vq [m]" using assms(3) by (simp add: m_def fs_def q_def)
  from receive_channel [OF this, of 128 b "\<lambda>_. None" r] len ok(5) obtain st1 where
      st1: "task_receive_call pid (\<lambda>_. None) (ch_id vq) b 128 (st, r) = Some (int n, m @ drop n b, st1, r)"
        "channel_has st1 vq []" "only_at {ch_slot vq} st st1"
    by (auto simp: slots(2) n_def)
  define buf where "buf = m @ drop n b"
  have buf: "length buf = 128" "take n buf = m" using len ok(5) by (simp_all add: buf_def)
  define vs1 where "vs1 = vs\<lparr>s_world := Some (st1, r)\<rparr>"
  define env1 where "env1 = env\<lparr>e_send := task_send pid, e_receive := task_receive pid turn\<rparr>"
  obtain f where f: "vfs_msg_parse (e_stack env1) buf = Some (n, (e_stack env1)\<lparr>v_fcall := f, v_mq_id := q\<rparr>)"
      "f_type f = type_code ty" "fields_of ty f = Some fs"
    using parse_wire_msg [of ty fs buf tag q "e_stack env1"] w len(4) buf(2) ids(1) by (auto simp: n_def m_def fs_def)
  define msg where "msg = (e_stack env1)\<lparr>v_fcall := f, v_mq_id := q\<rparr>"
  have fid0: "f_fid f = fid0" using f(3) ok(2) by (auto simp: fields_of_def fs_def)
  text \<open>It is passed on.\<close>
  have "idle (req # rep # inner) st1"
    using assms(4) st1(3) slots(1) by (rule_tac idle_only_at [of _ st "{ch_slot vq}"]) (auto simp: idle_def)
  from forward_wire [of vs1 v x fid0 "ucast (ch_id rep)" q "ucast q" st1 r y buf tag env1, OF _ at(6,7) _ at(9) ids(2,1) _ ok(6) assms(2) this buf(1)]
  obtain buf1 st2 r' where fw: "vnode_forward env1 vs1 v buf =
        Some (VFS_OK, buf1, vs1\<lparr>s_tag_count := s_tag_count vs1 + 1, s_world := Some (st2, r')\<rparr>)" "length buf1 = 128"
      "take k buf1 = wire_msg tyR tag (fldsR y) q" "idle (req # rep # inner) st2"
      "only_at (ch_slot ` set (req # rep # inner)) st1 st2" "ok r'" "moves y r r'"
    using at(5,10) buf(2) len(5) by (auto simp: vs1_def env1_def m_def fs_def k_def slots(4,5))
  define vs2 where "vs2 = vs1\<lparr>s_tag_count := s_tag_count vs1 + 1, s_world := Some (st2, r')\<rparr>"
  obtain g where g: "vfs_msg_parse msg buf1 = Some (k, msg\<lparr>v_fcall := g, v_mq_id := q\<rparr>)"
    using parse_wire_msg [of tyR "fldsR y" buf1 tag q msg] w fw(3) ids(1) by (auto simp: k_def)
  have fwd: "forward env1 vs1 msg buf v = Some (k, buf1, q, vs2)"
    using fw(1) g by (simp add: forward_def vs2_def)
  have "f_fid (v_fcall msg) = fid0" "v_mq_id msg = q" "s_clients vs1 = s_clients vs" "s_nodes vs1 = s_nodes vs"
    by (simp_all add: msg_def fid0 vs1_def)
  moreover have "type_of (f_type (v_fcall msg)) = Some ty" using f(2) w by (simp add: msg_def representable_def del: type_code.simps)
  ultimately have dispatch: "vfs_dispatch env1 vs1 msg buf = Some (k, buf1, q, vs2)"
    using ok(2,3) at(1-5,8) fwd
    by (auto simp: vfs_dispatch_def vfs_read_def vfs_write_def with_client_def with_node_def)
  text \<open>The answer goes to the client.\<close>
  have "channel_has st1 aq []" using assms(4) st1(3) slots(1) by (auto simp: idle_def intro: only_atD)
  then have "channel_has st2 aq []" using fw(5) slots(1) by (auto intro: only_atD)
  from send_channel [OF this len(3), of buf1 r'] len(3) fw(2,3) obtain st3 where
      st3: "task_send pid q buf1 k (Some (st2, r')) = (0, Some (st3, r'))"
        "channel_has st3 aq [wire_msg tyR tag (fldsR y) q]" "only_at {ch_slot aq} st2 st3"
    by (auto simp: slots(3) q_def)
  have "k \<noteq> 0" "n \<noteq> 0" by (simp_all add: k_def n_def)
  then have handled: "vfs_handle_message env1 vs1 buf = Some (buf1, vs2\<lparr>s_world := Some (st3, r')\<rparr>)"
    using f(1) dispatch st3(1) by (simp add: vfs_handle_message_def msg_def [symmetric] vs2_def) (simp add: env1_def)
  define vs3 where "vs3 = vs\<lparr>s_tag_count := s_tag_count vs + 1, s_world := None\<rparr>"
  have "vfs_turn env pid (ch_id vq) turn (st, s) = Some (st3, vs3, buf1, r')"
    using st1(1) handled
    by (simp add: vfs_turn_def server_turn_def s VFS_MAX_MSG_LEN_def vfs_on_queues_def buf_def [symmetric] vs1_def [symmetric]
        env1_def [symmetric] vs3_def) (simp add: vs2_def vs1_def)
  moreover have "fs_ok pid vq aq req rep inner ty fid0 fid ok (vs3, buf1, r')"
    using assms(1) fw(2,6) by (simp add: fs_ok_def s vs3_def file_at_def)
  moreover have "idle (vq # req # rep # inner) st3"
  proof -
    have "channel_has st2 vq []" using only_atD [OF fw(5) st1(2)] slots(1) by auto
    then have "channel_has st3 vq []" using only_atD [OF st3(3)] slots(1) by auto
    moreover have "idle (req # rep # inner) st3" using idle_only_at [OF fw(4) st3(3)] slots(1) by auto
    ultimately show ?thesis by (simp add: idle_def)
  qed
  moreover have "only_at (ch_slot ` set (vq # aq # req # rep # inner)) st st3"
  proof (rule only_at_trans [OF only_at_trans [OF st1(3) fw(5)] st3(3)])
    show "{ch_slot vq} \<subseteq> ch_slot ` set (vq # req # rep # inner)" "ch_slot ` set (req # rep # inner) \<subseteq> ch_slot ` set (vq # req # rep # inner)"
      by auto
  qed auto
  ultimately show ?thesis using st3(2) fw(7) by (auto simp: s q_def)
qed

end

text \<open>The file server keeps the contract that the server below it keeps.\<close>

locale queue_fs = queue_server turn req rep inner ok valid ty tyR fid flds fldsR moves
  for turn :: "'r system \<Rightarrow> 'r system option" and req rep :: channel and inner :: "channel list" and ok :: "'r \<Rightarrow> bool"
    and valid :: "'y \<Rightarrow> bool" and ty tyR :: fcall_types and fid :: u32 and flds fldsR :: "'y \<Rightarrow> field list"
    and moves :: "'y \<Rightarrow> 'r \<Rightarrow> 'r \<Rightarrow> bool" +
  fixes env :: "'r system option vfs_env" and pid :: int and vq aq :: channel and fid0 :: u32

sublocale queue_fs < up: queue_server "vfs_turn env pid (ch_id vq) turn" vq aq "req # rep # inner"
    "fs_ok pid vq aq req rep inner ty fid0 fid ok" valid ty tyR fid0 flds fldsR "\<lambda>y s s'. moves y (snd (snd s)) (snd (snd s'))"
proof
  fix s :: "'r system option vfs_state \<times> bytes \<times> 'r" and y st tag
  assume "fs_ok pid vq aq req rep inner ty fid0 fid ok s" "valid y"
    and "channel_has st vq [wire_msg ty tag (F32 fid0 # flds y) (ch_id aq)]" "idle (aq # req # rep # inner) st"
  then show "\<exists>st' s'. vfs_turn env pid (ch_id vq) turn (st, s) = Some (st', s') \<and> idle (vq # req # rep # inner) st' \<and>
      channel_has st' aq [wire_msg tyR tag (fldsR y) (ch_id aq)] \<and>
      only_at (ch_slot ` set (vq # aq # req # rep # inner)) st st' \<and> fs_ok pid vq aq req rep inner ty fid0 fid ok s' \<and>
      moves y (snd (snd s)) (snd (snd s'))"
    by (rule file_server_serves)
next
  fix y k assume "valid y"
  then show "representable ty (F32 k # flds y) \<and> representable tyR (fldsR y) \<and> length (enc_fields (flds y)) \<le> 112 \<and>
      length (enc_fields (fldsR y)) \<le> 117" by (rule wires)
next
  fix s :: "'r system option vfs_state \<times> bytes \<times> 'r"
  assume "fs_ok pid vq aq req rep inner ty fid0 fid ok s"
  then show "distinct (map ch_slot (vq # aq # req # rep # inner))" by (simp add: fs_ok_def fs_links_def)
qed

end
