(* ===== verification/Stdio_Rd.thy ===== *)
theory Stdio_Rd
  imports Stdio_Read Fs_Queue
begin

text \<open>
  A process that reads a file of the RAM disk: the stream functions of the process, the file server and the server of the
  disk, each a task of its own, with the message queues of the kernel between them.
\<close>

subsection \<open>The tasks and their queues\<close>

text \<open>
  The queue the process sends to, the one it gets its answers on, and the two between the file server and the server of
  the file. The pids of the tasks are those of the two ends of the queues.
\<close>

record route =
  rt_ask :: channel
  rt_answer :: channel
  rt_down :: channel
  rt_up :: channel

text \<open>The server of the disk: the loop of its main function.\<close>

definition rd_turn :: "rd_env \<Rightarrow> vfs_msg \<Rightarrow> int \<Rightarrow> u32 \<Rightarrow> (clients \<times> bytes \<times> unit) system \<Rightarrow> (clients \<times> bytes \<times> unit) system option" where
  "rd_turn renv msg0 pid mq_in = server_turn (\<lambda>buf h w. rd_handle_message (task_send pid) renv h msg0 buf w) pid mq_in VFS_MAX_MSG_LEN"

text \<open>The system calls of the process on the queues; the others are those of \<open>pe\<close>.\<close>

definition queue_calls :: "'r system option io_env \<Rightarrow> int \<Rightarrow> ('r system \<Rightarrow> 'r system option) \<Rightarrow> 'r system option io_env" where
  "queue_calls pe pid turn = pe\<lparr>i_send := task_send pid, i_receive := task_receive pid turn\<rparr>"

type_synonym 'r fs_system = "('r system option vfs_state \<times> bytes \<times> 'r) system"

definition fs_process ::
    "'r fs_system option io_env \<Rightarrow> 'r system option vfs_env \<Rightarrow> ('r system \<Rightarrow> 'r system option) \<Rightarrow> route \<Rightarrow> 'r fs_system option io_env" where
  "fs_process pe ve turn rt = queue_calls pe (ch_from (rt_ask rt)) (vfs_turn ve (ch_to (rt_ask rt)) (ch_id (rt_ask rt)) turn)"

definition rd_process ::
    "(clients \<times> bytes \<times> unit) fs_system option io_env \<Rightarrow> (clients \<times> bytes \<times> unit) system option vfs_env \<Rightarrow> rd_env \<Rightarrow> vfs_msg \<Rightarrow> route \<Rightarrow>
     (clients \<times> bytes \<times> unit) fs_system option io_env" where
  "rd_process pe ve renv msg0 rt = fs_process pe ve (rd_turn renv msg0 (ch_to (rt_down rt)) (ch_id (rt_down rt))) rt"

subsection \<open>The server of the disk keeps the contract\<close>

definition read_request :: "u32 \<Rightarrow> u32 \<Rightarrow> vfs_msg" where
  "read_request fid q = \<lparr>v_fcall = blank_fcall\<lparr>f_fid := fid\<rparr>, v_mq_id = q\<rparr>"

text \<open>The server holds under the file id \<open>fid\<close> of the client with the queue \<open>up\<close> a file of the disk with the contents \<open>content\<close>.\<close>

definition rd_ok :: "rd_env \<Rightarrow> channel \<Rightarrow> channel \<Rightarrow> u32 \<Rightarrow> bytes \<Rightarrow> clients \<times> bytes \<times> unit \<Rightarrow> bool" where
  "rd_ok renv down up fid content s \<longleftrightarrow> length (fst (snd s)) = 128 \<and> length content < 0x100000000 \<and>
     ch_slot down \<noteq> ch_slot up \<and> ch_from up = ch_to down \<and> ch_id up < 0x100 \<and>
     (\<exists>es i nm. env_ok renv es \<and> i < length es \<and> es ! i = (nm, RDT_FILE, content) \<and>
       fid_header (fst s) (read_request fid (ch_id up)) = Some (Inr (tar_pos 0 es i)))"

definition file_slice :: "bytes \<Rightarrow> u64 \<times> u32 \<Rightarrow> bytes" where
  "file_slice content y = take (unat (snd y)) (drop (unat (fst y)) content)"

lemma types_of_read: "type_of (type_code Tread) = Some Tread" "type_of (type_code Rread) = Some Rread"
  by (simp_all add: type_code.simps fcall_type_list_def type_of_def rd_at_def)

lemma read_fields:
  "representable Tread [F32 k, F64 offset, F32 count]"
  "length bs \<le> 100 \<Longrightarrow> representable Rread [F32 (of_nat (length bs)), FRaw bs]"
proof -
  have "fields_of Tread (blank_fcall\<lparr>f_fid := k, f_offset := offset, f_count := count\<rparr>) = Some [F32 k, F64 offset, F32 count]"
    by (simp add: fields_of_def)
  then show "representable Tread [F32 k, F64 offset, F32 count]" unfolding representable_def using types_of_read(1) by blast
  assume "length bs \<le> 100"
  then have "fields_of Rread (blank_fcall\<lparr>f_count := of_nat (length bs), f_data := bs\<rparr>) = Some [F32 (of_nat (length bs)), FRaw bs]"
    by (simp add: fields_of_def unat_of_nat rd_bytes_def)
  then show "representable Rread [F32 (of_nat (length bs)), FRaw bs]" unfolding representable_def using types_of_read(2) by blast
qed

lemma rd_handles_read:
  assumes "rd_ok renv down up fid content (h, b, ())" "unat (fst y) \<le> length content" "unat (snd y) \<le> 100"
    and "length buf = 128" "take 27 buf = wire_msg Tread tag [F32 fid, F64 (fst y), F32 (snd y)] (ch_id up)"
  shows "\<exists>buf1. rd_handle_message send_q renv h msg0 buf w =
      Some (buf1, h, snd (send_q (ch_id up) buf1 (length (file_slice content y) + 15) w)) \<and> length buf1 = 128 \<and>
    take (length (file_slice content y) + 15) buf1 =
      wire_msg Rread tag [F32 (of_nat (length (file_slice content y))), FRaw (file_slice content y)] (ch_id up)"
proof -
  obtain es i nm where es: "env_ok renv es" "i < length es" "es ! i = (nm, RDT_FILE, content)"
      "fid_header h (read_request fid (ch_id up)) = Some (Inr (tar_pos 0 es i))"
    and c: "length content < 4294967296" and id8: "ch_id up < 0x100"
    using assms(1) by (auto simp: rd_ok_def)
  define bs where "bs = file_slice content y"
  have bs: "length bs \<le> 100" "bs = take (unat (snd y)) (drop (unat (fst y)) content)"
    using assms(3) by (simp_all add: bs_def file_slice_def)
  obtain f where f: "vfs_msg_parse msg0 buf = Some (27, msg0\<lparr>v_fcall := f, v_mq_id := ch_id up\<rparr>)" "f_type f = type_code Tread"
      "f_tag f = tag" "fields_of Tread f = Some [F32 fid, F64 (fst y), F32 (snd y)]"
    using parse_wire_msg [OF read_fields(1), of fid "fst y" "snd y" buf tag "ch_id up" msg0] assms(5) small_id [OF id8] by auto
  define msg where "msg = msg0\<lparr>v_fcall := f, v_mq_id := ch_id up\<rparr>"
  have m: "f_fid (v_fcall msg) = fid" "f_offset (v_fcall msg) = fst y" "f_count (v_fcall msg) = snd y" "f_tag (v_fcall msg) = tag"
      "v_mq_id msg = ch_id up"
    using f(3,4) by (simp_all add: msg_def fields_of_def)
  have "fid_header h msg = Some (Inr (tar_pos 0 es i))"
    using es(4) m by (simp add: fid_header_def read_request_def cong: if_cong)
  from rd_read_put [OF es(1-3) this _ c] assms(2,3) m obtain dat where
      dat: "rd_read renv h msg buf = vfs_msg_put (msg\<lparr>v_fcall := (v_fcall msg)\<lparr>f_type := type_code Rread,
        f_count := of_nat (length bs), f_data := dat\<rparr>\<rparr>) buf" "rd_bytes dat 0 (length bs) = Some bs"
    by (auto simp: bs(2) Let_def)
  define msg1 where "msg1 = msg\<lparr>v_fcall := (v_fcall msg)\<lparr>f_type := type_code Rread, f_count := of_nat (length bs), f_data := dat\<rparr>\<rparr>"
  have "fields_of Rread (v_fcall msg1) = Some [F32 (of_nat (length bs)), FRaw bs]"
    using dat(2) bs(1) by (simp add: msg1_def fields_of_def unat_of_nat)
  from put_wire_msg [OF _ types_of_read(2) this, of buf] obtain buf1 where buf1:
      "vfs_msg_put msg1 buf = Some (length bs + 15, buf1)" "length buf1 = 128"
      "take (length bs + 15) buf1 = wire_msg Rread tag [F32 (of_nat (length bs)), FRaw bs] (ch_id up)"
    using bs(1) assms(4) m by (auto simp: msg1_def add.commute [of 15])
  have "rd_handle_message send_q renv h msg0 buf w = Some (buf1, h, snd (send_q (ch_id up) buf1 (length bs + 15) w))"
    using f(1,2) dat(1) buf1(1) types_of_read(1)
    by (simp add: rd_handle_message_def msg_def [symmetric] msg1_def [symmetric] m del: type_code.simps)
      (simp add: msg_def with_clients_def del: type_code.simps)
  then show ?thesis using buf1(2,3) by (auto simp: bs_def)
qed

interpretation rdq: queue_fs "rd_turn renv msg0 (ch_to down) (ch_id down)" down up "[]" "rd_ok renv down up fid content"
    "\<lambda>y. unat (fst y) \<le> length content \<and> unat (snd y) \<le> 100" Tread Rread fid "\<lambda>y. [F64 (fst y), F32 (snd y)]"
    "\<lambda>y. [F32 (of_nat (length (file_slice content y))), FRaw (file_slice content y)]" "\<lambda>y r r'. True" ve pid vq aq fid0
  for renv msg0 down up fid content ve pid vq aq fid0
proof
  fix r and y :: "u64 \<times> u32" and st tag
  assume r: "rd_ok renv down up fid content r" and y: "unat (fst y) \<le> length content \<and> unat (snd y) \<le> 100"
    and m: "channel_has st down [wire_msg Tread tag (F32 fid # [F64 (fst y), F32 (snd y)]) (ch_id up)]" and i: "idle (up # []) st"
  obtain h b where hb: "r = (h, b, ())" by (cases r) auto
  define bs where "bs = file_slice content y"
  have bs: "length bs \<le> 100" using y by (auto simp: bs_def file_slice_def)
  have ok: "ch_slot down \<noteq> ch_slot up" "ch_from up = ch_to down" "length b = 128" using r by (auto simp: rd_ok_def hb)
  have keep: "rd_ok renv down up fid content (h, b1, ())" if "length b1 = 128" for b1
    using r that by (simp add: rd_ok_def hb)
  have "\<exists>st' s1 b1. rd_turn renv msg0 (ch_to down) (ch_id down) (st, h, b, ()) = Some (st', s1, b1, ()) \<and> channel_has st' down [] \<and>
      channel_has st' up [wire_msg Rread tag [F32 (of_nat (length bs)), FRaw bs] (ch_id up)] \<and>
      only_at {ch_slot down, ch_slot up} st st' \<and> length b1 = 128 \<and> s1 = h"
    unfolding rd_turn_def
  proof (rule simple_server [OF m _ ok(1) refl ok(2) wire_msg_nonempty])
    show "channel_has st up []" using i by (simp add: idle_def)
    show "length b = 128" by (rule ok(3))
  next
    fix buf w assume "length buf = 128" "take (length (wire_msg Tread tag (F32 fid # [F64 (fst y), F32 (snd y)]) (ch_id up))) buf =
        wire_msg Tread tag (F32 fid # [F64 (fst y), F32 (snd y)]) (ch_id up)"
    with rd_handles_read [OF r [unfolded hb] conjunct1 [OF y] conjunct2 [OF y], of buf tag "task_send (ch_to down)" msg0 w]
    show "\<exists>buf1 s1. rd_handle_message (task_send (ch_to down)) renv h msg0 buf w = Some (buf1, s1, snd (task_send (ch_to down) (ch_id up) buf1
        (length (wire_msg Rread tag [F32 (of_nat (length bs)), FRaw bs] (ch_id up))) w)) \<and> length buf1 = 128 \<and>
        take (length (wire_msg Rread tag [F32 (of_nat (length bs)), FRaw bs] (ch_id up))) buf1 =
          wire_msg Rread tag [F32 (of_nat (length bs)), FRaw bs] (ch_id up) \<and> s1 = h"
      by (auto simp: length_wire_msg bs_def add.commute)
  qed (use bs in \<open>simp_all add: length_wire_msg\<close>)
  then show "\<exists>st' r'. rd_turn renv msg0 (ch_to down) (ch_id down) (st, r) = Some (st', r') \<and> idle (down # []) st' \<and>
      channel_has st' up [wire_msg Rread tag [F32 (of_nat (length (file_slice content y))), FRaw (file_slice content y)] (ch_id up)] \<and>
      only_at (ch_slot ` set (down # up # [])) st st' \<and> rd_ok renv down up fid content r' \<and> True"
    using keep by (auto simp: hb bs_def idle_def)
next
  fix y :: "u64 \<times> u32" and k assume y: "unat (fst y) \<le> length content \<and> unat (snd y) \<le> 100"
  then have "length (file_slice content y) \<le> 100" by (auto simp: file_slice_def)
  then show "representable Tread (F32 k # [F64 (fst y), F32 (snd y)]) \<and>
      representable Rread [F32 (of_nat (length (file_slice content y))), FRaw (file_slice content y)] \<and>
      length (enc_fields [F64 (fst y), F32 (snd y)]) \<le> 112 \<and>
      length (enc_fields [F32 (of_nat (length (file_slice content y))), FRaw (file_slice content y)]) \<le> 117"
    using read_fields by simp
next
  fix r assume "rd_ok renv down up fid content r"
  then show "distinct (map ch_slot (down # up # []))" by (simp add: rd_ok_def)
qed

subsection \<open>The process\<close>

text \<open>
  The process, with room for the buffer of a stream, may go on: its file id \<open>fid\<close> leads through the file server to a file of the
  disk with the contents \<open>content\<close>, and no message is under way.
\<close>

definition rd_world ::
    "(clients \<times> bytes \<times> unit) fs_system option io_env \<Rightarrow> rd_env \<Rightarrow> route \<Rightarrow> u32 \<Rightarrow> bytes \<Rightarrow>
     (clients \<times> bytes \<times> unit) fs_system option \<Rightarrow> bool" where
  "rd_world pe renv rt fid content w \<longleftrightarrow> length content < 0x100000000 \<and>
     (\<exists>obj. i_malloc pe BUFSIZ = Some obj \<and> length obj = BUFSIZ) \<and> ch_to (rt_answer rt) = ch_from (rt_ask rt) \<and>
     (\<exists>st s below. w = Some (st, s) \<and> idle [rt_ask rt, rt_answer rt, rt_down rt, rt_up rt] st \<and>
       fs_ok (ch_to (rt_ask rt)) (rt_ask rt) (rt_answer rt) (rt_down rt) (rt_up rt) [] Tread fid below
         (rd_ok renv (rt_down rt) (rt_up rt) below content) s)"

interpretation rd: read_service "rd_process pe ve renv msg0 rt" "ch_id (rt_answer rt)" "ch_id (rt_ask rt)"
    "rd_world pe renv rt fid content" fid content
  for pe ve renv msg0 rt fid content
proof
  fix w msg and offset :: u64 and count :: u32
  assume w: "rd_world pe renv rt fid content w" and m: "asks (ch_id (rt_answer rt)) fid msg offset count"
    and y: "unat offset \<le> length content" "unat count \<le> 100"
  let ?pid = "ch_to (rt_ask rt)"
  obtain st s below where st: "w = Some (st, s)" "idle (rt_ask rt # rt_answer rt # [rt_down rt, rt_up rt]) st"
      "fs_ok ?pid (rt_ask rt) (rt_answer rt) (rt_down rt) (rt_up rt) [] Tread fid below (rd_ok renv (rt_down rt) (rt_up rt) below content) s"
      "ch_to (rt_answer rt) = ch_from (rt_ask rt)"
    using w by (auto simp: rd_world_def)
  have f: "v_mq_id msg = ch_id (rt_answer rt)" "f_type (v_fcall msg) = type_code Tread"
      "fields_of Tread (v_fcall msg) = Some (F32 fid # [F64 (fst (offset, count)), F32 (snd (offset, count))])"
    using m by (simp_all add: asks_def fields_of_def)
  have y': "unat (fst (offset, count)) \<le> length content \<and> unat (snd (offset, count)) \<le> 100" using y by simp
  from rdq.up.vfs_exchange [OF st(3) y' st(2) f, of ve msg0]
  obtain g q buf st' s' where x: "vfs_msg_send (i_send (rd_process pe ve renv msg0 rt)) (i_receive (rd_process pe ve renv msg0 rt)) msg
      (replicate VFS_MAX_MSG_LEN 0) (ch_id (rt_ask rt)) (ch_id (rt_answer rt)) w =
        Some (length (enc_fields [F32 (of_nat (length (file_slice content (offset, count)))), FRaw (file_slice content (offset, count))]) + 11,
          msg\<lparr>v_fcall := g, v_mq_id := q\<rparr>, buf, Some (st', s'))"
      "f_type g = type_code Rread" "fields_of Rread g = Some [F32 (of_nat (length (file_slice content (offset, count)))), FRaw (file_slice content (offset, count))]"
      "idle (rt_ask rt # rt_answer rt # [rt_down rt, rt_up rt]) st'"
      "fs_ok ?pid (rt_ask rt) (rt_answer rt) (rt_down rt) (rt_up rt) [] Tread fid below (rd_ok renv (rt_down rt) (rt_up rt) below content) s'"
    unfolding rd_process_def fs_process_def queue_calls_def st(1) by (auto simp: st(4))
  have bs: "file_slice content (offset, count) = take (unat count) (drop (unat offset) content)" by (simp add: file_slice_def)
  then have len: "unat (of_nat (length (file_slice content (offset, count))) :: u32) = length (file_slice content (offset, count))"
    using y(2) by (simp add: unat_of_nat)
  have "f_count g = of_nat (length (file_slice content (offset, count)))"
      "rd_bytes (f_data g) 0 (unat (f_count g)) = Some (file_slice content (offset, count))"
    using x(3) by (auto simp: fields_of_def)
  then have "answers (msg\<lparr>v_fcall := g, v_mq_id := q\<rparr>) (take (unat count) (drop (unat offset) content))"
    using x(2) len by (simp add: answers_def is_type_def bs)
  moreover have "rd_world pe renv rt fid content (Some (st', s'))" using w x(4,5) by (auto simp: rd_world_def)
  ultimately show "\<exists>len msg' buf w'. vfs_msg_send (i_send (rd_process pe ve renv msg0 rt)) (i_receive (rd_process pe ve renv msg0 rt)) msg
      (replicate VFS_MAX_MSG_LEN 0) (ch_id (rt_ask rt)) (ch_id (rt_answer rt)) w = Some (len, msg', buf, w') \<and> len \<noteq> 0 \<and>
      answers msg' (take (unat count) (drop (unat offset) content)) \<and> rd_world pe renv rt fid content w'"
    using x(1) by (intro exI conjI) (assumption | simp)+
next
  fix w
  assume "rd_world pe renv rt fid content w"
  then show "length content < 0x100000000" "\<exists>obj. i_malloc (rd_process pe ve renv msg0 rt) BUFSIZ = Some obj \<and> length obj = BUFSIZ"
    by (auto simp: rd_world_def rd_process_def fs_process_def queue_calls_def)
qed


subsection \<open>Three tasks\<close>

text \<open>The process 1, the file server 2 and the server 3 with four queues between them.\<close>

definition test_queue :: "int \<Rightarrow> int \<Rightarrow> int \<Rightarrow> mqueue" where
  "test_queue n sender receiver = \<lparr>q_id = n, q_open = True, q_hash = of_int n,
     q_subs = \<lparr>sub_pid = receiver, sub_flags = O_RDONLY\<rparr> # \<lparr>sub_pid = sender, sub_flags = O_WRONLY\<rparr> #
       replicate 6 \<lparr>sub_pid = 0, sub_flags = 0\<rparr>,
     q_attr = \<lparr>mq_flags = 0, mq_maxmsg = 8, mq_msgsize = 128, mq_curmsg = 0\<rparr>, q_head = -1, q_tail = -1,
     q_messages = replicate 8 \<lparr>msg_size = 0, msg_data = replicate 128 0\<rparr>\<rparr>"

definition test_queues :: mq_state where
  "test_queues = \<lparr>open_queues = [test_queue 1 1 2, test_queue 2 2 1, test_queue 3 2 3, test_queue 4 3 2] @ replicate 28 mq_boot_slot,
     mqueue_count = 4\<rparr>"

definition test_route :: route where
  "test_route = \<lparr>rt_ask = \<lparr>ch_id = 1, ch_slot = 0, ch_from = 1, ch_to = 2, ch_at = 0\<rparr>,
     rt_answer = \<lparr>ch_id = 2, ch_slot = 1, ch_from = 2, ch_to = 1, ch_at = 0\<rparr>,
     rt_down = \<lparr>ch_id = 3, ch_slot = 2, ch_from = 2, ch_to = 3, ch_at = 0\<rparr>,
     rt_up = \<lparr>ch_id = 4, ch_slot = 3, ch_from = 3, ch_to = 2, ch_at = 0\<rparr>\<rparr>"

lemma test_queue_has:
  assumes "s \<noteq> r" "0 < s" "0 < r"
  shows "queue_has \<lparr>ch_id = k, ch_slot = i, ch_from = s, ch_to = r, ch_at = 0\<rparr> (test_queue n s r) []"
  using assms
  by (simp add: queue_has_def test_queue_def mq_wf_def attr_wf_def mq_cap_def mq_first_def mq_count_def mq_ring_def mq_contents_def
      mq_find_subscriber_def layout_simps)

lemma test_idle: "idle [rt_ask test_route, rt_answer test_route, rt_down test_route, rt_up test_route] test_queues"
  using test_queue_has [of 1 2] test_queue_has [of 2 1] test_queue_has [of 2 3] test_queue_has [of 3 2]
  by (simp add: idle_def test_route_def channel_has_def mq_find_def test_queues_def) (simp add: test_queue_def)

text \<open>A client with one file id.\<close>

definition holder :: "u32 \<Rightarrow> u64 \<Rightarrow> clients" where
  "holder q obj = \<lparr>cl_pairs = [16 \<mapsto> \<lparr>fp_fid = 1, fp_obj = obj, fp_next = 0\<rparr>],
     cl_clients = [8 \<mapsto> \<lparr>vc_mq_id = q, vc_fids = 16, vc_prev = 0, vc_next = 0\<rparr>], cl_first = 8, cl_fresh = []\<rparr>"

lemma holder_get: "vfs_client_get (holder q obj) q = Some 8" "vfs_client_fid_get (holder q obj) 8 1 = Some obj"
  by (simp_all add: vfs_client_get_def vfs_client_fid_get_def holder_def client_find.simps fid_find.simps)

text \<open>The file server has one node, which is served by the server 3 under the file id 1.\<close>

definition test_node :: vnode where
  "test_node = \<lparr>n_name = None, n_qid = \<lparr>q_type = 0, q_version = 0, q_id = 1\<rparr>, n_children = 0, n_mount_node = 0,
     n_channel_node = 0, n_children_no = 0, n_mq_id = 3\<rparr>"

definition test_fs :: "'w option vfs_state" where
  "test_fs = \<lparr>s_nodes = [100 \<mapsto> test_node], s_raw = \<lambda>a. test_node, s_fresh = [], s_live = [], s_vfs_in = 4, s_id_count = 2,
     s_tag_count = 0, s_clients = holder 2 100, s_world = None\<rparr>"

definition test_fs_env :: "'w option vfs_env" where
  "test_fs_env = \<lparr>e_root = 100, e_str = \<lambda>n. None, e_realloc = \<lambda>p n m. (0, m), e_open = \<lambda>name. -1,
     e_send = \<lambda>q b n w. (-1, w), e_receive = \<lambda>q b n w. (-1, b, w), e_stack = attach_msg\<rparr>"

definition test_calls :: "'w option io_env" where
  "test_calls = \<lparr>i_open = \<lambda>name w. (-1, w), i_send = \<lambda>q b n w. (-1, w), i_receive = \<lambda>q b n w. (-1, b, w),
     i_close = \<lambda>q w. w, i_unlink = \<lambda>name w. w, i_malloc = \<lambda>n. Some (replicate n 0), i_pid = VLong 1, i_stack = attach_msg\<rparr>"

lemma test_fs_ok:
  assumes "ok r" "ty = Tread \<or> ty = Twrite"
  shows "fs_ok (ch_to (rt_ask test_route)) (rt_ask test_route) (rt_answer test_route) (rt_down test_route) (rt_up test_route) []
    ty 1 1 ok (test_fs, replicate 128 0, r)"
proof -
  have "low_set 1 (ucast (1 :: u64)) = (1 :: u32)" by (simp add: low_set_def)
  then have "file_at test_fs 2 1 (rt_down test_route) (rt_up test_route) 1"
    by (simp add: file_at_def test_fs_def holder_get test_route_def test_node_def)
  then show ?thesis using assms by (simp add: fs_ok_def fs_links_def test_route_def layout_simps)
qed

text \<open>The process has the file id 1 open; it is the first file of the small disk.\<close>

definition reader :: "(clients \<times> bytes \<times> unit) fs_system option files" where
  "reader = (start_files (Some (test_queues, test_fs, replicate 128 0, holder 4 0x3e000000, replicate 128 0, ())))
     \<lparr>fs_initialised := True, fs_in := 2, fs_vfs := 1, fs_streams := [closed_file\<lparr>fl_fid := 1, fl_flags := F_OPEN OR F_READ\<rparr>]\<rparr>"


end
