(* ===== verification/Device.thy ===== *)
theory Device
  imports Kernel_Io Task
begin

text \<open>
  The devices of the kernel: the serial line, the timer and the interrupts (\<^verbatim>\<open>kernel/arch/aarch64/uart.c\<close>,
  \<^verbatim>\<open>timer.c\<close>, \<^verbatim>\<open>irq.c\<close>). The hardware is an argument: what a read of a register gives, and what a read and a
  write do to the state \<open>'d\<close> of the devices. A delay loop has no effect.
\<close>

record 'd regs =
  reg_get :: "u64 \<Rightarrow> 'd \<Rightarrow> u32 \<times> 'd"
  reg_put :: "u64 \<Rightarrow> u32 \<Rightarrow> 'd \<Rightarrow> 'd"

text \<open>An assignment \<open>*reg = f(*reg)\<close>.\<close>

definition reg_update :: "'d regs \<Rightarrow> u64 \<Rightarrow> (u32 \<Rightarrow> u32) \<Rightarrow> 'd \<Rightarrow> 'd" where
  "reg_update R a f d = (case reg_get R a d of (v, d1) \<Rightarrow> reg_put R a (f v) d1)"

subsection \<open>The serial line of the kernel\<close>

definition GPFSEL1 :: u64 where "GPFSEL1 = MEM_MMIO + 0x200004"
definition GPPUD :: u64 where "GPPUD = MEM_MMIO + 0x200094"
definition GPPUDCLK0 :: u64 where "GPPUDCLK0 = MEM_MMIO + 0x200098"

definition AUX_ENABLES :: u64 where "AUX_ENABLES = MEM_MMIO + 0x00215004"
definition AUX_MU_IO_REG :: u64 where "AUX_MU_IO_REG = MEM_MMIO + 0x00215040"
definition AUX_MU_IER_REG :: u64 where "AUX_MU_IER_REG = MEM_MMIO + 0x00215044"
definition AUX_MU_LCR_REG :: u64 where "AUX_MU_LCR_REG = MEM_MMIO + 0x0021504C"
definition AUX_MU_MCR_REG :: u64 where "AUX_MU_MCR_REG = MEM_MMIO + 0x00215050"
definition AUX_MU_LSR_REG :: u64 where "AUX_MU_LSR_REG = MEM_MMIO + 0x00215054"
definition AUX_MU_CNTL_REG :: u64 where "AUX_MU_CNTL_REG = MEM_MMIO + 0x00215060"
definition AUX_MU_BAUD_REG :: u64 where "AUX_MU_BAUD_REG = MEM_MMIO + 0x00215068"

text \<open>The pins of the line: what is stored in \<open>GPFSEL1\<close> for the value read from it.\<close>

definition uart_pins :: "u32 \<Rightarrow> u32" where
  "uart_pins reg = (((reg AND NOT (push_bit 12 7)) OR push_bit 12 2) AND NOT (push_bit 15 7)) OR push_bit 12 2"

definition uart_init :: "'d regs \<Rightarrow> 'd \<Rightarrow> 'd" where
  "uart_init R d =
     (let d1 = reg_update R GPFSEL1 uart_pins d;
          d2 = reg_put R GPPUD 0 d1;
          d3 = reg_put R GPPUDCLK0 (push_bit 14 1) d2;
          d4 = reg_put R GPPUDCLK0 (push_bit 15 1) d3;
          d5 = reg_put R GPPUDCLK0 0 d4;
          d6 = reg_update R AUX_ENABLES (\<lambda>v. v OR 1) d5;
          d7 = reg_put R AUX_MU_CNTL_REG 0 d6;
          d8 = reg_put R AUX_MU_IER_REG 1 d7;
          d9 = reg_put R AUX_MU_LCR_REG 7 d8;
          d10 = reg_put R AUX_MU_MCR_REG 0 d9;
          d11 = reg_put R AUX_MU_BAUD_REG 270 d10
      in reg_put R AUX_MU_CNTL_REG 3 d11)"

text \<open>\<open>while (!good(*reg))\<close>: the state after the first read of the register that satisfies \<open>good\<close>.\<close>

partial_function (option) wait_for :: "'d regs \<Rightarrow> u64 \<Rightarrow> (u32 \<Rightarrow> bool) \<Rightarrow> 'd \<Rightarrow> 'd option" where
  "wait_for R a good d = (case reg_get R a d of (v, d1) \<Rightarrow> if good v then Some d1 else wait_for R a good d1)"

definition uart_write_char :: "'d regs \<Rightarrow> u8 \<Rightarrow> 'd \<Rightarrow> (nat \<times> 'd) option" where
  "uart_write_char R c d = do {
     d1 \<leftarrow> wait_for R AUX_MU_LSR_REG (\<lambda>v. v AND 0x20 \<noteq> 0) d;
     Some (0, reg_put R AUX_MU_IO_REG (ucast c) d1) }"

text \<open>\<open>io_write\<close> on the registers.\<close>

fun uart_write_all :: "'d regs \<Rightarrow> bytes \<Rightarrow> 'd \<Rightarrow> 'd option" where
  "uart_write_all R [] d = Some d"
| "uart_write_all R (c # cs) d = do { (r, d1) \<leftarrow> uart_write_char R c d; uart_write_all R cs d1 }"

subsection \<open>The timer\<close>

definition IRQ_PENDING_1 :: u64 where "IRQ_PENDING_1 = MEM_MMIO + 0x0000B204"
definition IRQ_ENABLE_1 :: u64 where "IRQ_ENABLE_1 = MEM_MMIO + 0x0000B210"
definition IRQ_SYSTEM_TIMER_1 :: u32 where "IRQ_SYSTEM_TIMER_1 = 2"
definition TIMER_CS :: u64 where "TIMER_CS = MEM_MMIO + 0x00003000"
definition TIMER_CLO :: u64 where "TIMER_CLO = MEM_MMIO + 0x00003004"
definition TIMER_C1 :: u64 where "TIMER_C1 = MEM_MMIO + 0x00003010"
definition timer_interval :: u32 where "timer_interval = 1000000"

text \<open>The state an interrupt works on; \<open>k_buffer\<close> and \<open>k_uart\<close> are the buffer and the output of \<open>io_fmt\<close>.\<close>

record 'd dev_state =
  k_dev :: 'd
  k_current_value :: u32
  k_sched :: sched
  k_buffer :: bytes
  k_uart :: bytes

definition timer_next :: "'d regs \<Rightarrow> 'd dev_state \<Rightarrow> 'd dev_state" where
  "timer_next R k = (case reg_get R TIMER_CLO (k_dev k) of (clo, d1) \<Rightarrow>
     k\<lparr>k_current_value := clo + timer_interval, k_dev := reg_put R TIMER_C1 (clo + timer_interval) d1\<rparr>)"

definition timer_init :: "'d regs \<Rightarrow> 'd dev_state \<Rightarrow> 'd dev_state" where
  "timer_init R k = timer_next R (k\<lparr>k_dev := reg_update R IRQ_ENABLE_1 (\<lambda>v. v OR IRQ_SYSTEM_TIMER_1) (k_dev k)\<rparr>)"

text \<open>The first result is the switch that \<open>task_tick\<close> makes.\<close>

definition timer_irq_handle :: "'d regs \<Rightarrow> 'd dev_state \<Rightarrow> ((u64 \<times> u64) option \<times> 'd dev_state) option" where
  "timer_irq_handle R k =
     (let k1 = timer_next R (k\<lparr>k_dev := reg_update R TIMER_CS (\<lambda>v. v AND 2) (k_dev k)\<rparr>)
      in map_option (\<lambda>(sw, st). (sw, k1\<lparr>k_sched := st\<rparr>)) (task_tick (k_sched k1)))"

subsection \<open>Interrupts\<close>

text \<open>
  The loop of \<open>irq_handle\<close>. A switch by the handler of the timer leaves the loop in the middle; what is left of it
  then runs when the task is resumed, and only looks at \<open>irq\<close>.
\<close>

partial_function (option) irq_loop ::
    "'d regs \<Rightarrow> u32 \<Rightarrow> (u64 \<times> u64) option \<Rightarrow> 'd dev_state \<Rightarrow> ((u64 \<times> u64) option \<times> 'd dev_state) option" where
  "irq_loop R irq sw k =
     (if irq = 0 then Some (sw, k)
      else if irq = IRQ_SYSTEM_TIMER_1 then do {
        (sw1, k1) \<leftarrow> timer_irq_handle R k;
        irq_loop R (irq AND NOT IRQ_SYSTEM_TIMER_1) sw1 k1 }
      else do {
        (r, buffer, uart) \<leftarrow> io_fmt (ascii ''Unknown pending irq: %x'' @ [0x0a, 0]) [VInt irq] (k_buffer k) (k_uart k);
        irq_loop R irq sw (k\<lparr>k_buffer := buffer, k_uart := uart\<rparr>) })"

definition irq_handle :: "'d regs \<Rightarrow> 'd dev_state \<Rightarrow> ((u64 \<times> u64) option \<times> 'd dev_state) option" where
  "irq_handle R k = (case reg_get R IRQ_PENDING_1 (k_dev k) of (irq, d) \<Rightarrow> irq_loop R irq None (k\<lparr>k_dev := d\<rparr>))"

subsection \<open>What the devices do\<close>

text \<open>
  A line that is ready at every look, with the bytes sent on it: reading its status has no effect on them and a
  store into the data register sends the lowest byte.
\<close>

definition line_ready :: "'d regs \<Rightarrow> u64 \<Rightarrow> u32 \<Rightarrow> u64 \<Rightarrow> ('d \<Rightarrow> bytes) \<Rightarrow> bool" where
  "line_ready R status bits data sent \<longleftrightarrow>
     (\<forall>d. fst (reg_get R status d) AND bits \<noteq> 0 \<and> sent (snd (reg_get R status d)) = sent d) \<and>
     (\<forall>v d. sent (reg_put R data v d) = sent d @ [ucast v])"

lemma wait_ready:
  assumes "line_ready R status bits data sent"
  shows "\<exists>d'. wait_for R status (\<lambda>v. v AND bits \<noteq> 0) d = Some d' \<and> sent d' = sent d"
proof -
  obtain v d1 where v: "reg_get R status d = (v, d1)" by (cases "reg_get R status d")
  then have "v AND bits \<noteq> 0" "sent d1 = sent d" using assms by (auto simp: line_ready_def dest: spec [of _ d])
  then show ?thesis using v by (subst wait_for.simps) simp
qed

lemma uart_write_all_sent:
  assumes "line_ready R AUX_MU_LSR_REG 0x20 AUX_MU_IO_REG sent"
  shows "\<exists>d'. uart_write_all R cs d = Some d' \<and> sent d' = sent d @ cs"
proof (induction cs arbitrary: d)
  case (Cons c cs)
  obtain d1 where d1: "wait_for R AUX_MU_LSR_REG (\<lambda>v. v AND 0x20 \<noteq> 0) d = Some d1" "sent d1 = sent d"
    using wait_ready [OF assms] by blast
  define d2 where "d2 = reg_put R AUX_MU_IO_REG (ucast c) d1"
  have "ucast (ucast c :: u32) = c" by (rule bit_word_eqI) (auto simp: bit_simps)
  then have "sent d2 = sent d @ [c]" using assms d1(2) by (simp add: line_ready_def d2_def)
  then show ?case using Cons.IH [of d2] d1(1) by (auto simp: uart_write_char_def d2_def)
qed simp

text \<open>The code sets the first pin twice and not the second one, which is left as an input.\<close>

lemma uart_pins_input: "take_bit 3 (drop_bit 15 (uart_pins v)) = 0"
proof (rule bit_word_eqI)
  fix n :: nat
  assume "n < LENGTH(32)"
  have "bit (push_bit 15 7 :: u32) (15 + n)" if "n < 3"
  proof -
    consider "n = 0" | "n = 1" | "n = 2" using \<open>n < 3\<close> by linarith
    then show ?thesis by cases simp_all
  qed
  moreover have "\<not> bit (push_bit 12 2 :: u32) (15 + n)" if "n < 3"
  proof -
    consider "n = 0" | "n = 1" | "n = 2" using \<open>n < 3\<close> by linarith
    then show ?thesis by cases simp_all
  qed
  ultimately show "bit (take_bit 3 (drop_bit 15 (uart_pins v))) n = bit 0 n"
    by (auto simp: bit_take_bit_iff bit_drop_bit_eq uart_pins_def bit_or_iff bit_and_iff bit_not_iff simp del: push_bit_numeral)
qed

text \<open>Only the timer alone is ever taken out of the pending interrupts.\<close>

lemma irq_loop_ends: "irq_loop R irq sw k = Some r \<Longrightarrow> irq = 0 \<or> irq = IRQ_SYSTEM_TIMER_1"
proof -
  assume run: "irq_loop R irq sw k = Some r"
  show ?thesis
  proof (rule irq_loop.raw_induct [where P = "\<lambda>R irq sw k r. irq = 0 \<or> irq = IRQ_SYSTEM_TIMER_1", OF _ run])
    fix f :: "'a regs \<Rightarrow> u32 \<Rightarrow> (u64 \<times> u64) option \<Rightarrow> 'a dev_state \<Rightarrow> ((u64 \<times> u64) option \<times> 'a dev_state) option" and R irq sw k r
    assume ih: "\<And>R irq sw k r. f R irq sw k = Some r \<Longrightarrow> irq = 0 \<or> irq = IRQ_SYSTEM_TIMER_1" and
      run: "(if irq = 0 then Some (sw, k)
        else if irq = IRQ_SYSTEM_TIMER_1 then do { (sw1, k1) \<leftarrow> timer_irq_handle R k; f R (irq AND NOT IRQ_SYSTEM_TIMER_1) sw1 k1 }
        else do {
          (r, buffer, uart) \<leftarrow> io_fmt (ascii ''Unknown pending irq: %x'' @ [0x0a, 0]) [VInt irq] (k_buffer k) (k_uart k);
          f R irq sw (k\<lparr>k_buffer := buffer, k_uart := uart\<rparr>) }) = Some r"
    show "irq = 0 \<or> irq = IRQ_SYSTEM_TIMER_1"
    proof (rule ccontr)
      assume other: "\<not> ?thesis"
      then have "f R irq sw k' = None" for k' using ih [of R irq sw k'] by (cases "f R irq sw k'") auto
      then show False using run other by (auto split: bind_splits)
    qed
  qed
qed

text \<open>
  C33. Handling an interrupt ends in two cases only: when nothing is pending, without an effect, and when the
  timer alone is, with its handler. Any other interrupt, also one that is pending together with the timer, is
  reported over and over without an end.
\<close>

theorem irq_handle_returns:
  "irq_handle R k = (case reg_get R IRQ_PENDING_1 (k_dev k) of (irq, d) \<Rightarrow>
     if irq = 0 then Some (None, k\<lparr>k_dev := d\<rparr>)
     else if irq = IRQ_SYSTEM_TIMER_1 then timer_irq_handle R (k\<lparr>k_dev := d\<rparr>)
     else None)"
proof -
  obtain irq d where irq: "reg_get R IRQ_PENDING_1 (k_dev k) = (irq, d)" by (cases "reg_get R IRQ_PENDING_1 (k_dev k)")
  let ?k = "k\<lparr>k_dev := d\<rparr>"
  have "irq_loop R 0 sw k' = Some (sw, k')" for sw k' by (subst irq_loop.simps) simp
  then have "irq_loop R IRQ_SYSTEM_TIMER_1 None ?k = timer_irq_handle R ?k" "irq_loop R 0 None ?k = Some (None, ?k)"
    by (subst irq_loop.simps, auto simp: IRQ_SYSTEM_TIMER_1_def split: bind_splits prod.splits)
  moreover have "irq \<noteq> 0 \<Longrightarrow> irq \<noteq> IRQ_SYSTEM_TIMER_1 \<Longrightarrow> irq_loop R irq None ?k = None"
    using irq_loop_ends [of R irq None ?k] by (cases "irq_loop R irq None ?k") auto
  ultimately show ?thesis by (simp add: irq_handle_def irq)
qed

end
