(* ===== verification/Serial.thy ===== *)
theory Serial
  imports Device Rd_Server
begin

text \<open>
  The servers of the serial lines (\<^verbatim>\<open>modules/pl011\<close>, \<^verbatim>\<open>modules/uart\<close>): the access to the device and the message
  handlers, which are the same in both but for the functions they call. The addresses of the registers of the
  second device come from a header that is not part of the repository; they are arguments.
\<close>

subsection \<open>The PL011 device\<close>

definition MMIO_BASE :: u64 where [layout_simps]: "MMIO_BASE = 0x3F000000"
definition GPFSEL3 :: u64 where "GPFSEL3 = MMIO_BASE + 0x0020000C"
definition PL011_GPPUD :: u64 where "PL011_GPPUD = MMIO_BASE + 0x00200094"
definition GPPUDCLK1 :: u64 where "GPPUDCLK1 = MMIO_BASE + 0x0020009C"
definition PL011_DR :: u64 where "PL011_DR = MMIO_BASE + 0x00201000"
definition PL011_FR :: u64 where "PL011_FR = MMIO_BASE + 0x00201018"
definition PL011_IBRD :: u64 where "PL011_IBRD = MMIO_BASE + 0x00201024"
definition PL011_FBRD :: u64 where "PL011_FBRD = MMIO_BASE + 0x00201028"
definition PL011_LCRH :: u64 where "PL011_LCRH = MMIO_BASE + 0x0020102c"
definition PL011_CR :: u64 where "PL011_CR = MMIO_BASE + 0x00201030"

definition DR_FE :: u32 where "DR_FE = 0x100"
definition DR_PE :: u32 where "DR_PE = 0x200"
definition DR_BE :: u32 where "DR_BE = 0x400"
definition DR_OE :: u32 where "DR_OE = 0x800"
definition FR_RXFE :: u32 where "FR_RXFE = 0x10"
definition FR_TXFF :: u32 where "FR_TXFF = 0x20"

definition pl011_init :: "'d regs \<Rightarrow> 'd \<Rightarrow> 'd option" where
  "pl011_init R d = do {
     let d1 = reg_update R GPFSEL3 (\<lambda>v. (v AND NOT (push_bit 18 7 OR push_bit 21 7)) OR (push_bit 18 6 OR push_bit 21 6)) d;
     let d2 = reg_put R PL011_GPPUD 0 d1;
     let d3 = reg_put R GPPUDCLK1 (push_bit 5 1 OR push_bit 6 1) d2;
     let d4 = reg_put R GPPUDCLK1 0 d3;
     let d5 = reg_update R PL011_CR (\<lambda>v. v OR 0) d4;
     d6 \<leftarrow> wait_for R PL011_DR (\<lambda>v. v AND DR_OE = 0) d5;
     let d7 = reg_update R PL011_LCRH (\<lambda>v. v OR NOT (push_bit 4 1)) d6;
     let d8 = reg_put R PL011_IBRD 2 d7;
     let d9 = reg_put R PL011_FBRD 0xb d8;
     let d10 = reg_update R PL011_LCRH (\<lambda>v. v OR push_bit 5 3) d9;
     Some (reg_update R PL011_CR (\<lambda>v. v OR (1 OR push_bit 8 3)) d10) }"

text \<open>\<open>while (timeout--) if (P(*reg)) break\<close>\<close>

fun poll :: "'d regs \<Rightarrow> u64 \<Rightarrow> (u32 \<Rightarrow> bool) \<Rightarrow> nat \<Rightarrow> 'd \<Rightarrow> 'd" where
  "poll R a P 0 d = d"
| "poll R a P (Suc n) d = (case reg_get R a d of (v, d1) \<Rightarrow> if P v then d1 else poll R a P n d1)"

partial_function (option) pl011_read_loop :: "'d regs \<Rightarrow> bytes \<Rightarrow> nat \<Rightarrow> nat \<Rightarrow> 'd \<Rightarrow> (nat \<times> bytes \<times> 'd) option" where
  "pl011_read_loop R data i n d = (case reg_get R PL011_FR d of (fr, d1) \<Rightarrow>
     if fr AND FR_RXFE \<noteq> 0 then Some (i, data, d1)
     else if i = n then Some (i, data, d1)
     else (case reg_get R PL011_DR d1 of (c, d2) \<Rightarrow>
       if c AND (DR_FE AND DR_PE AND DR_BE AND DR_OE) \<noteq> 0 then Some (i, data, d2)
       else do {
         data1 \<leftarrow> wr_at data i (ucast c);
         pl011_read_loop R data1 (i + 1) n d2 }))"

definition pl011_read :: "'d regs \<Rightarrow> bytes \<Rightarrow> nat \<Rightarrow> 'd \<Rightarrow> (nat \<times> bytes \<times> 'd) option" where
  "pl011_read R data n d = pl011_read_loop R data 0 n (poll R PL011_FR (\<lambda>v. v AND FR_RXFE = 0) 15000 d)"

text \<open>Storing bytes into a data register, each after the status register allows it.\<close>

fun line_write :: "'d regs \<Rightarrow> u64 \<Rightarrow> (u32 \<Rightarrow> bool) \<Rightarrow> u64 \<Rightarrow> bytes \<Rightarrow> 'd \<Rightarrow> 'd option" where
  "line_write R status P dr [] d = Some d"
| "line_write R status P dr (c # cs) d = do {
     d1 \<leftarrow> wait_for R status P d;
     line_write R status P dr cs (reg_put R dr (ucast c) d1) }"

text \<open>The last loop waits for received data.\<close>

definition pl011_write :: "'d regs \<Rightarrow> bytes \<Rightarrow> nat \<Rightarrow> 'd \<Rightarrow> (nat \<times> 'd) option" where
  "pl011_write R data n d = do {
     bs \<leftarrow> rd_bytes data 0 n;
     d1 \<leftarrow> line_write R PL011_FR (\<lambda>v. v AND FR_TXFF = 0) PL011_DR bs d;
     d2 \<leftarrow> wait_for R PL011_FR (\<lambda>v. v AND FR_RXFE = 0) d1;
     Some (n, d2) }"

subsection \<open>The mini UART device\<close>

partial_function (option) uart_read_loop ::
    "'d regs \<Rightarrow> u64 \<Rightarrow> u64 \<Rightarrow> bytes \<Rightarrow> nat \<Rightarrow> nat \<Rightarrow> 'd \<Rightarrow> (nat \<times> bytes \<times> 'd) option" where
  "uart_read_loop R lsr io data i n d = (case reg_get R lsr d of (v, d1) \<Rightarrow>
     if v AND 0x01 = 0 then Some (i, data, d1)
     else if i = n then Some (i, data, d1)
     else (case reg_get R io d1 of (w, d2) \<Rightarrow> do {
       let c = (ucast w :: u8);
       data1 \<leftarrow> wr_at data i (if c = 0x0d then 0x0a else c);
       uart_read_loop R lsr io data1 (i + 1) n d2 }))"

definition uart_read :: "'d regs \<Rightarrow> u64 \<Rightarrow> u64 \<Rightarrow> bytes \<Rightarrow> nat \<Rightarrow> 'd \<Rightarrow> (nat \<times> bytes \<times> 'd) option" where
  "uart_read R lsr io data n d = do {
     d1 \<leftarrow> wait_for R lsr (\<lambda>v. v AND 0x01 \<noteq> 0) d;
     uart_read_loop R lsr io data 0 n d1 }"

definition uart_write :: "'d regs \<Rightarrow> u64 \<Rightarrow> u64 \<Rightarrow> bytes \<Rightarrow> nat \<Rightarrow> 'd \<Rightarrow> (nat \<times> 'd) option" where
  "uart_write R lsr io data n d = do {
     bs \<leftarrow> rd_bytes data 0 n;
     d1 \<leftarrow> line_write R lsr (\<lambda>v. v AND 0x20 \<noteq> 0) io bs d;
     Some (n, d1) }"

subsection \<open>The message handlers\<close>

definition EUNKNOWN :: bytes where "EUNKNOWN = fcall_error ''Unknown type''"

definition serial_attach :: "(bytes \<Rightarrow> u32) \<Rightarrow> clients \<Rightarrow> vfs_msg \<Rightarrow> bytes \<Rightarrow> (nat \<times> bytes \<times> clients) option" where
  "serial_attach mq_open h msg buf = (let f = v_fcall msg in do {
     ulen \<leftarrow> pstr_len (f_uname f);
     if ulen = 0 then Some (0, buf, h)
     else do {
       name \<leftarrow> pstrtoz (\<lambda>n. None) (Some (replicate 32 0)) (f_uname f) 32;
       case name of None \<Rightarrow> Some (0, buf, h)
       | Some client_name \<Rightarrow> do {
           (client, h1) \<leftarrow> vfs_client_create mq_open h client_name;
           if client = 0 then Some (0, buf, h1)
           else if f_fid f = NOFID \<or> f_afid f \<noteq> NOFID then with_clients h1 (reply_error EINVALID msg buf)
           else with_clients h1 (vfs_msg_put (msg\<lparr>v_fcall := f\<lparr>f_type := type_code Rattach,
             f_qid := \<lparr>q_type = QTFILE, q_version = 0, q_id = ucast (f_fid f)\<rparr>\<rparr>\<rparr>) buf) } } })"

text \<open>The access to the device is an argument: the buffer, the number of bytes and the device.\<close>

definition serial_read ::
    "(bytes \<Rightarrow> nat \<Rightarrow> 'd \<Rightarrow> (nat \<times> bytes \<times> 'd) option) \<Rightarrow> clients \<Rightarrow> vfs_msg \<Rightarrow> bytes \<Rightarrow> 'd \<Rightarrow> ((nat \<times> bytes) \<times> 'd) option" where
  "serial_read dev_read h msg buf d = (let f = v_fcall msg in do {
     client \<leftarrow> vfs_client_get h (v_mq_id msg);
     if client = 0 then map_option (\<lambda>r. (r, d)) (reply_error ECLIENT msg buf)
     else do {
       (count, dat, d1) \<leftarrow> dev_read (replicate (unat (f_count f)) 0) (unat (f_count f)) d;
       map_option (\<lambda>r. (r, d1))
         (vfs_msg_put (msg\<lparr>v_fcall := f\<lparr>f_type := type_code Rread, f_count := of_nat count, f_data := dat\<rparr>\<rparr>) buf) } })"

definition serial_write ::
    "(bytes \<Rightarrow> nat \<Rightarrow> 'd \<Rightarrow> (nat \<times> 'd) option) \<Rightarrow> clients \<Rightarrow> vfs_msg \<Rightarrow> bytes \<Rightarrow> 'd \<Rightarrow> ((nat \<times> bytes) \<times> 'd) option" where
  "serial_write dev_write h msg buf d = (let f = v_fcall msg in do {
     client \<leftarrow> vfs_client_get h (v_mq_id msg);
     if client = 0 then map_option (\<lambda>r. (r, d)) (reply_error ECLIENT msg buf)
     else do {
       (count, d1) \<leftarrow> dev_write (f_data f) (unat (f_count f)) d;
       map_option (\<lambda>r. (r, d1))
         (vfs_msg_put (msg\<lparr>v_fcall := f\<lparr>f_type := type_code Rwrite, f_count := of_nat count\<rparr>\<rparr>) buf) } })"

definition pl011_handle_message ::
    "(u32 \<Rightarrow> bytes \<Rightarrow> nat \<Rightarrow> 'w \<Rightarrow> int \<times> 'w) \<Rightarrow> (bytes \<Rightarrow> u32) \<Rightarrow> 'd regs \<Rightarrow> clients \<Rightarrow> vfs_msg \<Rightarrow> bytes \<Rightarrow> 'd \<Rightarrow> 'w \<Rightarrow>
     (bytes \<times> clients \<times> 'd \<times> 'w) option" where
  "pl011_handle_message mq_send mq_open R h msg0 buf d w = do {
     (len, msg) \<leftarrow> vfs_msg_parse msg0 buf;
     if len = 0 then Some (buf, h, d, w)
     else do {
       (len, buf1, h1, d1) \<leftarrow> (case type_of (f_type (v_fcall msg)) of
           Some Tattach \<Rightarrow> map_option (\<lambda>(n, b, h1). (n, b, h1, d)) (serial_attach mq_open h msg buf)
         | Some Tread \<Rightarrow> map_option (\<lambda>((n, b), d1). (n, b, h, d1)) (serial_read (pl011_read R) h msg buf d)
         | Some Twrite \<Rightarrow> map_option (\<lambda>((n, b), d1). (n, b, h, d1)) (serial_write (pl011_write R) h msg buf d)
         | _ \<Rightarrow> Some (len, buf, h, d));
       if len = 0 then Some (buf1, h1, d1, w)
       else Some (buf1, h1, d1, snd (mq_send (v_mq_id msg) buf1 len w)) } }"

text \<open>\<open>_attach\<close>, \<open>_read\<close> and \<open>_write\<close> of the second server.\<close>

definition uart_attach :: "(bytes \<Rightarrow> u32) \<Rightarrow> clients \<Rightarrow> vfs_msg \<Rightarrow> bytes \<Rightarrow> (nat \<times> bytes \<times> clients) option" where
  "uart_attach mq_open h msg buf = serial_attach mq_open h msg buf"

definition uart_msg_read ::
    "'d regs \<Rightarrow> u64 \<Rightarrow> u64 \<Rightarrow> clients \<Rightarrow> vfs_msg \<Rightarrow> bytes \<Rightarrow> 'd \<Rightarrow> ((nat \<times> bytes) \<times> 'd) option" where
  "uart_msg_read R lsr io h msg buf d = serial_read (uart_read R lsr io) h msg buf d"

definition uart_msg_write ::
    "'d regs \<Rightarrow> u64 \<Rightarrow> u64 \<Rightarrow> clients \<Rightarrow> vfs_msg \<Rightarrow> bytes \<Rightarrow> 'd \<Rightarrow> ((nat \<times> bytes) \<times> 'd) option" where
  "uart_msg_write R lsr io h msg buf d = serial_write (uart_write R lsr io) h msg buf d"

text \<open>Here a reply is sent whatever its length.\<close>

definition uart_handle_message ::
    "(u32 \<Rightarrow> bytes \<Rightarrow> nat \<Rightarrow> 'w \<Rightarrow> int \<times> 'w) \<Rightarrow> (bytes \<Rightarrow> u32) \<Rightarrow> 'd regs \<Rightarrow> u64 \<Rightarrow> u64 \<Rightarrow> clients \<Rightarrow> vfs_msg \<Rightarrow> bytes \<Rightarrow> 'd \<Rightarrow> 'w \<Rightarrow>
     (bytes \<times> clients \<times> 'd \<times> 'w) option" where
  "uart_handle_message mq_send mq_open R lsr io h msg0 buf d w = do {
     (len, msg) \<leftarrow> vfs_msg_parse msg0 buf;
     if len = 0 then Some (buf, h, d, w)
     else do {
       (len, buf1, h1, d1) \<leftarrow> (case type_of (f_type (v_fcall msg)) of
           Some Tattach \<Rightarrow> map_option (\<lambda>(n, b, h1). (n, b, h1, d)) (uart_attach mq_open h msg buf)
         | Some Tread \<Rightarrow> map_option (\<lambda>((n, b), d1). (n, b, h, d1)) (uart_msg_read R lsr io h msg buf d)
         | Some Twrite \<Rightarrow> map_option (\<lambda>((n, b), d1). (n, b, h, d1)) (uart_msg_write R lsr io h msg buf d)
         | _ \<Rightarrow> map_option (\<lambda>(n, b). (n, b, h, d)) (reply_error EUNKNOWN msg buf));
       Some (buf1, h1, d1, snd (mq_send (v_mq_id msg) buf1 len w)) } }"

end
