(* ===== verification/Stdio_Line.thy ===== *)
theory Stdio_Line
  imports Stdio_Rd Serial
begin

text \<open>
  Writing through a stream to a serial line: the contract of a server that takes write messages, as a locale, what
  \<open>file_write\<close> and \<open>printf\<close> send under it, and the server of the mini UART, a task behind the file server and the queues of
  the kernel, which keeps the contract.
\<close>

text \<open>What the messages of a write of the first \<open>n\<close> bytes of a buffer carry: each starts at the front of the buffer.\<close>

function chunks :: "nat \<Rightarrow> bytes \<Rightarrow> bytes" where
  "chunks n obj = (if n = 0 then [] else take (min n 100) obj @ chunks (n - 100) obj)"
  by pat_completeness auto
termination by (relation "measure fst") auto

declare chunks.simps [simp del]

lemma chunks_short: "n \<le> 100 \<Longrightarrow> chunks n obj = take n obj"
  by (cases "n = 0") (simp_all add: chunks.simps [of n] chunks.simps [of 0])

lemma chunks_cong: "take n a = take n b \<Longrightarrow> chunks n a = chunks n b"
proof (induction n rule: less_induct)
  case (less n)
  show ?case
  proof (cases "n = 0")
    case False
    have "take k a = take k b" if "k \<le> n" for k using less.prems that by (metis min.absorb1 take_take)
    then have "take (min n 100) a = take (min n 100) b" "take (n - 100) a = take (n - 100) b" by simp_all
    with less.IH [of "n - 100"] False show ?thesis by (simp add: chunks.simps [of n])
  qed (simp add: chunks.simps [of 0])
qed

text \<open>A message that asks to write the bytes \<open>bs\<close>.\<close>

definition carries :: "u32 \<Rightarrow> u32 \<Rightarrow> vfs_msg \<Rightarrow> bytes \<Rightarrow> bool" where
  "carries inq fid msg bs \<longleftrightarrow> v_mq_id msg = inq \<and> f_type (v_fcall msg) = type_code Twrite \<and> f_fid (v_fcall msg) = fid \<and>
     unat (f_count (v_fcall msg)) = length bs \<and> rd_bytes (f_data (v_fcall msg)) 0 (length bs) = Some bs"

lemma and_or_nonzero: "x AND a \<noteq> 0 \<Longrightarrow> x AND (a OR b) \<noteq> 0" for x :: u32
  by (metis bit.conj_disj_distrib or_eq_0_iff)

locale write_service = stream_service env inq outq ok for env :: "'w io_env" and inq outq ok +
  fixes fid :: u32 and sent :: "'w \<Rightarrow> bytes"
  assumes accept: "ok w \<Longrightarrow> carries inq fid msg bs \<Longrightarrow> length bs \<le> 100 \<Longrightarrow>
      \<exists>len msg' buf w'. vfs_msg_send (i_send env) (i_receive env) msg (replicate VFS_MAX_MSG_LEN 0) outq inq w =
        Some (len, msg', buf, w') \<and> len \<noteq> 0 \<and> unat (f_count (v_fcall msg')) = length bs \<and> ok w' \<and> sent w' = sent w @ bs"
begin

lemma request_sends:
  assumes "ready fs" "carries inq fid msg bs" "length bs \<le> 100"
  shows "\<exists>len msg' fs'. request env fs msg = Some (len, msg', fs') \<and> len \<noteq> 0 \<and> later fs fs' \<and> ready fs' \<and>
    unat (f_count (v_fcall msg')) = length bs \<and> sent (fs_world fs') = sent (fs_world fs) @ bs"
proof -
  have "ok (fs_world fs)" using assms(1) by (simp add: ready_def)
  from accept [OF this assms(2,3)] obtain len msg' buf w' where w: "vfs_msg_send (i_send env) (i_receive env) msg
      (replicate VFS_MAX_MSG_LEN 0) outq inq (fs_world fs) = Some (len, msg', buf, w')" "len \<noteq> 0"
      "unat (f_count (v_fcall msg')) = length bs" "ok w'" "sent w' = sent (fs_world fs) @ bs"
    by blast
  from request_world [OF assms(1) w(1,4)] w(2,3,5) show ?thesis
    by (intro exI [of _ len] exI [of _ msg'] exI [of _ "fs\<lparr>fs_world := w'\<rparr>"]) simp
qed

lemma write_loop_sends:
  assumes "ready fs" "rd_at (fs_streams fs) s = Some f" "fl_fid f = fid" "fl_buf f = Some obj" "n \<le> length obj" "n < 0x80000000"
  shows "\<exists>fs' offset. write_loop env fs s msg (of_nat n) k = Some (True, k + of_nat n, fs') \<and> ready fs' \<and>
    rd_at (fs_streams fs') s = Some (f\<lparr>fl_offset := offset\<rparr>) \<and> sent (fs_world fs') = sent (fs_world fs) @ chunks n obj"
  using assms
proof (induction n arbitrary: fs f msg k rule: less_induct)
  case (less n)
  show ?case
  proof (cases "n = 0")
    case True
    then show ?thesis
      using less.prems by (subst write_loop.simps) (auto simp: chunks.simps [of 0] intro: exI [of _ "fl_offset f"])
  next
    case False
    define c where "c = min n 100"
    define bs where "bs = take c obj"
    have c: "0 < c" "c \<le> 100" "c \<le> n" "length bs = c" using False less.prems(5) by (auto simp: c_def bs_def)
    have un: "unat (of_nat n :: u32) = n" using less.prems(6) by (simp add: unat_of_nat)
    have pos: "(of_nat n :: u32) > 0" using False un by (simp add: word_less_nat_alt)
    have uc: "unat (of_nat c :: u32) = c" using c(2) by (simp add: unat_of_nat)
    have count: "(if (of_nat n :: u32) > of_nat VFS_MAX_IOUNIT then of_nat VFS_MAX_IOUNIT else of_nat n) = (of_nat c :: u32)"
      by (auto simp: word_less_nat_alt un VFS_MAX_IOUNIT_def c_def)
    define fs1 where "fs1 = fs\<lparr>fs_tag_count := fs_tag_count fs + 1\<rparr>"
    define msg1 where "msg1 = \<lparr>v_fcall = (v_fcall msg)\<lparr>f_type := type_code Twrite, f_tag := fs_tag_count fs, f_fid := fl_fid f,
      f_offset := fl_offset f + ucast k, f_count := of_nat c, f_data := obj\<rparr>, v_mq_id = fs_in fs1\<rparr>"
    have r1: "ready fs1" using less.prems(1) by (simp add: fs1_def ready_tag)
    have "carries inq fid msg1 bs"
      using r1 less.prems(3,5) c uc by (simp add: carries_def msg1_def ready_def rd_bytes_def bs_def)
    from request_sends [OF r1 this] c(2,4) obtain len msg' fs2 where req: "request env fs1 msg1 = Some (len, msg', fs2)" "len \<noteq> 0"
        "later fs1 fs2" "ready fs2" "unat (f_count (v_fcall msg')) = c" "sent (fs_world fs2) = sent (fs_world fs1) @ bs"
      by auto
    have got: "f_count (v_fcall msg') = of_nat c" using req(5) by (metis of_nat_unat_word)
    have streams: "fs_streams fs2 = fs_streams fs" using later_streams [OF req(3)] by (simp add: fs1_def)
    have s: "s < length (fs_streams fs)" using less.prems(2) by (auto simp: rd_at_Some)
    define f2 where "f2 = f\<lparr>fl_offset := fl_offset f + ucast (k + of_nat c)\<rparr>"
    define fs3 where "fs3 = fs2\<lparr>fs_streams := (fs_streams fs)[s := f2]\<rparr>"
    have step: "write_loop env fs s msg (of_nat n) k = write_loop env fs3 s msg' (of_nat n - of_nat c) (k + of_nat c)"
      using less.prems(2,4) pos count req(1,2) got streams s
      by (subst write_loop.simps)
        (simp add: next_file_tag_def Let_def fs1_def [symmetric] msg1_def [symmetric] put_stream_def wr_at_in f2_def fs3_def)
    have r3: "ready fs3" using req(4) by (simp add: fs3_def ready_put)
    have f3: "rd_at (fs_streams fs3) s = Some f2" using s by (simp add: fs3_def rd_at_in)
    have "(of_nat n - of_nat c :: u32) = of_nat (n - c)" using c(3) by simp
    moreover have "n - c < n" using c(1,3) by simp
    moreover have "n - c \<le> length obj" "n - c < 0x80000000" using less.prems(5,6) by simp_all
    ultimately obtain fs' offset where rest: "write_loop env fs3 s msg' (of_nat n - of_nat c) (k + of_nat c) = Some (True, k + of_nat c + of_nat (n - c), fs')"
        "ready fs'" "rd_at (fs_streams fs') s = Some (f2\<lparr>fl_offset := offset\<rparr>)"
        "sent (fs_world fs') = sent (fs_world fs3) @ chunks (n - c) obj"
      using less.IH [OF _ r3 f3, of "n - c" msg' "k + of_nat c"] less.prems(3,4) by (auto simp: f2_def)
    have "sent (fs_world fs3) = sent (fs_world fs) @ bs" using req(6) by (simp add: fs3_def fs1_def)
    moreover have "chunks n obj = bs @ chunks (n - c) obj"
      using False by (subst chunks.simps) (auto simp: bs_def c_def min_def chunks.simps [of 0])
    moreover have "k + of_nat c + of_nat (n - c) = k + of_nat n" using c(3) by simp
    ultimately show ?thesis using step rest by (auto simp: f2_def)
  qed
qed

text \<open>A stream with \<open>p\<close> bytes to write and room for more.\<close>

lemma file_write_sends:
  assumes "ready fs" "rd_at (fs_streams fs) s = Some f" "fl_fid f = fid" "fl_buf f = Some obj" "length obj = BUFSIZ"
    and "fl_flags f AND F_WRITE \<noteq> 0" "fl_w_pos f = Some p" "fl_w_end f = Some BUFSIZ" "p < BUFSIZ"
  shows "\<exists>fs' offset. file_write env fs s = Some (int p, fs') \<and> ready fs' \<and>
    rd_at (fs_streams fs') s = Some (f\<lparr>fl_offset := offset, fl_w_pos := Some 0\<rparr>) \<and>
    sent (fs_world fs') = sent (fs_world fs) @ chunks p obj"
proof -
  have p: "p < 512" using assms(9) by (simp add: BUFSIZ_def)
  obtain fs1 offset where loop: "write_loop env fs s (i_stack env) (of_nat p) 0 = Some (True, of_nat p, fs1)" "ready fs1"
      "rd_at (fs_streams fs1) s = Some (f\<lparr>fl_offset := offset\<rparr>)" "sent (fs_world fs1) = sent (fs_world fs) @ chunks p obj"
    using write_loop_sends [OF assms(1-4), of p "i_stack env" 0] assms(5) p by (auto simp: BUFSIZ_def)
  have "fl_flags f AND (F_WRITE OR F_OPEN) \<noteq> 0"
    by (rule and_or_nonzero [OF assms(6)])
  moreover have "(of_int (int BUFSIZ - int p) :: u32) \<noteq> 0"
  proof -
    have "(of_int (int BUFSIZ - int p) :: u32) = of_nat (512 - p)" using p by (simp add: BUFSIZ_def of_nat_diff)
    moreover have "unat (of_nat (512 - p) :: u32) = 512 - p" by (simp add: unat_of_nat)
    ultimately show ?thesis using p by (metis unat_0 zero_less_diff less_numeral_extra(3))
  qed
  moreover have "uint (of_nat p :: u32) = int p" using p by (simp add: uint_nat unat_of_nat)
  moreover have s: "s < length (fs_streams fs1)" using loop(3) by (auto simp: rd_at_Some)
  ultimately have "file_write env fs s = Some (int p, fs1\<lparr>fs_streams := (fs_streams fs1)
      [s := f\<lparr>fl_offset := (if fl_flags f AND F_APPEND \<noteq> 0 then -1 else offset), fl_w_pos := Some 0\<rparr>]\<rparr>)"
    using assms(1,2,4,7,8) loop(1,3)
    by (simp add: file_write_def check_init_def ready_def ptr_diff_def put_stream_def wr_at_in)
  then show ?thesis using loop(2,4) s by (auto simp: ready_put rd_at_in)
qed

text \<open>Printing a text that makes the stream flush.\<close>

lemma vfprintf_sends:
  assumes "ready fs" "rd_at (fs_streams fs) s = Some f" "fl_fid f = fid" "fl_buf f = Some obj" "length obj = BUFSIZ"
    and "fl_flags f AND F_WRITE \<noteq> 0" "fl_w_pos f = Some 0" "fl_w_end f = Some BUFSIZ"
    and "render format args = Some out" "0 < length out" "length out < BUFSIZ" "last out = 0x0a \<or> BUFSIZ div 2 < length out"
  shows "\<exists>fs'. vfprintf env fs s format args = Some (int (length out), fs') \<and> ready fs' \<and>
    sent (fs_world fs') = sent (fs_world fs) @ chunks (length out) out"
proof -
  have n: "length out < 512" using assms(11) by (simp add: BUFSIZ_def)
  have b: "unat (of_int (int BUFSIZ) :: u64) = 512" by (simp add: BUFSIZ_def)
  obtain buf where buf: "formatter obj format args (of_int (int BUFSIZ)) = Some (length out, buf)" "length buf = 512"
      "buf = out @ drop (length out) obj"
    using formatter_renders' [OF assms(9), of "of_int (int BUFSIZ)" obj] assms(5,11) b by (auto simp: BUFSIZ_def)
  define f1 where "f1 = f\<lparr>fl_buf := Some buf, fl_w_pos := Some (length out)\<rparr>"
  define fs1 where "fs1 = fs\<lparr>fs_streams := (fs_streams fs)[s := f1]\<rparr>"
  have s: "s < length (fs_streams fs)" using assms(2) by (auto simp: rd_at_Some)
  have r1: "ready fs1" using assms(1) by (simp add: fs1_def ready_put)
  have f1: "rd_at (fs_streams fs1) s = Some f1" using s by (simp add: fs1_def rd_at_in)
  obtain fs2 where fs2: "file_write env fs1 s = Some (int (length out), fs2)" "ready fs2"
      "sent (fs_world fs2) = sent (fs_world fs1) @ chunks (length out) buf"
    using file_write_sends [OF r1 f1, of buf "length out"] assms(3,6,8,11) buf(2) by (auto simp: f1_def BUFSIZ_def)
  have same: "chunks (length out) buf = chunks (length out) out" by (rule chunks_cong) (simp add: buf(3))
  have "rd_at buf (length out - 1) = Some (last out)"
  proof -
    have "length out - 1 < length out" using assms(10) by simp
    then have "length out - 1 < length buf" "buf ! (length out - 1) = out ! (length out - 1)"
      using n buf(2) by (simp_all add: buf(3) nth_append)
    then show ?thesis using assms(10) by (simp add: rd_at_in last_conv_nth)
  qed
  moreover have "fl_flags f1 AND (F_OPEN OR F_WRITE) \<noteq> 0"
    using and_or_nonzero [OF assms(6)] by (simp add: f1_def or.commute)
  ultimately have "vfprintf env fs s format args = Some (int (length out), fs2)"
    using assms(2,4,7,8,10,11,12) buf(1) s f1 fs2(1)
    by (auto simp: vfprintf_def ptr_diff_def put_stream_def wr_at_in fflush_def f1_def [symmetric] fs1_def [symmetric])
  moreover have "sent (fs_world fs2) = sent (fs_world fs) @ chunks (length out) out"
    using fs2(3) same by (simp add: fs1_def)
  ultimately show ?thesis using fs2(2) by blast
qed

end

subsection \<open>The server of the mini UART\<close>

lemma type_of_Twrite: "type_of (type_code Twrite) = Some Twrite" "type_of (type_code Rwrite) = Some Rwrite"
  by (simp_all add: type_code.simps fcall_type_list_def type_of_def rd_at_def)

lemma line_write_sent:
  assumes "line_ready R status bits dr out"
  shows "\<exists>d'. line_write R status (\<lambda>v. v AND bits \<noteq> 0) dr cs d = Some d' \<and> out d' = out d @ cs"
proof (induction cs arbitrary: d)
  case (Cons c cs)
  obtain d1 where d1: "wait_for R status (\<lambda>v. v AND bits \<noteq> 0) d = Some d1" "out d1 = out d"
    using wait_ready [OF assms] by blast
  have "ucast (ucast c :: u32) = c" by (rule bit_word_eqI) (auto simp: bit_simps)
  then have "out (reg_put R dr (ucast c) d1) = out d @ [c]" using assms d1(2) by (simp add: line_ready_def)
  then show ?case using Cons.IH [of "reg_put R dr (ucast c) d1"] d1(1) by auto
qed simp

text \<open>The server of the line: the loop of its main function. Its state is that of its clients and of the device.\<close>

definition uart_turn ::
    "(bytes \<Rightarrow> u32) \<Rightarrow> 'd regs \<Rightarrow> u64 \<Rightarrow> u64 \<Rightarrow> vfs_msg \<Rightarrow> int \<Rightarrow> u32 \<Rightarrow> ((clients \<times> 'd) \<times> bytes \<times> unit) system \<Rightarrow>
     ((clients \<times> 'd) \<times> bytes \<times> unit) system option" where
  "uart_turn open_q R lsr io msg0 pid mq_in = server_turn
     (\<lambda>buf s w. map_option (\<lambda>(buf1, h1, d1, w1). (buf1, (h1, d1), w1))
       (uart_handle_message (task_send pid) open_q R lsr io (fst s) msg0 buf (snd s) w)) pid mq_in VFS_MAX_MSG_LEN"

definition uart_process ::
    "((clients \<times> 'd) \<times> bytes \<times> unit) fs_system option io_env \<Rightarrow> ((clients \<times> 'd) \<times> bytes \<times> unit) system option vfs_env \<Rightarrow>
     (bytes \<Rightarrow> u32) \<Rightarrow> 'd regs \<Rightarrow> u64 \<Rightarrow> u64 \<Rightarrow> vfs_msg \<Rightarrow> route \<Rightarrow> ((clients \<times> 'd) \<times> bytes \<times> unit) fs_system option io_env" where
  "uart_process pe ve open_q R lsr io msg0 rt =
     fs_process pe ve (uart_turn open_q R lsr io msg0 (ch_to (rt_down rt)) (ch_id (rt_down rt))) rt"

text \<open>The file server is a client of the server of the line, with the queue \<open>up\<close>, and the line is ready.\<close>

definition uart_ok :: "'d regs \<Rightarrow> u64 \<Rightarrow> u64 \<Rightarrow> ('d \<Rightarrow> bytes) \<Rightarrow> channel \<Rightarrow> channel \<Rightarrow> (clients \<times> 'd) \<times> bytes \<times> unit \<Rightarrow> bool" where
  "uart_ok R lsr io out down up s \<longleftrightarrow> length (fst (snd s)) = 128 \<and> line_ready R lsr 0x20 io out \<and>
     ch_slot down \<noteq> ch_slot up \<and> ch_from up = ch_to down \<and> ch_id up < 0x100 \<and>
     (\<exists>client. vfs_client_get (fst (fst s)) (ch_id up) = Some client \<and> client \<noteq> 0)"

lemma write_fields:
  "length bs \<le> 100 \<Longrightarrow> representable Twrite [F32 k, F64 offset, F32 (of_nat (length bs)), FRaw bs]"
  "representable Rwrite [F32 count]"
proof -
  have "fields_of Rwrite (blank_fcall\<lparr>f_count := count\<rparr>) = Some [F32 count]" by (simp add: fields_of_def)
  then show "representable Rwrite [F32 count]" unfolding representable_def using type_of_Twrite(2) by blast
  assume "length bs \<le> 100"
  then have "fields_of Twrite (blank_fcall\<lparr>f_fid := k, f_offset := offset, f_count := of_nat (length bs), f_data := bs\<rparr>) =
      Some [F32 k, F64 offset, F32 (of_nat (length bs)), FRaw bs]"
    by (simp add: fields_of_def unat_of_nat rd_bytes_def)
  then show "representable Twrite [F32 k, F64 offset, F32 (of_nat (length bs)), FRaw bs]"
    unfolding representable_def using type_of_Twrite(1) by blast
qed

lemma uart_handles_write:
  assumes "uart_ok R lsr io out down up ((h, d), b, ())" "length bs \<le> 100" "length buf = 128"
    and "take (length bs + 27) buf = wire_msg Twrite tag [F32 fid, F64 offset, F32 (of_nat (length bs)), FRaw bs] (ch_id up)"
  shows "\<exists>buf1 d1. uart_handle_message send_q open_q R lsr io h msg0 buf d w =
      Some (buf1, h, d1, snd (send_q (ch_id up) buf1 15 w)) \<and> length buf1 = 128 \<and>
    take 15 buf1 = wire_msg Rwrite tag [F32 (of_nat (length bs))] (ch_id up) \<and> out d1 = out d @ bs"
proof -
  obtain client where ok: "line_ready R lsr 0x20 io out" "vfs_client_get h (ch_id up) = Some client" "client \<noteq> 0" "ch_id up < 0x100"
    using assms(1) by (auto simp: uart_ok_def)
  have un: "unat (of_nat (length bs) :: u32) = length bs" using assms(2) by (simp add: unat_of_nat)
  obtain f where f: "vfs_msg_parse msg0 buf = Some (length bs + 27, msg0\<lparr>v_fcall := f, v_mq_id := ch_id up\<rparr>)"
      "f_type f = type_code Twrite" "f_tag f = tag" "fields_of Twrite f = Some [F32 fid, F64 offset, F32 (of_nat (length bs)), FRaw bs]"
    using parse_wire_msg [OF write_fields(1) [OF assms(2)], of fid offset buf tag "ch_id up" msg0] assms(2,4) small_id [OF ok(4)]
    by (auto simp: add.commute)
  define msg where "msg = msg0\<lparr>v_fcall := f, v_mq_id := ch_id up\<rparr>"
  have m: "f_count f = of_nat (length bs)" "rd_bytes (f_data f) 0 (length bs) = Some bs"
    using f(4) un by (auto simp: fields_of_def)
  obtain d1 where d1: "line_write R lsr (\<lambda>v. v AND 0x20 \<noteq> 0) io bs d = Some d1" "out d1 = out d @ bs"
    using line_write_sent [OF ok(1)] by blast
  define msg1 where "msg1 = msg\<lparr>v_fcall := f\<lparr>f_type := type_code Rwrite\<rparr>\<rparr>"
  have "fields_of Rwrite (v_fcall msg1) = Some [F32 (of_nat (length bs))]" by (simp add: msg1_def fields_of_def m)
  from put_wire_msg [OF _ type_of_Twrite(2) this, of buf] obtain buf1 where buf1: "vfs_msg_put msg1 buf = Some (15, buf1)"
      "length buf1 = 128" "take 15 buf1 = wire_msg Rwrite tag [F32 (of_nat (length bs))] (ch_id up)"
    using assms(3) f(3) by (auto simp: msg1_def msg_def)
  have "serial_write (uart_write R lsr io) h msg buf d = Some ((15, buf1), d1)"
    using ok(2,3) m un d1(1) buf1(1)
    by (simp add: serial_write_def uart_write_def Let_def msg_def msg1_def del: type_code.simps)
  then have "uart_handle_message send_q open_q R lsr io h msg0 buf d w = Some (buf1, h, d1, snd (send_q (ch_id up) buf1 15 w))"
    using f(1,2) type_of_Twrite(1)
    by (simp add: uart_handle_message_def msg_def [symmetric] del: type_code.simps)
      (simp add: msg_def uart_msg_write_def del: type_code.simps)
  then show ?thesis using buf1(2,3) d1(2) by blast
qed

interpretation uartq: queue_fs "uart_turn open_q R lsr io msg0 (ch_to down) (ch_id down)" down up "[]" "uart_ok R lsr io out down up"
    "\<lambda>y :: u64 \<times> bytes. length (snd y) \<le> 100" Twrite Rwrite fid
    "\<lambda>y. [F64 (fst y), F32 (of_nat (length (snd y))), FRaw (snd y)]"
    "\<lambda>y. [F32 (of_nat (length (snd y)))]" "\<lambda>y r r'. out (snd (fst r')) = out (snd (fst r)) @ snd y" ve pid vq aq fid0
  for open_q R lsr io msg0 down up out fid ve pid vq aq fid0
proof
  fix r and y :: "u64 \<times> bytes" and st tag
  assume r: "uart_ok R lsr io out down up r" and y: "length (snd y) \<le> 100" and i: "idle (up # []) st"
    and m: "channel_has st down [wire_msg Twrite tag (F32 fid # [F64 (fst y), F32 (of_nat (length (snd y))), FRaw (snd y)]) (ch_id up)]"
  obtain h d b where hd: "r = ((h, d), b, ())" by (metis surj_pair unit.exhaust)
  have ok: "ch_slot down \<noteq> ch_slot up" "ch_from up = ch_to down" "length b = 128" using r by (auto simp: uart_ok_def hd)
  have keep: "uart_ok R lsr io out down up ((h, d1), b1, ())" if "length b1 = 128" for b1 d1
    using r that by (simp add: uart_ok_def hd)
  have "\<exists>st' s1 b1. uart_turn open_q R lsr io msg0 (ch_to down) (ch_id down) (st, (h, d), b, ()) = Some (st', s1, b1, ()) \<and>
      channel_has st' down [] \<and> channel_has st' up [wire_msg Rwrite tag [F32 (of_nat (length (snd y)))] (ch_id up)] \<and>
      only_at {ch_slot down, ch_slot up} st st' \<and> length b1 = 128 \<and> (\<exists>d1. s1 = (h, d1) \<and> out d1 = out d @ snd y)"
    unfolding uart_turn_def
  proof (rule simple_server [OF m _ ok(1) refl ok(2) wire_msg_nonempty])
    show "channel_has st up []" using i by (simp add: idle_def)
    show "length b = 128" by (rule ok(3))
  next
    fix buf w assume "length buf = 128" "take (length (wire_msg Twrite tag
        (F32 fid # [F64 (fst y), F32 (of_nat (length (snd y))), FRaw (snd y)]) (ch_id up))) buf =
        wire_msg Twrite tag (F32 fid # [F64 (fst y), F32 (of_nat (length (snd y))), FRaw (snd y)]) (ch_id up)"
    with uart_handles_write [OF r [unfolded hd] y, of buf tag fid "fst y" "task_send (ch_to down)" open_q msg0 w]
    obtain buf1 d1 where "uart_handle_message (task_send (ch_to down)) open_q R lsr io h msg0 buf d w =
        Some (buf1, h, d1, snd (task_send (ch_to down) (ch_id up) buf1 15 w))" "length buf1 = 128"
        "take 15 buf1 = wire_msg Rwrite tag [F32 (of_nat (length (snd y)))] (ch_id up)" "out d1 = out d @ snd y"
      by (auto simp: length_wire_msg add.commute)
    then show "\<exists>buf1 s1. map_option (\<lambda>(buf1, h1, d1, w1). (buf1, (h1, d1), w1))
          (uart_handle_message (task_send (ch_to down)) open_q R lsr io (fst (h, d)) msg0 buf (snd (h, d)) w) = Some (buf1, s1,
        snd (task_send (ch_to down) (ch_id up) buf1 (length (wire_msg Rwrite tag [F32 (of_nat (length (snd y)))] (ch_id up))) w)) \<and>
        length buf1 = 128 \<and> take (length (wire_msg Rwrite tag [F32 (of_nat (length (snd y)))] (ch_id up))) buf1 =
          wire_msg Rwrite tag [F32 (of_nat (length (snd y)))] (ch_id up) \<and> (\<exists>d1. s1 = (h, d1) \<and> out d1 = out d @ snd y)"
      by (auto simp: length_wire_msg)
  qed (use y in \<open>simp_all add: length_wire_msg\<close>)
  then show "\<exists>st' r'. uart_turn open_q R lsr io msg0 (ch_to down) (ch_id down) (st, r) = Some (st', r') \<and> idle (down # []) st' \<and>
      channel_has st' up [wire_msg Rwrite tag [F32 (of_nat (length (snd y)))] (ch_id up)] \<and>
      only_at (ch_slot ` set (down # up # [])) st st' \<and> uart_ok R lsr io out down up r' \<and> out (snd (fst r')) = out (snd (fst r)) @ snd y"
    using keep by (auto simp: hd idle_def)
next
  fix y :: "u64 \<times> bytes" and k assume y: "length (snd y) \<le> 100"
  then show "representable Twrite (F32 k # [F64 (fst y), F32 (of_nat (length (snd y))), FRaw (snd y)]) \<and>
      representable Rwrite [F32 (of_nat (length (snd y)))] \<and>
      length (enc_fields [F64 (fst y), F32 (of_nat (length (snd y))), FRaw (snd y)]) \<le> 112 \<and>
      length (enc_fields [F32 (of_nat (length (snd y)))]) \<le> 117"
    using write_fields by simp
next
  fix r assume "uart_ok R lsr io out down up r"
  then show "distinct (map ch_slot (down # up # []))" by (simp add: uart_ok_def)
qed

text \<open>
  The process may go on: its file id \<open>fid\<close> leads through the file server to the line, and no message is under way. What has
  been sent on the line is \<open>on_line\<close> of the world.
\<close>

definition line_world ::
    "'d regs \<Rightarrow> u64 \<Rightarrow> u64 \<Rightarrow> ('d \<Rightarrow> bytes) \<Rightarrow> route \<Rightarrow> u32 \<Rightarrow> ((clients \<times> 'd) \<times> bytes \<times> unit) fs_system option \<Rightarrow> bool" where
  "line_world R lsr io out rt fid w \<longleftrightarrow> ch_to (rt_answer rt) = ch_from (rt_ask rt) \<and>
     (\<exists>st s below. w = Some (st, s) \<and> idle [rt_ask rt, rt_answer rt, rt_down rt, rt_up rt] st \<and>
       fs_ok (ch_to (rt_ask rt)) (rt_ask rt) (rt_answer rt) (rt_down rt) (rt_up rt) [] Twrite fid below
         (uart_ok R lsr io out (rt_down rt) (rt_up rt)) s)"

definition on_line :: "('d \<Rightarrow> bytes) \<Rightarrow> ((clients \<times> 'd) \<times> bytes \<times> unit) fs_system option \<Rightarrow> bytes" where
  "on_line out w = (case w of None \<Rightarrow> [] | Some (st, fs, b, s) \<Rightarrow> out (snd (fst s)))"

interpretation uart: write_service "uart_process pe ve open_q R lsr io msg0 rt" "ch_id (rt_answer rt)" "ch_id (rt_ask rt)"
    "line_world R lsr io out rt fid" fid "on_line out"
  for pe ve open_q R lsr io msg0 rt out fid
proof
  fix w msg bs
  assume w: "line_world R lsr io out rt fid w" and m: "carries (ch_id (rt_answer rt)) fid msg bs" and bs: "length bs \<le> 100"
  let ?pid = "ch_to (rt_ask rt)"
  obtain st s below where st: "w = Some (st, s)" "idle (rt_ask rt # rt_answer rt # [rt_down rt, rt_up rt]) st"
      "fs_ok ?pid (rt_ask rt) (rt_answer rt) (rt_down rt) (rt_up rt) [] Twrite fid below (uart_ok R lsr io out (rt_down rt) (rt_up rt)) s"
      "ch_to (rt_answer rt) = ch_from (rt_ask rt)"
    using w by (auto simp: line_world_def)
  define y where "y = (f_offset (v_fcall msg), bs)"
  have un: "unat (of_nat (length bs) :: u32) = length bs" using bs by (simp add: unat_of_nat)
  have "f_count (v_fcall msg) = of_nat (length bs)" using m by (metis carries_def of_nat_unat_word)
  then have f: "v_mq_id msg = ch_id (rt_answer rt)" "f_type (v_fcall msg) = type_code Twrite"
      "fields_of Twrite (v_fcall msg) = Some (F32 fid # [F64 (fst y), F32 (of_nat (length (snd y))), FRaw (snd y)])"
    using m un by (simp_all add: carries_def fields_of_def y_def)
  have y: "length (snd y) \<le> 100" using bs by (simp add: y_def)
  from uartq.up.vfs_exchange [OF st(3) y st(2) f, of ve open_q msg0]
  obtain g q buf st' s' where x: "vfs_msg_send (i_send (uart_process pe ve open_q R lsr io msg0 rt))
      (i_receive (uart_process pe ve open_q R lsr io msg0 rt)) msg (replicate VFS_MAX_MSG_LEN 0) (ch_id (rt_ask rt)) (ch_id (rt_answer rt)) w =
        Some (length (enc_fields [F32 (of_nat (length (snd y)))]) + 11, msg\<lparr>v_fcall := g, v_mq_id := q\<rparr>, buf, Some (st', s'))"
      "fields_of Rwrite g = Some [F32 (of_nat (length (snd y)))]"
      "idle (rt_ask rt # rt_answer rt # [rt_down rt, rt_up rt]) st'"
      "fs_ok ?pid (rt_ask rt) (rt_answer rt) (rt_down rt) (rt_up rt) [] Twrite fid below (uart_ok R lsr io out (rt_down rt) (rt_up rt)) s'"
      "out (snd (fst (snd (snd s')))) = out (snd (fst (snd (snd s)))) @ snd y"
    unfolding uart_process_def fs_process_def queue_calls_def st(1) by (auto simp: st(4))
  have "unat (f_count g) = length bs" using x(2) un by (simp add: fields_of_def y_def)
  moreover have "line_world R lsr io out rt fid (Some (st', s'))" using w x(3,4) by (auto simp: line_world_def)
  moreover have "on_line out (Some (st', s')) = on_line out w @ bs"
    using x(5) by (cases s, cases s') (simp add: on_line_def st(1) y_def)
  ultimately show "\<exists>len msg' buf w'. vfs_msg_send (i_send (uart_process pe ve open_q R lsr io msg0 rt))
      (i_receive (uart_process pe ve open_q R lsr io msg0 rt)) msg (replicate VFS_MAX_MSG_LEN 0) (ch_id (rt_ask rt)) (ch_id (rt_answer rt)) w =
        Some (len, msg', buf, w') \<and> len \<noteq> 0 \<and> unat (f_count (v_fcall msg')) = length bs \<and>
      line_world R lsr io out rt fid w' \<and> on_line out w' = on_line out w @ bs"
    using x(1) by (intro exI conjI) (assumption | simp)+
qed

text \<open>
  C32. Printing on the serial line: a text that ends in a new line, or takes more than half of the buffer, goes from
  \<open>printf\<close> through the buffer of the stream, the queues of the kernel, the file server and the server of the line to the
  line before \<open>printf\<close> returns, and it does return. Up to 100 bytes arrive as they are; of a longer text every
  message after the first carries the first bytes again.
\<close>

theorem printf_on_line:
  assumes "line_world R lsr io out rt (fl_fid f) (fs_world fs)" "fs_initialised fs"
    and "fs_in fs = ch_id (rt_answer rt)" "fs_vfs fs = ch_id (rt_ask rt)"
    and "rd_at (fs_streams fs) stdout_at = Some f" "fl_buf f = Some obj" "length obj = BUFSIZ"
    and "fl_flags f AND F_WRITE \<noteq> 0" "fl_w_pos f = Some 0" "fl_w_end f = Some BUFSIZ"
    and "render format args = Some t" "0 < length t" "length t < BUFSIZ" "last t = 0x0a \<or> BUFSIZ div 2 < length t"
  shows "\<exists>fs'. printf (uart_process pe ve open_q R lsr io msg0 rt) fs format args = Some (int (length t), fs') \<and>
    on_line out (fs_world fs') = on_line out (fs_world fs) @
      (if length t \<le> 100 then t else take 100 t @ chunks (length t - 100) t) \<and>
    line_world R lsr io out rt (fl_fid f) (fs_world fs')"
proof -
  have "uart.ready rt R lsr io out (fl_fid f) fs" using assms(1-4) by (simp add: uart.ready_def)
  from uart.vfprintf_sends [OF this assms(5) refl assms(6-14)]
  obtain fs' where run: "vfprintf (uart_process pe ve open_q R lsr io msg0 rt) fs stdout_at format args = Some (int (length t), fs')"
      "uart.ready rt R lsr io out (fl_fid f) fs'"
      "on_line out (fs_world fs') = on_line out (fs_world fs) @ chunks (length t) t" by blast
  have "chunks (length t) t = (if length t \<le> 100 then t else take 100 t @ chunks (length t - 100) t)"
    using chunks_short [of "length t" t] assms(12) by (simp add: chunks.simps [of "length t"])
  then show ?thesis using run by (auto simp: printf_def vprintf_def uart.ready_def)
qed

text \<open>A line that is always ready, with the bytes sent as its state.\<close>

definition plain_line :: "u64 \<Rightarrow> bytes regs" where
  "plain_line io = \<lparr>reg_get = (\<lambda>a d. (0x20, d)), reg_put = (\<lambda>a v d. if a = io then d @ [ucast v] else d)\<rparr>"

definition printer :: "((clients \<times> bytes) \<times> bytes \<times> unit) fs_system option files" where
  "printer = (start_files (Some (test_queues, test_fs, replicate 128 0, (holder 4 0, []), replicate 128 0, ())))
     \<lparr>fs_initialised := True, fs_in := 2, fs_vfs := 1\<rparr>"

theorem printf_on_line_witness:
  "\<exists>fs'. printf (uart_process test_calls test_fs_env (\<lambda>n. 7) (plain_line 8) 4 8 attach_msg test_route) printer [0x68, 0x69, 0x0a, 0] [] =
      Some (3, fs') \<and> on_line (\<lambda>d. d) (fs_world fs') = [0x68, 0x69, 0x0a]"
proof -
  have "line_ready (plain_line 8) 4 0x20 8 (\<lambda>d. d)" by (simp add: line_ready_def plain_line_def)
  then have "uart_ok (plain_line 8) 4 8 (\<lambda>d. d) (rt_down test_route) (rt_up test_route) ((holder 4 0, []), replicate 128 0, ())"
    by (simp add: uart_ok_def test_route_def holder_get)
  note fs = test_fs_ok [of "uart_ok (plain_line 8) 4 8 (\<lambda>d. d) (rt_down test_route) (rt_up test_route)", OF this, of Twrite]
  have "ch_to (rt_answer test_route) = ch_from (rt_ask test_route)" by (simp add: test_route_def)
  then have "line_world (plain_line 8) 4 8 (\<lambda>d. d) test_route (fl_fid std_out) (fs_world printer)"
    using fs test_idle by (auto simp: line_world_def printer_def start_files_def std_out_def)
  moreover have "rd_at (fs_streams printer) stdout_at = Some std_out"
    by (simp add: printer_def start_files_def rd_at_def layout_simps nth_append)
  moreover have "fs_initialised printer" "fs_in printer = ch_id (rt_answer test_route)" "fs_vfs printer = ch_id (rt_ask test_route)"
    by (simp_all add: printer_def test_route_def)
  moreover have "on_line (\<lambda>d. d) (fs_world printer) = []" by (simp add: printer_def start_files_def on_line_def)
  ultimately show ?thesis
    using printf_on_line [of "plain_line 8" 4 8 "\<lambda>d. d" test_route std_out printer "replicate BUFSIZ 0" "[0x68, 0x69, 0x0a, 0]" "[]"
        "[0x68, 0x69, 0x0a]" test_calls test_fs_env "\<lambda>n. 7" attach_msg]
    by (auto simp: std_out_def layout_simps)
qed

subsection \<open>The other device\<close>

lemma wait_never:
  assumes "\<And>d. \<not> P (fst (reg_get R a d))"
  shows "wait_for R a P d = None"
proof -
  have "False" if run: "wait_for R a P d = Some d'" for d'
  proof -
    have "\<exists>d. P (fst (reg_get R a d))"
    proof (rule wait_for.raw_induct [where P = "\<lambda>R a P d d'. \<exists>d. P (fst (reg_get R a d))", OF _ run])
      fix f :: "'a regs \<Rightarrow> u64 \<Rightarrow> (u32 \<Rightarrow> bool) \<Rightarrow> 'a \<Rightarrow> 'a option" and R a P d d'
      assume ih: "\<And>R a P d d'. f R a P d = Some d' \<Longrightarrow> \<exists>d. P (fst (reg_get R a d))"
        and run: "(case reg_get R a d of (v, d1) \<Rightarrow> if P v then Some d1 else f R a P d1) = Some d'"
      show "\<exists>d. P (fst (reg_get R a d))"
      proof (cases "P (fst (reg_get R a d))")
        case False
        then have "f R a P (snd (reg_get R a d)) = Some d'" using run by (simp add: case_prod_beta)
        then show ?thesis by (rule ih)
      qed blast
    qed
    then show False using assms by blast
  qed
  then show ?thesis by (cases "wait_for R a P d") auto
qed

text \<open>
  C34. Writing to the PL011 line ends with waiting for input: as long as nothing has been received, a write
  does not return, however many bytes it has already sent, and the client gets no answer.
\<close>

theorem pl011_write_waits_for_input:
  assumes "\<And>d. fst (reg_get R PL011_FR d) AND FR_RXFE \<noteq> 0" "vfs_client_get h (v_mq_id msg) = Some client" "client \<noteq> 0"
  shows "serial_write (pl011_write R) h msg buf d = None"
proof -
  have "wait_for R PL011_FR (\<lambda>v. v AND FR_RXFE = 0) d1 = None" for d1 by (rule wait_never) (use assms(1) in simp)
  then have "pl011_write R data n d = None" for data n d by (simp add: pl011_write_def)
  then show ?thesis using assms(2,3) by (simp add: serial_write_def Let_def)
qed

theorem pl011_write_waits_for_input_witness:
  "serial_write (pl011_write \<lparr>reg_get = (\<lambda>a d. (0x10, d)), reg_put = (\<lambda>a v d. d + 1)\<rparr>) (holder 7 0) (read_request 1 7) [] (0 :: nat) = None"
proof -
  have "vfs_client_get (holder 7 0) 7 = Some 8" by (rule holder_get)
  then show ?thesis
    using pl011_write_waits_for_input [of "\<lparr>reg_get = (\<lambda>a d. (0x10, d)), reg_put = (\<lambda>a v d. d + 1)\<rparr>" "holder 7 0" "read_request 1 7" 8 "[]" "0 :: nat"]
    by (simp add: FR_RXFE_def read_request_def)
qed

end
