(* ===== verification/Server_Main.thy ===== *)
theory Server_Main
  imports Syscalls Serial Vfs_Server
begin

text \<open>
  The main functions of the servers (\<^verbatim>\<open>main.c\<close> of \<^verbatim>\<open>modules/rd\<close>, \<^verbatim>\<open>modules/uart\<close>, \<^verbatim>\<open>modules/pl011\<close> and
  \<^verbatim>\<open>modules/vfs\<close>): the queue a server opens when it starts, on the message queues of the kernel, what it does
  when that fails, and its loop. The lines that are printed are left out.

  A loop is followed over a list of results of \<open>mq_receive\<close>: the buffer as it was filled, or \<open>None\<close> for -1.
\<close>

subsection \<open>Opening and closing the queue\<close>

text \<open>The value of \<open>mq_in\<close> after \<open>_init\<close>; \<open>_init\<close> says whether it is not -1.\<close>

definition server_open :: "string \<Rightarrow> int \<Rightarrow> mq_state \<Rightarrow> (int \<times> mq_state) option" where
  "server_open name pid st =
     map_option (\<lambda>((mq_in, e), st1). (mq_in, st1)) (mq_open (zstr name) (O_RDONLY OR O_CREAT OR O_EXCL) None pid st)"

definition server_unlink :: "string \<Rightarrow> int \<Rightarrow> int \<Rightarrow> mq_state \<Rightarrow> mq_state option" where
  "server_unlink name mq_in pid st = do {
     let (r, st1) = mq_close mq_in pid st;
     (r, st2) \<leftarrow> mq_unlink (zstr name) st1;
     Some st2 }"

definition rd_init :: "int \<Rightarrow> mq_state \<Rightarrow> (int \<times> mq_state) option" where
  "rd_init pid st = server_open ''vfs/mod/rd'' pid st"

definition rd_deinit :: "int \<Rightarrow> int \<Rightarrow> mq_state \<Rightarrow> mq_state option" where
  "rd_deinit mq_in pid st = (if mq_in \<noteq> 0 then server_unlink ''vfs/mod/rd'' mq_in pid st else Some st)"

definition uart_init_queue :: "int \<Rightarrow> mq_state \<Rightarrow> (int \<times> mq_state) option" where
  "uart_init_queue pid st = server_open ''vfs/mod/uart'' pid st"

definition uart_deinit :: "int \<Rightarrow> int \<Rightarrow> mq_state \<Rightarrow> mq_state option" where
  "uart_deinit mq_in pid st = (if mq_in > -1 then server_unlink ''vfs/mod/uart'' mq_in pid st else Some st)"

definition pl011_init_queue :: "int \<Rightarrow> mq_state \<Rightarrow> (int \<times> mq_state) option" where
  "pl011_init_queue pid st = server_open ''vfs/mod/pl011'' pid st"

definition pl011_deinit :: "int \<Rightarrow> int \<Rightarrow> mq_state \<Rightarrow> mq_state option" where
  "pl011_deinit mq_in pid st = (if mq_in > -1 then server_unlink ''vfs/mod/pl011'' mq_in pid st else Some st)"

text \<open>
  \<open>main\<close> up to the loop: the queue the loop receives from, or \<open>None\<close> when \<open>main\<close> returns 1.
\<close>

definition server_start ::
    "(int \<Rightarrow> mq_state \<Rightarrow> (int \<times> mq_state) option) \<Rightarrow> (int \<Rightarrow> int \<Rightarrow> mq_state \<Rightarrow> mq_state option) \<Rightarrow>
     int \<Rightarrow> mq_state \<Rightarrow> (int option \<times> mq_state) option" where
  "server_start init deinit pid st = do {
     (mq_in, st1) \<leftarrow> init pid st;
     if mq_in = -1 then map_option (Pair None) (deinit mq_in pid st1)
     else Some (Some mq_in, st1) }"

definition rd_main_start :: "int \<Rightarrow> mq_state \<Rightarrow> (int option \<times> mq_state) option" where
  "rd_main_start = server_start rd_init rd_deinit"

definition uart_main_start :: "int \<Rightarrow> mq_state \<Rightarrow> (int option \<times> mq_state) option" where
  "uart_main_start = server_start uart_init_queue uart_deinit"

text \<open>\<open>pl011_init\<close>, which brings the device up, comes first.\<close>

definition pl011_main_start ::
    "'d regs \<Rightarrow> int \<Rightarrow> mq_state \<Rightarrow> 'd \<Rightarrow> (int option \<times> mq_state \<times> 'd) option" where
  "pl011_main_start R pid st d = do {
     d1 \<leftarrow> pl011_init R d;
     (r, st1) \<leftarrow> server_start pl011_init_queue pl011_deinit pid st;
     Some (r, st1, d1) }"

text \<open>The file server does not look at the result of \<open>mq_open\<close>; an error of \<open>vfs_init\<close> ends it.\<close>

definition vfs_main_start ::
    "'w vfs_env \<Rightarrow> 'w vfs_state \<Rightarrow> int \<Rightarrow> mq_state \<Rightarrow> ((vfs_error + int) \<times> mq_state \<times> 'w vfs_state) option" where
  "vfs_main_start env vst pid st = do {
     ((mq_in, e), st1) \<leftarrow> mq_open (zstr ''vfs/server'') (O_RDWR OR O_CREAT OR O_EXCL) None pid st;
     (err, vst1) \<leftarrow> vfs_init env vst;
     Some (if err \<noteq> VFS_OK then (Inl err, st1, vst1) else (Inr mq_in, st1, vst1)) }"

subsection \<open>The loops\<close>

fun uart_serve ::
    "(u32 \<Rightarrow> bytes \<Rightarrow> nat \<Rightarrow> 'w \<Rightarrow> int \<times> 'w) \<Rightarrow> (bytes \<Rightarrow> u32) \<Rightarrow> 'd regs \<Rightarrow> u64 \<Rightarrow> u64 \<Rightarrow> vfs_msg \<Rightarrow> bytes option list \<Rightarrow>
     clients \<Rightarrow> 'd \<Rightarrow> 'w \<Rightarrow> (clients \<times> 'd \<times> 'w) option" where
  "uart_serve send_q open_q R lsr io msg0 [] h d w = Some (h, d, w)"
| "uart_serve send_q open_q R lsr io msg0 (None # bufs) h d w = uart_serve send_q open_q R lsr io msg0 bufs h d w"
| "uart_serve send_q open_q R lsr io msg0 (Some buf # bufs) h d w = do {
     (buf1, h1, d1, w1) \<leftarrow> uart_handle_message send_q open_q R lsr io h msg0 buf d w;
     uart_serve send_q open_q R lsr io msg0 bufs h1 d1 w1 }"

fun pl011_serve ::
    "(u32 \<Rightarrow> bytes \<Rightarrow> nat \<Rightarrow> 'w \<Rightarrow> int \<times> 'w) \<Rightarrow> (bytes \<Rightarrow> u32) \<Rightarrow> 'd regs \<Rightarrow> vfs_msg \<Rightarrow> bytes option list \<Rightarrow>
     clients \<Rightarrow> 'd \<Rightarrow> 'w \<Rightarrow> (clients \<times> 'd \<times> 'w) option" where
  "pl011_serve send_q open_q R msg0 [] h d w = Some (h, d, w)"
| "pl011_serve send_q open_q R msg0 (None # bufs) h d w = pl011_serve send_q open_q R msg0 bufs h d w"
| "pl011_serve send_q open_q R msg0 (Some buf # bufs) h d w = do {
     (buf1, h1, d1, w1) \<leftarrow> pl011_handle_message send_q open_q R h msg0 buf d w;
     pl011_serve send_q open_q R msg0 bufs h1 d1 w1 }"

fun vfs_serve :: "'w vfs_env \<Rightarrow> bytes option list \<Rightarrow> 'w vfs_state \<Rightarrow> 'w vfs_state option" where
  "vfs_serve env [] st = Some st"
| "vfs_serve env (None # bufs) st = vfs_serve env bufs st"
| "vfs_serve env (Some buf # bufs) st = do {
     (buf1, st1) \<leftarrow> vfs_handle_message env st buf;
     vfs_serve env bufs st1 }"

subsection \<open>The clients of the serial servers stay in order\<close>

lemma serial_attach_keeps:
  assumes "clients_ok h" "serial_attach open_q h msg buf = Some (n, b, h')"
  shows "clients_ok h'"
  using assms unfolding serial_attach_def Let_def
  by (auto split: bind_splits if_splits option.splits prod.splits
    dest!: create_keeps [OF assms(1)] with_clients_Some intro: add_keeps)

lemma uart_handle_keeps:
  assumes "clients_ok h" "uart_handle_message send_q open_q R lsr io h msg0 buf d w = Some (b, h', d', w')"
  shows "clients_ok h'"
  using assms unfolding uart_handle_message_def uart_attach_def
  by (auto split: bind_splits if_splits option.splits fcall_types.splits prod.splits
    dest: serial_attach_keeps [OF assms(1)])

lemma pl011_handle_keeps:
  assumes "clients_ok h" "pl011_handle_message send_q open_q R h msg0 buf d w = Some (b, h', d', w')"
  shows "clients_ok h'"
  using assms unfolding pl011_handle_message_def
  by (auto split: bind_splits if_splits option.splits fcall_types.splits prod.splits
    dest: serial_attach_keeps [OF assms(1)])

lemma uart_serve_keeps_clients:
  "uart_serve send_q open_q R lsr io msg0 bufs h d w = Some (h', d', w') \<Longrightarrow> clients_ok h \<Longrightarrow> clients_ok h'"
  by (induction send_q open_q R lsr io msg0 bufs h d w rule: uart_serve.induct)
    (auto split: bind_splits dest: uart_handle_keeps)

lemma pl011_serve_keeps_clients:
  "pl011_serve send_q open_q R msg0 bufs h d w = Some (h', d', w') \<Longrightarrow> clients_ok h \<Longrightarrow> clients_ok h'"
  by (induction send_q open_q R msg0 bufs h d w rule: pl011_serve.induct)
    (auto split: bind_splits dest: pl011_handle_keeps)

subsection \<open>Starting a server twice\<close>

lemma server_flags [simp]:
  "(O_RDONLY OR O_CREAT OR O_EXCL) AND 7 = O_RDONLY" "(O_RDONLY OR O_CREAT OR O_EXCL) AND O_CREAT \<noteq> 0"
  "(O_RDONLY OR O_CREAT OR O_EXCL) AND O_EXCL \<noteq> 0" "O_RDONLY \<noteq> 0" "O_RDONLY AND - O_RDONLY = O_RDONLY"
  by (simp_all add: layout_simps)

lemma server_open_taken:
  assumes "strhash (zstr name) = Some h" "mq_find_hash h st = Some i"
  shows "server_open name pid st = Some (-1, st)"
  using assms
  by (simp add: server_open_def mq_open_def Let_def sys_mq_open_def mqueue_open_def errno_result_def)

lemma mq_close_unknown: "mq_find d st = None \<Longrightarrow> snd (mq_close d pid st) = st"
  by (simp add: mq_close_def sys_mq_close_def mqueue_close_def)

text \<open>A queue that is unlinked while a task is subscribed to it: it can be found, but not opened.\<close>

lemma unlinked_not_opened:
  assumes "strhash name = Some h" "mq_find_hash h st = Some i" "mq_find_subscriber (open_queues st ! i) 0 \<noteq> None"
  shows "\<exists>st'. mqueue_unlink name st = Some (0, st') \<and> \<not> q_open (open_queues st' ! i) \<and>
    (\<forall>oflag attr pid. oflag AND O_CREAT = 0 \<longrightarrow> mqueue_open name oflag attr pid st' = Some (- errno_val ENOENT, st'))"
proof -
  let ?q = "open_queues st ! i" and ?st = "set_queue i ((open_queues st ! i)\<lparr>q_open := False\<rparr>) st"
  have sub: "mq_find_subscriber (?q\<lparr>q_open := False\<rparr>) 0 \<noteq> None"
    using assms(3) by (simp add: mq_find_subscriber_def)
  have i: "i < length (open_queues st)" and q: "mqueue.q_id ?q \<noteq> 0" "q_hash ?q = h"
    and first: "\<forall>j<i. \<not> (mqueue.q_id (open_queues st ! j) \<noteq> 0 \<and> q_hash (open_queues st ! j) = h)"
    using first_index_Some [OF assms(2) [unfolded mq_find_hash_def]] by blast+
  have "mqueue_unlink name st = Some (0, ?st)"
    using assms(1,2) sub by (auto simp: mqueue_unlink_def mq_destroy_def Let_def)
  moreover have found: "mq_find_hash h ?st = Some i"
    unfolding mq_find_hash_def
    by (rule first_index_eqI) (use i q first in \<open>simp_all add: set_queue_def\<close>)
  moreover have closed: "\<not> q_open (open_queues ?st ! i)" using i by (simp add: set_queue_def)
  ultimately show ?thesis
    using assms(1) by (intro exI [of _ ?st]) (simp add: mqueue_open_def mq_open_found_def Let_def)
qed

text \<open>
  C37. A second RAM disk server that finds the queue of the first takes it away: it cannot create the queue and
  stops, but on its way out it unlinks the name, so that no task can open the queue of the server that is
  running.
\<close>

theorem rd_second_start_unlinks:
  assumes "strhash (zstr ''vfs/mod/rd'') = Some h" "mq_find_hash h st = Some i"
    and "mq_find_subscriber (open_queues st ! i) 0 \<noteq> None" "mq_find (-1) st = None" "oflag AND O_CREAT = 0"
  shows "\<exists>st'. rd_main_start pid st = Some (None, st') \<and>
    mqueue_open (zstr ''vfs/mod/rd'') oflag attr pid2 st' = Some (- errno_val ENOENT, st')"
proof -
  from unlinked_not_opened [OF assms(1-3)] obtain st' where
      st': "mqueue_unlink (zstr ''vfs/mod/rd'') st = Some (0, st')"
        "mqueue_open (zstr ''vfs/mod/rd'') oflag attr pid2 st' = Some (- errno_val ENOENT, st')"
    using assms(5) by blast
  have "rd_init pid st = Some (-1, st)" using server_open_taken [OF assms(1,2)] by (simp add: rd_init_def)
  moreover have "rd_deinit (-1) pid st = Some st'"
    using st'(1) mq_close_unknown [OF assms(4), of pid]
    by (simp add: rd_deinit_def server_unlink_def mq_unlink_def sys_mq_unlink_def Let_def split_def)
  ultimately show ?thesis using st'(2) by (simp add: rd_main_start_def server_start_def)
qed

text \<open>The serial servers compare with -1 instead, and leave everything as it was.\<close>

lemma uart_second_start:
  assumes "strhash (zstr ''vfs/mod/uart'') = Some h" "mq_find_hash h st = Some i"
  shows "uart_main_start pid st = Some (None, st)"
  using server_open_taken [OF assms]
  by (simp add: uart_main_start_def server_start_def uart_init_queue_def uart_deinit_def)

definition rd_running :: mq_state where
  "rd_running = mq_boot\<lparr>open_queues := (open_queues mq_boot)[0 := mq_boot_slot\<lparr>mqueue.q_id := 1, q_open := True,
     q_hash := the (strhash (zstr ''vfs/mod/rd'')), q_subs := \<lparr>sub_pid = 5, sub_flags = O_RDONLY\<rparr> #
       replicate 7 \<lparr>sub_pid = 0, sub_flags = 0\<rparr>\<rparr>]\<rparr>"

theorem rd_second_start_unlinks_witness:
  "\<exists>st'. rd_main_start 6 rd_running = Some (None, st') \<and>
     mqueue_open (zstr ''vfs/mod/rd'') O_WRONLY None 7 st' = Some (- 6, st')"
proof -
  obtain h where h: "strhash (zstr ''vfs/mod/rd'') = Some h"
    by (cases "strhash (zstr ''vfs/mod/rd'')") (simp_all add: zstr_def ascii_def strhash_def)
  have qs: "open_queues rd_running = mq_boot_slot\<lparr>mqueue.q_id := 1, q_open := True, q_hash := h,
      q_subs := \<lparr>sub_pid = 5, sub_flags = O_RDONLY\<rparr> # replicate 7 \<lparr>sub_pid = 0, sub_flags = 0\<rparr>\<rparr> #
      replicate 31 mq_boot_slot"
    by (simp add: rd_running_def mq_boot_def h MQ_MAX_OPEN_def numeral_eq_Suc)
  have "mq_find_hash h rd_running = Some 0" by (simp add: mq_find_hash_def qs)
  moreover have "mq_find_subscriber (open_queues rd_running ! 0) 0 \<noteq> None"
    by (simp add: qs mq_find_subscriber_def)
  moreover have "mq_find (-1) rd_running = None"
    by (auto simp: mq_find_def qs first_index_None mq_boot_slot_def)
  moreover have "O_WRONLY AND O_CREAT = 0" by (simp add: layout_simps)
  ultimately show ?thesis using rd_second_start_unlinks [OF h, of rd_running 0 O_WRONLY 6 None 7] by simp
qed

end
