(* ===== verification/Shell.thy ===== *)
theory Shell
  imports Stdio_Dir Alloc_Witness
begin

text \<open>
  Programs: starting a program (\<^verbatim>\<open>lib/c/spawn/posix_spawn.c\<close>) and the shell (\<^verbatim>\<open>bin/sh\<close>). A process has its
  streams, the kernel behind its system calls and the heap of the allocator, in which the line buffer of the shell lies.
  The allocator's \<open>mmap\<close> and \<open>munmap\<close> are arguments, as in \<^theory_text>\<open>Alloc\<close>; the streams get their own buffers from
  \<open>i_malloc\<close>. A string argument is the object it points into, from the pointer on. Results of calls that the code does not look at are dropped here as well.
\<close>

subsection \<open>Starting a program\<close>

definition errno_list :: "errno list" where
  "errno_list = [EEXIST, EACCES, ENFILE, ENOSPC, EINVAL, ENOENT, EBADF, EMSGSIZE, EAGAIN, ENOMEM, ERANGE, EMFILE,
     EIO, ENOEXEC, EOVERFLOW, ENOTSUP, ENAMETOOLONG]"

text \<open>\<open>errno = n\<close>\<close>

definition store_errno :: "int \<Rightarrow> 'w files \<Rightarrow> 'w files" where
  "store_errno n fs = fs\<lparr>fs_errno := find (\<lambda>e. errno_val e = n) errno_list\<rparr>"

text \<open>\<open>{ fclose(f); errno = e; return -1; }\<close>\<close>

definition spawn_fail ::
    "'w io_env \<Rightarrow> ('w files \<Rightarrow> 'w files) \<Rightarrow> 'w files \<Rightarrow> nat \<Rightarrow> kernel \<Rightarrow> (int \<times> 'w files \<times> kernel) option" where
  "spawn_fail env err fs s k = map_option (\<lambda>(r, fs1). (-1, err fs1, k)) (fclose env fs s)"

text \<open>
  \<open>fresh\<close> is what newly mapped memory holds. The path is opened, its size asked for, and that many bytes are
  mapped and read; the system call gets the address.
\<close>

definition posix_spawn ::
    "(u64 \<Rightarrow> nat \<Rightarrow> bytes) \<Rightarrow> 'w io_env \<Rightarrow> 'w files \<Rightarrow> kernel \<Rightarrow> bytes \<Rightarrow> (int \<times> 'w files \<times> kernel) option" where
  "posix_spawn fresh env fs k path = do {
     (f, fs1) \<leftarrow> fopen env fs path (zstr ''r'');
     case f of None \<Rightarrow> Some (-1, set_errno ENOENT fs1, k)
     | Some s \<Rightarrow> do {
         stream \<leftarrow> rd_at (fs_streams fs1) s;
         (r, st_size, fs2) \<leftarrow> fstat env fs1 (fl_fid stream);
         if r \<noteq> 0 then spawn_fail env (set_errno EACCES) fs2 s k
         else do {
           n \<leftarrow> st_size;
           if n = 0 then spawn_fail env (set_errno EACCES) fs2 s k
           else do {
             ((address, e), k1) \<leftarrow> mmap 0 (of_nat n) 0 MAP_ANONYMOUS k;
             if address = MAP_FAILED then spawn_fail env (set_errno ENOMEM) fs2 s k1
             else do {
               (nbytes, image, fs3) \<leftarrow> fread env fs2 (fresh address n) 1 (of_nat n) s;
               if nbytes \<noteq> of_nat n then do {
                 (r, k2) \<leftarrow> munmap address (of_nat n) k1;
                 spawn_fail env (set_errno EIO) fs3 s k2 }
               else do {
                 (res, k2) \<leftarrow> sys_spawn k1;
                 if res \<le> 0 then do {
                   (r, k3) \<leftarrow> munmap address (of_nat n) k2;
                   map_option (\<lambda>(r, fs4). (-1, fs4, k3)) (fclose env (store_errno (- res) fs3) s) }
                 else do {
                   (r, k3) \<leftarrow> munmap address (of_nat n) k2;
                   map_option (\<lambda>(r, fs4). (0, fs4, k3)) (fclose env fs3 s) } } } } } } }"

subsection \<open>The commands of the shell\<close>

datatype sh_error = SH_OK | SH_NOMEM | SH_INVALID | SH_NOTFOUND | SH_CONT

record ('w, 'e) shell =
  sh_files :: "'w files"
  sh_kernel :: kernel
  sh_heap :: "'e heap"
  current_dir :: "nat option"

definition with_files :: "('w, 'e) shell \<Rightarrow> (int \<times> 'w files) option \<Rightarrow> ('w, 'e) shell option" where
  "with_files st r = map_option (\<lambda>(n, fs). st\<lparr>sh_files := fs\<rparr>) r"

text \<open>Writing to a standard stream, and \<open>fflush\<close>.\<close>

definition sh_print :: "'w io_env \<Rightarrow> nat \<Rightarrow> bytes \<Rightarrow> va list \<Rightarrow> ('w, 'e) shell \<Rightarrow> ('w, 'e) shell option" where
  "sh_print env s format args st = with_files st (fprintf env (sh_files st) s format args)"

definition sh_flush :: "'w io_env \<Rightarrow> nat \<Rightarrow> ('w, 'e) shell \<Rightarrow> ('w, 'e) shell option" where
  "sh_flush env s st = with_files st (fflush env (sh_files st) (Some s))"

text \<open>\<open>argv[i]\<close>: the string at an offset of the line; a null pointer has none.\<close>

definition arg :: "bytes \<Rightarrow> nat option list \<Rightarrow> nat \<Rightarrow> bytes option" where
  "arg line argv i = do { p \<leftarrow> rd_at argv i; off \<leftarrow> p; Some (drop off line) }"

definition cmd_cd :: "'w io_env \<Rightarrow> ('w, 'e) shell \<Rightarrow> int \<Rightarrow> bytes \<Rightarrow> nat option list \<Rightarrow> (sh_error \<times> ('w, 'e) shell) option" where
  "cmd_cd env st argc line argv =
     (if argc = 1 then do {
        st1 \<leftarrow> with_files st (fputs env (sh_files st) (ascii ''No directory given'' @ [0x0a, 0]) stderr_at);
        st2 \<leftarrow> sh_flush env stderr_at st1;
        Some (SH_OK, st2) }
      else do {
        path \<leftarrow> arg line argv 1;
        (target, fs1) \<leftarrow> opendir env (sh_files st) path;
        let st1 = st\<lparr>sh_files := fs1\<rparr>;
        case target of None \<Rightarrow> do {
            st2 \<leftarrow> sh_print env stderr_at (ascii ''%s not found'' @ [0x0a, 0]) [VStr path] st1;
            st3 \<leftarrow> sh_flush env stderr_at st2;
            Some (SH_OK, st3) }
        | Some d \<Rightarrow> do {
            dir \<leftarrow> current_dir st1;
            st2 \<leftarrow> with_files st1 (closedir env fs1 dir);
            Some (SH_OK, st2\<lparr>current_dir := Some d\<rparr>) } })"

definition cmd_importfs :: "'w io_env \<Rightarrow> ('w, 'e) shell \<Rightarrow> int \<Rightarrow> bytes \<Rightarrow> nat option list \<Rightarrow> (sh_error \<times> ('w, 'e) shell) option" where
  "cmd_importfs env st argc line argv = do {
     name \<leftarrow> arg line argv 0;
     if argc \<noteq> 3 then do {
       st1 \<leftarrow> sh_print env stderr_at (ascii ''%s: Usage: importfs _channel_ _path_'' @ [0x0a, 0]) [VStr name] st;
       Some (SH_OK, st1) }
     else do {
       chan_path \<leftarrow> arg line argv 1;
       (channel, fs1) \<leftarrow> fopen env (sh_files st) chan_path (zstr ''r+'');
       let st1 = st\<lparr>sh_files := fs1\<rparr>;
       case channel of None \<Rightarrow> do {
           st2 \<leftarrow> sh_print env stderr_at (ascii ''%s: Failed to open %s'' @ [0x0a, 0]) [VStr name, VStr chan_path] st1;
           Some (SH_OK, st2) }
       | Some s \<Rightarrow> do {
           (fid, fs2) \<leftarrow> fileno fs1 s;
           path \<leftarrow> arg line argv 2;
           (r, fs3) \<leftarrow> mount env fs2 fid path;
           let st2 = st1\<lparr>sh_files := fs3\<rparr>;
           if r = -1 then do {
             st3 \<leftarrow> sh_print env stderr_at (ascii ''%s: Failed to mount %s'' @ [0x0a, 0]) [VStr name, VStr path] st2;
             Some (SH_OK, st3) }
           else do {
             st3 \<leftarrow> with_files st2 (puts env fs3 (zstr ''Connection Initialised''));
             st4 \<leftarrow> with_files st3 (fclose env (sh_files st3) s);
             Some (SH_OK, st4) } } } }"

partial_function (option) ls_loop :: "'w io_env \<Rightarrow> nat \<Rightarrow> ('w, 'e) shell \<Rightarrow> ('w, 'e) shell option" where
  "ls_loop env dir st = do {
     (ok, fs1) \<leftarrow> readdir env (sh_files st) dir;
     if ok then do {
       st1 \<leftarrow> with_files (st\<lparr>sh_files := fs1\<rparr>) (printf env fs1 (zstr ''%s '') [VStr (drop 16 (fs_dirent fs1))]);
       ls_loop env dir st1 }
     else Some (st\<lparr>sh_files := fs1\<rparr>) }"

definition cmd_ls :: "'w io_env \<Rightarrow> ('w, 'e) shell \<Rightarrow> (sh_error \<times> ('w, 'e) shell) option" where
  "cmd_ls env st = do {
     dir \<leftarrow> current_dir st;
     fs1 \<leftarrow> rewinddir (sh_files st) dir;
     st1 \<leftarrow> ls_loop env dir (st\<lparr>sh_files := fs1\<rparr>);
     st2 \<leftarrow> with_files st1 (fputc env (sh_files st1) 0x0a stdout_at);
     st3 \<leftarrow> sh_flush env stdout_at st2;
     Some (SH_OK, st3) }"

definition sh_deinit :: "'w io_env \<Rightarrow> ('w, 'e) shell \<Rightarrow> ('w, 'e) shell option" where
  "sh_deinit env st = (case current_dir st of None \<Rightarrow> Some st
     | Some dir \<Rightarrow> map_option (\<lambda>st1. st1\<lparr>current_dir := None\<rparr>) (with_files st (closedir env (sh_files st) dir)))"

definition sh_init :: "'w io_env \<Rightarrow> ('w, 'e) shell \<Rightarrow> (sh_error \<times> ('w, 'e) shell) option" where
  "sh_init env st = do {
     (d, fs1) \<leftarrow> opendir env (sh_files st) (zstr ''/'');
     let st1 = st\<lparr>sh_files := fs1, current_dir := d\<rparr>;
     Some (if d = None then SH_NOTFOUND else SH_OK, st1) }"

subsection \<open>Reading a line\<close>

text \<open>The pointer to the buffer, null before the first line, and its size are kept from line to line.\<close>

definition sh_echo :: "'w io_env \<Rightarrow> int \<Rightarrow> ('w, 'e) shell \<Rightarrow> ('w, 'e) shell option" where
  "sh_echo env c st = do {
     st1 \<leftarrow> with_files st (fputc env (sh_files st) c stdout_at);
     sh_flush env stdout_at st1 }"

text \<open>\<open>if (pos == *buf_size) { ... }\<close>; \<open>None\<close> inside is the return of \<open>SH_NOMEM\<close>.\<close>

definition sh_grow ::
    "'e mmap_op \<Rightarrow> 'e munmap_op \<Rightarrow> u64 \<Rightarrow> u64 \<Rightarrow> u64 \<Rightarrow> ('w, 'e) shell \<Rightarrow>
     ((u64 \<times> u64) option \<times> ('w, 'e) shell) option" where
  "sh_grow mm um buf buf_size pos st =
     (if pos = buf_size then do {
        let new_size = (if buf_size \<noteq> 0 then buf_size * 2 else 64);
        ((tmp, err), h) \<leftarrow> realloc mm um buf new_size (sh_heap st);
        let fs = (case err of None \<Rightarrow> sh_files st | Some e \<Rightarrow> set_errno e (sh_files st));
        Some (if tmp = 0 then None else Some (tmp, new_size), st\<lparr>sh_files := fs, sh_heap := h\<rparr>) }
      else Some (Some (buf, buf_size), st))"

text \<open>\<open>(*buf)[pos++] = v\<close>\<close>

definition sh_store :: "u64 \<Rightarrow> u64 \<Rightarrow> u8 \<Rightarrow> ('w, 'e) shell \<Rightarrow> ('w, 'e) shell option" where
  "sh_store buf pos v st =
     map_option (\<lambda>m. st\<lparr>sh_heap := (sh_heap st)\<lparr>h_mem := m\<rparr>\<rparr>) (st_bytes (h_mem (sh_heap st)) (buf + pos) [v])"

partial_function (option) sh_loop ::
    "'e mmap_op \<Rightarrow> 'e munmap_op \<Rightarrow> 'w io_env \<Rightarrow> u64 \<Rightarrow> u64 \<Rightarrow> u64 \<Rightarrow> int \<Rightarrow> ('w, 'e) shell \<Rightarrow>
     (sh_error \<times> u64 \<times> u64 \<times> ('w, 'e) shell) option" where
  "sh_loop mm um env buf buf_size pos c st =
     (if c = 0x0a then Some (SH_OK, buf, buf_size, st)
      else do {
        (room, st0) \<leftarrow> sh_grow mm um buf buf_size pos st;
        case room of None \<Rightarrow> Some (SH_NOMEM, buf, buf_size, st0)
        | Some (buf1, size1) \<Rightarrow> do {
            (c1, fs1) \<leftarrow> fgetc env (sh_files st0) stdin_at;
            let st1 = st0\<lparr>sh_files := fs1\<rparr>;
            if c1 = 3 then do {
              st2 \<leftarrow> sh_store buf1 pos 0 st1;
              st3 \<leftarrow> sh_echo env 0x0a st2;
              Some (SH_CONT, buf1, size1, st3) }
            else if c1 = -1 then sh_loop mm um env buf1 size1 pos c1 st1
            else if c1 = 0x0a then do {
              st2 \<leftarrow> sh_store buf1 pos 0 st1;
              st3 \<leftarrow> sh_echo env c1 st2;
              Some (SH_OK, buf1, size1, st3) }
            else do {
              st2 \<leftarrow> sh_store buf1 pos (of_int c1) st1;
              st3 \<leftarrow> sh_echo env c1 st2;
              sh_loop mm um env buf1 size1 (pos + 1) c1 st3 } } })"

subsection \<open>Running a line\<close>

text \<open>\<open>for (i = 1; i < argc; i++) argv[i] = strtok(NULL, " ")\<close>\<close>

fun next_args :: "nat \<Rightarrow> bytes \<Rightarrow> nat option \<Rightarrow> (nat option list \<times> bytes) option" where
  "next_args 0 line prev = Some ([], line)"
| "next_args (Suc n) line prev = do {
     (t, prev1, line1) \<leftarrow> strtok_c line None (zstr '' '') prev;
     (ts, line2) \<leftarrow> next_args n line1 prev1;
     Some (t # ts, line2) }"

text \<open>The number of arguments, the array with the null pointer at its end, and the line as it is afterwards.\<close>

definition sh_args :: "bytes \<Rightarrow> (nat \<times> nat option list \<times> bytes) option" where
  "sh_args line = do {
     n \<leftarrow> strcnt_c line 0x20;
     (cmd, prev, line1) \<leftarrow> strtok_c line (Some 0) (zstr '' '') None;
     (ts, line2) \<leftarrow> next_args n line1 prev;
     Some (n + 1, cmd # ts @ [None], line2) }"

text \<open>The last branch of \<open>_execute\<close>.\<close>

definition spawn_error :: "errno option \<Rightarrow> sh_error" where
  "spawn_error e =
     (if e = Some EACCES \<or> e = Some ENOEXEC then SH_INVALID
      else if e = Some EIO \<or> e = Some ENOENT then SH_NOTFOUND
      else if e = Some ENOMEM then SH_NOMEM else SH_OK)"

definition sh_spawn ::
    "(u64 \<Rightarrow> nat \<Rightarrow> bytes) \<Rightarrow> 'w io_env \<Rightarrow> ('w, 'e) shell \<Rightarrow> bytes \<Rightarrow> (sh_error \<times> ('w, 'e) shell) option" where
  "sh_spawn fresh env st cmd = do {
     let fs = (sh_files st)\<lparr>fs_errno := None\<rparr>;
     (r, fs1, k1) \<leftarrow> posix_spawn fresh env fs (sh_kernel st) cmd;
     Some (if r \<noteq> 0 then spawn_error (fs_errno fs1) else SH_OK, st\<lparr>sh_files := fs1, sh_kernel := k1\<rparr>) }"

definition sh_execute ::
    "(u64 \<Rightarrow> nat \<Rightarrow> bytes) \<Rightarrow> 'w io_env \<Rightarrow> ('w, 'e) shell \<Rightarrow> bytes \<Rightarrow> (sh_error \<times> bytes \<times> ('w, 'e) shell) option" where
  "sh_execute fresh env st line0 = do {
     (argc, argv, line) \<leftarrow> sh_args line0;
     cmd \<leftarrow> arg line argv 0;
     is_cd \<leftarrow> strcmp_c cmd (zstr ''cd'');
     (err, st1) \<leftarrow>
       (if is_cd = 0 then cmd_cd env st (int argc) line argv
        else do {
          is_importfs \<leftarrow> strcmp_c cmd (zstr ''importfs'');
          if is_importfs = 0 then cmd_importfs env st (int argc) line argv
          else do {
            is_ls \<leftarrow> strcmp_c cmd (zstr ''ls'');
            if is_ls = 0 then cmd_ls env st else sh_spawn fresh env st cmd } });
     Some (err, line, st1) }"

subsection \<open>The main loop\<close>

text \<open>The message for the result of a line; \<open>exit\<close> is set for \<open>SH_NOMEM\<close>.\<close>

definition sh_report :: "'w io_env \<Rightarrow> sh_error \<Rightarrow> bytes \<Rightarrow> ('w, 'e) shell \<Rightarrow> (bool \<times> ('w, 'e) shell) option" where
  "sh_report env err line st = (case err of
     SH_INVALID \<Rightarrow> do {
       st1 \<leftarrow> sh_print env stderr_at (ascii ''%s is not an executable'' @ [0x0a, 0]) [VStr line] st;
       map_option (Pair False) (sh_flush env stderr_at st1) }
   | SH_NOTFOUND \<Rightarrow> do {
       st1 \<leftarrow> sh_print env stderr_at (ascii ''%s not found'' @ [0x0a, 0]) [VStr line] st;
       map_option (Pair False) (sh_flush env stderr_at st1) }
   | SH_NOMEM \<Rightarrow> map_option (Pair True) (sh_print env stderr_at (ascii ''No memory'' @ [0x0a, 0]) [] st)
   | _ \<Rightarrow> Some (False, st))"

text \<open>
  One line. When there is no memory for it, the line is executed all the same, from whatever the buffer holds.
  The result says whether the loop goes on.
\<close>

definition sh_round ::
    "(u64 \<Rightarrow> nat \<Rightarrow> bytes) \<Rightarrow> 'e mmap_op \<Rightarrow> 'e munmap_op \<Rightarrow> 'w io_env \<Rightarrow> u64 \<Rightarrow> u64 \<Rightarrow> ('w, 'e) shell \<Rightarrow>
     (bool \<times> u64 \<times> u64 \<times> ('w, 'e) shell) option" where
  "sh_round fresh mm um env buf buf_size st = do {
     st1 \<leftarrow> with_files st (printf env (sh_files st) (zstr ''> '') []);
     st2 \<leftarrow> sh_flush env stdout_at st1;
     (err, buf1, size1, st3) \<leftarrow> sh_loop mm um env buf buf_size 0 0 st2;
     if err = SH_CONT then Some (True, buf1, size1, st3)
     else do {
       st4 \<leftarrow> (if err = SH_NOMEM then sh_print env stderr_at (ascii ''No memory'' @ [0x0a, 0]) [] st3 else Some st3);
       line \<leftarrow> ld_bytes (h_mem (sh_heap st4)) buf1 (unat size1);
       (err2, line1, st5) \<leftarrow> sh_execute fresh env st4 line;
       m \<leftarrow> st_bytes (h_mem (sh_heap st5)) buf1 line1;
       let st6 = st5\<lparr>sh_heap := (sh_heap st5)\<lparr>h_mem := m\<rparr>\<rparr>;
       (exit2, st7) \<leftarrow> sh_report env err2 line1 st6;
       if err = SH_NOMEM \<or> exit2
       then map_option (\<lambda>st8. (False, buf1, size1, st8)) (sh_flush env stderr_at st7)
       else Some (True, buf1, size1, st7) } }"

partial_function (option) sh_rounds ::
    "(u64 \<Rightarrow> nat \<Rightarrow> bytes) \<Rightarrow> 'e mmap_op \<Rightarrow> 'e munmap_op \<Rightarrow> 'w io_env \<Rightarrow> u64 \<Rightarrow> u64 \<Rightarrow> ('w, 'e) shell \<Rightarrow>
     (u64 \<times> ('w, 'e) shell) option" where
  "sh_rounds fresh mm um env buf buf_size st = do {
     (more, buf1, size1, st1) \<leftarrow> sh_round fresh mm um env buf buf_size st;
     if more then sh_rounds fresh mm um env buf1 size1 st1 else Some (buf1, st1) }"

definition sh_main ::
    "(u64 \<Rightarrow> nat \<Rightarrow> bytes) \<Rightarrow> 'e mmap_op \<Rightarrow> 'e munmap_op \<Rightarrow> 'w io_env \<Rightarrow> ('w, 'e) shell \<Rightarrow> (int \<times> ('w, 'e) shell) option" where
  "sh_main fresh mm um env st = do {
     (err, st1) \<leftarrow> sh_init env st;
     if err \<noteq> SH_OK then map_option (Pair 1) (sh_deinit env st1)
     else do {
       (buf, st2) \<leftarrow> sh_rounds fresh mm um env 0 0 st1;
       h \<leftarrow> free um buf (sh_heap st2);
       Some (0, st2\<lparr>sh_heap := h\<rparr>) } }"

subsection \<open>No program is started\<close>

lemma mmap_without_rights: "\<exists>e. mmap addr len 0 flags k = Some ((MAP_FAILED, Some e), k)"
  by (simp add: mmap_def sys_mmap_def prot_perm_def errno_ptr_def ERRNO_TOTAL_def layout_simps)

text \<open>What is left of \<open>posix_spawn\<close>: the file is opened, asked for its size and closed.\<close>

definition spawn_outcome :: "'w io_env \<Rightarrow> 'w files \<Rightarrow> bytes \<Rightarrow> 'w files option" where
  "spawn_outcome env fs path = do {
     (f, fs1) \<leftarrow> fopen env fs path (zstr ''r'');
     case f of None \<Rightarrow> Some (set_errno ENOENT fs1)
     | Some s \<Rightarrow> do {
         stream \<leftarrow> rd_at (fs_streams fs1) s;
         (r, st_size, fs2) \<leftarrow> fstat env fs1 (fl_fid stream);
         e \<leftarrow> (if r \<noteq> 0 then Some EACCES
              else map_option (\<lambda>n. if n = 0 then EACCES else ENOMEM) st_size);
         (r, fs3) \<leftarrow> fclose env fs2 s;
         Some (set_errno e fs3) } }"

lemma posix_spawn_eq:
  "posix_spawn fresh env fs k path = map_option (\<lambda>fs'. (-1, fs', k)) (spawn_outcome env fs path)"
proof -
  have m: "\<exists>e. mmap 0 (of_nat n) 0 MAP_ANONYMOUS k = Some ((MAP_FAILED, Some e), k)" for n
    by (rule mmap_without_rights)
  show ?thesis
  proof (cases "fopen env fs path (zstr ''r'')")
    case None
    then show ?thesis by (simp add: posix_spawn_def spawn_outcome_def)
  next
    case (Some r1)
    obtain f fs1 where r1: "r1 = (f, fs1)" by (cases r1)
    show ?thesis
    proof (cases f)
      case None
      then show ?thesis using Some r1 by (simp add: posix_spawn_def spawn_outcome_def)
    next
      case f: (Some s)
      show ?thesis
      proof (cases "do { stream \<leftarrow> rd_at (fs_streams fs1) s; fstat env fs1 (fl_fid stream) }")
        case None
        then show ?thesis using Some r1 f
          by (auto simp: posix_spawn_def spawn_outcome_def split: bind_splits)
      next
        case stat: (Some r2)
        then obtain stream r sz fs2 where st: "rd_at (fs_streams fs1) s = Some stream"
            "fstat env fs1 (fl_fid stream) = Some (r, sz, fs2)"
          by (cases r2) (auto split: bind_splits)
        show ?thesis
        proof (cases sz)
          case None
          then show ?thesis using Some r1 f st
            by (cases "fclose env fs2 s") (auto simp: posix_spawn_def spawn_outcome_def spawn_fail_def)
        next
          case sz: (Some n)
          from m [of n] obtain e where "mmap 0 (of_nat n) 0 MAP_ANONYMOUS k = Some ((MAP_FAILED, Some e), k)" ..
          then show ?thesis using Some r1 f st sz
            by (cases "fclose env fs2 s") (auto simp: posix_spawn_def spawn_outcome_def spawn_fail_def)
        qed
      qed
    qed
  qed
qed

lemma spawn_outcome_errno:
  "spawn_outcome env fs path = Some fs' \<Longrightarrow> fs_errno fs' \<in> {Some ENOENT, Some EACCES, Some ENOMEM}"
  by (auto simp: spawn_outcome_def set_errno_def split: bind_splits option.splits if_splits)

text \<open>
  C38. No program is ever started: \<open>posix_spawn\<close> asks for its memory without any access right, which \<open>mmap\<close> does
  not support, so all it does is to open the file, ask for its size and close it, and the kernel stays as it was.
  The shell reports every command that is not its own as not found, not executable, or as a lack of memory.
\<close>

theorem sh_never_spawns:
  "posix_spawn fresh env fs k path = map_option (\<lambda>fs'. (-1, fs', k)) (spawn_outcome env fs path) \<and>
   sh_spawn fresh env st cmd = map_option (\<lambda>fs'.
       (if fs_errno fs' = Some ENOENT then SH_NOTFOUND else if fs_errno fs' = Some EACCES then SH_INVALID else SH_NOMEM,
        st\<lparr>sh_files := fs'\<rparr>))
     (spawn_outcome env ((sh_files st)\<lparr>fs_errno := None\<rparr>) cmd)"
proof
  show "posix_spawn fresh env fs k path = map_option (\<lambda>fs'. (-1, fs', k)) (spawn_outcome env fs path)"
    by (rule posix_spawn_eq)
  show "sh_spawn fresh env st cmd = map_option (\<lambda>fs'.
       (if fs_errno fs' = Some ENOENT then SH_NOTFOUND else if fs_errno fs' = Some EACCES then SH_INVALID else SH_NOMEM,
        st\<lparr>sh_files := fs'\<rparr>))
     (spawn_outcome env ((sh_files st)\<lparr>fs_errno := None\<rparr>) cmd)"
    using spawn_outcome_errno [of env "(sh_files st)\<lparr>fs_errno := None\<rparr>" cmd]
    by (cases "spawn_outcome env ((sh_files st)\<lparr>fs_errno := None\<rparr>) cmd")
      (auto simp: sh_spawn_def posix_spawn_eq spawn_error_def)
qed

subsection \<open>The words of a line\<close>

text \<open>A line: a word, and further words each after one or more spaces; \<open>rest\<close> follows the terminator.\<close>

fun line_of :: "bytes \<Rightarrow> (nat \<times> bytes) list \<Rightarrow> bytes \<Rightarrow> bytes" where
  "line_of w [] rest = w @ 0 # rest"
| "line_of w ((g, v) # gs) rest = w @ 0x20 # replicate g 0x20 @ line_of v gs rest"

fun cut_line :: "bytes \<Rightarrow> (nat \<times> bytes) list \<Rightarrow> bytes \<Rightarrow> bytes" where
  "cut_line w [] rest = w @ 0 # rest"
| "cut_line w ((g, v) # gs) rest = w @ 0 # replicate g 0x20 @ cut_line v gs rest"

fun offsets :: "nat \<Rightarrow> bytes \<Rightarrow> (nat \<times> bytes) list \<Rightarrow> nat list" where
  "offsets p w [] = [p]"
| "offsets p w ((g, v) # gs) = p # offsets (p + length w + 1 + g) v gs"

definition word :: "bytes \<Rightarrow> bool" where
  "word w \<longleftrightarrow> 0 \<notin> set w \<and> 0x20 \<notin> set w"

lemma space_str: "zstr '' '' = [0x20, 0]"
  by (simp add: zstr_def ascii_def)

lemma strcspn_word: "word w \<Longrightarrow> x = 0 \<or> x = 0x20 \<Longrightarrow> strcspn_c (w @ x # t) (zstr '' '') = Some (length w)"
  by (induction w) (auto simp: word_def space_str)

lemma strspn_spaces: "L \<noteq> [] \<Longrightarrow> hd L \<noteq> 0x20 \<Longrightarrow> strspn_c (replicate g 0x20 @ L) (zstr '' '') = Some g"
  by (induction g) (auto simp: space_str neq_Nil_conv)

lemma strtok_last:
  assumes "word w"
  shows "strtok_c (pre @ w @ 0 # rest) None (zstr '' '') (Some (length pre)) =
    Some (Some (length pre), None, pre @ w @ 0 # rest)"
  using strcspn_word [OF assms, of 0 rest] by (simp add: strtok_c_def nth_append rd_at_def)

lemma strtok_more:
  assumes "word w" "L \<noteq> []" "hd L \<noteq> 0x20"
  shows "strtok_c (pre @ w @ 0x20 # replicate g 0x20 @ L) None (zstr '' '') (Some (length pre)) =
    Some (Some (length pre), Some (length pre + length w + 1 + g), pre @ w @ 0 # replicate g 0x20 @ L)"
  using strcspn_word [OF assms(1), of "0x20" "replicate g 0x20 @ L"] strspn_spaces [OF assms(2,3), of g]
  by (simp add: strtok_c_def nth_append rd_at_def wr_at_def list_update_append set_errno_def)

lemma strtok_start: "strtok_c line (Some 0) sep prev = strtok_c line None sep (Some 0)"
  by (simp add: strtok_c_def)

lemma next_args_done: "next_args n line None = Some (replicate n None, line)"
  by (induction n) (simp_all add: strtok_c_def)

lemma line_of_hd: "w \<noteq> [] \<Longrightarrow> word w \<Longrightarrow> line_of w gs rest \<noteq> [] \<and> hd (line_of w gs rest) \<noteq> 0x20"
  by (cases gs) (auto simp: word_def neq_Nil_conv)

lemma next_args_words:
  assumes "word w" "\<forall>(g, v)\<in>set gs. word v \<and> v \<noteq> []"
  shows "next_args (length gs + 1 + x) (pre @ line_of w gs rest) (Some (length pre)) =
    Some (map Some (offsets (length pre) w gs) @ replicate x None, pre @ cut_line w gs rest)"
  using assms
proof (induction gs arbitrary: pre w)
  case Nil
  then show ?case using strtok_last [of w pre rest] by (simp add: next_args_done)
next
  case (Cons a gs)
  obtain g v where a: "a = (g, v)" by (cases a)
  with Cons.prems have v: "word v" "v \<noteq> []" by auto
  from line_of_hd [OF v(2,1), of gs rest]
  have step: "strtok_c (pre @ line_of w (a # gs) rest) None (zstr '' '') (Some (length pre)) =
      Some (Some (length pre), Some (length pre + length w + 1 + g), pre @ w @ 0 # replicate g 0x20 @ line_of v gs rest)"
    using strtok_more [OF Cons.prems(1)] by (simp add: a)
  define N where "N = length gs + 1 + x"
  have "next_args N ((pre @ w @ 0 # replicate g 0x20) @ line_of v gs rest)
      (Some (length (pre @ w @ 0 # replicate g 0x20))) =
    Some (map Some (offsets (length (pre @ w @ 0 # replicate g 0x20)) v gs) @ replicate x None,
      (pre @ w @ 0 # replicate g 0x20) @ cut_line v gs rest)"
    unfolding N_def using Cons.prems v(1) by (intro Cons.IH) auto
  moreover have "length (a # gs) + 1 + x = Suc N" by (simp add: N_def)
  ultimately show ?case using step by (simp add: a add.assoc)
qed

lemma strcnt_word: "word w \<Longrightarrow> strcnt_c (w @ t) 0x20 = strcnt_c t 0x20"
  by (induction w) (auto simp: word_def option.map_id0 id_def [symmetric])

lemma strcnt_spaces: "strcnt_c (replicate g 0x20 @ t) 0x20 = map_option ((+) g) (strcnt_c t 0x20)"
  by (induction g) (auto simp: option.map_comp o_def option.map_id0 id_def [symmetric])

lemma strcnt_line:
  assumes "word w" "\<forall>(g, v)\<in>set gs. word v \<and> v \<noteq> []"
  shows "strcnt_c (line_of w gs rest) 0x20 = Some (length gs + sum_list (map fst gs))"
  using assms
proof (induction gs arbitrary: w)
  case (Cons a gs)
  then show ?case by (cases a) (auto simp: strcnt_word strcnt_spaces)
qed (simp add: strcnt_word)

lemma offsets_words:
  assumes "word w" "\<forall>(g, v)\<in>set gs. word v \<and> v \<noteq> []" "i < length gs + 1"
  shows "c_str (drop (offsets (length pre) w gs ! i) (pre @ cut_line w gs rest)) = (w # map snd gs) ! i"
  using assms
proof (induction gs arbitrary: pre w i)
  case Nil
  then show ?case by (simp add: word_def c_str_append_nul)
next
  case (Cons a gs)
  obtain g v where a: "a = (g, v)" by (cases a)
  show ?case
  proof (cases i)
    case 0
    then show ?thesis using Cons.prems(1) by (simp add: a word_def c_str_append_nul)
  next
    case (Suc j)
    have "c_str (drop (offsets (length (pre @ w @ 0 # replicate g 0x20)) v gs ! j)
        ((pre @ w @ 0 # replicate g 0x20) @ cut_line v gs rest)) = (v # map snd gs) ! j"
      using Cons.prems a Suc by (intro Cons.IH) auto
    then show ?thesis by (simp add: a Suc add.assoc)
  qed
qed

lemma length_offsets [simp]: "length (offsets p w gs) = length gs + 1"
  by (induction p w gs rule: offsets.induct) auto

text \<open>
  C39. The shell's \<open>argv\<close>: the words of a line, in their order, however many spaces stand between them. \<open>argc\<close> counts
  the spaces, so every space beyond the first between two words adds a null pointer at the end of \<open>argv\<close>, which \<open>argc\<close>
  counts as an argument; the entry after the last one is the null pointer in any case.
\<close>

theorem sh_args_words:
  assumes "word w" "\<forall>(g, v)\<in>set gs. word v \<and> v \<noteq> []"
  shows "\<exists>offs line'. sh_args (line_of w gs rest) =
      Some (length offs + sum_list (map fst gs), map Some offs @ replicate (sum_list (map fst gs) + 1) None, line') \<and>
    map (\<lambda>i. c_str (drop i line')) offs = w # map snd gs"
proof -
  let ?x = "sum_list (map fst gs)" and ?offs = "offsets 0 w gs" and ?line = "cut_line w gs rest"
  have "next_args (length gs + 1 + ?x) ([] @ line_of w gs rest) (Some (length ([] :: bytes))) =
      Some (map Some (offsets (length ([] :: bytes)) w gs) @ replicate ?x None, [] @ ?line)"
    by (rule next_args_words [OF assms])
  then have "next_args (Suc (length gs + ?x)) (line_of w gs rest) (Some 0) =
      Some (map Some ?offs @ replicate ?x None, ?line)" by simp
  then obtain t prev1 line1 ts where first: "strtok_c (line_of w gs rest) None (zstr '' '') (Some 0) = Some (t, prev1, line1)"
      "next_args (length gs + ?x) line1 prev1 = Some (ts, ?line)" "t # ts = map Some ?offs @ replicate ?x None"
    by (auto split: bind_splits)
  have "sh_args (line_of w gs rest) = Some (length gs + ?x + 1, (t # ts) @ [None], ?line)"
    using first(1,2) strcnt_line [OF assms, of rest] by (simp add: sh_args_def strtok_start)
  then have "sh_args (line_of w gs rest) =
      Some (length ?offs + ?x, map Some ?offs @ replicate (?x + 1) None, ?line)"
    unfolding first(3) by (simp add: replicate_append_same)
  moreover have "map (\<lambda>i. c_str (drop i ?line)) ?offs = w # map snd gs"
    by (rule nth_equalityI) (use offsets_words [OF assms, of _ "[]" rest] in auto)
  ultimately show ?thesis by (intro exI conjI)
qed

theorem sh_args_words_witness:
  "\<exists>offs line'. sh_args (ascii ''cd  /a'' @ [0, 7]) = Some (3, map Some offs @ [None, None], line') \<and>
     map (\<lambda>i. c_str (drop i line')) offs = [ascii ''cd'', ascii ''/a'']"
proof -
  have "word (ascii ''cd'')" "\<forall>(g, v)\<in>set [(1, ascii ''/a'')]. word v \<and> v \<noteq> []"
    by (simp_all add: word_def ascii_def)
  from sh_args_words [OF this, of "[7]"]
  have "\<exists>offs line'. sh_args (ascii ''cd'' @ 0x20 # [0x20] @ ascii ''/a'' @ [0, 7]) =
      Some (length offs + 1, map Some offs @ replicate (Suc 1) None, line') \<and>
    map (\<lambda>i. c_str (drop i line')) offs = [ascii ''cd'', ascii ''/a'']"
    by (simp only: line_of.simps list.map sum_list.Cons sum_list.Nil fst_conv snd_conv replicate_Suc replicate_0
      append_Cons append_Nil add_0_right Suc_eq_plus1 [symmetric] One_nat_def add_Suc add_0)
  then obtain offs line' where
      r: "sh_args (ascii ''cd'' @ 0x20 # [0x20] @ ascii ''/a'' @ [0, 7]) =
        Some (length offs + 1, map Some offs @ replicate (Suc 1) None, line')"
        "map (\<lambda>i. c_str (drop i line')) offs = [ascii ''cd'', ascii ''/a'']"
    by (elim exE conjE)
  have "length offs = 2" using arg_cong [OF r(2), of length] by simp
  with r show ?thesis by (intro exI [of _ offs] exI [of _ line']) (simp add: ascii_def)
qed

subsection \<open>The line that is read\<close>

text \<open>The input gives the characters \<open>cs\<close>, and each is written to the output: the process afterwards.\<close>

fun typed :: "'w io_env \<Rightarrow> bytes \<Rightarrow> ('w, 'e) shell \<Rightarrow> ('w, 'e) shell option" where
  "typed env [] st = Some st"
| "typed env (c # cs) st = do {
     (r, fs1) \<leftarrow> fgetc env (sh_files st) stdin_at;
     if r = uint c then do {
       st1 \<leftarrow> sh_echo env (uint c) (st\<lparr>sh_files := fs1\<rparr>);
       typed env cs st1 }
     else None }"

text \<open>The files and the heap of the process do not meet.\<close>

lemma shell_swap: "st\<lparr>sh_heap := h, sh_files := fs\<rparr> = st\<lparr>sh_files := fs, sh_heap := h\<rparr>" for st :: "('w, 'e) shell"
  by (cases st) simp

lemma sh_echo_heap: "sh_echo env c (st\<lparr>sh_heap := h\<rparr>) = map_option (\<lambda>st'. st'\<lparr>sh_heap := h\<rparr>) (sh_echo env c st)"
proof (cases "fputc env (sh_files st) c stdout_at")
  case (Some r)
  obtain n fs where r: "r = (n, fs)" by (cases r)
  then show ?thesis using Some
    by (cases "fflush env fs (Some stdout_at)") (auto simp: sh_echo_def sh_flush_def with_files_def)
qed (simp add: sh_echo_def with_files_def)

text \<open>A buffer of 2048 bytes does not grow: the allocator has no block of 4096 bytes and a header, and the shell gives up the line.\<close>

lemma sh_grow_limit:
  assumes "buf \<noteq> 0" "block_get_size buf (sh_heap st) = Some n" "n \<noteq> 0"
  shows "sh_grow mm um buf 2048 2048 st = Some (None, st\<lparr>sh_files := set_errno ENOMEM (sh_files st)\<rparr>)"
  using assms by (simp add: sh_grow_def realloc_def malloc_def layout_simps SIZEOF_BLOCK_def Let_def)

lemma sh_loop_limit:
  assumes "buf \<noteq> 0" "block_get_size buf (sh_heap st) = Some n" "n \<noteq> 0" "c \<noteq> 0x0a"
  shows "sh_loop mm um env buf 2048 2048 c st = Some (SH_NOMEM, buf, 2048, st\<lparr>sh_files := set_errno ENOMEM (sh_files st)\<rparr>)"
  using assms by (subst sh_loop.simps) (simp add: sh_grow_limit [OF assms(1-3)])

text \<open>The buffer: a null pointer, or the memory of a block in use that is large enough.\<close>

definition buffer_at :: "entry list \<Rightarrow> u64 \<Rightarrow> u64 \<Rightarrow> bool" where
  "buffer_at xs buf sz \<longleftrightarrow> (if buf = 0 then sz = 0
     else \<exists>k. (buf - 24, k) \<in> live_blocks xs \<and> sz \<noteq> 0 \<and> unat sz + 24 \<le> bsize k)"

text \<open>Writing into mapped memory of a process that does not wrap around.\<close>

definition room_at :: "umem \<Rightarrow> u64 \<Rightarrow> nat \<Rightarrow> bool" where
  "room_at m buf n \<longleftrightarrow> range_of buf n \<subseteq> dom m \<and> unat buf + n \<le> 2 ^ 64"

lemma ld_bytes_append:
  "ld_bytes m a (n + k) = do { xs \<leftarrow> ld_bytes m a n; ys \<leftarrow> ld_bytes m (a + of_nat n) k; Some (xs @ ys) }"
  by (induction n arbitrary: a) (auto simp: add.assoc split: bind_splits intro!: Option.bind_cong)

lemma sh_store_ok:
  assumes "room_at (h_mem h) buf n" "ld_bytes (h_mem h) buf (length got) = Some got" "length got < n" "n < 2 ^ 63"
  shows "\<exists>m. sh_store buf (of_nat (length got)) v (st\<lparr>sh_heap := h\<rparr>) = Some (st\<lparr>sh_heap := h\<lparr>h_mem := m\<rparr>\<rparr>) \<and>
    dom m = dom (h_mem h) \<and> (\<forall>x. x \<notin> range_of buf n \<longrightarrow> m x = h_mem h x) \<and>
    ld_bytes m buf (length (got @ [v])) = Some (got @ [v])"
proof -
  let ?a = "buf + of_nat (length got)"
  have pos: "unat (of_nat (length got) :: u64) = length got" using assms(3,4) by (simp add: unat_of_nat)
  have a: "unat ?a = unat buf + length got"
    using assms(1,3) pos by (subst unat_add_no_overflow) (simp_all add: room_at_def)
  have sub: "range_of ?a 1 \<subseteq> range_of buf n" using assms(3) by (auto simp: range_of_def a)
  have mapped: "x \<in> range_of ?a (length [v]) \<Longrightarrow> h_mem h x \<noteq> None" for x
    using assms(1) sub by (auto simp: room_at_def)
  have "unat ?a + length [v] \<le> 2 ^ 64" using assms(1,3) a by (simp add: room_at_def)
  from st_bytes_spec [of ?a "[v]" "h_mem h", OF mapped this] obtain m where
      m: "st_bytes (h_mem h) ?a [v] = Some m" "dom m = dom (h_mem h)"
        "\<forall>x. x \<notin> range_of ?a 1 \<longrightarrow> m x = h_mem h x" "ld_bytes m ?a 1 = Some [v]" by auto
  have "ld_bytes m buf (length got) = ld_bytes (h_mem h) buf (length got)"
  proof (rule ld_bytes_cong)
    show "m x = h_mem h x" if "x \<in> range_of buf (length got)" for x
      using that m(3) by (auto simp: range_of_def a)
  qed (use assms(1,3) in \<open>simp add: room_at_def\<close>)
  then have "ld_bytes m buf (length got + 1) = Some (got @ [v])"
    using assms(2) m(4) unfolding ld_bytes_append [of m buf "length got" 1] by simp
  then have "ld_bytes m buf (length (got @ [v])) = Some (got @ [v])" by simp
  moreover have "sh_store buf (of_nat (length got)) v (st\<lparr>sh_heap := h\<rparr>) = Some (st\<lparr>sh_heap := h\<lparr>h_mem := m\<rparr>\<rparr>)"
    using m(1) by (simp add: sh_store_def del: st_bytes.simps)
  moreover have "\<forall>x. x \<notin> range_of buf n \<longrightarrow> m x = h_mem h x" using m(3) sub by blast
  ultimately show ?thesis using m(2) by blast
qed

lemma sh_loop_reads:
  assumes "typed env (line @ [0x0a]) st = Some st'" "3 \<notin> set line" "0x0a \<notin> set line"
    and "room_at (h_mem h) buf (unat sz)" "ld_bytes (h_mem h) buf (length got) = Some got"
    and "length got + length line < unat sz" "unat sz < 2 ^ 63" "c \<noteq> 0x0a"
  shows "\<exists>m. sh_loop mm um env buf sz (of_nat (length got)) c (st\<lparr>sh_heap := h\<rparr>) =
      Some (SH_OK, buf, sz, st'\<lparr>sh_heap := h\<lparr>h_mem := m\<rparr>\<rparr>) \<and> dom m = dom (h_mem h) \<and>
    (\<forall>x. x \<notin> range_of buf (unat sz) \<longrightarrow> m x = h_mem h x) \<and>
    ld_bytes m buf (length got + length line + 1) = Some (got @ line @ [0])"
  using assms
proof (induction line arbitrary: h got c st)
  case Nil
  then obtain fs1 where g: "fgetc env (sh_files st) stdin_at = Some (0x0a, fs1)"
      "sh_echo env 0x0a (st\<lparr>sh_files := fs1\<rparr>) = Some st'"
    by (auto split: bind_splits if_splits)
  have lt: "length got < unat sz" using Nil.prems(6) by simp
  have pos: "unat (of_nat (length got) :: u64) = length got" using lt Nil.prems(7) by (simp add: unat_of_nat)
  then have ne: "of_nat (length got) \<noteq> sz" using lt by auto
  from sh_store_ok [OF Nil.prems(4,5) lt Nil.prems(7), of 0 "st\<lparr>sh_files := fs1\<rparr>"] obtain m where
      m: "sh_store buf (of_nat (length got)) 0 (st\<lparr>sh_files := fs1, sh_heap := h\<rparr>) =
          Some (st\<lparr>sh_files := fs1\<rparr>\<lparr>sh_heap := h\<lparr>h_mem := m\<rparr>\<rparr>)"
        "dom m = dom (h_mem h)" "\<forall>x. x \<notin> range_of buf (unat sz) \<longrightarrow> m x = h_mem h x"
        "ld_bytes m buf (length got + 1) = Some (got @ [0])" by (auto simp del: ld_bytes.simps)
  have "sh_loop mm um env buf sz (of_nat (length got)) c (st\<lparr>sh_heap := h\<rparr>) =
      Some (SH_OK, buf, sz, st'\<lparr>sh_heap := h\<lparr>h_mem := m\<rparr>\<rparr>)"
    using m(1) g Nil.prems(8) ne by (subst sh_loop.simps) (simp add: sh_grow_def Let_def sh_echo_heap shell_swap)
  then show ?case using m(2-4) by auto
next
  case (Cons x line)
  then obtain fs1 st1 where g: "fgetc env (sh_files st) stdin_at = Some (uint x, fs1)"
      "sh_echo env (uint x) (st\<lparr>sh_files := fs1\<rparr>) = Some st1" "typed env (line @ [0x0a]) st1 = Some st'"
    by (auto split: bind_splits if_splits)
  have lt: "length got < unat sz" using Cons.prems(6) by simp
  have pos: "unat (of_nat (length got) :: u64) = length got" using lt Cons.prems(7) by (simp add: unat_of_nat)
  then have ne: "of_nat (length got) \<noteq> sz" using lt by auto
  from sh_store_ok [OF Cons.prems(4,5) lt Cons.prems(7), of x "st\<lparr>sh_files := fs1\<rparr>"] obtain m where
      m: "sh_store buf (of_nat (length got)) x (st\<lparr>sh_files := fs1, sh_heap := h\<rparr>) =
          Some (st\<lparr>sh_files := fs1\<rparr>\<lparr>sh_heap := h\<lparr>h_mem := m\<rparr>\<rparr>)"
        "dom m = dom (h_mem h)" "\<forall>x. x \<notin> range_of buf (unat sz) \<longrightarrow> m x = h_mem h x"
        "ld_bytes m buf (length (got @ [x])) = Some (got @ [x])" by (auto simp del: ld_bytes.simps)
  have "0 \<le> uint x" by simp
  then have "uint x \<noteq> -1" by linarith
  then have x: "uint x \<noteq> 3" "uint x \<noteq> 0x0a" "uint x \<noteq> -1"
    using Cons.prems(2,3) by (simp_all add: word_uint_eq_iff)
  have room: "room_at (h_mem (h\<lparr>h_mem := m\<rparr>)) buf (unat sz)" using Cons.prems(4) m(2) by (simp add: room_at_def)
  have step: "sh_loop mm um env buf sz (of_nat (length got)) c (st\<lparr>sh_heap := h\<rparr>) =
      sh_loop mm um env buf sz (of_nat (length (got @ [x]))) (uint x) (st1\<lparr>sh_heap := h\<lparr>h_mem := m\<rparr>\<rparr>)"
    using m(1) g(1,2) x Cons.prems(8) ne
    by (subst sh_loop.simps) (simp add: sh_grow_def Let_def sh_echo_heap shell_swap add.commute)
  have "3 \<notin> set line" "0x0a \<notin> set line" "length (got @ [x]) + length line < unat sz"
    using Cons.prems(2,3,6) by auto
  from Cons.IH [OF g(3) this(1,2) room _ this(3) Cons.prems(7) x(2)] m(4) obtain m' where
      "sh_loop mm um env buf sz (of_nat (length (got @ [x]))) (uint x) (st1\<lparr>sh_heap := h\<lparr>h_mem := m\<rparr>\<rparr>) =
        Some (SH_OK, buf, sz, st'\<lparr>sh_heap := h\<lparr>h_mem := m'\<rparr>\<rparr>)"
      "dom m' = dom m" "\<forall>x. x \<notin> range_of buf (unat sz) \<longrightarrow> m' x = m x"
      "ld_bytes m' buf (length (got @ [x]) + length line + 1) = Some ((got @ [x]) @ line @ [0])"
    by auto
  then show ?case using step m(2,3) by auto
qed

text \<open>Writing into a block in use leaves the list of blocks and the other blocks as they are.\<close>

lemma unat_payload: "block_ok m (a, av, k) \<Longrightarrow> unat (a + 24) = unat a + 24"
proof -
  assume ok: "block_ok m (a, av, k)"
  then have "(2 :: nat) ^ 5 \<le> bsize k" by (intro power_increasing) (auto simp: block_ok_def)
  with ok show ?thesis by (subst unat_add_no_overflow) (auto simp: block_ok_def)
qed

lemma block_write:
  assumes "heap_inv m first xs" "(a, k) \<in> live_blocks xs" "n + 24 \<le> bsize k" "dom m' = dom m"
    and "\<forall>x. x \<notin> range_of (a + 24) n \<longrightarrow> m' x = m x"
  shows "heap_inv m' first xs" "(c, j) \<in> live_blocks xs \<Longrightarrow> c \<noteq> a \<Longrightarrow> x \<in> payload c j \<Longrightarrow> m' x = m x"
proof -
  have ok: "block_ok m (a, 0, k)" using assms(1,2) by (auto simp: heap_inv_def live_blocks_def)
  then have a: "unat (a + 24) = unat a + 24" "unat a + bsize k \<le> 2 ^ 64"
    using unat_payload [OF ok] by (simp_all add: block_ok_def)
  have sub: "range_of (a + 24) n \<subseteq> payload a k"
    using assms(3) a(1) by (auto simp: payload_def range_of_def)
  have "m' x = m x" if "x \<in> hdr_area xs" for x
    using payload_headers [OF assms(1,2)] sub that assms(5) by auto
  then show "heap_inv m' first xs"
    using assms(1,4) seg_frame [of m first xs 0 m m'] by (auto simp: heap_inv_def block_ok_def)
  assume c: "(c, j) \<in> live_blocks xs" "c \<noteq> a" "x \<in> payload c j"
  then have "apart (a, 0, k) (c, 0, j)"
    using assms(1,2) by (intro apart_in [of xs]) (auto simp: heap_inv_def live_blocks_def)
  then have "x \<notin> range_of (a + 24) n" using c(3) sub by (auto simp: apart_def payload_def)
  then show "m' x = m x" using assms(5) by simp
qed

lemma block_room:
  assumes "heap_inv m first xs" "(a, k) \<in> live_blocks xs" "n + 24 \<le> bsize k"
  shows "room_at m (a + 24) n" "n < 2 ^ 63"
proof -
  have ok: "block_ok m (a, 0, k)" using assms(1,2) by (auto simp: heap_inv_def live_blocks_def)
  then have a: "unat (a + 24) = unat a + 24" by (rule unat_payload)
  have "range_of (a + 24) n \<subseteq> range_of a (bsize k)" using assms(3) a by (auto simp: range_of_def)
  then show "room_at m (a + 24) n" using ok assms(3) a by (auto simp: room_at_def block_ok_def)
  have "unat k \<le> 12" using ok by (simp add: block_ok_def)
  then have "bsize k \<le> 2 ^ 12" by (rule power_increasing) simp
  then show "n < 2 ^ 63" using assms(3) by simp
qed

lemma loop_in_block:
  assumes "heap_inv (h_mem h) (first_block h) xs" "(a, k) \<in> live_blocks xs" "unat sz + 24 \<le> bsize k"
    and "typed env (line @ [0x0a]) st = Some st'" "3 \<notin> set line" "0x0a \<notin> set line" "length line < unat sz"
  shows "\<exists>h'. sh_loop mm um env (a + 24) sz 0 0 (st\<lparr>sh_heap := h\<rparr>) = Some (SH_OK, a + 24, sz, st'\<lparr>sh_heap := h'\<rparr>) \<and>
    heap_inv (h_mem h') (first_block h') xs \<and> ld_bytes (h_mem h') (a + 24) (length line + 1) = Some (line @ [0]) \<and>
    (\<forall>(c, j)\<in>live_blocks xs. c \<noteq> a \<longrightarrow> (\<forall>x\<in>payload c j. h_mem h' x = h_mem h x))"
proof -
  have "ld_bytes (h_mem h) (a + 24) (length ([] :: bytes)) = Some []" by simp
  from sh_loop_reads [OF assms(4-6) block_room(1) [OF assms(1-3)] this _ block_room(2) [OF assms(1-3)], of 0 mm um] assms(7)
  obtain m where m: "sh_loop mm um env (a + 24) sz 0 0 (st\<lparr>sh_heap := h\<rparr>) =
      Some (SH_OK, a + 24, sz, st'\<lparr>sh_heap := h\<lparr>h_mem := m\<rparr>\<rparr>)" "dom m = dom (h_mem h)"
      "\<forall>x. x \<notin> range_of (a + 24) (unat sz) \<longrightarrow> m x = h_mem h x"
      "ld_bytes m (a + 24) (length line + 1) = Some (line @ [0])" by auto
  note w = block_write [OF assms(1-3) m(2,3)]
  then show ?thesis using m(1,4) by (intro exI [of _ "h\<lparr>h_mem := m\<rparr>"]) auto
qed

text \<open>The first character of a line makes a buffer.\<close>

lemma first_realloc:
  "realloc mm um 0 64 h = do { ((p, e), h1) \<leftarrow> malloc mm 64 h; Some (if p = 0 then (0, Some ENOMEM) else (p, e), h1) }"
  by (auto simp: realloc_def free_def copy_mem_def memcpy_c_def Let_def split: bind_splits intro!: Option.bind_cong)

text \<open>
  C40. Reading a line that fits: before the first line the shell has no buffer, and takes a block of the allocator for 64
  bytes; later it has a block. A line that is shorter than the buffer is put into it with a terminator, each character
  is echoed, the list of blocks stays well-formed and no other block in use changes. The other outcome is that
  there is no memory for the first buffer: then the allocator writes through the failure value of \<open>mmap\<close>. Longer
  lines, for which the buffer has to grow, are not covered: \<open>realloc\<close> copies as many bytes as the whole old block has,
  header included, and \<open>free\<close> merges it with whatever its buddy is. At 2048 characters no block is large enough
  and the line is given up (\<open>sh_loop_limit\<close>).
\<close>

theorem sh_loop_line:
  assumes "mmap_pages mm" "heap_inv (h_mem (sh_heap st)) (first_block (sh_heap st)) xs" "h_mem (sh_heap st) MAP_FAILED = None"
    and "buffer_at xs buf sz" "typed env (line @ [0x0a]) st = Some st'" "3 \<notin> set line" "0x0a \<notin> set line"
    and "length line < (if buf = 0 then 64 else unat sz)"
  shows "(\<exists>buf' sz' h xs'. sh_loop mm um env buf sz 0 0 st = Some (SH_OK, buf', sz', st'\<lparr>sh_heap := h\<rparr>) \<and>
      heap_inv (h_mem h) (first_block h) xs' \<and> buffer_at xs' buf' sz' \<and> buf' \<noteq> 0 \<and>
      ld_bytes (h_mem h) buf' (length line + 1) = Some (line @ [0]) \<and> live_blocks xs \<subseteq> live_blocks xs' \<and>
      (\<forall>(c, j)\<in>live_blocks xs. c + SIZEOF_BLOCK \<noteq> buf' \<longrightarrow> (\<forall>x\<in>payload c j. h_mem h x = h_mem (sh_heap st) x))) \<or>
    (sh_loop mm um env buf sz 0 0 st = None \<and> buf = 0 \<and>
      (\<exists>m e. mm (h_mem (sh_heap st), h_env (sh_heap st)) = Some (MAP_FAILED, m, e)))"
proof (cases "buf = 0")
  case False
  then obtain k where k: "(buf - 24, k) \<in> live_blocks xs" "sz \<noteq> 0" "unat sz + 24 \<le> bsize k"
    using assms(4) by (auto simp: buffer_at_def)
  obtain h where "sh_loop mm um env (buf - 24 + 24) sz 0 0 (st\<lparr>sh_heap := sh_heap st\<rparr>) =
        Some (SH_OK, buf - 24 + 24, sz, st'\<lparr>sh_heap := h\<rparr>)"
      "heap_inv (h_mem h) (first_block h) xs" "ld_bytes (h_mem h) (buf - 24 + 24) (length line + 1) = Some (line @ [0])"
      "\<forall>(c, j)\<in>live_blocks xs. c \<noteq> buf - 24 \<longrightarrow> (\<forall>x\<in>payload c j. h_mem h x = h_mem (sh_heap st) x)"
    using loop_in_block [OF assms(2) k(1,3) assms(5-7), of mm um] assms(8) False by auto
  then show ?thesis using False assms(4)
    by (intro disjI1 exI [of _ buf] exI [of _ sz] exI [of _ h] exI [of _ xs]) (auto simp: SIZEOF_BLOCK_def)
next
  case True
  then have sz: "sz = 0" using assms(4) by (simp add: buffer_at_def)
  have grow: "sh_grow mm um 0 0 0 st = do { ((p, e), h1) \<leftarrow> malloc mm 64 (sh_heap st);
      let e' = (if p = 0 then Some ENOMEM else e);
      Some (if p = 0 then None else Some (p, 64),
        st\<lparr>sh_files := (case e' of None \<Rightarrow> sh_files st | Some x \<Rightarrow> set_errno x (sh_files st)), sh_heap := h1\<rparr>) }"
    by (auto simp: sh_grow_def first_realloc Let_def split: bind_splits if_splits intro!: Option.bind_cong)
  have "0 < unat (64 :: u64)" "unat (64 :: u64) + 24 < 4096" by simp_all
  from malloc_takes_block' [OF assms(1-3) this] show ?thesis
  proof
    assume "\<exists>a k h1 xs'. malloc mm 64 (sh_heap st) = Some ((a + SIZEOF_BLOCK, None), h1) \<and>
      taken (sh_heap st) xs a k h1 xs' \<and> unat (64 :: u64) + 24 < bsize k \<and> bsize k \<le> 2 * (unat (64 :: u64) + 24) \<and> bsize k dvd unat a"
    then obtain a k h1 xs' where got: "malloc mm 64 (sh_heap st) = Some ((a + 24, None), h1)" "taken (sh_heap st) xs a k h1 xs'"
        "64 + 24 < bsize k" by (auto simp: SIZEOF_BLOCK_def)
    have live: "heap_inv (h_mem h1) (first_block h1) xs'" "(a, k) \<in> live_blocks xs'" "live_blocks xs \<subseteq> live_blocks xs'"
      using got(2) by (auto simp: taken_def)
    have "block_ok (h_mem h1) (a, 0, k)" using live(1,2) by (auto simp: heap_inv_def live_blocks_def)
    then have "unat (a + 24) = unat a + 24" by (rule unat_payload)
    then have nz: "a + 24 \<noteq> 0" by auto
    have "sh_loop mm um env 0 0 0 0 st = sh_loop mm um env (a + 24) 64 0 0 (st\<lparr>sh_heap := h1\<rparr>)"
      using grow got(1) nz by (subst (1 2) sh_loop.simps) (simp add: sh_grow_def)
    moreover obtain h where h: "sh_loop mm um env (a + 24) 64 0 0 (st\<lparr>sh_heap := h1\<rparr>) = Some (SH_OK, a + 24, 64, st'\<lparr>sh_heap := h\<rparr>)"
        "heap_inv (h_mem h) (first_block h) xs'" "ld_bytes (h_mem h) (a + 24) (length line + 1) = Some (line @ [0])"
        "\<forall>(c, j)\<in>live_blocks xs'. c \<noteq> a \<longrightarrow> (\<forall>x\<in>payload c j. h_mem h x = h_mem h1 x)"
      using loop_in_block [OF live(1,2) _ assms(5-7), of 64 mm um] got(3) assms(8) True by auto
    moreover have "h_mem h x = h_mem (sh_heap st) x" if "(c, j) \<in> live_blocks xs" "c + SIZEOF_BLOCK \<noteq> a + 24" "x \<in> payload c j" for c j x
    proof -
      have "(c, j) \<in> live_blocks xs'" "c \<noteq> a" using that(1,2) live(3) by (auto simp: SIZEOF_BLOCK_def)
      then have "h_mem h x = h_mem h1 x" using h(4) that(3) by blast
      also have "\<dots> = h_mem (sh_heap st) x" using got(2) that(1,3) by (fastforce simp: taken_def)
      finally show ?thesis .
    qed
    moreover have "buffer_at xs' (a + 24) 64" using nz live(2) got(3) by (auto simp: buffer_at_def intro: exI [of _ k])
    ultimately show ?thesis using True sz live(3) nz
      by (intro disjI1 exI [of _ "a + 24"] exI [of _ 64] exI [of _ h] exI [of _ xs']) auto
  next
    assume failed: "malloc mm 64 (sh_heap st) = None \<and>
      (\<exists>m e. mm (h_mem (sh_heap st), h_env (sh_heap st)) = Some (MAP_FAILED, m, e))"
    then have "sh_loop mm um env 0 0 0 0 st = None" using grow by (subst sh_loop.simps) simp
    then show ?thesis using failed True sz by auto
  qed
qed

text \<open>A process with two characters in the buffer of its input.\<close>

definition test_stack :: vfs_msg where
  "test_stack = \<lparr>v_fcall = blank_fcall, v_mq_id = 0\<rparr>"

definition test_env :: "unit io_env" where
  "test_env = \<lparr>i_open = \<lambda>name w. (-1, w), i_send = \<lambda>q buf n w. (-1, w), i_receive = \<lambda>q buf n w. (-1, buf, w),
     i_close = \<lambda>q w. w, i_unlink = \<lambda>name w. w, i_malloc = \<lambda>n. Some (replicate n 0), i_pid = VLong 1,
     i_stack = test_stack\<rparr>"

definition test_files :: "unit files" where
  "test_files = (start_files ())\<lparr>fs_streams := replicate FOPEN_MAX closed_file @
     [std_in\<lparr>fl_buf := Some [0x41, 0x0a], fl_r_end := Some 2\<rparr>, std_out\<lparr>fl_flags := 0\<rparr>, std_out]\<rparr>"

definition test_shell :: "(unit, unit) shell" where
  "test_shell = \<lparr>sh_files = test_files, sh_kernel = \<lparr>k_mem = \<lparr>cells = \<lambda>a. 0, pmap = replicate MEM_MAP_SIZE 0\<rparr>, k_sched = sched_init 0x1000\<rparr>,
     sh_heap = empty_heap, current_dir = None\<rparr>"

lemma test_typed: "\<exists>st'. typed test_env ([0x41] @ [0x0a]) test_shell = Some st'"
  by (simp add: test_shell_def test_files_def start_files_def std_in_def std_out_def fgetc_def put_stream_def sh_echo_def
      with_files_def fputc_def sh_flush_def fflush_def rd_at_def wr_at_def nth_append layout_simps Let_def
      list_update_append set_errno_def)

theorem sh_loop_line_witness:
  "\<exists>buf sz st'. sh_loop one_page_mmap (\<lambda>p x. Some x) test_env 0 0 0 0 test_shell = Some (SH_OK, buf, sz, st') \<and>
     ld_bytes (h_mem (sh_heap st')) buf 2 = Some [0x41, 0]"
proof -
  obtain st' where st': "typed test_env ([0x41] @ [0x0a]) test_shell = Some st'" using test_typed ..
  have heap: "heap_inv (h_mem (sh_heap test_shell)) (first_block (sh_heap test_shell)) []"
      "h_mem (sh_heap test_shell) MAP_FAILED = None"
    by (simp_all add: test_shell_def empty_heap_def heap_inv_def)
  have "buffer_at [] 0 0" by (simp add: buffer_at_def)
  moreover have "3 \<notin> set [0x41 :: u8]" "0x0a \<notin> set [0x41 :: u8]" by simp_all
  moreover have "length [0x41 :: u8] < (if (0 :: u64) = 0 then 64 else unat (0 :: u64))" by simp
  moreover have "one_page_mmap (h_mem (sh_heap test_shell), h_env (sh_heap test_shell)) \<noteq> Some (MAP_FAILED, m, e)" for m e
    using one_page_first by (simp add: test_shell_def MAP_FAILED_def)
  ultimately show ?thesis
    using sh_loop_line [OF one_page_mmap_pages heap _ st', of 0 0 "\<lambda>p x. Some x"] by (auto simp: numeral_2_eq_2)
qed

end
