(* ===== verification/Export.thy ===== *)
theory Export
  imports Shell Alloc
begin

text \<open>
  The remaining programs: \<^verbatim>\<open>bin/exportfs\<close>, which passes the messages that arrive on a channel on to the file server
  and writes the answers back, and what every process does before and after \<open>main\<close> (\<^verbatim>\<open>lib/c/init.c\<close>,
  \<^verbatim>\<open>lib/c/stdlib/exit.c\<close>). Opening a queue is an argument here, as it needs the flags.
\<close>

subsection \<open>The start and the end of a process\<close>

definition libc_init :: "'w io_env \<Rightarrow> 'w files \<Rightarrow> 'w files option" where
  "libc_init env fs = map_option snd (file_init env fs)"

definition libc_deinit :: "'w io_env \<Rightarrow> 'e munmap_op \<Rightarrow> 'w files \<Rightarrow> 'e heap \<Rightarrow> ('w files \<times> 'e heap) option" where
  "libc_deinit env um fs h = do {
     fs1 \<leftarrow> file_deinit env fs;
     h1 \<leftarrow> block_deinit um h;
     Some (fs1, h1) }"

definition exit_c :: "int \<Rightarrow> kernel \<Rightarrow> (exit_result \<times> kernel) option" where
  "exit_c status k = sys_exit status k"

subsection \<open>Reading the channel\<close>

text \<open>\<open>while ((c = fgetc(channel)) != EOF) buf[len++] = c;\<close>\<close>

partial_function (option) export_fill ::
    "'w io_env \<Rightarrow> nat \<Rightarrow> bytes \<Rightarrow> u64 \<Rightarrow> 'w files \<Rightarrow> (bytes \<times> u64 \<times> 'w files) option" where
  "export_fill env channel buf len fs = do {
     (c, fs1) \<leftarrow> fgetc env fs channel;
     if c = -1 then Some (buf, len, fs1)
     else do {
       buf1 \<leftarrow> wr_at buf (unat len) (of_int c);
       export_fill env channel buf1 (len + 1) fs1 } }"

text \<open>
  \<open>channel->offset = 0; channel->flags |= ~F_EOF;\<close> The macro \<open>F_EOF\<close> is \<open>1 << 1\<close> without parentheses, so that the complement
  is the one of 1, shifted.
\<close>

definition export_reset :: "nat \<Rightarrow> 'w files \<Rightarrow> 'w files option" where
  "export_reset channel fs = do {
     f \<leftarrow> rd_at (fs_streams fs) channel;
     put_stream channel (f\<lparr>fl_offset := 0, fl_flags := fl_flags f OR (push_bit 1 (NOT 1))\<rparr>) fs }"

subsection \<open>One message\<close>

text \<open>The size and the queue id are read and written as the code has them: the size and the new ids are one byte.\<close>

definition export_size :: "bytes \<Rightarrow> nat option" where
  "export_size buf = map_option unat (rd_at buf 0)"

definition export_answer ::
    "'w io_env \<Rightarrow> nat \<Rightarrow> u32 \<Rightarrow> bytes \<Rightarrow> u64 \<Rightarrow> 'w files \<Rightarrow> (bytes \<times> u64 \<times> 'w files) option" where
  "export_answer env channel old_mq buf len fs = do {
     msg_size \<leftarrow> export_size buf;
     buf1 \<leftarrow> wr_at buf msg_size (ucast old_mq);
     (n, fs1) \<leftarrow> fwrite env fs buf1 1 (msg_size + 4) channel;
     if n = 0 then do {
       (r, fs2) \<leftarrow> fprintf env fs1 stderr_at (ascii ''Failed to return response'' @ [0x0a, 0]) [];
       (r, fs3) \<leftarrow> fflush env fs2 (Some stderr_at);
       Some (buf1, len, fs3) }
     else do {
       (r, fs2) \<leftarrow> fflush env fs1 (Some channel);
       Some (buf1, 0, fs2) } }"

definition export_round ::
    "'w io_env \<Rightarrow> nat \<Rightarrow> u32 \<Rightarrow> u32 \<Rightarrow> bytes \<Rightarrow> u64 \<Rightarrow> 'w files \<Rightarrow> (bytes \<times> u64 \<times> 'w files) option" where
  "export_round env channel mq_vfs mq_in buf0 len0 fs0 = do {
     (buf, len, fs) \<leftarrow> export_fill env channel buf0 len0 fs0;
     if len = 0 then map_option (\<lambda>fs1. (buf, len, fs1)) (export_reset channel fs)
     else do {
       msg_size \<leftarrow> export_size buf;
       if unat len < msg_size \<or> msg_size = 0 then map_option (\<lambda>fs1. (buf, len, fs1)) (export_reset channel fs)
       else do {
         old \<leftarrow> rd_bytes buf msg_size 4;
         let old_mq = (of_nat (le_val old) :: u32);
         buf1 \<leftarrow> wr_at buf msg_size (ucast mq_in);
         let (r, w) = i_send env mq_vfs buf1 (unat (len + 4)) (fs_world fs);
         let fs1 = fs\<lparr>fs_world := w\<rparr>;
         if r = -1 then map_option (\<lambda>(r, fs2). (buf1, len, fs2)) (puts env fs1 (zstr ''Failed to forward message''))
         else do {
           let (r, buf2, w) = i_receive env mq_in buf1 VFS_MAX_MSG_LEN (fs_world fs1);
           let fs2 = fs1\<lparr>fs_world := w\<rparr>;
           if r = -1 then map_option (\<lambda>(r, fs3). (buf2, len, fs3)) (puts env fs2 (zstr ''Failed to receive response''))
           else export_answer env channel old_mq buf2 len fs2 } } } }"

text \<open>\<open>while (1)\<close>: there is no way out of the loop.\<close>

partial_function (option) export_serve ::
    "'w io_env \<Rightarrow> nat \<Rightarrow> u32 \<Rightarrow> u32 \<Rightarrow> bytes \<Rightarrow> u64 \<Rightarrow> 'w files \<Rightarrow> (int \<times> 'w files) option" where
  "export_serve env channel mq_vfs mq_in buf len fs = do {
     (buf1, len1, fs1) \<leftarrow> export_round env channel mq_vfs mq_in buf len fs;
     export_serve env channel mq_vfs mq_in buf1 len1 fs1 }"

subsection \<open>The program\<close>

text \<open>\<open>fprintf(stderr, ...); fflush(stderr); fclose(channel);\<close>\<close>

definition export_fail :: "'w io_env \<Rightarrow> string \<Rightarrow> nat \<Rightarrow> 'w files \<Rightarrow> 'w files option" where
  "export_fail env what channel fs = do {
     (r, fs1) \<leftarrow> fprintf env fs stderr_at (ascii what @ [0x0a, 0]) [];
     (r, fs2) \<leftarrow> fflush env fs1 (Some stderr_at);
     (r, fs3) \<leftarrow> fclose env fs2 channel;
     Some fs3 }"

text \<open>\<open>buf\<close> is what the array of the function holds at first.\<close>

definition export_main ::
    "(bytes \<Rightarrow> u32 \<Rightarrow> 'w \<Rightarrow> u32 \<times> 'w) \<Rightarrow> 'w io_env \<Rightarrow> bytes \<Rightarrow> int \<Rightarrow> bytes list \<Rightarrow> 'w files \<Rightarrow> (int \<times> 'w files) option" where
  "export_main open_q env buf argc argv fs =
     (if argc = 1 then do {
        (r, fs1) \<leftarrow> fprintf env fs stderr_at (ascii ''No device given '' @ [0x0a, 0]) [];
        Some (1, fs1) }
      else do {
        device \<leftarrow> rd_at argv 1;
        (channel, fs1) \<leftarrow> fopen env (fs\<lparr>fs_errno := None\<rparr>) device (zstr ''r+'');
        case channel of None \<Rightarrow> do {
            (r, fs2) \<leftarrow> fprintf env fs1 stderr_at (ascii ''Device %s was not found'' @ [0x0a, 0]) [VStr device];
            Some (1, fs2) }
        | Some s \<Rightarrow> do {
            let (mq_vfs, w) = open_q (zstr ''vfs/server'') O_WRONLY (fs_world fs1);
            let fs2 = fs1\<lparr>fs_errno := None, fs_world := w\<rparr>;
            if mq_vfs = -1 then
              map_option (Pair 1) (export_fail env ''Failed to initialise connection to VFS'' s fs2)
            else do {
              let (mq_in, w) = open_q (zstr ''vfs/export'') (O_RDONLY OR O_CREAT OR O_EXCL) (fs_world fs2);
              let fs3 = fs2\<lparr>fs_errno := None, fs_world := w\<rparr>;
              if mq_in = -1 then do {
                fs4 \<leftarrow> export_fail env ''Failed to create message queue'' s fs3;
                Some (1, fs4\<lparr>fs_world := i_close env mq_vfs (fs_world fs4)\<rparr>) }
              else do {
                (r, fs4) \<leftarrow> puts env fs3 (zstr ''Initialising server...'');
                export_serve env s mq_vfs mq_in buf 0 fs4 } } } })"

subsection \<open>What the loop does\<close>

lemma export_serve_never: "export_serve env channel mq_vfs mq_in buf len fs = None"
proof -
  have False if run: "export_serve env channel mq_vfs mq_in buf len fs = Some r" for r
    by (rule export_serve.raw_induct [where P = "\<lambda>env channel mq_vfs mq_in buf len fs r. False", OF _ run])
      (auto split: bind_splits)
  then show ?thesis by (cases "export_serve env channel mq_vfs mq_in buf len fs") auto
qed

text \<open>
  The reset is meant to clear the mark of the end of the file. It keeps the mark and sets every one above it: from then on
  the channel counts as opened for appending, and an answer that was sent leaves its offset at -1.
\<close>

lemma export_reset_flags:
  assumes "rd_at (fs_streams fs) channel = Some f"
  shows "\<exists>fs' f'. export_reset channel fs = Some fs' \<and> rd_at (fs_streams fs') channel = Some f' \<and>
    fl_offset f' = 0 \<and> fl_flags f' AND F_EOF = fl_flags f AND F_EOF \<and> fl_flags f' AND F_APPEND \<noteq> 0"
proof -
  define flags where "flags = fl_flags f OR push_bit 1 (NOT (1 :: u32))"
  have eof: "F_EOF = push_bit 1 1" by (simp add: F_EOF_def)
  have "bit F_EOF n \<longleftrightarrow> n = 1" if "n < 32" for n
    using that unfolding eof bit_push_bit_iff bit_1_iff by auto
  then have "flags AND F_EOF = fl_flags f AND F_EOF"
    by (intro bit_word_eqI) (auto simp: flags_def bit_and_iff bit_or_iff bit_push_bit_iff)
  moreover have "bit flags 4" by (simp add: flags_def bit_simps)
  then have "bit (flags AND F_APPEND) 4" by (simp add: bit_and_iff F_APPEND_def)
  then have "flags AND F_APPEND \<noteq> 0" by (metis bit_0_eq bot_apply bot_bool_def)
  ultimately show ?thesis using assms
    by (auto simp: export_reset_def flags_def put_stream_def rd_at_def wr_at_def split: if_splits)
qed

end
