(* ===== verification/Kernel_Start.thy ===== *)
theory Kernel_Start
  imports Kernel_Io
begin

text \<open>
  The panic of the kernel (\<^verbatim>\<open>kernel/panic.c\<close>) and its table of system calls (\<^verbatim>\<open>kernel/syscalls.c\<close>). Elsewhere in the
  development a panic is the result \<open>None\<close>; here is what it sends to the serial line before it hangs.
\<close>

subsection \<open>Panic\<close>

definition panic_output ::
    "bytes \<Rightarrow> bytes \<Rightarrow> u32 \<Rightarrow> bytes \<Rightarrow> bytes \<Rightarrow> bytes \<Rightarrow> (bytes \<times> bytes) option" where
  "panic_output msg file line func io_buffer uart = do {
     (r, buf1, uart1) \<leftarrow> io_fmt ([0x0a, 0x0a] @ ascii ''----- KERNEL PANIC -----'' @ [0x0a, 0]) [] io_buffer uart;
     (r, buf2, uart2) \<leftarrow> io_fmt (ascii ''%s::%s::%d::%s'' @ [0x0a, 0]) [VStr file, VStr func, VInt line, VStr msg] buf1 uart1;
     (r, buf3, uart3) \<leftarrow> io_fmt (ascii ''Hanging...'' @ [0x0a, 0]) [] buf2 uart2;
     Some (buf3, uart3) }"

text \<open>\<open>for (;;);\<close>\<close>

partial_function (option) panic_hang :: "bytes \<Rightarrow> bytes option" where
  "panic_hang uart = panic_hang uart"

definition panic_k :: "bytes \<Rightarrow> bytes \<Rightarrow> u32 \<Rightarrow> bytes \<Rightarrow> bytes \<Rightarrow> bytes \<Rightarrow> bytes option" where
  "panic_k msg file line func io_buffer uart = do {
     (buf, uart1) \<leftarrow> panic_output msg file line func io_buffer uart;
     panic_hang uart1 }"

lemma panic_never_returns: "panic_k msg file line func io_buffer uart = None"
proof -
  have False if run: "panic_hang u = Some r" for u r
    by (rule panic_hang.raw_induct [where P = "\<lambda>u r. False", OF _ run]) auto
  then have "panic_hang u = None" for u by (cases "panic_hang u") auto
  then show ?thesis by (auto simp: panic_k_def split: bind_splits)
qed

lemma panic_render:
  assumes "terminated file" "terminated func" "terminated msg"
  shows "render (ascii ''%s::%s::%d::%s'' @ [0x0a, 0]) [VStr file, VStr func, VInt line, VStr msg] =
    map_option (\<lambda>n. c_str file @ ascii ''::'' @ c_str func @ ascii ''::'' @ n @ ascii ''::'' @ c_str msg @ [0x0a])
      (render_int (scast line))"
  using assms by (cases "render_int (scast line :: u64)") (simp_all add: ascii_def render_conv_def)

text \<open>A panic sends its place and its message, cut to the size of the buffer, between two fixed lines.\<close>

lemma panic_prints:
  assumes "terminated file" "terminated func" "terminated msg" "length io_buffer = IO_BUFFER_SIZE"
  shows "\<exists>n buf. render_int (scast line) = Some n \<and>
    panic_output msg file line func io_buffer uart = Some (buf,
      uart @ [0x0a, 0x0a] @ ascii ''----- KERNEL PANIC -----'' @ [0x0a] @
      take IO_BUFFER_SIZE (c_str file @ ascii ''::'' @ c_str func @ ascii ''::'' @ n @ ascii ''::'' @ c_str msg @ [0x0a]) @
      ascii ''Hanging...'' @ [0x0a])"
proof -
  obtain n where n: "render_int (scast line) = Some n" using render_int_short [of line] by auto
  have first: "render ([0x0a, 0x0a] @ ascii ''----- KERNEL PANIC -----'' @ [0x0a, 0]) [] =
      Some ([0x0a, 0x0a] @ ascii ''----- KERNEL PANIC -----'' @ [0x0a])"
    and last: "render (ascii ''Hanging...'' @ [0x0a, 0]) [] = Some (ascii ''Hanging...'' @ [0x0a])"
    by (simp_all add: ascii_def)
  note second = panic_render [OF assms(1-3), of line, unfolded n option.map]
  obtain b1 where b1: "length b1 = IO_BUFFER_SIZE"
      "io_fmt ([0x0a, 0x0a] @ ascii ''----- KERNEL PANIC -----'' @ [0x0a, 0]) [] io_buffer uart =
        Some (int (min IO_BUFFER_SIZE 27) + 1, b1, uart @ [0x0a, 0x0a] @ ascii ''----- KERNEL PANIC -----'' @ [0x0a])"
    using io_fmt_prints [OF first assms(4), of uart] by (auto simp: ascii_def IO_BUFFER_SIZE_def)
  define u1 where "u1 = uart @ [0x0a, 0x0a] @ ascii ''----- KERNEL PANIC -----'' @ [0x0a]"
  define t where "t = c_str file @ ascii ''::'' @ c_str func @ ascii ''::'' @ n @ ascii ''::'' @ c_str msg @ [0x0a]"
  obtain b2 where b2: "length b2 = IO_BUFFER_SIZE"
      "io_fmt (ascii ''%s::%s::%d::%s'' @ [0x0a, 0]) [VStr file, VStr func, VInt line, VStr msg] b1 u1 =
        Some (int (min IO_BUFFER_SIZE (length t)) + 1, b2, u1 @ take IO_BUFFER_SIZE t)"
    using io_fmt_prints [OF second b1(1), of u1] unfolding t_def by blast
  obtain b3 where "io_fmt (ascii ''Hanging...'' @ [0x0a, 0]) [] b2 (u1 @ take IO_BUFFER_SIZE t) =
      Some (int (min IO_BUFFER_SIZE (length (ascii ''Hanging...'' @ [0x0a]))) + 1, b3,
        (u1 @ take IO_BUFFER_SIZE t) @ take IO_BUFFER_SIZE (ascii ''Hanging...'' @ [0x0a]))"
    using io_fmt_prints [OF last b2(1), of "u1 @ take IO_BUFFER_SIZE t"] by blast
  moreover have "take IO_BUFFER_SIZE (ascii ''Hanging...'' @ [0x0a]) = ascii ''Hanging...'' @ [0x0a]"
    by (simp add: ascii_def IO_BUFFER_SIZE_def)
  moreover note b1(2) [folded u1_def] b2(2)
  ultimately have "panic_output msg file line func io_buffer uart = Some (b3,
      u1 @ take IO_BUFFER_SIZE t @ ascii ''Hanging...'' @ [0x0a])"
    unfolding panic_output_def by simp
  then show ?thesis using n by (auto simp: u1_def t_def)
qed

subsection \<open>The table of system calls\<close>

datatype syscall_handler = h_exit | h_fork | h_getpid | h_mmap | h_msb_close | h_msb_connect | h_msb_create | h_msb_disconnect
  | h_msb_recv | h_msb_reply | h_msb_send | h_mq_close | h_mq_open | h_mq_receive | h_mq_send | h_mq_unlink | h_munmap | h_spawn

definition SYS_EXIT :: nat where [layout_simps]: "SYS_EXIT = 0"
definition SYS_MMAP :: nat where [layout_simps]: "SYS_MMAP = 1"
definition SYS_MUNMAP :: nat where [layout_simps]: "SYS_MUNMAP = 2"
definition SYS_MQ_OPEN :: nat where [layout_simps]: "SYS_MQ_OPEN = 3"
definition SYS_MQ_CLOSE :: nat where [layout_simps]: "SYS_MQ_CLOSE = 4"
definition SYS_MQ_UNLINK :: nat where [layout_simps]: "SYS_MQ_UNLINK = 5"
definition SYS_MQ_SEND :: nat where [layout_simps]: "SYS_MQ_SEND = 6"
definition SYS_MQ_RECV :: nat where [layout_simps]: "SYS_MQ_RECV = 7"
definition SYS_GETPID :: nat where [layout_simps]: "SYS_GETPID = 8"
definition SYS_SPAWN :: nat where [layout_simps]: "SYS_SPAWN = 9"
definition SYS_FORK :: nat where [layout_simps]: "SYS_FORK = 10"
definition SYS_MSB_CREATE :: nat where [layout_simps]: "SYS_MSB_CREATE = 11"
definition SYS_MSB_CONN :: nat where [layout_simps]: "SYS_MSB_CONN = 12"
definition SYS_MSB_SEND :: nat where [layout_simps]: "SYS_MSB_SEND = 13"
definition SYS_MSB_RECV :: nat where [layout_simps]: "SYS_MSB_RECV = 14"
definition SYS_MSB_REPLY :: nat where [layout_simps]: "SYS_MSB_REPLY = 15"
definition SYS_MSB_DISCONN :: nat where [layout_simps]: "SYS_MSB_DISCONN = 16"
definition SYS_MSB_CLOSE :: nat where [layout_simps]: "SYS_MSB_CLOSE = 17"
definition TOTAL_SYSCALLS :: nat where [layout_simps]: "TOTAL_SYSCALLS = 18"

text \<open>An array with designated elements; those that are not named are null pointers.\<close>

definition designated :: "nat \<Rightarrow> (nat \<times> 'a) list \<Rightarrow> 'a option list" where
  "designated n inits = fold (\<lambda>(i, x) t. t[i := Some x]) inits (replicate n None)"

definition syscall_table :: "syscall_handler option list" where
  "syscall_table = designated TOTAL_SYSCALLS
     [(SYS_EXIT, h_exit), (SYS_FORK, h_fork), (SYS_GETPID, h_getpid), (SYS_MMAP, h_mmap), (SYS_MSB_CLOSE, h_msb_close),
      (SYS_MSB_CONN, h_msb_connect), (SYS_MSB_CREATE, h_msb_create), (SYS_MSB_DISCONN, h_msb_disconnect),
      (SYS_MSB_RECV, h_msb_recv), (SYS_MSB_REPLY, h_msb_reply), (SYS_MSB_SEND, h_msb_send), (SYS_MQ_CLOSE, h_mq_close),
      (SYS_MQ_OPEN, h_mq_open), (SYS_MQ_RECV, h_mq_receive), (SYS_MQ_SEND, h_mq_send), (SYS_MQ_UNLINK, h_mq_unlink),
      (SYS_MUNMAP, h_munmap), (SYS_SPAWN, h_spawn)]"

text \<open>Every number below \<open>TOTAL_SYSCALLS\<close> has a handler, and each handler has one number.\<close>

lemma syscall_table_eq:
  "syscall_table = map Some [h_exit, h_mmap, h_munmap, h_mq_open, h_mq_close, h_mq_unlink, h_mq_send, h_mq_receive, h_getpid,
     h_spawn, h_fork, h_msb_create, h_msb_connect, h_msb_send, h_msb_recv, h_msb_reply, h_msb_disconnect, h_msb_close]"
  by (simp add: syscall_table_def designated_def layout_simps numeral_eq_Suc)

lemma syscall_table_bijective: "None \<notin> set syscall_table" "distinct syscall_table" "length syscall_table = TOTAL_SYSCALLS"
  by (simp_all add: syscall_table_eq layout_simps)

end
