(* ===== verification/Spec2Isabelle.thy ===== *)
theory Spec2Isabelle
  imports Mmu_Setup Kernel_String Kernel_Io Libc_Formatter Mem_User Mqueue_System Task_Args Task_Witness Elf_Load Msgbuf_Create Vfs_Msg Syscalls_Props Alloc_Witness
    Kernel_Rd Rd_Server Vfs_Props Strtox Stdio_Dir Stdio_Line Server_Main Export Kernel_Start
begin

text \<open>
  A verification development for Anthill OS, a small AArch64 microkernel with its C library and
  user-space servers. File names are relative to \<^verbatim>\<open>src/\<close>.

  \<^bold>\<open>The program.\<close> The kernel owns the physical pages, the translation tables and the tasks; it offers
  message queues, message buffers, memory mapping and process calls. The libraries wrap the calls and add
  strings, formatted output, the messages of a 9P-like file protocol, a memory allocator, and buffered files.
  The servers (the file server, the RAM disk, the serial ports) exchange those messages over message queues.

  \<^bold>\<open>How C is modelled.\<close> A C object is the list of its elements and a pointer into it an index or the rest of
  the list; integers keep their width as words; a partial result \<open>None\<close> stands for every point where the code
  leaves its defined behaviour: an access outside an object, a null dereference, a panic, a loop without an
  end. An error code is an ordinary value. State is passed explicitly: physical memory is a function from
  cell addresses to 64-bit words, the memory of a process in the allocator a partial function to bytes, the
  scheduler a record with a map from task addresses to tasks. A loop that need not end is a
  \<open>partial_function (option)\<close>; no fuel is used anywhere, so a result \<open>Some\<close> is a proof that the code returns.
  A call that blocks is modelled by the attempts it makes: an attempt either returns or says that the task
  was blocked and which switch was made, and the resumed attempt is a step of its own. \<^theory_text>\<open>Task_Queues\<close> runs the
  attempts of a task to their end, with the other tasks in between, and there \<open>None\<close> also stands for waiting for ever.

  \<^bold>\<open>Shared theories.\<close> \<^theory_text>\<open>Prelude\<close> (words, bounds-checked access, lists), \<^theory_text>\<open>Bytes\<close> (little-endian numbers),
  \<^theory_text>\<open>Fifo\<close> (the contract of a bounded queue as a locale, with a simulation theorem for whole runs),
  \<^theory_text>\<open>Kernel_Defs\<close> (error codes, memory layout).

  \<^bold>\<open>Output.\<close> \<^theory_text>\<open>Format\<close>, \<^theory_text>\<open>Kernel_Io\<close>, \<^theory_text>\<open>Libc_Formatter\<close>: \<^verbatim>\<open>kernel/io.c\<close>, \<^verbatim>\<open>lib/c/internal/_formatter.c\<close>,
  \<^verbatim>\<open>vsnprintf.c\<close>. The number conversion is proved once over a locale of output devices, and both formatters
  print what a reference \<open>render\<close> of the format says.

  \<^bold>\<open>Memory.\<close> \<^theory_text>\<open>Pmm\<close> (\<^verbatim>\<open>pmm.c\<close>) refines a set of free frames, stated as a locale of frame allocators. \<^theory_text>\<open>Mmu\<close>
  holds the entry functions of \<^verbatim>\<open>mmu.c\<close>, \<^theory_text>\<open>Mem\<close> the mapping functions of \<^verbatim>\<open>mem.c\<close> and the data abort handler.
  \<^theory_text>\<open>Mem_Kernel\<close> and \<^theory_text>\<open>Mem_User\<close> prove the frame accounting of kernel pages, that a mapped page is found again,
  what a failed mapping leaves behind, and the search for free ranges. \<^theory_text>\<open>Mmu_Setup\<close> (\<open>mmu_setup\<close>) is the construction of
  the first tables, checked against a walk of the hardware as its specification.

  \<^bold>\<open>Tasks.\<close> \<^theory_text>\<open>Task\<close> and \<^theory_text>\<open>Task_Life\<close> are \<^verbatim>\<open>task.c\<close>, \<^theory_text>\<open>Elf\<close> is \<^verbatim>\<open>elf.c\<close>. \<^theory_text>\<open>Task_Fair\<close>: the scheduler picks the runnable
  task with the highest counter and starves none; \<^theory_text>\<open>Task_Family\<close>: fork and exit keep the task array and the
  family tree consistent; \<^theory_text>\<open>Task_Args\<close>: the stack of a new program; \<^theory_text>\<open>Elf_Load\<close>: what the loader accepts and loads;
  \<^theory_text>\<open>Task_Witness\<close>: the machines the properties are applied to.

  \<^bold>\<open>Messages in the kernel.\<close> \<^theory_text>\<open>Mqueue\<close> (\<^verbatim>\<open>mqueue.c\<close>) interprets the queue contract with its ring of messages;
  \<^theory_text>\<open>Mqueue_System\<close> is the step relation of all calls with the invariant of its reachable states; a queue created
  with a negative size is no ring, and the invariant says what it is instead. \<^theory_text>\<open>Msgbuf\<close>
  (\<^verbatim>\<open>msgbuf.c\<close>) with \<^theory_text>\<open>Msgbuf_Queue\<close>, which interprets the same contract, \<^theory_text>\<open>Msgbuf_Props\<close> and \<^theory_text>\<open>Msgbuf_Create\<close>.
  \<^theory_text>\<open>Syscalls\<close> puts the components behind the system calls and their wrappers; \<^theory_text>\<open>Syscalls_Props\<close> follows
  \<open>munmap\<close> from the wrapper to the frame allocator.

  \<^bold>\<open>Libraries.\<close> \<^theory_text>\<open>Kernel_String\<close>, \<^theory_text>\<open>Libc_String\<close>, \<^theory_text>\<open>Pstring\<close>: the string functions. \<^theory_text>\<open>Fcall\<close>, \<^theory_text>\<open>Fcall_Wire\<close>,
  \<^theory_text>\<open>Fcall_Codec\<close>: the file messages (\<^verbatim>\<open>lib/c/fcall\<close>), with a locale of field codecs interpreted for every field
  type, the wire form, and the round trip in both directions; \<^theory_text>\<open>Vfs_Msg\<close>: paths and the transport of messages.
  \<^theory_text>\<open>Alloc\<close> is the buddy allocator (\<^verbatim>\<open>_block.c\<close>, \<^verbatim>\<open>malloc.c\<close>, \<^verbatim>\<open>free.c\<close>, \<^verbatim>\<open>calloc.c\<close>, \<^verbatim>\<open>realloc.c\<close>) on byte memory;
  \<^theory_text>\<open>Alloc_Mem\<close> and \<^theory_text>\<open>Alloc_List\<close> lift it to a list of blocks, \<^theory_text>\<open>Alloc_Props\<close> and \<^theory_text>\<open>Alloc_Malloc\<close> show what \<open>malloc\<close>
  gives and keeps, \<^theory_text>\<open>Alloc_Free\<close> where \<open>free\<close> goes wrong, \<^theory_text>\<open>Alloc_Witness\<close> has the heaps.

  \<^theory_text>\<open>Strtox\<close>: the parsing of numbers. \<^theory_text>\<open>Stdio\<close>, \<^theory_text>\<open>Stdio_Dir\<close> (\<^verbatim>\<open>lib/c/internal/_file.c\<close>, \<^verbatim>\<open>stdio\<close>, \<^verbatim>\<open>dirent\<close>, \<^verbatim>\<open>sys/stat\<close>): files and
  directories as streams over the messages of the file server. \<^theory_text>\<open>Stdio_Read\<close>: under the contract of a server that
  answers reads, a locale, a stream gives the bytes of a file; \<^theory_text>\<open>Stdio_Line\<close> has the contract for writing.

  \<^bold>\<open>From a process to a server.\<close> \<^theory_text>\<open>Task_Queues\<close>: what \<open>mq_send\<close> and \<open>mq_receive\<close> do on a queue of the kernel that one
  task writes and another reads, until they return, and one round of the loop of a server. \<^theory_text>\<open>Queue_Server\<close>: the contract of a server that
  answers the messages of one queue on another, a locale, and \<open>vfs_msg_send\<close> under it. \<^theory_text>\<open>Fs_Queue\<close>: the file server passes
  a message on to the server of the file and its answer back, so with such a server below it keeps the same contract, a
  \<open>sublocale\<close>. \<^theory_text>\<open>Stdio_Rd\<close> interprets the contracts with the server of the RAM disk: the process, the file server and the server of the disk are
  three tasks with four queues between them. \<^theory_text>\<open>Stdio_Line\<close> does so with the server of the mini UART. A task that waits
  lets the task it waits for run one round; the ids of the queues that answers are sent to are below 256, because only the lowest byte of such an id is
  read back, and messages are passed on for reads and writes of nodes without a channel.

  \<^bold>\<open>Devices.\<close> \<^theory_text>\<open>Device\<close> (\<^verbatim>\<open>uart.c\<close>, \<^verbatim>\<open>timer.c\<close>, \<^verbatim>\<open>irq.c\<close> of the kernel) and \<^theory_text>\<open>Serial\<close> (\<^verbatim>\<open>modules/pl011\<close>, \<^verbatim>\<open>modules/uart\<close>):
  the hardware is an argument, what a read of a register gives and what a read and a write do.

  \<^bold>\<open>The RAM disk.\<close> \<^theory_text>\<open>Tar\<close> says what it means that a disk holds an archive of files, and writes such disks;
  \<^theory_text>\<open>Kernel_Rd\<close> (\<^verbatim>\<open>kernel/rd.c\<close>) is the search for the first program, \<^theory_text>\<open>Rd\<close> (\<^verbatim>\<open>modules/rd/rd.c\<close>) the files and
  directories of the server: what a lookup finds, what a read returns, and where both go wrong. \<^theory_text>\<open>Rd_Server\<close>
  (\<^verbatim>\<open>modules/rd/main.c\<close>) has the message handlers: the clients stay well-formed under every sequence of messages,
  and a read after an attach answers with the bytes of the file.

  \<^bold>\<open>Clients of the servers.\<close> \<^theory_text>\<open>Vfs_Client\<close> (\<^verbatim>\<open>lib/libvfs\<close>) is the heap of clients and of the files they hold.
  The contract, a list of associations for every client, is a locale that the model interprets; removals are
  outside it, because they leave dangling pointers.

  \<^bold>\<open>The file server.\<close> \<^theory_text>\<open>Vnode\<close> and \<^theory_text>\<open>Vnode_Msg\<close> (\<^verbatim>\<open>modules/vfs/vnode.c\<close>) are the tree of nodes and the messages to the
  servers below, \<^theory_text>\<open>Vfs_Server\<close> (\<^verbatim>\<open>vfs.c\<close>, \<^verbatim>\<open>main.c\<close>) the first nodes and the message handlers. \<^theory_text>\<open>Vfs_Props\<close>: what a walk finds
  and reports, which file id a forwarded message carries, and what a fifth entry and a clunk do to the memory.

  \<^bold>\<open>Programs.\<close> \<^theory_text>\<open>Server_Main\<close> has the \<open>main\<close> functions of the servers: how each opens its queue and gives it up, and its
  loop over the messages it receives. \<^theory_text>\<open>Shell\<close> is \<open>posix_spawn\<close> (\<^verbatim>\<open>lib/c/spawn\<close>) and the shell (\<^verbatim>\<open>bin/sh\<close>) on top of
  the streams, the system calls and the allocator: how a line is read into the heap and split, what its commands do, and why no program is
  started. \<^theory_text>\<open>Export\<close> is \<^verbatim>\<open>bin/exportfs\<close> with the start and the end of a process (\<^verbatim>\<open>lib/c/init.c\<close>, \<^verbatim>\<open>exit.c\<close>),
  \<^theory_text>\<open>Kernel_Start\<close> what a panic prints (\<^verbatim>\<open>kernel/panic.c\<close>) and the table of system calls (\<^verbatim>\<open>kernel/syscalls.c\<close>).

  \<^bold>\<open>Not modelled.\<close> Assembly: the entry points, the switch between tasks, the system registers and the \<open>svc\<close> instruction.
  The tests of the kernel and of the libraries. \<^verbatim>\<open>kernel/main.c\<close>, which sets one field, runs the tests and calls the
  scheduler for ever, and \<^verbatim>\<open>bin/hello\<close>, which is empty. The dynamic linker \<^verbatim>\<open>lib/c/ld.c\<close>, which the build leaves out
  and which uses types and constants that no file of the repository declares. Headers with prototypes only.
\<close>

end
